(* ===== verification/Prelude.thy ===== *)
theory Prelude
  imports Main "HOL-Library.Multiset" "HOL-Library.List_Lexorder" "HOL-Library.Char_ord"
begin

text \<open>
  Shared vocabulary of the development: the types every component uses (identifiers, clock
  readings, error values), the result type of a fallible call, the two sequencing combinators
  that mirror Go's \<open>if err != nil { return err }\<close>, and generic facts on lists and counts.
  Identifiers are the rendered form of a \<open>types.ID\<close> (a UUID string), because the code
  concatenates and compares rendered identifiers. Clock readings are whole seconds.
\<close>

named_theorems unit_simps "defining equations of single-row updates"
named_theorems store_laws "what one store operation leaves in the store"

type_synonym uid = string
type_synonym time = int

datatype api_error =
    NotFound string
  | Conflict string
  | Internal string
  | ValidationError string
  | ConfigurationIncomplete "string list"
  | StaleSnapshot
  | OtherError string

type_synonym 'a res = "api_error + 'a"

text \<open>A call that reads and writes a store: the outcome and the store it leaves behind.\<close>

type_synonym ('s, 'a) op = "'s \<Rightarrow> 'a res \<times> 's"

definition obind :: "('s, 'a) op \<Rightarrow> ('a \<Rightarrow> ('s, 'b) op) \<Rightarrow> ('s, 'b) op" where
  "obind m k = (\<lambda>s. case m s of (Inl e, s') \<Rightarrow> (Inl e, s') | (Inr a, s') \<Rightarrow> k a s')"

definition oreturn :: "'a \<Rightarrow> ('s, 'a) op" where
  "oreturn a = (\<lambda>s. (Inr a, s))"

definition othrow :: "api_error \<Rightarrow> ('s, 'a) op" where
  "othrow e = (\<lambda>s. (Inl e, s))"

text \<open>A transaction: the store is kept only when the body succeeds (deferred rollback).\<close>

definition in_tx :: "('s, 'a) op \<Rightarrow> ('s, 'a) op" where
  "in_tx m = (\<lambda>s. case m s of (Inl e, _) \<Rightarrow> (Inl e, s) | (Inr a, s') \<Rightarrow> (Inr a, s'))"

lemma obind_Inr [simp]: "m s = (Inr a, s') \<Longrightarrow> obind m k s = k a s'"
  by (simp add: obind_def)

lemma obind_Inl [simp]: "m s = (Inl e, s') \<Longrightarrow> obind m k s = (Inl e, s')"
  by (simp add: obind_def)

lemma obind_eq_Inr:
  "obind m k s = (Inr b, t) \<longleftrightarrow> (\<exists>a s'. m s = (Inr a, s') \<and> k a s' = (Inr b, t))"
  by (auto simp: obind_def split: prod.splits sum.splits)

lemma oreturn_apply [simp]: "oreturn a s = (Inr a, s)"
  by (simp add: oreturn_def)

lemma othrow_apply [simp]: "othrow e s = (Inl e, s)"
  by (simp add: othrow_def)

lemma in_tx_Inl: "in_tx m s = (Inl e, t) \<Longrightarrow> t = s"
  by (auto simp: in_tx_def split: prod.splits sum.splits)

lemma in_tx_Inr: "in_tx m s = (Inr a, t) \<longleftrightarrow> m s = (Inr a, t)"
  by (auto simp: in_tx_def split: prod.splits sum.splits)

definition is_ok :: "'a res \<Rightarrow> bool" where
  "is_ok r = (case r of Inl _ \<Rightarrow> False | Inr _ \<Rightarrow> True)"

lemma is_ok_simps [simp]: "is_ok (Inr a)" "\<not> is_ok (Inl e)"
  by (simp_all add: is_ok_def)

text \<open>Counting the rows that satisfy a predicate, as SQL's \<open>COUNT(*) ... WHERE\<close> does.\<close>

definition count_if :: "('a \<Rightarrow> bool) \<Rightarrow> 'a list \<Rightarrow> int" where
  "count_if P xs = int (length (filter P xs))"

lemma count_if_Nil [simp]: "count_if P [] = 0"
  by (simp add: count_if_def)

lemma count_if_Cons [simp]: "count_if P (x # xs) = (if P x then 1 else 0) + count_if P xs"
  by (simp add: count_if_def)

lemma count_if_append [simp]: "count_if P (xs @ ys) = count_if P xs + count_if P ys"
  by (simp add: count_if_def)

lemma count_if_nonneg [simp]: "0 \<le> count_if P xs"
  by (simp add: count_if_def)

lemma count_if_le_length: "count_if P xs \<le> int (length xs)"
  by (simp add: count_if_def)

lemma count_if_mono: "(\<And>x. x \<in> set xs \<Longrightarrow> P x \<Longrightarrow> Q x) \<Longrightarrow> count_if P xs \<le> count_if Q xs"
  by (induction xs) auto

lemma count_if_cong: "(\<And>x. x \<in> set xs \<Longrightarrow> P x = Q x) \<Longrightarrow> count_if P xs = count_if Q xs"
  by (induction xs) auto

lemma count_if_filter: "count_if P (filter Q xs) = count_if (\<lambda>x. Q x \<and> P x) xs"
  by (induction xs) auto

lemma count_if_split: "count_if P xs = count_if (\<lambda>x. P x \<and> Q x) xs + count_if (\<lambda>x. P x \<and> \<not> Q x) xs"
  by (induction xs) auto

lemma count_if_map: "count_if P (map f xs) = count_if (P \<circ> f) xs"
  by (induction xs) auto

lemma count_if_zero: "count_if P xs = 0 \<longleftrightarrow> (\<forall>x\<in>set xs. \<not> P x)"
  by (simp add: count_if_def filter_empty_conv)

text \<open>Distinct keys of a list, as \<open>COUNT(DISTINCT ...)\<close> and the Go maps keyed by them.\<close>

definition keys_of :: "('a \<Rightarrow> 'k) \<Rightarrow> 'a list \<Rightarrow> 'k list" where
  "keys_of f xs = remdups (map f xs)"

lemma set_keys_of [simp]: "set (keys_of f xs) = f ` set xs"
  by (simp add: keys_of_def)

lemma distinct_keys_of [simp]: "distinct (keys_of f xs)"
  by (simp add: keys_of_def)

lemma length_keys_of: "length (keys_of f xs) = card (f ` set xs)"
  by (simp add: keys_of_def length_remdups_card_conv)

lemma length_filter_distinct:
  assumes "distinct xs"
  shows "length (filter P xs) = card {x \<in> set xs. P x}"
proof -
  have "length (filter P xs) = card (set (filter P xs))"
    using assms distinct_card [of "filter P xs"] by simp
  then show ?thesis by simp
qed

text \<open>
  The loop that keeps the largest element seen so far and remembers whether the largest size was
  reached twice. The code uses it on groups (keys with their group sizes) and on cliques.
\<close>

definition pick_step :: "('a \<Rightarrow> nat) \<Rightarrow> 'a \<Rightarrow> 'a option \<times> nat \<times> bool \<Rightarrow> 'a option \<times> nat \<times> bool" where
  "pick_step sz x st =
     (case st of (best, n, tie) \<Rightarrow>
        if sz x > n then (Some x, sz x, False)
        else if sz x = n then (best, n, True)
        else st)"

definition pick_largest :: "('a \<Rightarrow> nat) \<Rightarrow> 'a list \<Rightarrow> 'a option" where
  "pick_largest sz xs =
     (case fold (pick_step sz) xs (None, 0, False) of (best, n, tie) \<Rightarrow> if tie then None else best)"

definition unique_largest :: "('a \<Rightarrow> nat) \<Rightarrow> 'a set \<Rightarrow> 'a \<Rightarrow> bool" where
  "unique_largest sz X x \<longleftrightarrow> x \<in> X \<and> (\<forall>y\<in>X. y \<noteq> x \<longrightarrow> sz y < sz x)"

lemma pick_fold_inv:
  assumes "distinct xs" "\<forall>x\<in>set xs. 0 < sz x"
    and "fold (pick_step sz) xs (None, 0, False) = (best, n, tie)"
  shows "(\<forall>x\<in>set xs. sz x \<le> n) \<and>
    (case best of None \<Rightarrow> xs = [] \<and> n = 0 | Some b \<Rightarrow> b \<in> set xs \<and> sz b = n) \<and>
    (tie \<longleftrightarrow> (\<exists>x\<in>set xs. best \<noteq> Some x \<and> sz x = n))"
  using assms
proof (induction xs arbitrary: best n tie rule: rev_induct)
  case Nil
  then show ?case by simp
next
  case (snoc x xs)
  obtain b0 n0 t0 where f: "fold (pick_step sz) xs (None, 0, False) = (b0, n0, t0)"
    by (cases "fold (pick_step sz) xs (None, 0, False)") auto
  have ih: "(\<forall>x\<in>set xs. sz x \<le> n0) \<and>
      (case b0 of None \<Rightarrow> xs = [] \<and> n0 = 0 | Some b \<Rightarrow> b \<in> set xs \<and> sz b = n0) \<and>
      (t0 \<longleftrightarrow> (\<exists>x\<in>set xs. b0 \<noteq> Some x \<and> sz x = n0))"
    using snoc.IH [OF _ _ f] snoc.prems by simp
  have step: "(best, n, tie) = pick_step sz x (b0, n0, t0)" using snoc.prems(3) f by simp
  have x: "0 < sz x" "x \<notin> set xs" using snoc.prems by auto
  consider "sz x > n0" | "sz x = n0" | "sz x < n0" by linarith
  then show ?case
  proof cases
    case 1
    then have "best = Some x" "n = sz x" "\<not> tie" using step by (auto simp: pick_step_def)
    then show ?thesis using ih 1 by fastforce
  next
    case 2
    then have "best = b0" "n = n0" "tie" using step by (auto simp: pick_step_def)
    then show ?thesis using ih 2 x by (cases b0) auto
  next
    case 3
    then have "best = b0" "n = n0" "tie = t0" using step by (auto simp: pick_step_def)
    then show ?thesis using ih 3 by (cases b0) auto
  qed
qed

lemma pick_largest_iff:
  assumes "distinct xs" "\<forall>x\<in>set xs. 0 < sz x"
  shows "pick_largest sz xs = Some x \<longleftrightarrow> unique_largest sz (set xs) x"
proof -
  obtain best n tie where f: "fold (pick_step sz) xs (None, 0, False) = (best, n, tie)"
    by (cases "fold (pick_step sz) xs (None, 0, False)") auto
  note inv = pick_fold_inv [OF assms f]
  show ?thesis
  proof (cases best)
    case None
    then show ?thesis using inv by (simp add: pick_largest_def f unique_largest_def)
  next
    case (Some b)
    then have b: "b \<in> set xs" "sz b = n" "\<forall>x\<in>set xs. sz x \<le> n"
      "tie \<longleftrightarrow> (\<exists>x\<in>set xs. x \<noteq> b \<and> sz x = n)"
      using inv by auto
    have "unique_largest sz (set xs) x \<longleftrightarrow> \<not> tie \<and> x = b"
    proof
      assume u: "unique_largest sz (set xs) x"
      then have "x = b" using b(1-3) unfolding unique_largest_def by (metis leD)
      then show "\<not> tie \<and> x = b" using u b(2,4) by (auto simp: unique_largest_def)
    next
      assume a: "\<not> tie \<and> x = b"
      then show "unique_largest sz (set xs) x"
        using b unfolding unique_largest_def by (metis le_neq_implies_less)
    qed
    then show ?thesis by (auto simp: pick_largest_def f Some)
  qed
qed

lemma pick_largest_order:
  assumes "distinct xs" "distinct ys" "set xs = set ys" "\<forall>x\<in>set xs. 0 < sz x"
  shows "pick_largest sz xs = pick_largest sz ys"
proof (rule option.expand)
  show "(pick_largest sz xs = None) = (pick_largest sz ys = None)"
    using pick_largest_iff [of xs sz] pick_largest_iff [of ys sz] assms
    by (metis not_None_eq)
next
  assume "pick_largest sz xs \<noteq> None"
  then obtain x where "pick_largest sz xs = Some x" by blast
  then show "the (pick_largest sz xs) = the (pick_largest sz ys)"
    using pick_largest_iff [of xs sz x] pick_largest_iff [of ys sz x] assms by simp
qed

lemma pick_largest_in: "pick_largest sz xs = Some x \<Longrightarrow> x \<in> set xs"
proof -
  have inv: "fst (fold (pick_step sz) xs (None, 0, False)) = Some x \<longrightarrow> x \<in> set xs" for xs
  proof (induction xs rule: rev_induct)
    case (snoc y ys)
    obtain b n t where "fold (pick_step sz) ys (None, 0, False) = (b, n, t)"
      by (cases "fold (pick_step sz) ys (None, 0, False)") auto
    with snoc show ?case by (simp add: pick_step_def [of sz y "(b, n, t)"])
  qed simp
  assume "pick_largest sz xs = Some x"
  then show ?thesis using inv [of xs] by (auto simp: pick_largest_def split: prod.splits if_splits)
qed

end
