(* ===== verification/Float64.thy ===== *)
theory Float64
  imports Complex_Main "HOL-Library.Log_Nat"
begin

text \<open>
  Go's \<open>float64\<close>, restricted to its finite values: a rational number that IEEE 754 binary64
  can hold. \<open>rnd\<close> is round-to-nearest, ties-to-even, with 53 significant bits and the
  subnormal exponent floor, so an arithmetic operation of the code is the exact rational
  operation followed by \<open>rnd\<close>. Results beyond the largest finite value are recognised by
  \<open>overflows\<close>; the code paths that can produce them say what happens there. Facts proved:
  \<open>rnd\<close> is monotone, exact on integers up to \<open>2^53\<close>, and a proper fraction of two such
  integers never rounds up to one.
\<close>

type_synonym f64 = rat

definition ilog2 :: "rat \<Rightarrow> int" where
  "ilog2 x = (let (a, b) = quotient_of x; e = bitlen a - bitlen b
              in if 2 powi e \<le> x then e else e - 1)"

definition rne :: "rat \<Rightarrow> int" where
  "rne x = (let f = floor x; d = x - of_int f
            in if d < 1/2 then f else if d > 1/2 then f + 1
               else if even f then f else f + 1)"

definition f64_exp :: "rat \<Rightarrow> int" where
  "f64_exp x = max (-1074) (ilog2 \<bar>x\<bar> - 52)"

definition rnd :: "rat \<Rightarrow> f64" where
  "rnd x = (if x = 0 then 0
            else of_int (rne (x / 2 powi (f64_exp x))) * 2 powi (f64_exp x))"

definition overflows :: "rat \<Rightarrow> bool" where
  "overflows x \<longleftrightarrow> 2 ^ 1024 \<le> \<bar>rnd x\<bar>"

subsection \<open>The exponent\<close>

lemma powi_split: "(2::rat) powi (m + n) = 2 powi m * 2 powi n"
  by (simp add: power_int_add)

lemma bitlen_powi:
  assumes "0 < a"
  shows "2 powi (bitlen a - 1) \<le> (of_int a :: rat)" and "(of_int a :: rat) < 2 powi (bitlen a)"
proof -
  have pos: "0 < bitlen a" using assms bitlen_eq_zero_iff [of a] bitlen_nonneg [of a] by linarith
  have b: "2 ^ nat (bitlen a - 1) \<le> a \<and> a < 2 ^ nat (bitlen a)"
    using bitlen_bounds [OF assms] .
  then have "(of_int (2 ^ nat (bitlen a - 1)) :: rat) \<le> of_int a"
    and "(of_int a :: rat) < of_int (2 ^ nat (bitlen a))"
    by (simp_all only: of_int_le_iff of_int_less_iff)
  then show "2 powi (bitlen a - 1) \<le> (of_int a :: rat)" and "(of_int a :: rat) < 2 powi (bitlen a)"
    using pos by (simp_all add: power_int_def)
qed

lemma ilog2_bounds:
  assumes "0 < x"
  shows "2 powi (ilog2 x) \<le> x" and "x < 2 powi (ilog2 x + 1)"
proof -
  obtain a b where q: "quotient_of x = (a, b)" by (cases "quotient_of x")
  have b: "0 < b" using quotient_of_denom_pos [OF q] .
  have x: "x = of_int a / of_int b" using quotient_of_div [OF q] .
  have a: "0 < a" using assms b x by (simp add: zero_less_divide_iff)
  let ?e = "bitlen a - bitlen b"
  have "x < 2 powi (bitlen a) / 2 powi (bitlen b - 1)"
    unfolding x using bitlen_powi [OF a] bitlen_powi [OF b] a b
    by (intro frac_less) auto
  also have "\<dots> = 2 powi (?e + 1)" by (simp add: power_int_diff power_int_add)
  finally have up: "x < 2 powi (?e + 1)" .
  have "2 powi (bitlen a - 1) / 2 powi (bitlen b) < x"
    unfolding x using bitlen_powi [OF a] bitlen_powi [OF b] a b
    by (intro frac_less2) auto
  moreover have "2 powi (?e - 1) = (2::rat) powi (bitlen a - 1) / 2 powi (bitlen b)"
    by (simp add: power_int_diff)
  ultimately have low: "2 powi (?e - 1) \<le> x" by simp
  show "2 powi (ilog2 x) \<le> x" and "x < 2 powi (ilog2 x + 1)"
    using up low by (simp_all add: ilog2_def q Let_def)
qed

lemma ilog2_mono:
  assumes "0 < x" "x \<le> y"
  shows "ilog2 x \<le> ilog2 y"
proof (rule ccontr)
  assume "\<not> ilog2 x \<le> ilog2 y"
  then have "(2::rat) powi (ilog2 y + 1) \<le> 2 powi (ilog2 x)"
    by (intro power_int_increasing) auto
  with ilog2_bounds [of x] ilog2_bounds [of y] assms show False by linarith
qed

lemma ilog2_less: "0 < x \<Longrightarrow> x < 2 powi n \<Longrightarrow> ilog2 x < n"
proof (rule ccontr)
  assume x: "0 < x" "x < 2 powi n" and "\<not> ilog2 x < n"
  then have "(2::rat) powi n \<le> 2 powi (ilog2 x)" by (intro power_int_increasing) auto
  with ilog2_bounds(1) [of x] x show False by linarith
qed

subsection \<open>Rounding\<close>

lemma rne_of_int [simp]: "rne (of_int n) = n"
  by (simp add: rne_def)

lemma rne_ge_floor: "floor x \<le> rne x" and rne_le_floor: "rne x \<le> floor x + 1"
  by (simp_all add: rne_def Let_def)

lemma rne_mono:
  assumes "x \<le> y"
  shows "rne x \<le> rne y"
proof (cases "floor x = floor y")
  case True
  with assms show ?thesis by (auto simp: rne_def Let_def)
next
  case False
  with assms have "floor x + 1 \<le> floor y" using floor_mono [of x y] by linarith
  with rne_le_floor [of x] rne_ge_floor [of y] show ?thesis by linarith
qed

lemma rne_minus: "rne (- x) = - rne x"
proof (cases "x = of_int (floor x)")
  case True
  then obtain n where "x = of_int n" by blast
  then show ?thesis using rne_of_int [of "- n"] rne_of_int [of n] by simp
next
  case False
  then have "floor (- x) = - floor x - 1"
    using floor_correct [of x] le_less [of "of_int (floor x)" x] by (intro floor_unique) auto
  then show ?thesis by (auto simp: rne_def Let_def)
qed

lemma rnd_0 [simp]: "rnd 0 = 0"
  by (simp add: rnd_def)

lemma rnd_minus: "rnd (- x) = - rnd x"
  by (simp add: rnd_def f64_exp_def rne_minus)

lemma powi_nonneg_int: "0 \<le> k \<Longrightarrow> (2::rat) powi k = of_int (2 ^ nat k)"
  by (simp add: power_int_def)

lemma rnd_exact_aux:
  assumes "x = of_int m * 2 powi (f64_exp x)"
  shows "rnd x = x"
proof (cases "x = 0")
  case False
  have "x / 2 powi (f64_exp x) = of_int m"
    by (subst assms) simp
  then show ?thesis using False assms by (simp add: rnd_def)
qed simp

lemma rnd_le_powi:
  assumes "0 < x" "x \<le> 2 powi n" "f64_exp x \<le> n"
  shows "rnd x \<le> 2 powi n"
proof -
  let ?e = "f64_exp x"
  have "x / 2 powi ?e \<le> 2 powi n / 2 powi ?e"
    using assms by (intro divide_right_mono) auto
  also have "\<dots> = 2 powi (n - ?e)" by (simp add: power_int_diff)
  also have "\<dots> = of_int (2 ^ nat (n - ?e))" using assms by (simp add: powi_nonneg_int)
  finally have "rne (x / 2 powi ?e) \<le> 2 ^ nat (n - ?e)"
    using rne_mono rne_of_int by metis
  then have "(of_int (rne (x / 2 powi ?e)) :: rat) \<le> 2 powi (n - ?e)"
    using assms by (simp add: powi_nonneg_int)
  then have "of_int (rne (x / 2 powi ?e)) * 2 powi ?e \<le> (2::rat) powi (n - ?e) * 2 powi ?e"
    by (intro mult_right_mono) auto
  also have "\<dots> = 2 powi n" by (simp flip: powi_split)
  finally show ?thesis using assms by (simp add: rnd_def)
qed

lemma rnd_ge_powi:
  assumes "2 powi n \<le> x" "f64_exp x \<le> n"
  shows "2 powi n \<le> rnd x"
proof -
  let ?e = "f64_exp x"
  have x: "0 < x" using assms(1) zero_less_power_int [of "2::rat" n] by linarith
  have "of_int (2 ^ nat (n - ?e)) = (2::rat) powi n / 2 powi ?e"
    using assms(2) powi_nonneg_int [of "n - ?e"] by (simp add: power_int_diff)
  also have "\<dots> \<le> x / 2 powi ?e" using assms by (intro divide_right_mono) auto
  finally have "2 ^ nat (n - ?e) \<le> rne (x / 2 powi ?e)"
    using rne_mono rne_of_int by metis
  then have "(2::rat) powi (n - ?e) \<le> of_int (rne (x / 2 powi ?e))"
    using assms(2) by (simp add: powi_nonneg_int)
  then have "(2::rat) powi (n - ?e) * 2 powi ?e \<le> of_int (rne (x / 2 powi ?e)) * 2 powi ?e"
    by (intro mult_right_mono) auto
  moreover have "(2::rat) powi (n - ?e) * 2 powi ?e = 2 powi n" by (simp flip: powi_split)
  ultimately show ?thesis using x by (simp add: rnd_def)
qed

lemma rnd_mono_pos:
  assumes "0 < x" "x \<le> y"
  shows "rnd x \<le> rnd y"
proof (cases "f64_exp x = f64_exp y")
  case True
  then have "x / 2 powi (f64_exp x) \<le> y / 2 powi (f64_exp y)"
    using assms by (simp add: divide_right_mono)
  then show ?thesis using assms True by (auto simp: rnd_def intro!: mult_right_mono rne_mono)
next
  case False
  let ?l = "ilog2 y"
  have l: "ilog2 x \<le> ?l" using assms by (rule ilog2_mono)
  with False assms have e: "f64_exp y = ?l - 52" "f64_exp x < f64_exp y"
    by (auto simp: f64_exp_def)
  with l False assms have lt: "ilog2 x + 1 \<le> ?l" by (auto simp: f64_exp_def)
  have "x \<le> 2 powi (ilog2 x + 1)" using ilog2_bounds(2) [OF assms(1)] by simp
  also have "\<dots> \<le> 2 powi ?l" using lt by (intro power_int_increasing) auto
  finally have "rnd x \<le> 2 powi ?l" using assms e by (intro rnd_le_powi) auto
  also have "\<dots> \<le> rnd y" using assms e ilog2_bounds(1) [of y] by (intro rnd_ge_powi) auto
  finally show ?thesis .
qed

lemma rnd_nonneg: "0 \<le> x \<Longrightarrow> 0 \<le> rnd x"
  using rne_mono [of 0 "x / 2 powi (f64_exp x)"] rne_of_int [of 0] by (simp add: rnd_def)

lemma rnd_mono: "x \<le> y \<Longrightarrow> rnd x \<le> rnd y"
proof -
  assume xy: "x \<le> y"
  consider "0 < x" | "x \<le> 0" "0 \<le> y" | "y < 0" by linarith
  then show ?thesis
  proof cases
    case 1 with xy show ?thesis by (rule rnd_mono_pos [rotated])
  next
    case 2
    then have "0 \<le> rnd (- x)" "0 \<le> rnd y" by (simp_all add: rnd_nonneg)
    then show ?thesis by (simp add: rnd_minus)
  next
    case 3
    with xy have "rnd (- y) \<le> rnd (- x)" by (intro rnd_mono_pos) auto
    then show ?thesis by (simp add: rnd_minus)
  qed
qed

lemma rnd_dyadic:
  assumes "\<bar>m\<bar> \<le> 2 ^ 53" "-1074 \<le> k"
  shows "rnd (of_int m * 2 powi k) = of_int m * 2 powi k"
proof (cases "m = 0")
  case False
  let ?x = "of_int m * 2 powi k :: rat"
  have ax: "\<bar>?x\<bar> = of_int \<bar>m\<bar> * 2 powi k" by (simp add: abs_mult)
  show ?thesis
  proof (cases "\<bar>m\<bar> = 2 ^ 53")
    case True
    then have x: "\<bar>?x\<bar> = 2 powi (k + 53)" using ax by (simp add: power_int_add)
    have "ilog2 \<bar>?x\<bar> < k + 54"
      unfolding x by (intro ilog2_less) (auto intro!: power_int_strict_increasing)
    then have e: "f64_exp ?x \<le> k + 1" using assms by (simp add: f64_exp_def)
    have "(of_int m :: rat) = of_int (sgn m * \<bar>m\<bar>)" by (simp only: sgn_mult_abs)
    then have "?x = of_int (sgn m) * \<bar>?x\<bar>" by (simp add: ax)
    also have "\<dots> = of_int (sgn m) * (2 powi (k + 53 - f64_exp ?x) * 2 powi (f64_exp ?x))"
      by (simp add: x flip: powi_split)
    also have "\<dots> = of_int (sgn m * 2 ^ nat (k + 53 - f64_exp ?x)) * 2 powi (f64_exp ?x)"
      using e by (simp add: powi_nonneg_int)
    finally show ?thesis by (rule rnd_exact_aux)
  next
    case lt: False
    have "\<bar>?x\<bar> < 2 powi (k + 53)"
    proof -
      have "\<bar>m\<bar> < 2 ^ 53" using lt assms by linarith
      then have "(of_int \<bar>m\<bar> :: rat) < of_int (2 ^ 53)" by (simp only: of_int_less_iff)
      then show ?thesis unfolding ax by (simp add: power_int_add)
    qed
    then have "ilog2 \<bar>?x\<bar> < k + 53" using False by (intro ilog2_less) auto
    then have e: "f64_exp ?x \<le> k" using assms by (simp add: f64_exp_def)
    have "?x = of_int m * (2 powi (k - f64_exp ?x) * 2 powi (f64_exp ?x))"
      by (simp flip: powi_split)
    also have "\<dots> = of_int (m * 2 ^ nat (k - f64_exp ?x)) * 2 powi (f64_exp ?x)"
      using e by (simp add: powi_nonneg_int)
    finally show ?thesis by (rule rnd_exact_aux)
  qed
qed simp

lemma rnd_int: "\<bar>m\<bar> \<le> 2 ^ 53 \<Longrightarrow> rnd (of_int m) = of_int m"
  using rnd_dyadic [of m 0] by simp

lemma rnd_1 [simp]: "rnd 1 = 1"
  using rnd_int [of 1] by simp

lemma rnd_lt_1:
  assumes "x \<le> 1 - 1 / 2 ^ 53"
  shows "rnd x < 1"
proof -
  have "(1::rat) - 1 / 2 ^ 53 = of_int (2 ^ 53 - 1) * 2 powi (- 53)"
    by (simp add: power_int_minus field_simps)
  then have "rnd (1 - 1 / 2 ^ 53) = 1 - 1 / 2 ^ 53"
    using rnd_dyadic [of "2 ^ 53 - 1" "- 53"] by simp
  with rnd_mono [OF assms] show ?thesis by simp
qed

text \<open>A proper fraction of two integers that fit in 53 bits never rounds up to one.\<close>

lemma rnd_fraction_lt_1:
  assumes "0 \<le> m" "m < t" "t \<le> 2 ^ 53"
  shows "rnd (of_int m / of_int t) < 1"
proof (rule rnd_lt_1)
  have "(of_int m :: rat) / of_int t \<le> (of_int t - 1) / of_int t"
    using assms by (intro divide_right_mono) (simp_all flip: of_int_1_less_iff add: of_int_le_iff)
  also have "\<dots> = 1 - 1 / of_int t" using assms by (simp add: field_simps)
  also have "(1::rat) / 2 ^ 53 \<le> 1 / of_int t"
  proof -
    have "(of_int t :: rat) \<le> of_int (2 ^ 53)" using assms by (simp only: of_int_le_iff)
    then show ?thesis using assms by (intro divide_left_mono) auto
  qed
  then have "1 - 1 / of_int t \<le> (1::rat) - 1 / 2 ^ 53" by simp
  finally show "of_int m / of_int t \<le> (1::rat) - 1 / 2 ^ 53" .
qed

end
