(* ===== verification/Accounts.thy ===== *)
theory Accounts
  imports Prelude Float64
begin

text \<open>
  Volunteer accounts: the identity a result is attributed to (\<open>internal/trust/model.go\<close>), the
  account standing every enforcement point sees (\<open>internal/volunteer/model.go\<close> and its SQL twins
  in \<open>workunit/standing_sql.go\<close> and \<open>standing/backpressure.go\<close>), the automatic rejection-rate
  ladder (\<open>standing/backpressure.go\<close>), the operator actions on standing
  (\<open>standing/pgx-repo.go\<close>), and the table of trust scores (\<open>trust/pgx-repo.go\<close>). Of a volunteer
  row the identity, standing and rejection-signal columns are kept; the free-text
  \<open>standing_reason\<close> is not.
\<close>

subsection \<open>Volunteers\<close>

record volunteer =
  vol_id :: uid
  vol_did :: "string option"
  vol_did_binding_status :: "string option"
  vol_did_frozen_until :: "time option"
  vol_standing :: string
  vol_benched_until :: "time option"
  vol_standing_source :: string
  vol_standing_changed_at :: "time option"
  vol_rejection_good :: f64
  vol_rejection_bad :: f64
  vol_rejection_updated_at :: "time option"
  vol_benchmark_fpops :: f64

abbreviation "standing_ok \<equiv> ''OK''"
abbreviation "standing_probation \<equiv> ''PROBATION''"
abbreviation "standing_benched \<equiv> ''BENCHED''"

definition subject_for_volunteer_id :: "uid \<Rightarrow> string" where
  "subject_for_volunteer_id i = ''vol:'' @ i"

definition subject_for_volunteer :: "volunteer \<Rightarrow> string" where
  "subject_for_volunteer v =
     (case (vol_did v, vol_did_binding_status v) of
        (Some d, Some st) \<Rightarrow>
          (if d \<noteq> '''' \<and> (st = ''OK'' \<or> st = ''STALE'') then d else subject_for_volunteer_id (vol_id v))
      | _ \<Rightarrow> subject_for_volunteer_id (vol_id v))"

definition quorum_power_suppressed :: "volunteer \<Rightarrow> time \<Rightarrow> bool" where
  "quorum_power_suppressed v now \<longleftrightarrow>
     vol_did_binding_status v = Some ''STALE'' \<or>
     (case vol_did_frozen_until v of None \<Rightarrow> False | Some t \<Rightarrow> t > now)"

lemma subject_for_volunteer_id_inj [simp]:
  "subject_for_volunteer_id i = subject_for_volunteer_id j \<longleftrightarrow> i = j"
  by (simp add: subject_for_volunteer_id_def)

text \<open>Two devices with the same live binding are one subject; unbound devices never are.\<close>

lemma subject_for_volunteer_bound:
  assumes "vol_did v = Some d" "d \<noteq> ''''" "vol_did_binding_status v \<in> {Some ''OK'', Some ''STALE''}"
  shows "subject_for_volunteer v = d"
  using assms by (auto simp: subject_for_volunteer_def)

lemma subject_for_volunteer_unbound:
  assumes "vol_did_binding_status v \<notin> {Some ''OK'', Some ''STALE''}"
  shows "subject_for_volunteer v = subject_for_volunteer_id (vol_id v)"
  using assms by (auto simp: subject_for_volunteer_def split: option.splits)

text \<open>The SQL twin of the subject, the one every dispatch query embeds.\<close>

definition subject_expr_sql :: "volunteer \<Rightarrow> string" where
  "subject_expr_sql v =
     (if vol_did v \<noteq> None \<and> vol_did v \<noteq> Some [] \<and>
         vol_did_binding_status v \<in> {Some ''OK'', Some ''STALE''}
      then the (vol_did v) else ''vol:'' @ vol_id v)"

lemma subject_expr_sql_eq: "subject_expr_sql = subject_for_volunteer"
  by (rule ext) (auto simp: subject_expr_sql_def subject_for_volunteer_def subject_for_volunteer_id_def
      split: option.splits)

subsection \<open>Effective standing\<close>

definition effective_standing :: "string \<Rightarrow> time option \<Rightarrow> time \<Rightarrow> string" where
  "effective_standing standing benched_until now =
     (if standing = standing_benched then
        (case benched_until of
           None \<Rightarrow> standing_benched
         | Some t \<Rightarrow> (if t > now then standing_benched else standing_probation))
      else if standing = standing_probation then standing_probation
      else standing_ok)"

text \<open>
  The SQL expression, over the columns of the volunteer row an outer join may leave absent
  (\<open>None\<close>: every column NULL).
\<close>

definition standing_expr_sql :: "time \<Rightarrow> volunteer option \<Rightarrow> string" where
  "standing_expr_sql now v =
     (case v of
        None \<Rightarrow> standing_ok
      | Some v \<Rightarrow>
          (if vol_standing v = standing_benched \<and>
              (vol_benched_until v = None \<or> the (vol_benched_until v) > now) then standing_benched
           else if vol_standing v \<in> {standing_probation, standing_benched} then standing_probation
           else standing_ok))"

definition eff_standing :: "time \<Rightarrow> volunteer \<Rightarrow> string" where
  "eff_standing now v = effective_standing (vol_standing v) (vol_benched_until v) now"

lemma standing_expr_sql_eq: "standing_expr_sql now (Some v) = eff_standing now v"
  by (auto simp: standing_expr_sql_def eff_standing_def effective_standing_def split: option.splits)

lemma eff_standing_range: "eff_standing now v \<in> {standing_ok, standing_probation, standing_benched}"
  by (auto simp: eff_standing_def effective_standing_def split: option.splits)

lemma eff_standing_later:
  "now \<le> now' \<Longrightarrow> eff_standing now v = standing_ok \<longleftrightarrow> eff_standing now' v = standing_ok"
  by (auto simp: eff_standing_def effective_standing_def split: option.splits)

subsection \<open>The rejection-rate ladder\<close>

record backpressure_config =
  bp_probation_rate :: f64
  bp_ok_rate :: f64
  bp_bench_rate :: f64
  bp_min_sample :: f64
  bp_bench_for :: int

definition bp_config_ok :: "backpressure_config \<Rightarrow> bool" where
  "bp_config_ok c \<longleftrightarrow>
     0 < bp_ok_rate c \<and> bp_ok_rate c < bp_probation_rate c \<and>
     bp_probation_rate c \<le> bp_bench_rate c \<and> bp_bench_rate c \<le> 1 \<and>
     0 < bp_min_sample c \<and> 0 < bp_bench_for c"

record adjudication_outcome =
  ao_applied :: bool
  ao_old_standing :: string
  ao_new_standing :: string
  ao_benched_until :: "time option"
  ao_rate :: f64
  ao_sample :: f64

text \<open>
  The decayed accumulators after one fold. \<open>decay\<close> is the database's exponential over the seconds
  elapsed since the last fold.
\<close>

definition fold_good :: "(int \<Rightarrow> f64) \<Rightarrow> time \<Rightarrow> bool \<Rightarrow> volunteer \<Rightarrow> f64" where
  "fold_good decay now agreed v =
     rnd (rnd (vol_rejection_good v * decay (now - (case vol_rejection_updated_at v of None \<Rightarrow> now | Some t \<Rightarrow> t)))
          + (if agreed then 1 else 0))"

definition fold_bad :: "(int \<Rightarrow> f64) \<Rightarrow> time \<Rightarrow> bool \<Rightarrow> volunteer \<Rightarrow> f64" where
  "fold_bad decay now agreed v =
     rnd (rnd (vol_rejection_bad v * decay (now - (case vol_rejection_updated_at v of None \<Rightarrow> now | Some t \<Rightarrow> t)))
          + (if agreed then 0 else 1))"

definition fold_sample :: "(int \<Rightarrow> f64) \<Rightarrow> time \<Rightarrow> bool \<Rightarrow> volunteer \<Rightarrow> f64" where
  "fold_sample decay now agreed v = rnd (fold_good decay now agreed v + fold_bad decay now agreed v)"

definition fold_rate :: "(int \<Rightarrow> f64) \<Rightarrow> time \<Rightarrow> bool \<Rightarrow> volunteer \<Rightarrow> f64" where
  "fold_rate decay now agreed v = rnd (fold_bad decay now agreed v / fold_sample decay now agreed v)"

definition ladder_standing :: "backpressure_config \<Rightarrow> f64 \<Rightarrow> f64 \<Rightarrow> string \<Rightarrow> string \<Rightarrow> string" where
  "ladder_standing c sample rate eff stored =
     (if sample \<ge> bp_min_sample c \<and> eff = standing_ok \<and> rate \<ge> bp_probation_rate c then standing_probation
      else if sample \<ge> bp_min_sample c \<and> eff = standing_probation \<and> rate \<ge> bp_bench_rate c then standing_benched
      else if sample \<ge> bp_min_sample c \<and> eff = standing_probation \<and> rate \<le> bp_ok_rate c then standing_ok
      else stored)"

definition ladder_benched_until ::
    "backpressure_config \<Rightarrow> time \<Rightarrow> f64 \<Rightarrow> f64 \<Rightarrow> string \<Rightarrow> time option \<Rightarrow> time option" where
  "ladder_benched_until c now sample rate eff stored =
     (if sample \<ge> bp_min_sample c \<and> eff = standing_probation \<and> rate \<ge> bp_bench_rate c
        then Some (now + bp_bench_for c)
      else if sample \<ge> bp_min_sample c \<and> eff = standing_ok \<and> rate \<ge> bp_probation_rate c then None
      else if sample \<ge> bp_min_sample c \<and> eff = standing_probation \<and> rate \<le> bp_ok_rate c then None
      else stored)"

definition ladder_transitioned :: "backpressure_config \<Rightarrow> f64 \<Rightarrow> f64 \<Rightarrow> string \<Rightarrow> bool" where
  "ladder_transitioned c sample rate eff \<longleftrightarrow>
     sample \<ge> bp_min_sample c \<and>
     (eff = standing_ok \<and> rate \<ge> bp_probation_rate c \<or>
      eff = standing_probation \<and> rate \<ge> bp_bench_rate c \<or>
      eff = standing_probation \<and> rate \<le> bp_ok_rate c)"

definition adjudicated_row ::
    "(int \<Rightarrow> f64) \<Rightarrow> backpressure_config \<Rightarrow> time \<Rightarrow> bool \<Rightarrow> volunteer \<Rightarrow> volunteer" where
  "adjudicated_row decay c now agreed v =
     (let sample = fold_sample decay now agreed v;
          rate = fold_rate decay now agreed v;
          eff = eff_standing now v
      in v\<lparr>vol_rejection_good := fold_good decay now agreed v,
           vol_rejection_bad := fold_bad decay now agreed v,
           vol_rejection_updated_at := Some now,
           vol_standing := ladder_standing c sample rate eff (vol_standing v),
           vol_benched_until := ladder_benched_until c now sample rate eff (vol_benched_until v),
           vol_standing_changed_at :=
             (if ladder_transitioned c sample rate eff then Some now else vol_standing_changed_at v)\<rparr>)"

definition record_adjudicated ::
    "(int \<Rightarrow> f64) \<Rightarrow> backpressure_config \<Rightarrow> time \<Rightarrow> uid \<Rightarrow> bool \<Rightarrow> (uid \<rightharpoonup> volunteer)
     \<Rightarrow> adjudication_outcome \<times> (uid \<rightharpoonup> volunteer)" where
  "record_adjudicated decay c now vid agreed vols =
     (case vols vid of
        None \<Rightarrow> (\<lparr>ao_applied = False, ao_old_standing = '''', ao_new_standing = '''',
                  ao_benched_until = None, ao_rate = 0, ao_sample = 0\<rparr>, vols)
      | Some v \<Rightarrow>
          (if vol_standing_source v \<noteq> ''AUTO''
           then (\<lparr>ao_applied = False, ao_old_standing = '''', ao_new_standing = '''',
                  ao_benched_until = None, ao_rate = 0, ao_sample = 0\<rparr>, vols)
           else let w = adjudicated_row decay c now agreed v;
                    sample = rnd (vol_rejection_good w + vol_rejection_bad w) in
             (\<lparr>ao_applied = True, ao_old_standing = vol_standing v, ao_new_standing = vol_standing w,
               ao_benched_until = vol_benched_until w,
               ao_rate = rnd (vol_rejection_bad w / sample), ao_sample = sample\<rparr>,
              vols(vid \<mapsto> w))))"

subsection \<open>Operator actions on standing\<close>

definition set_operator ::
    "time \<Rightarrow> uid \<Rightarrow> string \<Rightarrow> time option \<Rightarrow> (uid \<rightharpoonup> volunteer) \<Rightarrow> volunteer option res \<times> (uid \<rightharpoonup> volunteer)" where
  "set_operator now vid st until vols =
     (if st \<notin> {standing_ok, standing_probation, standing_benched}
      then (Inl (ValidationError ''invalid standing''), vols)
      else case vols vid of
        None \<Rightarrow> (Inr None, vols)
      | Some v \<Rightarrow>
          (let w = v\<lparr>vol_standing := st,
                      vol_benched_until := (if st \<noteq> standing_benched then None else until),
                      vol_standing_source := ''OPERATOR'',
                      vol_standing_changed_at := Some now\<rparr>
           in (Inr (Some w), vols(vid \<mapsto> w))))"

definition clear_standing ::
    "time \<Rightarrow> uid \<Rightarrow> (uid \<rightharpoonup> volunteer) \<Rightarrow> volunteer option res \<times> (uid \<rightharpoonup> volunteer)" where
  "clear_standing now vid vols =
     (case vols vid of
        None \<Rightarrow> (Inr None, vols)
      | Some v \<Rightarrow>
          (let w = v\<lparr>vol_standing := standing_ok, vol_standing_source := ''AUTO'',
                      vol_benched_until := None, vol_standing_changed_at := Some now\<rparr>
           in (Inr (Some w), vols(vid \<mapsto> w))))"

subsection \<open>The trust table\<close>

record trust_entry =
  te_score :: int
  te_clean_units :: int
  te_slashed_at :: "time option"

type_synonym trust_table = "string \<rightharpoonup> trust_entry"

definition trust_get_score :: "trust_table \<Rightarrow> string \<Rightarrow> int" where
  "trust_get_score t subj = (case t subj of None \<Rightarrow> 0 | Some e \<Rightarrow> te_score e)"

definition trust_set_score :: "string \<Rightarrow> int \<Rightarrow> trust_table \<Rightarrow> trust_table" where
  "trust_set_score subj n t =
     t(subj \<mapsto> (case t subj of
          None \<Rightarrow> \<lparr>te_score = n, te_clean_units = 0, te_slashed_at = None\<rparr>
        | Some e \<Rightarrow> e\<lparr>te_score := n\<rparr>))"

definition trust_accrue_clean_unit :: "string \<Rightarrow> trust_table \<Rightarrow> trust_table" where
  "trust_accrue_clean_unit subj t =
     t(subj \<mapsto> (case t subj of
          None \<Rightarrow> \<lparr>te_score = 1, te_clean_units = 1, te_slashed_at = None\<rparr>
        | Some e \<Rightarrow> e\<lparr>te_score := te_score e + 1, te_clean_units := te_clean_units e + 1\<rparr>))"

definition trust_slash :: "time \<Rightarrow> string \<Rightarrow> trust_table \<Rightarrow> trust_table" where
  "trust_slash now subj t =
     t(subj \<mapsto> (case t subj of
          None \<Rightarrow> \<lparr>te_score = 0, te_clean_units = 0, te_slashed_at = Some now\<rparr>
        | Some e \<Rightarrow> e\<lparr>te_score := 0, te_slashed_at := Some now\<rparr>))"

text \<open>
  The contract the accrual path of the validation engine relies on: accruing is worth exactly one
  point to the named subject and nothing to anyone else.
\<close>

locale trust_ledger =
  fixes score :: "'t \<Rightarrow> string \<Rightarrow> int"
    and accrue :: "string \<Rightarrow> 't \<Rightarrow> 't"
  assumes accrue_score: "score (accrue a t) b = score t b + (if a = b then 1 else 0)"
begin

lemma accrue_list_score:
  "score (fold accrue subjs t) b = score t b + count_if (\<lambda>a. a = b) subjs"
  by (induction subjs arbitrary: t) (auto simp: accrue_score)

lemma accrue_distinct_score:
  "distinct subjs \<Longrightarrow> score (fold accrue subjs t) b = score t b + (if b \<in> set subjs then 1 else 0)"
  by (induction subjs arbitrary: t) (auto simp: accrue_score)

lemma accrue_list_mono: "score t b \<le> score (fold accrue subjs t) b"
  by (simp add: accrue_list_score)

end

interpretation tl: trust_ledger trust_get_score trust_accrue_clean_unit
  by unfold_locales (auto simp: trust_get_score_def trust_accrue_clean_unit_def split: option.splits)

lemma trust_slash_score: "trust_get_score (trust_slash now a t) b = (if a = b then 0 else trust_get_score t b)"
  by (simp add: trust_get_score_def trust_slash_def split: option.splits)

subsection \<open>Properties of the ladder\<close>

text \<open>A stored signal: accumulators that are non-negative.\<close>

definition signal_ok :: "volunteer \<Rightarrow> bool" where
  "signal_ok v \<longleftrightarrow> 0 \<le> vol_rejection_good v \<and> 0 \<le> vol_rejection_bad v"

lemma fold_nonneg:
  assumes "signal_ok v" "\<And>e. 0 \<le> decay e"
  shows "0 \<le> fold_good decay now agreed v" "0 \<le> fold_bad decay now agreed v"
  using assms by (simp_all add: fold_good_def fold_bad_def signal_ok_def rnd_nonneg)

lemma fold_step_ge_1:
  assumes "signal_ok v" "\<And>e. 0 \<le> decay e"
  shows "1 \<le> (if agreed then fold_good decay now agreed v else fold_bad decay now agreed v)"
proof -
  have "1 \<le> rnd (rnd (x * decay e) + 1)" if "0 \<le> x" for x e
    using rnd_mono [of 1 "rnd (x * decay e) + 1"] rnd_nonneg [of "x * decay e"] that assms(2) [of e]
    by (simp add: rnd_1)
  then show ?thesis using assms(1) by (simp add: fold_good_def fold_bad_def signal_ok_def)
qed

lemma fold_sample_ge_1:
  assumes "signal_ok v" "\<And>e. 0 \<le> decay e"
  shows "1 \<le> fold_sample decay now agreed v"
proof -
  have "1 \<le> fold_good decay now agreed v + fold_bad decay now agreed v"
    using fold_step_ge_1 [of v decay agreed now] fold_nonneg [of v decay now agreed] assms
    by (auto split: if_splits)
  then show ?thesis using rnd_mono [of 1] by (simp add: fold_sample_def rnd_1)
qed

lemma ladder_no_skip:
  assumes "ladder_standing c sample rate standing_ok stored = standing_benched"
  shows "stored = standing_benched"
  using assms by (auto simp: ladder_standing_def split: if_splits)

lemma ladder_arms_exclusive:
  assumes "bp_config_ok c"
  shows "\<not> (rate \<ge> bp_bench_rate c \<and> rate \<le> bp_ok_rate c)"
  using assms by (auto simp: bp_config_ok_def)

end
