(* ===== verification/Results.thy ===== *)
theory Results
  imports Accounts "HOL-Library.Product_Lexorder"
begin

text \<open>
  Results (\<open>internal/result/model.go\<close>), the snapshot stamped on them at submission, the
  version-homogeneous group a unit's PENDING results are reduced to before any comparison
  (\<open>validation/engine.go\<close>: \<open>versionHomogeneousGroup\<close>, and its SQL twin in
  \<open>workunit/redundancy_sql.go\<close>), and the comparison verdict in distinct subjects
  (\<open>transition/verdict.go\<close>).

  The stored output bytes are kept as what \<open>encoding/json\<close> makes of them: no bytes, bytes that do
  not decode, or a document. A decoded object is the list of its members in the order a Go map
  iteration visits them; a number keeps its token.
\<close>

subsection \<open>Data\<close>

datatype json =
    JNull
  | JBool bool
  | JNum string
  | JStr string
  | JArr "json list"
  | JObj "(string \<times> json) list"

datatype raw_output = OutputEmpty | OutputMalformed | OutputDoc json

datatype validation_status =
    Pending | Agreed | Disagreed | AwaitingContentVerification | ContentVerificationFailed | Superseded

record result =
  res_id :: uid
  res_unit :: uid
  res_volunteer :: uid
  res_output :: raw_output
  res_checksum :: string
  res_verified_checksum :: "string option"
  res_status :: validation_status
  res_artifact_version :: "uid option"
  res_host :: "uid option"
  res_trust_subject :: "string option"
  res_trust_score :: "int option"
  res_standing :: "string option"
  res_submitted_at :: time
  res_validated_at :: "time option"

subsection \<open>The submission snapshot\<close>

definition subject_for_result :: "result \<Rightarrow> string" where
  "subject_for_result r =
     (case res_trust_subject r of
        Some s \<Rightarrow> (if s \<noteq> '''' then s else subject_for_volunteer_id (res_volunteer r))
      | None \<Rightarrow> subject_for_volunteer_id (res_volunteer r))"

definition score_for_result :: "result \<Rightarrow> int" where
  "score_for_result r = (case res_trust_score r of Some n \<Rightarrow> n | None \<Rightarrow> 0)"

definition standing_countable :: "result \<Rightarrow> bool" where
  "standing_countable r \<longleftrightarrow> (case res_standing r of None \<Rightarrow> True | Some s \<Rightarrow> s = standing_ok)"

subsection \<open>The version-homogeneous group\<close>

definition version_key :: "result \<Rightarrow> string" where
  "version_key r = (case res_artifact_version r of None \<Rightarrow> '''' | Some v \<Rightarrow> v)"

definition version_group :: "string \<Rightarrow> result list \<Rightarrow> result list" where
  "version_group k pending = filter (\<lambda>r. version_key r = k) pending"

definition vh_step :: "result list \<Rightarrow> string \<Rightarrow> (result list \<times> string) option \<Rightarrow> (result list \<times> string) option" where
  "vh_step pending k best =
     (let g = version_group k pending in
      case best of
        None \<Rightarrow> Some (g, k)
      | Some (b, bk) \<Rightarrow>
          (if length g > length b \<or> (length g = length b \<and> k < bk) then Some (g, k) else best))"

text \<open>The loop over the map of groups, its keys visited in the order \<open>ks\<close>.\<close>

definition vh_select :: "string list \<Rightarrow> result list \<Rightarrow> result list" where
  "vh_select ks pending = (case fold (vh_step pending) ks None of None \<Rightarrow> [] | Some (b, _) \<Rightarrow> b)"

definition version_homogeneous_group :: "result list \<Rightarrow> result list" where
  "version_homogeneous_group pending =
     (if length pending < 2 then pending
      else let ks = keys_of version_key pending in
        if length ks = 1 then pending else vh_select ks pending)"

definition vh_rank :: "result list \<Rightarrow> string \<Rightarrow> int \<times> string" where
  "vh_rank pending k = (- int (length (version_group k pending)), k)"

lemma vh_step_rank:
  assumes "best = Some (version_group bk pending, bk)"
  shows "vh_step pending k best =
    (if vh_rank pending k < vh_rank pending bk then Some (version_group k pending, k) else best)"
  using assms by (auto simp: vh_step_def vh_rank_def Let_def)

lemma vh_fold_min:
  assumes "fold (vh_step pending) ks (Some (version_group bk pending, bk)) = r"
  shows "\<exists>k\<in>set (bk # ks). r = Some (version_group k pending, k) \<and>
           (\<forall>k'\<in>set (bk # ks). vh_rank pending k \<le> vh_rank pending k')"
  using assms
proof (induction ks arbitrary: bk)
  case Nil
  then show ?case by simp
next
  case (Cons a ks)
  show ?case
  proof (cases "vh_rank pending a < vh_rank pending bk")
    case True
    then have "fold (vh_step pending) ks (Some (version_group a pending, a)) = r"
      using Cons.prems by (simp add: vh_step_rank)
    from Cons.IH [OF this] True show ?thesis by (auto intro: less_imp_le order.trans)
  next
    case False
    then have "fold (vh_step pending) ks (Some (version_group bk pending, bk)) = r"
      using Cons.prems by (simp add: vh_step_rank)
    from Cons.IH [OF this] False show ?thesis by (auto intro: order.trans simp: not_less)
  qed
qed

lemma vh_select_min:
  assumes "ks \<noteq> []"
  shows "\<exists>k\<in>set ks. vh_select ks pending = version_group k pending \<and>
           (\<forall>k'\<in>set ks. vh_rank pending k \<le> vh_rank pending k')"
proof -
  obtain a as where ks: "ks = a # as" using assms by (cases ks) auto
  have "fold (vh_step pending) ks None = fold (vh_step pending) as (Some (version_group a pending, a))"
    by (simp add: ks vh_step_def Let_def)
  with vh_fold_min [where pending = pending and ks = as and bk = a, OF refl] show ?thesis
    unfolding vh_select_def ks by (auto split: option.splits)
qed

lemma vh_rank_inj: "vh_rank pending k = vh_rank pending k' \<Longrightarrow> k = k'"
  by (simp add: vh_rank_def)

text \<open>The choice does not depend on the order Go happens to visit the groups in.\<close>

lemma vh_select_order:
  assumes "set ks = set ks'"
  shows "vh_select ks pending = vh_select ks' pending"
proof (cases "ks = []")
  case True
  then show ?thesis using assms by simp
next
  case False
  then have "ks' \<noteq> []" using assms by auto
  obtain k where k: "k \<in> set ks" "vh_select ks pending = version_group k pending"
      "\<forall>k'\<in>set ks. vh_rank pending k \<le> vh_rank pending k'"
    using vh_select_min [OF \<open>ks \<noteq> []\<close>, of pending] by blast
  obtain l where l: "l \<in> set ks'" "vh_select ks' pending = version_group l pending"
      "\<forall>k'\<in>set ks'. vh_rank pending l \<le> vh_rank pending k'"
    using vh_select_min [OF \<open>ks' \<noteq> []\<close>, of pending] by blast
  have "vh_rank pending k = vh_rank pending l" using k l assms by (intro order.antisym) auto
  then show ?thesis using k(2) l(2) vh_rank_inj by metis
qed

lemma vh_group_cases:
  assumes "pending \<noteq> []"
  obtains k where "k \<in> version_key ` set pending"
    "version_homogeneous_group pending = version_group k pending"
    "\<And>k'. k' \<in> version_key ` set pending \<Longrightarrow> vh_rank pending k \<le> vh_rank pending k'"
proof -
  let ?ks = "keys_of version_key pending"
  have ne: "?ks \<noteq> []" using assms by (metis set_keys_of image_is_empty set_empty)
  have single: "\<exists>k. k \<in> version_key ` set pending \<and> pending = version_group k pending \<and>
      (\<forall>k'\<in>version_key ` set pending. vh_rank pending k \<le> vh_rank pending k')"
    if one: "length ?ks = 1"
  proof -
    obtain k where "?ks = [k]" using one by (cases ?ks) auto
    then have keys: "version_key ` set pending = {k}" using set_keys_of [of version_key pending] by simp
    have "\<forall>r\<in>set pending. version_key r = k" using keys by blast
    then have "version_group k pending = pending" unfolding version_group_def by (rule filter_True)
    then show ?thesis using keys by simp
  qed
  have one: "length ?ks = 1" if short: "length pending < 2"
  proof -
    obtain x where "pending = [x]" using short assms by (cases pending) auto
    then show ?thesis by (simp add: keys_of_def)
  qed
  show ?thesis
  proof (cases "length pending < 2 \<or> length ?ks = 1")
    case True
    then have "length ?ks = 1" using one by blast
    with single obtain k where k: "k \<in> version_key ` set pending" "pending = version_group k pending"
        "\<forall>k'\<in>version_key ` set pending. vh_rank pending k \<le> vh_rank pending k'" by blast
    moreover have "version_homogeneous_group pending = pending"
      using True by (auto simp: version_homogeneous_group_def Let_def)
    ultimately show ?thesis by (intro that [of k]) auto
  next
    case False
    then have "version_homogeneous_group pending = vh_select ?ks pending"
      by (simp add: version_homogeneous_group_def Let_def)
    with vh_select_min [OF ne, of pending] show ?thesis by (auto intro: that)
  qed
qed

lemma vh_group_subset: "set (version_homogeneous_group pending) \<subseteq> set pending"
  by (cases "pending = []") (auto simp: version_homogeneous_group_def version_group_def elim: vh_group_cases)

lemma vh_group_homogeneous:
  assumes "r \<in> set (version_homogeneous_group pending)" "r' \<in> set (version_homogeneous_group pending)"
  shows "res_artifact_version r = None \<and> version_key r' = '''' \<or> version_key r = version_key r'"
proof (cases "pending = []")
  case True
  then show ?thesis using assms by (simp add: version_homogeneous_group_def)
next
  case False
  then obtain k where "version_homogeneous_group pending = version_group k pending"
    by (rule vh_group_cases)
  then show ?thesis using assms by (simp add: version_group_def)
qed

lemma vh_group_length_max:
  assumes "k \<in> version_key ` set pending"
  shows "length (version_group k pending) \<le> length (version_homogeneous_group pending)"
proof -
  have "pending \<noteq> []" using assms by auto
  then obtain k0 where "version_homogeneous_group pending = version_group k0 pending"
    "vh_rank pending k0 \<le> vh_rank pending k"
    using assms by (metis vh_group_cases)
  then show ?thesis by (auto simp: vh_rank_def)
qed

lemma vh_group_empty [simp]: "version_homogeneous_group pending = [] \<longleftrightarrow> pending = []"
proof
  assume e: "version_homogeneous_group pending = []"
  show "pending = []"
  proof (rule ccontr)
    assume "pending \<noteq> []"
    then obtain k where k: "k \<in> version_key ` set pending"
      "version_homogeneous_group pending = version_group k pending"
      by (rule vh_group_cases)
    then obtain x where "x \<in> set (version_group k pending)" by (auto simp: version_group_def)
    then show False using e k(2) by simp
  qed
qed (simp add: version_homogeneous_group_def)

subsection \<open>The SQL twin of the group size\<close>

text \<open>
  \<open>GROUP BY artifact_version_id ORDER BY COUNT(*) DESC, COALESCE(artifact_version_id::text, '')
  COLLATE "C" ASC LIMIT 1\<close>: the head of the groups sorted by that key; each group reports the
  number of its rows that satisfy \<open>P\<close> (\<open>COUNT(*)\<close> or a \<open>FILTER\<close>ed count).
\<close>

definition sql_version_rows :: "uid option \<Rightarrow> result list \<Rightarrow> result list" where
  "sql_version_rows v pending = filter (\<lambda>r. res_artifact_version r = v) pending"

definition sql_best_version :: "result list \<Rightarrow> uid option" where
  "sql_best_version pending =
     hd (sort_key (\<lambda>v. (- int (length (sql_version_rows v pending)), case v of None \<Rightarrow> '''' | Some s \<Rightarrow> s))
                  (keys_of res_artifact_version pending))"

definition sql_best_group_count :: "(result \<Rightarrow> bool) \<Rightarrow> result list \<Rightarrow> int" where
  "sql_best_group_count P pending =
     (if pending = [] then 0 else count_if P (sql_version_rows (sql_best_version pending) pending))"

text \<open>Artifact version ids are rendered UUIDs, hence never the empty text.\<close>

definition versions_ok :: "result list \<Rightarrow> bool" where
  "versions_ok pending \<longleftrightarrow> (\<forall>r\<in>set pending. res_artifact_version r \<noteq> Some '''')"

lemma versions_ok_group:
  assumes "versions_ok pending" "r \<in> set pending"
  shows "sql_version_rows (res_artifact_version r) pending = version_group (version_key r) pending"
proof -
  have "(res_artifact_version s = res_artifact_version r) = (version_key s = version_key r)"
    if "s \<in> set pending" for s
    using assms that by (cases "res_artifact_version s"; cases "res_artifact_version r")
      (auto simp: versions_ok_def version_key_def)
  then show ?thesis unfolding sql_version_rows_def version_group_def by (intro filter_cong) auto
qed

lemma hd_sort_key_le: "x \<in> set xs \<Longrightarrow> f (hd (sort_key f xs)) \<le> f x"
proof -
  assume x: "x \<in> set xs"
  have "sorted (map f (sort_key f xs))" by simp
  moreover have "x \<in> set (sort_key f xs)" using x by simp
  ultimately show ?thesis by (cases "sort_key f xs") auto
qed

lemma hd_sort_key_in: "xs \<noteq> [] \<Longrightarrow> hd (sort_key f xs) \<in> set xs"
  by (metis hd_in_set set_sort sort_key_simps(1) length_0_conv length_sort)

lemma sql_group_eq_vh_group:
  assumes "versions_ok pending" "pending \<noteq> []"
  shows "sql_version_rows (sql_best_version pending) pending = version_homogeneous_group pending"
proof -
  let ?f = "\<lambda>v. (- int (length (sql_version_rows v pending)), case v of None \<Rightarrow> '''' | Some s \<Rightarrow> s)"
  let ?ks = "keys_of res_artifact_version pending"
  have ne: "?ks \<noteq> []" using assms(2) by (metis set_keys_of image_is_empty set_empty)
  have rank: "?f (res_artifact_version r) = vh_rank pending (version_key r)" if "r \<in> set pending" for r
    using versions_ok_group [OF assms(1) that] by (simp add: vh_rank_def version_key_def)
  have "sql_best_version pending \<in> set ?ks"
    unfolding sql_best_version_def by (rule hd_sort_key_in [OF ne])
  then obtain r where r: "r \<in> set pending" "sql_best_version pending = res_artifact_version r" by auto
  obtain k where k: "k \<in> version_key ` set pending"
    "version_homogeneous_group pending = version_group k pending"
    "\<And>k'. k' \<in> version_key ` set pending \<Longrightarrow> vh_rank pending k \<le> vh_rank pending k'"
    using vh_group_cases [OF assms(2)] by metis
  obtain q where q: "q \<in> set pending" "k = version_key q" using k(1) by blast
  have "?f (sql_best_version pending) \<le> ?f (res_artifact_version q)"
    unfolding sql_best_version_def by (rule hd_sort_key_le) (use q in auto)
  then have "vh_rank pending (version_key r) \<le> vh_rank pending (version_key q)"
    using rank [OF r(1)] rank [OF q(1)] r(2) by simp
  moreover have "vh_rank pending (version_key q) \<le> vh_rank pending (version_key r)"
    using k(3) q r(1) by blast
  ultimately have "version_key r = version_key q" using vh_rank_inj order.antisym by blast
  then show ?thesis using versions_ok_group [OF assms(1) r(1)] r(2) k(2) q(2) by simp
qed

lemma sql_best_group_count_eq:
  assumes "versions_ok pending"
  shows "sql_best_group_count P pending = count_if P (version_homogeneous_group pending)"
proof (cases "pending = []")
  case True
  then show ?thesis by (simp add: sql_best_group_count_def version_homogeneous_group_def)
next
  case False
  then show ?thesis using sql_group_eq_vh_group [OF assms False] by (simp add: sql_best_group_count_def)
qed

subsection \<open>The comparison verdict\<close>

record verdict =
  vd_majority_count :: int
  vd_total :: int
  vd_ratio :: f64
  vd_trusted_majority_count :: int

text \<open>The map from subject to (has a result outside the majority, highest snapshot score).\<close>

type_synonym subject_aggs = "(string \<times> bool \<times> int) list"

fun agg_add :: "string \<Rightarrow> bool \<Rightarrow> int \<Rightarrow> subject_aggs \<Rightarrow> subject_aggs" where
  "agg_add s out sc [] = [(s, out, if sc > 0 then sc else 0)]"
| "agg_add s out sc ((t, o', m) # rest) =
     (if t = s then (t, o' \<or> out, if sc > m then sc else m) # rest
      else (t, o', m) # agg_add s out sc rest)"

definition subject_aggs :: "(result \<Rightarrow> bool) \<Rightarrow> result list \<Rightarrow> subject_aggs" where
  "subject_aggs in_majority pending =
     fold (\<lambda>r aggs. if standing_countable r
                    then agg_add (subject_for_result r) (\<not> in_majority r) (score_for_result r) aggs
                    else aggs) pending []"

definition build_comparison_verdict :: "result list \<Rightarrow> result list \<Rightarrow> int \<Rightarrow> verdict" where
  "build_comparison_verdict pending majority trust_floor =
     (let aggs = subject_aggs (\<lambda>r. res_id r \<in> set (map res_id majority)) pending;
          total = int (length aggs);
          maj = count_if (\<lambda>(s, out, m). \<not> out) aggs;
          trusted = count_if (\<lambda>(s, out, m). \<not> out \<and> m \<ge> trust_floor) aggs
      in \<lparr>vd_majority_count = maj, vd_total = total,
          vd_ratio = (if total > 0 then rnd (of_int maj / of_int total) else 0),
          vd_trusted_majority_count = trusted\<rparr>)"

text \<open>The aggregation, one entry per distinct subject.\<close>

lemma agg_add_keys: "set (map fst (agg_add s out sc aggs)) = insert s (set (map fst aggs))"
  by (induction s out sc aggs rule: agg_add.induct) auto

lemma agg_add_distinct: "distinct (map fst aggs) \<Longrightarrow> distinct (map fst (agg_add s out sc aggs))"
proof (induction s out sc aggs rule: agg_add.induct)
  case (2 s out sc t o' m rest)
  then show ?case using agg_add_keys [of s out sc rest] by auto
qed auto

lemma agg_add_entry:
  assumes "distinct (map fst aggs)"
  shows "(t, o', m) \<in> set (agg_add s out sc aggs) \<longleftrightarrow>
    (if t = s then
       (if s \<in> fst ` set aggs
        then \<exists>o0 m0. (s, o0, m0) \<in> set aggs \<and> o' = (o0 \<or> out) \<and> m = max m0 sc
        else o' = out \<and> m = max 0 sc)
     else (t, o', m) \<in> set aggs)"
  using assms
proof (induction s out sc aggs rule: agg_add.induct)
  case (1 s out sc)
  then show ?case by auto
next
  case (2 s out sc u o1 m1 rest)
  show ?case
  proof (cases "u = s")
    case True
    then have "s \<notin> fst ` set rest" using "2.prems" by simp
    then have "(s, o0, m0) \<notin> set rest" for o0 m0 by (metis fst_conv imageI)
    then show ?thesis using True by (auto simp: max_def)
  next
    case False
    then show ?thesis using 2 by auto
  qed
qed

text \<open>What an entry of the aggregation of the results seen so far records.\<close>

definition agg_records :: "(result \<Rightarrow> bool) \<Rightarrow> result list \<Rightarrow> subject_aggs \<Rightarrow> bool" where
  "agg_records inm rs aggs \<longleftrightarrow>
     distinct (map fst aggs) \<and> set (map fst aggs) = subject_for_result ` set rs \<and>
     (\<forall>(s, out, m)\<in>set aggs.
        out = (\<exists>r\<in>set rs. subject_for_result r = s \<and> \<not> inm r) \<and>
        (\<forall>fl > 0. m \<ge> fl \<longleftrightarrow> (\<exists>r\<in>set rs. subject_for_result r = s \<and> score_for_result r \<ge> fl)))"

lemma agg_records_keys:
  assumes "agg_records inm rs aggs"
  shows "distinct (map fst aggs)" "set (map fst aggs) = subject_for_result ` set rs"
  using assms unfolding agg_records_def by - (elim conjE, assumption)+

lemma agg_recordsD:
  assumes "agg_records inm rs aggs" "(s, out, m) \<in> set aggs"
  shows "out = (\<exists>r\<in>set rs. subject_for_result r = s \<and> \<not> inm r)"
    and "fl > 0 \<Longrightarrow> m \<ge> fl \<longleftrightarrow> (\<exists>r\<in>set rs. subject_for_result r = s \<and> score_for_result r \<ge> fl)"
proof -
  have *: "\<forall>x\<in>set aggs. case x of (s, out, m) \<Rightarrow>
      out = (\<exists>r\<in>set rs. subject_for_result r = s \<and> \<not> inm r) \<and>
      (\<forall>fl > 0. m \<ge> fl \<longleftrightarrow> (\<exists>r\<in>set rs. subject_for_result r = s \<and> score_for_result r \<ge> fl))"
    using assms(1) unfolding agg_records_def by (elim conjE)
  note b = bspec [OF * assms(2), unfolded prod.case]
  show "out = (\<exists>r\<in>set rs. subject_for_result r = s \<and> \<not> inm r)"
    by (rule conjunct1 [OF b])
  show "m \<ge> fl \<longleftrightarrow> (\<exists>r\<in>set rs. subject_for_result r = s \<and> score_for_result r \<ge> fl)" if "fl > 0"
    by (rule mp [OF spec [OF conjunct2 [OF b]] that])
qed

lemma agg_records_step:
  assumes "agg_records inm rs aggs"
  shows "agg_records inm (rs @ [r]) (agg_add (subject_for_result r) (\<not> inm r) (score_for_result r) aggs)"
proof -
  let ?s = "subject_for_result r"
  let ?new = "agg_add ?s (\<not> inm r) (score_for_result r) aggs"
  have d: "distinct (map fst aggs)" and k: "set (map fst aggs) = subject_for_result ` set rs"
    by (rule agg_records_keys [OF assms])+
  have e: "out = (\<exists>r\<in>set rs. subject_for_result r = s \<and> \<not> inm r) \<and>
        (\<forall>fl > 0. m \<ge> fl \<longleftrightarrow> (\<exists>r\<in>set rs. subject_for_result r = s \<and> score_for_result r \<ge> fl))"
    if "(s, out, m) \<in> set aggs" for s out m
    using agg_recordsD [OF assms that] by blast
  have "out = (\<exists>q\<in>set (rs @ [r]). subject_for_result q = s \<and> \<not> inm q) \<and>
        (\<forall>fl > 0. m \<ge> fl \<longleftrightarrow>
           (\<exists>q\<in>set (rs @ [r]). subject_for_result q = s \<and> score_for_result q \<ge> fl))"
    if new: "(s, out, m) \<in> set ?new" for s out m
  proof (cases "s = ?s")
    case False
    then have "(s, out, m) \<in> set aggs" using new agg_add_entry [OF d] by simp
    then show ?thesis using e [of s out m] False by auto
  next
    case True
    show ?thesis
    proof (cases "?s \<in> fst ` set aggs")
      case old: True
      then obtain o0 m0 where o: "(?s, o0, m0) \<in> set aggs" "out = (o0 \<or> \<not> inm r)"
          "m = max m0 (score_for_result r)"
        using new True agg_add_entry [OF d, of s out m] by auto
      show ?thesis using e [OF o(1)] o(2,3) True by (auto simp: le_max_iff_disj)
    next
      case fresh: False
      then have "out = (\<not> inm r)" "m = max 0 (score_for_result r)"
        using new True agg_add_entry [OF d, of s out m] by auto
      moreover have "?s \<notin> subject_for_result ` set rs" using fresh k by simp
      then have "\<forall>q\<in>set rs. subject_for_result q \<noteq> ?s" by (metis imageI)
      ultimately show ?thesis using True by (auto simp: le_max_iff_disj)
    qed
  qed
  moreover have "distinct (map fst ?new)" by (rule agg_add_distinct [OF d])
  moreover have "set (map fst ?new) = subject_for_result ` set (rs @ [r])"
    unfolding agg_add_keys k by simp
  ultimately show ?thesis unfolding agg_records_def by blast
qed

lemma subject_aggs_records:
  "agg_records inm (filter standing_countable pending) (subject_aggs inm pending)"
proof (induction pending rule: rev_induct)
  case Nil
  then show ?case by (simp add: agg_records_def subject_aggs_def)
next
  case (snoc r rs)
  then show ?case using agg_records_step [OF snoc.IH, of r] by (simp add: subject_aggs_def)
qed

definition countable_subjects :: "result list \<Rightarrow> string set" where
  "countable_subjects pending = subject_for_result ` {r \<in> set pending. standing_countable r}"

definition agreeing_subjects :: "result list \<Rightarrow> result list \<Rightarrow> string set" where
  "agreeing_subjects pending majority =
     {s \<in> countable_subjects pending.
        \<forall>r\<in>set pending. standing_countable r \<longrightarrow> subject_for_result r = s \<longrightarrow> res_id r \<in> res_id ` set majority}"

definition trusted_agreeing_subjects :: "int \<Rightarrow> result list \<Rightarrow> result list \<Rightarrow> string set" where
  "trusted_agreeing_subjects fl pending majority =
     {s \<in> agreeing_subjects pending majority.
        \<exists>r\<in>set pending. standing_countable r \<and> subject_for_result r = s \<and> score_for_result r \<ge> fl}"

lemma count_if_keyed:
  assumes "distinct (map fst xs)"
  shows "count_if P xs = int (card (fst ` {x \<in> set xs. P x}))"
proof -
  have "distinct xs" using assms by (simp add: distinct_map)
  moreover have "inj_on fst {x \<in> set xs. P x}"
    using assms by (auto simp: distinct_map inj_on_def)
  ultimately show ?thesis by (simp add: count_if_def length_filter_distinct card_image)
qed

lemma fst_image_filter:
  assumes "set (map fst xs) = K" "\<And>s a b. (s, a, b) \<in> set xs \<Longrightarrow> P (s, a, b) \<longleftrightarrow> Q s"
  shows "fst ` {x \<in> set xs. P x} = {s \<in> K. Q s}"
proof -
  have "P x \<longleftrightarrow> Q (fst x)" if "x \<in> set xs" for x using assms(2) that by (cases x) auto
  then have "{x \<in> set xs. P x} = {x \<in> set xs. Q (fst x)}" by blast
  then show ?thesis using assms(1) by auto
qed

lemma build_comparison_verdict_counts:
  assumes "0 < fl"
  shows "vd_total (build_comparison_verdict pending majority fl) = int (card (countable_subjects pending))"
    and "vd_majority_count (build_comparison_verdict pending majority fl) =
           int (card (agreeing_subjects pending majority))"
    and "vd_trusted_majority_count (build_comparison_verdict pending majority fl) =
           int (card (trusted_agreeing_subjects fl pending majority))"
proof -
  let ?inm = "\<lambda>r. res_id r \<in> set (map res_id majority)"
  let ?aggs = "subject_aggs ?inm pending"
  have rec: "agg_records ?inm (filter standing_countable pending) ?aggs"
    by (rule subject_aggs_records)
  have d: "distinct (map fst ?aggs)" by (rule agg_records_keys(1) [OF rec])
  have k: "set (map fst ?aggs) = countable_subjects pending"
    using agg_records_keys(2) [OF rec] by (simp add: countable_subjects_def)
  have out: "out = (\<exists>r\<in>set pending. standing_countable r \<and> subject_for_result r = s \<and> \<not> ?inm r)"
    if "(s, out, m) \<in> set ?aggs" for s out m
    using agg_recordsD(1) [OF rec that] by auto
  have trust: "m \<ge> fl \<longleftrightarrow>
      (\<exists>r\<in>set pending. standing_countable r \<and> subject_for_result r = s \<and> score_for_result r \<ge> fl)"
    if "(s, out, m) \<in> set ?aggs" for s out m
    using agg_recordsD(2) [OF rec that assms] by auto
  show "vd_total (build_comparison_verdict pending majority fl) = int (card (countable_subjects pending))"
    using distinct_card [OF d] k by (simp add: build_comparison_verdict_def Let_def)
  have "fst ` {x \<in> set ?aggs. (\<lambda>(s, out, m). \<not> out) x} = agreeing_subjects pending majority"
    unfolding agreeing_subjects_def
    by (rule fst_image_filter [OF k], drule out) auto
  then show "vd_majority_count (build_comparison_verdict pending majority fl) =
           int (card (agreeing_subjects pending majority))"
    using count_if_keyed [OF d] by (simp add: build_comparison_verdict_def Let_def)
  have "fst ` {x \<in> set ?aggs. (\<lambda>(s, out, m). \<not> out \<and> m \<ge> fl) x} =
      {s \<in> countable_subjects pending.
        (\<forall>r\<in>set pending. standing_countable r \<longrightarrow> subject_for_result r = s \<longrightarrow> res_id r \<in> res_id ` set majority) \<and>
        (\<exists>r\<in>set pending. standing_countable r \<and> subject_for_result r = s \<and> score_for_result r \<ge> fl)}"
    by (rule fst_image_filter [OF k], frule out, drule trust) auto
  then show "vd_trusted_majority_count (build_comparison_verdict pending majority fl) =
           int (card (trusted_agreeing_subjects fl pending majority))"
    using count_if_keyed [OF d]
    by (simp add: build_comparison_verdict_def Let_def trusted_agreeing_subjects_def agreeing_subjects_def)
qed

lemma verdict_ratio:
  "vd_ratio (build_comparison_verdict pending majority fl) =
     (let v = build_comparison_verdict pending majority fl in
      if vd_total v > 0 then rnd (of_int (vd_majority_count v) / of_int (vd_total v)) else 0)"
  by (simp add: build_comparison_verdict_def Let_def)

text \<open>A submitted result of an account in good standing, for instances.\<close>

definition ok_result :: "uid \<Rightarrow> uid \<Rightarrow> string \<Rightarrow> result" where
  "ok_result i v checksum = \<lparr>res_id = i, res_unit = ''u'', res_volunteer = v, res_output = OutputDoc JNull,
     res_checksum = checksum, res_verified_checksum = None, res_status = Pending, res_artifact_version = None,
     res_host = None, res_trust_subject = None, res_trust_score = None, res_standing = Some standing_ok,
     res_submitted_at = 0, res_validated_at = None\<rparr>"

end
