(* ===== verification/LeafConfig.thy ===== *)
theory LeafConfig
  imports Prelude Float64
begin

text \<open>
  A leaf's configuration (\<open>internal/leaf/model.go\<close>, \<open>validation.go\<close>, \<open>state.go\<close>): the
  validation and fault-tolerance sections with their defaults, their validators, and the
  resolution of the zero sentinels; and the leaf life cycle chart. A \<open>ValidationError\<close> carries
  \<open>field/reason\<close>. Go's \<open>int\<close> is \<open>int\<close>; a \<open>float64\<close> is its (finite) value.
\<close>

subsection \<open>Validation configuration\<close>

record validation_config =
  vc_redundancy_factor :: int
  vc_agreement_threshold :: f64
  vc_comparison_mode :: string
  vc_numeric_tolerance :: "f64 option"
  vc_max_retries :: int
  vc_spot_check_enabled :: bool
  vc_spot_check_percentage :: f64
  vc_target_copies :: int
  vc_min_quorum :: int
  vc_max_total_copies :: int
  vc_max_error_copies :: int
  vc_ignore_fields :: "string list"
  vc_compare_fields :: "string list"
  vc_compare_all_fields :: bool
  vc_homogeneous_redundancy :: bool
  vc_allow_external_output :: bool
  vc_external_output_hosts :: "string list"
  vc_min_trusted_corroborators :: int
  vc_trust_floor :: int
  vc_audit_rate :: f64

abbreviation "cmp_exact \<equiv> ''EXACT''"
abbreviation "cmp_numeric_tolerance \<equiv> ''NUMERIC_TOLERANCE''"
abbreviation "cmp_custom \<equiv> ''CUSTOM''"

definition effective_target_copies :: "validation_config \<Rightarrow> int" where
  "effective_target_copies c =
     (if vc_target_copies c > 0 then vc_target_copies c
      else if vc_redundancy_factor c < 1 then 1
      else vc_redundancy_factor c)"

definition effective_min_quorum :: "validation_config \<Rightarrow> int" where
  "effective_min_quorum c =
     (let q = (if vc_min_quorum c \<le> 0 then vc_redundancy_factor c else vc_min_quorum c);
          q = (if q < 1 then 1 else q);
          t = effective_target_copies c
      in if q > t then t else q)"

definition apply_validation_config_defaults :: "validation_config \<Rightarrow> validation_config" where
  "apply_validation_config_defaults c =
     (let c = (if vc_redundancy_factor c = 0 then c\<lparr>vc_redundancy_factor := 2\<rparr> else c);
          c = (if vc_agreement_threshold c = 0 then c\<lparr>vc_agreement_threshold := 1\<rparr> else c);
          c = (if vc_comparison_mode c = '''' then c\<lparr>vc_comparison_mode := cmp_exact\<rparr> else c);
          c = (if vc_max_retries c = 0 then c\<lparr>vc_max_retries := 3\<rparr> else c)
      in if vc_spot_check_enabled c \<and> vc_spot_check_percentage c = 0
         then c\<lparr>vc_spot_check_percentage := 5\<rparr> else c)"

text \<open>The zero value of the struct, and the section a leaf that sets nothing ends up with.\<close>

definition zero_validation_config :: validation_config where
  "zero_validation_config =
     \<lparr>vc_redundancy_factor = 0, vc_agreement_threshold = 0, vc_comparison_mode = '''',
      vc_numeric_tolerance = None, vc_max_retries = 0, vc_spot_check_enabled = False,
      vc_spot_check_percentage = 0, vc_target_copies = 0, vc_min_quorum = 0, vc_max_total_copies = 0,
      vc_max_error_copies = 0, vc_ignore_fields = [], vc_compare_fields = [], vc_compare_all_fields = False,
      vc_homogeneous_redundancy = False, vc_allow_external_output = False, vc_external_output_hosts = [],
      vc_min_trusted_corroborators = 0, vc_trust_floor = 0, vc_audit_rate = 0\<rparr>"

definition default_validation_config :: validation_config where
  "default_validation_config = apply_validation_config_defaults zero_validation_config"

lemma effective_target_pos: "1 \<le> effective_target_copies c"
  by (simp add: effective_target_copies_def)

lemma effective_quorum_bounds:
  "1 \<le> effective_min_quorum c" "effective_min_quorum c \<le> effective_target_copies c"
  using effective_target_pos [of c] by (auto simp: effective_min_quorum_def Let_def)

subsection \<open>Field paths and host names\<close>

text \<open>
  The encodings of the code points \<open>unicode.IsSpace\<close> accepts. \<open>strings.TrimSpace(p) != p\<close> holds
  exactly when \<open>p\<close> begins or ends with one of them.
\<close>

definition space_runes :: "string list" where
  "space_runes =
     [[CHR 0x09], [CHR 0x0A], [CHR 0x0B], [CHR 0x0C], [CHR 0x0D], [CHR 0x20],
      [CHR 0xC2, CHR 0x85], [CHR 0xC2, CHR 0xA0], [CHR 0xE1, CHR 0x9A, CHR 0x80]] @
     map (\<lambda>n. [CHR 0xE2, CHR 0x80, char_of n]) ([128..<139] @ [168, 169, 175 :: nat]) @
     [[CHR 0xE2, CHR 0x81, CHR 0x9F], [CHR 0xE3, CHR 0x80, CHR 0x80]]"

definition starts_with :: "string \<Rightarrow> string \<Rightarrow> bool" where
  "starts_with p s \<longleftrightarrow> take (length p) s = p"

definition surrounded_by_space :: "string \<Rightarrow> bool" where
  "surrounded_by_space s \<longleftrightarrow>
     (\<exists>r\<in>set space_runes. starts_with r s \<or> starts_with (rev r) (rev s))"

definition validate_field_path :: "string \<Rightarrow> string \<Rightarrow> unit res" where
  "validate_field_path field p =
     (if p = '''' \<or> surrounded_by_space p then Inl (ValidationError (field @ ''/invalid_value''))
      else if length p > 256 then Inl (ValidationError (field @ ''/too_long''))
      else Inr ())"

fun first_error :: "('a \<Rightarrow> unit res) \<Rightarrow> 'a list \<Rightarrow> unit res" where
  "first_error f [] = Inr ()"
| "first_error f (x # xs) = (case f x of Inl e \<Rightarrow> Inl e | Inr _ \<Rightarrow> first_error f xs)"

lemma first_error_ok: "first_error f xs = Inr () \<longleftrightarrow> (\<forall>x\<in>set xs. f x = Inr ())"
  by (induction xs) (auto split: sum.splits)

definition validate_field_paths :: "string \<Rightarrow> string list \<Rightarrow> unit res" where
  "validate_field_paths field paths =
     (if length paths > 256 then Inl (ValidationError (field @ ''/too_many''))
      else first_error (validate_field_path field) paths)"

fun split_on :: "char \<Rightarrow> string \<Rightarrow> string list" where
  "split_on c [] = [[]]"
| "split_on c (x # xs) =
     (if x = c then [] # split_on c xs
      else (case split_on c xs of [] \<Rightarrow> [[x]] | l # ls \<Rightarrow> (x # l) # ls))"

definition is_digit :: "char \<Rightarrow> bool" where
  "is_digit c \<longleftrightarrow> CHR ''0'' \<le> c \<and> c \<le> CHR ''9''"

definition is_lower :: "char \<Rightarrow> bool" where
  "is_lower c \<longleftrightarrow> CHR ''a'' \<le> c \<and> c \<le> CHR ''z''"

definition is_upper :: "char \<Rightarrow> bool" where
  "is_upper c \<longleftrightarrow> CHR ''A'' \<le> c \<and> c \<le> CHR ''Z''"

definition digits_value :: "string \<Rightarrow> nat" where
  "digits_value s = foldl (\<lambda>n c. 10 * n + (of_char c - 48)) 0 s"

text \<open>\<open>net.ParseIP\<close> on a text without a colon: four decimal octets, no leading zero.\<close>

definition ipv4_octet :: "string \<Rightarrow> bool" where
  "ipv4_octet l \<longleftrightarrow>
     l \<noteq> [] \<and> (\<forall>c\<in>set l. is_digit c) \<and> \<not> (length l > 1 \<and> hd l = CHR ''0'') \<and>
     length l \<le> 3 \<and> digits_value l \<le> 255"

definition is_ipv4 :: "string \<Rightarrow> bool" where
  "is_ipv4 h \<longleftrightarrow> length (split_on CHR ''.'' h) = 4 \<and> (\<forall>l\<in>set (split_on CHR ''.'' h). ipv4_octet l)"

definition host_label_ok :: "string \<Rightarrow> bool" where
  "host_label_ok l \<longleftrightarrow>
     l \<noteq> [] \<and> hd l \<noteq> CHR ''-'' \<and> last l \<noteq> CHR ''-'' \<and>
     (\<forall>c\<in>set l. is_lower c \<or> is_digit c \<or> c = CHR ''-'')"

text \<open>
  The rejection reason inside \<open>validateExternalOutputHost\<close> is not kept: every rejection is the
  same value, so the ASCII reading of \<open>strings.ToLower\<close> below decides as the code does (a host
  with a non-ASCII rune is refused by the label check at the latest).
\<close>

definition validate_external_output_host :: "string \<Rightarrow> unit res" where
  "validate_external_output_host h =
     (if h = '''' \<or> length h > 253 \<or> (\<exists>c\<in>set h. is_upper c)
         \<or> (\<exists>c\<in>set h. c \<in> set ''/:*@ '' \<or> c \<in> {CHR 0x09, CHR 0x0D, CHR 0x0A})
         \<or> is_ipv4 h
         \<or> length (split_on CHR ''.'' h) < 2
         \<or> (\<exists>l\<in>set (split_on CHR ''.'' h). \<not> host_label_ok l)
      then Inl (ValidationError ''external_output_hosts/entry'')
      else Inr ())"

definition validate_external_output_hosts :: "string list \<Rightarrow> unit res" where
  "validate_external_output_hosts hs =
     (if length hs < 1 \<or> length hs > 16 then Inl (ValidationError ''external_output_hosts/out_of_range'')
      else first_error validate_external_output_host hs)"

subsection \<open>The validator\<close>

definition guard_valid :: "bool \<Rightarrow> string \<Rightarrow> unit res \<Rightarrow> unit res" where
  "guard_valid bad msg rest = (if bad then Inl (ValidationError msg) else rest)"

lemma guard_valid_ok [simp]: "guard_valid bad msg rest = Inr () \<longleftrightarrow> \<not> bad \<and> rest = Inr ()"
  by (simp add: guard_valid_def)

definition and_then :: "unit res \<Rightarrow> unit res \<Rightarrow> unit res" where
  "and_then a b = (case a of Inl e \<Rightarrow> Inl e | Inr _ \<Rightarrow> b)"

lemma and_then_ok [simp]: "and_then a b = Inr () \<longleftrightarrow> a = Inr () \<and> b = Inr ()"
  by (auto simp: and_then_def split: sum.splits)

definition validate_redundancy :: "validation_config \<Rightarrow> unit res \<Rightarrow> unit res" where
  "validate_redundancy c rest =
    (guard_valid (vc_redundancy_factor c < 1) ''redundancy_factor/out_of_range'' (
     guard_valid (vc_target_copies c < 0) ''target_copies/out_of_range'' (
     guard_valid (vc_min_quorum c < 0) ''min_quorum/out_of_range'' (
     let eff_target = effective_target_copies c;
         eff_quorum = (if vc_min_quorum c \<le> 0 then vc_redundancy_factor c else vc_min_quorum c) in
     guard_valid (eff_quorum > eff_target) ''min_quorum/exceeds_target'' (
     guard_valid (vc_max_total_copies c < 0) ''max_total_copies/out_of_range'' (
     guard_valid (vc_max_total_copies c > 0 \<and> vc_max_total_copies c < eff_target) ''max_total_copies/below_target'' (
     guard_valid (vc_max_error_copies c < 0) ''max_error_copies/out_of_range'' (
     guard_valid (vc_max_error_copies c > 0 \<and> vc_max_error_copies c < eff_target) ''max_error_copies/below_target'' (
     guard_valid (vc_agreement_threshold c < 0 \<or> vc_agreement_threshold c > 1) ''agreement_threshold/out_of_range'' (
     guard_valid (eff_target \<ge> 2 \<and> vc_agreement_threshold c > 0 \<and> vc_agreement_threshold c \<le> 1/2)
       ''agreement_threshold/not_strict_majority''
     rest))))))))))"

definition validate_trust_overrides :: "validation_config \<Rightarrow> unit res \<Rightarrow> unit res" where
  "validate_trust_overrides c rest =
    (guard_valid (vc_min_trusted_corroborators c < 0) ''min_trusted_corroborators/out_of_range'' (
     guard_valid (vc_trust_floor c < 0) ''trust_floor/out_of_range'' (
     guard_valid (vc_min_trusted_corroborators c > 0 \<and> vc_min_trusted_corroborators c > effective_min_quorum c)
       ''min_trusted_corroborators/exceeds_quorum''
     rest)))"

definition validate_comparison :: "validation_config \<Rightarrow> unit res \<Rightarrow> unit res" where
  "validate_comparison c rest =
    (guard_valid (vc_comparison_mode c = cmp_custom) ''comparison_mode/not_yet_supported'' (
     guard_valid (vc_comparison_mode c \<noteq> cmp_exact \<and> vc_comparison_mode c \<noteq> cmp_numeric_tolerance)
       ''comparison_mode/invalid_value'' (
     guard_valid (vc_comparison_mode c = cmp_numeric_tolerance \<and>
                  (case vc_numeric_tolerance c of None \<Rightarrow> True | Some t \<Rightarrow> t \<le> 0))
       ''numeric_tolerance/required_and_positive'' (
     guard_valid (vc_comparison_mode c = cmp_numeric_tolerance \<and>
                  (effective_target_copies c \<ge> 2 \<or> vc_spot_check_enabled c) \<and>
                  vc_compare_fields c = [] \<and> vc_ignore_fields c = [] \<and> \<not> vc_compare_all_fields c)
       ''compare_fields/comparison_scope_required'' (
     guard_valid (vc_compare_all_fields c \<and> vc_comparison_mode c \<noteq> cmp_numeric_tolerance)
       ''compare_all_fields/not_applicable_for_mode'' (
     guard_valid (vc_compare_all_fields c \<and> (vc_compare_fields c \<noteq> [] \<or> vc_ignore_fields c \<noteq> []))
       ''compare_all_fields/contradicts_field_scoping''
     rest))))))"

definition validate_spot_check :: "validation_config \<Rightarrow> unit res \<Rightarrow> unit res" where
  "validate_spot_check c rest =
    (guard_valid (vc_max_retries c < 1 \<or> vc_max_retries c > 10) ''max_retries/out_of_range'' (
     guard_valid (vc_spot_check_enabled c \<and> effective_target_copies c > 1) ''spot_check_enabled/requires_redundancy_1'' (
     guard_valid (vc_spot_check_enabled c \<and>
                  (vc_spot_check_percentage c < 1 \<or> vc_spot_check_percentage c > 20))
       ''spot_check_percentage/out_of_range'' (
     guard_valid (vc_audit_rate c < 0 \<or> vc_audit_rate c > 1) ''audit_rate/out_of_range''
     rest))))"

definition validate_external_output :: "validation_config \<Rightarrow> unit res" where
  "validate_external_output c =
    (if vc_allow_external_output c
     then guard_valid (vc_external_output_hosts c = []) ''external_output_hosts/required_non_empty'' (
          guard_valid (vc_comparison_mode c = cmp_numeric_tolerance)
            ''allow_external_output/incompatible_with_numeric_tolerance''
          (validate_external_output_hosts (vc_external_output_hosts c)))
     else guard_valid (vc_external_output_hosts c \<noteq> []) ''external_output_hosts/requires_opt_in'' (Inr ()))"

definition validate_validation_config :: "validation_config \<Rightarrow> unit res" where
  "validate_validation_config c =
     validate_redundancy c (validate_trust_overrides c (validate_comparison c (validate_spot_check c (
       and_then (validate_external_output c) (
       and_then (validate_field_paths ''ignore_fields'' (vc_ignore_fields c)) (
       and_then (validate_field_paths ''compare_fields'' (vc_compare_fields c)) (
       guard_valid (vc_compare_fields c \<noteq> [] \<and> vc_comparison_mode c \<noteq> cmp_numeric_tolerance)
         ''compare_fields/not_applicable_for_mode'' (Inr ()))))))))"

lemma validate_redundancy_ok:
  "validate_redundancy c rest = Inr () \<Longrightarrow>
     1 \<le> vc_redundancy_factor c \<and> 0 \<le> vc_target_copies c \<and> 0 \<le> vc_min_quorum c \<and>
     (if vc_min_quorum c \<le> 0 then vc_redundancy_factor c else vc_min_quorum c) \<le> effective_target_copies c \<and>
     0 \<le> vc_max_total_copies c \<and>
     (vc_max_total_copies c > 0 \<longrightarrow> effective_target_copies c \<le> vc_max_total_copies c) \<and>
     0 \<le> vc_max_error_copies c \<and>
     (vc_max_error_copies c > 0 \<longrightarrow> effective_target_copies c \<le> vc_max_error_copies c) \<and>
     0 \<le> vc_agreement_threshold c \<and> vc_agreement_threshold c \<le> 1 \<and>
     (2 \<le> effective_target_copies c \<longrightarrow> vc_agreement_threshold c = 0 \<or> 1/2 < vc_agreement_threshold c) \<and>
     rest = Inr ()"
  unfolding validate_redundancy_def Let_def guard_valid_ok by linarith

lemma validate_trust_overrides_ok:
  "validate_trust_overrides c rest = Inr () \<Longrightarrow>
     0 \<le> vc_min_trusted_corroborators c \<and> 0 \<le> vc_trust_floor c \<and>
     vc_min_trusted_corroborators c \<le> effective_min_quorum c \<and> rest = Inr ()"
  using effective_quorum_bounds [of c] unfolding validate_trust_overrides_def guard_valid_ok by linarith

lemma validate_comparison_ok:
  "validate_comparison c rest = Inr () \<Longrightarrow>
     (vc_comparison_mode c = cmp_exact \<or> vc_comparison_mode c = cmp_numeric_tolerance) \<and>
     (vc_comparison_mode c = cmp_numeric_tolerance \<longrightarrow> (\<exists>t. vc_numeric_tolerance c = Some t \<and> 0 < t)) \<and>
     (vc_compare_all_fields c \<longrightarrow>
        vc_comparison_mode c = cmp_numeric_tolerance \<and> vc_compare_fields c = [] \<and> vc_ignore_fields c = []) \<and>
     rest = Inr ()"
  unfolding validate_comparison_def guard_valid_ok by (cases "vc_numeric_tolerance c") auto

lemma validate_spot_check_ok:
  "validate_spot_check c rest = Inr () \<Longrightarrow>
     (vc_spot_check_enabled c \<longrightarrow> effective_target_copies c = 1) \<and> rest = Inr ()"
  using effective_target_pos [of c] unfolding validate_spot_check_def guard_valid_ok by linarith

text \<open>What an accepted validation section guarantees to the rest of the program.\<close>

lemma valid_config_parts:
  assumes "validate_validation_config c = Inr ()"
  shows "\<exists>rest. validate_redundancy c rest = Inr ()"
    "\<exists>rest. validate_trust_overrides c rest = Inr ()"
    "\<exists>rest. validate_comparison c rest = Inr ()"
    "\<exists>rest. validate_spot_check c rest = Inr ()"
proof -
  show "\<exists>rest. validate_redundancy c rest = Inr ()"
    using assms unfolding validate_validation_config_def by blast
  have 1: "\<exists>rest. validate_trust_overrides c (validate_comparison c (validate_spot_check c rest)) = Inr ()"
    using assms validate_redundancy_ok unfolding validate_validation_config_def by blast
  then show "\<exists>rest. validate_trust_overrides c rest = Inr ()" by blast
  have 2: "\<exists>rest. validate_comparison c (validate_spot_check c rest) = Inr ()"
    using 1 validate_trust_overrides_ok by blast
  then show "\<exists>rest. validate_comparison c rest = Inr ()" by blast
  show "\<exists>rest. validate_spot_check c rest = Inr ()"
    using 2 validate_comparison_ok by blast
qed

lemma valid_config_redundancy:
  assumes "validate_validation_config c = Inr ()"
  shows "1 \<le> vc_redundancy_factor c" "0 \<le> vc_target_copies c" "0 \<le> vc_min_quorum c"
    "0 \<le> vc_max_total_copies c" "0 \<le> vc_max_error_copies c"
    "vc_max_total_copies c > 0 \<Longrightarrow> effective_target_copies c \<le> vc_max_total_copies c"
    "vc_max_error_copies c > 0 \<Longrightarrow> effective_target_copies c \<le> vc_max_error_copies c"
    "(if vc_min_quorum c \<le> 0 then vc_redundancy_factor c else vc_min_quorum c) \<le> effective_target_copies c"
    "0 \<le> vc_agreement_threshold c" "vc_agreement_threshold c \<le> 1"
    "2 \<le> effective_target_copies c \<Longrightarrow> vc_agreement_threshold c = 0 \<or> 1/2 < vc_agreement_threshold c"
  using valid_config_parts(1) [OF assms] validate_redundancy_ok by metis+

lemma valid_config_trust:
  assumes "validate_validation_config c = Inr ()"
  shows "0 \<le> vc_min_trusted_corroborators c" "0 \<le> vc_trust_floor c"
    "vc_min_trusted_corroborators c \<le> effective_min_quorum c"
  using valid_config_parts(2) [OF assms] validate_trust_overrides_ok by metis+

lemma valid_config_spot_check:
  assumes "validate_validation_config c = Inr ()" "vc_spot_check_enabled c"
  shows "effective_target_copies c = 1"
  using valid_config_parts(4) [OF assms(1)] validate_spot_check_ok assms(2) by metis

lemma valid_config_mode:
  assumes "validate_validation_config c = Inr ()"
  shows "vc_comparison_mode c = cmp_exact \<or> vc_comparison_mode c = cmp_numeric_tolerance"
    "vc_comparison_mode c = cmp_numeric_tolerance \<Longrightarrow> \<exists>t. vc_numeric_tolerance c = Some t \<and> 0 < t"
  using valid_config_parts(3) [OF assms] validate_comparison_ok by metis+

lemma default_validation_config_valid: "validate_validation_config default_validation_config = Inr ()"
  by code_simp

lemma default_validation_config_simps:
  "vc_redundancy_factor default_validation_config = 2" "vc_target_copies default_validation_config = 0"
  "vc_min_quorum default_validation_config = 0" "vc_agreement_threshold default_validation_config = 1"
  "vc_comparison_mode default_validation_config = cmp_exact"
  "vc_ignore_fields default_validation_config = []" "vc_compare_fields default_validation_config = []"
  "vc_max_total_copies default_validation_config = 0" "vc_max_error_copies default_validation_config = 0"
  by (simp_all add: default_validation_config_def zero_validation_config_def apply_validation_config_defaults_def)

subsection \<open>Fault tolerance\<close>

record fault_tolerance_config =
  ft_deadline_seconds :: "int option"
  ft_max_reassignments :: int
  ft_checkpointing_enabled :: bool
  ft_checkpoint_interval_seconds :: "int option"
  ft_max_checkpoint_size_bytes :: int

definition builtin_default_deadline_seconds :: int where
  "builtin_default_deadline_seconds = 21600"

definition set_head_default_deadline_seconds :: "int \<Rightarrow> int \<Rightarrow> int" where
  "set_head_default_deadline_seconds current seconds = (if seconds > 0 then seconds else current)"

definition has_leaf_deadline :: "fault_tolerance_config \<Rightarrow> bool" where
  "has_leaf_deadline c = (case ft_deadline_seconds c of None \<Rightarrow> False | Some d \<Rightarrow> d > 0)"

definition resolve_deadline_seconds :: "int \<Rightarrow> fault_tolerance_config \<Rightarrow> int" where
  "resolve_deadline_seconds head_default c =
     (if has_leaf_deadline c then the (ft_deadline_seconds c) else head_default)"

definition validate_fault_tolerance_config :: "fault_tolerance_config \<Rightarrow> unit res" where
  "validate_fault_tolerance_config c =
    (guard_valid (case ft_deadline_seconds c of None \<Rightarrow> False | Some d \<Rightarrow> d \<le> 0) ''deadline_seconds/must_be_positive'' (
     guard_valid (ft_max_reassignments c < 1) ''max_reassignments/out_of_range'' (
     guard_valid (ft_checkpointing_enabled c \<and>
                  (case ft_checkpoint_interval_seconds c of None \<Rightarrow> True | Some i \<Rightarrow> i < 60))
       ''checkpoint_interval_seconds/required_and_minimum_60'' (
     guard_valid (ft_max_checkpoint_size_bytes c < 0) ''max_checkpoint_size_bytes/must_be_non_negative'' (Inr ())))))"

lemma head_default_positive:
  "0 < foldl set_head_default_deadline_seconds builtin_default_deadline_seconds xs"
proof -
  have "0 < d \<Longrightarrow> 0 < foldl set_head_default_deadline_seconds d xs" for d
    by (induction xs arbitrary: d) (auto simp: set_head_default_deadline_seconds_def)
  then show ?thesis by (simp add: builtin_default_deadline_seconds_def)
qed

subsection \<open>The leaf life cycle\<close>

datatype leaf_state = LDraft | LConfiguring | LActive | LPaused | LCompleted | LArchived

fun leaf_valid_transitions :: "leaf_state \<Rightarrow> leaf_state list" where
  "leaf_valid_transitions LDraft = [LConfiguring, LArchived]"
| "leaf_valid_transitions LConfiguring = [LActive]"
| "leaf_valid_transitions LActive = [LPaused, LConfiguring, LCompleted]"
| "leaf_valid_transitions LPaused = [LActive, LConfiguring, LArchived]"
| "leaf_valid_transitions LCompleted = [LArchived]"
| "leaf_valid_transitions LArchived = []"

definition leaf_validate_transition :: "leaf_state \<Rightarrow> leaf_state \<Rightarrow> unit res" where
  "leaf_validate_transition from to =
     (if to \<in> set (leaf_valid_transitions from) then Inr () else Inl (Conflict ''INVALID_STATE_TRANSITION''))"

subsection \<open>What a leaf runs and what it needs\<close>

abbreviation "runtime_native \<equiv> ''NATIVE''"
abbreviation "runtime_container \<equiv> ''CONTAINER''"
abbreviation "runtime_wasm \<equiv> ''WASM''"
abbreviation "gpu_type_any \<equiv> ''ANY''"
abbreviation "visibility_public \<equiv> ''PUBLIC''"
abbreviation "visibility_unlisted \<equiv> ''UNLISTED''"
abbreviation "visibility_private \<equiv> ''PRIVATE''"

text \<open>The fields dispatch matches on; images, binaries and scripts are only carried to the volunteer.\<close>

record execution_config =
  ec_runtime :: string
  ec_gpu_required :: bool
  ec_gpu_type :: string
  ec_max_memory_mb :: int
  ec_max_disk_mb :: int
  ec_max_cpu_seconds :: int
  ec_rsc_fpops_est :: f64

record resource_requirements =
  rr_min_cpu_cores :: int
  rr_max_cpu_cores :: int
  rr_min_disk_mb :: int
  rr_min_gpu_vram_mb :: int
  rr_gpu_required :: bool
  rr_gpu_compute_capability :: "string option"
  rr_min_bandwidth_mbps :: int

definition apply_execution_config_defaults :: "execution_config \<Rightarrow> execution_config" where
  "apply_execution_config_defaults c =
     (let c1 = (if ec_gpu_type c = '''' then c\<lparr>ec_gpu_type := gpu_type_any\<rparr> else c);
          c2 = (if ec_max_memory_mb c1 = 0 then c1\<lparr>ec_max_memory_mb := 4096\<rparr> else c1);
          c3 = (if ec_max_disk_mb c2 = 0 then c2\<lparr>ec_max_disk_mb := 10240\<rparr> else c2) in
      if ec_max_cpu_seconds c3 = 0 then c3\<lparr>ec_max_cpu_seconds := 86400\<rparr> else c3)"

definition apply_resource_requirements_defaults :: "resource_requirements \<Rightarrow> resource_requirements" where
  "apply_resource_requirements_defaults r =
     (let r1 = (if rr_min_cpu_cores r = 0 then r\<lparr>rr_min_cpu_cores := 1\<rparr> else r) in
      if rr_min_disk_mb r1 = 0 then r1\<lparr>rr_min_disk_mb := 1024\<rparr> else r1)"

text \<open>The runtime, the GPU type and the limits of \<open>ValidateExecutionConfig\<close>.\<close>

definition validate_runtime :: "execution_config \<Rightarrow> unit res" where
  "validate_runtime c =
    (guard_valid (ec_runtime c = '''') ''runtime/required'' (
     guard_valid (ec_runtime c \<notin> {runtime_native, runtime_container, runtime_wasm}) ''runtime/unsupported_or_invalid'' (Inr ())))"

definition validate_gpu_type :: "execution_config \<Rightarrow> unit res" where
  "validate_gpu_type c =
     guard_valid (ec_gpu_required c \<and> ec_gpu_type c \<notin> {'''', ''ANY'', ''NVIDIA'', ''AMD'', ''WEBGPU''})
       ''gpu_type/invalid_value'' (Inr ())"

definition validate_limits :: "execution_config \<Rightarrow> unit res" where
  "validate_limits c =
    (guard_valid (ec_max_memory_mb c \<le> 0) ''max_memory_mb/must_be_positive'' (
     guard_valid (ec_max_disk_mb c \<le> 0) ''max_disk_mb/must_be_positive'' (
     guard_valid (ec_max_cpu_seconds c \<le> 0) ''max_cpu_seconds/must_be_positive'' (Inr ()))))"

text \<open>Go's \<open>%\<close> truncates, but a multiple of 1024 is one under either division.\<close>

definition validate_resource_requirements :: "resource_requirements \<Rightarrow> unit res" where
  "validate_resource_requirements r =
    (guard_valid (rr_min_cpu_cores r < 1) ''min_cpu_cores/must_be_positive'' (
     guard_valid (rr_max_cpu_cores r < 0) ''max_cpu_cores/must_be_non_negative'' (
     guard_valid (rr_max_cpu_cores r > 0 \<and> rr_max_cpu_cores r < rr_min_cpu_cores r) ''max_cpu_cores/below_min_cpu_cores'' (
     guard_valid (rr_min_disk_mb r \<le> 0) ''min_disk_mb/must_be_positive'' (
     guard_valid (rr_min_gpu_vram_mb r < 0) ''min_gpu_vram_mb/must_be_non_negative'' (
     guard_valid (rr_min_gpu_vram_mb r mod 1024 \<noteq> 0) ''min_gpu_vram_mb/must_be_whole_gib'' (
     guard_valid (rr_min_bandwidth_mbps r < 0) ''min_bandwidth_mbps/must_be_non_negative'' (Inr ()))))))))"

definition resolve_max_cpu_cores :: "resource_requirements \<Rightarrow> int" where
  "resolve_max_cpu_cores r =
     (if rr_max_cpu_cores r > rr_min_cpu_cores r then rr_max_cpu_cores r else rr_min_cpu_cores r)"

subsection \<open>The leaf\<close>

record leaf =
  leaf_id :: uid
  leaf_creator :: "uid option"
  leaf_state :: leaf_state
  leaf_is_ongoing :: bool
  leaf_execution_config :: execution_config
  leaf_validation_config :: validation_config
  leaf_fault_tolerance_config :: fault_tolerance_config
  leaf_credit_per_unit :: f64
  leaf_resource_requirements :: resource_requirements
  leaf_visibility :: string
  leaf_current_version :: "uid option"

abbreviation leaf_rsc_fpops_est :: "leaf \<Rightarrow> f64" where
  "leaf_rsc_fpops_est l \<equiv> ec_rsc_fpops_est (leaf_execution_config l)"

text \<open>An active leaf with a given validation section, for concrete instances.\<close>

definition plain_execution_config :: execution_config where
  "plain_execution_config = \<lparr>ec_runtime = runtime_container, ec_gpu_required = False, ec_gpu_type = gpu_type_any,
     ec_max_memory_mb = 4096, ec_max_disk_mb = 10240, ec_max_cpu_seconds = 86400, ec_rsc_fpops_est = 0\<rparr>"

definition plain_resource_requirements :: resource_requirements where
  "plain_resource_requirements = \<lparr>rr_min_cpu_cores = 1, rr_max_cpu_cores = 0, rr_min_disk_mb = 1024,
     rr_min_gpu_vram_mb = 0, rr_gpu_required = False, rr_gpu_compute_capability = None, rr_min_bandwidth_mbps = 0\<rparr>"

definition active_leaf :: "uid \<Rightarrow> validation_config \<Rightarrow> leaf" where
  "active_leaf l vc = \<lparr>leaf_id = l, leaf_creator = None, leaf_state = LActive, leaf_is_ongoing = False,
     leaf_execution_config = plain_execution_config, leaf_validation_config = vc,
     leaf_fault_tolerance_config = \<lparr>ft_deadline_seconds = None, ft_max_reassignments = 3,
       ft_checkpointing_enabled = False, ft_checkpoint_interval_seconds = None,
       ft_max_checkpoint_size_bytes = 104857600\<rparr>,
     leaf_credit_per_unit = 1, leaf_resource_requirements = plain_resource_requirements,
     leaf_visibility = visibility_public, leaf_current_version = None\<rparr>"

end
