(* ===== verification/Output.thy ===== *)
theory Output
  imports Results LeafConfig "HOL-Library.AList"
begin

text \<open>
  What the comparators read from a result's output (\<open>internal/validation/engine.go\<close>): the
  flattening of a document into path/value leaves, the tolerance match of two flattened documents,
  the removal of ignored fields, and the key results are grouped by in EXACT mode. A Go map is the
  list of its entries in iteration order; \<open>sha_hex\<close> is the hexadecimal SHA-256.
\<close>

subsection \<open>Numbers\<close>

definition is_exp_mark :: "char \<Rightarrow> bool" where
  "is_exp_mark c \<longleftrightarrow> c = CHR ''e'' \<or> c = CHR ''E''"

definition exponent_value :: "string \<Rightarrow> int" where
  "exponent_value s =
     (case s of
        [] \<Rightarrow> 0
      | c # cs \<Rightarrow>
          (if c = CHR ''-'' then - int (digits_value cs)
           else if c = CHR ''+'' then int (digits_value cs)
           else int (digits_value s)))"

text \<open>The value of a JSON number token.\<close>

definition number_value :: "string \<Rightarrow> rat" where
  "number_value tok =
     (let neg = (tok \<noteq> [] \<and> hd tok = CHR ''-'');
          body = (if neg then tl tok else tok);
          mant = takeWhile (\<lambda>c. \<not> is_exp_mark c) body;
          ex = exponent_value (drop 1 (dropWhile (\<lambda>c. \<not> is_exp_mark c) body));
          ip = takeWhile (\<lambda>c. c \<noteq> CHR ''.'') mant;
          fp = drop 1 (dropWhile (\<lambda>c. c \<noteq> CHR ''.'') mant);
          e = ex - int (length fp);
          m = of_nat (digits_value (ip @ fp));
          v = (if e \<ge> 0 then m * 10 ^ nat e else m / 10 ^ nat (- e))
      in if neg then - v else v)"

text \<open>\<open>json.Number.Float64\<close>: an error beyond the largest finite value.\<close>

definition number_float64 :: "string \<Rightarrow> f64 res" where
  "number_float64 tok =
     (if overflows (number_value tok) then Inl (OtherError ''value out of range'')
      else Inr (rnd (number_value tok)))"

lemma number_float64_int:
  assumes "number_value tok = of_int m" "\<bar>m\<bar> \<le> 2 ^ 53"
  shows "number_float64 tok = Inr (of_int m)"
proof -
  have "\<bar>of_int m :: rat\<bar> \<le> 2 ^ 53"
    using assms(2) by (metis of_int_abs of_int_le_iff of_int_numeral of_int_power)
  moreover have "(2::rat) ^ 53 < 2 ^ 1024" by (rule power_strict_increasing) auto
  ultimately have "\<not> overflows (of_int m)" by (simp add: overflows_def rnd_int [OF assms(2)])
  then show ?thesis using assms by (simp add: number_float64_def rnd_int)
qed

subsection \<open>Field paths\<close>

definition matches_field_path :: "string list \<Rightarrow> string \<Rightarrow> bool" where
  "matches_field_path patterns path \<longleftrightarrow>
     (\<exists>p\<in>set patterns. path = p \<or> starts_with (p @ ''.'') path)"

function itoa :: "nat \<Rightarrow> string" where
  "itoa n = (if n < 10 then [char_of (48 + n)] else itoa (n div 10) @ [char_of (48 + n mod 10)])"
  by auto
termination by (relation "measure id") auto

declare itoa.simps [simp del]

definition join_path :: "string \<Rightarrow> string \<Rightarrow> string" where
  "join_path path k = (if path \<noteq> '''' then path @ ''.'' @ k else k)"

subsection \<open>Flattening\<close>

datatype flat_val = FNum f64 | FStr string

type_synonym flat_map = "(string \<times> flat_val) list"

definition flatten_scalar ::
    "string list \<Rightarrow> string list \<Rightarrow> string \<Rightarrow> string \<Rightarrow> json \<Rightarrow> flat_map \<Rightarrow> flat_map res" where
  "flatten_scalar ignore compare path elided v out =
     (if matches_field_path ignore path \<or> matches_field_path ignore elided then Inr out
      else if compare \<noteq> [] \<and> \<not> matches_field_path compare path \<and> \<not> matches_field_path compare elided
      then Inr out
      else case v of
        JNum tok \<Rightarrow>
          (case number_float64 tok of Inl e \<Rightarrow> Inl e | Inr f \<Rightarrow> Inr (AList.update path (FNum f) out))
      | JStr s \<Rightarrow> Inr (AList.update path (FStr s) out)
      | JBool b \<Rightarrow> Inr (AList.update path (FStr (if b then ''true'' else ''false'')) out)
      | JNull \<Rightarrow> Inr (AList.update path (FStr ''null'') out)
      | _ \<Rightarrow> Inl (OtherError ''unsupported leaf type''))"

function (sequential) flatten_into :: "string list \<Rightarrow> string list \<Rightarrow> string \<Rightarrow> string \<Rightarrow> json \<Rightarrow> flat_map \<Rightarrow> flat_map res"
and flatten_members ::
      "string list \<Rightarrow> string list \<Rightarrow> string \<Rightarrow> string \<Rightarrow> (string \<times> json) list \<Rightarrow> flat_map \<Rightarrow> flat_map res"
and flatten_elems ::
      "string list \<Rightarrow> string list \<Rightarrow> string \<Rightarrow> string \<Rightarrow> nat \<Rightarrow> json list \<Rightarrow> flat_map \<Rightarrow> flat_map res"
where
  "flatten_into ig cmp path elided (JObj ms) out = flatten_members ig cmp path elided ms out"
| "flatten_into ig cmp path elided (JArr vs) out = flatten_elems ig cmp path elided 0 vs out"
| "flatten_into ig cmp path elided v out = flatten_scalar ig cmp path elided v out"
| "flatten_members ig cmp path elided [] out = Inr out"
| "flatten_members ig cmp path elided ((k, v) # ms) out =
     (case flatten_into ig cmp (join_path path k) (join_path elided k) v out of
        Inl e \<Rightarrow> Inl e
      | Inr out' \<Rightarrow> flatten_members ig cmp path elided ms out')"
| "flatten_elems ig cmp path elided i [] out = Inr out"
| "flatten_elems ig cmp path elided i (v # vs) out =
     (case flatten_into ig cmp (join_path path (itoa i)) elided v out of
        Inl e \<Rightarrow> Inl e
      | Inr out' \<Rightarrow> flatten_elems ig cmp path elided (Suc i) vs out')"
  by pat_completeness auto
termination
  by (relation "measure (\<lambda>x. case x of
        Inl (_, _, _, _, v, _) \<Rightarrow> size v
      | Inr (Inl (_, _, _, _, ms, _)) \<Rightarrow> size_list (size_prod (\<lambda>_. 0) size) ms
      | Inr (Inr (_, _, _, _, _, vs, _)) \<Rightarrow> size_list size vs)") auto

definition flatten_output :: "raw_output \<Rightarrow> string list \<Rightarrow> string list \<Rightarrow> flat_map res" where
  "flatten_output data ignore compare =
     (case data of
        OutputEmpty \<Rightarrow> Inl (OtherError ''empty output data'')
      | OutputMalformed \<Rightarrow> Inl (OtherError ''unmarshal output'')
      | OutputDoc v \<Rightarrow> flatten_into ignore compare '''' '''' v [])"

lemma flatten_scalar_distinct:
  "distinct (map fst out) \<Longrightarrow> flatten_scalar ig cmp p e v out = Inr out' \<Longrightarrow> distinct (map fst out')"
  by (auto simp: flatten_scalar_def distinct_update split: if_splits json.splits sum.splits)

lemma flatten_distinct:
  "distinct (map fst out) \<Longrightarrow> flatten_into ig cmp p e v out = Inr out' \<Longrightarrow> distinct (map fst out')"
  "distinct (map fst out) \<Longrightarrow> flatten_members ig cmp p e ms out = Inr out' \<Longrightarrow> distinct (map fst out')"
  "distinct (map fst out) \<Longrightarrow> flatten_elems ig cmp p e i vs out = Inr out' \<Longrightarrow> distinct (map fst out')"
  by (induction ig cmp p e v out and ig cmp p e ms out and ig cmp p e i vs out
      arbitrary: out' and out' and out'
      rule: flatten_into_flatten_members_flatten_elems.induct)
    (auto dest: flatten_scalar_distinct split: sum.splits)

lemma flatten_output_distinct: "flatten_output d ig cmp = Inr m \<Longrightarrow> distinct (map fst m)"
  by (cases d) (auto simp: flatten_output_def dest: flatten_distinct(1) [rotated])

subsection \<open>Matching two flattened outputs\<close>

definition flat_val_match :: "f64 \<Rightarrow> flat_val \<Rightarrow> flat_val \<Rightarrow> bool" where
  "flat_val_match epsilon va vb =
     (case (va, vb) of
        (FNum x, FNum y) \<Rightarrow> \<not> (\<bar>rnd (x - y)\<bar> > epsilon)
      | (FStr s, FStr t) \<Rightarrow> s = t
      | _ \<Rightarrow> False)"

definition leaf_matches :: "f64 \<Rightarrow> flat_map \<Rightarrow> string \<times> flat_val \<Rightarrow> bool" where
  "leaf_matches epsilon b kv =
     (case map_of b (fst kv) of None \<Rightarrow> False | Some vb \<Rightarrow> flat_val_match epsilon (snd kv) vb)"

definition numeric_match :: "flat_map \<Rightarrow> flat_map \<Rightarrow> f64 \<Rightarrow> bool" where
  "numeric_match a b epsilon =
     (if a = [] \<or> b = [] then False
      else if length a \<noteq> length b then False
      else list_all (leaf_matches epsilon b) a)"

lemma leaf_matches_iff:
  "leaf_matches eps b (k, va) \<longleftrightarrow> (\<exists>vb. map_of b k = Some vb \<and> flat_val_match eps va vb)"
  by (simp add: leaf_matches_def split: option.split)

lemma flat_val_match_sym: "flat_val_match eps x y = flat_val_match eps y x"
proof -
  have "\<bar>rnd (a - b)\<bar> = \<bar>rnd (b - a)\<bar>" for a b
    using rnd_minus [of "b - a"] by simp
  then show ?thesis by (cases x; cases y) (simp_all add: flat_val_match_def eq_commute)
qed

lemma flat_val_match_refl: "0 \<le> eps \<Longrightarrow> flat_val_match eps x x"
  by (simp add: flat_val_match_def split: flat_val.splits)

lemma length_keys: "distinct (map fst a) \<Longrightarrow> length a = card (fst ` set a)"
  by (metis distinct_card length_map set_map)

lemma numeric_match_iff:
  assumes a: "distinct (map fst a)" and b: "distinct (map fst b)"
  shows "numeric_match a b eps \<longleftrightarrow>
    a \<noteq> [] \<and> b \<noteq> [] \<and> fst ` set a = fst ` set b \<and>
    (\<forall>k va vb. map_of a k = Some va \<longrightarrow> map_of b k = Some vb \<longrightarrow> flat_val_match eps va vb)"
    (is "?l \<longleftrightarrow> ?r")
proof
  assume l: ?l
  then have ne: "a \<noteq> []" "b \<noteq> []" and len: "length a = length b"
    and la: "\<forall>kv\<in>set a. leaf_matches eps b kv"
    by (simp_all add: numeric_match_def list_all_iff split: if_splits)
  have all: "\<exists>vb. map_of b k = Some vb \<and> flat_val_match eps va vb" if "(k, va) \<in> set a" for k va
    using la that leaf_matches_iff by blast
  have "fst ` set a \<subseteq> fst ` set b"
  proof
    fix k assume "k \<in> fst ` set a"
    then obtain va where "(k, va) \<in> set a" by auto
    then obtain vb where "map_of b k = Some vb" using all by blast
    then show "k \<in> fst ` set b" using map_of_SomeD by (metis fst_conv imageI)
  qed
  moreover have "card (fst ` set a) = card (fst ` set b)"
    using length_keys [OF a] length_keys [OF b] len by simp
  ultimately have "fst ` set a = fst ` set b" by (intro card_subset_eq) auto
  moreover have "flat_val_match eps va vb" if "map_of a k = Some va" "map_of b k = Some vb" for k va vb
    using all [OF map_of_SomeD [OF that(1)]] that(2) by simp
  ultimately show ?r using ne by blast
next
  assume r: ?r
  then have keys: "fst ` set a = fst ` set b" by blast
  then have len: "length a = length b" using length_keys [OF a] length_keys [OF b] by simp
  have "leaf_matches eps b kv" if m: "kv \<in> set a" for kv
  proof -
    obtain k va where kv: "kv = (k, va)" by (cases kv)
    have va: "map_of a k = Some va" using a m kv by simp
    have "k \<in> fst ` set b" using m keys kv by force
    then obtain vb where "map_of b k = Some vb" by (metis map_of_eq_None_iff not_None_eq)
    with va r show ?thesis unfolding kv leaf_matches_iff by blast
  qed
  then show ?l using r len by (simp add: numeric_match_def list_all_iff)
qed

lemma numeric_match_swap:
  assumes "distinct (map fst a)" "distinct (map fst b)" "numeric_match a b eps"
  shows "numeric_match b a eps"
proof -
  have r: "a \<noteq> []" "b \<noteq> []" "fst ` set a = fst ` set b"
      and v: "\<And>k va vb. map_of a k = Some va \<Longrightarrow> map_of b k = Some vb \<Longrightarrow> flat_val_match eps va vb"
    using assms(3) unfolding numeric_match_iff [OF assms(1,2)] by blast+
  have "flat_val_match eps vb va" if "map_of b k = Some vb" "map_of a k = Some va" for k va vb
    using v [OF that(2,1)] by (simp only: flat_val_match_sym)
  then show ?thesis unfolding numeric_match_iff [OF assms(2,1)] using r by blast
qed

lemma numeric_match_sym:
  assumes "distinct (map fst a)" "distinct (map fst b)"
  shows "numeric_match a b eps = numeric_match b a eps"
  using numeric_match_swap assms by blast

lemma numeric_match_refl:
  assumes "distinct (map fst a)" "a \<noteq> []" "0 \<le> eps"
  shows "numeric_match a a eps"
  unfolding numeric_match_iff [OF assms(1,1)] using assms(2) flat_val_match_refl [OF assms(3)] by auto

subsection \<open>Stripping ignored fields\<close>

function (sequential) strip_fields :: "string list \<Rightarrow> string \<Rightarrow> json \<Rightarrow> json"
and strip_members :: "string list \<Rightarrow> string \<Rightarrow> (string \<times> json) list \<Rightarrow> (string \<times> json) list"
and strip_elems :: "string list \<Rightarrow> string \<Rightarrow> json list \<Rightarrow> json list"
where
  "strip_fields ig prefix (JObj ms) = JObj (strip_members ig prefix ms)"
| "strip_fields ig prefix (JArr vs) = JArr (strip_elems ig prefix vs)"
| "strip_fields ig prefix v = v"
| "strip_members ig prefix [] = []"
| "strip_members ig prefix ((k, v) # ms) =
     (if matches_field_path ig (join_path prefix k) then strip_members ig prefix ms
      else (k, strip_fields ig (join_path prefix k) v) # strip_members ig prefix ms)"
| "strip_elems ig prefix [] = []"
| "strip_elems ig prefix (v # vs) = strip_fields ig prefix v # strip_elems ig prefix vs"
  by pat_completeness auto
termination
  by (relation "measure (\<lambda>x. case x of
        Inl (_, _, v) \<Rightarrow> size v
      | Inr (Inl (_, _, ms)) \<Rightarrow> size_list (size_prod (\<lambda>_. 0) size) ms
      | Inr (Inr (_, _, vs)) \<Rightarrow> size_list size vs)") auto

function (sequential) has_any_leaf :: "json \<Rightarrow> bool"
and any_member_leaf :: "(string \<times> json) list \<Rightarrow> bool"
and any_elem_leaf :: "json list \<Rightarrow> bool"
where
  "has_any_leaf (JObj ms) = any_member_leaf ms"
| "has_any_leaf (JArr vs) = any_elem_leaf vs"
| "has_any_leaf v = True"
| "any_member_leaf [] = False"
| "any_member_leaf ((k, v) # ms) = (if has_any_leaf v then True else any_member_leaf ms)"
| "any_elem_leaf [] = False"
| "any_elem_leaf (v # vs) = (if has_any_leaf v then True else any_elem_leaf vs)"
  by pat_completeness auto
termination
  by (relation "measure (\<lambda>x. case x of
        Inl v \<Rightarrow> size v
      | Inr (Inl ms) \<Rightarrow> size_list (size_prod (\<lambda>_. 0) size) ms
      | Inr (Inr vs) \<Rightarrow> size_list size vs)") auto

definition stripped_value :: "raw_output \<Rightarrow> string list \<Rightarrow> json res" where
  "stripped_value data ignore =
     (case data of OutputDoc v \<Rightarrow> Inr (strip_fields ignore '''' v)
      | _ \<Rightarrow> Inl (OtherError ''parse output as JSON''))"

subsection \<open>Canonical encoding\<close>

text \<open>\<open>json.Marshal\<close>: object keys sorted bytewise, number tokens verbatim, strings with the default
  HTML-safe escapes (the decoded strings are valid UTF-8).\<close>

definition hex_digit :: "nat \<Rightarrow> char" where
  "hex_digit n = (if n < 10 then char_of (48 + n) else char_of (87 + n))"

definition escape_u00 :: "char \<Rightarrow> string" where
  "escape_u00 c = [CHR 0x5C, CHR ''u'', CHR ''0'', CHR ''0'', hex_digit (of_char c div 16), hex_digit (of_char c mod 16)]"

definition escape_char :: "char \<Rightarrow> string" where
  "escape_char c =
     (if c = CHR 0x22 \<or> c = CHR 0x5C then [CHR 0x5C, c]
      else if c = CHR 0x08 then [CHR 0x5C, CHR ''b'']
      else if c = CHR 0x0C then [CHR 0x5C, CHR ''f'']
      else if c = CHR 0x0A then [CHR 0x5C, CHR ''n'']
      else if c = CHR 0x0D then [CHR 0x5C, CHR ''r'']
      else if c = CHR 0x09 then [CHR 0x5C, CHR ''t'']
      else if c < CHR 0x20 \<or> c \<in> {CHR ''<'', CHR ''>'', CHR ''&''} then escape_u00 c
      else [c])"

fun escape_string :: "string \<Rightarrow> string" where
  "escape_string (a # b # c # rest) =
     (if a = CHR 0xE2 \<and> b = CHR 0x80 \<and> (c = CHR 0xA8 \<or> c = CHR 0xA9)
      then [CHR 0x5C, CHR ''u'', CHR ''2'', CHR ''0'', CHR ''2'', if c = CHR 0xA8 then CHR ''8'' else CHR ''9'']
             @ escape_string rest
      else escape_char a @ escape_string (b # c # rest))"
| "escape_string (a # rest) = escape_char a @ escape_string rest"
| "escape_string [] = []"

definition marshal_string :: "string \<Rightarrow> string" where
  "marshal_string s = [CHR 0x22] @ escape_string s @ [CHR 0x22]"

fun comma_join :: "string list \<Rightarrow> string" where
  "comma_join [] = []"
| "comma_join [x] = x"
| "comma_join (x # xs) = x @ '','' @ comma_join xs"

function (sequential) marshal :: "json \<Rightarrow> string"
and marshal_members :: "(string \<times> json) list \<Rightarrow> (string \<times> string) list"
and marshal_elems :: "json list \<Rightarrow> string list"
where
  "marshal JNull = ''null''"
| "marshal (JBool b) = (if b then ''true'' else ''false'')"
| "marshal (JNum tok) = tok"
| "marshal (JStr s) = marshal_string s"
| "marshal (JArr vs) = ''['' @ comma_join (marshal_elems vs) @ '']''"
| "marshal (JObj ms) =
     ''{'' @ comma_join (map (\<lambda>(k, e). marshal_string k @ '':'' @ e) (sort_key fst (marshal_members ms))) @ ''}''"
| "marshal_members [] = []"
| "marshal_members ((k, v) # ms) = (k, marshal v) # marshal_members ms"
| "marshal_elems [] = []"
| "marshal_elems (v # vs) = marshal v # marshal_elems vs"
  by pat_completeness auto
termination
  by (relation "measure (\<lambda>x. case x of
        Inl v \<Rightarrow> size v
      | Inr (Inl ms) \<Rightarrow> size_list (size_prod (\<lambda>_. 0) size) ms
      | Inr (Inr vs) \<Rightarrow> size_list size vs)") auto

subsection \<open>The grouping key of EXACT mode\<close>

definition comparison_key :: "(string \<Rightarrow> string) \<Rightarrow> result \<Rightarrow> string list \<Rightarrow> string res" where
  "comparison_key sha_hex r ignore =
     (if res_output r = OutputEmpty then
        (case res_verified_checksum r of
           Some c \<Rightarrow> Inr c
         | None \<Rightarrow> Inr (''unverified-ref:'' @ res_id r))
      else if ignore = [] then Inr (res_checksum r)
      else case stripped_value (res_output r) ignore of
        Inl e \<Rightarrow> Inl e
      | Inr stripped \<Rightarrow>
          (if \<not> has_any_leaf stripped then Inr (''canon-empty:'' @ res_id r)
           else Inr (''canon:'' @ sha_hex (marshal stripped))))"

text \<open>Two documents that differ only inside ignored fields.\<close>

inductive same_outside :: "string list \<Rightarrow> string \<Rightarrow> json \<Rightarrow> json \<Rightarrow> bool" for ig where
  same_leaf: "same_outside ig prefix v v"
| same_arr: "list_all2 (same_outside ig prefix) vs ws \<Longrightarrow> same_outside ig prefix (JArr vs) (JArr ws)"
| same_obj: "list_all2 (\<lambda>a b. fst a = fst b \<and>
       (matches_field_path ig (join_path prefix (fst a)) \<or>
        same_outside ig (join_path prefix (fst a)) (snd a) (snd b))) ms ns \<Longrightarrow>
     same_outside ig prefix (JObj ms) (JObj ns)"

lemma strip_elems_map: "strip_elems ig prefix vs = map (strip_fields ig prefix) vs"
  by (induction vs) auto

lemma same_outside_strip: "same_outside ig prefix v w \<Longrightarrow> strip_fields ig prefix v = strip_fields ig prefix w"
proof (induction rule: same_outside.induct)
  case (same_leaf prefix v)
  show ?case by simp
next
  case (same_arr prefix vs ws)
  then show ?case by (simp add: strip_elems_map) (induction rule: list_all2_induct; simp)
next
  case (same_obj prefix ms ns)
  then have "strip_members ig prefix ms = strip_members ig prefix ns"
    by (induction rule: list_all2_induct) auto
  then show ?case by simp
qed

text \<open>What survives flattening is neither ignored nor, with a compare list, outside it.\<close>

definition keys_clean :: "string list \<Rightarrow> flat_map \<Rightarrow> bool" where
  "keys_clean ig out \<longleftrightarrow> (\<forall>k\<in>fst ` set out. \<not> matches_field_path ig k)"

lemma keys_clean_update: "keys_clean ig out \<Longrightarrow> \<not> matches_field_path ig k \<Longrightarrow> keys_clean ig (AList.update k v out)"
  by (simp add: keys_clean_def dom_update)

lemma flatten_scalar_keys: "flatten_scalar ig cmp p e v out = Inr out' \<Longrightarrow> keys_clean ig out \<Longrightarrow> keys_clean ig out'"
  by (auto simp: flatten_scalar_def keys_clean_update split: if_splits json.splits sum.splits)

lemma flatten_keys:
  "flatten_into ig cmp p e v out = Inr out' \<Longrightarrow> keys_clean ig out \<Longrightarrow> keys_clean ig out'"
  "flatten_members ig cmp p e ms out = Inr out' \<Longrightarrow> keys_clean ig out \<Longrightarrow> keys_clean ig out'"
  "flatten_elems ig cmp p e i vs out = Inr out' \<Longrightarrow> keys_clean ig out \<Longrightarrow> keys_clean ig out'"
  by (induction ig cmp p e v out and ig cmp p e ms out and ig cmp p e i vs out
      arbitrary: out' and out' and out'
      rule: flatten_into_flatten_members_flatten_elems.induct)
    (auto dest: flatten_scalar_keys split: sum.splits)

lemma flatten_output_ignores: "flatten_output d ig cmp = Inr m \<Longrightarrow> keys_clean ig m"
  by (cases d) (auto simp: flatten_output_def keys_clean_def [of ig "[]"] dest: flatten_keys(1))

end
