(* ===== verification/Comparator.thy ===== *)
theory Comparator
  imports Output "HOL-Library.Word"
begin

text \<open>
  The read-only comparators of the validation engine (\<open>validation/engine.go\<close>): the EXACT comparator
  over grouping keys, the NUMERIC_TOLERANCE comparator over cliques of mutually matching outputs, the
  dispatch on the leaf's mode, the gate applied when a result is submitted
  (\<open>validation/submitgate.go\<close>), and the adjudication of an audit's re-executed output
  (\<open>validation/adjudicate.go\<close>). Logging is not modelled, except for the diagnosis it prints.
\<close>

subsection \<open>EXACT\<close>

definition exact_group :: "(string \<Rightarrow> string) \<Rightarrow> string list \<Rightarrow> result list \<Rightarrow> string \<Rightarrow> result list" where
  "exact_group sha_hex ignore pending key =
     filter (\<lambda>r. comparison_key sha_hex r ignore = Inr key) pending"

definition exact_keys :: "(string \<Rightarrow> string) \<Rightarrow> string list \<Rightarrow> result list \<Rightarrow> string list" where
  "exact_keys sha_hex ignore pending =
     remdups (concat (map (\<lambda>r. case comparison_key sha_hex r ignore of Inl _ \<Rightarrow> [] | Inr k \<Rightarrow> [k]) pending))"

definition compare_exact :: "(string \<Rightarrow> string) \<Rightarrow> leaf \<Rightarrow> result list \<Rightarrow> result list res" where
  "compare_exact sha_hex lf pending =
     (let ignore = vc_ignore_fields (leaf_validation_config lf);
          group = exact_group sha_hex ignore pending
      in case pick_largest (\<lambda>k. length (group k)) (exact_keys sha_hex ignore pending) of
           None \<Rightarrow> Inr []
         | Some k \<Rightarrow> Inr (group k))"

lemma exact_keys_iff:
  "k \<in> set (exact_keys sha ig pending) \<longleftrightarrow> exact_group sha ig pending k \<noteq> []"
  by (force simp: exact_keys_def exact_group_def filter_empty_conv split: sum.splits)

lemma exact_keys_distinct [simp]: "distinct (exact_keys sha ig pending)"
  by (simp add: exact_keys_def)

lemma exact_pick_iff:
  "pick_largest (\<lambda>k. length (exact_group sha ig pending k)) (exact_keys sha ig pending) = Some k \<longleftrightarrow>
   unique_largest (\<lambda>k. length (exact_group sha ig pending k)) {k. exact_group sha ig pending k \<noteq> []} k"
proof -
  have "\<forall>x\<in>set (exact_keys sha ig pending). 0 < length (exact_group sha ig pending x)"
    using exact_keys_iff by fastforce
  moreover have "set (exact_keys sha ig pending) = {k. exact_group sha ig pending k \<noteq> []}"
    using exact_keys_iff by blast
  ultimately show ?thesis by (simp add: pick_largest_iff)
qed

subsection \<open>Cliques\<close>

text \<open>\<open>1 << n\<close> on a 64-bit int.\<close>

definition clique_limit :: "nat \<Rightarrow> int" where
  "clique_limit n = sint (push_bit n (1 :: 64 word))"

definition mask_members :: "nat \<Rightarrow> int \<Rightarrow> nat list" where
  "mask_members n msk = filter (bit msk) [0..<n]"

definition find_largest_clique :: "nat \<Rightarrow> (nat \<Rightarrow> nat \<Rightarrow> bool) \<Rightarrow> nat list" where
  "find_largest_clique n compatible =
     (case pick_largest length
             (filter (sorted_wrt compatible) (map (mask_members n) [1..clique_limit n - 1])) of
        None \<Rightarrow> []
      | Some members \<Rightarrow> members)"

definition is_clique :: "nat \<Rightarrow> (nat \<Rightarrow> nat \<Rightarrow> bool) \<Rightarrow> nat set \<Rightarrow> bool" where
  "is_clique n compatible S \<longleftrightarrow>
     S \<subseteq> {..<n} \<and> S \<noteq> {} \<and> (\<forall>i\<in>S. \<forall>j\<in>S. i < j \<longrightarrow> compatible i j)"

lemma clique_limit_signed: "clique_limit n = signed_take_bit 63 (2 ^ n)"
proof -
  have "push_bit n (1 :: 64 word) = word_of_int (2 ^ n)"
    by (simp add: push_bit_eq_mult)
  then show ?thesis unfolding clique_limit_def by (simp only: sint_sbintrunc') simp
qed

lemma clique_limit_small: "n \<le> 62 \<Longrightarrow> clique_limit n = 2 ^ n"
proof -
  assume n: "n \<le> 62"
  have "(2::int) ^ n < 2 ^ 63" using n by (intro power_strict_increasing) auto
  then have "signed_take_bit 63 (2 ^ n :: int) = 2 ^ n"
    by (intro signed_take_bit_int_eq_self) (auto intro: order.trans [of _ 0])
  then show ?thesis by (simp only: clique_limit_signed)
qed

lemma clique_limit_large: "63 \<le> n \<Longrightarrow> clique_limit n \<le> 0"
proof -
  assume n: "63 \<le> n"
  show ?thesis
  proof (cases "n = 63")
    case True
    have "signed_take_bit 63 (2 ^ 63 :: int) < 0"
      by (subst signed_take_bit_negative_iff) (auto simp only: bit_exp_iff, simp)
    then show ?thesis using True by (simp only: clique_limit_signed less_imp_le)
  next
    case False
    then have "signed_take_bit 63 (2 ^ n :: int) = 0" using n
      by (intro bit_eqI) (auto simp: bit_signed_take_bit_iff bit_exp_iff)
    then show ?thesis by (simp only: clique_limit_signed)
  qed
qed

lemma mask_members_set: "set (mask_members n msk) = {i. i < n \<and> bit msk i}"
  by (auto simp: mask_members_def)

lemma mask_members_sorted: "mask_members n msk = sorted_list_of_set {i. i < n \<and> bit msk i}"
proof -
  have "sorted (mask_members n msk)" "distinct (mask_members n msk)"
    by (simp_all add: mask_members_def sorted_filter [where f = id, simplified])
  then show ?thesis using mask_members_set by (metis sorted_list_of_set.idem_if_sorted_distinct)
qed

lemma mask_inj:
  assumes "0 \<le> m" "m < 2 ^ n" "0 \<le> m'" "m' < 2 ^ n" "mask_members n m = mask_members n m'"
  shows "m = (m' :: int)"
proof (rule bit_eqI)
  fix i
  have hi: "\<not> bit x i" if "0 \<le> x" "x < 2 ^ n" "n \<le> i" for x :: int
    using that bit_take_bit_iff [of n x i] by (simp add: take_bit_int_eq_self)
  have "i < n \<Longrightarrow> bit m i = bit m' i"
    using assms(5) mask_members_set [of n m] mask_members_set [of n m'] by auto
  then show "bit m i \<longleftrightarrow> bit m' i" using hi assms by (cases "i < n") auto
qed

lemma mask_surj:
  assumes "S \<subseteq> {..<n}"
  shows "\<exists>m::int. 0 \<le> m \<and> m < 2 ^ n \<and> {i. i < n \<and> bit m i} = S"
proof (intro exI conjI)
  let ?m = "horner_sum of_bool 2 (map (\<lambda>i. i \<in> S) [0..<n]) :: int"
  show "0 \<le> ?m" by (rule horner_sum_nonnegative)
  show "?m < 2 ^ n" using horner_sum_of_bool_2_less [of "map (\<lambda>i. i \<in> S) [0..<n]"] by simp
  show "{i. i < n \<and> bit ?m i} = S" using assms by (auto simp: bit_horner_sum_bit_iff)
qed

text \<open>The compatible member lists the loop visits, each once.\<close>

definition compatible_masks :: "nat \<Rightarrow> (nat \<Rightarrow> nat \<Rightarrow> bool) \<Rightarrow> nat list list" where
  "compatible_masks n compatible =
     filter (sorted_wrt compatible) (map (mask_members n) [1..clique_limit n - 1])"

lemma sorted_wrt_clique:
  assumes "finite (S :: nat set)"
  shows "sorted_wrt c (sorted_list_of_set S) \<longleftrightarrow> (\<forall>i\<in>S. \<forall>j\<in>S. i < j \<longrightarrow> c i j)"
proof
  assume l: "sorted_wrt c (sorted_list_of_set S)"
  show "\<forall>i\<in>S. \<forall>j\<in>S. i < j \<longrightarrow> c i j"
  proof (intro ballI impI)
    fix i j assume ij: "i \<in> S" "j \<in> S" "i < j"
    let ?xs = "sorted_list_of_set S"
    obtain a b where a: "a < length ?xs" "?xs ! a = i" and b: "b < length ?xs" "?xs ! b = j"
      using ij assms by (metis in_set_conv_nth set_sorted_list_of_set)
    have "a < b" using ij(3) a b sorted_nth_mono [of ?xs b a] by (metis leD leI sorted_sorted_list_of_set)
    then show "c i j" using l a b by (auto simp: sorted_wrt_iff_nth_less)
  qed
next
  assume r: "\<forall>i\<in>S. \<forall>j\<in>S. i < j \<longrightarrow> c i j"
  have "sorted_wrt (<) (sorted_list_of_set S)" by simp
  then show "sorted_wrt c (sorted_list_of_set S)"
    by (rule sorted_wrt_mono_rel [rotated]) (use r assms in auto)
qed

lemma compatible_masks_set:
  assumes "n \<le> 62"
  shows "set (compatible_masks n c) = sorted_list_of_set ` {S. is_clique n c S}"
proof -
  have fin: "S \<subseteq> {..<n} \<Longrightarrow> finite S" for S by (rule finite_subset) auto
  have "xs \<in> set (compatible_masks n c) \<longleftrightarrow> (\<exists>S. is_clique n c S \<and> xs = sorted_list_of_set S)" for xs
  proof
    assume "xs \<in> set (compatible_masks n c)"
    then obtain m where m: "1 \<le> m" "m < 2 ^ n" "xs = mask_members n m" "sorted_wrt c xs"
      using clique_limit_small [OF assms] by (auto simp: compatible_masks_def)
    let ?S = "{i. i < n \<and> bit m i}"
    have xs: "xs = sorted_list_of_set ?S" using m(3) mask_members_sorted by simp
    have "?S \<noteq> {}"
    proof
      assume e: "?S = {}"
      have "mask_members n 0 = mask_members n m"
        unfolding mask_members_sorted e by simp
      then have "m = 0" using mask_inj [of m n 0] m by simp
      then show False using m(1) by simp
    qed
    moreover have "?S \<subseteq> {..<n}" by auto
    ultimately have "is_clique n c ?S"
      using m(4) sorted_wrt_clique [of ?S c] xs by (simp add: is_clique_def)
    then show "\<exists>S. is_clique n c S \<and> xs = sorted_list_of_set S" using xs by blast
  next
    assume "\<exists>S. is_clique n c S \<and> xs = sorted_list_of_set S"
    then obtain S where S: "is_clique n c S" "xs = sorted_list_of_set S" by blast
    then have sub: "S \<subseteq> {..<n}" "S \<noteq> {}" by (auto simp: is_clique_def)
    from mask_surj [OF sub(1)] obtain m :: int
      where m0: "0 \<le> m \<and> m < 2 ^ n \<and> {i. i < n \<and> bit m i} = S" ..
    then have m: "0 \<le> m" "m < 2 ^ n" "{i. i < n \<and> bit m i} = S" by simp_all
    have "m \<noteq> 0" using m(3) sub(2) by auto
    moreover have "sorted_wrt c xs"
      using S sorted_wrt_clique [OF fin [OF sub(1)], of c] by (simp add: is_clique_def)
    moreover have "xs = mask_members n m" using S(2) m(3) by (simp add: mask_members_sorted)
    ultimately show "xs \<in> set (compatible_masks n c)"
      using m clique_limit_small [OF assms] by (auto simp: compatible_masks_def)
  qed
  then show ?thesis by (intro set_eqI) (simp only: image_iff Bex_def mem_Collect_eq)
qed

lemma compatible_masks_distinct:
  assumes "n \<le> 62"
  shows "distinct (compatible_masks n c)"
proof -
  have "inj_on (mask_members n) (set [1..2 ^ n - 1])"
    by (rule inj_onI) (use mask_inj [of _ n] in auto)
  then show ?thesis
    using clique_limit_small [OF assms] by (simp add: compatible_masks_def distinct_map)
qed

lemma find_largest_clique_eq:
  "find_largest_clique n c =
     (case pick_largest length (compatible_masks n c) of None \<Rightarrow> [] | Some members \<Rightarrow> members)"
  by (simp add: find_largest_clique_def compatible_masks_def)

lemma find_largest_clique_iff:
  assumes "n \<le> 62" "finite S" "S \<noteq> {}"
  shows "find_largest_clique n c = sorted_list_of_set S \<longleftrightarrow> unique_largest card {S. is_clique n c S} S"
proof -
  let ?L = "sorted_list_of_set :: nat set \<Rightarrow> nat list"
  have fin: "is_clique n c T \<Longrightarrow> finite T" for T
    by (rule finite_subset [of _ "{..<n}"]) (auto simp: is_clique_def)
  have pos: "\<forall>xs\<in>set (compatible_masks n c). 0 < length xs"
    using fin by (auto simp: compatible_masks_set [OF assms(1)] is_clique_def card_gt_0_iff)
  note pick = pick_largest_iff [OF compatible_masks_distinct [OF assms(1), of c] pos]
  have ne: "?L S \<noteq> []" using assms(2,3) by simp
  have "find_largest_clique n c = ?L S \<longleftrightarrow> pick_largest length (compatible_masks n c) = Some (?L S)"
    using ne by (auto simp: find_largest_clique_eq split: option.splits)
  also have "\<dots> \<longleftrightarrow> unique_largest length (?L ` {S. is_clique n c S}) (?L S)"
    unfolding pick compatible_masks_set [OF assms(1)] by (rule refl)
  also have "\<dots> \<longleftrightarrow> unique_largest card {S. is_clique n c S} S"
  proof -
    have inj: "T = S" if "is_clique n c T" "?L T = ?L S" for T
      using that fin assms(2) by (metis set_sorted_list_of_set)
    show ?thesis
      unfolding unique_largest_def using inj by (auto simp: image_iff)
  qed
  finally show ?thesis .
qed

lemma find_largest_clique_large: "63 \<le> n \<Longrightarrow> find_largest_clique n c = []"
  using clique_limit_large [of n] by (simp add: find_largest_clique_def pick_largest_def)

lemma find_largest_clique_members:
  assumes "find_largest_clique n c = ms"
  shows "set ms \<subseteq> {..<n}" "distinct ms" "sorted_wrt c ms" "sorted_wrt (<) ms"
proof -
  have f: "distinct (mask_members n m)" "sorted_wrt (<) (mask_members n m)" "set (mask_members n m) \<subseteq> {..<n}" for m
    by (auto simp: mask_members_def sorted_wrt_filter)
  have "ms = [] \<or> ms \<in> set (compatible_masks n c)"
    using assms pick_largest_in [of length "compatible_masks n c"]
    by (auto simp: find_largest_clique_eq split: option.splits)
  then show "set ms \<subseteq> {..<n}" "distinct ms" "sorted_wrt c ms" "sorted_wrt (<) ms"
    using f by (auto simp: compatible_masks_def)
qed

subsection \<open>NUMERIC_TOLERANCE\<close>

definition numeric_candidates :: "validation_config \<Rightarrow> result list \<Rightarrow> (result \<times> flat_map) list" where
  "numeric_candidates vc pending =
     concat (map (\<lambda>r. case flatten_output (res_output r) (vc_ignore_fields vc) (vc_compare_fields vc) of
                         Inl _ \<Rightarrow> []
                       | Inr m \<Rightarrow> [(r, m)]) pending)"

definition numeric_epsilon :: "validation_config \<Rightarrow> f64" where
  "numeric_epsilon vc = (case vc_numeric_tolerance vc of None \<Rightarrow> 0 | Some t \<Rightarrow> t)"

text \<open>The symmetric matrix, filled from its upper triangle.\<close>

definition numeric_compatible :: "f64 \<Rightarrow> (result \<times> flat_map) list \<Rightarrow> nat \<Rightarrow> nat \<Rightarrow> bool" where
  "numeric_compatible eps cands i j =
     (if i = j then True
      else if i < j then numeric_match (snd (cands ! i)) (snd (cands ! j)) eps
      else numeric_match (snd (cands ! j)) (snd (cands ! i)) eps)"

definition compare_numeric_tolerance :: "leaf \<Rightarrow> result list \<Rightarrow> result list res" where
  "compare_numeric_tolerance lf pending =
     (let vc = leaf_validation_config lf;
          cands = numeric_candidates vc pending;
          n = length cands
      in if n \<ge> 2 \<and> list_all (\<lambda>c. snd c = []) cands
         then Inl (OtherError ''compared set is empty for all results'')
         else Inr (map (\<lambda>i. fst (cands ! i))
                       (find_largest_clique n (numeric_compatible (numeric_epsilon vc) cands))))"

text \<open>The field a disagreement is reported on, and why.\<close>

fun first_field_difference ::
    "flat_map \<Rightarrow> flat_map \<Rightarrow> f64 \<Rightarrow> string list \<Rightarrow> string \<times> string" where
  "first_field_difference a b eps [] = ('''', ''none'')"
| "first_field_difference a b eps (p # ps) =
     (case (map_of a p, map_of b p) of
        (Some (FNum x), Some (FNum y)) \<Rightarrow>
          (if \<bar>rnd (x - y)\<bar> > eps then (p, ''numeric_delta_exceeds_tolerance'')
           else first_field_difference a b eps ps)
      | (Some (FStr s), Some (FStr t)) \<Rightarrow>
          (if s \<noteq> t then (p, ''string_mismatch'') else first_field_difference a b eps ps)
      | (Some _, Some _) \<Rightarrow> (p, ''type_mismatch'')
      | _ \<Rightarrow> (p, ''missing_in_one_output''))"

definition first_disagreement :: "flat_map \<Rightarrow> flat_map \<Rightarrow> f64 \<Rightarrow> string \<times> string" where
  "first_disagreement a b eps =
     (if a = [] \<or> b = [] then ('''', ''empty_compared_set'')
      else first_field_difference a b eps
             (sort (map fst a @ filter (\<lambda>p. p \<notin> set (map fst a)) (map fst b))))"

lemma numeric_candidates_in:
  "(r, m) \<in> set (numeric_candidates vc pending) \<longleftrightarrow>
     r \<in> set pending \<and> flatten_output (res_output r) (vc_ignore_fields vc) (vc_compare_fields vc) = Inr m"
  by (auto simp: numeric_candidates_def split: sum.splits)

lemma numeric_candidates_distinct:
  "distinct (map res_id pending) \<Longrightarrow> distinct (map (res_id \<circ> fst) (numeric_candidates vc pending))"
proof (induction pending)
  case (Cons r rs)
  have "res_id ` fst ` set (numeric_candidates vc rs) \<subseteq> res_id ` set rs"
    using numeric_candidates_in by fastforce
  moreover have "numeric_candidates vc (r # rs) =
      (case flatten_output (res_output r) (vc_ignore_fields vc) (vc_compare_fields vc) of
         Inl _ \<Rightarrow> [] | Inr m \<Rightarrow> [(r, m)]) @ numeric_candidates vc rs"
    by (simp add: numeric_candidates_def)
  ultimately show ?case using Cons by (auto split: sum.splits simp: image_comp)
qed (simp add: numeric_candidates_def)

lemma compare_numeric_parts:
  assumes "compare_numeric_tolerance lf pending = Inr g"
  defines "vc \<equiv> leaf_validation_config lf"
  defines "cands \<equiv> numeric_candidates vc pending"
  obtains ms where "ms = find_largest_clique (length cands) (numeric_compatible (numeric_epsilon vc) cands)"
    "g = map (\<lambda>i. fst (cands ! i)) ms" "set ms \<subseteq> {..<length cands}" "distinct ms"
    "sorted_wrt (numeric_compatible (numeric_epsilon vc) cands) ms" "sorted_wrt (<) ms"
proof -
  let ?ms = "find_largest_clique (length cands) (numeric_compatible (numeric_epsilon vc) cands)"
  have "g = map (\<lambda>i. fst (cands ! i)) ?ms"
    using assms by (auto simp: compare_numeric_tolerance_def Let_def split: if_splits)
  then show ?thesis using that [OF refl] find_largest_clique_members [OF refl] by blast
qed

subsection \<open>The comparator of a leaf\<close>

definition compare_results :: "(string \<Rightarrow> string) \<Rightarrow> leaf \<Rightarrow> result list \<Rightarrow> result list res" where
  "compare_results sha_hex lf pending =
     (let m = vc_comparison_mode (leaf_validation_config lf) in
      if m = cmp_exact then compare_exact sha_hex lf pending
      else if m = cmp_numeric_tolerance then compare_numeric_tolerance lf pending
      else if m = cmp_custom then Inl (OtherError ''custom comparison mode is not implemented in Alpha'')
      else Inl (OtherError ''unknown comparison mode''))"

text \<open>
  What the transitioner and the engine rely on: the group a comparator returns is a part of the
  compared set, each result once.
\<close>

locale comparator =
  fixes compare :: "leaf \<Rightarrow> result list \<Rightarrow> result list res"
  assumes compare_subset: "compare lf pending = Inr g \<Longrightarrow> set g \<subseteq> set pending"
    and compare_distinct:
      "compare lf pending = Inr g \<Longrightarrow> distinct (map res_id pending) \<Longrightarrow> distinct (map res_id g)"
begin

lemma group_length_le:
  assumes "compare lf pending = Inr g" "distinct (map res_id pending)"
  shows "length g \<le> length pending"
proof -
  have "length g = card (res_id ` set g)"
    using compare_distinct [OF assms] by (metis distinct_card length_map set_map)
  also have "\<dots> \<le> card (res_id ` set pending)"
    using compare_subset [OF assms(1)] by (intro card_mono) auto
  also have "\<dots> \<le> length pending"
    using assms(2) by (metis distinct_card length_map list.set_map order_refl)
  finally show ?thesis .
qed

lemma agreeing_in_group:
  assumes "compare lf pending = Inr g" "distinct (map res_id pending)"
  shows "agreeing_subjects pending g \<subseteq> subject_for_result ` set g"
proof
  fix s assume "s \<in> agreeing_subjects pending g"
  then obtain r where r: "r \<in> set pending" "subject_for_result r = s" "res_id r \<in> res_id ` set g"
    by (auto simp: agreeing_subjects_def countable_subjects_def)
  then obtain q where q: "q \<in> set g" "res_id q = res_id r" by auto
  have "inj_on res_id (set pending)" using assms(2) by (simp add: distinct_map)
  then have "q = r" using q r(1) compare_subset [OF assms(1)] by (meson inj_onD subsetD)
  then show "s \<in> subject_for_result ` set g" using q(1) r(2) by blast
qed

lemma agreeing_bounded_by_group:
  assumes "compare lf pending = Inr g" "distinct (map res_id pending)"
  shows "card (agreeing_subjects pending g) \<le> length g"
proof -
  have "card (agreeing_subjects pending g) \<le> card (subject_for_result ` set g)"
    by (rule card_mono [OF _ agreeing_in_group [OF assms]]) simp
  also have "\<dots> \<le> card (set g)" by (rule card_image_le) simp
  also have "\<dots> \<le> length g" by (rule card_length)
  finally show ?thesis .
qed

end

lemma compare_exact_cases:
  assumes "compare_exact sha lf pending = Inr g"
  shows "g = [] \<or> (\<exists>k. g = exact_group sha (vc_ignore_fields (leaf_validation_config lf)) pending k)"
  using assms by (auto simp: compare_exact_def Let_def split: option.splits)

interpretation exact: comparator "compare_exact sha_hex"
proof
  fix lf pending g
  assume c: "compare_exact sha_hex lf pending = Inr g"
  from compare_exact_cases [OF c] show "set g \<subseteq> set pending"
    by (auto simp: exact_group_def)
  from compare_exact_cases [OF c] show "distinct (map res_id pending) \<Longrightarrow> distinct (map res_id g)"
    by (auto simp: exact_group_def distinct_map_filter)
qed

interpretation numeric: comparator compare_numeric_tolerance
proof
  fix lf pending g
  assume c: "compare_numeric_tolerance lf pending = Inr g"
  define cands where "cands = numeric_candidates (leaf_validation_config lf) pending"
  obtain ms where ms: "g = map (\<lambda>i. fst (cands ! i)) ms" "set ms \<subseteq> {..<length cands}" "distinct ms"
    using compare_numeric_parts [OF c] unfolding cands_def by metis
  show "set g \<subseteq> set pending"
  proof
    fix r assume "r \<in> set g"
    then obtain i where i: "i < length cands" "r = fst (cands ! i)" using ms by auto
    then have "(r, snd (cands ! i)) \<in> set cands" by simp
    then show "r \<in> set pending" unfolding cands_def numeric_candidates_in by blast
  qed
  assume d: "distinct (map res_id pending)"
  have dc: "distinct (map (res_id \<circ> fst) cands)"
    unfolding cands_def by (rule numeric_candidates_distinct [OF d])
  have "inj_on (\<lambda>i. res_id (fst (cands ! i))) {..<length cands}"
    using dc by (auto simp: inj_on_def distinct_conv_nth)
  then have "distinct (map (\<lambda>i. res_id (fst (cands ! i))) ms)"
    using ms by (auto simp: distinct_map intro: inj_on_subset)
  then show "distinct (map res_id g)" using ms(1) by (simp add: comp_def)
qed

interpretation cmp: comparator "compare_results sha_hex"
  by unfold_locales
    (auto simp: compare_results_def Let_def
        dest: exact.compare_distinct numeric.compare_distinct exact.compare_subset numeric.compare_subset
        split: if_splits)

subsection \<open>The submit gate and audit adjudication\<close>

definition validate_submitted_output :: "validation_config \<Rightarrow> raw_output \<Rightarrow> unit res" where
  "validate_submitted_output vc data =
     (case data of
        OutputEmpty \<Rightarrow> Inl (OtherError ''output_data must be non-empty JSON'')
      | OutputMalformed \<Rightarrow> Inl (OtherError ''output_data is not well-formed JSON'')
      | OutputDoc v \<Rightarrow>
          (if vc_comparison_mode vc = cmp_numeric_tolerance then
             (case flatten_output data (vc_ignore_fields vc) (vc_compare_fields vc) of
                Inl e \<Rightarrow> Inl (OtherError ''output_data would fail this leaf's numeric validation'')
              | Inr _ \<Rightarrow> Inr ())
           else Inr ()))"

datatype audit_verdict = AuditMatch | AuditMismatch | AuditInconclusive

record comparison_snapshot =
  cs_mode :: string
  cs_numeric_tolerance :: f64
  cs_ignore_fields :: "string list"
  cs_compare_fields :: "string list"

definition adjudicate_raw_checksum :: "string \<Rightarrow> string \<Rightarrow> audit_verdict" where
  "adjudicate_raw_checksum accepted_key runner_sum =
     (if runner_sum = accepted_key then AuditMatch else AuditMismatch)"

definition adjudicate_canon_value :: "comparison_snapshot \<Rightarrow> raw_output list \<Rightarrow> raw_output \<Rightarrow> audit_verdict" where
  "adjudicate_canon_value snap accepted runner =
     (case accepted of
        [] \<Rightarrow> AuditInconclusive
      | a # _ \<Rightarrow>
          (if a = OutputEmpty then AuditInconclusive
           else case flatten_output a (cs_ignore_fields snap) [] of
             Inl _ \<Rightarrow> AuditInconclusive
           | Inr acc \<Rightarrow>
               (case flatten_output runner (cs_ignore_fields snap) [] of
                  Inl _ \<Rightarrow> AuditInconclusive
                | Inr run \<Rightarrow> (if numeric_match acc run 0 then AuditMatch else AuditMismatch))))"

fun adjudicate_members ::
    "comparison_snapshot \<Rightarrow> flat_map \<Rightarrow> nat \<Rightarrow> raw_output list \<Rightarrow> audit_verdict" where
  "adjudicate_members snap run comparable [] =
     (if comparable = 0 then AuditInconclusive else AuditMismatch)"
| "adjudicate_members snap run comparable (out # outs) =
     (if out = OutputEmpty then adjudicate_members snap run comparable outs
      else case flatten_output out (cs_ignore_fields snap) (cs_compare_fields snap) of
        Inl _ \<Rightarrow> adjudicate_members snap run comparable outs
      | Inr acc \<Rightarrow>
          (if numeric_match acc run (cs_numeric_tolerance snap) then AuditMatch
           else adjudicate_members snap run (comparable + 1) outs))"

definition adjudicate_numeric :: "comparison_snapshot \<Rightarrow> raw_output list \<Rightarrow> raw_output \<Rightarrow> audit_verdict" where
  "adjudicate_numeric snap accepted runner =
     (case flatten_output runner (cs_ignore_fields snap) (cs_compare_fields snap) of
        Inl _ \<Rightarrow> AuditInconclusive
      | Inr run \<Rightarrow> adjudicate_members snap run 0 accepted)"

text \<open>\<open>runner_sum\<close> is the SHA-256 of the runner's bytes, \<open>runner\<close> what they decode to.\<close>

definition adjudicate_audit ::
    "comparison_snapshot \<Rightarrow> string \<Rightarrow> raw_output list \<Rightarrow> raw_output \<Rightarrow> string \<Rightarrow> audit_verdict" where
  "adjudicate_audit snap accepted_key accepted runner runner_sum =
     (if starts_with ''canon-empty:'' accepted_key then AuditInconclusive
      else if starts_with ''unverified-ref:'' accepted_key then AuditInconclusive
      else if starts_with ''canon:'' accepted_key then adjudicate_canon_value snap accepted runner
      else if accepted_key = '''' then adjudicate_numeric snap accepted runner
      else adjudicate_raw_checksum accepted_key runner_sum)"

subsection \<open>Small instances\<close>

lemma clique_of_two: "c 0 1 \<Longrightarrow> find_largest_clique 2 c = [0, 1]"
proof -
  assume c: "c 0 1"
  have m: "[1..clique_limit 2 - 1] = [1, 2, 3]" by (simp add: clique_limit_small upto.simps)
  have "mask_members 2 1 = [0]" "mask_members 2 2 = [1]" "mask_members 2 3 = [0, 1]" by code_simp+
  then show ?thesis using c by (simp add: find_largest_clique_def m pick_largest_def pick_step_def)
qed

text \<open>Small integers, and the flattening of small documents by rewriting.\<close>

lemma digit_token: "number_float64 ''1'' = Inr 1" "number_float64 ''2'' = Inr 2" "number_float64 ''4'' = Inr 4"
proof -
  have "number_value ''1'' = of_int 1" "number_value ''2'' = of_int 2" "number_value ''4'' = of_int 4" by code_simp+
  then show "number_float64 ''1'' = Inr 1" "number_float64 ''2'' = Inr 2" "number_float64 ''4'' = Inr 4"
    by (simp_all add: number_float64_int)
qed

lemmas small_flatten = flatten_output_def flatten_scalar_def digit_token matches_field_path_def join_path_def

subsection \<open>Properties\<close>

text \<open>The EXACT comparator returns a non-empty group exactly when it is the unique largest class
  of results with equal grouping keys; on a tie, or when no result is readable, it returns nothing, so
  no choice between equally supported outputs can be influenced by their content.\<close>

theorem exact_majority_is_unique_largest:
  "compare_exact sha_hex lf pending = Inr (exact_group sha_hex (vc_ignore_fields (leaf_validation_config lf)) pending k) \<and>
   exact_group sha_hex (vc_ignore_fields (leaf_validation_config lf)) pending k \<noteq> [] \<longleftrightarrow>
   unique_largest (\<lambda>k. length (exact_group sha_hex (vc_ignore_fields (leaf_validation_config lf)) pending k))
     {k. exact_group sha_hex (vc_ignore_fields (leaf_validation_config lf)) pending k \<noteq> []} k"
proof -
  let ?G = "exact_group sha_hex (vc_ignore_fields (leaf_validation_config lf)) pending"
  let ?p = "pick_largest (\<lambda>k. length (?G k)) (exact_keys sha_hex (vc_ignore_fields (leaf_validation_config lf)) pending)"
  have same: "k' = k" if eq: "?G k' = ?G k" and ne: "?G k \<noteq> []" for k'
  proof -
    have "hd (?G k) \<in> set (?G k)" "hd (?G k) \<in> set (?G k')" using ne eq by simp_all
    then show ?thesis by (simp add: exact_group_def)
  qed
  have "compare_exact sha_hex lf pending = Inr (?G k) \<and> ?G k \<noteq> [] \<longleftrightarrow> ?p = Some k"
  proof
    assume l: "compare_exact sha_hex lf pending = Inr (?G k) \<and> ?G k \<noteq> []"
    then obtain k' where "?p = Some k'" "?G k' = ?G k"
      by (auto simp: compare_exact_def Let_def split: option.splits)
    then show "?p = Some k" using same l by blast
  next
    assume r: "?p = Some k"
    then have "?G k \<noteq> []" using exact_pick_iff by (auto simp: unique_largest_def)
    then show "compare_exact sha_hex lf pending = Inr (?G k) \<and> ?G k \<noteq> []"
      using r by (simp add: compare_exact_def Let_def)
  qed
  then show ?thesis using exact_pick_iff by simp
qed

text \<open>C33. The brute-force search is a correct maximum-clique search up to 62 candidates: it returns a
  non-empty set of nodes exactly when that set is the unique clique of maximum size.\<close>

theorem clique_search_correct:
  assumes "n \<le> 62" "finite S" "S \<noteq> {}"
  shows "find_largest_clique n c = sorted_list_of_set S \<longleftrightarrow> unique_largest card {S. is_clique n c S} S"
  using assms by (rule find_largest_clique_iff)

lemma clique_search_correct_witness: "unique_largest card {S. is_clique 2 (\<lambda>i j. True) S} {0, 1}"
  using clique_search_correct [of 2 "{0, 1}" "\<lambda>i j. True"] clique_of_two [of "\<lambda>i j. True"] by simp

text \<open>From 63 candidates on, the shift that bounds the search wraps around on the 64-bit int and
  the loop body never runs: the search reports no agreement even when all outputs agree.\<close>

theorem clique_search_blind_from_63:
  assumes "63 \<le> n"
  shows "find_largest_clique n c = []"
  using assms by (rule find_largest_clique_large)

lemma clique_search_blind_from_63_witness: "find_largest_clique 70 (\<lambda>i j. True) = []"
  using clique_search_blind_from_63 [of 70 "\<lambda>i j. True"] by simp

text \<open>Any two results of the group the NUMERIC_TOLERANCE comparator returns have readable outputs
  over the same set of compared fields, none of them ignored, with every numeric field within the
  leaf's tolerance and every other field equal.\<close>

theorem numeric_group_within_tolerance:
  assumes "compare_numeric_tolerance lf pending = Inr g" "i < j" "j < length g"
    and "vc = leaf_validation_config lf"
  shows "\<exists>a b. flatten_output (res_output (g ! i)) (vc_ignore_fields vc) (vc_compare_fields vc) = Inr a \<and>
           flatten_output (res_output (g ! j)) (vc_ignore_fields vc) (vc_compare_fields vc) = Inr b \<and>
           a \<noteq> [] \<and> fst ` set a = fst ` set b \<and> keys_clean (vc_ignore_fields vc) a \<and>
           (\<forall>k x y. map_of a k = Some x \<longrightarrow> map_of b k = Some y \<longrightarrow> flat_val_match (numeric_epsilon vc) x y)"
proof -
  define cands where "cands = numeric_candidates (leaf_validation_config lf) pending"
  obtain ms where ms: "g = map (\<lambda>i. fst (cands ! i)) ms" "set ms \<subseteq> {..<length cands}"
    "sorted_wrt (numeric_compatible (numeric_epsilon (leaf_validation_config lf)) cands) ms" "sorted_wrt (<) ms"
    using compare_numeric_parts [OF assms(1)] unfolding cands_def by metis
  let ?p = "ms ! i" and ?q = "ms ! j"
  have len: "i < length ms" "j < length ms" using assms(2,3) ms(1) by auto
  have pq: "?p < ?q" "numeric_compatible (numeric_epsilon vc) cands ?p ?q"
    using ms(3,4) assms(2,4) len(2) by (auto simp: sorted_wrt_iff_nth_less)
  obtain ra a where ca: "cands ! ?p = (ra, a)" by (cases "cands ! ?p")
  obtain rb b where cb: "cands ! ?q = (rb, b)" by (cases "cands ! ?q")
  have "?p < length cands" "?q < length cands"
    using subsetD [OF ms(2) nth_mem [OF len(1)]] subsetD [OF ms(2) nth_mem [OF len(2)]] by simp_all
  then have "(ra, a) \<in> set cands" "(rb, b) \<in> set cands"
    using nth_mem [of ?p cands] nth_mem [of ?q cands] ca cb by simp_all
  then have fa: "flatten_output (res_output ra) (vc_ignore_fields vc) (vc_compare_fields vc) = Inr a"
    and fb: "flatten_output (res_output rb) (vc_ignore_fields vc) (vc_compare_fields vc) = Inr b"
    unfolding cands_def numeric_candidates_in assms(4) by simp_all
  have "numeric_match a b (numeric_epsilon vc)"
    using pq ca cb by (simp add: numeric_compatible_def)
  then have "a \<noteq> [] \<and> fst ` set a = fst ` set b \<and>
      (\<forall>k x y. map_of a k = Some x \<longrightarrow> map_of b k = Some y \<longrightarrow> flat_val_match (numeric_epsilon vc) x y)"
    unfolding numeric_match_iff [OF flatten_output_distinct [OF fa] flatten_output_distinct [OF fb]] by blast
  moreover have "g ! i = ra" "g ! j = rb" using ms(1) len ca cb by simp_all
  ultimately show ?thesis using fa fb flatten_output_ignores [OF fa] by (intro exI [of _ a] exI [of _ b]) simp
qed

text \<open>Two external references the head has not verified never corroborate each other: their
  grouping keys differ unless they are the same result.\<close>

theorem unverified_refs_never_group:
  assumes "res_output r = OutputEmpty" "res_verified_checksum r = None"
    and "res_output q = OutputEmpty" "res_verified_checksum q = None"
    and "comparison_key sha_hex r ignore = comparison_key sha_hex q ignore"
  shows "res_id r = res_id q"
  using assms by (simp add: comparison_key_def)

lemma unverified_refs_never_group_witness:
  "let r = (ok_result ''r1'' ''v1'' ''c'')\<lparr>res_output := OutputEmpty\<rparr>;
       q = (ok_result ''r2'' ''v2'' ''c'')\<lparr>res_output := OutputEmpty\<rparr>
   in comparison_key id r [] \<noteq> comparison_key id q []"
  using unverified_refs_never_group [of "(ok_result ''r1'' ''v1'' ''c'')\<lparr>res_output := OutputEmpty\<rparr>"
      "(ok_result ''r2'' ''v2'' ''c'')\<lparr>res_output := OutputEmpty\<rparr>" id "[]"]
  by (auto simp: ok_result_def Let_def)

text \<open>Fields listed in ignore_fields never decide EXACT agreement: two inline outputs that differ
  only inside ignored fields (in nested objects and in every array element), with something left to
  compare, get the same grouping key.\<close>

theorem ignored_fields_never_decide:
  assumes "ignore \<noteq> []" "res_output r = OutputDoc v" "res_output q = OutputDoc w"
    and "same_outside ignore [] v w" "has_any_leaf (strip_fields ignore [] v)"
  shows "comparison_key sha_hex r ignore = comparison_key sha_hex q ignore"
  using assms same_outside_strip [OF assms(4)] by (simp add: comparison_key_def stripped_value_def)

text \<open>C34. What the submit gate lets in, the comparator of that leaf can read: an accepted inline output
  has a grouping key in EXACT mode and flattens in NUMERIC_TOLERANCE mode, so it is never excluded from
  the comparison.\<close>

theorem submit_gate_complete:
  assumes "validate_submitted_output vc (res_output r) = Inr ()"
  shows "\<exists>k m. comparison_key sha_hex r (vc_ignore_fields vc) = Inr k \<and>
    (vc_comparison_mode vc = cmp_numeric_tolerance \<longrightarrow>
       flatten_output (res_output r) (vc_ignore_fields vc) (vc_compare_fields vc) = Inr m)"
proof (cases "res_output r")
  case (OutputDoc v)
  have "\<exists>k. comparison_key sha_hex r (vc_ignore_fields vc) = Inr k"
    by (simp add: comparison_key_def OutputDoc stripped_value_def)
  moreover have "\<exists>m. vc_comparison_mode vc = cmp_numeric_tolerance \<longrightarrow>
      flatten_output (res_output r) (vc_ignore_fields vc) (vc_compare_fields vc) = Inr m"
    using assms by (auto simp: validate_submitted_output_def OutputDoc split: sum.splits)
  ultimately show ?thesis by blast
qed (use assms in \<open>simp_all add: validate_submitted_output_def\<close>)

text \<open>An honest re-execution of a NUMERIC_TOLERANCE unit is never reported as a mismatch: when the
  runner's output is the stored output of one of the accepted members and the compared set is not
  empty, the audit verdict is MATCH.\<close>

theorem honest_numeric_rerun_matches:
  assumes "runner \<in> set accepted" "0 \<le> cs_numeric_tolerance snap"
    and "flatten_output runner (cs_ignore_fields snap) (cs_compare_fields snap) = Inr m" "m \<noteq> []"
  shows "adjudicate_audit snap [] accepted runner runner_sum = AuditMatch"
proof -
  have d: "distinct (map fst m)" by (rule flatten_output_distinct [OF assms(3)])
  have self: "numeric_match m m (cs_numeric_tolerance snap)"
    by (rule numeric_match_refl [OF d assms(4,2)])
  have "adjudicate_members snap m n accepted = AuditMatch" for n
    using assms(1)
  proof (induction accepted arbitrary: n)
    case (Cons out outs)
    then show ?case
      using assms(3) self by (cases "out = runner") (auto split: sum.splits simp: flatten_output_def)
  qed simp
  then show ?thesis
    by (simp add: adjudicate_audit_def starts_with_def adjudicate_numeric_def assms(3))
qed

text \<open>An honest re-execution of an EXACT unit with ignored fields can be reported as a mismatch:
  the grouping key removes fields by their path without array indices only, the audit also by the
  indexed path. With ignore_fields = ["a.0"] and output {"a": [1]} the unit is accepted under a
  canonical key, and the very same output re-executed compares as an empty set, hence MISMATCH.\<close>

theorem audit_mismatch_on_identical_output:
  "let out = OutputDoc (JObj [(''a'', JArr [JNum ''1''])]);
       r = (ok_result ''r'' ''v'' ''c'')\<lparr>res_output := out\<rparr>;
       snap = \<lparr>cs_mode = cmp_exact, cs_numeric_tolerance = 0, cs_ignore_fields = [''a.0''], cs_compare_fields = []\<rparr>;
       key = ''canon:'' @ sha_hex (marshal (JObj [(''a'', JArr [JNum ''1''])]))
   in comparison_key sha_hex r [''a.0''] = Inr key \<and>
      adjudicate_audit snap key [out] out runner_sum = AuditMismatch"
proof -
  let ?out = "OutputDoc (JObj [(''a'', JArr [JNum ''1''])])"
  have flat: "flatten_output ?out [''a.0''] [] = Inr []"
  proof -
    have i0: "itoa 0 = ''0''" by code_simp
    show ?thesis by (simp add: small_flatten i0)
  qed
  show ?thesis
    by (simp add: Let_def comparison_key_def stripped_value_def matches_field_path_def join_path_def adjudicate_audit_def
        adjudicate_canon_value_def flat numeric_match_def starts_with_def ok_result_def)
qed

text \<open>The flattened comparison identifies outputs of different type and structure: a boolean and
  the string of the same spelling match, and so do a nested member and a member whose name contains
  the dot.\<close>

theorem flattening_conflates:
  "(\<exists>m. flatten_output (OutputDoc (JObj [(''ok'', JBool True)])) [] [] = Inr m \<and>
        flatten_output (OutputDoc (JObj [(''ok'', JStr ''true'')])) [] [] = Inr m \<and> numeric_match m m 0) \<and>
   (\<exists>m. flatten_output (OutputDoc (JObj [(''a'', JObj [(''b'', JNum ''1'')])])) [] [] = Inr m \<and>
        flatten_output (OutputDoc (JObj [(''a.b'', JNum ''1'')])) [] [] = Inr m \<and> numeric_match m m 0)"
  (is "?A \<and> ?B")
proof
  have "flatten_output (OutputDoc (JObj [(''ok'', JBool True)])) [] [] = Inr [(''ok'', FStr ''true'')]"
    "flatten_output (OutputDoc (JObj [(''ok'', JStr ''true'')])) [] [] = Inr [(''ok'', FStr ''true'')]"
    "numeric_match [(''ok'', FStr ''true'')] [(''ok'', FStr ''true'')] 0"
    by code_simp+
  then show ?A by blast
  have "flatten_output (OutputDoc (JObj [(''a'', JObj [(''b'', JNum ''1'')])])) [] [] = Inr [(''a.b'', FNum 1)]"
    "flatten_output (OutputDoc (JObj [(''a.b'', JNum ''1'')])) [] [] = Inr [(''a.b'', FNum 1)]"
    "numeric_match [(''a.b'', FNum 1)] [(''a.b'', FNum 1)] 0"
    by (simp_all add: small_flatten numeric_match_def leaf_matches_def flat_val_match_def)
  then show ?B by blast
qed

text \<open>The flattened form of one document can depend on the order in which Go visits an object's
  members: when a dotted member name collides with a nested path, two visits of the same object give
  different leaves, and the document does not match itself.\<close>

theorem flattening_depends_on_map_order:
  "\<exists>m m'. flatten_output (OutputDoc (JObj [(''a.b'', JNum ''1''), (''a'', JObj [(''b'', JNum ''2'')])])) [] [] = Inr m \<and>
          flatten_output (OutputDoc (JObj [(''a'', JObj [(''b'', JNum ''2'')]), (''a.b'', JNum ''1'')])) [] [] = Inr m' \<and>
          \<not> numeric_match m m' 0"
proof -
  have "flatten_output (OutputDoc (JObj [(''a.b'', JNum ''1''), (''a'', JObj [(''b'', JNum ''2'')])])) [] []
      = Inr [(''a.b'', FNum 2)]"
    "flatten_output (OutputDoc (JObj [(''a'', JObj [(''b'', JNum ''2'')]), (''a.b'', JNum ''1'')])) [] []
      = Inr [(''a.b'', FNum 1)]"
    "\<not> numeric_match [(''a.b'', FNum 2)] [(''a.b'', FNum 1)] 0"
    by (simp_all add: small_flatten numeric_match_def leaf_matches_def flat_val_match_def)
  then show ?thesis by blast
qed

lemma numeric_group_within_tolerance_witness:
  "let r = (ok_result ''r1'' ''v1'' ''c'')\<lparr>res_output := OutputDoc (JNum ''1'')\<rparr>;
       q = (ok_result ''r2'' ''v2'' ''c'')\<lparr>res_output := OutputDoc (JNum ''2'')\<rparr>
   in \<exists>a b. flatten_output (res_output r) [] [] = Inr a \<and> flatten_output (res_output q) [] [] = Inr b \<and>
             fst ` set a = fst ` set b"
proof -
  let ?vc = "default_validation_config\<lparr>vc_comparison_mode := cmp_numeric_tolerance, vc_numeric_tolerance := Some 1\<rparr>"
  let ?lf = "active_leaf ''l'' ?vc"
  let ?r = "(ok_result ''r1'' ''v1'' ''c'')\<lparr>res_output := OutputDoc (JNum ''1'')\<rparr>"
  let ?q = "(ok_result ''r2'' ''v2'' ''c'')\<lparr>res_output := OutputDoc (JNum ''2'')\<rparr>"
  have f: "vc_ignore_fields (leaf_validation_config ?lf) = []" "vc_compare_fields (leaf_validation_config ?lf) = []"
    "numeric_epsilon (leaf_validation_config ?lf) = 1"
    by (simp_all add: active_leaf_def numeric_epsilon_def default_validation_config_simps)
  have fl: "flatten_output (OutputDoc (JNum ''1'')) [] [] = Inr [([], FNum 1)]"
    "flatten_output (OutputDoc (JNum ''2'')) [] [] = Inr [([], FNum 2)]"
    by (simp_all add: small_flatten)
  have cands: "numeric_candidates (leaf_validation_config ?lf) [?r, ?q] = [(?r, [([], FNum 1)]), (?q, [([], FNum 2)])]"
    by (simp add: numeric_candidates_def f fl)
  have "numeric_compatible 1 [(?r, [([], FNum 1)]), (?q, [([], FNum 2)])] 0 1"
    using rnd_minus [of 1] by (simp add: numeric_compatible_def numeric_match_def leaf_matches_def flat_val_match_def)
  then have c: "compare_numeric_tolerance ?lf [?r, ?q] = Inr [?r, ?q]"
    unfolding compare_numeric_tolerance_def Let_def cands f by (simp add: clique_of_two numeral_2_eq_2 [symmetric])
  from numeric_group_within_tolerance [OF c _ _ refl, of 0 1] show ?thesis
    unfolding Let_def f by auto
qed

lemma ignored_fields_never_decide_witness:
  "let v = JObj [(''x'', JNum ''1''), (''t'', JNum ''7'')]; w = JObj [(''x'', JNum ''1''), (''t'', JNum ''8'')] in
   comparison_key id ((ok_result ''r1'' ''v1'' ''c'')\<lparr>res_output := OutputDoc v\<rparr>) [''t''] =
   comparison_key id ((ok_result ''r2'' ''v2'' ''d'')\<lparr>res_output := OutputDoc w\<rparr>) [''t'']"
proof -
  let ?v = "JObj [(''x'', JNum ''1''), (''t'', JNum ''7'')]"
  let ?w = "JObj [(''x'', JNum ''1''), (''t'', JNum ''8'')]"
  have s: "same_outside [''t''] [] ?v ?w"
    by (rule same_obj) (simp add: matches_field_path_def join_path_def same_leaf)
  have l: "has_any_leaf (strip_fields [''t''] [] ?v)" by code_simp
  show ?thesis unfolding Let_def
    by (rule ignored_fields_never_decide [OF _ _ _ s l]) simp_all
qed

lemma submit_gate_complete_witness:
  "\<exists>k. comparison_key id (ok_result ''r1'' ''v1'' ''c'') [] = Inr k"
  using submit_gate_complete [of default_validation_config "ok_result ''r1'' ''v1'' ''c''" id]
  by (simp add: validate_submitted_output_def ok_result_def default_validation_config_def
      zero_validation_config_def apply_validation_config_defaults_def)

lemma honest_numeric_rerun_matches_witness:
  "adjudicate_audit \<lparr>cs_mode = cmp_numeric_tolerance, cs_numeric_tolerance = 0, cs_ignore_fields = [], cs_compare_fields = []\<rparr> []
     [OutputDoc (JNum ''3''), OutputDoc (JNum ''4'')] (OutputDoc (JNum ''4'')) [] = AuditMatch"
proof -
  have "flatten_output (OutputDoc (JNum ''4'')) [] [] = Inr [([], FNum 4)]" by (simp add: small_flatten)
  then show ?thesis
    by (intro honest_numeric_rerun_matches [where m = "[([], FNum 4)]"]) simp_all
qed

end
