(* ===== verification/WorkUnits.thy ===== *)
theory WorkUnits
  imports Prelude
begin

text \<open>
  Work units and their copies (\<open>internal/workunit/model.go\<close>, \<open>state.go\<close>, \<open>copy.go\<close>, and the
  copy outcomes of \<open>internal/assignment/model.go\<close>). A work unit is one row of \<open>work_units\<close>; only
  the columns the redundancy machinery reads or writes are kept. A copy is one row of
  \<open>work_unit_assignment_history\<close>.
\<close>

subsection \<open>Data\<close>

datatype wu_state =
    Created | Queued | Assigned | Running | Completed | Validated | Rejected | Expired | Failed

datatype wu_priority = PriNormal | PriHigh | PriCritical

record work_unit =
  wu_id :: uid
  wu_leaf :: uid
  wu_state :: wu_state
  wu_priority :: wu_priority
  wu_deadline_seconds :: int
  wu_assigned_volunteer :: "uid option"
  wu_assigned_at :: "time option"
  wu_started_at :: "time option"
  wu_completed_at :: "time option"
  wu_validated_at :: "time option"
  wu_last_heartbeat_at :: "time option"
  wu_reassignment_count :: int
  wu_max_total_copies :: int
  wu_target_copies :: int
  wu_min_quorum :: int
  wu_max_error_copies :: int
  wu_flagged_for_review :: bool
  wu_spot_check :: bool
  wu_hr_class :: "string option"
  wu_dispatch_claimed_by :: "uid option"
  wu_dispatch_claim_expires_at :: "time option"
  wu_created_at :: time
  wu_updated_at :: time

datatype outcome =
    OutCompleted | OutExpired | OutAbandoned | OutRejected | OutSuperseded | OutReturned

record unit_copy =
  cp_id :: uid
  cp_unit :: uid
  cp_volunteer :: uid
  cp_host :: "uid option"
  cp_assigned_at :: time
  cp_reserved_until :: "time option"
  cp_started_at :: "time option"
  cp_deadline_seconds :: int
  cp_outcome :: "outcome option"
  cp_outcome_at :: "time option"
  cp_result :: "uid option"
  cp_reason :: "string option"
  cp_created_at :: time

datatype copy_state = CopyReserved | CopyRunning | CopyClosed

definition copy_state_of :: "unit_copy \<Rightarrow> copy_state" where
  "copy_state_of c =
     (if cp_outcome c \<noteq> None then CopyClosed
      else if cp_started_at c \<noteq> None then CopyRunning
      else CopyReserved)"

definition cp_live :: "unit_copy \<Rightarrow> bool" where
  "cp_live c \<longleftrightarrow> cp_outcome c = None"

lemma cp_live_state: "cp_live c \<longleftrightarrow> copy_state_of c \<noteq> CopyClosed"
  by (simp add: cp_live_def copy_state_of_def)

subsection \<open>The state chart\<close>

fun valid_transitions :: "wu_state \<Rightarrow> wu_state list" where
  "valid_transitions Created = [Queued]"
| "valid_transitions Queued = [Assigned, Completed, Failed]"
| "valid_transitions Assigned = [Running, Completed, Expired, Queued]"
| "valid_transitions Running = [Completed, Expired, Queued]"
| "valid_transitions Completed = [Validated, Rejected, Queued, Failed]"
| "valid_transitions Rejected = [Queued, Failed]"
| "valid_transitions Expired = [Queued, Failed]"
| "valid_transitions Validated = [Rejected]"
| "valid_transitions Failed = [Queued]"

definition validate_transition :: "wu_state \<Rightarrow> wu_state \<Rightarrow> unit res" where
  "validate_transition from to =
     (if to \<in> set (valid_transitions from) then Inr () else Inl (Conflict ''INVALID_STATE_TRANSITION''))"

definition is_terminal_state :: "wu_state \<Rightarrow> bool" where
  "is_terminal_state st \<longleftrightarrow> st = Validated \<or> st = Failed"

inductive chart_edge :: "wu_state \<Rightarrow> wu_state \<Rightarrow> bool" where
  edge: "validate_transition s t = Inr () \<Longrightarrow> chart_edge s t"

inductive_simps chart_edge_iff: "chart_edge s t"

lemma chart_edge_set: "chart_edge s t \<longleftrightarrow> t \<in> set (valid_transitions s)"
  by (simp add: chart_edge_iff validate_transition_def)

subsection \<open>Business rules of the special transitions\<close>

definition transition_to_queued :: "work_unit \<Rightarrow> work_unit" where
  "transition_to_queued wu = wu\<lparr>
     wu_state := Queued,
     wu_reassignment_count := wu_reassignment_count wu + 1,
     wu_priority := PriHigh,
     wu_assigned_volunteer := None,
     wu_assigned_at := None,
     wu_started_at := None,
     wu_completed_at := None,
     wu_validated_at := None,
     wu_last_heartbeat_at := None\<rparr>"

definition transition_to_failed :: "work_unit \<Rightarrow> work_unit" where
  "transition_to_failed wu = wu\<lparr>wu_state := Failed, wu_flagged_for_review := True\<rparr>"

definition transition_to_validated :: "time \<Rightarrow> work_unit \<Rightarrow> work_unit" where
  "transition_to_validated now wu = wu\<lparr>wu_state := Validated, wu_validated_at := Some now\<rparr>"

lemma transition_state [simp]:
  "wu_state (transition_to_queued wu) = Queued"
  "wu_state (transition_to_failed wu) = Failed"
  "wu_state (transition_to_validated now wu) = Validated"
  by (simp_all add: transition_to_queued_def transition_to_failed_def transition_to_validated_def)

definition default_copy_retry_margin :: int where
  "default_copy_retry_margin = 6"

definition effective_max_total_copies :: "work_unit \<Rightarrow> int \<Rightarrow> int" where
  "effective_max_total_copies wu redundancy =
     (if wu_max_total_copies wu > 0 then wu_max_total_copies wu
      else (if redundancy < 1 then 1 else redundancy) + default_copy_retry_margin)"

text \<open>A queued row without stamps, for concrete instances.\<close>

definition queued_unit :: "uid \<Rightarrow> uid \<Rightarrow> work_unit" where
  "queued_unit u lf = \<lparr>wu_id = u, wu_leaf = lf, wu_state = Queued, wu_priority = PriNormal,
     wu_deadline_seconds = 21600, wu_assigned_volunteer = None, wu_assigned_at = None,
     wu_started_at = None, wu_completed_at = None, wu_validated_at = None, wu_last_heartbeat_at = None,
     wu_reassignment_count = 0, wu_max_total_copies = 0, wu_target_copies = 0, wu_min_quorum = 0,
     wu_max_error_copies = 0, wu_flagged_for_review = False, wu_spot_check = False, wu_hr_class = None,
     wu_dispatch_claimed_by = None, wu_dispatch_claim_expires_at = None, wu_created_at = 0,
     wu_updated_at = 0\<rparr>"

subsection \<open>Properties of the chart\<close>

lemma chart_reaches_validated_aux:
  "chart_edge\<^sup>*\<^sup>* Completed Validated" "chart_edge\<^sup>*\<^sup>* Queued Validated"
proof -
  show c: "chart_edge\<^sup>*\<^sup>* Completed Validated" by (rule r_into_rtranclp) (simp add: chart_edge_set)
  show "chart_edge\<^sup>*\<^sup>* Queued Validated"
    by (rule converse_rtranclp_into_rtranclp [OF _ c]) (simp add: chart_edge_set)
qed

lemma chart_edge_queued_or: "s \<noteq> Validated \<Longrightarrow> s \<noteq> Queued \<Longrightarrow> chart_edge s Queued"
  by (cases s) (simp_all add: chart_edge_set)

text \<open>
  The edges out of the two terminal states are the audit demotion and the operator revive;
  both lead back to the queue, so no path from a finalized unit reaches an adjudicating state
  without passing through it. \<open>avoiding\<close> restricts the chart to edges that do not enter a state.
\<close>

definition chart_edge_avoiding :: "wu_state \<Rightarrow> wu_state \<Rightarrow> wu_state \<Rightarrow> bool" where
  "chart_edge_avoiding q s t \<longleftrightarrow> chart_edge s t \<and> t \<noteq> q"

lemma avoiding_queued_closed:
  assumes "(chart_edge_avoiding Queued)\<^sup>*\<^sup>* s t" "s \<in> {Validated, Failed, Rejected}"
  shows "t \<in> {Validated, Failed, Rejected}"
  using assms
proof (induction rule: rtranclp_induct)
  case base
  then show ?case by simp
next
  case (step y z)
  then show ?case by (auto simp: chart_edge_avoiding_def chart_edge_set)
qed

end
