(* ===== verification/Policy.thy ===== *)
theory Policy
  imports WorkUnits LeafConfig
begin

text \<open>
  The resolved redundancy contract of a unit (\<open>transition/policy.go\<close>), the trust gate overlaid on
  it (\<open>transition/trust.go\<close>), and the SQL expressions that restate both for the dispatcher and
  the dead-letter executor (\<open>workunit/redundancy_sql.go\<close>). A configuration key the JSON encoding
  omits is the field's zero value, which is what \<open>COALESCE(..., 0)\<close> reads back.
\<close>

subsection \<open>The resolved policy\<close>

record policy =
  rp_target_copies :: int
  rp_min_quorum :: int
  rp_agreement_threshold :: f64
  rp_max_total_copies :: int
  rp_max_error_copies :: int
  rp_spot_check :: bool
  rp_min_trusted_corroborators :: int
  rp_trust_floor :: int

definition policy_default_copy_retry_margin :: int where
  "policy_default_copy_retry_margin = 6"

text \<open>The target and quorum before the final clamps: stamp, else leaf, then the spot check.\<close>

definition base_target :: "validation_config \<Rightarrow> work_unit \<Rightarrow> int" where
  "base_target vc wu = (if wu_target_copies wu \<le> 0 then effective_target_copies vc else wu_target_copies wu)"

definition base_quorum :: "validation_config \<Rightarrow> work_unit \<Rightarrow> int" where
  "base_quorum vc wu = (if wu_min_quorum wu \<le> 0 then effective_min_quorum vc else wu_min_quorum wu)"

definition resolve_policy :: "leaf \<Rightarrow> work_unit \<Rightarrow> policy" where
  "resolve_policy lf wu =
     (let vc = leaf_validation_config lf;
          target = base_target vc wu;
          quorum = base_quorum vc wu;
          (target, quorum) =
            (if wu_spot_check wu then (let t = (if target < 2 then 2 else target) in (t, t))
             else (target, quorum));
          target = (if target < 1 then 1 else target);
          quorum = (if quorum < 1 then 1 else quorum);
          quorum = (if quorum > target then target else quorum);
          threshold = (if vc_agreement_threshold vc \<le> 0 then 1 else vc_agreement_threshold vc);
          max_total = (if wu_max_total_copies wu \<le> 0 then vc_max_total_copies vc else wu_max_total_copies wu);
          max_total = (if max_total \<le> 0 then target + policy_default_copy_retry_margin else max_total);
          max_error = (if wu_max_error_copies wu \<le> 0 then vc_max_error_copies vc else wu_max_error_copies wu)
      in \<lparr>rp_target_copies = target, rp_min_quorum = quorum, rp_agreement_threshold = threshold,
          rp_max_total_copies = max_total, rp_max_error_copies = max_error,
          rp_spot_check = wu_spot_check wu, rp_min_trusted_corroborators = 0, rp_trust_floor = 0\<rparr>)"

subsection \<open>The trust gate\<close>

record trust_policy =
  tp_gate_enabled :: bool
  tp_default_min_corroborators :: int
  tp_default_floor :: int

definition resolve_trust :: "trust_policy \<Rightarrow> validation_config \<Rightarrow> int \<Rightarrow> int \<times> int" where
  "resolve_trust tp vc min_quorum =
     (let fl = tp_default_floor tp;
          fl = (if vc_trust_floor vc > fl then vc_trust_floor vc else fl);
          fl = (if fl < 1 then 1 else fl)
      in if \<not> tp_gate_enabled tp then (0, fl)
         else let k = vc_min_trusted_corroborators vc;
                  k = (if k \<le> 0 then tp_default_min_corroborators tp else k);
                  k = (if min_quorum \<ge> 1 \<and> k > min_quorum then min_quorum else k)
              in (k, fl))"

definition resolve_policy_with_trust :: "leaf \<Rightarrow> work_unit \<Rightarrow> trust_policy \<Rightarrow> policy" where
  "resolve_policy_with_trust lf wu tp =
     (let p = resolve_policy lf wu;
          (k, fl) = resolve_trust tp (leaf_validation_config lf) (rp_min_quorum p)
      in p\<lparr>rp_min_trusted_corroborators := k, rp_trust_floor := fl\<rparr>)"

subsection \<open>The SQL twins\<close>

definition eff_target_sql :: "work_unit \<Rightarrow> validation_config \<Rightarrow> int" where
  "eff_target_sql wu vc =
     (if wu_spot_check wu then 2
      else if wu_target_copies wu > 0 then wu_target_copies wu
      else if vc_target_copies vc > 0 then vc_target_copies vc
      else vc_redundancy_factor vc)"

definition eff_quorum_sql :: "work_unit \<Rightarrow> validation_config \<Rightarrow> int" where
  "eff_quorum_sql wu vc =
     (if wu_spot_check wu then 2
      else if wu_min_quorum wu > 0 then wu_min_quorum wu
      else if vc_min_quorum vc > 0 then vc_min_quorum vc
      else vc_redundancy_factor vc)"

definition eff_max_total_sql :: "work_unit \<Rightarrow> validation_config \<Rightarrow> int" where
  "eff_max_total_sql wu vc =
     (if wu_max_total_copies wu > 0 then wu_max_total_copies wu
      else if vc_max_total_copies vc > 0 then vc_max_total_copies vc
      else eff_target_sql wu vc + 6)"

definition eff_max_error_sql :: "work_unit \<Rightarrow> validation_config \<Rightarrow> int" where
  "eff_max_error_sql wu vc =
     (if wu_max_error_copies wu > 0 then wu_max_error_copies wu
      else if vc_max_error_copies vc > 0 then vc_max_error_copies vc
      else 0)"

definition eff_trust_floor_sql :: "validation_config \<Rightarrow> int \<Rightarrow> int" where
  "eff_trust_floor_sql vc floor_param = max 1 (max (vc_trust_floor vc) floor_param)"

definition eff_trust_k_sql :: "work_unit \<Rightarrow> validation_config \<Rightarrow> bool \<Rightarrow> int \<Rightarrow> int" where
  "eff_trust_k_sql wu vc gate k_param =
     (let quorum = eff_quorum_sql wu vc;
          base_k = (if vc_min_trusted_corroborators vc > 0 then vc_min_trusted_corroborators vc else k_param)
      in if \<not> gate then 0
         else if quorum \<ge> 1 \<and> base_k > quorum then quorum
         else base_k)"

subsection \<open>Well-formed policies\<close>

definition policy_ok :: "policy \<Rightarrow> bool" where
  "policy_ok p \<longleftrightarrow>
     1 \<le> rp_min_quorum p \<and> rp_min_quorum p \<le> rp_target_copies p \<and>
     0 < rp_agreement_threshold p \<and> 0 < rp_max_total_copies p \<and>
     rp_min_trusted_corroborators p \<le> rp_min_quorum p"

lemma resolve_policy_simps:
  "rp_target_copies (resolve_policy lf wu) =
     (let t = base_target (leaf_validation_config lf) wu;
          t = (if wu_spot_check wu \<and> t < 2 then 2 else t) in if t < 1 then 1 else t)"
  "rp_max_error_copies (resolve_policy lf wu) =
     (if wu_max_error_copies wu \<le> 0 then vc_max_error_copies (leaf_validation_config lf) else wu_max_error_copies wu)"
  "rp_spot_check (resolve_policy lf wu) = wu_spot_check wu"
  "rp_min_trusted_corroborators (resolve_policy lf wu) = 0"
  by (simp_all add: resolve_policy_def Let_def split: prod.splits)

lemma base_target_pos: "1 \<le> base_target vc wu"
  using effective_target_pos [of vc] by (simp add: base_target_def)

lemma base_quorum_pos: "1 \<le> base_quorum vc wu"
  using effective_quorum_bounds [of vc] by (simp add: base_quorum_def)

lemma resolve_policy_quorum:
  "rp_min_quorum (resolve_policy lf wu) =
     (if wu_spot_check wu then max 2 (base_target (leaf_validation_config lf) wu)
      else min (base_quorum (leaf_validation_config lf) wu) (base_target (leaf_validation_config lf) wu))"
  using base_target_pos [of "leaf_validation_config lf" wu] base_quorum_pos [of "leaf_validation_config lf" wu]
  by (simp add: resolve_policy_def Let_def)

lemma resolve_policy_target:
  "rp_target_copies (resolve_policy lf wu) =
     (if wu_spot_check wu then max 2 (base_target (leaf_validation_config lf) wu)
      else base_target (leaf_validation_config lf) wu)"
  using base_target_pos [of "leaf_validation_config lf" wu]
  by (simp add: resolve_policy_simps Let_def)

lemma resolve_policy_threshold:
  "rp_agreement_threshold (resolve_policy lf wu) =
     (if vc_agreement_threshold (leaf_validation_config lf) \<le> 0 then 1
      else vc_agreement_threshold (leaf_validation_config lf))"
  by (simp add: resolve_policy_def Let_def split: prod.splits)

lemma resolve_policy_max_total:
  "rp_max_total_copies (resolve_policy lf wu) =
     (let m = (if wu_max_total_copies wu \<le> 0 then vc_max_total_copies (leaf_validation_config lf)
               else wu_max_total_copies wu)
      in if m \<le> 0 then rp_target_copies (resolve_policy lf wu) + 6 else m)"
  by (simp add: resolve_policy_def Let_def policy_default_copy_retry_margin_def split: prod.splits)

lemma resolve_policy_ok: "policy_ok (resolve_policy lf wu)"
  using base_target_pos [of "leaf_validation_config lf" wu] base_quorum_pos [of "leaf_validation_config lf" wu]
  by (auto simp: policy_ok_def resolve_policy_quorum resolve_policy_target resolve_policy_threshold
      resolve_policy_max_total resolve_policy_simps(4) Let_def)

lemma resolve_trust_k:
  assumes "1 \<le> q"
  shows "fst (resolve_trust tp vc q) \<le> q"
  using assms by (simp add: resolve_trust_def Let_def)

lemma resolve_trust_floor:
  "snd (resolve_trust tp vc q) = max 1 (max (vc_trust_floor vc) (tp_default_floor tp))"
  by (simp add: resolve_trust_def Let_def)

lemma with_trust_simps [simp]:
  "rp_target_copies (resolve_policy_with_trust lf wu tp) = rp_target_copies (resolve_policy lf wu)"
  "rp_min_quorum (resolve_policy_with_trust lf wu tp) = rp_min_quorum (resolve_policy lf wu)"
  "rp_agreement_threshold (resolve_policy_with_trust lf wu tp) = rp_agreement_threshold (resolve_policy lf wu)"
  "rp_max_total_copies (resolve_policy_with_trust lf wu tp) = rp_max_total_copies (resolve_policy lf wu)"
  "rp_max_error_copies (resolve_policy_with_trust lf wu tp) = rp_max_error_copies (resolve_policy lf wu)"
  "rp_trust_floor (resolve_policy_with_trust lf wu tp) =
     max 1 (max (vc_trust_floor (leaf_validation_config lf)) (tp_default_floor tp))"
  "rp_min_trusted_corroborators (resolve_policy_with_trust lf wu tp) =
     fst (resolve_trust tp (leaf_validation_config lf) (rp_min_quorum (resolve_policy lf wu)))"
  using resolve_trust_floor [of tp "leaf_validation_config lf" "rp_min_quorum (resolve_policy lf wu)"]
  by (simp_all add: resolve_policy_with_trust_def Let_def case_prod_unfold)

lemma resolve_policy_with_trust_ok: "policy_ok (resolve_policy_with_trust lf wu tp)"
  using resolve_policy_ok [of lf wu] resolve_trust_k [of "rp_min_quorum (resolve_policy lf wu)"]
  by (simp add: policy_ok_def)

subsection \<open>Agreement of the SQL twins\<close>

text \<open>
  A unit whose stamps and leaf make the restated arithmetic applicable: the stored leaf passed the
  validator, a stamped quorum does not exceed the resolved target, and a spot-checked unit still
  belongs to a leaf of at most two copies.
\<close>

definition sql_policy_pre :: "validation_config \<Rightarrow> work_unit \<Rightarrow> bool" where
  "sql_policy_pre vc wu \<longleftrightarrow>
     validate_validation_config vc = Inr () \<and>
     (if wu_spot_check wu then base_target vc wu \<le> 2
      else (if wu_min_quorum wu > 0 then wu_min_quorum wu
            else if vc_min_quorum vc > 0 then vc_min_quorum vc
            else vc_redundancy_factor vc) \<le> base_target vc wu)"

lemma eff_target_sql_base:
  assumes "validate_validation_config vc = Inr ()" "\<not> wu_spot_check wu"
  shows "eff_target_sql wu vc = base_target vc wu"
  using valid_config_redundancy(1) [OF assms(1)] assms(2)
  by (simp add: eff_target_sql_def base_target_def effective_target_copies_def)

lemma eff_quorum_sql_base:
  assumes "validate_validation_config vc = Inr ()" "\<not> wu_spot_check wu"
    "eff_quorum_sql wu vc \<le> base_target vc wu"
  shows "eff_quorum_sql wu vc = min (base_quorum vc wu) (base_target vc wu)"
proof (cases "wu_min_quorum wu > 0")
  case True
  then show ?thesis using assms by (simp add: eff_quorum_sql_def base_quorum_def)
next
  case False
  have q: "(if vc_min_quorum vc \<le> 0 then vc_redundancy_factor vc else vc_min_quorum vc) \<le> effective_target_copies vc"
    and r: "1 \<le> vc_redundancy_factor vc"
    using valid_config_redundancy [OF assms(1)] by auto
  have "effective_min_quorum vc = (if vc_min_quorum vc \<le> 0 then vc_redundancy_factor vc else vc_min_quorum vc)"
    using q r by (cases "vc_min_quorum vc \<le> 0") (simp_all add: effective_min_quorum_def Let_def)
  then show ?thesis using assms False by (auto simp: eff_quorum_sql_def base_quorum_def)
qed

text \<open>The contract a unit is resolved to is always well formed, and a leaf can only tighten it:
  at least one and at most target-many results validate, the number of required trusted
  corroborators never exceeds the quorum, the copy ceiling is positive, and the trust floor is at
  least 1, at least the head's floor and at least the leaf's.\<close>

theorem resolved_policy_well_formed:
  "policy_ok (resolve_policy_with_trust lf wu tp) \<and>
   1 \<le> rp_trust_floor (resolve_policy_with_trust lf wu tp) \<and>
   tp_default_floor tp \<le> rp_trust_floor (resolve_policy_with_trust lf wu tp) \<and>
   vc_trust_floor (leaf_validation_config lf) \<le> rp_trust_floor (resolve_policy_with_trust lf wu tp)"
  using resolve_policy_with_trust_ok [of lf wu tp] by (simp add: le_max_iff_disj)

lemma sql_policy_twins:
  assumes "sql_policy_pre (leaf_validation_config lf) wu"
  shows "eff_target_sql wu (leaf_validation_config lf) = rp_target_copies (resolve_policy lf wu)"
    "eff_quorum_sql wu (leaf_validation_config lf) = rp_min_quorum (resolve_policy lf wu)"
    "eff_max_total_sql wu (leaf_validation_config lf) = rp_max_total_copies (resolve_policy lf wu)"
    "max 0 (eff_max_error_sql wu (leaf_validation_config lf)) = max 0 (rp_max_error_copies (resolve_policy lf wu))"
    "eff_trust_k_sql wu (leaf_validation_config lf) (tp_gate_enabled tp) (tp_default_min_corroborators tp)
      = fst (resolve_trust tp (leaf_validation_config lf) (rp_min_quorum (resolve_policy lf wu)))"
proof -
  define vc where "vc = leaf_validation_config lf"
  define p where "p = resolve_policy lf wu"
  note pre = assms [folded vc_def]
  then have v: "validate_validation_config vc = Inr ()" by (simp add: sql_policy_pre_def)
  have raw: "\<not> wu_spot_check wu \<Longrightarrow> eff_quorum_sql wu vc \<le> base_target vc wu"
    using pre by (simp add: sql_policy_pre_def eff_quorum_sql_def)
  have t: "eff_target_sql wu vc = rp_target_copies p"
    using eff_target_sql_base [OF v] pre
    by (auto simp: p_def resolve_policy_target eff_target_sql_def sql_policy_pre_def vc_def [symmetric] max_def)
  have q: "eff_quorum_sql wu vc = rp_min_quorum p"
    using eff_quorum_sql_base [OF v _ raw] pre
    by (auto simp: p_def resolve_policy_quorum eff_quorum_sql_def sql_policy_pre_def vc_def [symmetric] max_def)
  have m: "eff_max_total_sql wu vc = rp_max_total_copies p"
    using t unfolding p_def by (simp add: eff_max_total_sql_def resolve_policy_max_total Let_def vc_def)
  have e: "max 0 (eff_max_error_sql wu vc) = max 0 (rp_max_error_copies p)"
    by (simp add: p_def eff_max_error_sql_def resolve_policy_simps vc_def)
  have k: "eff_trust_k_sql wu vc (tp_gate_enabled tp) (tp_default_min_corroborators tp)
      = fst (resolve_trust tp vc (rp_min_quorum p))"
    by (simp add: eff_trust_k_sql_def q resolve_trust_def Let_def)
  show "eff_target_sql wu (leaf_validation_config lf) = rp_target_copies (resolve_policy lf wu)"
    "eff_quorum_sql wu (leaf_validation_config lf) = rp_min_quorum (resolve_policy lf wu)"
    "eff_max_total_sql wu (leaf_validation_config lf) = rp_max_total_copies (resolve_policy lf wu)"
    "max 0 (eff_max_error_sql wu (leaf_validation_config lf)) = max 0 (rp_max_error_copies (resolve_policy lf wu))"
    "eff_trust_k_sql wu (leaf_validation_config lf) (tp_gate_enabled tp) (tp_default_min_corroborators tp)
      = fst (resolve_trust tp (leaf_validation_config lf) (rp_min_quorum (resolve_policy lf wu)))"
    using t q m e k by (simp_all add: p_def vc_def)
qed



text \<open>A unit promoted to a spot check while its leaf had one copy, whose owner then raises the
  leaf to three copies: the Go resolution asks for three copies and three agreeing results, the SQL
  restatement for two and two, although the leaf is valid. The two views of the same unit disagree.\<close>

theorem spot_check_policies_diverge:
  "let lf = active_leaf ''l'' (default_validation_config\<lparr>vc_redundancy_factor := 3\<rparr>);
       vc = leaf_validation_config lf;
       wu = (queued_unit ''u'' ''l'')\<lparr>wu_spot_check := True\<rparr>;
       p = resolve_policy lf wu in
   validate_validation_config vc = Inr () \<and>
   rp_target_copies p = 3 \<and> rp_min_quorum p = 3 \<and> eff_target_sql wu vc = 2 \<and> eff_quorum_sql wu vc = 2"
proof -
  have "validate_validation_config (default_validation_config\<lparr>vc_redundancy_factor := 3\<rparr>) = Inr ()"
    by code_simp
  then show ?thesis
    by (simp add: Let_def active_leaf_def queued_unit_def resolve_policy_target resolve_policy_quorum
        base_target_def effective_target_copies_def eff_target_sql_def eff_quorum_sql_def
        default_validation_config_simps)
qed

end
