(* ===== verification/Decide.thy ===== *)
theory Decide
  imports Policy Results
begin

text \<open>
  The redundancy decision of a unit (\<open>transition/decide.go\<close>): a pure function of a snapshot of
  counts, shared by the transitioner and the dispatcher.
\<close>

subsection \<open>Snapshots and decisions\<close>

datatype action = ActWait | ActValidate | ActReject | ActDeadLetter

record snapshot =
  sn_state :: wu_state
  sn_policy :: policy
  sn_live_copies :: int
  sn_total_copies :: int
  sn_error_copies :: int
  sn_pending_count :: int
  sn_probation_live_copies :: int
  sn_probation_pending_count :: int
  sn_comparison :: "verdict option"

record decision =
  de_action :: action
  de_complete_first :: bool
  de_reopen :: bool
  de_reason :: string

definition countable_copies :: "snapshot \<Rightarrow> int" where
  "countable_copies s =
     (let live = sn_live_copies s - sn_probation_live_copies s;
          live = (if live < 0 then 0 else live);
          pending = sn_pending_count s - sn_probation_pending_count s;
          pending = (if pending < 0 then 0 else pending)
      in live + pending)"

definition dispatchable :: "snapshot \<Rightarrow> bool" where
  "dispatchable s \<longleftrightarrow>
     sn_state s = Queued \<and> countable_copies s < rp_target_copies (sn_policy s)"

definition redundancy_met :: "snapshot \<Rightarrow> bool" where
  "redundancy_met s \<longleftrightarrow>
     (if sn_state s = Validated then True
      else countable_copies s \<ge> rp_target_copies (sn_policy s))"

definition caps_exhausted :: "snapshot \<Rightarrow> bool" where
  "caps_exhausted s \<longleftrightarrow>
     (let p = sn_policy s in
      if rp_max_total_copies p > 0 \<and> sn_total_copies s \<ge> rp_max_total_copies p then True
      else if rp_max_error_copies p > 0 \<and> sn_error_copies s \<ge> rp_max_error_copies p then True
      else False)"

definition caps_hit :: "snapshot \<Rightarrow> bool" where
  "caps_hit s \<longleftrightarrow>
     (if sn_state s = Validated \<or> sn_state s = Failed then False
      else sn_pending_count s < rp_min_quorum (sn_policy s) \<and> sn_live_copies s = 0 \<and> caps_exhausted s)"

definition quorum_agrees :: "policy \<Rightarrow> verdict \<Rightarrow> bool" where
  "quorum_agrees p v \<longleftrightarrow>
     vd_ratio v \<ge> rp_agreement_threshold p \<and>
     vd_majority_count v \<ge> rp_min_quorum p \<and>
     2 * vd_majority_count v > vd_total v \<and>
     vd_trusted_majority_count v \<ge> rp_min_trusted_corroborators p"

definition decide :: "snapshot \<Rightarrow> decision" where
  "decide s =
     (if sn_state s = Validated \<or> sn_state s = Failed
      then \<lparr>de_action = ActWait, de_complete_first = False, de_reopen = False, de_reason = ''terminal''\<rparr>
      else
        let p = sn_policy s; pending = sn_pending_count s in
        if sn_state s = Rejected then
          (if sn_live_copies s > 0
           then \<lparr>de_action = ActWait, de_complete_first = False, de_reopen = False,
                 de_reason = ''rejected: live copy may still finish''\<rparr>
           else if pending < rp_min_quorum p \<and> caps_exhausted s
           then \<lparr>de_action = ActDeadLetter, de_complete_first = False, de_reopen = False,
                 de_reason = ''redundancy unmet; copy budget exhausted''\<rparr>
           else \<lparr>de_action = ActWait, de_complete_first = False, de_reopen = True,
                 de_reason = ''rejected unit requeues for re-adjudication''\<rparr>)
        else if (case sn_comparison s of None \<Rightarrow> False | Some v \<Rightarrow> quorum_agrees p v)
        then \<lparr>de_action = ActValidate, de_complete_first = True, de_reopen = False,
              de_reason = ''quorum agreement''\<rparr>
        else
          let dispatch_headroom = countable_copies s < rp_target_copies p;
              more_copies_possible =
                sn_live_copies s > 0 \<or> (dispatch_headroom \<and> \<not> caps_exhausted s);
              reopen = sn_state s = Completed \<and> sn_live_copies s = 0 \<and>
                dispatch_headroom \<and> \<not> caps_exhausted s in
          if pending \<ge> rp_min_quorum p then
            (if more_copies_possible
             then \<lparr>de_action = ActWait, de_complete_first = \<not> dispatch_headroom, de_reopen = reopen,
                   de_reason = ''threshold unmet; corroborators still possible''\<rparr>
             else \<lparr>de_action = ActReject, de_complete_first = True, de_reopen = False,
                   de_reason = ''no agreement; no more copies''\<rparr>)
          else if more_copies_possible
          then \<lparr>de_action = ActWait, de_complete_first = False, de_reopen = reopen,
                de_reason = ''awaiting more results''\<rparr>
          else \<lparr>de_action = ActDeadLetter, de_complete_first = False, de_reopen = False,
                de_reason = ''redundancy unmet; copy budget exhausted''\<rparr>)"

subsection \<open>Snapshots the transitioner builds\<close>

text \<open>Counts are counts, the policy is well formed, and a verdict exists only at quorum.\<close>

definition snapshot_ok :: "snapshot \<Rightarrow> bool" where
  "snapshot_ok s \<longleftrightarrow>
     policy_ok (sn_policy s) \<and>
     0 \<le> sn_probation_live_copies s \<and> sn_probation_live_copies s \<le> sn_live_copies s \<and>
     0 \<le> sn_probation_pending_count s \<and> sn_probation_pending_count s \<le> sn_pending_count s \<and>
     (sn_comparison s \<noteq> None \<longrightarrow> rp_min_quorum (sn_policy s) \<le> sn_pending_count s)"

lemma snapshot_ok_countable:
  assumes "snapshot_ok s"
  shows "countable_copies s =
    (sn_live_copies s - sn_probation_live_copies s) + (sn_pending_count s - sn_probation_pending_count s)"
  using assms by (simp add: snapshot_ok_def countable_copies_def Let_def)

lemma caps_exhausted_iff:
  "caps_exhausted s \<longleftrightarrow>
     rp_max_total_copies (sn_policy s) > 0 \<and> sn_total_copies s \<ge> rp_max_total_copies (sn_policy s) \<or>
     rp_max_error_copies (sn_policy s) > 0 \<and> sn_error_copies s \<ge> rp_max_error_copies (sn_policy s)"
  by (auto simp: caps_exhausted_def Let_def)

lemma is_terminal_cases: "is_terminal_state st \<longleftrightarrow> st = Validated \<or> st = Failed"
  by (simp add: is_terminal_state_def)

lemma decide_terminal:
  "is_terminal_state (sn_state s) \<Longrightarrow>
     de_action (decide s) = ActWait \<and> \<not> de_complete_first (decide s) \<and> \<not> de_reopen (decide s)"
  by (simp add: decide_def is_terminal_cases)

lemma decide_validate_iff:
  "de_action (decide s) = ActValidate \<longleftrightarrow>
     \<not> is_terminal_state (sn_state s) \<and> sn_state s \<noteq> Rejected \<and>
     (\<exists>v. sn_comparison s = Some v \<and> quorum_agrees (sn_policy s) v)"
  by (simp add: decide_def Let_def is_terminal_cases split: option.splits)

lemma decide_reject_iff:
  "de_action (decide s) = ActReject \<longleftrightarrow>
     \<not> is_terminal_state (sn_state s) \<and> sn_state s \<noteq> Rejected \<and>
     \<not> (\<exists>v. sn_comparison s = Some v \<and> quorum_agrees (sn_policy s) v) \<and>
     rp_min_quorum (sn_policy s) \<le> sn_pending_count s \<and> sn_live_copies s \<le> 0 \<and>
     (rp_target_copies (sn_policy s) \<le> countable_copies s \<or> caps_exhausted s)"
  by (auto simp: decide_def Let_def is_terminal_cases split: option.splits)

lemma decide_dead_letter_iff:
  assumes "snapshot_ok s"
  shows "de_action (decide s) = ActDeadLetter \<longleftrightarrow> caps_hit s"
proof -
  have pol: "rp_min_quorum (sn_policy s) \<le> rp_target_copies (sn_policy s)"
    and live: "0 \<le> sn_live_copies s"
    and cmp: "sn_comparison s \<noteq> None \<Longrightarrow> rp_min_quorum (sn_policy s) \<le> sn_pending_count s"
    using assms by (auto simp: snapshot_ok_def policy_ok_def)
  have head: "countable_copies s < rp_target_copies (sn_policy s)"
    if "sn_live_copies s = 0" "sn_pending_count s < rp_min_quorum (sn_policy s)"
    using snapshot_ok_countable [OF assms] assms that pol by (simp add: snapshot_ok_def)
  show ?thesis
  proof (cases "sn_pending_count s < rp_min_quorum (sn_policy s)")
    case True
    then have "sn_comparison s = None" using cmp by fastforce
    then show ?thesis using True live head
      by (auto simp: decide_def caps_hit_def Let_def)
  next
    case False
    then show ?thesis by (auto simp: decide_def caps_hit_def Let_def)
  qed
qed

lemma decide_complete_first:
  "de_action (decide s) \<in> {ActValidate, ActReject} \<Longrightarrow> de_complete_first (decide s)"
  "de_complete_first (decide s) \<Longrightarrow> \<not> de_reopen (decide s)"
  by (auto simp: decide_def Let_def split: if_splits)

lemma decide_reopen_wait: "de_reopen (decide s) \<Longrightarrow> de_action (decide s) = ActWait"
  by (auto simp: decide_def Let_def split: if_splits)

lemma decide_reopen_states:
  assumes "de_reopen (decide s)"
  shows "sn_state s = Completed \<or> sn_state s = Rejected" and "sn_live_copies s \<le> 0"
  using assms by (auto simp: decide_def Let_def split: if_splits)

lemma decide_wait_cases:
  assumes "de_action (decide s) = ActWait" "\<not> de_reopen (decide s)"
    "\<not> is_terminal_state (sn_state s)" "0 \<le> sn_live_copies s"
  shows "0 < sn_live_copies s \<or>
    (sn_state s \<noteq> Rejected \<and> sn_state s \<noteq> Completed \<and>
     countable_copies s < rp_target_copies (sn_policy s) \<and> \<not> caps_exhausted s)"
proof (cases "0 < sn_live_copies s")
  case False
  then have "sn_live_copies s = 0" using assms(4) by simp
  then show ?thesis using assms
    by (auto simp: decide_def Let_def is_terminal_cases split: if_splits)
qed simp

text \<open>A concrete snapshot of a queued two-copy unit, for instances.\<close>

definition two_copy_policy :: policy where
  "two_copy_policy = resolve_policy (active_leaf ''l'' default_validation_config) (queued_unit ''u'' ''l'')"

definition queued_snapshot :: snapshot where
  "queued_snapshot = \<lparr>sn_state = Queued, sn_policy = two_copy_policy, sn_live_copies = 0,
     sn_total_copies = 0, sn_error_copies = 0, sn_pending_count = 0, sn_probation_live_copies = 0,
     sn_probation_pending_count = 0, sn_comparison = None\<rparr>"

lemma two_copy_policy_eq:
  "two_copy_policy = \<lparr>rp_target_copies = 2, rp_min_quorum = 2, rp_agreement_threshold = 1,
     rp_max_total_copies = 8, rp_max_error_copies = 0, rp_spot_check = False,
     rp_min_trusted_corroborators = 0, rp_trust_floor = 0\<rparr>"
  by code_simp

subsection \<open>Properties\<close>


text \<open>On every snapshot the transitioner can build, the decision to dead-letter is taken exactly
  when CapsHit holds: quorum unmet, no live copy, copy budget exhausted. In particular a unit is
  never dead-lettered while a copy is live or while its budget still has room.\<close>

theorem dead_letter_exactly_when_caps_hit:
  assumes "snapshot_ok s"
  shows "de_action (decide s) = ActDeadLetter \<longleftrightarrow> caps_hit s"
  using assms by (rule decide_dead_letter_iff)

lemma dead_letter_exactly_when_caps_hit_witness:
  "de_action (decide (queued_snapshot\<lparr>sn_total_copies := 8\<rparr>)) = ActDeadLetter \<and>
   de_action (decide (queued_snapshot\<lparr>sn_total_copies := 7\<rparr>)) \<noteq> ActDeadLetter"
proof -
  have ok: "snapshot_ok (queued_snapshot\<lparr>sn_total_copies := n\<rparr>)" for n
    by (simp add: snapshot_ok_def queued_snapshot_def two_copy_policy_eq policy_ok_def)
  show ?thesis unfolding dead_letter_exactly_when_caps_hit [OF ok]
    by (simp add: caps_hit_def caps_exhausted_iff queued_snapshot_def two_copy_policy_eq)
qed

text \<open>No unit waits for copies nobody can deliver: when the decision is to wait, no copy is live
  and the executor is not told to reopen the unit, then a unit in QUEUED, COMPLETED or REJECTED is
  QUEUED and dispatchable with budget left. So every wait is carried by a live copy, by a reopening,
  or by real dispatch headroom.\<close>

theorem no_phantom_wait:
  assumes "de_action (decide s) = ActWait" "\<not> de_reopen (decide s)" "sn_live_copies s = 0"
    "sn_state s \<in> {Queued, Completed, Rejected}"
  shows "sn_state s = Queued \<and> dispatchable s \<and> \<not> caps_exhausted s"
  using decide_wait_cases [of s] assms by (auto simp: dispatchable_def is_terminal_state_def)

lemma no_phantom_wait_witness: "dispatchable queued_snapshot"
  using no_phantom_wait [of queued_snapshot]
  by (simp add: decide_def Let_def queued_snapshot_def two_copy_policy_eq countable_copies_def caps_exhausted_iff)

text \<open>Dispatch and the decision cannot drift: a unit is dispatchable exactly when it is QUEUED
  and its redundancy is not met.\<close>

theorem dispatchable_iff_redundancy_open:
  "dispatchable s \<longleftrightarrow> sn_state s = Queued \<and> \<not> redundancy_met s"
  by (auto simp: dispatchable_def redundancy_met_def)

text \<open>A live copy held by an account on probation forces replication around itself without
  getting the unit reaped: adding one changes neither the coverage nor the validate decision, and
  with it the unit is neither rejected nor dead-lettered.\<close>

theorem probation_copy_neutral:
  assumes "snapshot_ok s"
    and "s' = s\<lparr>sn_live_copies := sn_live_copies s + 1,
               sn_probation_live_copies := sn_probation_live_copies s + 1\<rparr>"
  shows "countable_copies s' = countable_copies s \<and>
    (de_action (decide s') = ActValidate \<longleftrightarrow> de_action (decide s) = ActValidate) \<and>
    de_action (decide s') \<noteq> ActReject \<and> de_action (decide s') \<noteq> ActDeadLetter"
proof -
  have live: "0 < sn_live_copies s'" using assms by (simp add: snapshot_ok_def)
  have ok: "snapshot_ok s'" using assms by (simp add: snapshot_ok_def)
  have "countable_copies s' = countable_copies s"
    using snapshot_ok_countable [OF ok] snapshot_ok_countable [OF assms(1)] assms(2) by simp
  moreover have "de_action (decide s') = ActValidate \<longleftrightarrow> de_action (decide s) = ActValidate"
    by (simp add: decide_validate_iff assms(2))
  moreover have "de_action (decide s') \<noteq> ActReject" using live by (simp add: decide_reject_iff)
  moreover have "de_action (decide s') \<noteq> ActDeadLetter"
    using live by (simp add: decide_dead_letter_iff [OF ok] caps_hit_def)
  ultimately show ?thesis by blast
qed

lemma probation_copy_neutral_witness:
  "de_action (decide (queued_snapshot\<lparr>sn_live_copies := 1, sn_probation_live_copies := 1,
     sn_total_copies := 8\<rparr>)) \<noteq> ActDeadLetter"
proof -
  have ok: "snapshot_ok (queued_snapshot\<lparr>sn_total_copies := 8\<rparr>)"
    by (simp add: snapshot_ok_def queued_snapshot_def two_copy_policy_eq policy_ok_def)
  show ?thesis using probation_copy_neutral [OF ok refl] by (simp add: queued_snapshot_def)
qed

subsection \<open>What a validation proves about the accounts behind it\<close>

lemma agreeing_subset: "agreeing_subjects pending majority \<subseteq> countable_subjects pending"
  by (auto simp: agreeing_subjects_def)

lemma finite_countable_subjects [simp]: "finite (countable_subjects pending)"
  by (simp add: countable_subjects_def)

lemma card_countable_le: "card (countable_subjects pending) \<le> length pending"
proof -
  have "card (countable_subjects pending) \<le> card {r \<in> set pending. standing_countable r}"
    unfolding countable_subjects_def by (rule card_image_le) simp
  also have "\<dots> \<le> card (set pending)" by (rule card_mono) auto
  also have "\<dots> \<le> length pending" by (rule card_length)
  finally show ?thesis .
qed

text \<open>C27. A validation is backed by distinct accounts: when the verdict of a pending set leads to
  ActValidate, at least quorum-many distinct subjects agree with all of their countable results inside
  the majority group, they are a strict majority of all countable subjects, and at least K of them
  submitted with a score at the trust floor. Copies of one principal never add up.\<close>

theorem validation_needs_distinct_subjects:
  assumes "sn_comparison s = Some (build_comparison_verdict pending majority fl)" "1 \<le> fl"
    and "de_action (decide s) = ActValidate"
  shows "rp_min_quorum (sn_policy s) \<le> int (card (agreeing_subjects pending majority)) \<and>
    card (countable_subjects pending) < 2 * card (agreeing_subjects pending majority) \<and>
    rp_min_trusted_corroborators (sn_policy s) \<le> int (card (trusted_agreeing_subjects fl pending majority))"
proof -
  have fl: "0 < fl" using assms(2) by simp
  show ?thesis
    using assms(1,3) build_comparison_verdict_counts [OF fl, of pending majority]
    by (simp add: decide_validate_iff quorum_agrees_def)
qed

text \<open>The default threshold means unanimity in spite of floating-point division: when the resolved
  threshold is 1 and the unit validates, every countable subject of the pending set agrees.\<close>

theorem default_threshold_is_unanimity:
  assumes "sn_comparison s = Some (build_comparison_verdict pending majority fl)" "1 \<le> fl"
    and "de_action (decide s) = ActValidate" "rp_agreement_threshold (sn_policy s) = 1"
    and "length pending \<le> 2 ^ 53"
  shows "agreeing_subjects pending majority = countable_subjects pending"
proof (rule ccontr)
  let ?v = "build_comparison_verdict pending majority fl"
  assume "agreeing_subjects pending majority \<noteq> countable_subjects pending"
  then have lt: "card (agreeing_subjects pending majority) < card (countable_subjects pending)"
    using agreeing_subset by (intro psubset_card_mono) auto
  have fl: "0 < fl" using assms(2) by simp
  note c = build_comparison_verdict_counts [OF fl, of pending majority]
  have "card (countable_subjects pending) \<le> 2 ^ 53"
    using card_countable_le [of pending] assms(5) by simp
  then have "int (card (countable_subjects pending)) \<le> int (2 ^ 53)" by (simp only: zle_int)
  then have "rnd (of_int (vd_majority_count ?v) / of_int (vd_total ?v)) < 1"
    using lt by (intro rnd_fraction_lt_1) (simp_all add: c)
  then have "vd_ratio ?v < 1"
    by (simp add: verdict_ratio Let_def)
  then show False using assms(1,3,4) by (simp add: decide_validate_iff quorum_agrees_def)
qed

definition agreed_snapshot :: snapshot where
  "agreed_snapshot =
     (let rs = [ok_result ''r1'' ''v1'' ''c'', ok_result ''r2'' ''v2'' ''c''] in
      queued_snapshot\<lparr>sn_pending_count := 2, sn_total_copies := 2,
        sn_comparison := Some (build_comparison_verdict rs rs 1)\<rparr>)"

lemma agreed_snapshot_validates: "de_action (decide agreed_snapshot) = ActValidate"
  by code_simp

lemma agreed_snapshot_parts:
  "sn_comparison agreed_snapshot =
     Some (build_comparison_verdict [ok_result ''r1'' ''v1'' ''c'', ok_result ''r2'' ''v2'' ''c'']
            [ok_result ''r1'' ''v1'' ''c'', ok_result ''r2'' ''v2'' ''c''] 1)"
  "rp_agreement_threshold (sn_policy agreed_snapshot) = 1" "rp_min_quorum (sn_policy agreed_snapshot) = 2"
  by (simp_all add: agreed_snapshot_def Let_def queued_snapshot_def two_copy_policy_eq)

lemma validation_needs_distinct_subjects_witness:
  "let rs = [ok_result ''r1'' ''v1'' ''c'', ok_result ''r2'' ''v2'' ''c''] in
   2 \<le> int (card (agreeing_subjects rs rs))"
  using validation_needs_distinct_subjects
    [OF agreed_snapshot_parts(1) _ agreed_snapshot_validates] agreed_snapshot_parts(3) by (simp add: Let_def)

lemma default_threshold_is_unanimity_witness:
  "let rs = [ok_result ''r1'' ''v1'' ''c'', ok_result ''r2'' ''v2'' ''c''] in
   agreeing_subjects rs rs = countable_subjects rs"
  using default_threshold_is_unanimity
    [OF agreed_snapshot_parts(1) _ agreed_snapshot_validates agreed_snapshot_parts(2)] by (simp add: Let_def)

text \<open>A result stamped with a standing other than OK is invisible to the verdict: removing all of
  them from the pending set leaves every number of the verdict unchanged, so such an account can
  neither help a unit validate nor veto it.\<close>

theorem non_ok_results_invisible:
  "build_comparison_verdict (filter standing_countable pending) majority fl =
   build_comparison_verdict pending majority fl"
proof -
  have "subject_aggs inm (filter standing_countable pending) = subject_aggs inm pending" for inm
    unfolding subject_aggs_def by (induction pending rule: rev_induct) auto
  then show ?thesis by (simp add: build_comparison_verdict_def)
qed

end
