(* ===== verification/Reliability.thy ===== *)
theory Reliability
  imports Prelude Float64
begin

text \<open>
  The per-machine reliability signal (\<open>reliability/reliability.go\<close>, \<open>reliability/pgx-repo.go\<close>): a
  decaying score of validated against wasted copies, and the in-flight budget it earns. The decay
  factor of the elapsed seconds, the database's exponential, is the argument \<open>decay\<close>. A score is
  a finite binary64 value.
\<close>

subsection \<open>The score\<close>

record host_reliability =
  hr_score :: f64
  hr_good_total :: f64
  hr_bad_total :: f64
  hr_last_updated :: time

definition default_good_step :: f64 where "default_good_step = 1"
definition default_bad_step :: f64 where "default_bad_step = 2"
definition default_ramp_units :: f64 where "default_ramp_units = 5"
definition active_window_days :: int where "active_window_days = 14"

definition decayed_score :: "(int \<Rightarrow> f64) \<Rightarrow> f64 \<Rightarrow> int \<Rightarrow> f64" where
  "decayed_score decay score elapsed = (if elapsed \<le> 0 then score else rnd (score * decay elapsed))"

definition record_outcome ::
    "(int \<Rightarrow> f64) \<Rightarrow> time \<Rightarrow> uid \<Rightarrow> bool \<Rightarrow> (uid \<rightharpoonup> host_reliability) \<Rightarrow> (uid \<rightharpoonup> host_reliability)" where
  "record_outcome decay now host good hosts =
     (let delta = (if good then default_good_step else - default_bad_step);
          good_inc = (if good then 1 else 0); bad_inc = (if good then 0 else 1)
      in hosts(host \<mapsto>
        (case hosts host of
           None \<Rightarrow> \<lparr>hr_score = max 0 delta, hr_good_total = good_inc, hr_bad_total = bad_inc, hr_last_updated = now\<rparr>
         | Some h \<Rightarrow> \<lparr>hr_score = max 0 (rnd (rnd (hr_score h * decay (now - hr_last_updated h)) + delta)),
                      hr_good_total = rnd (hr_good_total h + good_inc),
                      hr_bad_total = rnd (hr_bad_total h + bad_inc),
                      hr_last_updated = now\<rparr>)))"

definition budget_input :: "(int \<Rightarrow> f64) \<Rightarrow> time \<Rightarrow> host_reliability \<Rightarrow> f64 option" where
  "budget_input decay now h =
     (if hr_last_updated h > now - active_window_days * 86400
      then Some (max 0 (rnd (hr_score h * decay (now - hr_last_updated h)))) else None)"

subsection \<open>The budget\<close>

text \<open>Go's \<open>math.Round\<close>: half away from zero.\<close>

definition go_round :: "f64 \<Rightarrow> int" where
  "go_round x = (if x < 0 then - \<lfloor>- x + 1 / 2\<rfloor> else \<lfloor>x + 1 / 2\<rfloor>)"

definition budget :: "f64 \<Rightarrow> int \<Rightarrow> int \<Rightarrow> f64 \<Rightarrow> int" where
  "budget score lo hi ramp =
     (if hi \<le> lo then lo
      else if ramp \<le> 0 \<or> score \<le> 0 then lo
      else let frac = rnd (score / ramp);
               frac = (if frac > 1 then 1 else frac);
               b = lo + go_round (rnd (rnd (of_int (hi - lo)) * frac))
           in if b < lo then lo else if b > hi then hi else b)"

definition ceiling_for :: "int \<Rightarrow> int \<Rightarrow> int \<Rightarrow> int \<Rightarrow> int" where
  "ceiling_for flat_cap per_unit cores gpus =
     (if flat_cap \<le> 0 \<or> per_unit \<le> 0 then flat_cap
      else let cores = (if cores < 0 then 0 else cores); gpus = (if gpus < 0 then 0 else gpus);
               scaled = per_unit * (cores + gpus)
           in if scaled > flat_cap then scaled else flat_cap)"

definition scaled_budget :: "f64 \<Rightarrow> int \<Rightarrow> int \<Rightarrow> int \<Rightarrow> f64 \<Rightarrow> int" where
  "scaled_budget score lo hi ceil_copies ramp =
     (let b = budget score lo hi ramp in
      if ceil_copies \<le> hi \<or> ramp \<le> 0 \<or> score \<le> ramp then b
      else let extra = rnd (score - ramp);
               scaled = (if extra < rnd (of_int (ceil_copies - hi)) then hi + \<lfloor>extra\<rfloor> else ceil_copies)
           in if scaled < b then b else scaled)"

subsection \<open>The budget is bounded, monotone and earned\<close>

lemma go_round_mono: "0 \<le> x \<Longrightarrow> x \<le> y \<Longrightarrow> go_round x \<le> go_round y"
  by (auto simp: go_round_def intro!: floor_mono)

lemma budget_range:
  assumes "lo \<le> hi"
  shows "lo \<le> budget score lo hi ramp" "budget score lo hi ramp \<le> hi"
  using assms by (auto simp: budget_def Let_def)

lemma budget_mono:
  assumes "s \<le> t"
  shows "budget s lo hi ramp \<le> budget t lo hi ramp"
proof (cases "hi \<le> lo \<or> ramp \<le> 0 \<or> s \<le> 0")
  case True
  then have "budget s lo hi ramp = lo" by (auto simp: budget_def)
  moreover have "lo \<le> budget t lo hi ramp" using budget_range(1) [of lo hi t ramp]
    by (cases "lo \<le> hi") (auto simp: budget_def)
  ultimately show ?thesis by simp
next
  case False
  let ?f = "\<lambda>x. (if rnd (x / ramp) > 1 then 1 else rnd (x / ramp))"
  have sr: "0 < s" "0 < t" "0 < ramp" "lo < hi" using False assms by auto
  have "rnd (s / ramp) \<le> rnd (t / ramp)" using assms sr by (intro rnd_mono) (simp add: divide_right_mono)
  then have f: "?f s \<le> ?f t" by auto
  have "0 \<le> rnd (s / ramp)" "0 \<le> rnd (of_int (hi - lo))" using sr by (auto intro!: rnd_nonneg)
  then have pos: "0 \<le> ?f s" "0 \<le> rnd (of_int (hi - lo))" by auto
  have "rnd (rnd (of_int (hi - lo)) * ?f s) \<le> rnd (rnd (of_int (hi - lo)) * ?f t)"
    using f pos(2) by (intro rnd_mono mult_left_mono)
  moreover have "0 \<le> rnd (rnd (of_int (hi - lo)) * ?f s)" by (rule rnd_nonneg, rule mult_nonneg_nonneg [OF pos(2) pos(1)])
  ultimately have "go_round (rnd (rnd (of_int (hi - lo)) * ?f s)) \<le> go_round (rnd (rnd (of_int (hi - lo)) * ?f t))"
    by (intro go_round_mono)
  then show ?thesis using sr unfolding budget_def Let_def by simp
qed

lemma scaled_budget_ge: "budget score lo hi ramp \<le> scaled_budget score lo hi c ramp"
  by (simp add: scaled_budget_def Let_def)

lemma scaled_budget_le:
  assumes "lo \<le> hi" "c - hi \<le> 2 ^ 53"
  shows "scaled_budget score lo hi c ramp \<le> max hi c"
proof -
  let ?e = "rnd (score - ramp)"
  have "\<lfloor>?e\<rfloor> \<le> c - hi" if "?e < rnd (of_int (c - hi))" "c > hi"
  proof -
    have "rnd (of_int (c - hi)) = of_int (c - hi)" using assms(2) that(2) by (intro rnd_int) auto
    then show ?thesis using that(1) by linarith
  qed
  then show ?thesis using budget_range(2) [OF assms(1), of score ramp]
    unfolding scaled_budget_def Let_def by (auto simp: max_def)
qed

lemma scaled_budget_mono:
  assumes "s \<le> t" "lo \<le> hi" "c - hi \<le> 2 ^ 53"
  shows "scaled_budget s lo hi c ramp \<le> scaled_budget t lo hi c ramp"
proof (cases "c \<le> hi \<or> ramp \<le> 0 \<or> s \<le> ramp")
  case True
  then have "scaled_budget s lo hi c ramp = budget s lo hi ramp" by (simp add: scaled_budget_def Let_def)
  also have "\<dots> \<le> budget t lo hi ramp" by (rule budget_mono [OF assms(1)])
  also have "\<dots> \<le> scaled_budget t lo hi c ramp" by (rule scaled_budget_ge)
  finally show ?thesis .
next
  case False
  let ?x = "\<lambda>u. rnd (u - ramp)" and ?K = "rnd (of_int (c - hi))"
  let ?v = "\<lambda>u. if ?x u < ?K then hi + \<lfloor>?x u\<rfloor> else c"
  have big: "scaled_budget u lo hi c ramp = max (budget u lo hi ramp) (?v u)" if "s \<le> u" for u
    using False that by (auto simp: scaled_budget_def Let_def max_def)
  have K: "?K = of_int (c - hi)" using assms(3) False by (intro rnd_int) auto
  have "?x s \<le> ?x t" using assms(1) by (intro rnd_mono) simp
  then have "?v s \<le> ?v t" using K floor_mono [of "?x s" "?x t"] by (auto; linarith)
  then have "max (budget s lo hi ramp) (?v s) \<le> max (budget t lo hi ramp) (?v t)"
    using budget_mono [OF assms(1), of lo hi ramp] by (rule max.mono [rotated])
  then show ?thesis unfolding big [OF order.refl] big [OF assms(1)] .
qed

text \<open>A machine's in-flight budget is earned: it stays between the floor and the larger of the flat cap
  and the machine's ceiling, never exceeds the flat cap before the score passes the ramp (however many
  cores the machine claims), never decreases when the score rises, and a score of zero yields the floor.\<close>

theorem reliability_budget_is_earned:
  assumes "lo \<le> hi" "c - hi \<le> 2 ^ 53" "s \<le> t"
  shows "lo \<le> scaled_budget s lo hi c ramp \<and> scaled_budget s lo hi c ramp \<le> max hi c \<and>
         (s \<le> ramp \<longrightarrow> scaled_budget s lo hi c ramp \<le> hi) \<and>
         scaled_budget s lo hi c ramp \<le> scaled_budget t lo hi c ramp \<and>
         (s \<le> 0 \<longrightarrow> 0 < ramp \<longrightarrow> scaled_budget s lo hi c ramp = lo)"
proof (intro conjI impI)
  show "lo \<le> scaled_budget s lo hi c ramp"
    using budget_range(1) [OF assms(1), of s ramp] scaled_budget_ge [of s lo hi ramp c] by linarith
  show "scaled_budget s lo hi c ramp \<le> max hi c" by (rule scaled_budget_le [OF assms(1,2)])
  show "scaled_budget s lo hi c ramp \<le> scaled_budget t lo hi c ramp" by (rule scaled_budget_mono [OF assms(3,1,2)])
  show "scaled_budget s lo hi c ramp \<le> hi" if "s \<le> ramp"
    using that budget_range(2) [OF assms(1), of s ramp] by (simp add: scaled_budget_def Let_def)
  show "scaled_budget s lo hi c ramp = lo" if "s \<le> 0" "0 < ramp"
    using that by (simp add: scaled_budget_def budget_def Let_def)
qed

theorem reliability_budget_is_earned_witness:
  "scaled_budget 0 2 8 32 default_ramp_units = 2 \<and> scaled_budget 0 2 8 32 default_ramp_units \<le> scaled_budget 9 2 8 32 default_ramp_units"
  using reliability_budget_is_earned [of 2 8 32 0 9 default_ramp_units] by (simp add: default_ramp_units_def)

lemma record_outcome_nonneg: "\<exists>h. record_outcome decay now host good hosts host = Some h \<and> 0 \<le> hr_score h"
  by (cases "hosts host") (simp_all add: record_outcome_def Let_def)

end
