(* ===== verification/Database.thy ===== *)
theory Database
  imports Decide Reliability
begin

text \<open>
  The database the head keeps (the tables \<open>work_units\<close>, \<open>work_unit_assignment_history\<close>,
  \<open>results\<close>, \<open>leafs\<close>, \<open>volunteers\<close>, \<open>credit_ledger\<close>, the trust table, \<open>host_reliability\<close>) and the shared SQL fragments that count
  over it (\<open>workunit/redundancy_sql.go\<close>, \<open>workunit/standing_counts.go\<close>). A table whose rows the
  code lists is a list of rows, a table it only looks up by primary key is a map. \<open>db_now\<close> is
  \<open>NOW()\<close>. Failures of the connection itself are not modelled.
\<close>

subsection \<open>Tables\<close>

record ledger =
  lg_volunteer :: uid
  lg_leaf :: uid
  lg_unit :: uid
  lg_result :: uid
  lg_amount :: f64
  lg_granted_at :: time

record db =
  db_units :: "work_unit list"
  db_copies :: "unit_copy list"
  db_results :: "result list"
  db_leafs :: "uid \<rightharpoonup> leaf"
  db_volunteers :: "uid \<rightharpoonup> volunteer"
  db_trust :: trust_table
  db_ledger :: "ledger list"
  db_reliability :: "uid \<rightharpoonup> host_reliability"
  db_now :: time

text \<open>\<open>UPDATE ... SET ... WHERE\<close>: the rows that match are rewritten, in place.\<close>

definition update_where :: "('a \<Rightarrow> bool) \<Rightarrow> ('a \<Rightarrow> 'a) \<Rightarrow> 'a list \<Rightarrow> 'a list" where
  "update_where P f = map (\<lambda>x. if P x then f x else x)"

lemma update_where_simps [simp]:
  "update_where P f [] = []"
  "update_where P f (x # xs) = (if P x then f x else x) # update_where P f xs"
  "length (update_where P f xs) = length xs"
  by (simp_all add: update_where_def)

lemma set_update_where: "set (update_where P f xs) = (\<lambda>x. if P x then f x else x) ` set xs"
  by (simp add: update_where_def)

lemma find_update_where:
  assumes "\<And>x. key (f x) = key x"
  shows "find (\<lambda>x. key x = i) (update_where P f xs) =
    map_option (\<lambda>x. if P x then f x else x) (find (\<lambda>x. key x = i) xs)"
  using assms by (induction xs) auto

lemma map_key_update_where: "(\<And>x. key (f x) = key x) \<Longrightarrow> map key (update_where P f xs) = map key xs"
  by (induction xs) auto

lemma count_if_update_where:
  "count_if Q (update_where P f xs) = count_if (\<lambda>x. if P x then Q (f x) else Q x) xs"
  by (induction xs) auto

lemma update_where_cong:
  "(\<And>x. x \<in> set xs \<Longrightarrow> P x = Q x) \<Longrightarrow> (\<And>x. x \<in> set xs \<Longrightarrow> Q x \<Longrightarrow> f x = g x) \<Longrightarrow>
   update_where P f xs = update_where Q g xs"
  by (induction xs) auto

definition find_unit :: "uid \<Rightarrow> db \<Rightarrow> work_unit option" where
  "find_unit i d = find (\<lambda>w. wu_id w = i) (db_units d)"

text \<open>The trigger on \<open>work_units\<close> stamps \<open>updated_at\<close> on every row an update rewrites.\<close>

definition update_units :: "(work_unit \<Rightarrow> bool) \<Rightarrow> (work_unit \<Rightarrow> work_unit) \<Rightarrow> db \<Rightarrow> db" where
  "update_units P f d =
     d\<lparr>db_units := update_where P (\<lambda>w. (f w)\<lparr>wu_updated_at := db_now d\<rparr>) (db_units d)\<rparr>"

definition update_copies :: "(unit_copy \<Rightarrow> bool) \<Rightarrow> (unit_copy \<Rightarrow> unit_copy) \<Rightarrow> db \<Rightarrow> db" where
  "update_copies P f d = d\<lparr>db_copies := update_where P f (db_copies d)\<rparr>"

definition update_results :: "(result \<Rightarrow> bool) \<Rightarrow> (result \<Rightarrow> result) \<Rightarrow> db \<Rightarrow> db" where
  "update_results P f d = d\<lparr>db_results := update_where P f (db_results d)\<rparr>"

lemma update_units_fields [simp]:
  "db_copies (update_units P f d) = db_copies d" "db_results (update_units P f d) = db_results d"
  "db_leafs (update_units P f d) = db_leafs d" "db_volunteers (update_units P f d) = db_volunteers d"
  "db_trust (update_units P f d) = db_trust d" "db_ledger (update_units P f d) = db_ledger d"
  "db_now (update_units P f d) = db_now d" "db_reliability (update_units P f d) = db_reliability d"
  by (simp_all add: update_units_def)

lemma update_copies_fields [simp]:
  "db_units (update_copies P f d) = db_units d" "db_results (update_copies P f d) = db_results d"
  "db_leafs (update_copies P f d) = db_leafs d" "db_volunteers (update_copies P f d) = db_volunteers d"
  "db_trust (update_copies P f d) = db_trust d" "db_ledger (update_copies P f d) = db_ledger d"
  "db_now (update_copies P f d) = db_now d" "db_reliability (update_copies P f d) = db_reliability d" "find_unit i (update_copies P f d) = find_unit i d"
  by (simp_all add: update_copies_def find_unit_def)

lemma update_results_fields [simp]:
  "db_units (update_results P f d) = db_units d" "db_copies (update_results P f d) = db_copies d"
  "db_leafs (update_results P f d) = db_leafs d" "db_volunteers (update_results P f d) = db_volunteers d"
  "db_trust (update_results P f d) = db_trust d" "db_ledger (update_results P f d) = db_ledger d"
  "db_now (update_results P f d) = db_now d" "db_reliability (update_results P f d) = db_reliability d" "find_unit i (update_results P f d) = find_unit i d"
  by (simp_all add: update_results_def find_unit_def)

lemma find_unit_update_units:
  assumes "\<And>w. wu_id (f w) = wu_id w"
  shows "find_unit i (update_units P f d) =
    map_option (\<lambda>w. if P w then (f w)\<lparr>wu_updated_at := db_now d\<rparr> else w) (find_unit i d)"
  unfolding find_unit_def update_units_def using assms by (simp add: find_update_where)

lemma find_unit_id: "find_unit i d = Some w \<Longrightarrow> wu_id w = i"
  by (simp add: find_unit_def find_Some_iff) blast

lemma find_unit_in: "find_unit i d = Some w \<Longrightarrow> w \<in> set (db_units d)"
  by (auto simp: find_unit_def find_Some_iff)

subsection \<open>Rows of a unit\<close>

definition copies_of :: "uid \<Rightarrow> db \<Rightarrow> unit_copy list" where
  "copies_of u d = filter (\<lambda>c. cp_unit c = u) (db_copies d)"

definition results_of :: "uid \<Rightarrow> db \<Rightarrow> result list" where
  "results_of u d = filter (\<lambda>r. res_unit r = u) (db_results d)"

definition pending_of :: "uid \<Rightarrow> db \<Rightarrow> result list" where
  "pending_of u d = filter (\<lambda>r. res_unit r = u \<and> res_status r = Pending) (db_results d)"

definition live_copies_of :: "uid \<Rightarrow> db \<Rightarrow> unit_copy list" where
  "live_copies_of u d = filter (\<lambda>c. cp_unit c = u \<and> cp_live c) (db_copies d)"

lemma rows_update_units [simp]:
  "copies_of u (update_units P f d) = copies_of u d" "results_of u (update_units P f d) = results_of u d"
  "pending_of u (update_units P f d) = pending_of u d"
  "live_copies_of u (update_units P f d) = live_copies_of u d"
  by (simp_all add: copies_of_def results_of_def pending_of_def live_copies_of_def)

lemma rows_update_copies [simp]:
  "results_of u (update_copies P f d) = results_of u d" "pending_of u (update_copies P f d) = pending_of u d"
  by (simp_all add: results_of_def pending_of_def)

lemma rows_update_results [simp]:
  "copies_of u (update_results P f d) = copies_of u d"
  "live_copies_of u (update_results P f d) = live_copies_of u d"
  by (simp_all add: copies_of_def live_copies_of_def)

subsection \<open>The counting fragments\<close>

text \<open>Volunteers with an abandoned copy they never started, each counted once.\<close>

definition unstarted_abandoners_sql :: "uid \<Rightarrow> db \<Rightarrow> int" where
  "unstarted_abandoners_sql u d =
     int (length (keys_of cp_volunteer
       (filter (\<lambda>c. cp_unit c = u \<and> cp_outcome c = Some OutAbandoned \<and> cp_started_at c = None) (db_copies d))))"

definition error_copies_sql :: "uid \<Rightarrow> db \<Rightarrow> int" where
  "error_copies_sql u d =
     count_if (\<lambda>c. cp_unit c = u \<and>
        (cp_outcome c = Some OutExpired \<or> (cp_outcome c = Some OutAbandoned \<and> cp_started_at c \<noteq> None)))
       (db_copies d)
     + unstarted_abandoners_sql u d
     + count_if (\<lambda>r. res_unit r = u \<and> res_status r = Disagreed) (db_results d)"

definition budget_copies_sql :: "uid \<Rightarrow> db \<Rightarrow> int" where
  "budget_copies_sql u d =
     count_if (\<lambda>c. cp_unit c = u \<and> cp_outcome c \<noteq> Some OutReturned \<and>
        \<not> (cp_outcome c = Some OutAbandoned \<and> cp_started_at c = None)) (db_copies d)
     + unstarted_abandoners_sql u d"

definition caps_not_exhausted_sql :: "work_unit \<Rightarrow> leaf \<Rightarrow> db \<Rightarrow> bool" where
  "caps_not_exhausted_sql w lf d \<longleftrightarrow>
     budget_copies_sql (wu_id w) d < eff_max_total_sql w (leaf_validation_config lf) \<and>
     (eff_max_error_sql w (leaf_validation_config lf) = 0 \<or>
      error_copies_sql (wu_id w) d < eff_max_error_sql w (leaf_validation_config lf))"

text \<open>The outer join keeps a copy whose holder has no row.\<close>

definition countable_live_copies_sql :: "uid \<Rightarrow> db \<Rightarrow> int" where
  "countable_live_copies_sql u d =
     count_if (\<lambda>c. cp_unit c = u \<and> cp_live c \<and>
        standing_expr_sql (db_now d) (db_volunteers d (cp_volunteer c)) = standing_ok) (db_copies d)"

definition version_homogeneous_pending_sql :: "uid \<Rightarrow> db \<Rightarrow> int" where
  "version_homogeneous_pending_sql u d = sql_best_group_count (\<lambda>r. True) (pending_of u d)"

definition countable_pending_results_sql :: "uid \<Rightarrow> db \<Rightarrow> int" where
  "countable_pending_results_sql u d =
     sql_best_group_count (\<lambda>r. res_standing r = None \<or> res_standing r = Some standing_ok) (pending_of u d)"

definition countable_coverage_sql :: "uid \<Rightarrow> db \<Rightarrow> int" where
  "countable_coverage_sql u d = countable_live_copies_sql u d + countable_pending_results_sql u d"

text \<open>The inner join drops a copy whose holder has no row.\<close>

definition non_countable_coverage_sql :: "uid \<Rightarrow> db \<Rightarrow> int" where
  "non_countable_coverage_sql u d =
     count_if (\<lambda>c. cp_unit c = u \<and> cp_live c \<and> db_volunteers d (cp_volunteer c) \<noteq> None \<and>
        standing_expr_sql (db_now d) (db_volunteers d (cp_volunteer c)) \<noteq> standing_ok) (db_copies d)
     + (count_if (\<lambda>r. res_unit r = u \<and> res_status r = Pending) (db_results d)
        - countable_pending_results_sql u d)"

definition count_probation_live_copies :: "uid \<Rightarrow> db \<Rightarrow> int" where
  "count_probation_live_copies u d =
     count_if (\<lambda>c. cp_unit c = u \<and> cp_live c \<and>
        (case db_volunteers d (cp_volunteer c) of None \<Rightarrow> False
         | Some v \<Rightarrow> standing_expr_sql (db_now d) (Some v) \<noteq> standing_ok)) (db_copies d)"

definition count_live_copies :: "uid \<Rightarrow> db \<Rightarrow> int" where
  "count_live_copies u d = count_if (\<lambda>c. cp_unit c = u \<and> cp_live c) (db_copies d)"

definition count_total_copies :: "uid \<Rightarrow> db \<Rightarrow> int" where
  "count_total_copies u d = budget_copies_sql u d"

definition count_error_copies :: "uid \<Rightarrow> db \<Rightarrow> int" where
  "count_error_copies u d = error_copies_sql u d"

definition count_pending_by_work_unit :: "uid \<Rightarrow> db \<Rightarrow> int" where
  "count_pending_by_work_unit u d =
     count_if (\<lambda>r. res_unit r = u \<and> res_status r = Pending) (db_results d)"

subsection \<open>What the fragments count\<close>

lemma pending_of_length: "count_pending_by_work_unit u d = int (length (pending_of u d))"
  by (simp add: count_pending_by_work_unit_def pending_of_def count_if_def)

lemma version_homogeneous_pending_sql_eq:
  assumes "versions_ok (pending_of u d)"
  shows "version_homogeneous_pending_sql u d = int (length (version_homogeneous_group (pending_of u d)))"
  using assms by (simp add: version_homogeneous_pending_sql_def sql_best_group_count_eq count_if_def)

lemma standing_countable_iff: "standing_countable r \<longleftrightarrow> res_standing r = None \<or> res_standing r = Some standing_ok"
  by (simp add: standing_countable_def split: option.splits)

lemma countable_pending_results_sql_eq:
  assumes "versions_ok (pending_of u d)"
  shows "countable_pending_results_sql u d = count_if standing_countable (version_homogeneous_group (pending_of u d))"
  using assms
  by (simp add: countable_pending_results_sql_def sql_best_group_count_eq standing_countable_iff [abs_def])

lemma live_copies_split:
  "count_live_copies u d = countable_live_copies_sql u d + count_probation_live_copies u d"
proof -
  have "count_live_copies u d =
      count_if (\<lambda>c. (cp_unit c = u \<and> cp_live c) \<and>
        standing_expr_sql (db_now d) (db_volunteers d (cp_volunteer c)) = standing_ok) (db_copies d) +
      count_if (\<lambda>c. (cp_unit c = u \<and> cp_live c) \<and>
        standing_expr_sql (db_now d) (db_volunteers d (cp_volunteer c)) \<noteq> standing_ok) (db_copies d)"
    unfolding count_live_copies_def by (rule count_if_split)
  moreover have "count_if (\<lambda>c. (cp_unit c = u \<and> cp_live c) \<and>
        standing_expr_sql (db_now d) (db_volunteers d (cp_volunteer c)) \<noteq> standing_ok) (db_copies d) =
      count_probation_live_copies u d"
    unfolding count_probation_live_copies_def
    by (rule count_if_cong) (simp add: standing_expr_sql_def split: option.splits)
  ultimately show ?thesis by (simp add: countable_live_copies_sql_def conj_assoc)
qed

lemma probation_live_bounds:
  "0 \<le> count_probation_live_copies u d" "count_probation_live_copies u d \<le> count_live_copies u d"
  by (simp_all add: count_probation_live_copies_def live_copies_split countable_live_copies_sql_def)

lemma non_countable_probation:
  "non_countable_coverage_sql u d =
     count_probation_live_copies u d + (count_pending_by_work_unit u d - countable_pending_results_sql u d)"
proof -
  have "count_if (\<lambda>c. cp_unit c = u \<and> cp_live c \<and> db_volunteers d (cp_volunteer c) \<noteq> None \<and>
        standing_expr_sql (db_now d) (db_volunteers d (cp_volunteer c)) \<noteq> standing_ok) (db_copies d) =
      count_probation_live_copies u d"
    unfolding count_probation_live_copies_def by (rule count_if_cong) (simp split: option.splits)
  then show ?thesis by (simp add: non_countable_coverage_sql_def count_pending_by_work_unit_def)
qed

text \<open>The redundancy coverage the dispatch queries compare with the target and its complement,
  which the refill queries hand to the in-memory cache, always add up to the raw number of live copies
  and pending results, whatever the standings, artifact versions and missing volunteer rows; and the
  complement is never negative, so the cache never inflates its headroom.\<close>

theorem coverage_complement:
  "countable_coverage_sql u d + non_countable_coverage_sql u d =
     count_live_copies u d + count_pending_by_work_unit u d \<and>
   0 \<le> non_countable_coverage_sql u d"
proof -
  have "countable_pending_results_sql u d \<le> count_pending_by_work_unit u d"
  proof (cases "pending_of u d = []")
    case True
    then show ?thesis by (simp add: countable_pending_results_sql_def sql_best_group_count_def
        count_pending_by_work_unit_def)
  next
    case False
    have "countable_pending_results_sql u d \<le> int (length (sql_version_rows (sql_best_version (pending_of u d)) (pending_of u d)))"
      using False by (simp add: countable_pending_results_sql_def sql_best_group_count_def count_if_le_length)
    also have "\<dots> \<le> int (length (pending_of u d))" by (simp add: sql_version_rows_def)
    finally show ?thesis by (simp add: pending_of_length)
  qed
  then show ?thesis
    using probation_live_bounds(1) [of u d]
    by (simp add: countable_coverage_sql_def non_countable_probation live_copies_split)
qed

lemma budget_copies_nonneg: "0 \<le> budget_copies_sql u d" "0 \<le> error_copies_sql u d"
  by (simp_all add: budget_copies_sql_def error_copies_sql_def unstarted_abandoners_sql_def)

text \<open>A buffer give-back costs a unit nothing: closing a live copy as RETURNED lowers the budget
  count by the one live row it was and leaves the error count as it is, and repeating an un-started
  abandon by the same volunteer leaves both counts where the first one put them.\<close>

theorem give_backs_are_budget_neutral:
  assumes "cp_unit c = u" "cp_outcome c = None"
  shows "budget_copies_sql u (d\<lparr>db_copies := c\<lparr>cp_outcome := Some OutReturned\<rparr> # cs\<rparr>) =
           budget_copies_sql u (d\<lparr>db_copies := cs\<rparr>) \<and>
         budget_copies_sql u (d\<lparr>db_copies := c # cs\<rparr>) = budget_copies_sql u (d\<lparr>db_copies := cs\<rparr>) + 1 \<and>
         error_copies_sql u (d\<lparr>db_copies := c\<lparr>cp_outcome := Some OutReturned\<rparr> # cs\<rparr>) =
           error_copies_sql u (d\<lparr>db_copies := cs\<rparr>) \<and>
         (cp_started_at c = None \<longrightarrow>
            (\<exists>b\<in>set cs. cp_unit b = u \<and> cp_volunteer b = cp_volunteer c \<and>
                       cp_outcome b = Some OutAbandoned \<and> cp_started_at b = None) \<longrightarrow>
            budget_copies_sql u (d\<lparr>db_copies := c\<lparr>cp_outcome := Some OutAbandoned\<rparr> # cs\<rparr>) =
              budget_copies_sql u (d\<lparr>db_copies := cs\<rparr>) \<and>
            error_copies_sql u (d\<lparr>db_copies := c\<lparr>cp_outcome := Some OutAbandoned\<rparr> # cs\<rparr>) =
              error_copies_sql u (d\<lparr>db_copies := cs\<rparr>))"
proof (intro conjI impI)
  show "budget_copies_sql u (d\<lparr>db_copies := c\<lparr>cp_outcome := Some OutReturned\<rparr> # cs\<rparr>) =
           budget_copies_sql u (d\<lparr>db_copies := cs\<rparr>)"
    "budget_copies_sql u (d\<lparr>db_copies := c # cs\<rparr>) = budget_copies_sql u (d\<lparr>db_copies := cs\<rparr>) + 1"
    "error_copies_sql u (d\<lparr>db_copies := c\<lparr>cp_outcome := Some OutReturned\<rparr> # cs\<rparr>) =
           error_copies_sql u (d\<lparr>db_copies := cs\<rparr>)"
    using assms by (simp_all add: budget_copies_sql_def error_copies_sql_def unstarted_abandoners_sql_def)
next
  assume st: "cp_started_at c = None"
    and ex: "\<exists>b\<in>set cs. cp_unit b = u \<and> cp_volunteer b = cp_volunteer c \<and>
                       cp_outcome b = Some OutAbandoned \<and> cp_started_at b = None"
  let ?rows = "filter (\<lambda>c. cp_unit c = u \<and> cp_outcome c = Some OutAbandoned \<and> cp_started_at c = None) cs"
  obtain b where b: "b \<in> set ?rows" "cp_volunteer c = cp_volunteer b" using ex by auto
  have "cp_volunteer c \<in> cp_volunteer ` set ?rows" unfolding b(2) using b(1) by (rule imageI)
  then have keys: "length (keys_of cp_volunteer (c\<lparr>cp_outcome := Some OutAbandoned\<rparr> # ?rows)) =
      length (keys_of cp_volunteer ?rows)"
    unfolding length_keys_of by (simp add: insert_absorb)
  show "budget_copies_sql u (d\<lparr>db_copies := c\<lparr>cp_outcome := Some OutAbandoned\<rparr> # cs\<rparr>) =
              budget_copies_sql u (d\<lparr>db_copies := cs\<rparr>)"
    "error_copies_sql u (d\<lparr>db_copies := c\<lparr>cp_outcome := Some OutAbandoned\<rparr> # cs\<rparr>) =
              error_copies_sql u (d\<lparr>db_copies := cs\<rparr>)"
    using assms st keys by (simp_all add: budget_copies_sql_def error_copies_sql_def unstarted_abandoners_sql_def)
qed

subsection \<open>A small database, for concrete instances\<close>

definition reserved_copy :: "uid \<Rightarrow> uid \<Rightarrow> uid \<Rightarrow> unit_copy" where
  "reserved_copy i u v = \<lparr>cp_id = i, cp_unit = u, cp_volunteer = v, cp_host = None, cp_assigned_at = 0,
     cp_reserved_until = Some 21600, cp_started_at = None, cp_deadline_seconds = 21600, cp_outcome = None,
     cp_outcome_at = None, cp_result = None, cp_reason = None, cp_created_at = 0\<rparr>"

definition ok_volunteer :: "uid \<Rightarrow> volunteer" where
  "ok_volunteer i = \<lparr>vol_id = i, vol_did = None, vol_did_binding_status = None, vol_did_frozen_until = None,
     vol_standing = standing_ok, vol_benched_until = None, vol_standing_source = ''AUTO'',
     vol_standing_changed_at = None, vol_rejection_good = 0, vol_rejection_bad = 0,
     vol_rejection_updated_at = None, vol_benchmark_fpops = 0\<rparr>"

definition sample_db :: "work_unit list \<Rightarrow> unit_copy list \<Rightarrow> result list \<Rightarrow> db" where
  "sample_db ws cs rs = \<lparr>db_units = ws, db_copies = cs, db_results = rs,
     db_leafs = [''l'' \<mapsto> active_leaf ''l'' default_validation_config],
     db_volunteers = [''a'' \<mapsto> ok_volunteer ''a'', ''b'' \<mapsto> ok_volunteer ''b'', ''c'' \<mapsto> ok_volunteer ''c''],
     db_trust = Map.empty, db_ledger = [], db_reliability = Map.empty, db_now = 100\<rparr>"

theorem give_backs_are_budget_neutral_witness:
  "let ab = (reserved_copy ''c0'' ''u'' ''a'')\<lparr>cp_outcome := Some OutAbandoned\<rparr>;
       c = reserved_copy ''c1'' ''u'' ''a''
   in budget_copies_sql ''u'' (sample_db [] [c\<lparr>cp_outcome := Some OutAbandoned\<rparr>, ab] []) = 1 \<and>
      error_copies_sql ''u'' (sample_db [] [c\<lparr>cp_outcome := Some OutAbandoned\<rparr>, ab] []) = 1"
proof -
  let ?ab = "(reserved_copy ''c0'' ''u'' ''a'')\<lparr>cp_outcome := Some OutAbandoned\<rparr>"
  let ?c = "reserved_copy ''c1'' ''u'' ''a''"
  have base: "budget_copies_sql ''u'' (sample_db [] [?ab] []) = 1" "error_copies_sql ''u'' (sample_db [] [?ab] []) = 1"
    by (simp_all add: budget_copies_sql_def error_copies_sql_def unstarted_abandoners_sql_def sample_db_def
        reserved_copy_def keys_of_def)
  have "cp_unit ?c = ''u''" "cp_outcome ?c = None" by (simp_all add: reserved_copy_def)
  from give_backs_are_budget_neutral [OF this, where d = "sample_db [] [?ab] []" and cs = "[?ab]"] base
  show ?thesis unfolding Let_def by (simp add: sample_db_def reserved_copy_def)
qed

end
