(* ===== verification/UnitStore.thy ===== *)
theory UnitStore
  imports Database
begin

text \<open>
  The operations of the work-unit repository that move a unit (\<open>workunit/pgx-repo.go\<close>): guarded
  state transitions, the COMPLETED mark, the dead-letter executor, requeueing, the copy-budget refund
  and the spot-check flag. An operation takes the database and yields its outcome and the database
  it leaves; a failed operation leaves what its SQL left.
\<close>

subsection \<open>Guarded transitions\<close>

definition get_unit :: "uid \<Rightarrow> (db, work_unit) op" where
  "get_unit i d = (case find_unit i d of None \<Rightarrow> (Inl (NotFound ''work_unit''), d) | Some w \<Rightarrow> (Inr w, d))"

text \<open>The business rule of a transition, on the row as read.\<close>

definition transition_rule :: "time \<Rightarrow> wu_state \<Rightarrow> wu_state \<Rightarrow> work_unit \<Rightarrow> work_unit" where
  "transition_rule now from to w =
     (if to = Queued \<and> (from = Rejected \<or> from = Expired) then transition_to_queued w
      else if to = Failed then transition_to_failed w
      else if to = Validated then transition_to_validated now w
      else w\<lparr>wu_state := to\<rparr>)"

definition persist_unit :: "work_unit \<Rightarrow> work_unit \<Rightarrow> work_unit" where
  "persist_unit w row = row\<lparr>
     wu_state := wu_state w,
     wu_priority := wu_priority w,
     wu_assigned_volunteer := wu_assigned_volunteer w,
     wu_assigned_at := wu_assigned_at w,
     wu_started_at := wu_started_at w,
     wu_completed_at := wu_completed_at w,
     wu_validated_at := wu_validated_at w,
     wu_last_heartbeat_at := wu_last_heartbeat_at w,
     wu_reassignment_count := wu_reassignment_count w,
     wu_flagged_for_review := wu_flagged_for_review w,
     wu_dispatch_claimed_by := None,
     wu_dispatch_claim_expires_at := None\<rparr>"

definition update_state :: "uid \<Rightarrow> wu_state \<Rightarrow> wu_state \<Rightarrow> (db, work_unit) op" where
  "update_state i from to d =
     (case validate_transition from to of
        Inl e \<Rightarrow> (Inl e, d)
      | Inr _ \<Rightarrow>
          (case get_unit i d of
             (Inl e, _) \<Rightarrow> (Inl e, d)
           | (Inr w, _) \<Rightarrow>
               if wu_state w \<noteq> from then (Inl (Conflict ''STATE_MISMATCH''), d)
               else let w' = transition_rule (db_now d) from to w;
                        sel = (\<lambda>x. wu_id x = i \<and> wu_state x = from)
                    in if count_if sel (db_units d) = 0 then (Inl (Conflict ''CONCURRENT_STATE_CHANGE''), d)
                       else get_unit i (update_units sel (persist_unit w') d)))"

text \<open>The bulk variant names the units of a batch; it touches nothing but the state.\<close>

definition bulk_transition_by_batch :: "(uid \<Rightarrow> bool) \<Rightarrow> wu_state \<Rightarrow> wu_state \<Rightarrow> (db, int) op" where
  "bulk_transition_by_batch in_batch from to d =
     (case validate_transition from to of
        Inl e \<Rightarrow> (Inl e, d)
      | Inr _ \<Rightarrow>
          (let sel = (\<lambda>x. in_batch (wu_id x) \<and> wu_state x = from) in
           (Inr (count_if sel (db_units d)), update_units sel (\<lambda>x. x\<lparr>wu_state := to\<rparr>) d)))"

definition mark_completed :: "uid \<Rightarrow> (db, unit) op" where
  "mark_completed i d =
     (Inr (), update_units (\<lambda>x. wu_id x = i \<and> wu_state x \<in> {Queued, Assigned, Running})
        (\<lambda>x. x\<lparr>wu_state := Completed,
               wu_started_at := (case wu_started_at x of None \<Rightarrow> Some (db_now d) | Some t \<Rightarrow> Some t),
               wu_completed_at := Some (db_now d)\<rparr>) d)"

subsection \<open>The dead letter\<close>

definition dead_letter_guard :: "db \<Rightarrow> work_unit \<Rightarrow> bool" where
  "dead_letter_guard d w \<longleftrightarrow>
     wu_state w \<in> {Queued, Completed, Rejected} \<and>
     (case db_leafs d (wu_leaf w) of
        None \<Rightarrow> False
      | Some lf \<Rightarrow>
          let vc = leaf_validation_config lf in
          \<not> (\<exists>c\<in>set (db_copies d). cp_unit c = wu_id w \<and> cp_outcome c = None) \<and>
          version_homogeneous_pending_sql (wu_id w) d < eff_quorum_sql w vc \<and>
          (budget_copies_sql (wu_id w) d \<ge> eff_max_total_sql w vc \<or>
           (eff_max_error_sql w vc > 0 \<and> error_copies_sql (wu_id w) d \<ge> eff_max_error_sql w vc)))"

definition dead_letter_if_exhausted :: "uid \<Rightarrow> (db, bool) op" where
  "dead_letter_if_exhausted i d =
     (let sel = (\<lambda>w. wu_id w = i \<and> dead_letter_guard d w) in
      if count_if sel (db_units d) > 0
      then (Inr True,
            update_results (\<lambda>r. res_unit r = i \<and> res_status r = Pending) (\<lambda>r. r\<lparr>res_status := Superseded\<rparr>)
              (update_units sel (\<lambda>w. w\<lparr>wu_state := Failed, wu_flagged_for_review := True\<rparr>) d))
      else (Inr False, d))"

subsection \<open>Requeueing and refunds\<close>

definition reassign :: "uid \<Rightarrow> (db, work_unit \<times> bool) op" where
  "reassign i d =
     (case get_unit i d of
        (Inl e, _) \<Rightarrow> (Inl e, d)
      | (Inr w, _) \<Rightarrow>
          if wu_state w \<noteq> Expired \<and> wu_state w \<noteq> Rejected
          then (Inl (Conflict ''INVALID_REASSIGNMENT_STATE''), d)
          else (case update_state i (wu_state w) Queued d of
                  (Inl e, d') \<Rightarrow> (Inl e, d')
                | (Inr w', d') \<Rightarrow> (Inr (w', True), d')))"

definition refund_row :: "db \<Rightarrow> int \<Rightarrow> int \<Rightarrow> work_unit \<Rightarrow> work_unit" where
  "refund_row d max_total max_error w =
     w\<lparr>wu_max_total_copies := budget_copies_sql (wu_id w) d + max_total,
       wu_max_error_copies := (if max_error > 0 then error_copies_sql (wu_id w) d + max_error
                               else wu_max_error_copies w)\<rparr>"

definition refund_copy_budget :: "uid \<Rightarrow> int \<Rightarrow> int \<Rightarrow> (db, bool) op" where
  "refund_copy_budget i max_total max_error d =
     (let sel = (\<lambda>w. wu_id w = i \<and> wu_state w = Rejected) in
      (Inr (count_if sel (db_units d) = 1), update_units sel (refund_row d max_total max_error) d))"

definition mark_spot_check :: "uid \<Rightarrow> (db, unit) op" where
  "mark_spot_check i d =
     (let sel = (\<lambda>w. wu_id w = i); d' = update_units sel (\<lambda>w. w\<lparr>wu_spot_check := True\<rparr>) d in
      if count_if sel (db_units d) = 0 then (Inl (NotFound ''work_unit''), d') else (Inr (), d'))"

definition clear_spot_check :: "uid \<Rightarrow> (db, unit) op" where
  "clear_spot_check i d =
     (let sel = (\<lambda>w. wu_id w = i \<and> wu_spot_check w); d' = update_units sel (\<lambda>w. w\<lparr>wu_spot_check := False\<rparr>) d in
      if count_if sel (db_units d) = 0 then (Inl (NotFound ''work_unit''), d') else (Inr (), d'))"

definition ensure_work_unit_hr_class :: "uid \<Rightarrow> string \<Rightarrow> (db, string) op" where
  "ensure_work_unit_hr_class i cls d =
     (let d' = update_units (\<lambda>w. wu_id w = i)
                 (\<lambda>w. w\<lparr>wu_hr_class := (case wu_hr_class w of None \<Rightarrow> Some cls | Some c \<Rightarrow> Some c)\<rparr>) d in
      case find_unit i d' of
        None \<Rightarrow> (Inl (NotFound ''work_unit''), d')
      | Some w \<Rightarrow> (case wu_hr_class w of None \<Rightarrow> (Inl (NotFound ''work_unit''), d') | Some c \<Rightarrow> (Inr c, d')))"

subsection \<open>What a guarded transition does\<close>

lemma persist_unit_simps [simp]:
  "wu_id (persist_unit w row) = wu_id row" "wu_leaf (persist_unit w row) = wu_leaf row"
  "wu_state (persist_unit w row) = wu_state w" "wu_spot_check (persist_unit w row) = wu_spot_check row"
  "wu_dispatch_claimed_by (persist_unit w row) = None" "wu_validated_at (persist_unit w row) = wu_validated_at w"
  "wu_max_total_copies (persist_unit w row) = wu_max_total_copies row"
  "wu_max_error_copies (persist_unit w row) = wu_max_error_copies row"
  "wu_flagged_for_review (persist_unit w row) = wu_flagged_for_review w"
  "wu_target_copies (persist_unit w row) = wu_target_copies row"
  "wu_min_quorum (persist_unit w row) = wu_min_quorum row"
  "wu_reassignment_count (persist_unit w row) = wu_reassignment_count w"
  by (simp_all add: persist_unit_def)

lemma transition_rule_simps [simp]:
  "wu_state (transition_rule now from to w) = to"
  "wu_id (transition_rule now from to w) = wu_id w"
  by (simp_all add: transition_rule_def transition_to_queued_def transition_to_failed_def
      transition_to_validated_def)

lemma get_unit_eq: "get_unit i d = (Inr w, d') \<longleftrightarrow> find_unit i d = Some w \<and> d' = d"
  by (auto simp: get_unit_def split: option.splits)

lemma find_unit_count: "find_unit i d = Some w \<Longrightarrow> P w \<Longrightarrow> 0 < count_if (\<lambda>x. wu_id x = i \<and> P x) (db_units d)"
  using find_unit_in [of i d w] find_unit_id [of i d w] by (auto simp: count_if_def filter_empty_conv)

abbreviation moved_db :: "uid \<Rightarrow> wu_state \<Rightarrow> wu_state \<Rightarrow> work_unit \<Rightarrow> db \<Rightarrow> db" where
  "moved_db i from to w d \<equiv>
     update_units (\<lambda>x. wu_id x = i \<and> wu_state x = from) (persist_unit (transition_rule (db_now d) from to w)) d"

lemma update_state_hit:
  assumes "find_unit i d = Some w" "wu_state w = from" "chart_edge from to"
  shows "update_state i from to d =
    (Inr ((persist_unit (transition_rule (db_now d) from to w) w)\<lparr>wu_updated_at := db_now d\<rparr>), moved_db i from to w d)"
proof -
  have "count_if (\<lambda>x. wu_id x = i \<and> wu_state x = from) (db_units d) \<noteq> 0"
    using find_unit_count [OF assms(1), of "\<lambda>x. wu_state x = from"] assms(2) by simp
  moreover have "find_unit i (moved_db i from to w d) =
      Some ((persist_unit (transition_rule (db_now d) from to w) w)\<lparr>wu_updated_at := db_now d\<rparr>)"
    using assms find_unit_id [OF assms(1)] by (simp add: find_unit_update_units)
  ultimately show ?thesis using assms
    by (simp add: update_state_def chart_edge_iff get_unit_def Let_def)
qed

lemma update_state_ok_iff:
  "(\<exists>w' d'. update_state i from to d = (Inr w', d')) \<longleftrightarrow>
     chart_edge from to \<and> (\<exists>w. find_unit i d = Some w \<and> wu_state w = from)"
proof
  assume "\<exists>w' d'. update_state i from to d = (Inr w', d')"
  then show "chart_edge from to \<and> (\<exists>w. find_unit i d = Some w \<and> wu_state w = from)"
    by (auto simp: update_state_def chart_edge_iff get_unit_def Let_def split: sum.splits option.splits if_splits)
next
  assume "chart_edge from to \<and> (\<exists>w. find_unit i d = Some w \<and> wu_state w = from)"
  then show "\<exists>w' d'. update_state i from to d = (Inr w', d')" using update_state_hit by blast
qed

lemma update_state_fail: "update_state i from to d = (Inl e, d') \<Longrightarrow> d' = d"
proof (cases "chart_edge from to \<and> (\<exists>w. find_unit i d = Some w \<and> wu_state w = from)")
  case True
  then obtain w where w: "find_unit i d = Some w" "wu_state w = from" "chart_edge from to" by blast
  assume "update_state i from to d = (Inl e, d')"
  then show ?thesis using update_state_hit [OF w] by simp
next
  case False
  assume u: "update_state i from to d = (Inl e, d')"
  show ?thesis
  proof (cases "validate_transition from to")
    case (Inl e') then show ?thesis using u by (simp add: update_state_def)
  next
    case (Inr x)
    then have "\<not> (\<exists>w. find_unit i d = Some w \<and> wu_state w = from)" using False by (simp add: chart_edge_iff)
    then show ?thesis using u Inr
      by (auto simp: update_state_def get_unit_def split: option.splits if_splits)
  qed
qed

lemma update_stateD:
  assumes "update_state i from to d = (Inr w', d')"
  obtains w where "find_unit i d = Some w" "wu_state w = from" "chart_edge from to"
    "d' = moved_db i from to w d" "w' = (persist_unit (transition_rule (db_now d) from to w) w)\<lparr>wu_updated_at := db_now d\<rparr>"
proof -
  from assms have "\<exists>w' d'. update_state i from to d = (Inr w', d')" by blast
  then obtain w where w: "chart_edge from to" "find_unit i d = Some w" "wu_state w = from"
    unfolding update_state_ok_iff by blast
  show ?thesis
    by (rule that [OF w(2,3,1)]) (use assms update_state_hit [OF w(2,3,1)] in simp_all)
qed

text \<open>A unit moves only along the state chart: a guarded transition succeeds exactly when the edge
  is declared and the unit is in the stated source state; then the unit it returns is in the target
  state, carries no dispatch claim, and is the stored row; otherwise the database is untouched.\<close>

theorem update_state_follows_the_chart:
  "case update_state i from to d of
     (Inr w', d') \<Rightarrow>
        to \<in> set (valid_transitions from) \<and> map_option wu_state (find_unit i d) = Some from \<and>
        find_unit i d' = Some w' \<and> wu_state w' = to \<and> wu_dispatch_claimed_by w' = None \<and>
        db_results d' = db_results d \<and> db_copies d' = db_copies d
   | (Inl _, d') \<Rightarrow>
        d' = d \<and> \<not> (to \<in> set (valid_transitions from) \<and> map_option wu_state (find_unit i d) = Some from)"
proof (cases "update_state i from to d")
  case (Pair r d')
  show ?thesis
  proof (cases r)
    case (Inr w')
    with Pair have "update_state i from to d = (Inr w', d')" by simp
    then obtain w where w: "find_unit i d = Some w" "wu_state w = from" "chart_edge from to"
      "d' = moved_db i from to w d" "w' = (persist_unit (transition_rule (db_now d) from to w) w)\<lparr>wu_updated_at := db_now d\<rparr>"
      by (rule update_stateD)
    have "find_unit i d' = Some w'"
      using w find_unit_id [OF w(1)] by (simp add: find_unit_update_units)
    then show ?thesis using Pair Inr w by (simp add: chart_edge_set)
  next
    case (Inl e)
    then have "d' = d" using Pair update_state_fail by simp
    moreover have "\<not> (\<exists>w' d'. update_state i from to d = (Inr w', d'))" using Pair Inl by simp
    then have "\<not> (to \<in> set (valid_transitions from) \<and> map_option wu_state (find_unit i d) = Some from)"
      unfolding update_state_ok_iff by (auto simp: chart_edge_set)
    ultimately show ?thesis using Pair Inl by simp
  qed
qed

subsection \<open>The dead letter leaves nothing pending\<close>

lemma pending_of_cleared:
  assumes "\<And>r. res_status (f r) \<noteq> Pending"
  shows "pending_of i (update_results (\<lambda>r. res_unit r = i \<and> res_status r = Pending) f d) = []"
proof -
  have "filter (\<lambda>r. res_unit r = i \<and> res_status r = Pending)
      (update_where (\<lambda>r. res_unit r = i \<and> res_status r = Pending) f rs) = []" for rs
    by (induction rs) (auto simp: assms)
  then show ?thesis by (simp add: pending_of_def update_results_def)
qed

lemma dead_letter_fires:
  assumes "find_unit i d = Some w" "dead_letter_guard d w"
  shows "fst (dead_letter_if_exhausted i d) = Inr True"
    "map_option wu_state (find_unit i (snd (dead_letter_if_exhausted i d))) = Some Failed"
    "pending_of i (snd (dead_letter_if_exhausted i d)) = []"
proof -
  have c: "0 < count_if (\<lambda>w. wu_id w = i \<and> dead_letter_guard d w) (db_units d)"
    by (rule find_unit_count) (use assms in simp_all)
  then show "fst (dead_letter_if_exhausted i d) = Inr True"
    "map_option wu_state (find_unit i (snd (dead_letter_if_exhausted i d))) = Some Failed"
    using assms find_unit_id [OF assms(1)]
    by (simp_all add: dead_letter_if_exhausted_def find_unit_update_units)
  show "pending_of i (snd (dead_letter_if_exhausted i d)) = []"
    using c by (simp add: dead_letter_if_exhausted_def pending_of_cleared)
qed

lemma distinct_units_find:
  assumes "distinct (map wu_id (db_units d))" "w \<in> set (db_units d)" "wu_id w = i"
  shows "find_unit i d = Some w"
proof -
  have "find_unit i d \<noteq> None" using assms(2,3) by (auto simp: find_unit_def find_None_iff)
  then obtain w' where w': "find_unit i d = Some w'" by blast
  then have "w' \<in> set (db_units d)" "wu_id w' = wu_id w" using find_unit_in find_unit_id assms(3) by auto
  then have "w' = w" using assms(1,2) by (auto simp: distinct_map inj_on_def)
  then show ?thesis using w' by simp
qed

lemma dead_letter_idle:
  assumes "distinct (map wu_id (db_units d))" "find_unit i d = Some w" "\<not> dead_letter_guard d w"
  shows "dead_letter_if_exhausted i d = (Inr False, d)"
proof -
  have "\<not> (wu_id x = i \<and> dead_letter_guard d x)" if "x \<in> set (db_units d)" for x
    using distinct_units_find [OF assms(1) that] assms(2,3) by auto
  then have "filter (\<lambda>w. wu_id w = i \<and> dead_letter_guard d w) (db_units d) = []" by (simp add: filter_empty_conv)
  then have "count_if (\<lambda>w. wu_id w = i \<and> dead_letter_guard d w) (db_units d) = 0" by (simp add: count_if_def)
  then show ?thesis by (simp add: dead_letter_if_exhausted_def)
qed

subsection \<open>A refund reopens dispatch\<close>

lemma refund_row_simps [simp]:
  "wu_id (refund_row d t e w) = wu_id w" "wu_leaf (refund_row d t e w) = wu_leaf w"
  "wu_state (refund_row d t e w) = wu_state w" "wu_spot_check (refund_row d t e w) = wu_spot_check w"
  "wu_max_total_copies (refund_row d t e w) = budget_copies_sql (wu_id w) d + t"
  "wu_max_error_copies (refund_row d t e w) =
     (if e > 0 then error_copies_sql (wu_id w) d + e else wu_max_error_copies w)"
  by (simp_all add: refund_row_def)

lemma counts_update_units [simp]:
  "unstarted_abandoners_sql u (update_units P f d) = unstarted_abandoners_sql u d"
  "budget_copies_sql u (update_units P f d) = budget_copies_sql u d"
  "error_copies_sql u (update_units P f d) = error_copies_sql u d"
  "version_homogeneous_pending_sql u (update_units P f d) = version_homogeneous_pending_sql u d"
  "count_live_copies u (update_units P f d) = count_live_copies u d"
  "count_pending_by_work_unit u (update_units P f d) = count_pending_by_work_unit u d"
  "count_probation_live_copies u (update_units P f d) = count_probation_live_copies u d"
  by (simp_all add: unstarted_abandoners_sql_def budget_copies_sql_def error_copies_sql_def
      version_homogeneous_pending_sql_def count_live_copies_def count_pending_by_work_unit_def
      count_probation_live_copies_def cong: option.case_cong)

lemma eff_touch [simp]:
  "eff_target_sql (w\<lparr>wu_updated_at := t\<rparr>) vc = eff_target_sql w vc"
  "eff_quorum_sql (w\<lparr>wu_updated_at := t\<rparr>) vc = eff_quorum_sql w vc"
  "eff_max_error_sql (w\<lparr>wu_updated_at := t\<rparr>) vc = eff_max_error_sql w vc"
  by (simp_all add: eff_target_sql_def eff_quorum_sql_def eff_max_error_sql_def)

lemma eff_max_total_touch [simp]: "eff_max_total_sql (w\<lparr>wu_updated_at := t\<rparr>) vc = eff_max_total_sql w vc"
  by (simp add: eff_max_total_sql_def)

lemma caps_touch [simp]:
  "caps_not_exhausted_sql (w\<lparr>wu_updated_at := t\<rparr>) lf d = caps_not_exhausted_sql w lf d"
  "caps_not_exhausted_sql w lf (update_units P f d) = caps_not_exhausted_sql w lf d"
  by (simp_all add: caps_not_exhausted_sql_def)

lemma ids_update_units [simp]:
  "(\<And>w. wu_id (f w) = wu_id w) \<Longrightarrow> map wu_id (db_units (update_units P f d)) = map wu_id (db_units d)"
  by (simp add: update_units_def map_key_update_where)

lemma refund_row_caps:
  assumes "1 \<le> t" "1 \<le> e \<or> eff_max_error_sql w (leaf_validation_config lf) = 0"
  shows "caps_not_exhausted_sql (refund_row d t e w) lf d"
proof -
  have n: "0 \<le> budget_copies_sql (wu_id w) d" "0 \<le> error_copies_sql (wu_id w) d" by (rule budget_copies_nonneg)+
  have "eff_max_total_sql (refund_row d t e w) (leaf_validation_config lf) = budget_copies_sql (wu_id w) d + t"
    using n assms(1) unfolding eff_max_total_sql_def by simp
  moreover have "eff_max_error_sql (refund_row d t e w) (leaf_validation_config lf) =
      (if 1 \<le> e then error_copies_sql (wu_id w) d + e else 0)"
    using n assms(2) unfolding eff_max_error_sql_def by (simp split: if_splits)
  ultimately show ?thesis using assms(1) by (simp add: caps_not_exhausted_sql_def)
qed

lemma find_unit_Some_distinct:
  assumes "distinct (map wu_id (db_units d))" "find_unit i d = Some w"
  shows "count_if (\<lambda>x. wu_id x = i \<and> P x) (db_units d) = (if P w then 1 else 0)"
proof -
  have "filter (\<lambda>x. wu_id x = i) xs = (case find (\<lambda>x. wu_id x = i) xs of None \<Rightarrow> [] | Some w \<Rightarrow> [w])"
    if "distinct (map wu_id xs)" for xs
    using that
  proof (induction xs)
    case (Cons a xs)
    have "filter (\<lambda>x. wu_id x = i) xs = []" if "wu_id a = i"
      using Cons.prems that by (auto simp: filter_empty_conv) (metis image_eqI)
    then show ?case using Cons by (auto split: option.splits)
  qed simp
  from this [OF assms(1)] have "filter (\<lambda>x. wu_id x = i) (db_units d) = [w]"
    using assms(2) by (simp add: find_unit_def)
  then have "filter (\<lambda>x. wu_id x = i \<and> P x) (db_units d) = (if P w then [w] else [])"
    using filter_filter [of P "\<lambda>x. wu_id x = i" "db_units d"] by (simp split: if_splits)
  then show ?thesis by (simp add: count_if_def)
qed

lemma update_units_idle:
  assumes "\<And>x. x \<in> set (db_units d) \<Longrightarrow> P x \<Longrightarrow> (f x)\<lparr>wu_updated_at := db_now d\<rparr> = x"
  shows "update_units P f d = d"
proof -
  have "update_where P (\<lambda>w. (f w)\<lparr>wu_updated_at := db_now d\<rparr>) (db_units d) = db_units d"
    unfolding update_where_def by (rule map_idI) (use assms in auto)
  then show ?thesis by (simp add: update_units_def)
qed

lemma refund_again:
  assumes "distinct (map wu_id (db_units d))" "find_unit i d = Some w" "wu_state w = Rejected"
    "(refund_row d t e w)\<lparr>wu_updated_at := db_now d\<rparr> = w"
  shows "refund_copy_budget i t e d = (Inr True, d)"
proof -
  have "update_units (\<lambda>w. wu_id w = i \<and> wu_state w = Rejected) (refund_row d t e) d = d"
  proof (rule update_units_idle)
    fix x assume x: "x \<in> set (db_units d)" "wu_id x = i \<and> wu_state x = Rejected"
    then have "x = w" using distinct_units_find [OF assms(1) x(1)] assms(2) by simp
    then show "(refund_row d t e x)\<lparr>wu_updated_at := db_now d\<rparr> = x" using assms(4) by simp
  qed
  then show ?thesis using find_unit_Some_distinct [OF assms(1,2)] assms(3) by (simp add: refund_copy_budget_def)
qed

lemma refund_elsewhere:
  assumes "distinct (map wu_id (db_units d))" "find_unit i d = Some w" "wu_state w \<noteq> Rejected"
  shows "refund_copy_budget i t e d = (Inr False, d)"
proof -
  have "update_units (\<lambda>w. wu_id w = i \<and> wu_state w = Rejected) (refund_row d t e) d = d"
  proof (rule update_units_idle)
    fix x assume x: "x \<in> set (db_units d)" "wu_id x = i \<and> wu_state x = Rejected"
    then have "x = w" using distinct_units_find [OF assms(1) x(1)] assms(2) by simp
    then show "(refund_row d t e x)\<lparr>wu_updated_at := db_now d\<rparr> = x" using assms(3) x(2) by simp
  qed
  then show ?thesis using find_unit_Some_distinct [OF assms(1,2)] assms(3) by (simp add: refund_copy_budget_def)
qed

text \<open>Refunding a demoted unit makes it dispatchable for as many fresh copies as the refund says: the
  ceiling is written above everything already spent, so the refunded unit's budget is not exhausted
  whatever its history, refunding again while it is still REJECTED changes nothing, and refunding a
  unit that has already been requeued is refused.\<close>

theorem refund_reopens_dispatch:
  assumes "distinct (map wu_id (db_units d))" "find_unit i d = Some w" "wu_state w = Rejected"
    "1 \<le> t" "1 \<le> e \<or> eff_max_error_sql w (leaf_validation_config lf) = 0"
  shows "let (r, d') = refund_copy_budget i t e d in
     r = Inr True \<and>
     (\<exists>w'. find_unit i d' = Some w' \<and> caps_not_exhausted_sql w' lf d' \<and>
           wu_max_total_copies w' - budget_copies_sql i d' = t) \<and>
     refund_copy_budget i t e d' = (Inr True, d') \<and>
     (case reassign i d' of
        (Inr (w', _), d'') \<Rightarrow> wu_state w' = Queued \<and> refund_copy_budget i t e d'' = (Inr False, d'')
      | (Inl _, _) \<Rightarrow> False)"
proof -
  define d' where "d' = update_units (\<lambda>w. wu_id w = i \<and> wu_state w = Rejected) (refund_row d t e) d"
  have i: "wu_id w = i" using find_unit_id [OF assms(2)] .
  have r: "refund_copy_budget i t e d = (Inr True, d')"
    using find_unit_Some_distinct [OF assms(1,2)] assms(3) by (simp add: refund_copy_budget_def d'_def)
  define w' where "w' = (refund_row d t e w)\<lparr>wu_updated_at := db_now d\<rparr>"
  have f': "find_unit i d' = Some w'" using assms(2,3) i by (simp add: d'_def find_unit_update_units w'_def)
  have ids: "map wu_id (db_units d') = map wu_id (db_units d)"
    by (simp add: d'_def update_units_def map_key_update_where)
  have caps: "caps_not_exhausted_sql w' lf d'"
    using refund_row_caps [OF assms(4,5), of d] by (simp add: w'_def d'_def)
  have again: "refund_copy_budget i t e d' = (Inr True, d')"
  proof (rule refund_again)
    show "distinct (map wu_id (db_units d'))" "find_unit i d' = Some w'" "wu_state w' = Rejected"
      using assms(1,3) ids f' by (simp_all add: w'_def)
    show "(refund_row d' t e w')\<lparr>wu_updated_at := db_now d'\<rparr> = w'"
      by (simp add: w'_def d'_def refund_row_def i)
  qed
  have st': "wu_state w' = Rejected" by (simp add: w'_def assms(3))
  obtain w2 d2 where u: "update_state i Rejected Queued d' = (Inr w2, d2)" "wu_state w2 = Queued"
    "find_unit i d2 = Some w2" "map wu_id (db_units d2) = map wu_id (db_units d')"
  proof -
    have e: "chart_edge Rejected Queued" by (simp add: chart_edge_set)
    show ?thesis
      by (rule that [OF update_state_hit [OF f' st' e]])
        (use f' st' i in \<open>simp_all add: find_unit_update_units w'_def\<close>)
  qed
  have re: "reassign i d' = (Inr (w2, True), d2)" using f' st' u(1) by (simp add: reassign_def get_unit_def)
  have noop: "refund_copy_budget i t e d2 = (Inr False, d2)"
    by (rule refund_elsewhere [OF _ u(3)]) (use assms(1) ids u(2,4) in simp_all)
  have "wu_max_total_copies w' - budget_copies_sql i d' = t" by (simp add: w'_def d'_def i)
  then show ?thesis using r f' caps again re noop u(2) by (auto simp: Let_def)
qed

theorem refund_reopens_dispatch_witness:
  "let (r, d') = refund_copy_budget ''u'' 8 0 (sample_db [(queued_unit ''u'' ''l'')\<lparr>wu_state := Rejected\<rparr>] [] [])
   in r = Inr True"
proof -
  let ?w = "(queued_unit ''u'' ''l'')\<lparr>wu_state := Rejected\<rparr>"
  let ?d = "sample_db [?w] [] []"
  have "distinct (map wu_id (db_units ?d))" "find_unit ''u'' ?d = Some ?w" "wu_state ?w = Rejected" "(1::int) \<le> 8"
    "1 \<le> (0::int) \<or> eff_max_error_sql ?w (leaf_validation_config (active_leaf ''l'' default_validation_config)) = 0"
    by (simp_all add: sample_db_def queued_unit_def find_unit_def eff_max_error_sql_def active_leaf_def
        default_validation_config_simps)
  from refund_reopens_dispatch [OF this] show ?thesis by (auto simp: Let_def split: prod.splits)
qed

end
