(* ===== verification/CopyStore.thy ===== *)
theory CopyStore
  imports UnitStore
begin

text \<open>
  The life of a copy: its creation, its run-start, its close, and the sweeps over it
  (\<open>workunit/pgx-repo.go\<close>), with the assignment-history view of the same table
  (\<open>assignment/pgx-repo.go\<close>). A row the database creates takes its identifier as an argument.
\<close>

subsection \<open>The landing gate\<close>

definition bench_pool_exhausted_grace_seconds :: int where "bench_pool_exhausted_grace_seconds = 120"

definition returned_reoffer_cooldown_seconds :: int where "returned_reoffer_cooldown_seconds = 600"

text \<open>A comparison with a NULL outcome time is not true.\<close>

definition benching_copy :: "time \<Rightarrow> work_unit \<Rightarrow> unit_copy \<Rightarrow> bool" where
  "benching_copy now w h \<longleftrightarrow>
     (case cp_outcome_at h of
        None \<Rightarrow> False
      | Some t \<Rightarrow>
          (cp_outcome h \<in> {Some OutExpired, Some OutAbandoned} \<and> t > now - max (wu_deadline_seconds w) 1) \<or>
          (cp_outcome h = Some OutReturned \<and> t > now - returned_reoffer_cooldown_seconds))"

definition pool_exhausted :: "db \<Rightarrow> uid \<Rightarrow> unit_copy \<Rightarrow> bool" where
  "pool_exhausted d u h \<longleftrightarrow>
     (case cp_outcome_at h of None \<Rightarrow> False | Some t \<Rightarrow> t < db_now d - bench_pool_exhausted_grace_seconds) \<and>
     \<not> (\<exists>c\<in>set (db_copies d). cp_unit c = u \<and> cp_outcome c = None)"

definition cooldown_guard_sql :: "db \<Rightarrow> work_unit \<Rightarrow> uid \<Rightarrow> bool" where
  "cooldown_guard_sql d w v \<longleftrightarrow>
     \<not> (\<exists>h\<in>set (db_copies d). cp_unit h = wu_id w \<and> cp_volunteer h = v \<and>
          benching_copy (db_now d) w h \<and> \<not> pool_exhausted d (wu_id w) h)"

definition feasible_by_deadline :: "f64 \<Rightarrow> f64 \<Rightarrow> int \<Rightarrow> bool" where
  "feasible_by_deadline rsc bench deadline =
     (if rsc \<le> 0 \<or> bench \<le> 0 \<or> deadline \<le> 0 then True
      else rnd (rsc / bench) \<le> rnd (of_int deadline))"

text \<open>The subject of a stored volunteer; an inner join finds no row for an unknown one.\<close>

definition subject_row :: "db \<Rightarrow> uid \<Rightarrow> string option" where
  "subject_row d v = map_option subject_expr_sql (db_volunteers d v)"

definition reserve_guard :: "db \<Rightarrow> uid \<Rightarrow> uid \<Rightarrow> bool" where
  "reserve_guard d u v \<longleftrightarrow>
     (case find_unit u d of
        None \<Rightarrow> False
      | Some w \<Rightarrow>
          (case (db_leafs d (wu_leaf w), db_volunteers d v) of
             (Some lf, Some vv) \<Rightarrow>
               wu_state w = Queued \<and>
               caps_not_exhausted_sql w lf d \<and>
               \<not> (\<exists>r\<in>set (db_results d). res_unit r = u \<and> res_status r = Pending \<and>
                    subject_row d (res_volunteer r) = Some (subject_expr_sql vv)) \<and>
               \<not> (\<exists>c\<in>set (db_copies d). cp_unit c = u \<and> cp_outcome c = None \<and>
                    subject_row d (cp_volunteer c) = Some (subject_expr_sql vv)) \<and>
               standing_expr_sql (db_now d) (Some vv) \<noteq> standing_benched \<and>
               cooldown_guard_sql d w v \<and>
               feasible_by_deadline (leaf_rsc_fpops_est lf) (vol_benchmark_fpops vv) (wu_deadline_seconds w)
           | _ \<Rightarrow> False))"

definition new_copy :: "time \<Rightarrow> uid \<Rightarrow> uid \<Rightarrow> uid \<Rightarrow> uid option \<Rightarrow> time \<Rightarrow> int \<Rightarrow> unit_copy" where
  "new_copy now i u v host reserved_until deadline =
     \<lparr>cp_id = i, cp_unit = u, cp_volunteer = v, cp_host = host, cp_assigned_at = now,
      cp_reserved_until = Some reserved_until, cp_started_at = None, cp_deadline_seconds = deadline,
      cp_outcome = None, cp_outcome_at = None, cp_result = None, cp_reason = None, cp_created_at = now\<rparr>"

text \<open>The partial unique index makes a second live copy of one volunteer a no-op insert.\<close>

definition reserve_copy ::
  "uid \<Rightarrow> uid \<Rightarrow> uid \<Rightarrow> uid option \<Rightarrow> time \<Rightarrow> int \<Rightarrow> (db, unit_copy) op" where
  "reserve_copy i u v host reserved_until deadline d =
     (if reserve_guard d u v \<and>
         \<not> (\<exists>c\<in>set (db_copies d). cp_unit c = u \<and> cp_volunteer c = v \<and> cp_outcome c = None)
      then let c = new_copy (db_now d) i u v host reserved_until deadline
           in (Inr c, d\<lparr>db_copies := db_copies d @ [c]\<rparr>)
      else (Inl (Conflict ''RESERVATION_CONFLICT''), d))"

definition assign :: "uid \<Rightarrow> uid \<Rightarrow> (db, work_unit) op" where
  "assign u v d =
     (let sel = (\<lambda>c. cp_unit c = u \<and> cp_volunteer c = v \<and> cp_outcome c = None);
          d1 = update_copies sel (\<lambda>c. c\<lparr>cp_started_at :=
                 (case cp_started_at c of None \<Rightarrow> Some (db_now d) | Some t \<Rightarrow> Some t)\<rparr>) d in
      if count_if sel (db_copies d) = 0 then (Inl (Conflict ''ASSIGNMENT_CONFLICT''), d1)
      else get_unit u (update_units (\<lambda>w. wu_id w = u)
             (\<lambda>w. w\<lparr>wu_assigned_volunteer := Some v, wu_assigned_at := Some (db_now d),
                    wu_last_heartbeat_at := Some (db_now d),
                    wu_started_at := (case wu_started_at w of None \<Rightarrow> Some (db_now d) | Some t \<Rightarrow> Some t)\<rparr>) d1))"

subsection \<open>Closing a copy\<close>

definition close_copy :: "uid \<Rightarrow> outcome \<Rightarrow> (db, unit) op" where
  "close_copy i out d =
     (Inr (), update_copies (\<lambda>c. cp_id c = i \<and> cp_outcome c = None)
        (\<lambda>c. c\<lparr>cp_outcome := Some out, cp_outcome_at := Some (db_now d)\<rparr>) d)"

definition max_outcome_reason_bytes :: nat where "max_outcome_reason_bytes = 2048"

text \<open>A byte that does not continue a multi-byte rune (its top two bits are not 10).\<close>

definition rune_start :: "char \<Rightarrow> bool" where
  "rune_start c \<longleftrightarrow> of_char c div (64::nat) \<noteq> 2"

fun rune_cut :: "string \<Rightarrow> nat \<Rightarrow> nat" where
  "rune_cut s 0 = 0"
| "rune_cut s (Suc n) = (if rune_start (s ! Suc n) then Suc n else rune_cut s n)"

definition bounded_outcome_reason :: "string \<Rightarrow> string option" where
  "bounded_outcome_reason reason =
     (if reason = '''' then None
      else Some (if length reason > max_outcome_reason_bytes
                 then take (rune_cut reason max_outcome_reason_bytes) reason else reason))"

definition honored_outcome :: "outcome \<Rightarrow> unit_copy \<Rightarrow> outcome" where
  "honored_outcome out c = (if out = OutReturned \<and> cp_started_at c \<noteq> None then OutAbandoned else out)"

definition close_copy_by_volunteer ::
  "uid \<Rightarrow> uid \<Rightarrow> outcome \<Rightarrow> uid option \<Rightarrow> string \<Rightarrow> (db, outcome \<times> uid option) op" where
  "close_copy_by_volunteer u v out result_id reason d =
     (let sel = (\<lambda>c. cp_unit c = u \<and> cp_volunteer c = v \<and> cp_outcome c = None) in
      case find sel (db_copies d) of
        None \<Rightarrow> (Inl (Conflict ''COPY_CONFLICT''), d)
      | Some c0 \<Rightarrow>
          (Inr (honored_outcome out c0, cp_host c0),
           update_copies sel
             (\<lambda>c. c\<lparr>cp_outcome := Some (honored_outcome out c), cp_outcome_at := Some (db_now d),
                    cp_result := (case result_id of None \<Rightarrow> cp_result c | Some r \<Rightarrow> Some r),
                    cp_reason := bounded_outcome_reason reason\<rparr>) d))"

definition expire_live_copies :: "uid \<Rightarrow> outcome \<Rightarrow> (db, int) op" where
  "expire_live_copies u out d =
     (let sel = (\<lambda>c. cp_unit c = u \<and> cp_outcome c = None) in
      (Inr (count_if sel (db_copies d)),
       update_copies sel (\<lambda>c. c\<lparr>cp_outcome := Some out, cp_outcome_at := Some (db_now d)\<rparr>) d))"

subsection \<open>Sweeps\<close>

definition copy_expired :: "time \<Rightarrow> unit_copy \<Rightarrow> bool" where
  "copy_expired now c \<longleftrightarrow>
     cp_outcome c = None \<and>
     (case cp_started_at c of
        Some t \<Rightarrow> cp_deadline_seconds c > 0 \<and> now - t > cp_deadline_seconds c
      | None \<Rightarrow> (case cp_reserved_until c of None \<Rightarrow> False | Some t \<Rightarrow> t < now))"

definition find_expired_copies :: "nat \<Rightarrow> db \<Rightarrow> unit_copy list" where
  "find_expired_copies limit d = take limit (sort_key cp_assigned_at (filter (copy_expired (db_now d)) (db_copies d)))"

definition released_not_held_reason :: string where
  "released_not_held_reason = ''not in the machine's held report''"

definition stale_held :: "uid \<Rightarrow> uid list \<Rightarrow> time \<Rightarrow> unit_copy \<Rightarrow> bool" where
  "stale_held host held older_than c \<longleftrightarrow>
     (case cp_host c of None \<Rightarrow> cp_volunteer c | Some h \<Rightarrow> h) = host \<and>
     cp_outcome c = None \<and> cp_created_at c < older_than \<and>
     (held = [] \<or> cp_unit c \<notin> set held)"

definition release_stale_held_copies :: "uid \<Rightarrow> uid list \<Rightarrow> time \<Rightarrow> (db, (uid \<times> bool) list) op" where
  "release_stale_held_copies host held older_than d =
     (Inr (map (\<lambda>c. (cp_unit c, cp_started_at c \<noteq> None)) (filter (stale_held host held older_than) (db_copies d))),
      update_copies (stale_held host held older_than)
        (\<lambda>c. c\<lparr>cp_outcome := Some (if cp_started_at c = None then OutReturned else OutAbandoned),
               cp_outcome_at := Some (db_now d), cp_reason := Some released_not_held_reason\<rparr>) d)"

text \<open>\<open>ReserveNextAssignable\<close> once a unit has been selected: it is held until its own deadline.\<close>

definition reserve_selected ::
  "uid \<Rightarrow> work_unit option \<Rightarrow> uid \<Rightarrow> uid option \<Rightarrow> int \<Rightarrow> (db, work_unit option) op" where
  "reserve_selected i selected v host lease d =
     (case selected of
        None \<Rightarrow> (Inr None, d)
      | Some w \<Rightarrow>
          (let hold = (if wu_deadline_seconds w > 0 then wu_deadline_seconds w else lease) in
           case reserve_copy i (wu_id w) v host (db_now d + hold) (wu_deadline_seconds w) d of
             (Inl e, d') \<Rightarrow> (Inl e, d')
           | (Inr _, d') \<Rightarrow> (Inr (Some w), d')))"

subsection \<open>The assignment history\<close>

definition find_active :: "uid \<Rightarrow> uid \<Rightarrow> db \<Rightarrow> unit_copy option" where
  "find_active u v d = find (\<lambda>c. cp_unit c = u \<and> cp_volunteer c = v \<and> cp_outcome c = None) (db_copies d)"

definition find_latest :: "uid \<Rightarrow> uid \<Rightarrow> db \<Rightarrow> unit_copy option" where
  "find_latest u v d =
     (case sort_key (\<lambda>c. - cp_assigned_at c) (sort_key (\<lambda>c. - cp_created_at c)
             (filter (\<lambda>c. cp_unit c = u \<and> cp_volunteer c = v) (db_copies d))) of
        [] \<Rightarrow> None | c # _ \<Rightarrow> Some c)"

definition update_outcome :: "uid \<Rightarrow> outcome \<Rightarrow> uid option \<Rightarrow> (db, unit) op" where
  "update_outcome i out result_id d =
     (let sel = (\<lambda>c. cp_id c = i);
          d' = update_copies sel (\<lambda>c. c\<lparr>cp_outcome := Some out, cp_outcome_at := Some (db_now d),
                                         cp_result := result_id\<rparr>) d in
      if count_if sel (db_copies d) = 0 then (Inl (NotFound ''assignment_history''), d') else (Inr (), d'))"

subsection \<open>One principal, one slot\<close>

definition live_subjects :: "uid \<Rightarrow> db \<Rightarrow> string option list" where
  "live_subjects u d = map (\<lambda>c. subject_row d (cp_volunteer c)) (live_copies_of u d)"

definition pending_subjects :: "uid \<Rightarrow> db \<Rightarrow> string option list" where
  "pending_subjects u d = map (\<lambda>r. subject_row d (res_volunteer r)) (pending_of u d)"

definition slots_distinct :: "uid \<Rightarrow> db \<Rightarrow> bool" where
  "slots_distinct u d \<longleftrightarrow>
     distinct (live_subjects u d) \<and> set (live_subjects u d) \<inter> set (pending_subjects u d) = {}"

lemma counts_append_copy:
  assumes "cp_outcome c = None"
  shows "budget_copies_sql u (d\<lparr>db_copies := db_copies d @ [c]\<rparr>) =
      budget_copies_sql u d + (if cp_unit c = u then 1 else 0)"
    "error_copies_sql u (d\<lparr>db_copies := db_copies d @ [c]\<rparr>) = error_copies_sql u d"
  using assms by (simp_all add: budget_copies_sql_def error_copies_sql_def unstarted_abandoners_sql_def)

lemma reserve_copyD:
  assumes "reserve_copy i u v host ru dl d = (Inr c, d')"
  shows "reserve_guard d u v" "c = new_copy (db_now d) i u v host ru dl"
    "d' = d\<lparr>db_copies := db_copies d @ [c]\<rparr>"
  using assms by (auto simp: reserve_copy_def Let_def split: if_splits)

lemma reserve_guardD:
  assumes "reserve_guard d u v"
  obtains w lf vv where "find_unit u d = Some w" "db_leafs d (wu_leaf w) = Some lf" "db_volunteers d v = Some vv"
    "wu_state w = Queued" "caps_not_exhausted_sql w lf d"
    "\<And>r. r \<in> set (pending_of u d) \<Longrightarrow> subject_row d (res_volunteer r) \<noteq> Some (subject_expr_sql vv)"
    "\<And>c. c \<in> set (live_copies_of u d) \<Longrightarrow> subject_row d (cp_volunteer c) \<noteq> Some (subject_expr_sql vv)"
    "eff_standing (db_now d) vv \<noteq> standing_benched" "cooldown_guard_sql d w v"
  using assms unfolding reserve_guard_def
  by (force simp: pending_of_def live_copies_of_def cp_live_def standing_expr_sql_eq split: option.splits)

lemma slots_distinct_reserve:
  assumes "reserve_copy i u v host ru dl d = (Inr c, d')" "slots_distinct u d"
  shows "slots_distinct u d'"
proof -
  note D = reserve_copyD [OF assms(1)]
  obtain w lf vv where g: "db_volunteers d v = Some vv"
    "\<And>r. r \<in> set (pending_of u d) \<Longrightarrow> subject_row d (res_volunteer r) \<noteq> Some (subject_expr_sql vv)"
    "\<And>c. c \<in> set (live_copies_of u d) \<Longrightarrow> subject_row d (cp_volunteer c) \<noteq> Some (subject_expr_sql vv)"
    using reserve_guardD [OF D(1)] by metis
  have rows: "subject_row d' = subject_row d" "pending_of u d' = pending_of u d"
    "live_copies_of u d' = live_copies_of u d @ [c]"
    by (simp_all add: D(3) subject_row_def [abs_def] pending_of_def live_copies_of_def)
      (simp add: D(2) new_copy_def cp_live_def)
  have s: "subject_row d (cp_volunteer c) = Some (subject_expr_sql vv)"
    by (simp add: D(2) new_copy_def subject_row_def g(1))
  have "Some (subject_expr_sql vv) \<notin> set (live_subjects u d)" "Some (subject_expr_sql vv) \<notin> set (pending_subjects u d)"
    using g(2,3) by (auto simp: live_subjects_def pending_subjects_def) metis+
  then show ?thesis using assms(2) rows s
    by (auto simp: slots_distinct_def live_subjects_def pending_subjects_def)
qed

text \<open>C30. Landing a copy never gives one principal two slots of a unit: if the live copies of a unit are
  held by distinct trust subjects, none of which already authored a pending result, this still holds
  after a reservation; the reservation only succeeds for a queued unit within its copy budget and an
  account that is not benched, it spends exactly one copy of that budget without passing the ceiling,
  and a refused reservation changes nothing.\<close>

theorem reservation_keeps_principals_distinct:
  assumes "slots_distinct u d"
  shows "case reserve_copy i u v host ru dl d of
     (Inr c, d') \<Rightarrow>
       slots_distinct u d' \<and>
       (\<exists>w lf vv. find_unit u d = Some w \<and> wu_state w = Queued \<and> db_leafs d (wu_leaf w) = Some lf \<and>
          db_volunteers d v = Some vv \<and> eff_standing (db_now d) vv \<noteq> standing_benched \<and>
          budget_copies_sql u d' = budget_copies_sql u d + 1 \<and>
          budget_copies_sql u d' \<le> eff_max_total_sql w (leaf_validation_config lf) \<and>
          error_copies_sql u d' = error_copies_sql u d)
   | (Inl _, d') \<Rightarrow> d' = d"
proof (cases "reserve_copy i u v host ru dl d")
  case (Pair r d')
  show ?thesis
  proof (cases r)
    case (Inr c)
    with Pair have ok: "reserve_copy i u v host ru dl d = (Inr c, d')" by simp
    note D = reserve_copyD [OF ok]
    obtain w lf vv where g: "find_unit u d = Some w" "db_leafs d (wu_leaf w) = Some lf" "db_volunteers d v = Some vv"
      "wu_state w = Queued" "caps_not_exhausted_sql w lf d" "eff_standing (db_now d) vv \<noteq> standing_benched"
      using reserve_guardD [OF D(1)] by metis
    have "cp_outcome c = None" "cp_unit c = u" by (simp_all add: D(2) new_copy_def)
    then have "budget_copies_sql u d' = budget_copies_sql u d + 1" "error_copies_sql u d' = error_copies_sql u d"
      by (simp_all add: D(3) counts_append_copy)
    moreover have "budget_copies_sql u d < eff_max_total_sql w (leaf_validation_config lf)"
      using g(5) find_unit_id [OF g(1)] by (simp add: caps_not_exhausted_sql_def)
    ultimately show ?thesis using Pair Inr g slots_distinct_reserve [OF ok assms] by auto
  next
    case (Inl e)
    then show ?thesis using Pair by (auto simp: reserve_copy_def Let_def split: if_splits)
  qed
qed

theorem reservation_keeps_principals_distinct_witness:
  "let d = sample_db [queued_unit ''u'' ''l''] [reserved_copy ''c0'' ''u'' ''b''] []
   in fst (reserve_copy ''c1'' ''u'' ''a'' None 21700 21600 d) =
        Inr (new_copy 100 ''c1'' ''u'' ''a'' None 21700 21600) \<and>
      slots_distinct ''u'' (snd (reserve_copy ''c1'' ''u'' ''a'' None 21700 21600 d))"
proof -
  let ?d = "sample_db [queued_unit ''u'' ''l''] [reserved_copy ''c0'' ''u'' ''b''] []"
  have "slots_distinct ''u'' ?d"
    by (simp add: slots_distinct_def live_subjects_def pending_subjects_def pending_of_def sample_db_def live_copies_of_def)
  moreover have r: "reserve_copy ''c1'' ''u'' ''a'' None 21700 21600 ?d =
      (Inr (new_copy 100 ''c1'' ''u'' ''a'' None 21700 21600),
       ?d\<lparr>db_copies := db_copies ?d @ [new_copy 100 ''c1'' ''u'' ''a'' None 21700 21600]\<rparr>)"
    by (simp add: reserve_copy_def reserve_guard_def sample_db_def find_unit_def queued_unit_def reserved_copy_def
        active_leaf_def caps_not_exhausted_sql_def budget_copies_sql_def error_copies_sql_def keys_of_def
        unstarted_abandoners_sql_def eff_max_total_sql_def eff_max_error_sql_def eff_target_sql_def
        default_validation_config_simps subject_row_def subject_expr_sql_def ok_volunteer_def standing_expr_sql_def
        cooldown_guard_sql_def feasible_by_deadline_def benching_copy_def Let_def)
  ultimately show ?thesis
    using reservation_keeps_principals_distinct [where u = "''u''" and d = ?d and i = "''c1''" and v = "''a''"
        and host = None and ru = 21700 and dl = 21600]
    unfolding Let_def r by simp
qed

subsection \<open>Closing copies\<close>

lemma keys_of_snoc: "length (keys_of f (xs @ [x])) = length (keys_of f xs) + (if f x \<in> f ` set xs then 0 else 1)"
  by (simp add: length_keys_of insert_absorb)

lemma rune_cut_le: "rune_cut s n \<le> n"
  by (induction n) (auto intro: le_SucI)

lemma rune_cut_boundary: "rune_cut s n = 0 \<or> rune_start (s ! rune_cut s n)"
  by (induction n) auto

lemma rune_cut_last: "rune_cut s n < k \<Longrightarrow> k \<le> n \<Longrightarrow> \<not> rune_start (s ! k)"
proof (induction n)
  case (Suc n)
  then show ?case by (cases "k = Suc n") (auto split: if_splits)
qed simp

text \<open>The stored reason of a failure is bounded and never ends inside a character: it is absent for an
  empty text, otherwise the longest prefix of the client's text of at most 2048 bytes that stops where
  a rune starts, and it is the whole text when that fits.\<close>

theorem outcome_reason_bounded:
  "case bounded_outcome_reason reason of
     None \<Rightarrow> reason = ''''
   | Some s \<Rightarrow>
       (\<exists>n. s = take n reason \<and> n \<le> length reason \<and> length s \<le> 2048 \<and>
          (n = length reason \<or> n = 0 \<or> rune_start (reason ! n)) \<and>
          (length reason \<le> 2048 \<longrightarrow> n = length reason) \<and>
          (length reason > 2048 \<longrightarrow> (\<forall>k. n < k \<and> k \<le> 2048 \<longrightarrow> \<not> rune_start (reason ! k))))"
proof (cases "reason = ''''")
  case True
  then show ?thesis by (simp add: bounded_outcome_reason_def)
next
  case ne: False
  show ?thesis
  proof (cases "length reason > 2048")
    case False
    then show ?thesis using ne
      by (auto simp: bounded_outcome_reason_def max_outcome_reason_bytes_def intro!: exI [of _ "length reason"])
  next
    case True
    let ?n = "rune_cut reason 2048"
    have "bounded_outcome_reason reason = Some (take ?n reason)"
      using ne True by (simp add: bounded_outcome_reason_def max_outcome_reason_bytes_def)
    moreover have "?n \<le> 2048" by (rule rune_cut_le)
    moreover have "?n = 0 \<or> rune_start (reason ! ?n)" by (rule rune_cut_boundary)
    moreover have "\<forall>k. ?n < k \<and> k \<le> 2048 \<longrightarrow> \<not> rune_start (reason ! k)" using rune_cut_last by blast
    ultimately show ?thesis using True by (auto intro!: exI [of _ ?n])
  qed
qed

theorem outcome_reason_bounded_witness:
  "bounded_outcome_reason ''exit status 1'' = Some ''exit status 1''"
  using outcome_reason_bounded [of "''exit status 1''"] by (auto split: option.splits)

text \<open>One live copy of a volunteer, seen as the position it has in the table.\<close>

lemma close_by_volunteer_split:
  assumes "db_copies d = xs @ c # ys" "cp_unit c = u" "cp_volunteer c = v" "cp_outcome c = None"
    "\<forall>b\<in>set (xs @ ys). \<not> (cp_unit b = u \<and> cp_volunteer b = v \<and> cp_outcome b = None)"
  shows "close_copy_by_volunteer u v out rid reason d =
    (Inr (honored_outcome out c, cp_host c),
     d\<lparr>db_copies := xs @ c\<lparr>cp_outcome := Some (honored_outcome out c), cp_outcome_at := Some (db_now d),
                    cp_result := (case rid of None \<Rightarrow> cp_result c | Some r \<Rightarrow> Some r),
                    cp_reason := bounded_outcome_reason reason\<rparr> # ys\<rparr>)"
proof -
  let ?sel = "\<lambda>c. cp_unit c = u \<and> cp_volunteer c = v \<and> cp_outcome c = None"
  have idle: "update_where ?sel f zs = zs" if "\<forall>b\<in>set zs. \<not> ?sel b" for f zs
    unfolding update_where_def by (rule map_idI) (use that in auto)
  have none: "\<forall>b\<in>set xs. \<not> ?sel b" "\<forall>b\<in>set ys. \<not> ?sel b" using assms(5) by auto
  have f: "find ?sel (xs @ c # ys) = Some c"
    using none(1) assms(2-4) by (induction xs) auto
  have u: "update_where ?sel g (xs @ c # ys) = xs @ g c # ys" for g
    using none [THEN idle] assms(2-4) by (simp add: update_where_def)
  show ?thesis using f u by (simp add: close_copy_by_volunteer_def assms(1) update_copies_def)
qed

text \<open>A client cannot whitewash work it began: asking to close its copy as an un-run give-back is
  honoured only for a copy that never started, which then costs the unit one less copy of its budget
  and no error; a started copy closes ABANDONED instead, keeps its place in the budget, and counts as
  one more error of the unit.\<close>

theorem give_back_never_whitewashes:
  assumes "db_copies d = xs @ c # ys" "cp_unit c = u" "cp_volunteer c = v" "cp_outcome c = None"
    "\<forall>b\<in>set (xs @ ys). \<not> (cp_unit b = u \<and> cp_volunteer b = v \<and> cp_outcome b = None)"
  shows "case close_copy_by_volunteer u v OutReturned None reason d of
     (Inr (out, _), d') \<Rightarrow>
       find_active u v d' = None \<and>
       (if cp_started_at c = None
        then out = OutReturned \<and> budget_copies_sql u d' = budget_copies_sql u d - 1 \<and>
             error_copies_sql u d' = error_copies_sql u d
        else out = OutAbandoned \<and> budget_copies_sql u d' = budget_copies_sql u d \<and>
             error_copies_sql u d' = error_copies_sql u d + 1)
   | (Inl _, _) \<Rightarrow> False"
proof -
  note cl = close_by_volunteer_split [OF assms, of OutReturned None reason]
  have none: "\<forall>b\<in>set xs. \<not> (cp_unit b = u \<and> cp_volunteer b = v \<and> cp_outcome b = None)"
    "\<forall>b\<in>set ys. \<not> (cp_unit b = u \<and> cp_volunteer b = v \<and> cp_outcome b = None)"
    using assms(5) by auto
  show ?thesis
    unfolding cl using assms(1-4) none
    by (auto simp: honored_outcome_def budget_copies_sql_def error_copies_sql_def unstarted_abandoners_sql_def
        find_active_def find_None_iff)
qed

theorem give_back_never_whitewashes_witness:
  "let c = (reserved_copy ''c1'' ''u'' ''a'')\<lparr>cp_started_at := Some 50\<rparr>;
       d = sample_db [] [c] [];
       (r, d') = close_copy_by_volunteer ''u'' ''a'' OutReturned None '''' d
   in error_copies_sql ''u'' d = 0 \<and> error_copies_sql ''u'' d' = 1"
proof -
  let ?c = "(reserved_copy ''c1'' ''u'' ''a'')\<lparr>cp_started_at := Some 50\<rparr>"
  let ?d = "sample_db [] [?c] []"
  have h: "db_copies ?d = [] @ ?c # []" "cp_unit ?c = ''u''" "cp_volunteer ?c = ''a''" "cp_outcome ?c = None"
    "\<forall>b\<in>set ([] @ []). \<not> (cp_unit b = ''u'' \<and> cp_volunteer b = ''a'' \<and> cp_outcome b = None)"
    by (simp_all add: sample_db_def reserved_copy_def)
  have e: "error_copies_sql ''u'' ?d = 0"
    by (simp add: error_copies_sql_def unstarted_abandoners_sql_def sample_db_def reserved_copy_def keys_of_def)
  show ?thesis using give_back_never_whitewashes [OF h, of "''''"] e
    by (auto simp: Let_def reserved_copy_def split: prod.splits sum.splits)
qed

subsection \<open>Benches yield\<close>

text \<open>The post-failure bench never strands work and never spreads: it refuses an account only on a
  recent bad outcome of that same account's own copy of that unit, and once every such outcome is
  older than two minutes and the unit has no live copy, the account is admitted again.\<close>

theorem cooldown_is_local_and_yields:
  "(\<not> cooldown_guard_sql d w v \<longrightarrow>
      (\<exists>h\<in>set (db_copies d). cp_unit h = wu_id w \<and> cp_volunteer h = v \<and>
         cp_outcome h \<in> {Some OutExpired, Some OutAbandoned, Some OutReturned} \<and>
         (\<exists>t. cp_outcome_at h = Some t \<and> db_now d - t < max 600 (max 1 (wu_deadline_seconds w))))) \<and>
   (live_copies_of (wu_id w) d = [] \<longrightarrow>
    (\<forall>h\<in>set (db_copies d). cp_unit h = wu_id w \<and> cp_volunteer h = v \<longrightarrow>
       (\<forall>t. cp_outcome_at h = Some t \<longrightarrow> db_now d - t > 120)) \<longrightarrow>
    cooldown_guard_sql d w v)"
proof (intro conjI impI)
  assume "\<not> cooldown_guard_sql d w v"
  then obtain h where "h \<in> set (db_copies d)" "cp_unit h = wu_id w" "cp_volunteer h = v" "benching_copy (db_now d) w h"
    by (auto simp: cooldown_guard_sql_def)
  then show "\<exists>h\<in>set (db_copies d). cp_unit h = wu_id w \<and> cp_volunteer h = v \<and>
         cp_outcome h \<in> {Some OutExpired, Some OutAbandoned, Some OutReturned} \<and>
         (\<exists>t. cp_outcome_at h = Some t \<and> db_now d - t < max 600 (max 1 (wu_deadline_seconds w)))"
    by (intro bexI [of _ h]) (auto simp: benching_copy_def returned_reoffer_cooldown_seconds_def split: option.splits)
next
  assume live: "live_copies_of (wu_id w) d = []"
    and old: "\<forall>h\<in>set (db_copies d). cp_unit h = wu_id w \<and> cp_volunteer h = v \<longrightarrow>
       (\<forall>t. cp_outcome_at h = Some t \<longrightarrow> db_now d - t > 120)"
  have none: "\<not> (\<exists>c\<in>set (db_copies d). cp_unit c = wu_id w \<and> cp_outcome c = None)"
    using live by (auto simp: live_copies_of_def filter_empty_conv cp_live_def)
  have "pool_exhausted d (wu_id w) h"
    if h: "h \<in> set (db_copies d)" "cp_unit h = wu_id w" "cp_volunteer h = v" "benching_copy (db_now d) w h" for h
  proof -
    obtain t where t: "cp_outcome_at h = Some t" using h(4) by (cases "cp_outcome_at h") (simp_all add: benching_copy_def)
    then have "db_now d - t > 120" using old h(1-3) by blast
    then show ?thesis using t none by (simp add: pool_exhausted_def bench_pool_exhausted_grace_seconds_def)
  qed
  then show "cooldown_guard_sql d w v" unfolding cooldown_guard_sql_def by blast
qed

theorem cooldown_is_local_and_yields_witness:
  "let h = (reserved_copy ''c0'' ''u'' ''a'')\<lparr>cp_outcome := Some OutExpired, cp_outcome_at := Some (-50)\<rparr>
   in cooldown_guard_sql (sample_db [] [h] []) (queued_unit ''u'' ''l'') ''a''"
  using cooldown_is_local_and_yields [of "sample_db [] [(reserved_copy ''c0'' ''u'' ''a'')
      \<lparr>cp_outcome := Some OutExpired, cp_outcome_at := Some (-50)\<rparr>] []" "queued_unit ''u'' ''l''" "''a''"]
  by (simp add: sample_db_def reserved_copy_def queued_unit_def live_copies_of_def cp_live_def)

subsection \<open>Releasing what a machine no longer holds\<close>

lemma stale_held_live: "stale_held host held t c \<Longrightarrow> cp_live c"
  by (simp add: stale_held_def cp_live_def)

text \<open>After a held report only copies the machine holds, or fresh ones, are live on it.\<close>

lemma release_stale_held_effect:
  assumes "release_stale_held_copies host held t d = (r, d')" "c \<in> set (db_copies d')" "cp_live c"
    "(case cp_host c of None \<Rightarrow> cp_volunteer c | Some h \<Rightarrow> h) = host"
  shows "t \<le> cp_created_at c \<or> (held \<noteq> [] \<and> cp_unit c \<in> set held)"
proof -
  obtain f where d': "db_copies d' = update_where (stale_held host held t) f (db_copies d)"
    "\<And>b. \<not> cp_live (f b)"
    using assms(1) by (auto simp: release_stale_held_copies_def update_copies_def cp_live_def)
  then obtain b where "b \<in> set (db_copies d)" "c = (if stale_held host held t b then f b else b)"
    using assms(2) by (auto simp: set_update_where)
  then have "\<not> stale_held host held t c" using assms(3) d'(2) by (auto split: if_splits)
  then show ?thesis using assms(3,4) by (auto simp: stale_held_def cp_live_def)
qed

lemma find_expired_copies_sound:
  "c \<in> set (find_expired_copies n d) \<Longrightarrow> c \<in> set (db_copies d) \<and> copy_expired (db_now d) c"
  by (auto simp: find_expired_copies_def dest: in_set_takeD)

end
