(* ===== verification/ResultStore.thy ===== *)
theory ResultStore
  imports CopyStore
begin

text \<open>
  The result repository (\<open>result/pgx-repo.go\<close>), the credit ledger (\<open>credit/pgx-repo.go\<close>), and the
  submission of a result (\<open>server/volunteer-service.go\<close>, the transaction of \<open>SubmitResult\<close>, with
  the trust snapshot of \<open>server/trust_stamp.go\<close>).
\<close>

subsection \<open>Results\<close>

definition result_taken :: "db \<Rightarrow> uid \<Rightarrow> uid \<Rightarrow> bool" where
  "result_taken d u v \<longleftrightarrow> (\<exists>r\<in>set (db_results d). res_unit r = u \<and> res_volunteer r = v)"

text \<open>One result per unit and volunteer, whatever the status of the earlier one (the table's unique key).\<close>

definition create_result :: "result \<Rightarrow> (db, result) op" where
  "create_result r d =
     (if result_taken d (res_unit r) (res_volunteer r)
      then (Inl (Conflict ''result already exists for this work unit and volunteer''), d)
      else (Inr r, d\<lparr>db_results := db_results d @ [r]\<rparr>))"

definition list_by_work_unit :: "uid \<Rightarrow> db \<Rightarrow> result list" where
  "list_by_work_unit u d = sort_key res_submitted_at (results_of u d)"

definition update_validation_status :: "uid \<Rightarrow> validation_status \<Rightarrow> (db, unit) op" where
  "update_validation_status i st d =
     (let sel = (\<lambda>r. res_id r = i);
          d' = update_results sel (\<lambda>r. r\<lparr>res_status := st, res_validated_at := Some (db_now d)\<rparr>) d in
      if count_if sel (db_results d) = 0 then (Inl (NotFound ''result''), d') else (Inr (), d'))"

definition batch_update_validation_status :: "uid list \<Rightarrow> validation_status \<Rightarrow> (db, unit) op" where
  "batch_update_validation_status ids st d =
     (if ids = [] then (Inr (), d)
      else let sel = (\<lambda>r. res_id r \<in> set ids);
               d' = update_results sel (\<lambda>r. r\<lparr>res_status := st, res_validated_at := Some (db_now d)\<rparr>) d in
           if count_if sel (db_results d) \<noteq> int (length ids)
           then (Inl (Internal ''batch update: unexpected number of rows''), d') else (Inr (), d'))"

subsection \<open>Credit\<close>

text \<open>At most one entry per result; the table's \<open>granted_at\<close> and \<open>created_at\<close> default to now.\<close>

definition credit_taken :: "db \<Rightarrow> uid \<Rightarrow> bool" where
  "credit_taken d r \<longleftrightarrow> (\<exists>e\<in>set (db_ledger d). lg_result e = r)"

definition create_credit :: "ledger \<Rightarrow> (db, unit) op" where
  "create_credit e d =
     (if credit_taken d (lg_result e) then (Inl (Conflict ''credit already granted for this result''), d)
      else (Inr (), d\<lparr>db_ledger := db_ledger d @ [e\<lparr>lg_granted_at := db_now d\<rparr>]\<rparr>))"

definition credit_last_day :: "db \<Rightarrow> uid \<Rightarrow> f64" where
  "credit_last_day d v =
     sum_list (map lg_amount (filter (\<lambda>e. lg_volunteer e = v \<and> lg_granted_at e \<ge> db_now d - 86400) (db_ledger d)))"

definition create_capped :: "f64 \<Rightarrow> ledger \<Rightarrow> (db, bool) op" where
  "create_capped cap e d =
     (if \<not> credit_last_day d (lg_volunteer e) + lg_amount e \<le> cap then (Inr False, d)
      else if credit_taken d (lg_result e) then (Inl (Conflict ''credit already granted for this result''), d)
      else (Inr True, d\<lparr>db_ledger := db_ledger d @ [e\<lparr>lg_granted_at := db_now d\<rparr>]\<rparr>))"

subsection \<open>The trust snapshot\<close>

definition stamp_trust_snapshot :: "trust_table \<Rightarrow> volunteer option \<Rightarrow> uid \<Rightarrow> time \<Rightarrow> string \<times> int \<times> string" where
  "stamp_trust_snapshot trust vol vid now =
     (case vol of
        None \<Rightarrow> (subject_for_volunteer_id vid, 0, standing_ok)
      | Some v \<Rightarrow>
          (let standing = effective_standing (vol_standing v) (vol_benched_until v) now;
               subject = subject_for_volunteer v
           in if quorum_power_suppressed v now then (subject, 0, standing)
              else (subject, trust_get_score trust subject, standing)))"

subsection \<open>Submitting a result\<close>

record submission =
  su_unit :: uid
  su_volunteer :: uid
  su_output :: raw_output
  su_output_url :: string
  su_checksum :: string
  su_artifact_version :: "uid option"

datatype submit_outcome =
    SubmitAccepted uid bool
  | SubmitDuplicate
  | SubmitUnitNotFound
  | SubmitTooLate
  | SubmitNoAssignment
  | SubmitInternal

text \<open>The copy a submission is charged to: the live one, or under grace the last one, closed by a
  timeout or an abandonment.\<close>

definition submit_copy :: "work_unit \<Rightarrow> uid \<Rightarrow> db \<Rightarrow> submit_outcome + unit_copy" where
  "submit_copy w v d =
     (case find_active (wu_id w) v d of
        Some c \<Rightarrow> Inr c
      | None \<Rightarrow>
          (if wu_state w = Validated \<or> wu_state w = Failed then Inl SubmitTooLate
           else case find_latest (wu_id w) v d of
                  None \<Rightarrow> Inl SubmitNoAssignment
                | Some c \<Rightarrow>
                    (if cp_outcome c = Some OutExpired \<or> cp_outcome c = Some OutAbandoned then Inr c
                     else Inl SubmitNoAssignment)))"

definition submitted_result :: "uid \<Rightarrow> submission \<Rightarrow> unit_copy \<Rightarrow> db \<Rightarrow> result" where
  "submitted_result i s c d =
     (let (subject, score, standing) =
            stamp_trust_snapshot (db_trust d) (db_volunteers d (su_volunteer s)) (su_volunteer s) (db_now d)
      in \<lparr>res_id = i, res_unit = su_unit s, res_volunteer = su_volunteer s, res_output = su_output s,
          res_checksum = su_checksum s, res_verified_checksum = None,
          res_status = (if su_output_url s \<noteq> '''' then AwaitingContentVerification else Pending),
          res_artifact_version = su_artifact_version s, res_host = cp_host c,
          res_trust_subject = Some subject, res_trust_score = Some score, res_standing = Some standing,
          res_submitted_at = db_now d, res_validated_at = None\<rparr>)"

definition completion_quorum :: "work_unit \<Rightarrow> db \<Rightarrow> int" where
  "completion_quorum w d =
     (case db_leafs d (wu_leaf w) of None \<Rightarrow> 1 | Some lf \<Rightarrow> rp_min_quorum (resolve_policy lf w))"

text \<open>The inserting half of the transaction, once the copy is known and the unit is not terminal.\<close>

definition submit_record :: "uid \<Rightarrow> submission \<Rightarrow> work_unit \<Rightarrow> unit_copy \<Rightarrow> db \<Rightarrow> submit_outcome \<times> db" where
  "submit_record i s w c d =
     (let existing = count_pending_by_work_unit (su_unit s) d;
          delta = (if su_output_url s \<noteq> '''' then 0 else 1) in
      case create_result (submitted_result i s c d) d of
        (Inl _, _) \<Rightarrow> (SubmitDuplicate, d)
      | (Inr r, d1) \<Rightarrow>
          (case update_outcome (cp_id c) OutCompleted (Some (res_id r)) d1 of
             (Inl _, _) \<Rightarrow> (SubmitInternal, d)
           | (Inr _, d2) \<Rightarrow>
               (if existing + delta \<ge> completion_quorum w d
                then (SubmitAccepted i True, snd (mark_completed (su_unit s) d2))
                else (SubmitAccepted i False, d2))))"

definition submit_result :: "uid \<Rightarrow> submission \<Rightarrow> db \<Rightarrow> submit_outcome \<times> db" where
  "submit_result i s d =
     (case find_unit (su_unit s) d of
        None \<Rightarrow> (SubmitUnitNotFound, d)
      | Some w \<Rightarrow>
          (case submit_copy w (su_volunteer s) d of
             Inl out \<Rightarrow> (out, d)
           | Inr c \<Rightarrow>
               (if wu_state w = Validated \<or> wu_state w = Failed
                then (case update_outcome (cp_id c) OutSuperseded None d of
                        (Inl _, _) \<Rightarrow> (SubmitInternal, d)
                      | (Inr _, d') \<Rightarrow> (SubmitTooLate, d'))
                else submit_record i s w c d)))"

subsection \<open>The door of a finalized unit\<close>

definition terminal_clean :: "db \<Rightarrow> bool" where
  "terminal_clean d \<longleftrightarrow> (\<forall>w\<in>set (db_units d). is_terminal_state (wu_state w) \<longrightarrow> pending_of (wu_id w) d = [])"

definition units_distinct :: "db \<Rightarrow> bool" where
  "units_distinct d \<longleftrightarrow> distinct (map wu_id (db_units d))"

lemma mark_completed_eq:
  "snd (mark_completed i d) = update_units (\<lambda>x. wu_id x = i \<and> wu_state x \<in> {Queued, Assigned, Running})
        (\<lambda>x. x\<lparr>wu_state := Completed,
               wu_started_at := (case wu_started_at x of None \<Rightarrow> Some (db_now d) | Some t \<Rightarrow> Some t),
               wu_completed_at := Some (db_now d)\<rparr>) d"
  by (simp add: mark_completed_def)

lemma units_update_units:
  "x \<in> set (db_units (update_units P f d)) \<longleftrightarrow>
     (\<exists>y\<in>set (db_units d). x = (if P y then (f y)\<lparr>wu_updated_at := db_now d\<rparr> else y))"
  by (auto simp: update_units_def set_update_where)

lemma terminal_clean_mark_completed:
  "terminal_clean d \<Longrightarrow> terminal_clean (snd (mark_completed i d))"
  unfolding terminal_clean_def mark_completed_eq
  by (auto simp: units_update_units is_terminal_state_def split: if_splits)

lemma pending_of_add:
  "pending_of u (d\<lparr>db_results := db_results d @ [r]\<rparr>) =
     pending_of u d @ (if res_unit r = u \<and> res_status r = Pending then [r] else [])"
  by (simp add: pending_of_def)

lemma terminal_clean_add_result:
  assumes "terminal_clean d" "units_distinct d" "find_unit (res_unit r) d = Some w" "\<not> is_terminal_state (wu_state w)"
  shows "terminal_clean (d\<lparr>db_results := db_results d @ [r]\<rparr>)"
proof -
  have "x = w" if "x \<in> set (db_units d)" "wu_id x = res_unit r" for x
    using distinct_units_find [of d x "res_unit r"] that assms(2,3) by (simp add: units_distinct_def)
  then show ?thesis using assms(1,4) unfolding terminal_clean_def pending_of_add by auto
qed

lemma terminal_clean_update_copies [simp]:
  "terminal_clean (update_copies P f d) = terminal_clean d"
  by (simp add: terminal_clean_def)

lemma update_outcome_db: "snd (update_outcome i out r d) =
    update_copies (\<lambda>c. cp_id c = i) (\<lambda>c. c\<lparr>cp_outcome := Some out, cp_outcome_at := Some (db_now d), cp_result := r\<rparr>) d"
  by (simp add: update_outcome_def Let_def)

lemma submitted_result_simps [simp]:
  "res_unit (submitted_result i s c d) = su_unit s" "res_volunteer (submitted_result i s c d) = su_volunteer s"
  "res_id (submitted_result i s c d) = i"
  "res_status (submitted_result i s c d) = (if su_output_url s \<noteq> '''' then AwaitingContentVerification else Pending)"
  by (simp_all add: submitted_result_def case_prod_unfold Let_def)

lemma submit_record_cases:
  obtains (dup) "result_taken d (su_unit s) (su_volunteer s)" "submit_record i s w c d = (SubmitDuplicate, d)"
  | (int) "submit_record i s w c d = (SubmitInternal, d)"
  | (ok) d2 where "\<not> result_taken d (su_unit s) (su_volunteer s)"
      "d2 = update_copies (\<lambda>b. cp_id b = cp_id c)
         (\<lambda>b. b\<lparr>cp_outcome := Some OutCompleted, cp_outcome_at := Some (db_now d), cp_result := Some i\<rparr>)
         (d\<lparr>db_results := db_results d @ [submitted_result i s c d]\<rparr>)"
      "submit_record i s w c d =
        (if count_pending_by_work_unit (su_unit s) d + (if su_output_url s \<noteq> '''' then 0 else 1) \<ge> completion_quorum w d
         then (SubmitAccepted i True, snd (mark_completed (su_unit s) d2)) else (SubmitAccepted i False, d2))"
proof (cases "result_taken d (su_unit s) (su_volunteer s)")
  case True
  then show ?thesis by (intro dup) (simp_all add: submit_record_def create_result_def)
next
  case False
  let ?d1 = "d\<lparr>db_results := db_results d @ [submitted_result i s c d]\<rparr>"
  have cr: "create_result (submitted_result i s c d) d = (Inr (submitted_result i s c d), ?d1)"
    using False by (simp add: create_result_def)
  show ?thesis
  proof (cases "update_outcome (cp_id c) OutCompleted (Some i) ?d1")
    case (Pair o1 d2)
    have d2: "d2 = update_copies (\<lambda>b. cp_id b = cp_id c)
         (\<lambda>b. b\<lparr>cp_outcome := Some OutCompleted, cp_outcome_at := Some (db_now d), cp_result := Some i\<rparr>) ?d1"
      using update_outcome_db [of "cp_id c" OutCompleted "Some i" ?d1] Pair by simp
    show ?thesis
    proof (cases o1)
      case (Inl e)
      then show ?thesis using cr Pair by (intro int) (simp add: submit_record_def)
    next
      case (Inr x)
      then show ?thesis using cr Pair False d2 by (intro ok [of d2]) (simp_all add: submit_record_def Let_def)
    qed
  qed
qed

lemma find_unit_add_result [simp]: "find_unit i (d\<lparr>db_results := rs\<rparr>) = find_unit i d"
  by (simp add: find_unit_def)

lemma find_unit_terminal_in:
  "terminal_clean d \<Longrightarrow> find_unit i d = Some w \<Longrightarrow> is_terminal_state (wu_state w) \<Longrightarrow> pending_of i d = []"
  using find_unit_in [of i d w] find_unit_id [of i d w] by (auto simp: terminal_clean_def)

text \<open>C31. The submission door never strands a result: if no finalized unit holds a pending result, this is
  still so after any submission; a submission for a finalized unit is refused without adding a result,
  and the volunteer's live copy is closed so that it is not later charged as a timeout; a refused
  submission otherwise leaves the database as it was.\<close>

theorem submission_never_strands_a_result:
  assumes "terminal_clean d" "units_distinct d"
  shows "case submit_result i s d of (out, d') \<Rightarrow>
     terminal_clean d' \<and>
     (case find_unit (su_unit s) d of
        None \<Rightarrow> out = SubmitUnitNotFound \<and> d' = d
      | Some w \<Rightarrow>
          (is_terminal_state (wu_state w) \<longrightarrow>
             db_results d' = db_results d \<and> (out = SubmitTooLate \<or> out = SubmitInternal)) \<and>
          (\<not> is_terminal_state (wu_state w) \<longrightarrow>
             (\<exists>r done. out = SubmitAccepted r done) \<or> d' = d))"
proof (cases "find_unit (su_unit s) d")
  case None
  then show ?thesis using assms(1) by (simp add: submit_result_def)
next
  case (Some w)
  show ?thesis
  proof (cases "submit_copy w (su_volunteer s) d")
    case (Inl out)
    then have "submit_result i s d = (out, d)" using Some by (simp add: submit_result_def)
    moreover have "is_terminal_state (wu_state w) \<longrightarrow> out = SubmitTooLate"
      using Inl by (auto simp: submit_copy_def is_terminal_state_def split: option.splits if_splits)
    ultimately show ?thesis using assms(1) Some by simp
  next
    case (Inr c)
    show ?thesis
    proof (cases "is_terminal_state (wu_state w)")
      case True
      obtain o1 d1 where u: "update_outcome (cp_id c) OutSuperseded None d = (o1, d1)"
        by (cases "update_outcome (cp_id c) OutSuperseded None d")
      have "d1 = update_copies (\<lambda>b. cp_id b = cp_id c)
          (\<lambda>b. b\<lparr>cp_outcome := Some OutSuperseded, cp_outcome_at := Some (db_now d), cp_result := None\<rparr>) d"
        using update_outcome_db [of "cp_id c" OutSuperseded None d] u by simp
      then have "terminal_clean d1" "db_results d1 = db_results d" using assms(1) by simp_all
      then show ?thesis using Some Inr True u assms(1)
        by (cases o1) (simp_all add: submit_result_def is_terminal_state_def)
    next
      case False
      then have res: "submit_result i s d = submit_record i s w c d"
        using Some Inr by (simp add: submit_result_def is_terminal_state_def)
      have tc: "terminal_clean (d\<lparr>db_results := db_results d @ [submitted_result i s c d]\<rparr>)"
        by (rule terminal_clean_add_result [OF assms(1,2)]) (use Some False in simp_all)
      show ?thesis
        by (cases rule: submit_record_cases [of d s i w c])
          (use res tc Some False assms(1) terminal_clean_mark_completed in auto)
    qed
  qed
qed

theorem submission_never_strands_a_result_witness:
  "let d = sample_db [(queued_unit ''u'' ''l'')\<lparr>wu_state := Validated\<rparr>] [reserved_copy ''c0'' ''u'' ''a''] [];
       s = \<lparr>su_unit = ''u'', su_volunteer = ''a'', su_output = OutputDoc JNull, su_output_url = '''',
            su_checksum = ''x'', su_artifact_version = None\<rparr>
   in db_results (snd (submit_result ''r1'' s d)) = []"
proof -
  let ?d = "sample_db [(queued_unit ''u'' ''l'')\<lparr>wu_state := Validated\<rparr>] [reserved_copy ''c0'' ''u'' ''a''] []"
  let ?s = "\<lparr>su_unit = ''u'', su_volunteer = ''a'', su_output = OutputDoc JNull, su_output_url = '''',
            su_checksum = ''x'', su_artifact_version = None\<rparr>"
  have h: "terminal_clean ?d" "units_distinct ?d"
    by (simp_all add: terminal_clean_def units_distinct_def sample_db_def pending_of_def)
  have f: "find_unit (su_unit ?s) ?d = Some ((queued_unit ''u'' ''l'')\<lparr>wu_state := Validated\<rparr>)"
    by (simp add: find_unit_def sample_db_def queued_unit_def)
  have "db_results (snd (submit_result ''r1'' ?s ?d)) = db_results ?d"
    using submission_never_strands_a_result [OF h, where i = "''r1''" and s = ?s] unfolding f
    by (simp add: is_terminal_state_def split: prod.splits)
  then show ?thesis unfolding Let_def by (simp add: sample_db_def)
qed

subsection \<open>A second result of the same account\<close>

text \<open>C40. The landing gate and the submission door disagree on who may serve a unit again. The gate bars an
  account only while its earlier result is pending; the results table admits one result per unit and
  account forever. So an account whose result was adjudicated (rejected, say) can be handed the requeued
  unit again, and whatever it then submits is refused as a duplicate with its copy left live.\<close>

theorem readmitted_volunteer_cannot_submit:
  assumes "find_unit (su_unit s) d = Some w" "\<not> is_terminal_state (wu_state w)"
    "result_taken d (su_unit s) (su_volunteer s)"
    "reserve_copy i (su_unit s) (su_volunteer s) host ru dl d = (Inr c, d')"
  shows "submit_result r s d' = (SubmitDuplicate, d') \<and>
         find_active (su_unit s) (su_volunteer s) d' \<noteq> None"
proof -
  note D = reserve_copyD [OF assms(4)]
  have w: "wu_id w = su_unit s" using find_unit_id [OF assms(1)] .
  have f: "find_unit (su_unit s) d' = Some w" using assms(1) by (simp add: D(3) find_unit_def)
  have act: "find_active (su_unit s) (su_volunteer s) d' \<noteq> None"
    unfolding find_active_def find_None_iff D(3) by (simp, rule exI [of _ c]) (simp add: D(2) new_copy_def)
  then obtain b where "submit_copy w (su_volunteer s) d' = Inr b" by (auto simp: submit_copy_def w)
  moreover have "result_taken d' (su_unit s) (su_volunteer s)"
    using assms(3) by (simp add: D(3) result_taken_def)
  then have "submit_record r s w b d' = (SubmitDuplicate, d')"
    by (simp add: submit_record_def create_result_def)
  ultimately show ?thesis using f act assms(2) by (simp add: submit_result_def is_terminal_state_def)
qed

theorem readmitted_volunteer_cannot_submit_witness:
  "let d = sample_db [queued_unit ''u'' ''l''] [] [(ok_result ''r0'' ''a'' ''x'')\<lparr>res_status := Disagreed\<rparr>];
       s = \<lparr>su_unit = ''u'', su_volunteer = ''a'', su_output = OutputDoc JNull, su_output_url = '''',
            su_checksum = ''x'', su_artifact_version = None\<rparr>;
       d' = snd (reserve_copy ''c1'' ''u'' ''a'' None 21700 21600 d)
   in is_ok (fst (reserve_copy ''c1'' ''u'' ''a'' None 21700 21600 d)) \<and>
      fst (submit_result ''r1'' s d') = SubmitDuplicate"
proof -
  let ?d = "sample_db [queued_unit ''u'' ''l''] [] [(ok_result ''r0'' ''a'' ''x'')\<lparr>res_status := Disagreed\<rparr>]"
  let ?s = "\<lparr>su_unit = ''u'', su_volunteer = ''a'', su_output = OutputDoc JNull, su_output_url = '''',
            su_checksum = ''x'', su_artifact_version = None\<rparr>"
  have r: "reserve_copy ''c1'' ''u'' ''a'' None 21700 21600 ?d =
      (Inr (new_copy 100 ''c1'' ''u'' ''a'' None 21700 21600),
       ?d\<lparr>db_copies := db_copies ?d @ [new_copy 100 ''c1'' ''u'' ''a'' None 21700 21600]\<rparr>)"
    by (simp add: reserve_copy_def reserve_guard_def sample_db_def find_unit_def queued_unit_def ok_result_def
        active_leaf_def caps_not_exhausted_sql_def budget_copies_sql_def error_copies_sql_def keys_of_def
        unstarted_abandoners_sql_def eff_max_total_sql_def eff_max_error_sql_def eff_target_sql_def
        default_validation_config_simps subject_row_def subject_expr_sql_def ok_volunteer_def standing_expr_sql_def
        cooldown_guard_sql_def feasible_by_deadline_def benching_copy_def Let_def)
  have h: "find_unit (su_unit ?s) ?d = Some (queued_unit ''u'' ''l'')" "\<not> is_terminal_state (wu_state (queued_unit ''u'' ''l''))"
    "result_taken ?d (su_unit ?s) (su_volunteer ?s)"
    by (simp_all add: find_unit_def sample_db_def queued_unit_def is_terminal_state_def result_taken_def ok_result_def)
  have "submit_result ''r1'' ?s (snd (reserve_copy ''c1'' ''u'' ''a'' None 21700 21600 ?d)) =
      (SubmitDuplicate, snd (reserve_copy ''c1'' ''u'' ''a'' None 21700 21600 ?d))"
    using readmitted_volunteer_cannot_submit [OF h, of "''c1''" None 21700 21600
        "new_copy 100 ''c1'' ''u'' ''a'' None 21700 21600" _ "''r1''"] r by simp
  then show ?thesis unfolding Let_def using r by simp
qed

subsection \<open>The daily cap\<close>

lemma sum_list_filter_snoc:
  "sum_list (map f (filter P (xs @ [x]))) = sum_list (map f (filter P xs)) + (if P x then f x else (0::rat))"
  by simp

text \<open>Credit is granted once per result and, under a daily cap, never past it: a capped grant that
  succeeds leaves the account's credit of the last day at or below the cap, a suppressed one leaves the
  ledger alone, and either way no result is credited twice.\<close>

theorem capped_credit_respects_cap:
  assumes "distinct (map lg_result (db_ledger d))"
  shows "case create_capped cap e d of
     (Inr True, d') \<Rightarrow>
        credit_last_day d' (lg_volunteer e) \<le> cap \<and>
        credit_last_day d' (lg_volunteer e) = credit_last_day d (lg_volunteer e) + lg_amount e \<and>
        distinct (map lg_result (db_ledger d'))
   | (Inr False, d') \<Rightarrow> d' = d \<and> credit_last_day d (lg_volunteer e) + lg_amount e > cap
   | (Inl _, d') \<Rightarrow> d' = d \<and> credit_taken d (lg_result e)"
proof -
  let ?d' = "d\<lparr>db_ledger := db_ledger d @ [e\<lparr>lg_granted_at := db_now d\<rparr>]\<rparr>"
  have sum: "credit_last_day ?d' (lg_volunteer e) = credit_last_day d (lg_volunteer e) + lg_amount e"
    unfolding credit_last_day_def by (simp add: sum_list_filter_snoc)
  have dis: "\<not> credit_taken d (lg_result e) \<Longrightarrow> distinct (map lg_result (db_ledger ?d'))"
    using assms by (auto simp: credit_taken_def)
  consider (over) "\<not> credit_last_day d (lg_volunteer e) + lg_amount e \<le> cap"
    | (taken) "credit_last_day d (lg_volunteer e) + lg_amount e \<le> cap" "credit_taken d (lg_result e)"
    | (fresh) "credit_last_day d (lg_volunteer e) + lg_amount e \<le> cap" "\<not> credit_taken d (lg_result e)" by blast
  then show ?thesis
  proof cases
    case over
    then show ?thesis by (simp add: create_capped_def)
  next
    case taken
    then show ?thesis by (simp add: create_capped_def)
  next
    case fresh
    then have "create_capped cap e d = (Inr True, ?d')" by (simp add: create_capped_def)
    then show ?thesis using sum dis fresh by simp
  qed
qed

theorem capped_credit_respects_cap_witness:
  "let e = \<lparr>lg_volunteer = ''a'', lg_leaf = ''l'', lg_unit = ''u'', lg_result = ''r'', lg_amount = 3, lg_granted_at = 0\<rparr>;
       d = sample_db [] [] []
   in create_capped 5 e d = (Inr True, snd (create_capped 5 e d)) \<and> credit_last_day (snd (create_capped 5 e d)) ''a'' \<le> 5"
proof -
  let ?e = "\<lparr>lg_volunteer = ''a'', lg_leaf = ''l'', lg_unit = ''u'', lg_result = ''r'', lg_amount = 3, lg_granted_at = 0\<rparr>"
  let ?d = "sample_db [] [] []"
  have "distinct (map lg_result (db_ledger ?d))" by (simp add: sample_db_def)
  moreover have "create_capped 5 ?e ?d = (Inr True, ?d\<lparr>db_ledger := [?e\<lparr>lg_granted_at := 100\<rparr>]\<rparr>)"
    by (simp add: create_capped_def credit_last_day_def credit_taken_def sample_db_def)
  ultimately show ?thesis using capped_credit_respects_cap [where d = ?d and cap = 5 and e = ?e] unfolding Let_def by simp
qed

end
