(* ===== verification/Finalize.thy ===== *)
theory Finalize
  imports ResultStore
begin

text \<open>
  The engine's half of a decision (\<open>validation/engine.go\<close>, \<open>validation/txrunner.go\<close>): the
  transaction that accepts or rejects a pending set (marks, state flip, credit or requeue), and the
  effects on accounts that follow its commit: the standing signal, the machine reliability signal and
  the accrual of trust. Not modelled of those effects: attestations, the recent-average-credit cache,
  the lifetime counters, the audit sample and the log lines.
\<close>

subsection \<open>The engine's configuration\<close>

text \<open>
  \<open>en_runner_subjects\<close> is what the trusted-runner registry answers, None when there is no registry
  or its query failed; \<open>en_backpressure\<close> is None when the standing machine is disabled; the two decay
  functions are the database's exponentials.
\<close>

record engine =
  en_trust_policy :: trust_policy
  en_emission_cap :: f64
  en_backpressure :: "backpressure_config option"
  en_runner_subjects :: "string list option"
  en_rejection_decay :: "int \<Rightarrow> f64"
  en_reliability_decay :: "int \<Rightarrow> f64"

subsection \<open>The finalization transaction\<close>

definition run_finalization :: "uid \<Rightarrow> int \<Rightarrow> (db, 'a) op \<Rightarrow> (db, 'a) op" where
  "run_finalization i raw_pending fn =
     in_tx (\<lambda>d. if count_pending_by_work_unit i d \<noteq> raw_pending then (Inl StaleSnapshot, d) else fn d)"

definition credit_amount :: "leaf \<Rightarrow> f64" where
  "credit_amount lf = (if leaf_credit_per_unit lf \<le> 0 then 1 else leaf_credit_per_unit lf)"

definition credit_entry :: "work_unit \<Rightarrow> f64 \<Rightarrow> result \<Rightarrow> ledger" where
  "credit_entry w amount r =
     \<lparr>lg_volunteer = res_volunteer r, lg_leaf = wu_leaf w, lg_unit = wu_id w, lg_result = res_id r,
      lg_amount = amount, lg_granted_at = 0\<rparr>"

text \<open>The grant loop yields the results that were credited; a suppressed grant is skipped.\<close>

fun grant_credit :: "f64 \<Rightarrow> f64 \<Rightarrow> work_unit \<Rightarrow> result list \<Rightarrow> (db, uid list) op" where
  "grant_credit cap amount w [] = oreturn []"
| "grant_credit cap amount w (r # rs) =
     (if cap > 0 then
        obind (create_capped cap (credit_entry w amount r)) (\<lambda>inserted.
          obind (grant_credit cap amount w rs) (\<lambda>granted.
            oreturn (if inserted then res_id r # granted else granted)))
      else
        obind (create_credit (credit_entry w amount r)) (\<lambda>_.
          obind (grant_credit cap amount w rs) (\<lambda>granted. oreturn (res_id r # granted))))"

definition agreed_part :: "result list \<Rightarrow> result list \<Rightarrow> result list" where
  "agreed_part majority pending = filter (\<lambda>r. res_id r \<in> res_id ` set majority) pending"

definition rejected_part :: "result list \<Rightarrow> result list \<Rightarrow> result list" where
  "rejected_part majority pending = filter (\<lambda>r. res_id r \<notin> res_id ` set majority) pending"

text \<open>Rows the version filter kept out of the decision are disposed of, never compared.\<close>

definition supersede_residue :: "uid \<Rightarrow> int \<Rightarrow> result list \<Rightarrow> (db, unit) op" where
  "supersede_residue i raw_pending pending d =
     (if raw_pending > int (length pending) then
        let excluded = map res_id (filter (\<lambda>r. res_status r = Pending) (list_by_work_unit i d))
        in if excluded \<noteq> [] then batch_update_validation_status excluded Superseded d else (Inr (), d)
      else (Inr (), d))"

definition accept_tx :: "engine \<Rightarrow> work_unit \<Rightarrow> leaf \<Rightarrow> result list \<Rightarrow> result list \<Rightarrow> int \<Rightarrow> (db, uid list) op" where
  "accept_tx en w lf pending majority raw_pending =
     run_finalization (wu_id w) raw_pending (
       obind (batch_update_validation_status (map res_id (agreed_part majority pending)) Agreed) (\<lambda>_.
       obind (if rejected_part majority pending \<noteq> []
              then batch_update_validation_status (map res_id (rejected_part majority pending)) Disagreed
              else oreturn ()) (\<lambda>_.
       obind (supersede_residue (wu_id w) raw_pending pending) (\<lambda>_.
       obind (update_state (wu_id w) Completed Validated) (\<lambda>_.
       grant_credit (en_emission_cap en) (credit_amount lf) w (agreed_part majority pending))))))"

definition reject_tx :: "work_unit \<Rightarrow> result list \<Rightarrow> int \<Rightarrow> (db, bool) op" where
  "reject_tx w pending raw_pending =
     run_finalization (wu_id w) raw_pending (
       obind (batch_update_validation_status (map res_id pending) Disagreed) (\<lambda>_.
       obind (update_state (wu_id w) Completed Rejected) (\<lambda>_.
       obind (reassign (wu_id w)) (\<lambda>(_, requeued). oreturn requeued))))"

subsection \<open>Effects on accounts\<close>

definition record_adjudicated_db :: "engine \<Rightarrow> bool \<Rightarrow> result \<Rightarrow> db \<Rightarrow> db" where
  "record_adjudicated_db en agreed r d =
     (case en_backpressure en of
        None \<Rightarrow> d
      | Some c \<Rightarrow> d\<lparr>db_volunteers :=
          snd (record_adjudicated (en_rejection_decay en) c (db_now d) (res_volunteer r) agreed (db_volunteers d))\<rparr>)"

definition host_key :: "result \<Rightarrow> uid" where
  "host_key r = (case res_host r of None \<Rightarrow> res_volunteer r | Some h \<Rightarrow> h)"

definition record_reliability :: "engine \<Rightarrow> bool \<Rightarrow> result list \<Rightarrow> db \<Rightarrow> db" where
  "record_reliability en good rs d =
     d\<lparr>db_reliability := fold (\<lambda>r. record_outcome (en_reliability_decay en) (db_now d) (host_key r) good) rs
         (db_reliability d)\<rparr>"

fun score_add :: "string \<Rightarrow> int \<Rightarrow> (string \<times> int) list \<Rightarrow> (string \<times> int) list" where
  "score_add s sc [] = [(s, sc)]"
| "score_add s sc ((t, cur) # rest) =
     (if t = s then (t, if sc > cur then sc else cur) # rest else (t, cur) # score_add s sc rest)"

definition subject_scores :: "result list \<Rightarrow> (string \<times> int) list" where
  "subject_scores rs =
     fold (\<lambda>r acc. if standing_countable r then score_add (subject_for_result r) (score_for_result r) acc else acc) rs []"

definition accruing_subjects :: "int \<Rightarrow> string list option \<Rightarrow> result list \<Rightarrow> string list" where
  "accruing_subjects floor_score runners agreed =
     (let ss = subject_scores agreed;
          trusted = count_if (\<lambda>(s, sc). sc \<ge> floor_score) ss in
      if \<not> (trusted \<ge> 2 \<or> (trusted = 1 \<and> int (length ss) > trusted)) then []
      else
        let runner_set = (case runners of None \<Rightarrow> [] | Some rs \<Rightarrow> rs);
            registry_active = (runner_set \<noteq> []);
            trusted_runners =
              (if registry_active then count_if (\<lambda>(s, sc). sc \<ge> floor_score \<and> s \<in> set runner_set) ss else 0)
        in map fst (filter (\<lambda>(s, sc).
             let trusted_others = (if sc \<ge> floor_score then trusted - 1 else trusted);
                 runner_others = (if sc \<ge> floor_score \<and> s \<in> set runner_set then trusted_runners - 1
                                  else trusted_runners)
             in trusted_others \<ge> 1 \<and> (\<not> registry_active \<or> trusted_others \<ge> 2 \<or> runner_others \<ge> 1)) ss))"

definition accrual_floor :: "engine \<Rightarrow> leaf \<Rightarrow> work_unit \<Rightarrow> int" where
  "accrual_floor en lf w =
     (let vc = leaf_validation_config lf;
          quorum = (if wu_spot_check w then 2 else effective_min_quorum vc)
      in snd (resolve_trust (en_trust_policy en) vc quorum))"

definition accrue_trust :: "engine \<Rightarrow> leaf \<Rightarrow> work_unit \<Rightarrow> result list \<Rightarrow> db \<Rightarrow> db" where
  "accrue_trust en lf w agreed d =
     d\<lparr>db_trust := fold trust_accrue_clean_unit
         (accruing_subjects (accrual_floor en lf w) (en_runner_subjects en) agreed) (db_trust d)\<rparr>"

definition accept_effects :: "engine \<Rightarrow> work_unit \<Rightarrow> leaf \<Rightarrow> result list \<Rightarrow> result list \<Rightarrow> db \<Rightarrow> db" where
  "accept_effects en w lf agreed rejected =
     accrue_trust en lf w agreed \<circ>
     record_reliability en False rejected \<circ>
     record_reliability en True agreed \<circ>
     fold (record_adjudicated_db en False) rejected \<circ>
     fold (record_adjudicated_db en True) agreed"

definition accept_results ::
  "engine \<Rightarrow> work_unit \<Rightarrow> leaf \<Rightarrow> result list \<Rightarrow> result list \<Rightarrow> int \<Rightarrow> (db, uid list) op" where
  "accept_results en w lf pending majority raw_pending d =
     (case accept_tx en w lf pending majority raw_pending d of
        (Inl e, d') \<Rightarrow> (Inl e, d')
      | (Inr granted, d') \<Rightarrow>
          (Inr granted, accept_effects en w lf (agreed_part majority pending) (rejected_part majority pending) d'))"

definition reject_all :: "engine \<Rightarrow> work_unit \<Rightarrow> result list \<Rightarrow> int \<Rightarrow> (db, bool) op" where
  "reject_all en w pending raw_pending d =
     (case reject_tx w pending raw_pending d of
        (Inl e, d') \<Rightarrow> (Inl e, d')
      | (Inr requeued, d') \<Rightarrow>
          (Inr requeued, record_reliability en False pending (fold (record_adjudicated_db en False) pending d')))"

subsection \<open>What the marks leave\<close>

definition mark_row :: "time \<Rightarrow> uid set \<Rightarrow> validation_status \<Rightarrow> result \<Rightarrow> result" where
  "mark_row now ids st r = (if res_id r \<in> ids then r\<lparr>res_status := st, res_validated_at := Some now\<rparr> else r)"

lemma mark_row_simps [simp]:
  "res_id (mark_row now ids st r) = res_id r" "res_unit (mark_row now ids st r) = res_unit r"
  "res_volunteer (mark_row now ids st r) = res_volunteer r"
  "res_status (mark_row now ids st r) = (if res_id r \<in> ids then st else res_status r)"
  by (simp_all add: mark_row_def)

lemma mark_row_empty [simp]: "mark_row now {} st = (\<lambda>r. r)"
  by (simp add: mark_row_def [abs_def])

lemma batch_ok:
  assumes "batch_update_validation_status ids st d = (Inr u, d')"
  shows "d' = d\<lparr>db_results := map (mark_row (db_now d) (set ids) st) (db_results d)\<rparr>"
proof (cases "ids = []")
  case True
  then show ?thesis using assms by (simp add: batch_update_validation_status_def)
next
  case False
  then show ?thesis using assms
    by (auto simp: batch_update_validation_status_def Let_def update_results_def update_where_def mark_row_def
        split: if_splits)
qed

lemma batch_fail:
  "batch_update_validation_status ids st d = (Inl e, d') \<Longrightarrow>
     count_if (\<lambda>r. res_id r \<in> set ids) (db_results d) \<noteq> int (length ids)"
  by (auto simp: batch_update_validation_status_def Let_def split: if_splits)

definition results_distinct :: "db \<Rightarrow> bool" where
  "results_distinct d \<longleftrightarrow> distinct (map res_id (db_results d))"

lemma results_distinct_eq:
  "results_distinct d \<Longrightarrow> r \<in> set (db_results d) \<Longrightarrow> s \<in> set (db_results d) \<Longrightarrow> res_id r = res_id s \<Longrightarrow> r = s"
  by (auto simp: results_distinct_def distinct_map inj_on_def)

text \<open>The pending set a decision was taken on: rows of the unit that are pending, each once.\<close>

definition snapshot_of :: "uid \<Rightarrow> result list \<Rightarrow> db \<Rightarrow> bool" where
  "snapshot_of i pending d \<longleftrightarrow> set pending \<subseteq> set (pending_of i d) \<and> distinct (map res_id pending)"

definition final_status :: "result list \<Rightarrow> result list \<Rightarrow> result \<Rightarrow> validation_status" where
  "final_status majority pending r =
     (if res_id r \<notin> res_id ` set pending then Superseded
      else if res_id r \<in> res_id ` set majority then Agreed else Disagreed)"

definition adjudicate_row :: "time \<Rightarrow> uid \<Rightarrow> (result \<Rightarrow> validation_status) \<Rightarrow> result \<Rightarrow> result" where
  "adjudicate_row now i st r =
     (if res_unit r = i \<and> res_status r = Pending then r\<lparr>res_status := st r, res_validated_at := Some now\<rparr> else r)"

lemma pending_of_iff: "r \<in> set (pending_of i d) \<longleftrightarrow> r \<in> set (db_results d) \<and> res_unit r = i \<and> res_status r = Pending"
  by (auto simp: pending_of_def)

lemma snapshot_ofD:
  assumes "snapshot_of i pending d" "results_distinct d" "r \<in> set (db_results d)" "res_id r \<in> res_id ` set pending"
  shows "res_unit r = i" "res_status r = Pending" "r \<in> set pending"
proof -
  obtain p where p: "p \<in> set pending" "res_id r = res_id p" using assms(4) by blast
  then have "p \<in> set (pending_of i d)" using assms(1) by (auto simp: snapshot_of_def)
  then have "r = p" using results_distinct_eq [OF assms(2,3), of p] p(2) by (simp add: pending_of_iff)
  then show "res_unit r = i" "res_status r = Pending" "r \<in> set pending"
    using \<open>p \<in> set (pending_of i d)\<close> p(1) by (simp_all add: pending_of_iff)
qed

lemma distinct_pending_of: "results_distinct d \<Longrightarrow> distinct (map res_id (pending_of i d))"
  by (auto simp: results_distinct_def pending_of_def distinct_map_filter)

lemma snapshot_complete:
  assumes "snapshot_of i pending d" "results_distinct d" "\<not> int (length (pending_of i d)) > int (length pending)"
  shows "set pending = set (pending_of i d)"
proof (rule card_subset_eq)
  have "distinct pending" "distinct (pending_of i d)"
    using assms(1) distinct_pending_of [OF assms(2), of i] by (auto simp: snapshot_of_def distinct_map)
  then have c: "card (set pending) = length pending" "card (set (pending_of i d)) = length (pending_of i d)"
    by (simp_all add: distinct_card)
  have sub: "set pending \<subseteq> set (pending_of i d)" using assms(1) by (simp add: snapshot_of_def)
  show "card (set pending) = card (set (pending_of i d))"
    using card_mono [OF _ sub] c assms(3) by simp
  show "finite (set (pending_of i d))" by simp
  show "set pending \<subseteq> set (pending_of i d)" by (rule sub)
qed

text \<open>The three marks of an acceptance, row by row.\<close>

lemma mark_three:
  assumes "res_id r \<in> A \<longleftrightarrow> p \<and> m" "res_id r \<in> R \<longleftrightarrow> p \<and> \<not> m" "res_id r \<in> E \<longleftrightarrow> u \<and> \<not> p" "p \<longrightarrow> u"
  shows "mark_row n E Superseded (mark_row n R Disagreed (mark_row n A Agreed r)) =
    (if u then r\<lparr>res_status := (if \<not> p then Superseded else if m then Agreed else Disagreed),
                 res_validated_at := Some n\<rparr> else r)"
proof -
  consider "p" "m" "u" | "p" "\<not> m" "u" | "\<not> p" "u" | "\<not> p" "\<not> u" using assms(4) by blast
  then show ?thesis using assms(1-3) by cases (simp_all add: mark_row_def)
qed

lemma accept_marks:
  assumes "snapshot_of i pending d" "results_distinct d"
    and d2: "d2 = d\<lparr>db_results := map (mark_row n (set (map res_id (rejected_part majority pending))) Disagreed)
               (map (mark_row n (set (map res_id (agreed_part majority pending))) Agreed) (db_results d))\<rparr>"
    and n: "n = db_now d"
    and res: "supersede_residue i (count_pending_by_work_unit i d) pending d2 = (Inr u, d3)"
  shows "d3 = d\<lparr>db_results := map (adjudicate_row n i (final_status majority pending)) (db_results d)\<rparr>"
proof -
  let ?A = "set (map res_id (agreed_part majority pending))"
  let ?R = "set (map res_id (rejected_part majority pending))"
  let ?G = "\<lambda>r. mark_row n ?R Disagreed (mark_row n ?A Agreed r)"
  let ?P = "res_id ` set pending"
  have A: "?A = ?P \<inter> res_id ` set majority" by (auto simp: agreed_part_def)
  have R: "?R = ?P - res_id ` set majority" by (auto simp: rejected_part_def)
  from A R have AR: "?A \<union> ?R = ?P" "?A = ?P \<inter> res_id ` set majority" "?A \<inter> ?R = {}" by auto
  have rows2: "db_results d2 = map ?G (db_results d)" by (simp add: d2)
  have G: "res_status (?G r) = (if res_id r \<in> ?P then (if res_id r \<in> ?A then Agreed else Disagreed) else res_status r)" for r
    using AR by auto
  have snap: "res_unit r = i \<and> res_status r = Pending" if "r \<in> set (db_results d)" "res_id r \<in> ?P" for r
    using snapshot_ofD [OF assms(1,2)] that by blast
  have pend2: "set (map res_id (filter (\<lambda>r. res_status r = Pending) (list_by_work_unit i d2))) =
      res_id ` {r \<in> set (pending_of i d). res_id r \<notin> ?P}"
  proof -
    have "set (filter (\<lambda>r. res_status r = Pending) (list_by_work_unit i d2)) =
        ?G ` {r \<in> set (pending_of i d). res_id r \<notin> ?P}"
      using G by (auto simp: list_by_work_unit_def results_of_def rows2 pending_of_iff split: if_splits)
    then show ?thesis by (simp only: set_map image_image mark_row_simps)
  qed
  have d3: "db_results d3 = map (mark_row n (res_id ` {r \<in> set (pending_of i d). res_id r \<notin> ?P}) Superseded) (db_results d2)
      \<and> d3 = d2\<lparr>db_results := db_results d3\<rparr>"
  proof (cases "count_pending_by_work_unit i d > int (length pending) \<and>
      map res_id (filter (\<lambda>r. res_status r = Pending) (list_by_work_unit i d2)) \<noteq> []")
    case True
    then have "batch_update_validation_status
        (map res_id (filter (\<lambda>r. res_status r = Pending) (list_by_work_unit i d2))) Superseded d2 = (Inr (), d3)"
      using res by (simp add: supersede_residue_def Let_def)
    from batch_ok [OF this] have "d3 = d2\<lparr>db_results := map (mark_row (db_now d2)
        (set (map res_id (filter (\<lambda>r. res_status r = Pending) (list_by_work_unit i d2)))) Superseded) (db_results d2)\<rparr>" .
    then show ?thesis unfolding pend2 using n by (simp add: d2)
  next
    case False
    then have "supersede_residue i (count_pending_by_work_unit i d) pending d2 = (Inr (), d2)"
      by (auto simp: supersede_residue_def)
    then have d3: "d3 = d2" using res by simp
    have none: "res_id ` {r \<in> set (pending_of i d). res_id r \<notin> ?P} = {}"
    proof (cases "count_pending_by_work_unit i d > int (length pending)")
      case True
      then show ?thesis using False pend2 by simp
    next
      case False
      then have "set pending = set (pending_of i d)"
        using snapshot_complete [OF assms(1,2)] by (simp add: pending_of_length)
      then show ?thesis by auto
    qed
    show ?thesis unfolding d3 none by (simp add: mark_row_def)
  qed
  have "mark_row n (res_id ` {r \<in> set (pending_of i d). res_id r \<notin> ?P}) Superseded (?G r) =
      adjudicate_row n i (final_status majority pending) r" if r: "r \<in> set (db_results d)" for r
  proof -
    have E: "res_id r \<in> res_id ` {r \<in> set (pending_of i d). res_id r \<notin> ?P} \<longleftrightarrow>
        (res_unit r = i \<and> res_status r = Pending) \<and> res_id r \<notin> ?P"
      using results_distinct_eq [OF assms(2) r] r by (auto simp: pending_of_iff)
    have mA: "res_id r \<in> ?A \<longleftrightarrow> res_id r \<in> ?P \<and> res_id r \<in> res_id ` set majority" unfolding A by simp
    have mR: "res_id r \<in> ?R \<longleftrightarrow> res_id r \<in> ?P \<and> res_id r \<notin> res_id ` set majority" unfolding R by simp
    have "res_id r \<in> ?P \<longrightarrow> res_unit r = i \<and> res_status r = Pending" using snap [OF r] by blast
    from mark_three [OF mA mR E this, of n] show ?thesis by (simp only: adjudicate_row_def final_status_def)
  qed
  then have fin: "db_results d3 = map (adjudicate_row n i (final_status majority pending)) (db_results d)"
    using conjunct1 [OF d3] by (simp add: rows2)
  have "d3 = d2\<lparr>db_results := db_results d3\<rparr>" by (rule conjunct2 [OF d3])
  also have "\<dots> = d\<lparr>db_results := map (adjudicate_row n i (final_status majority pending)) (db_results d)\<rparr>"
    unfolding fin by (simp add: d2)
  finally show ?thesis .
qed

subsection \<open>Credit\<close>

text \<open>A grant only appends entries, for results of the list that were not credited before.\<close>

definition grows_ledger :: "work_unit \<Rightarrow> f64 \<Rightarrow> uid list \<Rightarrow> db \<Rightarrow> db \<Rightarrow> bool" where
  "grows_ledger w amount granted d d' \<longleftrightarrow>
     (\<exists>es. d' = d\<lparr>db_ledger := db_ledger d @ es\<rparr> \<and> map lg_result es = granted \<and>
        (\<forall>e\<in>set es. lg_amount e = amount \<and> lg_unit e = wu_id w) \<and>
        (\<forall>r\<in>set granted. \<not> credit_taken d r) \<and> distinct granted)"

lemma grows_ledger_refl: "grows_ledger w amount [] d d"
  by (auto simp: grows_ledger_def)

lemma grows_ledger_step:
  assumes "\<not> credit_taken d (res_id r)" "grows_ledger w amount granted
      (d\<lparr>db_ledger := db_ledger d @ [(credit_entry w amount r)\<lparr>lg_granted_at := db_now d\<rparr>]\<rparr>) d'"
  shows "grows_ledger w amount (res_id r # granted) d d'"
proof -
  obtain es where es: "d' = d\<lparr>db_ledger := (db_ledger d @ [(credit_entry w amount r)\<lparr>lg_granted_at := db_now d\<rparr>]) @ es\<rparr>"
    "map lg_result es = granted" "\<forall>e\<in>set es. lg_amount e = amount \<and> lg_unit e = wu_id w"
    "\<forall>q\<in>set granted. \<not> credit_taken d q \<and> q \<noteq> res_id r" "distinct granted"
    using assms(2) by (fastforce simp: grows_ledger_def credit_taken_def credit_entry_def)
  show ?thesis unfolding grows_ledger_def
    by (rule exI [of _ "(credit_entry w amount r)\<lparr>lg_granted_at := db_now d\<rparr> # es"])
      (use es assms(1) in \<open>auto simp: credit_entry_def\<close>)
qed

lemma grant_credit_grows:
  "grant_credit cap amount w rs d = (Inr granted, d') \<Longrightarrow>
     grows_ledger w amount granted d d' \<and> set granted \<subseteq> res_id ` set rs \<and>
     (\<not> cap > 0 \<longrightarrow> granted = map res_id rs)"
proof (induction rs arbitrary: d granted)
  case Nil
  then show ?case by (simp add: grows_ledger_refl)
next
  case (Cons r rs)
  show ?case
  proof (cases "cap > 0")
    case True
    with Cons.prems obtain ins d1 g where s:
      "create_capped cap (credit_entry w amount r) d = (Inr ins, d1)"
      "grant_credit cap amount w rs d1 = (Inr g, d')"
      "granted = (if ins then res_id r # g else g)"
      by (auto simp: obind_eq_Inr split: if_splits)
    note IH = Cons.IH [OF s(2)]
    show ?thesis
    proof (cases ins)
      case True
      then have "\<not> credit_taken d (res_id r)"
        "d1 = d\<lparr>db_ledger := db_ledger d @ [(credit_entry w amount r)\<lparr>lg_granted_at := db_now d\<rparr>]\<rparr>"
        using s(1) by (auto simp: create_capped_def credit_entry_def split: if_splits)
      then show ?thesis using IH True s(3) grows_ledger_step \<open>cap > 0\<close> by auto
    next
      case False
      then have "d1 = d" using s(1) by (auto simp: create_capped_def split: if_splits)
      then show ?thesis using IH False s(3) \<open>cap > 0\<close> by auto
    qed
  next
    case False
    with Cons.prems obtain d1 g where s:
      "create_credit (credit_entry w amount r) d = (Inr (), d1)"
      "grant_credit cap amount w rs d1 = (Inr g, d')" "granted = res_id r # g"
      by (auto simp: obind_eq_Inr split: if_splits)
    have "\<not> credit_taken d (res_id r)"
      "d1 = d\<lparr>db_ledger := db_ledger d @ [(credit_entry w amount r)\<lparr>lg_granted_at := db_now d\<rparr>]\<rparr>"
      using s(1) by (auto simp: create_credit_def credit_entry_def split: if_splits)
    then show ?thesis using Cons.IH [OF s(2)] s(3) grows_ledger_step False by auto
  qed
qed

subsection \<open>An acceptance is atomic\<close>

lemma find_unit_results [simp]: "find_unit i (d\<lparr>db_results := rs\<rparr>) = find_unit i d" by (rule find_unit_add_result)

lemma find_unit_ledger [simp]: "find_unit i (d\<lparr>db_ledger := es\<rparr>) = find_unit i d"
  by (simp add: find_unit_def)

lemma run_finalization_Inr:
  "run_finalization i n fn d = (Inr a, d') \<longleftrightarrow> count_pending_by_work_unit i d = n \<and> fn d = (Inr a, d')"
  by (auto simp: run_finalization_def in_tx_Inr)

lemma run_finalization_Inl: "run_finalization i n fn d = (Inl e, d') \<Longrightarrow> d' = d"
  unfolding run_finalization_def by (rule in_tx_Inl)

lemma run_finalization_stale:
  "count_pending_by_work_unit i d \<noteq> n \<Longrightarrow> run_finalization i n fn d = (Inl StaleSnapshot, d)"
  by (simp add: run_finalization_def in_tx_def)

lemma accept_tx_effect:
  assumes "accept_tx en w lf pending majority n d = (Inr granted, d')"
    "snapshot_of (wu_id w) pending d" "results_distinct d"
  obtains w1 where
    "count_pending_by_work_unit (wu_id w) d = n"
    "find_unit (wu_id w) d = Some w1" "wu_state w1 = Completed"
    "grows_ledger w (credit_amount lf) granted
      (moved_db (wu_id w) Completed Validated w1
        (d\<lparr>db_results := map (adjudicate_row (db_now d) (wu_id w) (final_status majority pending)) (db_results d)\<rparr>)) d'"
    "set granted \<subseteq> res_id ` set (agreed_part majority pending)"
    "\<not> en_emission_cap en > 0 \<longrightarrow> granted = map res_id (agreed_part majority pending)"
proof -
  let ?i = "wu_id w"
  let ?A = "map res_id (agreed_part majority pending)" and ?R = "map res_id (rejected_part majority pending)"
  obtain u1 d1 u2 d2 u3 d3 d4 w4 where s: "count_pending_by_work_unit ?i d = n"
    "batch_update_validation_status ?A Agreed d = (Inr u1, d1)"
    "(if rejected_part majority pending \<noteq> [] then batch_update_validation_status ?R Disagreed else oreturn ()) d1 = (Inr u2, d2)"
    "supersede_residue ?i n pending d2 = (Inr u3, d3)"
    "update_state ?i Completed Validated d3 = (Inr w4, d4)"
    "grant_credit (en_emission_cap en) (credit_amount lf) w (agreed_part majority pending) d4 = (Inr granted, d')"
    using assms(1) unfolding accept_tx_def run_finalization_Inr obind_eq_Inr by blast
  have d1: "d1 = d\<lparr>db_results := map (mark_row (db_now d) (set ?A) Agreed) (db_results d)\<rparr>"
    by (rule batch_ok [OF s(2)])
  have "d2 = d1\<lparr>db_results := map (mark_row (db_now d1) (set ?R) Disagreed) (db_results d1)\<rparr>"
  proof (cases "rejected_part majority pending = []")
    case True
    then show ?thesis using s(3) by simp
  next
    case False
    then show ?thesis using s(3) batch_ok [of ?R Disagreed d1 u2 d2] by simp
  qed
  then have d2: "d2 = d\<lparr>db_results := map (mark_row (db_now d) (set ?R) Disagreed)
      (map (mark_row (db_now d) (set ?A) Agreed) (db_results d))\<rparr>" by (simp add: d1)
  have d3: "d3 = d\<lparr>db_results := map (adjudicate_row (db_now d) ?i (final_status majority pending)) (db_results d)\<rparr>"
    by (rule accept_marks [OF assms(2,3) d2 refl, where u = u3]) (use s(1,4) in simp)
  obtain w1 where w1: "find_unit ?i d3 = Some w1" "wu_state w1 = Completed" "d4 = moved_db ?i Completed Validated w1 d3"
    using update_stateD [OF s(5)] by metis
  show ?thesis
    by (rule that [of w1]) (use s(1) w1 d3 grant_credit_grows [OF s(6)] in auto)
qed

lemma batch_succeeds:
  assumes "results_distinct d" "distinct ids" "set ids \<subseteq> res_id ` set (db_results d)"
  shows "batch_update_validation_status ids st d =
    (Inr (), d\<lparr>db_results := map (mark_row (db_now d) (set ids) st) (db_results d)\<rparr>)"
proof -
  have "count_if (\<lambda>r. res_id r \<in> set ids) (db_results d) = int (length (filter (\<lambda>i. i \<in> set ids) (map res_id (db_results d))))"
    by (simp add: count_if_def filter_map comp_def)
  also have "length (filter (\<lambda>i. i \<in> set ids) (map res_id (db_results d))) =
      card (set (filter (\<lambda>i. i \<in> set ids) (map res_id (db_results d))))"
    using assms(1) by (intro distinct_card [symmetric]) (simp add: results_distinct_def)
  also have "set (filter (\<lambda>i. i \<in> set ids) (map res_id (db_results d))) = set ids" using assms(3) by auto
  also have "card (set ids) = length ids" using assms(2) by (rule distinct_card)
  finally have n: "count_if (\<lambda>r. res_id r \<in> set ids) (db_results d) = int (length ids)" .
  obtain u d' where b: "batch_update_validation_status ids st d = (Inr u, d')"
    using n by (cases "ids = []") (simp_all add: batch_update_validation_status_def Let_def)
  from batch_ok [OF b] b show ?thesis by simp
qed

lemma results_distinct_marked:
  "results_distinct (d\<lparr>db_results := map (mark_row n ids st) rs\<rparr>) = results_distinct (d\<lparr>db_results := rs\<rparr>)"
  by (simp add: results_distinct_def comp_def)

lemma grant_credit_succeeds:
  assumes "distinct (map res_id rs)" "\<forall>r\<in>set rs. \<not> credit_taken d (res_id r)"
  shows "\<exists>granted d'. grant_credit cap amount w rs d = (Inr granted, d')"
  using assms
proof (induction rs arbitrary: d)
  case (Cons r rs)
  let ?d1 = "d\<lparr>db_ledger := db_ledger d @ [(credit_entry w amount r)\<lparr>lg_granted_at := db_now d\<rparr>]\<rparr>"
  have ok: "\<exists>granted d'. grant_credit cap amount w rs x = (Inr granted, d')" if "x = d \<or> x = ?d1" for x
    by (rule Cons.IH) (use Cons.prems that in \<open>auto simp: credit_taken_def credit_entry_def\<close>)
  have nt: "\<not> credit_taken d (lg_result (credit_entry w amount r))"
    using Cons.prems(2) by (simp add: credit_entry_def)
  have "create_credit (credit_entry w amount r) d = (Inr (), ?d1)" using nt by (simp add: create_credit_def)
  moreover have "create_capped cap (credit_entry w amount r) d \<in> {(Inr True, ?d1), (Inr False, d)}"
    using nt by (auto simp: create_capped_def)
  ultimately show ?case using ok [of d] ok [of ?d1] by (auto simp: obind_def)
qed simp

lemma list_distinct_ids: "results_distinct d \<Longrightarrow> distinct (map res_id (list_by_work_unit i d))"
  by (auto simp: list_by_work_unit_def results_of_def results_distinct_def distinct_map inj_on_def)

lemma accept_tx_succeeds:
  assumes "snapshot_of (wu_id w) pending d" "results_distinct d" "count_pending_by_work_unit (wu_id w) d = n"
    "find_unit (wu_id w) d = Some w1" "wu_state w1 = Completed" "\<forall>r\<in>set pending. \<not> credit_taken d (res_id r)"
  shows "\<exists>granted d'. accept_tx en w lf pending majority n d = (Inr granted, d')"
proof -
  let ?A = "map res_id (agreed_part majority pending)" and ?R = "map res_id (rejected_part majority pending)"
  have dis: "distinct (map res_id pending)" and sub: "res_id ` set pending \<subseteq> res_id ` set (db_results d)"
    using assms(1) by (auto simp: snapshot_of_def pending_of_iff)
  have dAR: "distinct ?A" "distinct ?R" using dis by (auto simp: agreed_part_def rejected_part_def distinct_map_filter)
  have AR: "set ?A \<subseteq> res_id ` set (db_results d)" "set ?R \<subseteq> res_id ` set (db_results d)"
    using sub by (auto simp: agreed_part_def rejected_part_def)
  let ?d1 = "d\<lparr>db_results := map (mark_row (db_now d) (set ?A) Agreed) (db_results d)\<rparr>"
  let ?d2 = "?d1\<lparr>db_results := map (mark_row (db_now ?d1) (set ?R) Disagreed) (db_results ?d1)\<rparr>"
  have b1: "batch_update_validation_status ?A Agreed d = (Inr (), ?d1)"
    by (rule batch_succeeds [OF assms(2) dAR(1) AR(1)])
  have rd: "results_distinct ?d1" "results_distinct ?d2"
    using assms(2) by (simp_all add: results_distinct_def comp_def)
  have b2: "batch_update_validation_status ?R Disagreed ?d1 = (Inr (), ?d2)"
    by (rule batch_succeeds [OF rd(1) dAR(2)]) (use AR(2) in \<open>simp add: image_image\<close>)
  have b2': "(if rejected_part majority pending \<noteq> [] then batch_update_validation_status ?R Disagreed else oreturn ()) ?d1
      = (Inr (), ?d2)"
    using b2 by (cases "rejected_part majority pending = []") simp_all
  let ?E = "map res_id (filter (\<lambda>r. res_status r = Pending) (list_by_work_unit (wu_id w) ?d2))"
  have "distinct (map res_id (list_by_work_unit (wu_id w) ?d2))"
    by (rule list_distinct_ids [OF rd(2)])
  then have "distinct ?E" by (simp add: distinct_map_filter)
  moreover have "set ?E \<subseteq> res_id ` set (db_results ?d2)" by (auto simp: list_by_work_unit_def results_of_def)
  ultimately have b3: "batch_update_validation_status ?E Superseded ?d2 =
      (Inr (), ?d2\<lparr>db_results := map (mark_row (db_now ?d2) (set ?E) Superseded) (db_results ?d2)\<rparr>)"
    by (rule batch_succeeds [OF rd(2)])
  obtain d3 where s3: "supersede_residue (wu_id w) n pending ?d2 = (Inr (), d3)" "d3 = ?d2\<lparr>db_results := db_results d3\<rparr>"
  proof (cases "n > int (length pending) \<and> ?E \<noteq> []")
    case True
    show ?thesis
      by (rule that [of "?d2\<lparr>db_results := map (mark_row (db_now ?d2) (set ?E) Superseded) (db_results ?d2)\<rparr>"])
        (use True b3 in \<open>simp_all add: supersede_residue_def Let_def\<close>)
  next
    case False
    show ?thesis by (rule that [of ?d2]) (use False in \<open>auto simp: supersede_residue_def\<close>)
  qed
  have f3: "find_unit (wu_id w) d3 = Some w1" by (subst s3(2)) (simp add: assms(4))
  have hit: "update_state (wu_id w) Completed Validated d3 =
      (Inr ((persist_unit (transition_rule (db_now d3) Completed Validated w1) w1)\<lparr>wu_updated_at := db_now d3\<rparr>),
       moved_db (wu_id w) Completed Validated w1 d3)"
    by (rule update_state_hit [OF f3 assms(5)]) (simp add: chart_edge_set)
  have led: "db_ledger (moved_db (wu_id w) Completed Validated w1 d3) = db_ledger d" by (subst s3(2)) simp
  have "\<exists>granted d'. grant_credit (en_emission_cap en) (credit_amount lf) w (agreed_part majority pending)
      (moved_db (wu_id w) Completed Validated w1 d3) = (Inr granted, d')"
    by (rule grant_credit_succeeds)
      (use dAR(1) assms(6) led in \<open>auto simp: agreed_part_def credit_taken_def\<close>)
  then show ?thesis
    unfolding accept_tx_def run_finalization_Inr using assms(3) b1 b2' s3(1) hit by simp
qed

lemma adjudicate_row_simps [simp]:
  "res_id (adjudicate_row n i st r) = res_id r" "res_unit (adjudicate_row n i st r) = res_unit r"
  "res_status (adjudicate_row n i st r) = (if res_unit r = i \<and> res_status r = Pending then st r else res_status r)"
  by (simp_all add: adjudicate_row_def)

lemma pending_after_adjudicate:
  assumes "\<And>r. st r \<noteq> Pending" "db_results d' = map (adjudicate_row n i st) (db_results d)"
  shows "pending_of i d' = []" "u \<noteq> i \<Longrightarrow> pending_of u d' = pending_of u d"
proof -
  have a: "filter (\<lambda>r. res_unit r = i \<and> res_status r = Pending) (map (adjudicate_row n i st) rs) = []" for rs
    by (induction rs) (auto simp: assms(1))
  have b: "filter (\<lambda>r. res_unit r = u \<and> res_status r = Pending) (map (adjudicate_row n i st) rs) =
      filter (\<lambda>r. res_unit r = u \<and> res_status r = Pending) rs" if "u \<noteq> i" for rs
    using that by (induction rs) (auto simp: adjudicate_row_def)
  show "pending_of i d' = []" using a by (simp add: pending_of_def assms(2))
  show "pending_of u d' = pending_of u d" if "u \<noteq> i" using b [OF that] by (simp add: pending_of_def assms(2))
qed

lemma final_status_not_pending: "final_status m p r \<noteq> Pending"
  by (simp add: final_status_def)

text \<open>C25. Acceptance is all or nothing. When the transaction that accepts a pending set commits, the unit is
  VALIDATED, no result of it is left pending (the agreeing group is AGREED, the rest of the compared set
  DISAGREED, results of other artifact versions SUPERSEDED, everything else untouched), and each credited
  result is one of the agreeing group, credited once, all of them when no emission cap is set; when it
  fails, nothing at all has changed. It does commit whenever the unit is COMPLETED, the snapshot is still
  current and none of its results was credited before.\<close>

theorem acceptance_is_atomic_and_complete:
  assumes "snapshot_of (wu_id w) pending d" "results_distinct d"
  shows "case accept_tx en w lf pending majority n d of
     (Inl _, d') \<Rightarrow>
        d' = d \<and> \<not> (map_option wu_state (find_unit (wu_id w) d) = Some Completed \<and>
                      n = int (length (pending_of (wu_id w) d)) \<and>
                      (\<forall>r\<in>set pending. \<not> credit_taken d (res_id r)))
   | (Inr granted, d') \<Rightarrow>
        map_option wu_state (find_unit (wu_id w) d') = Some Validated \<and>
        pending_of (wu_id w) d' = [] \<and>
        db_results d' = map (adjudicate_row (db_now d) (wu_id w) (final_status majority pending)) (db_results d) \<and>
        map lg_result (db_ledger d') = map lg_result (db_ledger d) @ granted \<and>
        set granted \<subseteq> res_id ` set (agreed_part majority pending) \<and> distinct granted \<and>
        (\<forall>r\<in>set granted. \<not> credit_taken d r) \<and>
        (en_emission_cap en \<le> 0 \<longrightarrow> granted = map res_id (agreed_part majority pending))"
proof (cases "accept_tx en w lf pending majority n d")
  case (Pair r d')
  show ?thesis
  proof (cases r)
    case (Inl e)
    then have "d' = d" using Pair run_finalization_Inl unfolding accept_tx_def by blast
    moreover have "\<not> (map_option wu_state (find_unit (wu_id w) d) = Some Completed \<and>
        n = int (length (pending_of (wu_id w) d)) \<and> (\<forall>r\<in>set pending. \<not> credit_taken d (res_id r)))"
    proof
      assume h: "map_option wu_state (find_unit (wu_id w) d) = Some Completed \<and>
        n = int (length (pending_of (wu_id w) d)) \<and> (\<forall>r\<in>set pending. \<not> credit_taken d (res_id r))"
      then obtain w1 where w1: "find_unit (wu_id w) d = Some w1" "wu_state w1 = Completed" by auto
      have "\<exists>granted d'. accept_tx en w lf pending majority n d = (Inr granted, d')"
        by (rule accept_tx_succeeds [OF assms _ w1]) (use h in \<open>simp_all add: pending_of_length\<close>)
      then show False using Pair Inl by simp
    qed
    ultimately show ?thesis using Pair Inl by simp
  next
    case (Inr granted)
    with Pair have "accept_tx en w lf pending majority n d = (Inr granted, d')" by simp
    then obtain w1 where e: "find_unit (wu_id w) d = Some w1" "wu_state w1 = Completed"
      "grows_ledger w (credit_amount lf) granted
        (moved_db (wu_id w) Completed Validated w1
          (d\<lparr>db_results := map (adjudicate_row (db_now d) (wu_id w) (final_status majority pending)) (db_results d)\<rparr>)) d'"
      "set granted \<subseteq> res_id ` set (agreed_part majority pending)"
      "\<not> en_emission_cap en > 0 \<longrightarrow> granted = map res_id (agreed_part majority pending)"
      by (rule accept_tx_effect [OF _ assms])
    let ?d0 = "moved_db (wu_id w) Completed Validated w1
          (d\<lparr>db_results := map (adjudicate_row (db_now d) (wu_id w) (final_status majority pending)) (db_results d)\<rparr>)"
    obtain es where es: "d' = ?d0\<lparr>db_ledger := db_ledger ?d0 @ es\<rparr>" "map lg_result es = granted"
      "\<forall>r\<in>set granted. \<not> credit_taken ?d0 r" "distinct granted"
      using e(3) unfolding grows_ledger_def by blast
    have st: "map_option wu_state (find_unit (wu_id w) d') = Some Validated"
      using e(1,2) find_unit_id [OF e(1)] by (simp add: es(1) find_unit_update_units)
    have rows: "db_results d' = map (adjudicate_row (db_now d) (wu_id w) (final_status majority pending)) (db_results d)"
      by (simp add: es(1))
    have led: "db_ledger ?d0 = db_ledger d" by simp
    show ?thesis using Pair Inr st rows pending_after_adjudicate(1) [OF final_status_not_pending rows] es(2-4) e(4,5) led
      by (simp add: es(1) credit_taken_def not_less)
  qed
qed

definition default_engine :: engine where
  "default_engine = \<lparr>en_trust_policy = \<lparr>tp_gate_enabled = False, tp_default_min_corroborators = 1, tp_default_floor = 1\<rparr>,
     en_emission_cap = 0, en_backpressure = None, en_runner_subjects = None,
     en_rejection_decay = (\<lambda>_. 1), en_reliability_decay = (\<lambda>_. 1)\<rparr>"

theorem acceptance_is_atomic_and_complete_witness:
  "let w = (queued_unit ''u'' ''l'')\<lparr>wu_state := Completed\<rparr>;
       r1 = ok_result ''r1'' ''a'' ''x''; r2 = ok_result ''r2'' ''b'' ''x''; d = sample_db [w] [] [r1, r2]
   in pending_of ''u'' (snd (accept_tx default_engine w (active_leaf ''l'' default_validation_config) [r1, r2] [r1, r2] 2 d)) = []"
proof -
  let ?w = "(queued_unit ''u'' ''l'')\<lparr>wu_state := Completed\<rparr>" and ?lf = "active_leaf ''l'' default_validation_config"
  let ?r1 = "ok_result ''r1'' ''a'' ''x''" and ?r2 = "ok_result ''r2'' ''b'' ''x''"
  let ?d = "sample_db [?w] [] [?r1, ?r2]"
  have id: "wu_id ?w = ''u''" by (simp add: queued_unit_def)
  have p: "pending_of ''u'' ?d = [?r1, ?r2]" by (simp add: pending_of_def sample_db_def ok_result_def)
  have h: "snapshot_of (wu_id ?w) [?r1, ?r2] ?d" "results_distinct ?d"
    using p by (simp_all add: snapshot_of_def id results_distinct_def sample_db_def ok_result_def)
  have c: "map_option wu_state (find_unit (wu_id ?w) ?d) = Some Completed" "2 = int (length (pending_of (wu_id ?w) ?d))"
    "\<forall>r\<in>set [?r1, ?r2]. \<not> credit_taken ?d (res_id r)"
    using p by (simp_all add: find_unit_def sample_db_def queued_unit_def credit_taken_def)
  show ?thesis
    using acceptance_is_atomic_and_complete [OF h, where en = default_engine and lf = ?lf
        and majority = "[?r1, ?r2]" and n = 2] c
    unfolding Let_def id by (auto split: prod.splits sum.splits)
qed

subsection \<open>A rejection\<close>

lemma update_state_find:
  assumes "update_state i from to d = (Inr w', d')"
  shows "find_unit i d' = Some w'" "wu_state w' = to" "db_results d' = db_results d" "db_copies d' = db_copies d"
    "db_ledger d' = db_ledger d" "map wu_id (db_units d') = map wu_id (db_units d)"
proof -
  from assms obtain w where w: "find_unit i d = Some w" "wu_state w = from" "chart_edge from to"
    "d' = moved_db i from to w d"
    "w' = (persist_unit (transition_rule (db_now d) from to w) w)\<lparr>wu_updated_at := db_now d\<rparr>"
    by (rule update_stateD)
  show "find_unit i d' = Some w'" using w find_unit_id [OF w(1)] by (simp add: find_unit_update_units)
  show "wu_state w' = to" unfolding w(5) by simp
  show "db_results d' = db_results d" "db_copies d' = db_copies d" "db_ledger d' = db_ledger d" unfolding w(4) by simp_all
  show "map wu_id (db_units d') = map wu_id (db_units d)" unfolding w(4) by simp
qed

text \<open>A rejection is all or nothing, and it never parks the unit: when its transaction commits, every
  compared result is DISAGREED and the unit is back in the queue with its retry counted; no commit leaves
  the unit REJECTED, nothing is credited, and a failed transaction changes nothing. A snapshot that a
  submission has overtaken is refused.\<close>

theorem rejection_is_atomic_and_requeues:
  "case reject_tx w pending n d of
     (Inl e, d') \<Rightarrow> d' = d
   | (Inr requeued, d') \<Rightarrow>
        requeued \<and> n = int (length (pending_of (wu_id w) d)) \<and>
        (\<exists>w1 w2. find_unit (wu_id w) d = Some w1 \<and> wu_state w1 = Completed \<and>
           find_unit (wu_id w) d' = Some w2 \<and> wu_state w2 = Queued \<and>
           wu_reassignment_count w2 = wu_reassignment_count w1 + 1) \<and>
        db_results d' = map (mark_row (db_now d) (res_id ` set pending) Disagreed) (db_results d) \<and>
        db_ledger d' = db_ledger d"
proof (cases "reject_tx w pending n d")
  case (Pair r d')
  show ?thesis
  proof (cases r)
    case (Inl e)
    then show ?thesis using Pair run_finalization_Inl unfolding reject_tx_def by fastforce
  next
    case (Inr requeued)
    then obtain u1 d1 w2 d2 w3 where s: "count_pending_by_work_unit (wu_id w) d = n"
      "batch_update_validation_status (map res_id pending) Disagreed d = (Inr u1, d1)"
      "update_state (wu_id w) Completed Rejected d1 = (Inr w2, d2)"
      "reassign (wu_id w) d2 = (Inr (w3, requeued), d')"
      using Pair unfolding reject_tx_def run_finalization_Inr obind_eq_Inr by (auto simp: run_finalization_Inr obind_eq_Inr)
    have d1: "d1 = d\<lparr>db_results := map (mark_row (db_now d) (set (map res_id pending)) Disagreed) (db_results d)\<rparr>"
      by (rule batch_ok [OF s(2)])
    obtain w1 where w1: "find_unit (wu_id w) d1 = Some w1" "wu_state w1 = Completed"
      "w2 = (persist_unit (transition_rule (db_now d1) Completed Rejected w1) w1)\<lparr>wu_updated_at := db_now d1\<rparr>"
      using update_stateD [OF s(3)] by metis
    note u2 = update_state_find [OF s(3)]
    obtain u3: "update_state (wu_id w) Rejected Queued d2 = (Inr w3, d')" "requeued"
      using s(4) u2(1,2) by (auto simp: reassign_def get_unit_def split: prod.splits sum.splits)
    note u4 = update_state_find [OF u3(1)]
    obtain w2' where w2': "find_unit (wu_id w) d2 = Some w2'"
      "w3 = (persist_unit (transition_rule (db_now d2) Rejected Queued w2') w2')\<lparr>wu_updated_at := db_now d2\<rparr>"
      using update_stateD [OF u3(1)] by metis
    have "wu_reassignment_count w3 = wu_reassignment_count w1 + 1"
    proof -
      have "w2' = w2" using w2'(1) u2(1) by simp
      then have "wu_reassignment_count w3 = wu_reassignment_count w2 + 1"
        unfolding w2'(2) by (simp add: transition_rule_def transition_to_queued_def)
      also have "wu_reassignment_count w2 = wu_reassignment_count w1"
        unfolding w1(3) by (simp add: transition_rule_def)
      finally show ?thesis .
    qed
    then show ?thesis using Pair Inr s(1) u3(2) w1(1,2) u2 u4 by (simp add: d1 pending_of_length)
  qed
qed

end
