(* ===== verification/Accrual.thy ===== *)
theory Accrual
  imports Finalize
begin

text \<open>
  Who earns trust from an accepted unit: the witness rule of \<open>accrueTrust\<close> in
  \<open>validation/engine.go\<close>, stated over the subjects behind the agreeing results.
\<close>

subsection \<open>Trust is witnessed\<close>

definition accrual_subjects :: "result list \<Rightarrow> string set" where
  "accrual_subjects rs = {subject_for_result r | r. r \<in> set rs \<and> standing_countable r}"

definition trusted_in :: "int \<Rightarrow> result list \<Rightarrow> string set" where
  "trusted_in fl rs = {subject_for_result r | r. r \<in> set rs \<and> standing_countable r \<and> score_for_result r \<ge> fl}"

lemma score_add_keys: "set (map fst (score_add s sc acc)) = insert s (set (map fst acc))"
  by (induction s sc acc rule: score_add.induct) auto

lemma score_add_distinct: "distinct (map fst acc) \<Longrightarrow> distinct (map fst (score_add s sc acc))"
  by (induction s sc acc rule: score_add.induct) (use score_add_keys in \<open>auto simp del: set_map\<close>)

definition high_keys :: "int \<Rightarrow> (string \<times> int) list \<Rightarrow> string set" where
  "high_keys fl acc = {s. \<exists>sc. (s, sc) \<in> set acc \<and> fl \<le> sc}"

lemma high_keys_simps:
  "high_keys fl [] = {}"
  "high_keys fl ((t, cur) # acc) = (if fl \<le> cur then {t} else {}) \<union> high_keys fl acc"
  by (auto simp: high_keys_def)

lemma high_keys_image: "fst ` {p \<in> set acc. fl \<le> snd p} = high_keys fl acc"
  by (force simp: high_keys_def)

lemma score_add_high: "high_keys fl (score_add s sc acc) = high_keys fl acc \<union> (if fl \<le> sc then {s} else {})"
  by (induction s sc acc rule: score_add.induct) (auto simp: high_keys_simps)

lemma subject_scores_snoc:
  "subject_scores (rs @ [r]) =
     (if standing_countable r then score_add (subject_for_result r) (score_for_result r) (subject_scores rs)
      else subject_scores rs)"
  by (simp add: subject_scores_def)

lemma subject_scores_spec:
  "distinct (map fst (subject_scores rs))" "set (map fst (subject_scores rs)) = accrual_subjects rs"
  "high_keys fl (subject_scores rs) = trusted_in fl rs"
proof (induction rs rule: rev_induct)
  case Nil
  {
    case 1 show ?case by (simp add: subject_scores_def)
  next
    case 2 show ?case by (simp add: subject_scores_def accrual_subjects_def)
  next
    case 3 show ?case by (simp add: subject_scores_def trusted_in_def high_keys_simps)
  }
next
  case (snoc r rs)
  {
    case 1 show ?case using snoc.IH(1) by (simp add: subject_scores_snoc score_add_distinct)
  next
    case 2 show ?case using snoc.IH(2)
      by (auto simp: subject_scores_snoc score_add_keys accrual_subjects_def simp del: set_map)
  next
    case 3 show ?case using snoc.IH(3) by (auto simp: subject_scores_snoc score_add_high trusted_in_def)
  }
qed

lemma trusted_in_subset: "trusted_in fl rs \<subseteq> accrual_subjects rs"
  by (auto simp: trusted_in_def accrual_subjects_def)

lemma finite_trusted_in [simp]: "finite (accrual_subjects rs)" "finite (trusted_in fl rs)"
proof -
  show "finite (accrual_subjects rs)" by (subst subject_scores_spec(2) [symmetric]) simp
  then show "finite (trusted_in fl rs)" by (rule finite_subset [OF trusted_in_subset])
qed

lemma scores_count:
  "count_if (\<lambda>(s, sc). sc \<ge> fl) (subject_scores rs) = int (card (trusted_in fl rs))"
  "count_if (\<lambda>(s, sc). sc \<ge> fl \<and> s \<in> R) (subject_scores rs) = int (card (trusted_in fl rs \<inter> R))"
  "int (length (subject_scores rs)) = int (card (accrual_subjects rs))"
proof -
  note d = subject_scores_spec(1) [of rs]
  have T: "high_keys fl (subject_scores rs) = trusted_in fl rs" by (rule subject_scores_spec(3))
  have "fst ` {p \<in> set (subject_scores rs). (case p of (s, sc) \<Rightarrow> sc \<ge> fl)} = high_keys fl (subject_scores rs)"
    by (force simp: high_keys_def)
  then show "count_if (\<lambda>(s, sc). sc \<ge> fl) (subject_scores rs) = int (card (trusted_in fl rs))"
    using count_if_keyed [OF d] T by simp
  have "fst ` {p \<in> set (subject_scores rs). (case p of (s, sc) \<Rightarrow> sc \<ge> fl \<and> s \<in> R)} =
      high_keys fl (subject_scores rs) \<inter> R"
    by (force simp: high_keys_def)
  then show "count_if (\<lambda>(s, sc). sc \<ge> fl \<and> s \<in> R) (subject_scores rs) = int (card (trusted_in fl rs \<inter> R))"
    using count_if_keyed [OF d] T by simp
  show "int (length (subject_scores rs)) = int (card (accrual_subjects rs))"
    using distinct_card [OF d] subject_scores_spec(2) [of rs] by simp
qed

lemma scores_high:
  assumes "(s, sc) \<in> set (subject_scores rs)"
  shows "sc \<ge> fl \<longleftrightarrow> s \<in> trusted_in fl rs"
proof -
  have "s \<in> trusted_in fl rs \<longleftrightarrow> (\<exists>sc'. (s, sc') \<in> set (subject_scores rs) \<and> fl \<le> sc')"
    using subject_scores_spec(3) [of fl rs] by (auto simp: high_keys_def)
  then show ?thesis using assms eq_key_imp_eq_value [OF subject_scores_spec(1) assms] by blast
qed

lemma card_others:
  "finite T \<Longrightarrow> int (card T) - (if s \<in> T then 1 else 0) = int (card (T - {s}))"
  using card_gt_0_iff [of T] by (auto simp: card_Diff_singleton)

lemma card_ge_2: "finite T \<Longrightarrow> int (card T) \<ge> 2 \<longleftrightarrow> (\<exists>a\<in>T. \<exists>b\<in>T. a \<noteq> b)"
proof
  assume "finite T" "int (card T) \<ge> 2"
  then have "\<not> is_singleton T" "T \<noteq> {}" by (auto simp: is_singleton_altdef)
  then show "\<exists>a\<in>T. \<exists>b\<in>T. a \<noteq> b" by (metis all_not_in_conv is_singletonI')
next
  assume f: "finite T" and "\<exists>a\<in>T. \<exists>b\<in>T. a \<noteq> b"
  then obtain a b where "{a, b} \<subseteq> T" "a \<noteq> b" by blast
  then show "int (card T) \<ge> 2" using card_mono [OF f, of "{a, b}"] by simp
qed

lemma card_ge_1: "finite T \<Longrightarrow> int (card T) \<ge> 1 \<longleftrightarrow> T \<noteq> {}"
  using card_gt_0_iff [of T] by linarith

subsection \<open>The witness rule\<close>

definition witnessed :: "string list \<Rightarrow> string set \<Rightarrow> string \<Rightarrow> bool" where
  "witnessed runners T s \<longleftrightarrow>
     (\<exists>t\<in>T. t \<noteq> s) \<and>
     (runners = [] \<or> (\<exists>t\<in>T. t \<noteq> s \<and> t \<in> set runners) \<or> (\<exists>t\<in>T. \<exists>u\<in>T. t \<noteq> s \<and> u \<noteq> s \<and> t \<noteq> u))"

definition runner_list :: "string list option \<Rightarrow> string list" where
  "runner_list runners = (case runners of None \<Rightarrow> [] | Some rs \<Rightarrow> rs)"

lemma witness_arith:
  assumes "finite T"
  shows "(let to = int (card T) - (if s \<in> T then 1 else 0);
              ro = int (card (T \<inter> set rl)) - (if s \<in> T \<and> s \<in> set rl then 1 else 0)
          in to \<ge> 1 \<and> (rl = [] \<or> to \<ge> 2 \<or> ro \<ge> 1)) \<longleftrightarrow> witnessed rl T s"
proof -
  have to: "int (card T) - (if s \<in> T then 1 else 0) = int (card (T - {s}))" by (rule card_others [OF assms])
  have "int (card (T \<inter> set rl)) - (if s \<in> T \<inter> set rl then 1 else 0) = int (card ((T \<inter> set rl) - {s}))"
    by (rule card_others) (use assms in simp)
  then have ro: "int (card (T \<inter> set rl)) - (if s \<in> T \<and> s \<in> set rl then 1 else 0) = int (card ((T \<inter> set rl) - {s}))"
    by simp
  have f: "finite (T - {s})" "finite ((T \<inter> set rl) - {s})" using assms by simp_all
  show ?thesis
    unfolding Let_def to ro card_ge_1 [OF f(1)] card_ge_1 [OF f(2)] card_ge_2 [OF f(1)] witnessed_def by blast
qed

lemma accruing_subjects_iff:
  "s \<in> set (accruing_subjects fl runners rs) \<longleftrightarrow>
     s \<in> accrual_subjects rs \<and> witnessed (runner_list runners) (trusted_in fl rs) s"
proof -
  let ?T = "trusted_in fl rs" and ?S = "accrual_subjects rs" and ?rl = "runner_list runners"
  let ?t = "int (card ?T)"
  have rset: "(case runners of None \<Rightarrow> [] | Some rs \<Rightarrow> rs) = ?rl" by (simp add: runner_list_def)
  show ?thesis
  proof (cases "?t \<ge> 2 \<or> (?t = 1 \<and> int (card ?S) > ?t)")
    case False
    have "\<not> (\<exists>t\<in>?T. t \<noteq> s)" if s: "s \<in> ?S"
    proof
      assume "\<exists>t\<in>?T. t \<noteq> s"
      then obtain t where t: "t \<in> ?T" "t \<noteq> s" by blast
      then have "?t \<ge> 1" using card_ge_1 [of ?T] by auto
      then have one: "?t = 1" "int (card ?S) \<le> 1" using False by auto
      have "{s, t} \<subseteq> ?S" using s t trusted_in_subset by blast
      then have "2 \<le> card ?S" using card_mono [of ?S "{s, t}"] t(2) by simp
      then show False using one by simp
    qed
    then have "\<not> (s \<in> ?S \<and> witnessed ?rl ?T s)" by (auto simp: witnessed_def)
    moreover have "accruing_subjects fl runners rs = []"
      unfolding accruing_subjects_def Let_def scores_count(1) scores_count(3) using False
      by (simp only: not_False_eq_True if_True)
    ultimately show ?thesis by simp
  next
    case True
    let ?Q = "\<lambda>(s, sc). (let to = (if sc \<ge> fl then ?t - 1 else ?t);
             ro = (if sc \<ge> fl \<and> s \<in> set ?rl then (if ?rl \<noteq> [] then int (card (?T \<inter> set ?rl)) else 0) - 1
                   else (if ?rl \<noteq> [] then int (card (?T \<inter> set ?rl)) else 0))
             in to \<ge> 1 \<and> (\<not> ?rl \<noteq> [] \<or> to \<ge> 2 \<or> ro \<ge> 1))"
    have acc: "accruing_subjects fl runners rs = map fst (filter ?Q (subject_scores rs))"
      unfolding accruing_subjects_def Let_def rset scores_count using True
      by (simp only: not_True_eq_False if_False)
    have q: "?Q (s, sc) \<longleftrightarrow> witnessed ?rl ?T s" if "(s, sc) \<in> set (subject_scores rs)" for sc
      unfolding witness_arith [symmetric, OF finite_trusted_in(2)] using scores_high [OF that, of fl]
      by (cases "?rl = []") (simp_all add: Let_def)
    have "s \<in> set (map fst (filter ?Q (subject_scores rs))) \<longleftrightarrow>
        (\<exists>sc. (s, sc) \<in> set (subject_scores rs) \<and> ?Q (s, sc))" by force
    also have "\<dots> \<longleftrightarrow> (\<exists>sc. (s, sc) \<in> set (subject_scores rs)) \<and> witnessed ?rl ?T s" using q by blast
    also have "(\<exists>sc. (s, sc) \<in> set (subject_scores rs)) \<longleftrightarrow> s \<in> ?S"
      using subject_scores_spec(2) [of rs] by force
    finally show ?thesis unfolding acc .
  qed
qed

lemma accruing_subjects_distinct: "distinct (accruing_subjects fl runners rs)"
  using subject_scores_spec(1) [of rs] by (simp add: accruing_subjects_def Let_def distinct_map_filter)

lemma accrue_trust_score:
  "trust_get_score (db_trust (accrue_trust en lf w agreed d)) s =
     trust_get_score (db_trust d) s +
     (if s \<in> accrual_subjects agreed \<and>
         witnessed (runner_list (en_runner_subjects en)) (trusted_in (accrual_floor en lf w) agreed) s
      then 1 else 0)"
  using tl.accrue_distinct_score [OF accruing_subjects_distinct, of "accrual_floor en lf w" "en_runner_subjects en" agreed
      "db_trust d" s]
  by (simp add: accrue_trust_def accruing_subjects_iff)

text \<open>A farm of accounts none of which was trusted before leaves every score where it was.\<close>

lemma untrusted_farm_earns_nothing:
  "trusted_in (accrual_floor en lf w) agreed = {} \<Longrightarrow>
     trust_get_score (db_trust (accrue_trust en lf w agreed d)) s = trust_get_score (db_trust d) s"
  by (simp add: accrue_trust_score witnessed_def)

text \<open>Trust cannot be bootstrapped. After a unit is accepted a subject's trust rises by one, never more,
  and only if it stands behind a countable agreeing result and some other subject of that group already
  meets the floor; once trusted runners are registered, that other subject must be a runner or there must
  be two of them. So a group without a subject that was already trusted earns nothing, however many
  accounts it has, and no subject witnesses for itself. The rule is exactly this one.\<close>

theorem trust_needs_a_trusted_witness:
  "trust_get_score (db_trust (accrue_trust en lf w agreed d)) s =
     trust_get_score (db_trust d) s +
     (if s \<in> accrual_subjects agreed \<and>
         witnessed (runner_list (en_runner_subjects en)) (trusted_in (accrual_floor en lf w) agreed) s
      then 1 else 0) \<and>
   1 \<le> accrual_floor en lf w"
  by (simp add: accrue_trust_score) (simp add: accrual_floor_def resolve_trust_floor Let_def)

end
