(* ===== verification/Transitioner.thy ===== *)
theory Transitioner
  imports Comparator Accrual
begin

text \<open>
  The transitioner (\<open>transition/transitioner.go\<close>): it loads the snapshot of a unit, takes the
  decision, and applies it through its stores. The stores are an argument, a record of the
  operations it calls; the locale states what it relies on, and the interpretation discharges that
  for the database and the engine. The per-unit advisory lock is best-effort in the code and absent
  here; the arguments of \<open>ApplyAccept\<close> and \<open>ApplyReject\<close> that only feed attestations are dropped.
\<close>

subsection \<open>The stores the transitioner calls\<close>

datatype tr_outcome = ToNoop | ToWaiting | ToValidated | ToRejected | ToDeadLettered | ToReopened

record 's transition_ops =
  op_get_unit :: "uid \<Rightarrow> 's \<Rightarrow> work_unit res"
  op_get_leaf :: "uid \<Rightarrow> 's \<Rightarrow> leaf res"
  op_list_results :: "uid \<Rightarrow> 's \<Rightarrow> result list res"
  op_count_live :: "uid \<Rightarrow> 's \<Rightarrow> int res"
  op_count_total :: "uid \<Rightarrow> 's \<Rightarrow> int res"
  op_count_error :: "uid \<Rightarrow> 's \<Rightarrow> int res"
  op_count_probation_live :: "uid \<Rightarrow> 's \<Rightarrow> int res"
  op_mark_completed :: "uid \<Rightarrow> ('s, unit) op"
  op_update_state :: "uid \<Rightarrow> wu_state \<Rightarrow> wu_state \<Rightarrow> ('s, unit) op"
  op_reassign :: "uid \<Rightarrow> ('s, unit) op"
  op_dead_letter :: "uid \<Rightarrow> ('s, bool) op"
  op_expire_live :: "uid \<Rightarrow> outcome \<Rightarrow> ('s, int) op"
  op_filter_pending :: "result list \<Rightarrow> result list"
  op_compare :: "leaf \<Rightarrow> result list \<Rightarrow> result list res"
  op_apply_accept :: "work_unit \<Rightarrow> leaf \<Rightarrow> result list \<Rightarrow> result list \<Rightarrow> int \<Rightarrow> ('s, unit) op"
  op_apply_reject :: "work_unit \<Rightarrow> result list \<Rightarrow> int \<Rightarrow> ('s, unit) op"

definition lift_read :: "('s \<Rightarrow> 'a res) \<Rightarrow> ('s, 'a) op" where
  "lift_read f s = (f s, s)"

subsection \<open>One decision\<close>

record counts =
  ct_live :: int
  ct_total :: int
  ct_error :: int
  ct_probation_live :: int

definition load_counts :: "'s transition_ops \<Rightarrow> uid \<Rightarrow> ('s, counts) op" where
  "load_counts ops i =
     obind (lift_read (op_count_live ops i)) (\<lambda>live.
     obind (lift_read (op_count_total ops i)) (\<lambda>total.
     obind (lift_read (op_count_error ops i)) (\<lambda>errs.
     obind (lift_read (op_count_probation_live ops i)) (\<lambda>prob.
       oreturn \<lparr>ct_live = live, ct_total = total, ct_error = errs, ct_probation_live = prob\<rparr>))))"

definition unit_snapshot :: "work_unit \<Rightarrow> policy \<Rightarrow> counts \<Rightarrow> result list \<Rightarrow> verdict option \<Rightarrow> snapshot" where
  "unit_snapshot w p c pending cmp =
     \<lparr>sn_state = wu_state w, sn_policy = p, sn_live_copies = ct_live c, sn_total_copies = ct_total c,
      sn_error_copies = ct_error c, sn_pending_count = int (length pending),
      sn_probation_live_copies = ct_probation_live c,
      sn_probation_pending_count = count_if (\<lambda>r. \<not> standing_countable r) pending,
      sn_comparison = cmp\<rparr>"

definition reopen :: "'s transition_ops \<Rightarrow> uid \<Rightarrow> wu_state \<Rightarrow> ('s, tr_outcome) op" where
  "reopen ops i state s =
     (case state of
        Completed \<Rightarrow> (case op_update_state ops i Completed Queued s of
                        (Inl _, s') \<Rightarrow> (Inr ToWaiting, s') | (Inr _, s') \<Rightarrow> (Inr ToReopened, s'))
      | Rejected \<Rightarrow> (case op_reassign ops i s of
                       (Inl _, s') \<Rightarrow> (Inr ToWaiting, s') | (Inr _, s') \<Rightarrow> (Inr ToReopened, s'))
      | _ \<Rightarrow> (Inr ToWaiting, s))"

definition apply_decision ::
  "'s transition_ops \<Rightarrow> uid \<Rightarrow> work_unit \<Rightarrow> leaf \<Rightarrow> result list \<Rightarrow> result list \<Rightarrow> int \<Rightarrow> decision
   \<Rightarrow> ('s, tr_outcome) op" where
  "apply_decision ops i w lf pending majority raw_pending dec =
     (case de_action dec of
        ActValidate \<Rightarrow>
          obind (op_mark_completed ops i) (\<lambda>_.
          obind (op_apply_accept ops w lf pending majority raw_pending) (\<lambda>_ s.
            (Inr ToValidated, snd (op_expire_live ops i OutSuperseded s))))
      | ActReject \<Rightarrow>
          obind (op_mark_completed ops i) (\<lambda>_.
          obind (op_apply_reject ops w pending raw_pending) (\<lambda>_. oreturn ToRejected))
      | ActDeadLetter \<Rightarrow>
          obind (op_dead_letter ops i) (\<lambda>failed. oreturn (if failed then ToDeadLettered else ToNoop))
      | ActWait \<Rightarrow>
          (if de_reopen dec then reopen ops i (wu_state w)
           else if de_complete_first dec then obind (op_mark_completed ops i) (\<lambda>_. oreturn ToWaiting)
           else oreturn ToWaiting))"

text \<open>From the snapshot to the applied decision; a comparison that fails parks the unit.\<close>

definition decide_on ::
  "'s transition_ops \<Rightarrow> trust_policy \<Rightarrow> uid \<Rightarrow> work_unit \<Rightarrow> leaf \<Rightarrow> result list \<Rightarrow> counts \<Rightarrow> ('s, tr_outcome) op" where
  "decide_on ops tp i w lf all c =
     (let policy = resolve_policy_with_trust lf w tp;
          raw = filter (\<lambda>r. res_status r = Pending) all;
          pending = op_filter_pending ops raw;
          raw_pending = int (length raw)
      in if int (length pending) \<ge> rp_min_quorum policy then
           (case op_compare ops lf pending of
              Inl _ \<Rightarrow> obind (op_mark_completed ops i) (\<lambda>_. oreturn ToWaiting)
            | Inr majority \<Rightarrow>
                apply_decision ops i w lf pending majority raw_pending
                  (decide (unit_snapshot w policy c pending
                     (Some (build_comparison_verdict pending majority (rp_trust_floor policy))))))
         else apply_decision ops i w lf pending [] raw_pending
                (decide (unit_snapshot w policy c pending None)))"

definition decide_and_apply :: "'s transition_ops \<Rightarrow> trust_policy \<Rightarrow> uid \<Rightarrow> ('s, tr_outcome) op" where
  "decide_and_apply ops tp i =
     obind (lift_read (op_get_unit ops i)) (\<lambda>w.
       if is_terminal_state (wu_state w) then oreturn ToNoop
       else
         obind (lift_read (op_get_leaf ops (wu_leaf w))) (\<lambda>lf.
         obind (lift_read (op_list_results ops i)) (\<lambda>all.
         obind (load_counts ops i) (\<lambda>c.
           decide_on ops tp i w lf all c))))"

definition changes_unit_state :: "tr_outcome \<Rightarrow> bool" where
  "changes_unit_state out \<longleftrightarrow> out \<in> {ToValidated, ToRejected, ToDeadLettered, ToReopened}"

text \<open>The retry on a stale snapshot, and whether the dispatch cache is told to drop the unit.\<close>

definition evaluate :: "'s transition_ops \<Rightarrow> trust_policy \<Rightarrow> uid \<Rightarrow> 's \<Rightarrow> tr_outcome res \<times> bool \<times> 's" where
  "evaluate ops tp i s =
     (let (r, s') =
        (case decide_and_apply ops tp i s of
           (Inl StaleSnapshot, s1) \<Rightarrow> decide_and_apply ops tp i s1
         | other \<Rightarrow> other)
      in (r, (case r of Inl _ \<Rightarrow> False | Inr out \<Rightarrow> changes_unit_state out), s'))"

subsection \<open>What the transitioner relies on\<close>

definition completes :: "wu_state option \<Rightarrow> wu_state option" where
  "completes a = (if a \<in> {Some Queued, Some Assigned, Some Running} then Some Completed else a)"

text \<open>Where a unit in state \<open>a\<close> may be, \<open>b\<close>, after an evaluation with the given result.\<close>

definition outcome_moves :: "tr_outcome res \<Rightarrow> wu_state option \<Rightarrow> wu_state option \<Rightarrow> bool" where
  "outcome_moves r a b \<longleftrightarrow>
     (case r of
        Inr ToValidated \<Rightarrow> completes a = Some Completed \<and> b = Some Validated
      | Inr ToRejected \<Rightarrow> completes a = Some Completed \<and> b = Some Queued
      | Inr ToDeadLettered \<Rightarrow> a \<in> {Some Queued, Some Completed, Some Rejected} \<and> b = Some Failed
      | Inr ToReopened \<Rightarrow> a \<in> {Some Completed, Some Rejected} \<and> b = Some Queued
      | Inr ToWaiting \<Rightarrow> b = a \<or> b = completes a
      | Inr ToNoop \<Rightarrow> b = a
      | Inl _ \<Rightarrow> b = a \<or> b = completes a)"

locale transition_store =
  fixes ops :: "'s transition_ops"
    and st :: "'s \<Rightarrow> uid \<Rightarrow> wu_state option"
    and inv :: "'s \<Rightarrow> bool"
    and snap :: "'s \<Rightarrow> uid \<Rightarrow> result list \<Rightarrow> bool"
  assumes get_unit: "op_get_unit ops i s = Inr w \<Longrightarrow> st s i = Some (wu_state w) \<and> wu_id w = i"
    and list_snap: "inv s \<Longrightarrow> op_list_results ops i s = Inr all \<Longrightarrow>
      snap s i (op_filter_pending ops (filter (\<lambda>r. res_status r = Pending) all))"
    and mark: "op_mark_completed ops i s = (r, s') \<Longrightarrow>
      st s' = (st s)(i := completes (st s i)) \<and> (inv s \<longrightarrow> inv s') \<and> (snap s i p \<longrightarrow> snap s' i p)"
    and update_ok: "op_update_state ops i Completed Queued s = (Inr u, s') \<Longrightarrow>
      st s i = Some Completed \<and> st s' = (st s)(i := Some Queued) \<and> (inv s \<longrightarrow> inv s')"
    and update_err: "op_update_state ops i Completed Queued s = (Inl e, s') \<Longrightarrow> s' = s"
    and reassign_ok: "op_reassign ops i s = (Inr u, s') \<Longrightarrow>
      st s' = (st s)(i := Some Queued) \<and> (inv s \<longrightarrow> inv s')"
    and reassign_err: "op_reassign ops i s = (Inl e, s') \<Longrightarrow> s' = s"
    and dead_ok: "op_dead_letter ops i s = (Inr True, s') \<Longrightarrow> inv s \<Longrightarrow>
      st s i \<in> {Some Queued, Some Completed, Some Rejected} \<and> st s' = (st s)(i := Some Failed) \<and> inv s'"
    and dead_idle: "op_dead_letter ops i s = (Inr False, s') \<Longrightarrow> s' = s"
    and dead_err: "op_dead_letter ops i s = (Inl e, s') \<Longrightarrow> s' = s"
    and expire: "op_expire_live ops i out s = (q, s') \<Longrightarrow> st s' = st s \<and> (inv s \<longrightarrow> inv s')"
    and accept_ok: "op_apply_accept ops w lf p m n s = (Inr u, s') \<Longrightarrow> inv s \<Longrightarrow> snap s (wu_id w) p \<Longrightarrow>
      st s (wu_id w) = Some Completed \<and> st s' = (st s)(wu_id w := Some Validated) \<and> inv s'"
    and accept_err: "op_apply_accept ops w lf p m n s = (Inl e, s') \<Longrightarrow> s' = s"
    and reject_ok: "op_apply_reject ops w p n s = (Inr u, s') \<Longrightarrow> inv s \<Longrightarrow> snap s (wu_id w) p \<Longrightarrow>
      st s (wu_id w) = Some Completed \<and> st s' = (st s)(wu_id w := Some Queued) \<and> inv s'"
    and reject_err: "op_apply_reject ops w p n s = (Inl e, s') \<Longrightarrow> s' = s"
begin

definition ok_step :: "uid \<Rightarrow> 's \<Rightarrow> tr_outcome res \<Rightarrow> 's \<Rightarrow> bool" where
  "ok_step i s r s' \<longleftrightarrow>
     inv s' \<and> (\<forall>j. j \<noteq> i \<longrightarrow> st s' j = st s j) \<and> outcome_moves r (st s i) (st s' i)"

lemma mark_step:
  assumes "op_mark_completed ops i s = (r, s')" "inv s"
  shows "inv s'" "st s' = (st s)(i := completes (st s i))" "snap s i p \<Longrightarrow> snap s' i p"
  using mark [OF assms(1)] assms(2) by blast+

lemma park_step:
  assumes "inv s" "obind (op_mark_completed ops i) (\<lambda>_. oreturn ToWaiting) s = (r, s')"
  shows "ok_step i s r s'"
proof (cases "op_mark_completed ops i s")
  case (Pair m s1)
  show ?thesis
    using assms(2) Pair mark_step [OF Pair assms(1)]
    by (cases m) (auto simp: ok_step_def outcome_moves_def)
qed

lemma reopen_step:
  assumes "inv s" "reopen ops i state s = (r, s')" "st s i = Some state"
  shows "ok_step i s r s'"
  using assms
  by (cases state)
    (auto simp: reopen_def ok_step_def outcome_moves_def split: prod.splits sum.splits
      dest: update_ok update_err reassign_ok reassign_err)

lemma validate_step:
  assumes "inv s" "wu_id w = i" "snap s i pending" "de_action dec = ActValidate"
    "apply_decision ops i w lf pending majority n dec s = (r, s')"
  shows "ok_step i s r s'"
proof (cases "op_mark_completed ops i s")
  case (Pair m s1)
  note M = mark_step [OF Pair assms(1)]
  show ?thesis
  proof (cases m)
    case (Inl e)
    then show ?thesis using assms(4,5) Pair M by (auto simp: apply_decision_def ok_step_def outcome_moves_def)
  next
    case (Inr u)
    obtain a s2 where acc: "op_apply_accept ops w lf pending majority n s1 = (a, s2)" by fastforce
    show ?thesis
    proof (cases a)
      case (Inl e)
      then have "s2 = s1" using acc accept_err by simp
      then show ?thesis using assms(4,5) Pair Inr acc Inl M
        by (auto simp: apply_decision_def ok_step_def outcome_moves_def)
    next
      case (Inr v)
      then have acc': "op_apply_accept ops w lf pending majority n s1 = (Inr v, s2)" using acc by simp
      have A: "st s1 i = Some Completed" "st s2 = (st s1)(i := Some Validated)" "inv s2"
        using accept_ok [OF acc' M(1)] M(3) [OF assms(3)] assms(2) by simp_all
      obtain e s3 where ex: "op_expire_live ops i OutSuperseded s2 = (e, s3)" by fastforce
      have "r = Inr ToValidated" "s' = s3"
        using assms(4,5) Pair \<open>m = Inr u\<close> acc' ex by (simp_all add: apply_decision_def)
      then show ?thesis using A M(2) expire [OF ex] by (auto simp: ok_step_def outcome_moves_def)
    qed
  qed
qed

lemma reject_step:
  assumes "inv s" "wu_id w = i" "snap s i pending" "de_action dec = ActReject"
    "apply_decision ops i w lf pending majority n dec s = (r, s')"
  shows "ok_step i s r s'"
proof (cases "op_mark_completed ops i s")
  case (Pair m s1)
  note M = mark_step [OF Pair assms(1)]
  show ?thesis
  proof (cases m)
    case (Inl e)
    then show ?thesis using assms(4,5) Pair M by (auto simp: apply_decision_def ok_step_def outcome_moves_def)
  next
    case (Inr u)
    obtain a s2 where rej: "op_apply_reject ops w pending n s1 = (a, s2)" by fastforce
    show ?thesis
    proof (cases a)
      case (Inl e)
      then have "s2 = s1" using rej reject_err by simp
      then show ?thesis using assms(4,5) Pair Inr rej Inl M
        by (auto simp: apply_decision_def ok_step_def outcome_moves_def)
    next
      case (Inr v)
      then have rej': "op_apply_reject ops w pending n s1 = (Inr v, s2)" using rej by simp
      then show ?thesis using assms(2,4,5) Pair \<open>m = Inr u\<close> reject_ok [OF rej' M(1)] M(2) M(3) [OF assms(3)]
        by (auto simp: apply_decision_def ok_step_def outcome_moves_def)
    qed
  qed
qed

lemma apply_decision_step:
  assumes "inv s" "wu_id w = i" "snap s i pending" "st s i = Some (wu_state w)"
    "apply_decision ops i w lf pending majority n dec s = (r, s')"
  shows "ok_step i s r s'"
proof (cases "de_action dec")
  case ActValidate
  then show ?thesis using validate_step assms by blast
next
  case ActReject
  then show ?thesis using reject_step assms by blast
next
  case ActDeadLetter
  obtain a s1 where dl: "op_dead_letter ops i s = (a, s1)" by fastforce
  consider e where "a = Inl e" | "a = Inr True" | "a = Inr False" by (metis sum.exhaust)
  then show ?thesis
  proof cases
    case 1
    then show ?thesis using assms(1,5) ActDeadLetter dl dead_err [of i s e s1]
      by (auto simp: apply_decision_def ok_step_def outcome_moves_def oreturn_def obind_def)
  next
    case 2
    then show ?thesis using assms(1,5) ActDeadLetter dl dead_ok [of i s s1]
      by (auto simp: apply_decision_def ok_step_def outcome_moves_def oreturn_def obind_def)
  next
    case 3
    then show ?thesis using assms(1,5) ActDeadLetter dl dead_idle [of i s s1]
      by (auto simp: apply_decision_def ok_step_def outcome_moves_def oreturn_def obind_def)
  qed
next
  case ActWait
  then show ?thesis using assms(1,5) reopen_step [OF assms(1) _ assms(4)] park_step [OF assms(1)]
    by (auto simp: apply_decision_def ok_step_def outcome_moves_def split: if_splits)
qed

lemma load_counts_read: "snd (load_counts ops i s) = s"
  by (simp add: load_counts_def lift_read_def obind_def split: sum.splits)

lemma decide_on_step:
  assumes "inv s" "op_get_unit ops i s = Inr w" "op_list_results ops i s = Inr all"
    "decide_on ops tp i w lf all c s = (r, s')"
  shows "ok_step i s r s'"
proof -
  let ?raw = "filter (\<lambda>r. res_status r = Pending) all"
  have w: "st s i = Some (wu_state w)" "wu_id w = i" using get_unit [OF assms(2)] by simp_all
  have sn: "snap s i (op_filter_pending ops ?raw)" by (rule list_snap [OF assms(1,3)])
  note step = apply_decision_step [OF assms(1) w(2) sn w(1)]
  show ?thesis
    using assms(4) step park_step [OF assms(1)]
    by (auto simp: decide_on_def Let_def split: if_splits sum.splits)
qed

lemma decide_and_apply_step:
  assumes "inv s" "decide_and_apply ops tp i s = (r, s')"
  shows "ok_step i s r s'"
proof -
  have idle: "ok_step i s (Inl e) s" "ok_step i s (Inr ToNoop) s" for e
    using assms(1) by (simp_all add: ok_step_def outcome_moves_def)
  show ?thesis
  proof (cases "op_get_unit ops i s")
    case (Inl e)
    then show ?thesis using assms(2) idle by (auto simp: decide_and_apply_def lift_read_def obind_def)
  next
    case w: (Inr w)
    show ?thesis
    proof (cases "is_terminal_state (wu_state w)")
      case True
      then show ?thesis using assms(2) idle w by (auto simp: decide_and_apply_def lift_read_def obind_def)
    next
      case nt: False
      show ?thesis
      proof (cases "op_get_leaf ops (wu_leaf w) s")
        case (Inl e)
        then show ?thesis using assms(2) idle w nt by (auto simp: decide_and_apply_def lift_read_def obind_def)
      next
        case lf: (Inr lf)
        show ?thesis
        proof (cases "op_list_results ops i s")
          case (Inl e)
          then show ?thesis using assms(2) idle w nt lf by (auto simp: decide_and_apply_def lift_read_def obind_def)
        next
          case all: (Inr all)
          obtain c where c: "load_counts ops i s = (c, s)" using load_counts_read [of i s] by (metis prod.collapse)
          show ?thesis
          proof (cases c)
            case (Inl e)
            then show ?thesis using assms(2) idle w nt lf all c by (auto simp: decide_and_apply_def lift_read_def obind_def)
          next
            case (Inr ct)
            then have "decide_on ops tp i w lf all ct s = (r, s')"
              using assms(2) w nt lf all c by (simp add: decide_and_apply_def lift_read_def obind_def)
            then show ?thesis by (rule decide_on_step [OF assms(1) w all])
          qed
        qed
      qed
    qed
  qed
qed

lemma decide_and_apply_terminal:
  assumes "op_get_unit ops i s = Inr w" "is_terminal_state (wu_state w)"
  shows "decide_and_apply ops tp i s = (Inr ToNoop, s)"
  using assms by (simp add: decide_and_apply_def lift_read_def obind_def)

lemma evaluate_step:
  assumes "inv s" "evaluate ops tp i s = (r, evicted, s')"
  shows "inv s'" "\<And>j. j \<noteq> i \<Longrightarrow> st s' j = st s j"
    "outcome_moves r (st s i) (st s' i) \<or> outcome_moves r (completes (st s i)) (st s' i)"
    "evicted \<longleftrightarrow> (\<exists>out. r = Inr out \<and> changes_unit_state out)"
proof -
  obtain r1 s1 where d1: "decide_and_apply ops tp i s = (r1, s1)" by fastforce
  note S1 = decide_and_apply_step [OF assms(1) d1]
  show ev: "evicted \<longleftrightarrow> (\<exists>out. r = Inr out \<and> changes_unit_state out)"
    using assms(2) by (auto simp: evaluate_def Let_def split: prod.splits sum.splits)
  have both: "inv s' \<and> (\<forall>j. j \<noteq> i \<longrightarrow> st s' j = st s j) \<and>
    (outcome_moves r (st s i) (st s' i) \<or> outcome_moves r (completes (st s i)) (st s' i))"
  proof (cases "r1 = Inl StaleSnapshot")
    case True
    then have d2: "decide_and_apply ops tp i s1 = (r, s')"
      using assms(2) d1 by (auto simp: evaluate_def Let_def split: prod.splits)
    have i1: "inv s1" "st s1 i = st s i \<or> st s1 i = completes (st s i)" "\<forall>j. j \<noteq> i \<longrightarrow> st s1 j = st s j"
      using S1 True by (auto simp: ok_step_def outcome_moves_def)
    have "ok_step i s1 r s'" by (rule decide_and_apply_step [OF i1(1) d2])
    then have S2: "inv s'" "\<forall>j. j \<noteq> i \<longrightarrow> st s' j = st s1 j" "outcome_moves r (st s1 i) (st s' i)"
      by (simp_all add: ok_step_def)
    from S2(3) i1(2) have "outcome_moves r (st s i) (st s' i) \<or> outcome_moves r (completes (st s i)) (st s' i)"
      by (elim disjE) simp_all
    then show ?thesis using S2 i1(3) by simp
  next
    case False
    then have "r = r1" "s' = s1"
      using assms(2) d1 by (auto simp: evaluate_def Let_def split: sum.splits api_error.splits)
    then show ?thesis using S1 by (simp add: ok_step_def)
  qed
  show "inv s'" "\<And>j. j \<noteq> i \<Longrightarrow> st s' j = st s j"
    "outcome_moves r (st s i) (st s' i) \<or> outcome_moves r (completes (st s i)) (st s' i)"
    using both by blast+
qed

end

end
