(* ===== verification/Evaluation.thy ===== *)
theory Evaluation
  imports Transitioner
begin

text \<open>
  The transitioner on the database: its stores are the repositories and the engine
  (the wiring of \<open>cmd/\<close> and \<open>validation/txrunner.go\<close>). The invariant is that
  primary keys are unique and that a finalized unit holds no pending result.
\<close>

subsection \<open>The stores\<close>

definition drop_value :: "('s, 'a) op \<Rightarrow> ('s, unit) op" where
  "drop_value m = obind m (\<lambda>_. oreturn ())"

definition db_ops :: "engine \<Rightarrow> (string \<Rightarrow> string) \<Rightarrow> db transition_ops" where
  "db_ops en sha_hex =
     \<lparr>op_get_unit = (\<lambda>i d. case find_unit i d of None \<Rightarrow> Inl (NotFound ''work_unit'') | Some w \<Rightarrow> Inr w),
      op_get_leaf = (\<lambda>l d. case db_leafs d l of None \<Rightarrow> Inl (NotFound ''leaf'') | Some lf \<Rightarrow> Inr lf),
      op_list_results = (\<lambda>i d. Inr (list_by_work_unit i d)),
      op_count_live = (\<lambda>i d. Inr (count_live_copies i d)),
      op_count_total = (\<lambda>i d. Inr (count_total_copies i d)),
      op_count_error = (\<lambda>i d. Inr (count_error_copies i d)),
      op_count_probation_live = (\<lambda>i d. Inr (count_probation_live_copies i d)),
      op_mark_completed = mark_completed,
      op_update_state = (\<lambda>i from to. drop_value (update_state i from to)),
      op_reassign = (\<lambda>i. drop_value (reassign i)),
      op_dead_letter = dead_letter_if_exhausted,
      op_expire_live = expire_live_copies,
      op_filter_pending = version_homogeneous_group,
      op_compare = compare_results sha_hex,
      op_apply_accept = (\<lambda>w lf pending majority n. drop_value (accept_results en w lf pending majority n)),
      op_apply_reject = (\<lambda>w pending n. drop_value (reject_all en w pending n))\<rparr>"

definition unit_states :: "db \<Rightarrow> uid \<Rightarrow> wu_state option" where
  "unit_states d i = map_option wu_state (find_unit i d)"

definition store_ok :: "db \<Rightarrow> bool" where
  "store_ok d \<longleftrightarrow> units_distinct d \<and> results_distinct d \<and> terminal_clean d"

lemma store_okI:
  assumes "store_ok d" "map wu_id (db_units d') = map wu_id (db_units d)"
    "map res_id (db_results d') = map res_id (db_results d)" "terminal_clean d'"
  shows "store_ok d'"
  using assms unfolding store_ok_def units_distinct_def results_distinct_def by simp

lemma drop_value_Inr: "drop_value m s = (Inr u, s') \<Longrightarrow> \<exists>a. m s = (Inr a, s')"
  by (auto simp: drop_value_def obind_eq_Inr)

lemma drop_value_Inl: "drop_value m s = (Inl e, s') \<Longrightarrow> m s = (Inl e, s')"
  by (auto simp: drop_value_def obind_def split: prod.splits sum.splits)

subsection \<open>What each store operation does to the states of the units\<close>

lemma unit_states_update:
  assumes "\<And>w. wu_id (f w) = wu_id w"
  shows "unit_states (update_units P f d) i =
    map_option (\<lambda>w. wu_state (if P w then f w else w)) (find_unit i d)"
  using assms by (auto simp: unit_states_def find_unit_update_units option.map_comp comp_def intro!: option.map_cong)

lemma unit_states_row:
  assumes "\<And>w. wu_id (f w) = wu_id w" "\<And>w. P w \<Longrightarrow> wu_id w = i"
  shows "j \<noteq> i \<Longrightarrow> unit_states (update_units P f d) j = unit_states d j"
  using assms find_unit_id [of j d]
  by (cases "find_unit j d") (auto simp: unit_states_def find_unit_update_units)

lemma unit_states_only [simp]:
  "unit_states (update_results P f d) = unit_states d" "unit_states (update_copies Q g d) = unit_states d"
  "unit_states (d\<lparr>db_results := rs\<rparr>) = unit_states d" "unit_states (d\<lparr>db_ledger := ls\<rparr>) = unit_states d"
  "unit_states (d\<lparr>db_volunteers := vs\<rparr>) = unit_states d" "unit_states (d\<lparr>db_reliability := hr\<rparr>) = unit_states d"
  "unit_states (d\<lparr>db_trust := tt\<rparr>) = unit_states d"
  by (simp_all add: unit_states_def [abs_def] find_unit_def)

lemma unit_states_mark:
  "mark_completed i d = (r, d') \<Longrightarrow> unit_states d' = (unit_states d)(i := completes (unit_states d i))"
proof
  fix j assume m: "mark_completed i d = (r, d')"
  then have d': "d' = snd (mark_completed i d)" by simp
  show "unit_states d' j = ((unit_states d)(i := completes (unit_states d i))) j"
  proof (cases "j = i")
    case True
    then show ?thesis using find_unit_id [of i d]
      by (cases "find_unit i d") (auto simp: d' mark_completed_eq find_unit_update_units unit_states_def completes_def)
  next
    case False
    then show ?thesis unfolding d' mark_completed_eq by (simp, intro unit_states_row [where i = i]) simp_all
  qed
qed

lemma unit_states_moved:
  assumes "find_unit i d = Some w" "wu_state w = from"
  shows "unit_states (moved_db i from to w d) = (unit_states d)(i := Some to)"
proof
  fix j
  show "unit_states (moved_db i from to w d) j = ((unit_states d)(i := Some to)) j"
  proof (cases "j = i")
    case True
    then show ?thesis using assms find_unit_id [OF assms(1)] by (simp add: unit_states_update)
  next
    case False
    then show ?thesis by (simp, intro unit_states_row [where i = i]) simp_all
  qed
qed

lemma terminal_clean_states:
  "units_distinct d \<Longrightarrow> terminal_clean d \<longleftrightarrow>
     (\<forall>i st. unit_states d i = Some st \<longrightarrow> is_terminal_state st \<longrightarrow> pending_of i d = [])"
proof -
  assume u: "units_distinct d"
  have "find_unit (wu_id w) d = Some w" if "w \<in> set (db_units d)" for w
    by (rule distinct_units_find [OF u [unfolded units_distinct_def] that refl])
  then have a: "w \<in> set (db_units d) \<Longrightarrow> unit_states d (wu_id w) = Some (wu_state w)" for w
    by (simp add: unit_states_def)
  have b: "\<exists>w\<in>set (db_units d). wu_id w = i \<and> wu_state w = st" if "unit_states d i = Some st" for i st
    using that find_unit_in [of i d] find_unit_id [of i d] by (auto simp: unit_states_def)
  show ?thesis unfolding terminal_clean_def using a b by metis
qed

lemma store_ok_step:
  assumes "store_ok d" "map wu_id (db_units d') = map wu_id (db_units d)"
    "map res_id (db_results d') = map res_id (db_results d)"
    "\<And>j. j \<noteq> i \<Longrightarrow> unit_states d' j = unit_states d j \<and> pending_of j d' = pending_of j d"
    "\<And>st. unit_states d' i = Some st \<Longrightarrow> is_terminal_state st \<Longrightarrow> pending_of i d' = []"
  shows "store_ok d'"
proof (rule store_okI [OF assms(1-3)])
  have u: "units_distinct d" "units_distinct d'" using assms(1,2) by (simp_all add: store_ok_def units_distinct_def)
  have "\<forall>j st. unit_states d j = Some st \<longrightarrow> is_terminal_state st \<longrightarrow> pending_of j d = []"
    using assms(1) u terminal_clean_states by (simp add: store_ok_def)
  then have "pending_of j d' = []" if "unit_states d' j = Some st" "is_terminal_state st" for j st
    using assms(4) [of j] assms(5) [of st] that by (cases "j = i") metis+
  then show "terminal_clean d'" using terminal_clean_states [OF u(2)] by blast
qed

lemma update_state_states:
  assumes "update_state i from to d = (Inr w', d')"
  shows "unit_states d i = Some from" "unit_states d' = (unit_states d)(i := Some to)"
    "\<not> is_terminal_state to \<Longrightarrow> store_ok d \<Longrightarrow> store_ok d'"
proof -
  from assms obtain w where w: "find_unit i d = Some w" "wu_state w = from" "chart_edge from to"
    "d' = moved_db i from to w d" "w' = (persist_unit (transition_rule (db_now d) from to w) w)\<lparr>wu_updated_at := db_now d\<rparr>"
    by (rule update_stateD)
  show "unit_states d i = Some from" using w(1,2) by (simp add: unit_states_def)
  show s: "unit_states d' = (unit_states d)(i := Some to)" unfolding w(4) by (rule unit_states_moved [OF w(1,2)])
  show "store_ok d'" if "\<not> is_terminal_state to" "store_ok d"
    by (rule store_ok_step [OF that(2), where i = i])
      (use that(1) s update_state_find [OF assms] w(4) in simp_all)
qed

lemma reassign_states:
  assumes "reassign i d = (Inr x, d')"
  shows "unit_states d' = (unit_states d)(i := Some Queued)" "store_ok d \<Longrightarrow> store_ok d'"
proof -
  obtain w w' where w: "find_unit i d = Some w" "update_state i (wu_state w) Queued d = (Inr w', d')"
    using assms by (auto simp: reassign_def get_unit_def split: option.splits if_splits prod.splits sum.splits)
  note u = update_state_states [OF w(2)]
  show "unit_states d' = (unit_states d)(i := Some Queued)" by (rule u(2))
  show "store_ok d \<Longrightarrow> store_ok d'" by (rule u(3)) (simp add: is_terminal_state_def)
qed

lemma reassign_fail: "reassign i d = (Inl e, d') \<Longrightarrow> d' = d"
  by (auto simp: reassign_def get_unit_def split: option.splits if_splits prod.splits sum.splits dest: update_state_fail)

lemma pending_elsewhere:
  assumes "j \<noteq> i" "\<And>r. res_unit (f r) = res_unit r"
  shows "pending_of j (update_results (\<lambda>r. res_unit r = i \<and> Q r) f d) = pending_of j d"
proof -
  have "filter (\<lambda>r. res_unit r = j \<and> res_status r = Pending) (update_where (\<lambda>r. res_unit r = i \<and> Q r) f rs) =
      filter (\<lambda>r. res_unit r = j \<and> res_status r = Pending) rs" for rs
    using assms by (induction rs) auto
  then show ?thesis by (simp add: pending_of_def update_results_def)
qed

lemma dead_letter_states:
  assumes "dead_letter_if_exhausted i d = (Inr True, d')" "store_ok d"
  shows "unit_states d i \<in> {Some Queued, Some Completed, Some Rejected}"
    "unit_states d' = (unit_states d)(i := Some Failed)" "store_ok d'"
proof -
  let ?sel = "\<lambda>w. wu_id w = i \<and> dead_letter_guard d w"
  let ?u = "update_units ?sel (\<lambda>w. w\<lparr>wu_state := Failed, wu_flagged_for_review := True\<rparr>) d"
  have c: "count_if ?sel (db_units d) > 0" and d': "d' =
      update_results (\<lambda>r. res_unit r = i \<and> res_status r = Pending) (\<lambda>r. r\<lparr>res_status := Superseded\<rparr>) ?u"
    using assms(1) by (auto simp: dead_letter_if_exhausted_def Let_def split: if_splits)
  then obtain w where "w \<in> set (db_units d)" "wu_id w = i" and g: "dead_letter_guard d w"
    using count_if_zero [of ?sel "db_units d"] by auto
  then have f: "find_unit i d = Some w"
    using distinct_units_find [of d w i] assms(2) by (simp add: store_ok_def units_distinct_def)
  then show "unit_states d i \<in> {Some Queued, Some Completed, Some Rejected}"
    using g by (auto simp: unit_states_def dead_letter_guard_def)
  show s: "unit_states d' = (unit_states d)(i := Some Failed)"
  proof
    fix j
    show "unit_states d' j = ((unit_states d)(i := Some Failed)) j"
    proof (cases "j = i")
      case True
      then show ?thesis using f g find_unit_id [OF f] by (simp add: d' unit_states_def find_unit_update_units)
    next
      case False
      then show ?thesis by (simp add: d', intro unit_states_row [where i = i]) simp_all
    qed
  qed
  have "map res_id (db_results d') = map res_id (db_results d)"
    unfolding d' by (simp add: update_results_def map_key_update_where)
  then show "store_ok d'"
    by (intro store_ok_step [OF assms(2), where i = i])
      (simp_all add: s, simp_all add: d' pending_elsewhere pending_of_cleared)
qed

lemma dead_letter_not:
  assumes "dead_letter_if_exhausted i d = (r, d')" "r \<noteq> Inr True"
  shows "d' = d"
  using assms by (auto simp: dead_letter_if_exhausted_def Let_def split: if_splits)

text \<open>The effects on accounts leave units and results alone.\<close>

abbreviation same_rows :: "db \<Rightarrow> db \<Rightarrow> bool" where
  "same_rows d d' \<equiv> db_units d' = db_units d \<and> db_results d' = db_results d"

lemma same_rows_states: "same_rows d d' \<Longrightarrow> unit_states d' = unit_states d \<and> store_ok d' = store_ok d"
  by (simp add: unit_states_def [abs_def] find_unit_def store_ok_def units_distinct_def results_distinct_def
      terminal_clean_def pending_of_def)

lemma record_adjudicated_rows: "same_rows d (fold (record_adjudicated_db en ok) rs d)"
proof (induction rs arbitrary: d)
  case (Cons r rs)
  have "same_rows d (record_adjudicated_db en ok r d)" by (simp add: record_adjudicated_db_def split: option.splits)
  then show ?case using Cons.IH [of "record_adjudicated_db en ok r d"] by simp
qed simp

lemma accept_effects_rows: "same_rows d (accept_effects en w lf agreed rejected d)"
  using record_adjudicated_rows by (simp add: accept_effects_def accrue_trust_def record_reliability_def)

lemma accept_results_Inl: "accept_results en w lf p m n d = (Inl e, d') \<Longrightarrow> d' = d"
  unfolding accept_results_def accept_tx_def
  by (auto split: prod.splits sum.splits dest: run_finalization_Inl)

lemma reject_all_Inl: "reject_all en w p n d = (Inl e, d') \<Longrightarrow> d' = d"
  unfolding reject_all_def reject_tx_def
  by (auto split: prod.splits sum.splits dest: run_finalization_Inl)

lemma accept_results_states:
  assumes "accept_results en w lf p m n d = (Inr g, d')" "store_ok d" "snapshot_of (wu_id w) p d"
  shows "unit_states d (wu_id w) = Some Completed" "unit_states d' = (unit_states d)(wu_id w := Some Validated)"
    "store_ok d'"
proof -
  obtain d1 where tx: "accept_tx en w lf p m n d = (Inr g, d1)"
    and d': "d' = accept_effects en w lf (agreed_part m p) (rejected_part m p) d1"
    using assms(1) by (auto simp: accept_results_def split: prod.splits sum.splits)
  have rd: "results_distinct d" using assms(2) by (simp add: store_ok_def)
  let ?d0 = "d\<lparr>db_results := map (adjudicate_row (db_now d) (wu_id w) (final_status m p)) (db_results d)\<rparr>"
  obtain w1 where e: "find_unit (wu_id w) d = Some w1" "wu_state w1 = Completed"
    "grows_ledger w (credit_amount lf) g (moved_db (wu_id w) Completed Validated w1 ?d0) d1"
    by (rule accept_tx_effect [OF tx assms(3) rd]) (erule that)
  obtain es where es: "d1 = (moved_db (wu_id w) Completed Validated w1 ?d0)
      \<lparr>db_ledger := db_ledger (moved_db (wu_id w) Completed Validated w1 ?d0) @ es\<rparr>"
    using e(3) by (auto simp: grows_ledger_def)
  show "unit_states d (wu_id w) = Some Completed" using e(1,2) by (simp add: unit_states_def)
  have s1: "unit_states d1 = (unit_states d)(wu_id w := Some Validated)"
    unfolding es using unit_states_moved [of "wu_id w" ?d0 w1 Completed Validated] e(1,2) by simp
  have rows: "db_results d1 = map (adjudicate_row (db_now d) (wu_id w) (final_status m p)) (db_results d)"
    by (simp add: es)
  note p1 = pending_after_adjudicate [OF final_status_not_pending rows]
  have ids: "map wu_id (db_units d1) = map wu_id (db_units d)"
    unfolding es by simp
  have "store_ok d1"
    by (rule store_ok_step [OF assms(2) ids, where i = "wu_id w"])
      (simp_all add: s1 p1, simp add: rows comp_def)
  then show "unit_states d' = (unit_states d)(wu_id w := Some Validated)" "store_ok d'"
    unfolding d' using same_rows_states [OF accept_effects_rows] s1 by simp_all
qed

lemma reject_all_states:
  assumes "reject_all en w p n d = (Inr g, d')" "store_ok d"
  shows "unit_states d (wu_id w) = Some Completed" "unit_states d' = (unit_states d)(wu_id w := Some Queued)"
    "store_ok d'"
proof -
  obtain d1 where tx: "reject_tx w p n d = (Inr g, d1)"
    and d': "d' = record_reliability en False p (fold (record_adjudicated_db en False) p d1)"
    using assms(1) by (auto simp: reject_all_def split: prod.splits sum.splits)
  obtain u1 d2 w2 d3 w3 where s:
    "batch_update_validation_status (map res_id p) Disagreed d = (Inr u1, d2)"
    "update_state (wu_id w) Completed Rejected d2 = (Inr w2, d3)"
    "reassign (wu_id w) d3 = (Inr (w3, g), d1)"
    using tx unfolding reject_tx_def run_finalization_Inr by (auto simp: obind_eq_Inr)
  have d2: "d2 = d\<lparr>db_results := map (mark_row (db_now d) (set (map res_id p)) Disagreed) (db_results d)\<rparr>"
    by (rule batch_ok [OF s(1)])
  note u = update_state_states [OF s(2)] and r = reassign_states [OF s(3)]
  show "unit_states d (wu_id w) = Some Completed" using u(1) by (simp add: d2)
  have s1: "unit_states d1 = (unit_states d)(wu_id w := Some Queued)" by (simp add: r(1) u(2)) (simp add: d2)
  have "pending_of i d2 = filter (\<lambda>r. res_id r \<notin> set (map res_id p)) (pending_of i d)" for i
  proof -
    have "filter (\<lambda>r. res_unit r = i \<and> res_status r = Pending) (map (mark_row n X Disagreed) rs) =
      filter (\<lambda>r. res_id r \<notin> X) (filter (\<lambda>r. res_unit r = i \<and> res_status r = Pending) rs)" for rs n X
      by (induction rs) (auto simp: mark_row_def)
    then show ?thesis by (simp add: d2 pending_of_def)
  qed
  then have "terminal_clean d2" using assms(2) by (simp add: store_ok_def terminal_clean_def) (simp add: d2)
  then have "store_ok d2"
    by (intro store_okI [OF assms(2)]) (simp_all add: d2 comp_def)
  then have "store_ok d1" using r(2) u(3) by (simp add: is_terminal_state_def)
  moreover have "same_rows d1 d'"
    using record_adjudicated_rows [where d = d1 and en = en and ok = False and rs = p] by (simp add: d' record_reliability_def)
  ultimately show "unit_states d' = (unit_states d)(wu_id w := Some Queued)" "store_ok d'"
    using same_rows_states [of d1 d'] s1 by simp_all
qed

subsection \<open>The stores keep the contract\<close>

lemma vh_group_filter: "\<exists>P. version_homogeneous_group pending = filter P pending"
proof (cases "pending = []")
  case True
  then show ?thesis by (simp add: version_homogeneous_group_def)
next
  case False
  then obtain k where "version_homogeneous_group pending = version_group k pending" using vh_group_cases by blast
  then show ?thesis by (auto simp: version_group_def)
qed

lemma snapshot_of_loaded:
  assumes "results_distinct d"
  shows "snapshot_of i (version_homogeneous_group (filter (\<lambda>r. res_status r = Pending) (list_by_work_unit i d))) d"
proof -
  let ?l = "filter (\<lambda>r. res_status r = Pending) (list_by_work_unit i d)"
  obtain P where P: "version_homogeneous_group ?l = filter P ?l" using vh_group_filter by blast
  have "distinct (map res_id (filter P ?l))"
    using list_distinct_ids [OF assms, of i] by (simp add: distinct_map_filter)
  moreover have "set (filter P ?l) \<subseteq> set (pending_of i d)"
    by (auto simp: list_by_work_unit_def results_of_def pending_of_def)
  ultimately show ?thesis unfolding P by (simp add: snapshot_of_def)
qed

lemma mark_completed_keeps:
  assumes "mark_completed i d = (r, d')"
  shows "store_ok d \<Longrightarrow> store_ok d'" "snapshot_of j p d' = snapshot_of j p d"
proof -
  have d': "d' = snd (mark_completed i d)" using assms by simp
  show "store_ok d'" if ok: "store_ok d"
  proof (rule store_okI [OF ok])
    show "terminal_clean d'" unfolding d' by (rule terminal_clean_mark_completed) (use ok in \<open>simp add: store_ok_def\<close>)
  qed (simp_all add: d' mark_completed_eq)
  show "snapshot_of j p d' = snapshot_of j p d" by (simp add: d' mark_completed_eq snapshot_of_def)
qed

lemma expire_live_keeps:
  assumes "expire_live_copies i out d = (r, d')"
  shows "unit_states d' = unit_states d" "store_ok d' = store_ok d"
  using assms by (auto simp: expire_live_copies_def Let_def store_ok_def units_distinct_def results_distinct_def)

interpretation tr: transition_store "db_ops en sha_hex" unit_states store_ok "\<lambda>d i p. snapshot_of i p d"
  for en sha_hex
proof (unfold_locales, goal_cases)
  case (1 i s w)
  then show ?case by (auto simp: db_ops_def unit_states_def find_unit_id split: option.splits)
next
  case (2 s i all)
  then show ?case using snapshot_of_loaded [of s i] by (auto simp: db_ops_def store_ok_def)
next
  case (3 i s r s' p)
  then have m: "mark_completed i s = (r, s')" by (simp add: db_ops_def)
  show ?case using unit_states_mark [OF m] mark_completed_keeps [OF m] by simp
next
  case (4 i s u s')
  then obtain w where u: "update_state i Completed Queued s = (Inr w, s')"
    by (auto simp: db_ops_def dest: drop_value_Inr)
  show ?case using update_state_states [OF u] by (simp add: is_terminal_state_def)
next
  case (5 i s e s')
  then show ?case by (auto simp: db_ops_def dest!: drop_value_Inl update_state_fail)
next
  case (6 i s u s')
  then obtain x where u: "reassign i s = (Inr x, s')" by (auto simp: db_ops_def dest: drop_value_Inr)
  show ?case using reassign_states [OF u] by simp
next
  case (7 i s e s')
  then show ?case by (auto simp: db_ops_def dest!: drop_value_Inl reassign_fail)
next
  case (8 i s s')
  then show ?case using dead_letter_states [of i s s'] by (simp add: db_ops_def)
next
  case (9 i s s')
  then show ?case using dead_letter_not [of i s "Inr False" s'] by (simp add: db_ops_def)
next
  case (10 i s e s')
  then show ?case using dead_letter_not [of i s "Inl e" s'] by (simp add: db_ops_def)
next
  case (11 i out s q s')
  then have x: "expire_live_copies i out s = (q, s')" by (simp add: db_ops_def)
  show ?case using expire_live_keeps [OF x] by simp
next
  case (12 w lf p m n s u s')
  then obtain x where u: "accept_results en w lf p m n s = (Inr x, s')" by (auto simp: db_ops_def dest: drop_value_Inr)
  show ?case using accept_results_states [OF u 12(2,3)] by simp
next
  case (13 w lf p m n s e s')
  then show ?case by (auto simp: db_ops_def dest!: drop_value_Inl accept_results_Inl)
next
  case (14 w p n s u s')
  then obtain x where u: "reject_all en w p n s = (Inr x, s')" by (auto simp: db_ops_def dest: drop_value_Inr)
  show ?case using reject_all_states [OF u 14(2)] by simp
next
  case (15 w p n s e s')
  then show ?case by (auto simp: db_ops_def dest!: drop_value_Inl reject_all_Inl)
qed

subsection \<open>What an evaluation does\<close>

text \<open>One evaluation of a unit moves only that unit, and only as its outcome says: VALIDATED and
  REJECTED (which requeues) go through COMPLETED, a dead letter ends in FAILED from QUEUED, COMPLETED or
  REJECTED, a reopening returns a COMPLETED or REJECTED unit to QUEUED, and every other outcome, a failure
  included, leaves the unit where it was or parks it COMPLETED. The invariant of the store is kept: primary
  keys stay unique and no finalized unit holds a pending result. The dispatch cache is told to drop the
  unit exactly when the outcome changed its state.\<close>

theorem evaluation_follows_its_outcome:
  assumes "store_ok d" "evaluate (db_ops en sha_hex) tp i d = (r, evicted, d')"
  shows "store_ok d' \<and> (\<forall>j. j \<noteq> i \<longrightarrow> unit_states d' j = unit_states d j) \<and>
    (outcome_moves r (unit_states d i) (unit_states d' i) \<or>
     outcome_moves r (completes (unit_states d i)) (unit_states d' i)) \<and>
    (evicted \<longleftrightarrow> r \<in> {Inr ToValidated, Inr ToRejected, Inr ToDeadLettered, Inr ToReopened})"
  using tr.evaluate_step [OF assms] by (auto simp: changes_unit_state_def)

definition settled_db :: db where
  "settled_db = sample_db [(queued_unit ''u'' ''l'')] []
     [ok_result ''r1'' ''a'' ''x'', ok_result ''r2'' ''b'' ''x'']"

theorem evaluation_follows_its_outcome_witness:
  "store_ok (snd (snd (evaluate (db_ops default_engine (\<lambda>s. s)) (en_trust_policy default_engine) ''u'' settled_db)))"
proof -
  have ok: "store_ok settled_db"
    by (simp add: settled_db_def store_ok_def units_distinct_def results_distinct_def terminal_clean_def sample_db_def
        ok_result_def queued_unit_def is_terminal_state_def)
  obtain r e d' where ev: "evaluate (db_ops default_engine (\<lambda>s. s)) (en_trust_policy default_engine) ''u'' settled_db = (r, e, d')"
    using prod_cases3 by blast
  show ?thesis using evaluation_follows_its_outcome [OF ok ev] ev by simp
qed

text \<open>A finalized unit is left alone: evaluating a VALIDATED or FAILED unit again is a no-op on the whole
  database, whatever results or copies exist, so re-driving a unit any number of times is safe.\<close>

theorem evaluation_of_terminal_is_noop:
  assumes "find_unit i d = Some w" "is_terminal_state (wu_state w)"
  shows "evaluate (db_ops en sha_hex) tp i d = (Inr ToNoop, False, d)"
proof -
  have "decide_and_apply (db_ops en sha_hex) tp i d = (Inr ToNoop, d)"
    by (rule tr.decide_and_apply_terminal [of _ _ i d w]) (use assms in \<open>simp_all add: db_ops_def\<close>)
  then show ?thesis by (simp add: evaluate_def Let_def changes_unit_state_def)
qed

theorem evaluation_of_terminal_is_noop_witness:
  "let d = sample_db [(queued_unit ''u'' ''l'')\<lparr>wu_state := Validated\<rparr>] [] [ok_result ''r1'' ''a'' ''x''] in
   evaluate (db_ops default_engine (\<lambda>s. s)) (en_trust_policy default_engine) ''u'' d = (Inr ToNoop, False, d)"
proof -
  let ?w = "(queued_unit ''u'' ''l'')\<lparr>wu_state := Validated\<rparr>"
  have "find_unit ''u'' (sample_db [?w] [] [ok_result ''r1'' ''a'' ''x'']) = Some ?w" "is_terminal_state (wu_state ?w)"
    by (simp_all add: find_unit_def sample_db_def queued_unit_def is_terminal_state_def)
  from evaluation_of_terminal_is_noop [OF this] show ?thesis unfolding Let_def .
qed

subsection \<open>A submission between the decision and its application\<close>

text \<open>A decision that a submission has overtaken is never applied. If an account's result lands between the
  reading of the snapshot and the transaction that applies the decision, then accepting and rejecting on
  that snapshot are both refused as stale and leave the database exactly as the submission left it, so
  the evaluator decides again on a snapshot with the new result.\<close>

theorem overtaken_decision_is_refused:
  assumes "submit_result r s d = (SubmitAccepted q completed, d1)" "su_output_url s = ''''" "su_unit s = wu_id w"
    "n = count_pending_by_work_unit (wu_id w) d"
  shows "accept_results en w lf p m n d1 = (Inl StaleSnapshot, d1) \<and> reject_all en w p n d1 = (Inl StaleSnapshot, d1)"
proof -
  obtain w0 c where sr: "submit_record r s w0 c d = (SubmitAccepted q completed, d1)"
    using assms(1) by (auto simp: submit_result_def split: option.splits sum.splits if_splits prod.splits)
      (auto simp: submit_copy_def split: option.splits if_splits)
  have "count_pending_by_work_unit (wu_id w) d1 = n + 1"
  proof (cases rule: submit_record_cases [of d s r w0 c])
    case (ok d2)
    have "count_pending_by_work_unit (wu_id w) d2 = n + 1"
      using assms(2-4) by (simp add: ok(2) count_pending_by_work_unit_def)
    moreover have "d1 = d2 \<or> d1 = snd (mark_completed (su_unit s) d2)" using ok(3) sr by (auto split: if_splits)
    ultimately show ?thesis by (auto simp: mark_completed_eq)
  qed (use sr in simp_all)
  then have "count_pending_by_work_unit (wu_id w) d1 \<noteq> n" by simp
  then show ?thesis
    by (simp add: accept_results_def accept_tx_def reject_all_def reject_tx_def run_finalization_stale)
qed

theorem overtaken_decision_is_refused_witness:
  "let w = queued_unit ''u'' ''l''; d = sample_db [w] [reserved_copy ''c0'' ''u'' ''a''] [ok_result ''r1'' ''b'' ''x''];
       s = \<lparr>su_unit = ''u'', su_volunteer = ''a'', su_output = OutputDoc JNull, su_output_url = '''',
            su_checksum = ''x'', su_artifact_version = None\<rparr>;
       d1 = snd (submit_result ''r2'' s d)
   in fst (reject_all default_engine w [ok_result ''r1'' ''b'' ''x''] 1 d1) = Inl StaleSnapshot"
proof -
  let ?w = "queued_unit ''u'' ''l''" and ?d = "sample_db [queued_unit ''u'' ''l''] [reserved_copy ''c0'' ''u'' ''a''] [ok_result ''r1'' ''b'' ''x'']"
  let ?s = "\<lparr>su_unit = ''u'', su_volunteer = ''a'', su_output = OutputDoc JNull, su_output_url = '''',
            su_checksum = ''x'', su_artifact_version = None\<rparr>"
  have "fst (submit_result ''r2'' ?s ?d) = SubmitAccepted ''r2'' True" by code_simp
  then obtain d1 where d1: "submit_result ''r2'' ?s ?d = (SubmitAccepted ''r2'' True, d1)" by (metis prod.collapse)
  have "su_output_url ?s = ''''" "su_unit ?s = wu_id ?w" "1 = count_pending_by_work_unit (wu_id ?w) ?d"
    by (simp_all add: queued_unit_def count_pending_by_work_unit_def sample_db_def ok_result_def)
  from overtaken_decision_is_refused [OF d1 this] d1 show ?thesis unfolding Let_def by simp
qed

end
