(* ===== verification/Agreement.thy ===== *)
theory Agreement
  imports Evaluation
begin

text \<open>
  One contract, three readers. The transitioner decides on counts it loads and a policy it resolves in
  Go; the dead-letter statement re-checks the decision in SQL; the dispatch queries re-compute coverage
  and budget in SQL. The lemmas here relate the loaded snapshot (\<open>transition/transitioner.go\<close>) to the SQL
  of \<open>workunit/redundancy_sql.go\<close> on the same database.
\<close>

subsection \<open>The snapshot an evaluation loads\<close>

definition loaded_pending :: "uid \<Rightarrow> db \<Rightarrow> result list" where
  "loaded_pending i d =
     version_homogeneous_group (filter (\<lambda>r. res_status r = Pending) (list_by_work_unit i d))"

definition loaded_counts :: "uid \<Rightarrow> db \<Rightarrow> counts" where
  "loaded_counts i d = \<lparr>ct_live = count_live_copies i d, ct_total = count_total_copies i d,
     ct_error = count_error_copies i d, ct_probation_live = count_probation_live_copies i d\<rparr>"

definition loaded_snapshot :: "trust_policy \<Rightarrow> leaf \<Rightarrow> work_unit \<Rightarrow> db \<Rightarrow> verdict option \<Rightarrow> snapshot" where
  "loaded_snapshot tp lf w d cmp =
     unit_snapshot w (resolve_policy_with_trust lf w tp) (loaded_counts (wu_id w) d) (loaded_pending (wu_id w) d) cmp"

lemma loaded_snapshot_simps [simp]:
  "sn_state (loaded_snapshot tp lf w d cmp) = wu_state w"
  "sn_policy (loaded_snapshot tp lf w d cmp) = resolve_policy_with_trust lf w tp"
  "sn_live_copies (loaded_snapshot tp lf w d cmp) = count_live_copies (wu_id w) d"
  "sn_total_copies (loaded_snapshot tp lf w d cmp) = budget_copies_sql (wu_id w) d"
  "sn_error_copies (loaded_snapshot tp lf w d cmp) = error_copies_sql (wu_id w) d"
  "sn_pending_count (loaded_snapshot tp lf w d cmp) = int (length (loaded_pending (wu_id w) d))"
  "sn_probation_live_copies (loaded_snapshot tp lf w d cmp) = count_probation_live_copies (wu_id w) d"
  "sn_probation_pending_count (loaded_snapshot tp lf w d cmp) =
     count_if (\<lambda>r. \<not> standing_countable r) (loaded_pending (wu_id w) d)"
  "sn_comparison (loaded_snapshot tp lf w d cmp) = cmp"
  by (simp_all add: loaded_snapshot_def unit_snapshot_def loaded_counts_def count_total_copies_def count_error_copies_def)

lemma load_counts_db: "load_counts (db_ops en sha_hex) i d = (Inr (loaded_counts i d), d)"
  by (simp add: load_counts_def lift_read_def db_ops_def loaded_counts_def obind_def)

lemma decide_and_apply_db:
  assumes "find_unit i d = Some w" "\<not> is_terminal_state (wu_state w)" "db_leafs d (wu_leaf w) = Some lf"
  shows "decide_and_apply (db_ops en sha_hex) tp i d =
    decide_on (db_ops en sha_hex) tp i w lf (list_by_work_unit i d) (loaded_counts i d) d"
proof -
  have "op_get_unit (db_ops en sha_hex) i d = Inr w" "op_get_leaf (db_ops en sha_hex) (wu_leaf w) d = Inr lf"
    "op_list_results (db_ops en sha_hex) i d = Inr (list_by_work_unit i d)"
    using assms by (simp_all add: db_ops_def)
  then show ?thesis using assms(2) load_counts_db [of en sha_hex i d]
    by (simp add: decide_and_apply_def lift_read_def obind_def)
qed

text \<open>Every decision an evaluation takes is the decision on its loaded snapshot.\<close>

lemma decide_on_db:
  assumes "wu_id w = i"
  obtains (parked) e where "compare_results sha_hex lf (loaded_pending i d) = Inl e"
      "rp_min_quorum (resolve_policy_with_trust lf w tp) \<le> int (length (loaded_pending i d))"
      "rp_min_quorum (resolve_policy_with_trust lf w tp) \<le> int (length (loaded_pending i d))"
  | (decided) majority cmp n where
      "cmp \<noteq> None \<Longrightarrow> rp_min_quorum (resolve_policy_with_trust lf w tp) \<le> int (length (loaded_pending i d))"
      "decide_on (db_ops en sha_hex) tp i w lf (list_by_work_unit i d) (loaded_counts i d) d =
        apply_decision (db_ops en sha_hex) i w lf (loaded_pending i d) majority n (decide (loaded_snapshot tp lf w d cmp)) d"
proof (cases "rp_min_quorum (resolve_policy_with_trust lf w tp) \<le> int (length (loaded_pending i d))")
  case False
  then show ?thesis
    by (intro decided [of None "[]" "int (length (filter (\<lambda>r. res_status r = Pending) (list_by_work_unit i d)))"])
      (simp_all add: decide_on_def Let_def db_ops_def loaded_pending_def [symmetric] loaded_snapshot_def assms)
next
  case True
  show ?thesis
  proof (cases "compare_results sha_hex lf (loaded_pending i d)")
    case (Inl e)
    then show ?thesis using True by (intro parked)
  next
    case (Inr m)
    then show ?thesis using True
      by (intro decided [of "Some (build_comparison_verdict (loaded_pending i d) m
            (rp_trust_floor (resolve_policy_with_trust lf w tp)))" m
            "int (length (filter (\<lambda>r. res_status r = Pending) (list_by_work_unit i d)))"])
        (simp_all add: decide_on_def Let_def db_ops_def loaded_pending_def [symmetric] loaded_snapshot_def assms)
  qed
qed

subsection \<open>The order of rows does not matter\<close>

lemma vh_group_mset:
  assumes "mset xs = mset ys"
  shows "mset (version_homogeneous_group xs) = mset (version_homogeneous_group ys)"
proof (cases "xs = []")
  case True
  then show ?thesis using assms by simp
next
  case False
  then have ne: "ys \<noteq> []" using assms by auto
  have grp: "mset (version_group k xs) = mset (version_group k ys)" for k
    using assms by (simp add: version_group_def mset_filter)
  have len: "length (version_group k xs) = length (version_group k ys)" for k
    using grp [of k] by (rule mset_eq_length)
  have rank: "vh_rank xs k = vh_rank ys k" for k by (simp add: vh_rank_def len)
  have keys: "version_key ` set xs = version_key ` set ys" using mset_eq_setD [OF assms] by simp
  obtain k where k: "k \<in> version_key ` set xs" "version_homogeneous_group xs = version_group k xs"
    "\<And>k'. k' \<in> version_key ` set xs \<Longrightarrow> vh_rank xs k \<le> vh_rank xs k'" using vh_group_cases [OF False] by blast
  obtain l where l: "l \<in> version_key ` set ys" "version_homogeneous_group ys = version_group l ys"
    "\<And>k'. k' \<in> version_key ` set ys \<Longrightarrow> vh_rank ys l \<le> vh_rank ys k'" using vh_group_cases [OF ne] by blast
  have "vh_rank xs k \<le> vh_rank ys l" using k(3) [of l] l(1) keys rank by simp
  moreover have "vh_rank ys l \<le> vh_rank xs k" using l(3) [of k] k(1) keys rank by simp
  ultimately have "vh_rank xs k = vh_rank xs l" using rank by simp
  then have "k = l" by (simp add: vh_rank_def)
  then show ?thesis using k(2) l(2) grp by simp
qed

lemma count_if_mset: "mset xs = mset ys \<Longrightarrow> count_if P xs = count_if P ys"
  unfolding count_if_def using mset_eq_length [of "filter P xs" "filter P ys"] by (simp add: mset_filter)

lemma loaded_pending_mset:
  "mset (loaded_pending i d) = mset (version_homogeneous_group (pending_of i d))"
proof -
  have "mset (filter (\<lambda>r. res_status r = Pending) (list_by_work_unit i d)) = mset (pending_of i d)"
    by (simp add: list_by_work_unit_def results_of_def pending_of_def mset_filter filter_filter_mset conj_commute)
  then show ?thesis unfolding loaded_pending_def by (rule vh_group_mset)
qed

lemma loaded_pending_counts:
  assumes "versions_ok (pending_of i d)"
  shows "int (length (loaded_pending i d)) = version_homogeneous_pending_sql i d"
    "count_if standing_countable (loaded_pending i d) = countable_pending_results_sql i d"
    "count_if (\<lambda>r. \<not> standing_countable r) (loaded_pending i d) =
       version_homogeneous_pending_sql i d - countable_pending_results_sql i d"
proof -
  note m = loaded_pending_mset [of i d]
  show len: "int (length (loaded_pending i d)) = version_homogeneous_pending_sql i d"
    using version_homogeneous_pending_sql_eq [OF assms] mset_eq_length [OF m] by simp
  show cnt: "count_if standing_countable (loaded_pending i d) = countable_pending_results_sql i d"
    using countable_pending_results_sql_eq [OF assms] count_if_mset [OF m] by simp
  have "int (length (loaded_pending i d)) =
      count_if standing_countable (loaded_pending i d) + count_if (\<lambda>r. \<not> standing_countable r) (loaded_pending i d)"
    using count_if_split [of "\<lambda>_. True" "loaded_pending i d" standing_countable] by (simp add: count_if_def)
  then show "count_if (\<lambda>r. \<not> standing_countable r) (loaded_pending i d) =
       version_homogeneous_pending_sql i d - countable_pending_results_sql i d"
    using len cnt by simp
qed

lemma loaded_snapshot_ok:
  assumes "cmp \<noteq> None \<Longrightarrow> rp_min_quorum (resolve_policy_with_trust lf w tp) \<le> int (length (loaded_pending (wu_id w) d))"
  shows "snapshot_ok (loaded_snapshot tp lf w d cmp)"
  using assms resolve_policy_with_trust_ok [of lf w tp] probation_live_bounds [of "wu_id w" d]
  by (simp add: snapshot_ok_def count_if_le_length)

subsection \<open>The dead letter\<close>

lemma caps_exhausted_sql:
  assumes "sql_policy_pre (leaf_validation_config lf) w"
  shows "caps_exhausted (loaded_snapshot tp lf w d cmp) \<longleftrightarrow> \<not> caps_not_exhausted_sql w lf d"
proof -
  have "0 < rp_max_total_copies (resolve_policy lf w)" using resolve_policy_ok [of lf w] by (simp add: policy_ok_def)
  moreover have "0 \<le> eff_max_error_sql w (leaf_validation_config lf)" by (simp add: eff_max_error_sql_def)
  ultimately show ?thesis using sql_policy_twins(3,4) [OF assms] budget_copies_nonneg [of "wu_id w" d]
    by (auto simp: caps_exhausted_iff caps_not_exhausted_sql_def max_def split: if_splits)
qed

lemma live_zero: "count_live_copies u d = 0 \<longleftrightarrow> \<not> (\<exists>c\<in>set (db_copies d). cp_unit c = u \<and> cp_outcome c = None)"
  by (auto simp: count_live_copies_def count_if_zero cp_live_def)

lemma count_live_nonneg [simp]: "0 \<le> count_live_copies u d"
  by (simp add: count_live_copies_def)

lemma dead_letter_guard_caps:
  assumes "db_leafs d (wu_leaf w) = Some lf" "sql_policy_pre (leaf_validation_config lf) w"
    "versions_ok (pending_of (wu_id w) d)" "wu_state w \<in> {Queued, Completed, Rejected}"
  shows "dead_letter_guard d w \<longleftrightarrow> caps_hit (loaded_snapshot tp lf w d cmp)"
proof -
  have "budget_copies_sql (wu_id w) d \<ge> eff_max_total_sql w (leaf_validation_config lf) \<or>
      (eff_max_error_sql w (leaf_validation_config lf) > 0 \<and>
       error_copies_sql (wu_id w) d \<ge> eff_max_error_sql w (leaf_validation_config lf)) \<longleftrightarrow>
      \<not> caps_not_exhausted_sql w lf d"
    by (auto simp: caps_not_exhausted_sql_def eff_max_error_sql_def split: if_splits)
  then have "dead_letter_guard d w \<longleftrightarrow> count_live_copies (wu_id w) d = 0 \<and>
      int (length (loaded_pending (wu_id w) d)) < rp_min_quorum (resolve_policy lf w) \<and>
      \<not> caps_not_exhausted_sql w lf d"
    using assms(1,4) by (simp add: dead_letter_guard_def Let_def live_zero loaded_pending_counts(1) [OF assms(3)]
        sql_policy_twins(2) [OF assms(2)])
  then show ?thesis using assms(4) by (auto simp: caps_hit_def caps_exhausted_sql [OF assms(2)])
qed

lemma apply_decision_outcomes:
  assumes "de_action dec \<noteq> ActDeadLetter"
  shows "fst (apply_decision ops i w lf p m n dec s) \<notin> {Inr ToDeadLettered, Inr ToNoop}"
  using assms
  by (auto simp: apply_decision_def obind_def reopen_def split: action.splits prod.splits sum.splits wu_state.splits)

lemma parked_outcome:
  assumes "compare_results sha_hex lf (loaded_pending i d) = Inl e"
    "rp_min_quorum (resolve_policy_with_trust lf w tp) \<le> int (length (loaded_pending i d))"
  shows "decide_on (db_ops en sha_hex) tp i w lf (list_by_work_unit i d) c d = (Inr ToWaiting, snd (mark_completed i d))"
proof -
  have "\<exists>d'. mark_completed i d = (Inr (), d')" by (simp add: mark_completed_def)
  then show ?thesis using assms
    by (auto simp add: decide_on_def Let_def db_ops_def loaded_pending_def [symmetric] obind_def)
qed


subsection \<open>A wait is productive\<close>

lemma countable_coverage_loaded:
  assumes "versions_ok (pending_of (wu_id w) d)" "snapshot_ok (loaded_snapshot tp lf w d cmp)"
  shows "countable_copies (loaded_snapshot tp lf w d cmp) = countable_coverage_sql (wu_id w) d"
  using snapshot_ok_countable [OF assms(2)] live_copies_split [of "wu_id w" d] loaded_pending_counts [OF assms(1)]
  by (simp add: countable_coverage_sql_def)

lemma reopen_succeeds:
  assumes "find_unit i d = Some w" "wu_state w = Completed \<or> wu_state w = Rejected"
  shows "fst (reopen (db_ops en sha_hex) i (wu_state w) d) = Inr ToReopened"
  using assms(2)
proof
  assume st: "wu_state w = Completed"
  have "chart_edge Completed Queued" by (simp add: chart_edge_set)
  from update_state_hit [OF assms(1) st this] show ?thesis
    by (simp add: reopen_def st db_ops_def drop_value_def obind_def)
next
  assume st: "wu_state w = Rejected"
  have "chart_edge Rejected Queued" by (simp add: chart_edge_set)
  from update_state_hit [OF assms(1) st this] show ?thesis
    by (simp add: reopen_def st db_ops_def drop_value_def obind_def reassign_def get_unit_def assms(1))
qed

lemma decide_wait_complete:
  "de_action (decide s) = ActWait \<Longrightarrow> de_complete_first (decide s) \<Longrightarrow>
     rp_target_copies (sn_policy s) \<le> countable_copies s"
  by (auto simp: decide_def Let_def split: if_splits)

lemma wait_outcome:
  assumes "apply_decision (db_ops en sha_hex) i w lf p m n dec d = (Inr ToWaiting, d')"
  shows "de_action dec = ActWait"
    "\<not> de_reopen dec \<Longrightarrow> d' = (if de_complete_first dec then snd (mark_completed i d) else d)"
    "de_reopen dec \<Longrightarrow> fst (reopen (db_ops en sha_hex) i (wu_state w) d) = Inr ToWaiting"
proof -
  show act: "de_action dec = ActWait"
    using assms by (auto simp: apply_decision_def obind_def split: action.splits prod.splits sum.splits if_splits)
  have m: "op_mark_completed (db_ops en sha_hex) i = mark_completed i" by (simp add: db_ops_def)
  show "\<not> de_reopen dec \<Longrightarrow> d' = (if de_complete_first dec then snd (mark_completed i d) else d)"
    using assms act by (auto simp: apply_decision_def obind_def m split: prod.splits sum.splits if_splits)
  show "de_reopen dec \<Longrightarrow> fst (reopen (db_ops en sha_hex) i (wu_state w) d) = Inr ToWaiting"
    using assms act by (simp add: apply_decision_def)
qed

lemma live_after_mark [simp]: "count_live_copies u (snd (mark_completed i d)) = count_live_copies u d"
  by (simp add: mark_completed_eq)


subsection \<open>Concrete instances\<close>

abbreviation fresh_db :: db where
  "fresh_db \<equiv> sample_db [queued_unit ''u'' ''l''] [] []"

lemma fresh_facts:
  "find_unit ''u'' fresh_db = Some (queued_unit ''u'' ''l'')"
  "db_leafs fresh_db (wu_leaf (queued_unit ''u'' ''l'')) = Some (active_leaf ''l'' default_validation_config)"
  "sql_policy_pre (leaf_validation_config (active_leaf ''l'' default_validation_config)) (queued_unit ''u'' ''l'')"
  "versions_ok (pending_of ''u'' fresh_db)"
  "wu_state (queued_unit ''u'' ''l'') \<in> {Queued, Completed, Rejected}"
  "loaded_pending ''u'' fresh_db = []"
proof -
  show "sql_policy_pre (leaf_validation_config (active_leaf ''l'' default_validation_config)) (queued_unit ''u'' ''l'')"
    by code_simp
qed (simp_all add: find_unit_def sample_db_def queued_unit_def versions_ok_def pending_of_def loaded_pending_def
    list_by_work_unit_def results_of_def version_homogeneous_group_def)

lemma fresh_waits:
  "fst (decide_and_apply (db_ops default_engine id) (en_trust_policy default_engine) ''u'' fresh_db) = Inr ToWaiting"
  by code_simp



end
