(* ===== verification/Revive.thy ===== *)
theory Revive
  imports Agreement
begin

text \<open>
  The exits of a finalized unit: the operator's revive of a dead-lettered unit
  (\<open>workunit/revive.go\<close>), the enforcement demotion of a validated one
  (\<open>workunit/enforcement_demote.go\<close>), the operator requeue (\<open>workunit/handler.go\<close>), and the refund
  ceilings they share (\<open>server/router.go\<close>, \<open>cmd/lettuce-server/enforcement_wiring.go\<close>).
\<close>

subsection \<open>The revive of a dead-lettered unit\<close>

definition giveback_prefix :: string where "giveback_prefix = ''work buffer full''"
definition giveback_shutdown :: string where "giveback_shutdown = ''volunteer shutdown''"

definition giveback_reason_sql :: "unit_copy \<Rightarrow> bool" where
  "giveback_reason_sql c \<longleftrightarrow>
     cp_outcome c = Some OutAbandoned \<and> cp_started_at c = None \<and>
     (case cp_reason c of None \<Rightarrow> False
      | Some r \<Rightarrow> take (length giveback_prefix) r = giveback_prefix \<or> r = giveback_shutdown)"

record revive_outcome =
  ro_reclassified :: int
  ro_resurrected :: int
  ro_budget_spent :: int
  ro_budget_ceiling :: int
  ro_error_spent :: int
  ro_error_ceiling :: int
  ro_refunded :: bool

definition revive_row :: "work_unit \<Rightarrow> work_unit" where
  "revive_row w = w\<lparr>
     wu_state := Queued,
     wu_flagged_for_review := False,
     wu_priority := PriHigh,
     wu_reassignment_count := wu_reassignment_count w + 1,
     wu_assigned_volunteer := None,
     wu_assigned_at := None,
     wu_started_at := None,
     wu_completed_at := None,
     wu_validated_at := None,
     wu_last_heartbeat_at := None,
     wu_dispatch_claimed_by := None,
     wu_dispatch_claim_expires_at := None\<rparr>"

text \<open>The tail of the transaction: the flip, once the probe has accepted the budget.\<close>

definition revive_flip :: "uid \<Rightarrow> revive_outcome \<Rightarrow> (db, revive_outcome) op" where
  "revive_flip i out d =
     (let rsel = (\<lambda>r. res_unit r = i \<and> res_status r = Superseded);
          d1 = update_results rsel (\<lambda>r. r\<lparr>res_status := Pending\<rparr>) d;
          usel = (\<lambda>w. wu_id w = i \<and> wu_state w = Failed)
      in if count_if usel (db_units d1) \<noteq> 1 then (Inl (Internal ''revive flip matched no FAILED row''), d1)
         else (Inr (out\<lparr>ro_resurrected := count_if rsel (db_results d)\<rparr>), update_units usel revive_row d1))"

definition revive_refunded :: "uid \<Rightarrow> bool \<Rightarrow> int \<Rightarrow> int \<Rightarrow> db \<Rightarrow> db" where
  "revive_refunded i refund fresh_total fresh_error d =
     (let d1 = update_copies (\<lambda>c. cp_unit c = i \<and> giveback_reason_sql c)
                 (\<lambda>c. c\<lparr>cp_outcome := Some OutReturned\<rparr>) d
      in if refund
         then update_units (\<lambda>w. wu_id w = i \<and> wu_state w = Failed) (refund_row d1 fresh_total fresh_error) d1
         else d1)"

definition revive_probe :: "uid \<Rightarrow> bool \<Rightarrow> int \<Rightarrow> db \<Rightarrow> revive_outcome res" where
  "revive_probe i refund reclassified d =
     (case find_unit i d of
        None \<Rightarrow> Inl (Internal ''failed to probe revive budget'')
      | Some w \<Rightarrow>
          (case db_leafs d (wu_leaf w) of
             None \<Rightarrow> Inl (Internal ''failed to probe revive budget'')
           | Some lf \<Rightarrow>
               (let vc = leaf_validation_config lf;
                    out = \<lparr>ro_reclassified = reclassified, ro_resurrected = 0,
                           ro_budget_spent = budget_copies_sql i d, ro_budget_ceiling = eff_max_total_sql w vc,
                           ro_error_spent = error_copies_sql i d, ro_error_ceiling = eff_max_error_sql w vc,
                           ro_refunded = refund\<rparr>
                in if ro_budget_spent out \<ge> ro_budget_ceiling out \<or>
                      (ro_error_ceiling out > 0 \<and> ro_error_spent out \<ge> ro_error_ceiling out)
                   then Inl (Conflict ''REVIVE_BUDGET_EXHAUSTED'') else Inr out)))"

definition revive_dead_lettered :: "uid \<Rightarrow> bool \<Rightarrow> int \<Rightarrow> int \<Rightarrow> (db, revive_outcome) op" where
  "revive_dead_lettered i refund fresh_total fresh_error =
     in_tx (\<lambda>d.
       case find_unit i d of
         None \<Rightarrow> (Inl (NotFound ''work_unit''), d)
       | Some w \<Rightarrow>
           if wu_state w \<noteq> Failed then (Inl (Conflict ''INVALID_REVIVE_STATE''), d)
           else
             (let n = count_if (\<lambda>c. cp_unit c = i \<and> giveback_reason_sql c) (db_copies d);
                  d1 = revive_refunded i refund fresh_total fresh_error d
              in case revive_probe i refund n d1 of
                   Inl e \<Rightarrow> (Inl e, d1)
                 | Inr out \<Rightarrow> revive_flip i out d1))"

subsection \<open>The refund ceilings\<close>

definition fresh_budget :: "leaf \<Rightarrow> work_unit \<Rightarrow> int \<times> int" where
  "fresh_budget lf w =
     (let p = resolve_policy lf w;
          m = vc_max_total_copies (leaf_validation_config lf);
          total = (if m \<le> 0 then effective_max_total_copies (w\<lparr>wu_max_total_copies := 0\<rparr>) (rp_target_copies p) else m)
      in (total, rp_max_error_copies p))"

definition resolve_budgets :: "work_unit \<Rightarrow> db \<Rightarrow> (int \<times> int) res" where
  "resolve_budgets w d =
     (case db_leafs d (wu_leaf w) of None \<Rightarrow> Inl (NotFound ''leaf'') | Some lf \<Rightarrow> Inr (fresh_budget lf w))"

subsection \<open>The enforcement demotion\<close>

definition is_conflict :: "api_error \<Rightarrow> bool" where
  "is_conflict e = (case e of Conflict _ \<Rightarrow> True | _ \<Rightarrow> False)"

text \<open>The refund and the requeue of a unit read as \<open>w\<close>, in state REJECTED.\<close>

definition refund_and_requeue :: "uid \<Rightarrow> work_unit \<Rightarrow> (db, unit) op" where
  "refund_and_requeue i w d =
     (case resolve_budgets w d of
        Inl e \<Rightarrow> (Inl e, d)
      | Inr (fresh_total, error_ceiling) \<Rightarrow>
          (case refund_copy_budget i fresh_total error_ceiling d of
             (Inl e, d1) \<Rightarrow> (Inl e, d1)
           | (Inr refunded, d1) \<Rightarrow>
               (if \<not> refunded then (Inr (), d1)
                else case reassign i d1 of
                       (Inl e, d2) \<Rightarrow> (if is_conflict e then (Inr (), d2) else (Inl e, d2))
                     | (Inr _, d2) \<Rightarrow> (Inr (), d2))))"

definition demote_and_requeue :: "uid \<Rightarrow> (db, unit) op" where
  "demote_and_requeue i d =
     (case get_unit i d of
        (Inl e, _) \<Rightarrow> (Inl e, d)
      | (Inr w, _) \<Rightarrow>
          (case wu_state w of
             Queued \<Rightarrow> (Inr (), d)
           | Rejected \<Rightarrow> refund_and_requeue i w d
           | Validated \<Rightarrow>
               (let d1 = snd (expire_live_copies i OutAbandoned d) in
                case update_state i Validated Rejected d1 of
                  (Inr _, d2) \<Rightarrow> refund_and_requeue i w d2
                | (Inl e, d2) \<Rightarrow>
                    (if \<not> is_conflict e then (Inl e, d2)
                     else case get_unit i d2 of
                            (Inl e', _) \<Rightarrow> (Inl e', d2)
                          | (Inr w', _) \<Rightarrow>
                              (case wu_state w' of
                                 Queued \<Rightarrow> (Inr (), d2)
                               | Rejected \<Rightarrow> refund_and_requeue i w' d2
                               | _ \<Rightarrow> (Inl (Internal ''enforcement demote: unexpected state''), d2))))
           | _ \<Rightarrow> (Inl (Internal ''enforcement demote: unexpected state''), d)))"

subsection \<open>The operator requeue\<close>

definition handle_requeue :: "uid \<Rightarrow> uid \<Rightarrow> (db, wu_state) op" where
  "handle_requeue lid i d =
     (case get_unit i d of
        (Inl e, _) \<Rightarrow> (Inl e, d)
      | (Inr w, _) \<Rightarrow>
          if wu_leaf w \<noteq> lid then (Inl (NotFound ''work_unit''), d)
          else (case wu_state w of
                  Queued \<Rightarrow> (Inr Queued, snd (expire_live_copies i OutAbandoned d))
                | Expired \<Rightarrow>
                    (case reassign i (snd (expire_live_copies i OutAbandoned d)) of
                       (Inl e, d2) \<Rightarrow> (Inl e, d2) | (Inr (u, _), d2) \<Rightarrow> (Inr (wu_state u), d2))
                | Rejected \<Rightarrow>
                    (case reassign i (snd (expire_live_copies i OutAbandoned d)) of
                       (Inl e, d2) \<Rightarrow> (Inl e, d2) | (Inr (u, _), d2) \<Rightarrow> (Inr (wu_state u), d2))
                | _ \<Rightarrow> (Inl (Conflict ''INVALID_REQUEUE_STATE''), d)))"

definition handle_revive :: "uid \<Rightarrow> uid \<Rightarrow> bool \<Rightarrow> (db, revive_outcome) op" where
  "handle_revive lid i refund_real_failures d =
     (case get_unit i d of
        (Inl e, _) \<Rightarrow> (Inl e, d)
      | (Inr w, _) \<Rightarrow>
          if wu_leaf w \<noteq> lid then (Inl (NotFound ''work_unit''), d)
          else if refund_real_failures then
            (case resolve_budgets w d of
               Inl e \<Rightarrow> (Inl e, d)
             | Inr (fresh_total, fresh_error) \<Rightarrow> revive_dead_lettered i True fresh_total fresh_error d)
          else revive_dead_lettered i False 0 0 d)"

subsection \<open>A revive\<close>

lemma revive_row_simps [simp]:
  "wu_id (revive_row w) = wu_id w" "wu_leaf (revive_row w) = wu_leaf w" "wu_state (revive_row w) = Queued"
  "wu_spot_check (revive_row w) = wu_spot_check w" "wu_flagged_for_review (revive_row w) = False"
  "wu_reassignment_count (revive_row w) = wu_reassignment_count w + 1"
  "wu_max_total_copies (revive_row w) = wu_max_total_copies w"
  "wu_max_error_copies (revive_row w) = wu_max_error_copies w"
  "wu_target_copies (revive_row w) = wu_target_copies w"
  by (simp_all add: revive_row_def)

lemma eff_revive_row [simp]:
  "eff_max_total_sql (revive_row w) vc = eff_max_total_sql w vc"
  "eff_max_error_sql (revive_row w) vc = eff_max_error_sql w vc"
  by (simp_all add: eff_max_total_sql_def eff_max_error_sql_def eff_target_sql_def)

text \<open>Results that go back to pending are neither budget copies nor error copies.\<close>

lemma counts_resurrect [simp]:
  "budget_copies_sql u (update_results P f d) = budget_copies_sql u d"
  "unstarted_abandoners_sql u (update_results P f d) = unstarted_abandoners_sql u d"
  by (simp_all add: budget_copies_sql_def unstarted_abandoners_sql_def)

lemma error_copies_resurrect:
  assumes "\<And>r. P r \<Longrightarrow> res_status r \<noteq> Disagreed" "\<And>r. res_unit (f r) = res_unit r" "\<And>r. res_status (f r) \<noteq> Disagreed"
  shows "error_copies_sql u (update_results P f d) = error_copies_sql u d"
proof -
  have "count_if (\<lambda>r. if P r then res_unit (f r) = u \<and> res_status (f r) = Disagreed
          else res_unit r = u \<and> res_status r = Disagreed) (db_results d) =
      count_if (\<lambda>r. res_unit r = u \<and> res_status r = Disagreed) (db_results d)"
    by (rule count_if_cong) (use assms in auto)
  then show ?thesis by (simp add: error_copies_sql_def update_results_def count_if_update_where)
      (simp add: unstarted_abandoners_sql_def)
qed

lemma revive_refunded_find:
  assumes "find_unit i d = Some w" "wu_state w = Failed"
  shows "find_unit i (revive_refunded i refund ft fe d) = Some
    (let d1 = update_copies (\<lambda>c. cp_unit c = i \<and> giveback_reason_sql c) (\<lambda>c. c\<lparr>cp_outcome := Some OutReturned\<rparr>) d
     in if refund then (refund_row d1 ft fe w)\<lparr>wu_updated_at := db_now d\<rparr> else w)"
    "db_results (revive_refunded i refund ft fe d) = db_results d"
    "db_leafs (revive_refunded i refund ft fe d) = db_leafs d"
  using assms find_unit_id [OF assms(1)]
  by (simp_all add: revive_refunded_def Let_def find_unit_update_units)

lemma revive_flip_effect:
  assumes "revive_flip i out d = (Inr out', d')" "find_unit i d = Some w" "wu_state w = Failed"
  shows "find_unit i d' = Some ((revive_row w)\<lparr>wu_updated_at := db_now d\<rparr>)"
    "db_results d' = update_where (\<lambda>r. res_unit r = i \<and> res_status r = Superseded) (\<lambda>r. r\<lparr>res_status := Pending\<rparr>) (db_results d)"
    "budget_copies_sql i d' = budget_copies_sql i d" "error_copies_sql i d' = error_copies_sql i d"
    "out' = out\<lparr>ro_resurrected := count_if (\<lambda>r. res_unit r = i \<and> res_status r = Superseded) (db_results d)\<rparr>"
    "j \<noteq> i \<Longrightarrow> find_unit j d' = find_unit j d" "db_leafs d' = db_leafs d"
    "map wu_id (db_units d') = map wu_id (db_units d)"
proof -
  let ?d1 = "update_results (\<lambda>r. res_unit r = i \<and> res_status r = Superseded) (\<lambda>r. r\<lparr>res_status := Pending\<rparr>) d"
  have d': "d' = update_units (\<lambda>w. wu_id w = i \<and> wu_state w = Failed) revive_row ?d1"
    and o': "out' = out\<lparr>ro_resurrected := count_if (\<lambda>r. res_unit r = i \<and> res_status r = Superseded) (db_results d)\<rparr>"
    using assms(1) by (auto simp: revive_flip_def Let_def split: if_splits)
  show "find_unit i d' = Some ((revive_row w)\<lparr>wu_updated_at := db_now d\<rparr>)"
    using assms(2,3) find_unit_id [OF assms(2)] by (simp add: d' find_unit_update_units)
  show "db_results d' = update_where (\<lambda>r. res_unit r = i \<and> res_status r = Superseded) (\<lambda>r. r\<lparr>res_status := Pending\<rparr>) (db_results d)"
    "budget_copies_sql i d' = budget_copies_sql i d" "db_leafs d' = db_leafs d"
    "map wu_id (db_units d') = map wu_id (db_units d)"
    unfolding d' by (simp_all, simp_all add: update_results_def)
  show "error_copies_sql i d' = error_copies_sql i d"
    unfolding d' by (simp, rule error_copies_resurrect) simp_all
  show "out' = out\<lparr>ro_resurrected := count_if (\<lambda>r. res_unit r = i \<and> res_status r = Superseded) (db_results d)\<rparr>" by (rule o')
  show "find_unit j d' = find_unit j d" if "j \<noteq> i"
    using that find_unit_id [of j d] by (cases "find_unit j d") (simp_all add: d' find_unit_update_units)
qed

lemma resurrected_pending:
  assumes "db_results d' = update_where (\<lambda>r. res_unit r = i \<and> res_status r = Superseded) (\<lambda>r. r\<lparr>res_status := Pending\<rparr>) (db_results d)"
  shows "int (length (pending_of i d')) = int (length (pending_of i d)) +
      count_if (\<lambda>r. res_unit r = i \<and> res_status r = Superseded) (db_results d)"
    "\<forall>r\<in>set (db_results d'). res_unit r = i \<longrightarrow> res_status r \<noteq> Superseded"
proof -
  have "int (length (filter (\<lambda>r. res_unit r = i \<and> res_status r = Pending)
      (update_where (\<lambda>r. res_unit r = i \<and> res_status r = Superseded) (\<lambda>r. r\<lparr>res_status := Pending\<rparr>) rs))) =
    int (length (filter (\<lambda>r. res_unit r = i \<and> res_status r = Pending) rs)) +
    count_if (\<lambda>r. res_unit r = i \<and> res_status r = Superseded) rs" for rs
    by (induction rs) auto
  then show "int (length (pending_of i d')) = int (length (pending_of i d)) +
      count_if (\<lambda>r. res_unit r = i \<and> res_status r = Superseded) (db_results d)"
    by (simp add: pending_of_def assms)
  have "\<forall>r\<in>set (update_where (\<lambda>r. res_unit r = i \<and> res_status r = Superseded) (\<lambda>r. r\<lparr>res_status := Pending\<rparr>) rs).
      res_unit r = i \<longrightarrow> res_status r \<noteq> Superseded" for rs
    by (induction rs) auto
  then show "\<forall>r\<in>set (db_results d'). res_unit r = i \<longrightarrow> res_status r \<noteq> Superseded"
    unfolding assms .
qed

lemma revive_probe_ok:
  "revive_probe i refund n d = Inr out \<longleftrightarrow>
     (\<exists>w lf. find_unit i d = Some w \<and> db_leafs d (wu_leaf w) = Some lf \<and> caps_not_exhausted_sql w lf d \<and>
        out = \<lparr>ro_reclassified = n, ro_resurrected = 0, ro_budget_spent = budget_copies_sql i d,
               ro_budget_ceiling = eff_max_total_sql w (leaf_validation_config lf),
               ro_error_spent = error_copies_sql i d,
               ro_error_ceiling = eff_max_error_sql w (leaf_validation_config lf), ro_refunded = refund\<rparr>)"
proof -
  have e: "0 \<le> eff_max_error_sql w vc" for w vc by (simp add: eff_max_error_sql_def)
  show ?thesis using find_unit_id [of i d]
    by (auto simp: revive_probe_def Let_def caps_not_exhausted_sql_def not_le less_le [of 0] e split: option.splits if_splits)
qed

text \<open>A revive is all or nothing and never parks a unit undispatchable. It succeeds only for a FAILED
  unit; then the unit is QUEUED with its review flag lowered and its retry counted, every superseded result
  of it is pending again, and the copy budget the dispatch queries test is not exhausted. Every refusal,
  a spent budget included, leaves the database exactly as it was, the re-judged give-backs too.\<close>

theorem revive_makes_dispatchable:
  "case revive_dead_lettered i refund ft fe d of
     (Inl _, d') \<Rightarrow> d' = d
   | (Inr out, d') \<Rightarrow>
       (\<exists>w w' lf. find_unit i d = Some w \<and> wu_state w = Failed \<and> db_leafs d (wu_leaf w) = Some lf \<and>
          find_unit i d' = Some w' \<and> wu_state w' = Queued \<and> \<not> wu_flagged_for_review w' \<and>
          wu_reassignment_count w' = wu_reassignment_count w + 1 \<and> caps_not_exhausted_sql w' lf d') \<and>
       int (length (pending_of i d')) = int (length (pending_of i d)) + ro_resurrected out \<and>
       filter (\<lambda>r. res_unit r = i \<and> res_status r = Superseded) (db_results d') = []"
proof (cases "revive_dead_lettered i refund ft fe d")
  case (Pair r d')
  show ?thesis
  proof (cases r)
    case (Inl e)
    then show ?thesis using Pair in_tx_Inl unfolding revive_dead_lettered_def by fastforce
  next
    case (Inr out)
    let ?d1 = "revive_refunded i refund ft fe d"
    obtain w out0 n where s: "find_unit i d = Some w" "wu_state w = Failed"
      "revive_probe i refund n ?d1 = Inr out0" "revive_flip i out0 ?d1 = (Inr out, d')"
      using Pair Inr
      by (auto simp: revive_dead_lettered_def in_tx_Inr Let_def split: option.splits if_splits sum.splits)
    note f1 = revive_refunded_find [OF s(1,2), of refund ft fe]
    obtain w1 lf where w1: "find_unit i ?d1 = Some w1" "db_leafs ?d1 (wu_leaf w1) = Some lf"
      "caps_not_exhausted_sql w1 lf ?d1" "out0 = out0\<lparr>ro_resurrected := 0\<rparr>"
      using s(3) revive_probe_ok by fastforce
    have w1w: "wu_state w1 = Failed" "wu_leaf w1 = wu_leaf w" "wu_reassignment_count w1 = wu_reassignment_count w"
      using w1(1) f1(1) s(2) by (auto simp: Let_def refund_row_def split: if_splits)
    note F = revive_flip_effect [OF s(4) w1(1) w1w(1)]
    have "caps_not_exhausted_sql ((revive_row w1)\<lparr>wu_updated_at := db_now ?d1\<rparr>) lf d'"
      using w1(3) F(3,4) find_unit_id [OF w1(1)] by (simp add: caps_not_exhausted_sql_def)
    moreover have "ro_resurrected out = count_if (\<lambda>r. res_unit r = i \<and> res_status r = Superseded) (db_results d)"
      by (simp add: F(5) f1(2))
    ultimately show ?thesis
      using Pair Inr s(1,2) w1w w1(2) f1(3) F(1) resurrected_pending [OF F(2), unfolded f1(2)]
      by (auto simp: pending_of_def f1(2) filter_empty_conv)
  qed
qed

subsection \<open>Dead letter and revive\<close>

lemma dead_letter_revive_rows:
  assumes "\<forall>r\<in>set rs. res_unit r = i \<longrightarrow> res_status r \<noteq> Superseded"
  shows "update_where (\<lambda>r. res_unit r = i \<and> res_status r = Superseded) (\<lambda>r. r\<lparr>res_status := Pending\<rparr>)
    (update_where (\<lambda>r. res_unit r = i \<and> res_status r = Pending) (\<lambda>r. r\<lparr>res_status := Superseded\<rparr>) rs) = rs"
  using assms
proof (induction rs)
  case (Cons r rs)
  have "res_status r = Pending \<Longrightarrow> r\<lparr>res_status := Pending\<rparr> = r" by (cases r) simp
  then show ?case using Cons by simp
qed simp

lemma dead_letter_row:
  assumes "dead_letter_if_exhausted i d = (Inr True, d1)" "units_distinct d" "find_unit i d = Some w"
  shows "find_unit i d1 = Some (w\<lparr>wu_state := Failed, wu_flagged_for_review := True, wu_updated_at := db_now d\<rparr>)"
    "db_results d1 = update_where (\<lambda>r. res_unit r = i \<and> res_status r = Pending) (\<lambda>r. r\<lparr>res_status := Superseded\<rparr>) (db_results d)"
    "db_leafs d1 = db_leafs d" "map wu_id (db_units d1) = map wu_id (db_units d)" "db_copies d1 = db_copies d"
    "j \<noteq> i \<Longrightarrow> find_unit j d1 = find_unit j d"
proof -
  let ?sel = "\<lambda>w. wu_id w = i \<and> dead_letter_guard d w"
  have c: "count_if ?sel (db_units d) > 0" and d1: "d1 =
      update_results (\<lambda>r. res_unit r = i \<and> res_status r = Pending) (\<lambda>r. r\<lparr>res_status := Superseded\<rparr>)
        (update_units ?sel (\<lambda>w. w\<lparr>wu_state := Failed, wu_flagged_for_review := True\<rparr>) d)"
    using assms(1) by (auto simp: dead_letter_if_exhausted_def Let_def split: if_splits)
  have "count_if ?sel (db_units d) = (if dead_letter_guard d w then 1 else 0)"
    using find_unit_Some_distinct [OF _ assms(3)] assms(2) by (simp add: units_distinct_def)
  then have "dead_letter_guard d w" using c by (simp split: if_splits)
  then show "find_unit i d1 = Some (w\<lparr>wu_state := Failed, wu_flagged_for_review := True, wu_updated_at := db_now d\<rparr>)"
    using assms(3) find_unit_id [OF assms(3)] by (simp add: d1 find_unit_update_units)
  show "db_results d1 = update_where (\<lambda>r. res_unit r = i \<and> res_status r = Pending) (\<lambda>r. r\<lparr>res_status := Superseded\<rparr>) (db_results d)"
    "db_leafs d1 = db_leafs d" "map wu_id (db_units d1) = map wu_id (db_units d)" "db_copies d1 = db_copies d"
    unfolding d1 by (simp_all, simp add: update_results_def)
  show "find_unit j d1 = find_unit j d" if "j \<noteq> i"
    using that find_unit_id [of j d] by (cases "find_unit j d") (simp_all add: d1 find_unit_update_units)
qed

lemma revive_refunded_other:
  "j \<noteq> i \<Longrightarrow> find_unit j (revive_refunded i refund ft fe d) = find_unit j d"
  "map wu_id (db_units (revive_refunded i refund ft fe d)) = map wu_id (db_units d)"
  using find_unit_id [of j d] by (cases "find_unit j d", simp_all add: revive_refunded_def Let_def find_unit_update_units)

lemma budget_revive_refunded [simp]:
  "budget_copies_sql i (revive_refunded i True ft fe d) =
     budget_copies_sql i (update_copies (\<lambda>c. cp_unit c = i \<and> giveback_reason_sql c) (\<lambda>c. c\<lparr>cp_outcome := Some OutReturned\<rparr>) d)"
  "caps_not_exhausted_sql w lf (revive_refunded i True ft fe d) =
     caps_not_exhausted_sql w lf (update_copies (\<lambda>c. cp_unit c = i \<and> giveback_reason_sql c) (\<lambda>c. c\<lparr>cp_outcome := Some OutReturned\<rparr>) d)"
  by (simp_all add: revive_refunded_def Let_def)

text \<open>A refunding revive of a FAILED unit goes through.\<close>

lemma revive_succeeds:
  assumes "units_distinct d" "find_unit i d = Some w" "wu_state w = Failed" "db_leafs d (wu_leaf w) = Some lf"
    "1 \<le> ft" "1 \<le> fe \<or> eff_max_error_sql w (leaf_validation_config lf) = 0"
  obtains out d' where "revive_dead_lettered i True ft fe d = (Inr out, d')"
    "db_results d' = update_where (\<lambda>r. res_unit r = i \<and> res_status r = Superseded) (\<lambda>r. r\<lparr>res_status := Pending\<rparr>) (db_results d)"
    "ro_resurrected out = count_if (\<lambda>r. res_unit r = i \<and> res_status r = Superseded) (db_results d)"
    "unit_states d' = (unit_states d)(i := Some Queued)"
proof -
  let ?dr = "update_copies (\<lambda>c. cp_unit c = i \<and> giveback_reason_sql c) (\<lambda>c. c\<lparr>cp_outcome := Some OutReturned\<rparr>) d"
  let ?d1 = "revive_refunded i True ft fe d"
  let ?w1 = "(refund_row ?dr ft fe w)\<lparr>wu_updated_at := db_now d\<rparr>"
  have f1: "find_unit i ?d1 = Some ?w1" "db_results ?d1 = db_results d" "db_leafs ?d1 = db_leafs d"
    using revive_refunded_find [OF assms(2,3), of True ft fe] by (simp_all add: Let_def)
  have "caps_not_exhausted_sql ?w1 lf ?d1"
    using refund_row_caps [OF assms(5,6), of ?dr] by simp
  then obtain out0 where p: "revive_probe i True
      (count_if (\<lambda>c. cp_unit c = i \<and> giveback_reason_sql c) (db_copies d)) ?d1 = Inr out0"
    using f1 assms(4) unfolding revive_probe_ok by auto
  have one: "count_if (\<lambda>w. wu_id w = i \<and> wu_state w = Failed) (db_units ?d1) = 1"
    using find_unit_Some_distinct [OF _ f1(1), of "\<lambda>w. wu_state w = Failed"] assms(1,3) revive_refunded_other(2)
    by (simp add: units_distinct_def)
  then obtain out d' where fl: "revive_flip i out0 ?d1 = (Inr out, d')"
    by (simp add: revive_flip_def Let_def)
  have "revive_dead_lettered i True ft fe d = (Inr out, d')"
    using assms(2,3) p fl by (simp add: revive_dead_lettered_def in_tx_Inr Let_def)
  moreover have w1f: "wu_state ?w1 = Failed" using assms(3) by simp
  note F = revive_flip_effect [OF fl f1(1) w1f]
  have "unit_states d' = (unit_states d)(i := Some Queued)"
    using F(1) F(6) revive_refunded_other(1) by (auto simp: unit_states_def fun_eq_iff)
  moreover have "ro_resurrected out = count_if (\<lambda>r. res_unit r = i \<and> res_status r = Superseded) (db_results d)"
    by (simp add: F(5) f1(2))
  ultimately show ?thesis using that F(2) f1(2) by simp
qed

text \<open>Dead letter and revive are inverse on the results. If the unit had no superseded result before it was
  dead-lettered, then a revive with a refund always succeeds and puts every result of the database back to
  exactly what it was: each result the dead letter disposed of holds its redundancy slot again, none is
  lost or altered; only the unit itself has moved, to QUEUED.\<close>

theorem dead_letter_revive_roundtrip:
  assumes "units_distinct d" "find_unit i d = Some w" "db_leafs d (wu_leaf w) = Some lf"
    "dead_letter_if_exhausted i d = (Inr True, d1)"
    "\<forall>r\<in>set (db_results d). res_unit r = i \<longrightarrow> res_status r \<noteq> Superseded"
    "1 \<le> ft" "1 \<le> fe \<or> eff_max_error_sql w (leaf_validation_config lf) = 0"
  shows "\<exists>out d2. revive_dead_lettered i True ft fe d1 = (Inr out, d2) \<and> db_results d2 = db_results d \<and>
    unit_states d2 = (unit_states d)(i := Some Queued) \<and> ro_resurrected out = int (length (pending_of i d))"
proof -
  note D = dead_letter_row [OF assms(4,1,2)]
  let ?w = "w\<lparr>wu_state := Failed, wu_flagged_for_review := True, wu_updated_at := db_now d\<rparr>"
  have "eff_max_error_sql ?w (leaf_validation_config lf) = eff_max_error_sql w (leaf_validation_config lf)"
    by (simp add: eff_max_error_sql_def)
  then have e: "1 \<le> fe \<or> eff_max_error_sql ?w (leaf_validation_config lf) = 0" using assms(7) by simp
  have h: "units_distinct d1" "wu_state ?w = Failed" "db_leafs d1 (wu_leaf ?w) = Some lf"
    using assms(1,3) D(3,4) by (simp_all add: units_distinct_def)
  have n: "count_if (\<lambda>r. res_unit r = i \<and> res_status r = Superseded) (db_results d1) = int (length (pending_of i d))"
  proof -
    have "count_if (\<lambda>r. res_unit r = i \<and> res_status r = Superseded)
        (update_where (\<lambda>r. res_unit r = i \<and> res_status r = Pending) (\<lambda>r. r\<lparr>res_status := Superseded\<rparr>) rs) =
      count_if (\<lambda>r. res_unit r = i \<and> res_status r = Pending) rs"
      if "\<forall>r\<in>set rs. res_unit r = i \<longrightarrow> res_status r \<noteq> Superseded" for rs
      using that by (induction rs) auto
    then show ?thesis using assms(5) by (simp add: D(2) count_if_def pending_of_def)
  qed
  have st: "(unit_states d1)(i := Some Queued) = (unit_states d)(i := Some Queued)"
    using D(6) by (auto simp: unit_states_def fun_eq_iff)
  show ?thesis
    by (rule revive_succeeds [OF h(1) D(1) h(2,3) assms(6) e])
      (use n st dead_letter_revive_rows [OF assms(5)] D(2) in auto)
qed

definition exhausted_db :: db where
  "exhausted_db = sample_db [(queued_unit ''u'' ''l'')\<lparr>wu_max_total_copies := 1\<rparr>]
     [(reserved_copy ''c0'' ''u'' ''a'')\<lparr>cp_outcome := Some OutExpired\<rparr>] [ok_result ''r1'' ''b'' ''x'']"

theorem dead_letter_revive_roundtrip_witness:
  "\<exists>out d2. revive_dead_lettered ''u'' True 8 0 (snd (dead_letter_if_exhausted ''u'' exhausted_db)) = (Inr out, d2) \<and>
     db_results d2 = [ok_result ''r1'' ''b'' ''x'']"
proof -
  let ?w = "(queued_unit ''u'' ''l'')\<lparr>wu_max_total_copies := 1\<rparr>"
  have h: "units_distinct exhausted_db" "find_unit ''u'' exhausted_db = Some ?w"
    "db_leafs exhausted_db (wu_leaf ?w) = Some (active_leaf ''l'' default_validation_config)"
    by (simp_all add: exhausted_db_def sample_db_def units_distinct_def find_unit_def queued_unit_def)
  have "fst (dead_letter_if_exhausted ''u'' exhausted_db) = Inr True" by code_simp
  then have dl: "dead_letter_if_exhausted ''u'' exhausted_db =
      (Inr True, snd (dead_letter_if_exhausted ''u'' exhausted_db))" by (metis prod.collapse)
  have rs: "\<forall>r\<in>set (db_results exhausted_db). res_unit r = ''u'' \<longrightarrow> res_status r \<noteq> Superseded"
    "db_results exhausted_db = [ok_result ''r1'' ''b'' ''x'']"
    by (simp_all add: exhausted_db_def sample_db_def ok_result_def)
  have e: "(1::int) \<le> 8" "1 \<le> (0::int) \<or>
      eff_max_error_sql ?w (leaf_validation_config (active_leaf ''l'' default_validation_config)) = 0"
    by (simp_all add: eff_max_error_sql_def queued_unit_def active_leaf_def default_validation_config_simps)
  show ?thesis using dead_letter_revive_roundtrip [OF h dl rs(1) e] rs(2) by auto
qed

subsection \<open>The enforcement demotion\<close>

lemma fresh_budget_pos: "1 \<le> fst (fresh_budget lf w)"
  by (simp add: fresh_budget_def Let_def effective_max_total_copies_def default_copy_retry_margin_def)

lemma fresh_budget_error:
  "1 \<le> snd (fresh_budget lf w) \<or> eff_max_error_sql w (leaf_validation_config lf) = 0"
  by (auto simp: fresh_budget_def Let_def resolve_policy_simps eff_max_error_sql_def)

lemma caps_same:
  assumes "caps_not_exhausted_sql w lf d" "wu_id v = wu_id w" "wu_max_total_copies v = wu_max_total_copies w"
    "0 < wu_max_total_copies w" "wu_max_error_copies v = wu_max_error_copies w"
  shows "caps_not_exhausted_sql v lf d"
proof -
  have "eff_max_total_sql v vc = eff_max_total_sql w vc" "eff_max_error_sql v vc = eff_max_error_sql w vc" for vc
    using assms(3-5) by (simp_all add: eff_max_total_sql_def eff_max_error_sql_def)
  then show ?thesis using assms(1,2) by (simp add: caps_not_exhausted_sql_def)
qed

lemma refund_and_requeue_effect:
  assumes "units_distinct d" "find_unit i d = Some w" "wu_state w = Rejected" "db_leafs d (wu_leaf w) = Some lf"
    "fresh_budget lf v = (t, e)" "wu_leaf v = wu_leaf w" "1 \<le> t" "1 \<le> e \<or> eff_max_error_sql w (leaf_validation_config lf) = 0"
  obtains w' d' where "refund_and_requeue i v d = (Inr (), d')" "find_unit i d' = Some w'" "wu_state w' = Queued"
    "wu_max_total_copies w' = budget_copies_sql i d + t" "caps_not_exhausted_sql w' lf d'"
    "db_results d' = db_results d" "db_copies d' = db_copies d"
proof -
  let ?d1 = "update_units (\<lambda>w. wu_id w = i \<and> wu_state w = Rejected) (refund_row d t e) d"
  let ?w1 = "(refund_row d t e w)\<lparr>wu_updated_at := db_now d\<rparr>"
  have i: "wu_id w = i" using find_unit_id [OF assms(2)] .
  have r: "refund_copy_budget i t e d = (Inr True, ?d1)"
    using find_unit_Some_distinct [of d i w "\<lambda>w. wu_state w = Rejected"] assms(1-3)
    by (simp add: refund_copy_budget_def units_distinct_def)
  have f1: "find_unit i ?d1 = Some ?w1" using assms(2,3) i by (simp add: find_unit_update_units)
  have st: "wu_state ?w1 = Rejected" by (simp add: assms(3))
  have "chart_edge Rejected Queued" by (simp add: chart_edge_set)
  note u = update_state_hit [OF f1 st this]
  let ?w2 = "(persist_unit (transition_rule (db_now ?d1) Rejected Queued ?w1) ?w1)\<lparr>wu_updated_at := db_now ?d1\<rparr>"
  let ?d2 = "moved_db i Rejected Queued ?w1 ?d1"
  have re: "reassign i ?d1 = (Inr (?w2, True), ?d2)" using f1 st u by (simp add: reassign_def get_unit_def)
  have "refund_and_requeue i v d = (Inr (), ?d2)"
    using assms(4-6) r re by (simp add: refund_and_requeue_def resolve_budgets_def)
  moreover have "find_unit i ?d2 = Some ?w2" using update_state_find(1) [OF u] .
  moreover have "caps_not_exhausted_sql ?w2 lf ?d2"
  proof -
    have "caps_not_exhausted_sql (refund_row d t e w) lf d" by (rule refund_row_caps [OF assms(7,8)])
    then have "caps_not_exhausted_sql ?w2 lf d"
      by (rule caps_same) (use assms(7) budget_copies_nonneg [of "wu_id w" d] in
        \<open>simp_all add: transition_rule_def transition_to_queued_def\<close>)
    then show ?thesis by (simp add: caps_not_exhausted_sql_def)
  qed
  ultimately show ?thesis by (intro that [of ?d2 ?w2]) (simp_all add: i)
qed

text \<open>The enforcement demotion of a VALIDATED unit ends with the unit QUEUED under a fresh copy budget,
  whatever copies it had consumed and whatever ceilings it was stamped with: no copy of it stays live, its
  results are untouched, and the dispatch queries see budget for at least one new copy; repeating the
  demotion is then a no-op.\<close>

theorem demotion_requeues_with_budget:
  assumes "units_distinct d" "find_unit i d = Some w" "wu_state w = Validated" "db_leafs d (wu_leaf w) = Some lf"
  shows "\<exists>w' d'. demote_and_requeue i d = (Inr (), d') \<and> find_unit i d' = Some w' \<and> wu_state w' = Queued \<and>
    count_live_copies i d' = 0 \<and> db_results d' = db_results d \<and> caps_not_exhausted_sql w' lf d' \<and>
    budget_copies_sql i d' < wu_max_total_copies w' \<and> demote_and_requeue i d' = (Inr (), d')"
proof -
  let ?d1 = "snd (expire_live_copies i OutAbandoned d)"
  have f1: "find_unit i ?d1 = Some w" "units_distinct ?d1" "db_leafs ?d1 = db_leafs d" "db_results ?d1 = db_results d"
    using assms(1,2) by (simp_all add: expire_live_copies_def Let_def units_distinct_def)
  have "chart_edge Validated Rejected" by (simp add: chart_edge_set)
  note u = update_state_hit [OF f1(1) assms(3) this]
  let ?w2 = "(persist_unit (transition_rule (db_now ?d1) Validated Rejected w) w)\<lparr>wu_updated_at := db_now ?d1\<rparr>"
  let ?d2 = "moved_db i Validated Rejected w ?d1"
  have f2: "find_unit i ?d2 = Some ?w2" "wu_state ?w2 = Rejected" "db_leafs ?d2 (wu_leaf ?w2) = Some lf" "units_distinct ?d2"
    "wu_leaf w = wu_leaf ?w2"
    using update_state_find(1,2) [OF u] assms(4) f1(2,3) by (simp_all add: units_distinct_def)
  have "eff_max_error_sql ?w2 (leaf_validation_config lf) = eff_max_error_sql w (leaf_validation_config lf)"
    by (simp add: eff_max_error_sql_def)
  moreover obtain t er where te: "fresh_budget lf w = (t, er)" by fastforce
  ultimately have b: "1 \<le> t" "1 \<le> er \<or> eff_max_error_sql ?w2 (leaf_validation_config lf) = 0"
    using fresh_budget_error [of lf w] fresh_budget_pos [of lf w] by simp_all
  obtain w' d' where R: "refund_and_requeue i w ?d2 = (Inr (), d')" "find_unit i d' = Some w'" "wu_state w' = Queued"
    "wu_max_total_copies w' = budget_copies_sql i ?d2 + t" "caps_not_exhausted_sql w' lf d'"
    "db_results d' = db_results ?d2" "db_copies d' = db_copies ?d2"
    by (rule refund_and_requeue_effect [OF f2(4,1,2,3) te f2(5) b])
  have "demote_and_requeue i d = (Inr (), d')"
    using assms(2,3) u R(1) by (simp add: demote_and_requeue_def get_unit_def)
  moreover have "demote_and_requeue i d' = (Inr (), d')"
    using R(2,3) by (simp add: demote_and_requeue_def get_unit_def)
  moreover have "count_live_copies i d' = 0"
  proof -
    have "count_if (\<lambda>c. cp_unit c = i \<and> cp_outcome c = None) (update_where (\<lambda>c. cp_unit c = i \<and> cp_outcome c = None)
        (\<lambda>c. c\<lparr>cp_outcome := Some OutAbandoned, cp_outcome_at := Some t\<rparr>) cs) = 0" for cs t
      by (induction cs) auto
    then show ?thesis
      by (simp add: count_live_copies_def cp_live_def R(7) expire_live_copies_def Let_def update_copies_def)
  qed
  moreover have "budget_copies_sql i d' = budget_copies_sql i ?d2"
    using R(7) by (simp add: budget_copies_sql_def unstarted_abandoners_sql_def)
  ultimately show ?thesis using R f1(4) b(1) by (intro exI conjI) auto
qed

theorem demotion_requeues_with_budget_witness:
  "\<exists>d'. demote_and_requeue ''u'' (sample_db [(queued_unit ''u'' ''l'')\<lparr>wu_state := Validated\<rparr>] [] []) = (Inr (), d') \<and>
     unit_states d' ''u'' = Some Queued"
proof -
  let ?w = "(queued_unit ''u'' ''l'')\<lparr>wu_state := Validated\<rparr>"
  let ?d = "sample_db [?w] [] []"
  have "units_distinct ?d" "find_unit ''u'' ?d = Some ?w" "wu_state ?w = Validated"
    "db_leafs ?d (wu_leaf ?w) = Some (active_leaf ''l'' default_validation_config)"
    by (simp_all add: sample_db_def units_distinct_def find_unit_def queued_unit_def)
  from demotion_requeues_with_budget [OF this] show ?thesis by (auto simp: unit_states_def)
qed

subsection \<open>A resumed refund\<close>

lemma resolve_policy_touch:
  "rp_target_copies (resolve_policy lf (w\<lparr>wu_updated_at := x\<rparr>)) = rp_target_copies (resolve_policy lf w)"
  "rp_max_error_copies (resolve_policy lf (w\<lparr>wu_updated_at := x\<rparr>)) = rp_max_error_copies (resolve_policy lf w)"
  by (simp_all add: resolve_policy_simps base_target_def)

lemma refund_row_base [simp]: "base_target vc (refund_row d t e w) = base_target vc w"
  by (simp add: base_target_def refund_row_def)

text \<open>The refund is idempotent in the total ceiling but not in the error ceiling. When a demotion pass stops
  between its refund and its requeue, the next pass resolves the "fresh" error ceiling from the unit, which
  already carries the first refund's absolute number, and adds the error copies to it again: every such
  resumption raises the error ceiling by the error copies consumed so far, while the total ceiling stays.\<close>

theorem resumed_refund_inflates_error_budget:
  assumes "units_distinct d" "find_unit i d = Some w" "wu_state w = Rejected"
    "0 < snd (fresh_budget lf w)" "d1 = snd (refund_copy_budget i (fst (fresh_budget lf w)) (snd (fresh_budget lf w)) d)"
  shows "\<exists>w1 w2. find_unit i d1 = Some w1 \<and> wu_state w1 = Rejected \<and>
    find_unit i (snd (refund_copy_budget i (fst (fresh_budget lf w1)) (snd (fresh_budget lf w1)) d1)) = Some w2 \<and>
    wu_max_total_copies w2 = wu_max_total_copies w1 \<and>
    wu_max_error_copies w2 = wu_max_error_copies w1 + error_copies_sql i d"
proof -
  let ?t = "fst (fresh_budget lf w)" and ?e = "snd (fresh_budget lf w)"
  let ?w1 = "(refund_row d ?t ?e w)\<lparr>wu_updated_at := db_now d\<rparr>"
  have i: "wu_id w = i" using find_unit_id [OF assms(2)] .
  have d1: "d1 = update_units (\<lambda>w. wu_id w = i \<and> wu_state w = Rejected) (refund_row d ?t ?e) d"
    by (simp add: assms(5) refund_copy_budget_def Let_def)
  have f1: "find_unit i d1 = Some ?w1" using assms(2,3) i by (simp add: d1 find_unit_update_units)
  have t: "fst (fresh_budget lf ?w1) = ?t"
    by (simp add: fresh_budget_def Let_def effective_max_total_copies_def resolve_policy_touch)
      (simp add: resolve_policy_simps)
  have err: "0 \<le> error_copies_sql i d" by (rule budget_copies_nonneg)
  have e: "snd (fresh_budget lf ?w1) = error_copies_sql i d + ?e"
  proof -
    have "snd (fresh_budget lf ?w1) =
        (if wu_max_error_copies ?w1 \<le> 0 then vc_max_error_copies (leaf_validation_config lf) else wu_max_error_copies ?w1)"
      by (simp add: fresh_budget_def Let_def resolve_policy_simps)
    then show ?thesis using assms(4) err i by simp
  qed
  let ?d2 = "update_units (\<lambda>w. wu_id w = i \<and> wu_state w = Rejected) (refund_row d1 ?t (error_copies_sql i d + ?e)) d1"
  have "find_unit i ?d2 = Some ((refund_row d1 ?t (error_copies_sql i d + ?e) ?w1)\<lparr>wu_updated_at := db_now d1\<rparr>)"
    using f1 assms(3) i by (simp add: find_unit_update_units)
  then show ?thesis using f1 assms(3,4) err i unfolding refund_copy_budget_def Let_def
    by (intro exI [of _ ?w1] exI [of _ "(refund_row d1 ?t (error_copies_sql i d + ?e) ?w1)\<lparr>wu_updated_at := db_now d1\<rparr>"])
      (simp add: t e, simp add: d1)
qed

theorem resumed_refund_inflates_error_budget_witness:
  "let w = (queued_unit ''u'' ''l'')\<lparr>wu_state := Rejected\<rparr>;
       lf = active_leaf ''l'' (default_validation_config\<lparr>vc_max_error_copies := 3\<rparr>);
       d = sample_db [w] [(reserved_copy ''c0'' ''u'' ''a'')\<lparr>cp_outcome := Some OutExpired\<rparr>] []
   in \<exists>w1 (w2::work_unit). find_unit ''u'' (snd (refund_copy_budget ''u'' (fst (fresh_budget lf w)) (snd (fresh_budget lf w)) d)) = Some w1 \<and>
        wu_max_error_copies w2 = wu_max_error_copies w1 + 1"
proof -
  let ?w = "(queued_unit ''u'' ''l'')\<lparr>wu_state := Rejected\<rparr>"
  let ?lf = "active_leaf ''l'' (default_validation_config\<lparr>vc_max_error_copies := 3\<rparr>)"
  let ?d = "sample_db [?w] [(reserved_copy ''c0'' ''u'' ''a'')\<lparr>cp_outcome := Some OutExpired\<rparr>] []"
  have h: "units_distinct ?d" "find_unit ''u'' ?d = Some ?w" "wu_state ?w = Rejected"
    by (simp_all add: units_distinct_def sample_db_def find_unit_def queued_unit_def)
  have e: "0 < snd (fresh_budget ?lf ?w)"
    by (simp add: fresh_budget_def Let_def resolve_policy_simps active_leaf_def queued_unit_def)
  have c: "error_copies_sql ''u'' ?d = 1"
    by (simp add: error_copies_sql_def unstarted_abandoners_sql_def sample_db_def reserved_copy_def keys_of_def)
  show ?thesis using resumed_refund_inflates_error_budget [OF h e refl] unfolding Let_def c by blast
qed

end
