(* ===== verification/Lifecycle.thy ===== *)
theory Lifecycle
  imports Revive
begin

text \<open>
  Every history of a head. One step is one committed operation of the preceding theories, with any
  arguments, in any order: copies are reserved, started, closed and swept, results arrive, units are
  evaluated, requeued, revived and demoted, results are re-judged, operators change leafs, accounts,
  trust and reliability, and the clock moves. What holds in every reachable database holds whatever
  the interleaving, because each operation commits in one transaction.
\<close>

subsection \<open>Steps\<close>

definition ledger_ok :: "db \<Rightarrow> bool" where
  "ledger_ok d \<longleftrightarrow> distinct (map lg_result (db_ledger d)) \<and>
     set (map lg_result (db_ledger d)) \<subseteq> set (map res_id (db_results d))"

definition life_ok :: "db \<Rightarrow> bool" where
  "life_ok d \<longleftrightarrow> store_ok d \<and> ledger_ok d"

inductive life_step :: "engine \<Rightarrow> (string \<Rightarrow> string) \<Rightarrow> db \<Rightarrow> db \<Rightarrow> bool" for en sha_hex where
  create: "wu_id w \<notin> wu_id ` set (db_units d) \<Longrightarrow> wu_state w = Created \<Longrightarrow>
    life_step en sha_hex d (d\<lparr>db_units := db_units d @ [w]\<rparr>)"
| publish: "update_state i Created Queued d = (x, d') \<Longrightarrow> life_step en sha_hex d d'"
| reserve: "reserve_copy c i v host ru dl d = (x, d') \<Longrightarrow> life_step en sha_hex d d'"
| start: "assign i v d = (x, d') \<Longrightarrow> life_step en sha_hex d d'"
| close: "close_copy c out d = (x, d') \<Longrightarrow> life_step en sha_hex d d'"
| close_by_volunteer: "close_copy_by_volunteer i v out q reason d = (x, d') \<Longrightarrow> life_step en sha_hex d d'"
| expire: "expire_live_copies i out d = (x, d') \<Longrightarrow> life_step en sha_hex d d'"
| release: "release_stale_held_copies host held t d = (x, d') \<Longrightarrow> life_step en sha_hex d d'"
| submit: "submit_result r s d = (x, d') \<Longrightarrow> r \<notin> res_id ` set (db_results d) \<Longrightarrow> life_step en sha_hex d d'"
| evaluate: "evaluate (db_ops en sha_hex) (en_trust_policy en) i d = (x, ev, d') \<Longrightarrow> life_step en sha_hex d d'"
| spot_check: "mark_spot_check i d = (x, d') \<Longrightarrow> life_step en sha_hex d d'"
| clear_spot: "clear_spot_check i d = (x, d') \<Longrightarrow> life_step en sha_hex d d'"
| pin_class: "ensure_work_unit_hr_class i cls d = (y, d') \<Longrightarrow> life_step en sha_hex d d'"
| requeue: "handle_requeue lid i d = (z, d') \<Longrightarrow> life_step en sha_hex d d'"
| revive: "handle_revive lid i refund d = (ro, d') \<Longrightarrow> life_step en sha_hex d d'"
| demote: "demote_and_requeue i d = (x, d') \<Longrightarrow> life_step en sha_hex d d'"
| rejudge: "batch_update_validation_status ids status d = (x, d') \<Longrightarrow> status \<in> {Agreed, Disagreed} \<Longrightarrow>
    life_step en sha_hex d d'"
| regrant: "create_credit e d = (x, d') \<Longrightarrow> lg_result e \<in> res_id ` set (db_results d) \<Longrightarrow> life_step en sha_hex d d'"
| operators: "life_step en sha_hex d
    (d\<lparr>db_leafs := lfs, db_volunteers := vols, db_trust := tt, db_reliability := hr, db_now := now\<rparr>)"

inductive reachable :: "engine \<Rightarrow> (string \<Rightarrow> string) \<Rightarrow> db \<Rightarrow> bool" for en sha_hex where
  start: "reachable en sha_hex (sample_db [] [] [])"
| step: "reachable en sha_hex d \<Longrightarrow> life_step en sha_hex d d' \<Longrightarrow> reachable en sha_hex d'"

subsection \<open>Operations that neither finalize nor touch results\<close>

definition calm :: "db \<Rightarrow> db \<Rightarrow> bool" where
  "calm d d' \<longleftrightarrow> db_results d' = db_results d \<and> db_ledger d' = db_ledger d \<and>
     map wu_id (db_units d') = map wu_id (db_units d) \<and>
     (\<forall>i st. unit_states d' i = Some st \<longrightarrow> is_terminal_state st \<longrightarrow> unit_states d i = Some st)"

lemma calm_refl [intro, simp]: "calm d d"
  by (simp add: calm_def)

lemma calm_trans: "calm d d' \<Longrightarrow> calm d' d'' \<Longrightarrow> calm d d''"
  unfolding calm_def by (metis (no_types, lifting))

lemma calm_life_ok:
  assumes "calm d d'" "life_ok d"
  shows "life_ok d'"
proof -
  have c: "db_results d' = db_results d" "db_ledger d' = db_ledger d"
    "map wu_id (db_units d') = map wu_id (db_units d)"
    "\<And>i st. unit_states d' i = Some st \<Longrightarrow> is_terminal_state st \<Longrightarrow> unit_states d i = Some st"
    using assms(1) by (auto simp: calm_def)
  have p: "pending_of i d' = pending_of i d" for i by (simp add: pending_of_def c(1))
  have u: "units_distinct d" "units_distinct d'" "terminal_clean d" "results_distinct d'"
    using assms(2) c(1,3) by (simp_all add: life_ok_def store_ok_def units_distinct_def results_distinct_def)
  have "terminal_clean d'"
    using u(3) c(4) p unfolding terminal_clean_states [OF u(1)] terminal_clean_states [OF u(2)] by metis
  then show ?thesis using assms(2) u c(1,2) by (simp add: life_ok_def store_ok_def ledger_ok_def)
qed

lemma calm_copies: "calm d (update_copies P f d)"
  by (simp add: calm_def)

lemma calm_units:
  assumes "\<And>w. wu_id (f w) = wu_id w" "\<And>w. P w \<Longrightarrow> is_terminal_state (wu_state (f w)) \<Longrightarrow> wu_state (f w) = wu_state w"
  shows "calm d (update_units P f d)"
proof -
  have "unit_states d i = Some st" if "unit_states (update_units P f d) i = Some st" "is_terminal_state st" for i st
    using that assms(2) find_unit_id [of i d]
    by (cases "find_unit i d") (auto simp: unit_states_def find_unit_update_units assms(1) split: if_splits)
  then show ?thesis using assms(1) by (simp add: calm_def)
qed

lemma calm_update_state:
  assumes "update_state i from to d = (x, d')" "\<not> is_terminal_state to"
  shows "calm d d'"
proof (cases x)
  case (Inl e)
  then show ?thesis using assms by (auto dest: update_state_fail)
next
  case (Inr w')
  then have u: "update_state i from to d = (Inr w', d')" using assms by simp
  show ?thesis
    using update_state_states(2) [OF u] update_state_find [OF u] assms(2) by (auto simp: calm_def split: if_splits)
qed

lemma calm_reassign:
  assumes "reassign i d = (x, d')"
  shows "calm d d'"
proof (cases x)
  case (Inl e)
  then show ?thesis using assms by (auto dest: reassign_fail)
next
  case (Inr y)
  then obtain st0 w' where "update_state i st0 Queued d = (Inr w', d')"
    using assms by (auto simp: reassign_def get_unit_def split: option.splits if_splits prod.splits sum.splits)
  then show ?thesis by (rule calm_update_state) (simp add: is_terminal_state_def)
qed

lemma calm_refund: "refund_copy_budget i t e d = (x, d') \<Longrightarrow> calm d d'"
  by (auto simp: refund_copy_budget_def Let_def intro!: calm_units)

lemma calm_refund_and_requeue:
  assumes "refund_and_requeue i w d = (x, d')"
  shows "calm d d'"
proof (cases "resolve_budgets w d")
  case (Inl e)
  then show ?thesis using assms by (simp add: refund_and_requeue_def)
next
  case (Inr b)
  obtain t e where b: "b = (t, e)" by fastforce
  obtain q d1 where r: "refund_copy_budget i t e d = (q, d1)" by fastforce
  obtain y d2 where re: "reassign i d1 = (y, d2)" by fastforce
  have "d' = d1 \<or> d' = d2"
    using assms Inr b r re by (auto simp: refund_and_requeue_def split: sum.splits if_splits)
  then show ?thesis using calm_refund [OF r] calm_reassign [OF re] calm_trans by blast
qed

lemma calm_expire: "calm d (snd (expire_live_copies i out d))"
  by (simp add: expire_live_copies_def Let_def calm_copies)

lemma calm_requeue:
  assumes "handle_requeue lid i d = (x, d')"
  shows "calm d d'"
proof -
  let ?d1 = "snd (expire_live_copies i OutAbandoned d)"
  obtain y d2 where re: "reassign i ?d1 = (y, d2)" by fastforce
  have "d' = d \<or> d' = ?d1 \<or> d' = d2"
    using assms re
    by (auto simp: handle_requeue_def get_unit_def split: option.splits if_splits wu_state.splits sum.splits prod.splits)
  then show ?thesis using calm_expire calm_reassign [OF re] calm_trans calm_refl by metis
qed

lemma calm_demote:
  assumes "demote_and_requeue i d = (x, d')"
  shows "calm d d'"
proof -
  let ?d1 = "snd (expire_live_copies i OutAbandoned d)"
  obtain y d2 where u: "update_state i Validated Rejected ?d1 = (y, d2)" by fastforce
  have c2: "calm d d2"
    using calm_trans [OF calm_expire calm_update_state [OF u]] by (simp add: is_terminal_state_def)
  have "d' = d \<or> d' = d2 \<or> (\<exists>w. refund_and_requeue i w d = (x, d')) \<or> (\<exists>w. refund_and_requeue i w d2 = (x, d'))"
    using assms u
    by (auto simp: demote_and_requeue_def get_unit_def Let_def split: option.splits if_splits wu_state.splits sum.splits)
  then show ?thesis using c2 calm_refund_and_requeue calm_trans calm_refl by metis
qed

lemma calm_mark_completed: "calm d (snd (mark_completed i d))"
  unfolding mark_completed_eq by (rule calm_units) (simp_all add: is_terminal_state_def)

lemma calm_copy_ops:
  "reserve_copy c i v host ru dl d = (x1, d') \<Longrightarrow> calm d d'"
  "close_copy c out d = (x2, d') \<Longrightarrow> calm d d'"
  "close_copy_by_volunteer i v out q reason d = (x3, d') \<Longrightarrow> calm d d'"
  "release_stale_held_copies host' held t d = (x4, d') \<Longrightarrow> calm d d'"
  by (auto simp: reserve_copy_def close_copy_def close_copy_by_volunteer_def release_stale_held_copies_def Let_def
      calm_copies split: if_splits option.splits)
    (simp add: calm_def unit_states_def find_unit_def)

lemma calm_assign:
  assumes "assign i v d = (x, d')"
  shows "calm d d'"
proof -
  obtain P f Q g where "d' = update_copies P f d \<or>
      d' = update_units (\<lambda>w. wu_id w = i) (\<lambda>w. w\<lparr>wu_assigned_volunteer := Some v, wu_assigned_at := Some (db_now d),
                    wu_last_heartbeat_at := Some (db_now d),
                    wu_started_at := (case wu_started_at w of None \<Rightarrow> Some (db_now d) | Some t \<Rightarrow> Some t)\<rparr>) (update_copies P f d)"
    using assms by (auto simp: assign_def Let_def get_unit_def split: if_splits option.splits)
  moreover have "calm (update_copies P f d) (update_units (\<lambda>w. wu_id w = i) (\<lambda>w. w\<lparr>wu_assigned_volunteer := Some v,
      wu_assigned_at := Some (db_now d), wu_last_heartbeat_at := Some (db_now d),
      wu_started_at := (case wu_started_at w of None \<Rightarrow> Some (db_now d) | Some t \<Rightarrow> Some t)\<rparr>) (update_copies P f d))"
    by (rule calm_units) simp_all
  ultimately show ?thesis using calm_copies calm_trans by blast
qed

lemma calm_flags:
  "mark_spot_check i d = (x, d') \<Longrightarrow> calm d d'" "clear_spot_check i d = (x, d') \<Longrightarrow> calm d d'"
  "ensure_work_unit_hr_class i cls d = (y, d') \<Longrightarrow> calm d d'"
  by (auto simp: mark_spot_check_def clear_spot_check_def ensure_work_unit_hr_class_def Let_def
      split: if_splits option.splits intro!: calm_units)

subsection \<open>Operations on results\<close>

lemma submit_result_effect:
  assumes "submit_result r s d = (x, d')"
  shows "calm d d' \<or> (\<exists>w c d1. find_unit (su_unit s) d = Some w \<and> \<not> is_terminal_state (wu_state w) \<and>
    d1 = d\<lparr>db_results := db_results d @ [submitted_result r s c d]\<rparr> \<and> calm d1 d')"
proof (cases "find_unit (su_unit s) d")
  case None
  then show ?thesis using assms by (simp add: submit_result_def)
next
  case w: (Some w)
  show ?thesis
  proof (cases "submit_copy w (su_volunteer s) d")
    case (Inl out)
    then show ?thesis using assms w by (simp add: submit_result_def)
  next
    case c: (Inr c)
    show ?thesis
    proof (cases "is_terminal_state (wu_state w)")
      case True
      obtain q d1 where u: "update_outcome (cp_id c) OutSuperseded None d = (q, d1)" by fastforce
      have "calm d d1" using u by (auto simp: update_outcome_def Let_def calm_copies split: if_splits)
      moreover have "d' = d \<or> d' = d1"
        using assms w c True u by (auto simp: submit_result_def is_terminal_state_def split: sum.splits)
      ultimately show ?thesis by auto
    next
      case False
      then have rec: "submit_record r s w c d = (x, d')"
        using assms w c by (simp add: submit_result_def is_terminal_state_def)
      show ?thesis
      proof (cases rule: submit_record_cases [of d s r w c])
        case (ok d2)
        have "calm (d\<lparr>db_results := db_results d @ [submitted_result r s c d]\<rparr>) d2" unfolding ok(2) by (rule calm_copies)
        moreover have "d' = d2 \<or> d' = snd (mark_completed (su_unit s) d2)" using rec ok(3) by (auto split: if_splits)
        ultimately show ?thesis using w False calm_trans [OF _ calm_mark_completed] by blast
      qed (use rec in auto)
    qed
  qed
qed

lemma life_ok_submit:
  assumes "life_ok d" "submit_result r s d = (x, d')" "r \<notin> res_id ` set (db_results d)"
  shows "life_ok d'"
proof -
  have "life_ok (d\<lparr>db_results := db_results d @ [submitted_result r s c d]\<rparr>)"
    if "find_unit (su_unit s) d = Some w" "\<not> is_terminal_state (wu_state w)" for w c
  proof -
    have "terminal_clean (d\<lparr>db_results := db_results d @ [submitted_result r s c d]\<rparr>)"
      by (rule terminal_clean_add_result) (use assms(1) that in \<open>simp_all add: life_ok_def store_ok_def\<close>)
    then show ?thesis using assms(1,3)
      by (auto simp: life_ok_def store_ok_def ledger_ok_def units_distinct_def results_distinct_def)
  qed
  then show ?thesis using submit_result_effect [OF assms(2)] calm_life_ok assms(1) by blast
qed

lemma life_ok_rejudge:
  assumes "life_ok d" "batch_update_validation_status ids status d = (x, d')" "status \<in> {Agreed, Disagreed}"
  shows "life_ok d'"
proof -
  have "d' = d \<or> d' = d\<lparr>db_results := map (mark_row (db_now d) (set ids) status) (db_results d)\<rparr>"
    using assms(2)
    by (auto simp: batch_update_validation_status_def Let_def update_results_def update_where_def mark_row_def split: if_splits)
  moreover have "life_ok (d\<lparr>db_results := map (mark_row (db_now d) (set ids) status) (db_results d)\<rparr>)"
  proof -
    have "pending_of i d = [] \<Longrightarrow> pending_of i (d\<lparr>db_results := map (mark_row n X status) (db_results d)\<rparr>) = []" for i n X
      using assms(3) by (auto simp: pending_of_def filter_empty_conv mark_row_def split: if_splits)
    then show ?thesis using assms(1)
      by (simp add: life_ok_def store_ok_def ledger_ok_def units_distinct_def results_distinct_def terminal_clean_def
          comp_def image_image)
  qed
  ultimately show ?thesis using assms(1) by auto
qed

subsection \<open>Evaluations and revives\<close>

lemma ledger_ok_rows:
  assumes "ledger_ok d" "db_ledger d' = db_ledger d" "map res_id (db_results d') = map res_id (db_results d)"
  shows "ledger_ok d'"
  using assms by (simp only: ledger_ok_def)

lemma accept_results_ledger:
  assumes "accept_results en w lf p m n d = (Inr g, d')" "store_ok d" "snapshot_of (wu_id w) p d" "ledger_ok d"
  shows "ledger_ok d'"
proof -
  obtain d1 where tx: "accept_tx en w lf p m n d = (Inr g, d1)"
    and d': "d' = accept_effects en w lf (agreed_part m p) (rejected_part m p) d1"
    using assms(1) by (auto simp: accept_results_def split: prod.splits sum.splits)
  have rd: "results_distinct d" using assms(2) by (simp add: store_ok_def)
  let ?d0 = "d\<lparr>db_results := map (adjudicate_row (db_now d) (wu_id w) (final_status m p)) (db_results d)\<rparr>"
  obtain w1 where e: "grows_ledger w (credit_amount lf) g (moved_db (wu_id w) Completed Validated w1 ?d0) d1"
    "set g \<subseteq> res_id ` set (agreed_part m p)"
    by (rule accept_tx_effect [OF tx assms(3) rd]) (erule that)
  obtain es where es: "d1 = (moved_db (wu_id w) Completed Validated w1 ?d0)
      \<lparr>db_ledger := db_ledger (moved_db (wu_id w) Completed Validated w1 ?d0) @ es\<rparr>"
    "map lg_result es = g" "\<forall>r\<in>set g. \<not> credit_taken d r" "distinct g"
    using e(1) by (auto simp: grows_ledger_def credit_taken_def)
  have "set (agreed_part m p) \<subseteq> set (db_results d)"
    using assms(3) unfolding agreed_part_def snapshot_of_def by (auto simp: pending_of_def)
  then have "res_id ` set (agreed_part m p) \<subseteq> res_id ` set (db_results d)" by (rule image_mono)
  then have "set g \<subseteq> res_id ` set (db_results d)" using e(2) by blast
  moreover have "set g \<inter> set (map lg_result (db_ledger d)) = {}" using es(3) by (auto simp: credit_taken_def)
  ultimately have "ledger_ok d1" using assms(4) es(2,4)
    by (auto simp: es(1) ledger_ok_def image_image)
  moreover have "db_ledger d' = db_ledger d1 \<and> db_results d' = db_results d1"
  proof -
    have "db_ledger (fold (record_adjudicated_db en ok) rs x) = db_ledger x" for ok rs x
    proof (induction rs arbitrary: x)
      case (Cons r rs)
      have "db_ledger (record_adjudicated_db en ok r x) = db_ledger x" by (simp add: record_adjudicated_db_def split: option.splits)
      then show ?case using Cons.IH [of "record_adjudicated_db en ok r x"] by simp
    qed simp
    then show ?thesis using accept_effects_rows [where d = d1 and en = en and w = w and lf = lf and agreed = "agreed_part m p" and rejected = "rejected_part m p"]
      unfolding d' by (simp add: accept_effects_def accrue_trust_def record_reliability_def)
  qed
  ultimately show ?thesis by (intro ledger_ok_rows [of d1 d']) simp_all
qed

lemma reject_all_ledger:
  assumes "reject_all en w p n d = (Inr g, d')" "ledger_ok d"
  shows "ledger_ok d'"
proof -
  obtain d1 where tx: "reject_tx w p n d = (Inr g, d1)"
    and d': "d' = record_reliability en False p (fold (record_adjudicated_db en False) p d1)"
    using assms(1) by (auto simp: reject_all_def split: prod.splits sum.splits)
  obtain u1 d2 w2 d3 w3 where s:
    "batch_update_validation_status (map res_id p) Disagreed d = (Inr u1, d2)"
    "update_state (wu_id w) Completed Rejected d2 = (Inr w2, d3)"
    "reassign (wu_id w) d3 = (Inr (w3, g), d1)"
    using tx unfolding reject_tx_def run_finalization_Inr by (auto simp: obind_eq_Inr)
  have d2: "d2 = d\<lparr>db_results := map (mark_row (db_now d) (set (map res_id p)) Disagreed) (db_results d)\<rparr>"
    by (rule batch_ok [OF s(1)])
  have "calm d2 d1" using calm_trans [OF calm_update_state [OF s(2)] calm_reassign [OF s(3)]]
    by (simp add: is_terminal_state_def)
  then have l: "db_ledger d1 = db_ledger d" "db_results d1 = db_results d2" by (simp_all add: calm_def d2)
  have f: "db_ledger (fold (record_adjudicated_db en ok) rs x) = db_ledger x" for ok rs x
  proof (induction rs arbitrary: x)
    case (Cons r rs)
    have "db_ledger (record_adjudicated_db en ok r x) = db_ledger x" by (simp add: record_adjudicated_db_def split: option.splits)
    then show ?case using Cons.IH [of "record_adjudicated_db en ok r x"] by simp
  qed simp
  have "db_ledger d' = db_ledger d" "map res_id (db_results d') = map res_id (db_results d)"
    using l f record_adjudicated_rows [where d = d1 and en = en and ok = False and rs = p]
    by (simp_all add: d' record_reliability_def d2 comp_def)
  then show ?thesis by (intro ledger_ok_rows [OF assms(2)]) simp_all
qed

lemma dead_letter_ledger:
  assumes "dead_letter_if_exhausted i d = (Inr True, d')" "ledger_ok d"
  shows "ledger_ok d'"
proof -
  have "db_ledger d' = db_ledger d" "map res_id (db_results d') = map res_id (db_results d)"
    using assms(1)
    by (auto simp: dead_letter_if_exhausted_def Let_def update_results_def map_key_update_where split: if_splits)
  then show ?thesis by (rule ledger_ok_rows [OF assms(2)])
qed

text \<open>The transitioner's contract again, now with the ledger in the invariant.\<close>

interpretation lc: transition_store "db_ops en sha_hex" unit_states life_ok "\<lambda>d i p. snapshot_of i p d"
  for en sha_hex
proof (unfold_locales, goal_cases)
  case (1 i s w)
  then show ?case by (rule tr.get_unit)
next
  case (2 s i all)
  then show ?case using tr.list_snap [of s en sha_hex i all] by (simp add: life_ok_def)
next
  case (3 i s r s' p)
  then have m: "s' = snd (mark_completed i s)" by (simp add: db_ops_def)
  show ?case using tr.mark [OF 3, of p] calm_life_ok [OF calm_mark_completed, of s i] m by blast
next
  case (4 i s u s')
  then obtain w where u: "update_state i Completed Queued s = (Inr w, s')"
    by (auto simp: db_ops_def dest: drop_value_Inr)
  have "calm s s'" by (rule calm_update_state [OF u]) (simp add: is_terminal_state_def)
  then show ?case using tr.update_ok [OF 4] calm_life_ok by blast
next
  case (5 i s e s')
  then show ?case by (rule tr.update_err)
next
  case (6 i s u s')
  then obtain x where u: "reassign i s = (Inr x, s')" by (auto simp: db_ops_def dest: drop_value_Inr)
  show ?case using tr.reassign_ok [OF 6] calm_life_ok [OF calm_reassign [OF u]] by blast
next
  case (7 i s e s')
  then show ?case by (rule tr.reassign_err)
next
  case (8 i s s')
  then have "dead_letter_if_exhausted i s = (Inr True, s')" by (simp add: db_ops_def)
  then show ?case using tr.dead_ok [OF 8(1)] 8(2) dead_letter_ledger by (simp add: life_ok_def)
next
  case (9 i s s')
  then show ?case by (rule tr.dead_idle)
next
  case (10 i s e s')
  then show ?case by (rule tr.dead_err)
next
  case (11 i out s q s')
  then have "s' = snd (expire_live_copies i out s)" by (simp add: db_ops_def)
  then show ?case using tr.expire [OF 11] calm_life_ok [OF calm_expire, of s i out] by simp
next
  case (12 w lf p m n s u s')
  then obtain x where u: "accept_results en w lf p m n s = (Inr x, s')" by (auto simp: db_ops_def dest: drop_value_Inr)
  show ?case using tr.accept_ok [OF 12(1) _ 12(3)] 12(2) accept_results_ledger [OF u _ 12(3)] by (simp add: life_ok_def)
next
  case (13 w lf p m n s e s')
  then show ?case by (rule tr.accept_err)
next
  case (14 w p n s u s')
  then obtain x where u: "reject_all en w p n s = (Inr x, s')" by (auto simp: db_ops_def dest: drop_value_Inr)
  show ?case using tr.reject_ok [OF 14(1) _ 14(3)] 14(2) reject_all_ledger [OF u] by (simp add: life_ok_def)
next
  case (15 w p n s e s')
  then show ?case by (rule tr.reject_err)
qed

lemma life_ok_revive:
  assumes "life_ok d" "revive_dead_lettered i refund ft fe d = (x, d')"
  shows "life_ok d'"
proof (cases x)
  case (Inl e)
  then show ?thesis using assms in_tx_Inl unfolding revive_dead_lettered_def by fastforce
next
  case (Inr out)
  let ?d1 = "revive_refunded i refund ft fe d"
  obtain w out0 n where s: "find_unit i d = Some w" "wu_state w = Failed"
    "revive_probe i refund n ?d1 = Inr out0" "revive_flip i out0 ?d1 = (Inr out, d')"
    using assms(2) Inr
    by (auto simp: revive_dead_lettered_def in_tx_Inr Let_def split: option.splits if_splits sum.splits)
  have "calm d ?d1"
    using calm_trans [OF calm_copies calm_units] calm_copies by (simp add: revive_refunded_def Let_def)
  then have ok1: "life_ok ?d1" using assms(1) calm_life_ok by blast
  obtain w1 where w1: "find_unit i ?d1 = Some w1" using s(3) unfolding revive_probe_ok by blast
  have "wu_state w1 = Failed"
    using w1 revive_refunded_find(1) [OF s(1,2), of refund ft fe] s(2) by (auto simp: Let_def split: if_splits)
  note F = revive_flip_effect [OF s(4) w1 this]
  have rows: "map res_id (db_results d') = map res_id (db_results ?d1)" by (simp add: F(2) map_key_update_where)
  have led: "db_ledger d' = db_ledger ?d1" using s(4) by (auto simp: revive_flip_def Let_def split: if_splits)
  have st: "unit_states d' j = (if j = i then Some Queued else unit_states ?d1 j)" for j
    using F(1) F(6) [of j] by (simp add: unit_states_def)
  have pend: "pending_of j d' = pending_of j ?d1" if "j \<noteq> i" for j
  proof -
    have "filter (\<lambda>r. res_unit r = j \<and> res_status r = Pending)
        (update_where (\<lambda>r. res_unit r = i \<and> res_status r = Superseded) (\<lambda>r. r\<lparr>res_status := Pending\<rparr>) rs) =
      filter (\<lambda>r. res_unit r = j \<and> res_status r = Pending) rs" for rs
      using that by (induction rs) auto
    then show ?thesis by (simp add: pending_of_def F(2))
  qed
  have "store_ok d'"
    by (rule store_ok_step [where d = ?d1 and i = i])
      (use ok1 F(8) rows st pend in \<open>simp_all add: life_ok_def is_terminal_state_def\<close>)
  moreover have "ledger_ok d'" using ok1 led rows by (intro ledger_ok_rows [of ?d1 d']) (simp_all add: life_ok_def)
  ultimately show ?thesis by (simp add: life_ok_def)
qed

lemma life_ok_handle_revive:
  assumes "life_ok d" "handle_revive lid i refund d = (x, d')"
  shows "life_ok d'"
proof -
  have "d' = d \<or> (\<exists>r t e. revive_dead_lettered i r t e d = (x, d'))"
    using assms(2) by (auto simp: handle_revive_def get_unit_def split: option.splits if_splits sum.splits)
  then show ?thesis using assms(1) life_ok_revive by blast
qed

lemma life_ok_evaluate:
  "life_ok d \<Longrightarrow> evaluate (db_ops en sha_hex) tp i d = (x, ev, d') \<Longrightarrow> life_ok d'"
  by (rule lc.evaluate_step(1))

subsection \<open>The invariant of every history\<close>

lemma life_ok_regrant:
  assumes "life_ok d" "\<not> credit_taken d (lg_result e)" "lg_result e \<in> res_id ` set (db_results d)"
  shows "life_ok (d\<lparr>db_ledger := db_ledger d @ [e\<lparr>lg_granted_at := db_now d\<rparr>]\<rparr>)"
proof -
  let ?d = "d\<lparr>db_ledger := db_ledger d @ [e\<lparr>lg_granted_at := db_now d\<rparr>]\<rparr>"
  have "lg_result e \<notin> set (map lg_result (db_ledger d))" using assms(2) by (auto simp: credit_taken_def)
  then have "ledger_ok ?d" using assms(1,3) by (simp add: life_ok_def ledger_ok_def)
  then show ?thesis using assms(1)
    by (simp add: life_ok_def store_ok_def units_distinct_def results_distinct_def terminal_clean_def pending_of_def)
qed

lemma life_step_ok:
  assumes "life_step en sha_hex d d'" "life_ok d"
  shows "life_ok d'"
  using assms
proof (cases rule: life_step.cases)
  case (create w)
  have "pending_of (wu_id w) d = [] \<or> \<not> is_terminal_state (wu_state w)" using create by (simp add: is_terminal_state_def)
  then show ?thesis using assms(2) create
    by (auto simp: life_ok_def store_ok_def ledger_ok_def units_distinct_def results_distinct_def terminal_clean_def
        pending_of_def is_terminal_state_def)
next
  case (publish i x)
  show ?thesis by (rule calm_life_ok [OF calm_update_state [OF publish] assms(2)]) (simp add: is_terminal_state_def)
next
  case (submit r s x)
  then show ?thesis using life_ok_submit assms(2) by blast
next
  case (evaluate i x ev)
  then show ?thesis using life_ok_evaluate assms(2) by blast
next
  case (revive lid i refund ro)
  then show ?thesis using life_ok_handle_revive assms(2) by blast
next
  case (rejudge ids status x)
  then show ?thesis using life_ok_rejudge assms(2) by blast
next
  case (regrant e x)
  then have "d' = d \<or> (\<not> credit_taken d (lg_result e) \<and> d' = d\<lparr>db_ledger := db_ledger d @ [e\<lparr>lg_granted_at := db_now d\<rparr>]\<rparr>)"
    by (auto simp: create_credit_def split: if_splits)
  then show ?thesis using assms(2) life_ok_regrant regrant(2) by auto
next
  case (operators lfs vols tt hr now)
  then show ?thesis using assms(2)
    by (simp add: life_ok_def store_ok_def ledger_ok_def units_distinct_def results_distinct_def terminal_clean_def
        pending_of_def)
qed (use assms(2) calm_life_ok calm_copy_ops calm_assign calm_flags calm_requeue calm_demote calm_expire in
    \<open>(metis snd_conv)+\<close>)



end
