(* ===== verification/Settlement.thy ===== *)
theory Settlement
  imports Lifecycle
begin

text \<open>
  Settlement of credit (\<open>credit/adjustments-pgx-repo.go\<close>, \<open>credit/rac-repo.go\<close>): compensating entries
  against the append-only ledger, and the recent average credit of an account on a leaf. The store adds
  the tables of the settlement phase to the database of the preceding theories. A ledger entry is named
  by its result, which is unique in the table; an adjustment by its position in the append-only table.
  Amounts are the numbers the \<open>numeric(18,6)\<close> columns hold, exact to six decimals; the code reads them
  as \<open>float64\<close>, computes in floating point, and what it writes back is rounded to six decimals. Lemmas
  bound the error of those conversions below half a unit of the last decimal for entries below \<open>2^30\<close>.
\<close>

subsection \<open>Tables\<close>

record adjustment =
  adj_entry :: uid
  adj_volunteer :: uid
  adj_leaf :: uid
  adj_amount :: rat
  adj_reason :: string
  adj_note :: "string option"
  adj_by :: string
  adj_audit :: "uid option"
  adj_rac_applied :: "time option"
  adj_created_at :: time

record rac_entry =
  rc_rac :: rat
  rc_total_credit :: rat
  rc_last_credit_at :: "time option"
  rc_last_updated_at :: time

datatype audit_status = AuditQueued | AuditClaimed | AuditCompleted | AuditExpired

datatype enforcement_state = EnfNone | EnfAwaiting | EnfEnforced | EnfContradicted | EnfStalled

text \<open>An audit keeps the runner's bytes as what they decode to and the head's checksum of them.\<close>

record audit =
  au_id :: uid
  au_unit :: uid
  au_leaf :: uid
  au_accepted_result :: uid
  au_accepted_key :: "string option"
  au_snapshot :: comparison_snapshot
  au_required_hr :: "string option"
  au_artifact_version :: "uid option"
  au_status :: audit_status
  au_verdict :: "audit_verdict option"
  au_detail :: "string option"
  au_attempts :: int
  au_claimed_by :: "uid option"
  au_lease_expires :: "time option"
  au_output :: raw_output
  au_output_checksum :: "string option"
  au_created_at :: time
  au_claimed_at :: "time option"
  au_completed_at :: "time option"
  au_eligible :: bool
  au_enforcement :: enforcement_state
  au_enforced_at :: "time option"
  au_confirms :: "uid option"
  au_claimed_hr :: "string option"

record audit_db =
  ad_db :: db
  ad_audits :: "audit list"
  ad_adjustments :: "adjustment list"
  ad_rac :: "uid \<times> uid \<rightharpoonup> rac_entry"
  ad_repairs :: "(uid \<times> uid) list"

subsection \<open>Six-decimal numbers\<close>

definition num6 :: "rat \<Rightarrow> rat" where
  "num6 x = (if x < 0 then - (of_int \<lfloor>- x * 1000000 + 1/2\<rfloor> / 1000000)
             else of_int \<lfloor>x * 1000000 + 1/2\<rfloor> / 1000000)"

definition six_decimals :: "rat \<Rightarrow> bool" where
  "six_decimals x \<longleftrightarrow> of_int \<lfloor>x * 1000000\<rfloor> = x * 1000000"

lemma six_decimals_iff: "six_decimals x \<longleftrightarrow> (\<exists>n. x = of_int n / 1000000)"
proof
  assume "six_decimals x"
  then have "x = of_int \<lfloor>x * 1000000\<rfloor> / 1000000" by (simp only: six_decimals_def)
  then show "\<exists>n. x = of_int n / 1000000" by blast
next
  assume "\<exists>n. x = of_int n / 1000000"
  then obtain n where "x * 1000000 = of_int n" by auto
  then show "six_decimals x" by (simp add: six_decimals_def)
qed

lemma six_decimals_add [intro]: "six_decimals x \<Longrightarrow> six_decimals y \<Longrightarrow> six_decimals (x + y)"
proof -
  assume "six_decimals x" "six_decimals y"
  then obtain m n where "x = of_int m / 1000000" "y = of_int n / 1000000" by (auto simp: six_decimals_iff)
  then have "x + y = of_int (m + n) / 1000000" by (simp add: add_divide_distrib)
  then show ?thesis unfolding six_decimals_iff by blast
qed

lemma six_decimals_num6 [simp]: "six_decimals (num6 x)"
proof (cases "x < 0")
  case True
  then have "num6 x = of_int (- \<lfloor>- x * 1000000 + 1/2\<rfloor>) / 1000000" by (simp add: num6_def)
  then show ?thesis unfolding six_decimals_iff by blast
next
  case False
  then show ?thesis unfolding six_decimals_iff num6_def by auto
qed

lemma num6_0 [simp]: "num6 0 = 0"
proof -
  have "\<lfloor>1/2 :: rat\<rfloor> = 0" by (rule floor_unique) auto
  then show ?thesis by (simp add: num6_def)
qed

lemma num6_minus: "num6 (- x) = - num6 x"
proof (cases "x = 0")
  case False
  then show ?thesis by (auto simp: num6_def)
qed simp

lemma num6_nonneg: "0 \<le> x \<Longrightarrow> 0 \<le> num6 x"
  by (simp add: num6_def)

lemma num6_mono: "0 \<le> x \<Longrightarrow> x \<le> y \<Longrightarrow> num6 x \<le> num6 y"
  by (simp add: num6_def divide_right_mono floor_mono)

lemma num6_near:
  assumes "six_decimals r" "0 \<le> r" "0 \<le> x" "\<bar>x - r\<bar> < 1 / 2000000"
  shows "num6 x = r"
proof -
  obtain n where r: "r = of_int n / 1000000" using assms(1) by (auto simp: six_decimals_iff)
  have "\<lfloor>x * 1000000 + 1/2\<rfloor> = n"
    by (rule floor_unique) (use assms(4) in \<open>auto simp: r abs_if field_simps split: if_splits\<close>)
  then show ?thesis using assms(3) by (simp add: num6_def r)
qed

lemma six_decimals_sum_list: "(\<And>x. x \<in> set xs \<Longrightarrow> six_decimals x) \<Longrightarrow> six_decimals (sum_list xs)"
proof (induction xs)
  case Nil
  have "six_decimals 0" unfolding six_decimals_iff by (rule exI [of _ 0]) simp
  then show ?case by simp
qed auto

subsection \<open>The error of a conversion\<close>

lemma rne_error: "\<bar>of_int (rne x) - x\<bar> \<le> 1 / 2"
  unfolding rne_def Let_def by (simp add: abs_if) linarith

lemma rnd_error:
  assumes "\<bar>x\<bar> \<le> 2 ^ 30"
  shows "\<bar>rnd x - x\<bar> \<le> 1 / 2 ^ 23"
proof (cases "x = 0")
  case False
  let ?e = "f64_exp x"
  have "ilog2 \<bar>x\<bar> < 31" using assms False by (intro ilog2_less) auto
  then have e: "?e \<le> - 22" by (simp add: f64_exp_def)
  have p: "(0::rat) < 2 powi ?e" by simp
  have "(2::rat) powi ?e \<le> 2 powi (- 22)" using e by (intro power_int_increasing) auto
  also have "\<dots> = 1 / 2 ^ 22" by (simp add: power_int_minus divide_simps)
  finally have small: "(2::rat) powi ?e \<le> 1 / 2 ^ 22" .
  have "rnd x - x = (of_int (rne (x / 2 powi ?e)) - x / 2 powi ?e) * 2 powi ?e"
    using False p by (simp add: rnd_def field_simps)
  then have "\<bar>rnd x - x\<bar> = \<bar>of_int (rne (x / 2 powi ?e)) - x / 2 powi ?e\<bar> * 2 powi ?e"
    using p by (simp add: abs_mult)
  also have "\<dots> \<le> 1 / 2 * 2 powi ?e" using rne_error p by (intro mult_right_mono) auto
  also have "\<dots> \<le> 1 / 2 * (1 / 2 ^ 22)" using small by simp
  finally show ?thesis by simp
qed simp

text \<open>The remaining net as the code computes it: both operands converted, then their floating sum.\<close>

definition remaining_net :: "rat \<Rightarrow> rat \<Rightarrow> f64" where
  "remaining_net credit adj_sum = rnd (rnd credit + rnd adj_sum)"

lemma remaining_net_near:
  assumes "0 \<le> c" "c \<le> 2 ^ 29" "s \<le> 0" "0 \<le> c + s"
  shows "\<bar>remaining_net c s - (c + s)\<bar> < 1 / 2000000"
proof -
  have a: "\<bar>rnd c - c\<bar> \<le> 1 / 2 ^ 23" "\<bar>rnd s - s\<bar> \<le> 1 / 2 ^ 23"
    using assms rnd_error [of c] rnd_error [of s] by (simp_all add: abs_le_iff)
  then have "\<bar>rnd c + rnd s\<bar> \<le> 2 ^ 30" using assms unfolding abs_le_iff by simp
  then have "\<bar>rnd (rnd c + rnd s) - (rnd c + rnd s)\<bar> \<le> 1 / 2 ^ 23" by (rule rnd_error)
  then show ?thesis using a unfolding remaining_net_def abs_le_iff abs_less_iff by simp
qed

lemma remaining_net_exact:
  assumes "0 \<le> c" "c \<le> 2 ^ 29" "s \<le> 0" "0 \<le> c + s" "six_decimals (c + s)"
  shows "num6 (remaining_net c s) = c + s" and "0 < remaining_net c s \<longleftrightarrow> 0 < c + s" and "0 \<le> remaining_net c s"
proof -
  have "rnd (- s) \<le> rnd c" using assms(4) by (intro rnd_mono) simp
  then have "0 \<le> rnd c + rnd s" by (simp add: rnd_minus)
  then show nn: "0 \<le> remaining_net c s" by (simp add: remaining_net_def rnd_nonneg)
  show n: "num6 (remaining_net c s) = c + s"
    by (rule num6_near [OF assms(5,4) nn remaining_net_near [OF assms(1-4)]])
  show "0 < remaining_net c s \<longleftrightarrow> 0 < c + s"
  proof
    assume "0 < c + s"
    then show "0 < remaining_net c s" using n nn by (cases "remaining_net c s = 0") auto
  next
    assume p: "0 < remaining_net c s"
    show "0 < c + s"
    proof (rule ccontr)
      assume "\<not> 0 < c + s"
      then have "s = - c" using assms(4) by simp
      then show False using p by (simp add: remaining_net_def rnd_minus)
    qed
  qed
qed


subsection \<open>Adjustments\<close>

definition adjustment_by_operator :: string where "adjustment_by_operator = ''OPERATOR''"
definition adjustment_by_audit :: string where "adjustment_by_audit = ''AUDIT''"
definition reason_audit_mismatch :: string where "reason_audit_mismatch = ''AUDIT_MISMATCH''"
definition reason_audit_mismatch_unmatured :: string where
  "reason_audit_mismatch_unmatured = ''AUDIT_MISMATCH_UNMATURED''"

definition adjustment_exhausted :: api_error where
  "adjustment_exhausted = OtherError ''ledger entry already fully adjusted''"

definition adjustment_overshoot :: api_error where
  "adjustment_overshoot = OtherError ''adjustment exceeds the entry's remaining credit''"

definition find_entry :: "uid \<Rightarrow> db \<Rightarrow> ledger option" where
  "find_entry r d = find (\<lambda>e. lg_result e = r) (db_ledger d)"

definition adjustment_sum :: "uid \<Rightarrow> adjustment list \<Rightarrow> rat" where
  "adjustment_sum e adjs = sum_list (map adj_amount (filter (\<lambda>a. adj_entry a = e) adjs))"

definition clawback ::
  "uid \<Rightarrow> rat option \<Rightarrow> string \<Rightarrow> string \<Rightarrow> string \<Rightarrow> uid option \<Rightarrow> (audit_db, nat) op" where
  "clawback e magnitude reason note by aid s =
     (if (case magnitude of None \<Rightarrow> False | Some m \<Rightarrow> m \<le> 0)
      then (Inl (ValidationError ''adjustment magnitude must be a positive, finite number''), s)
      else case find_entry e (ad_db s) of
        None \<Rightarrow> (Inl (NotFound ''credit_ledger_entry''), s)
      | Some l \<Rightarrow>
          let remaining = remaining_net (lg_amount l) (adjustment_sum e (ad_adjustments s)) in
          if remaining \<le> 0 then (Inl adjustment_exhausted, s)
          else
            let mag = (case magnitude of None \<Rightarrow> remaining | Some m \<Rightarrow> m) in
            if mag > remaining then (Inl adjustment_overshoot, s)
            else if \<not> num6 (- mag) < 0 then (Inl (Internal ''failed to insert credit adjustment''), s)
            else (Inr (length (ad_adjustments s)),
                  s\<lparr>ad_adjustments := ad_adjustments s @
                      [\<lparr>adj_entry = e, adj_volunteer = lg_volunteer l, adj_leaf = lg_leaf l,
                        adj_amount = num6 (- mag), adj_reason = reason,
                        adj_note = (if note = '''' then None else Some note), adj_by = by, adj_audit = aid,
                        adj_rac_applied = None, adj_created_at = db_now (ad_db s)\<rparr>]\<rparr>))"

definition clawback_for_audit :: "uid \<Rightarrow> uid \<Rightarrow> string \<Rightarrow> (audit_db, nat) op" where
  "clawback_for_audit e aid reason = clawback e None reason '''' adjustment_by_audit (Some aid)"

definition list_unmatured_entries :: "uid \<Rightarrow> int \<Rightarrow> audit_db \<Rightarrow> uid list" where
  "list_unmatured_entries v days s =
     map lg_result (sort_key lg_granted_at
       (filter (\<lambda>e. lg_volunteer e = v \<and> lg_granted_at e > db_now (ad_db s) - days * 86400) (db_ledger (ad_db s))))"

subsection \<open>Recent average credit\<close>

text \<open>\<open>decay t\<close> is the database's \<open>exp(- t * ln(2) / half_life)\<close>.\<close>

definition half_life_seconds :: int where "half_life_seconds = 604800"

definition rac_upsert :: "(int \<Rightarrow> f64) \<Rightarrow> uid \<Rightarrow> uid \<Rightarrow> f64 \<Rightarrow> audit_db \<Rightarrow> audit_db" where
  "rac_upsert decay v lf amount s =
     (let now = db_now (ad_db s) in
      s\<lparr>ad_rac := (ad_rac s)((v, lf) \<mapsto>
         (case ad_rac s (v, lf) of
            None \<Rightarrow> \<lparr>rc_rac = num6 amount, rc_total_credit = num6 amount, rc_last_credit_at = Some now,
                     rc_last_updated_at = now\<rparr>
          | Some r \<Rightarrow>
              let f = decay (now - rc_last_updated_at r) in
              r\<lparr>rc_rac := num6 (rnd (rnd (rnd (rc_rac r) * f) + rnd (amount * rnd (1 - f)))),
                rc_total_credit := num6 (rc_total_credit r + amount),
                rc_last_credit_at := Some now, rc_last_updated_at := now\<rparr>))\<rparr>)"

definition rac_decay_all :: "(int \<Rightarrow> f64) \<Rightarrow> audit_db \<Rightarrow> audit_db" where
  "rac_decay_all decay s =
     (let now = db_now (ad_db s) in
      s\<lparr>ad_rac := (\<lambda>k. map_option (\<lambda>r.
         if rc_last_updated_at r < now - 3600 \<and> rc_rac r > 1 / 1000000000
         then r\<lparr>rc_rac := num6 (rnd (rnd (rc_rac r) * decay (now - rc_last_updated_at r))),
                rc_last_updated_at := now\<rparr>
         else r) (ad_rac s k))\<rparr>)"

definition rac_decremented :: "(int \<Rightarrow> f64) \<Rightarrow> time \<Rightarrow> f64 \<Rightarrow> rac_entry \<Rightarrow> rac_entry" where
  "rac_decremented decay now mag r =
     r\<lparr>rc_rac := num6 (max 0 (rnd (rnd (rnd (rc_rac r) * decay (now - rc_last_updated_at r)) - mag))),
       rc_last_updated_at := now\<rparr>"

definition apply_rac_adjustment :: "(int \<Rightarrow> f64) \<Rightarrow> nat \<Rightarrow> (audit_db, bool) op" where
  "apply_rac_adjustment decay k s =
     (if \<not> k < length (ad_adjustments s) then (Inl (NotFound ''credit_adjustment''), s)
      else
        let a = ad_adjustments s ! k; now = db_now (ad_db s); key = (adj_volunteer a, adj_leaf a) in
        if adj_rac_applied a \<noteq> None then (Inr False, s)
        else (Inr True,
              s\<lparr>ad_adjustments := (ad_adjustments s)[k := a\<lparr>adj_rac_applied := Some now\<rparr>],
                ad_rac := (case ad_rac s key of
                   None \<Rightarrow> ad_rac s
                 | Some r \<Rightarrow> (ad_rac s)(key \<mapsto> rac_decremented decay now (rnd (- adj_amount a)) r))\<rparr>))"

subsection \<open>The net of an entry\<close>

definition entry_net :: "audit_db \<Rightarrow> ledger \<Rightarrow> rat" where
  "entry_net s l = lg_amount l + adjustment_sum (lg_result l) (ad_adjustments s)"

definition nets_ok :: "audit_db \<Rightarrow> bool" where
  "nets_ok s \<longleftrightarrow> distinct (map lg_result (db_ledger (ad_db s))) \<and>
     (\<forall>l\<in>set (db_ledger (ad_db s)). six_decimals (lg_amount l) \<and> 0 < lg_amount l \<and> lg_amount l \<le> 2 ^ 29 \<and>
        0 \<le> entry_net s l) \<and>
     (\<forall>a\<in>set (ad_adjustments s). six_decimals (adj_amount a) \<and> adj_amount a < 0)"

lemma adjustment_sum_nonpos:
  "(\<And>a. a \<in> set adjs \<Longrightarrow> adj_amount a < 0) \<Longrightarrow> adjustment_sum e adjs \<le> 0"
  unfolding adjustment_sum_def by (rule sum_list_nonpos) (auto simp: order_less_imp_le)

lemma adjustment_sum_six:
  "(\<And>a. a \<in> set adjs \<Longrightarrow> six_decimals (adj_amount a)) \<Longrightarrow> six_decimals (adjustment_sum e adjs)"
  unfolding adjustment_sum_def by (rule six_decimals_sum_list) auto

lemma adjustment_sum_snoc [simp]:
  "adjustment_sum e (adjs @ [a]) = adjustment_sum e adjs + (if adj_entry a = e then adj_amount a else 0)"
  by (simp add: adjustment_sum_def)

lemma find_entryD: "find_entry e d = Some l \<Longrightarrow> l \<in> set (db_ledger d) \<and> lg_result l = e"
  by (auto simp: find_entry_def find_Some_iff)

lemma remaining_net_entry:
  assumes "nets_ok s" "l \<in> set (db_ledger (ad_db s))"
  shows "num6 (remaining_net (lg_amount l) (adjustment_sum (lg_result l) (ad_adjustments s))) = entry_net s l"
    and "0 < remaining_net (lg_amount l) (adjustment_sum (lg_result l) (ad_adjustments s)) \<longleftrightarrow> 0 < entry_net s l"
    and "0 \<le> remaining_net (lg_amount l) (adjustment_sum (lg_result l) (ad_adjustments s))"
proof -
  have l: "six_decimals (lg_amount l)" "0 \<le> lg_amount l" "lg_amount l \<le> 2 ^ 29" "0 \<le> entry_net s l"
    using assms by (auto simp: nets_ok_def)
  let ?s = "adjustment_sum (lg_result l) (ad_adjustments s)"
  have a: "?s \<le> 0" "six_decimals ?s"
    using assms(1) by (auto simp: nets_ok_def intro!: adjustment_sum_nonpos adjustment_sum_six)
  have n: "0 \<le> lg_amount l + ?s" using l(4) by (simp add: entry_net_def)
  note E = remaining_net_exact [OF l(2,3) a(1) n six_decimals_add [OF l(1) a(2)]]
  show "num6 (remaining_net (lg_amount l) ?s) = entry_net s l"
    "0 < remaining_net (lg_amount l) ?s \<longleftrightarrow> 0 < entry_net s l" "0 \<le> remaining_net (lg_amount l) ?s"
    using E by (simp_all add: entry_net_def)
qed


lemma clawback_cases:
  assumes "clawback e m reason note by aid s = (r, s')"
  obtains (refused) x where "r = Inl x" "s' = s"
  | (booked) l mag a where "find_entry e (ad_db s) = Some l" "r = Inr (length (ad_adjustments s))"
      "0 < remaining_net (lg_amount l) (adjustment_sum e (ad_adjustments s))"
      "mag = (case m of None \<Rightarrow> remaining_net (lg_amount l) (adjustment_sum e (ad_adjustments s)) | Some x \<Rightarrow> x)"
      "0 < mag" "mag \<le> remaining_net (lg_amount l) (adjustment_sum e (ad_adjustments s))" "num6 (- mag) < 0"
      "adj_entry a = e" "adj_amount a = num6 (- mag)" "adj_rac_applied a = None" "adj_audit a = aid"
      "adj_volunteer a = lg_volunteer l" "adj_leaf a = lg_leaf l"
      "s' = s\<lparr>ad_adjustments := ad_adjustments s @ [a]\<rparr>"
proof -
  show ?thesis
  proof (cases r)
    case (Inl x)
    then show ?thesis using assms refused [of x]
      by (auto simp: clawback_def Let_def split: if_splits option.splits)
  next
    case (Inr k)
    then show ?thesis using assms
      by (auto simp: clawback_def Let_def not_le split: if_splits option.splits intro!: booked)
  qed
qed

lemma clawback_exhausted:
  assumes "find_entry e (ad_db s) = Some l" "nets_ok s" "entry_net s l = 0"
  shows "clawback e None reason note by aid s = (Inl adjustment_exhausted, s)"
proof -
  have l: "l \<in> set (db_ledger (ad_db s))" "lg_result l = e" using find_entryD [OF assms(1)] by auto
  have "\<not> 0 < remaining_net (lg_amount l) (adjustment_sum e (ad_adjustments s))"
    using remaining_net_entry(2) [OF assms(2) l(1)] assms(3) l(2) by simp
  then show ?thesis using assms(1) by (simp add: clawback_def not_less)
qed

lemma clawback_nets:
  assumes "nets_ok s" "clawback e m reason note by aid s = (r, s')"
  shows "nets_ok s'"
    and "ad_db s' = ad_db s"
    and "l \<in> set (db_ledger (ad_db s)) \<Longrightarrow> lg_result l \<noteq> e \<Longrightarrow> entry_net s' l = entry_net s l"
    and "m = None \<Longrightarrow> find_entry e (ad_db s) = Some l \<Longrightarrow> entry_net s' l = 0"
proof -
  have "nets_ok s' \<and> ad_db s' = ad_db s \<and>
    (l \<in> set (db_ledger (ad_db s)) \<longrightarrow> lg_result l \<noteq> e \<longrightarrow> entry_net s' l = entry_net s l) \<and>
    (m = None \<longrightarrow> find_entry e (ad_db s) = Some l \<longrightarrow> entry_net s' l = 0)" for l
    using assms(2)
  proof (cases rule: clawback_cases)
    case (refused x)
    have "entry_net s l = 0" if "m = None" "find_entry e (ad_db s) = Some l"
    proof -
      have l: "l \<in> set (db_ledger (ad_db s))" "lg_result l = e" using find_entryD [OF that(2)] by auto
      note R = remaining_net_entry [OF assms(1) l(1), unfolded l(2)]
      have "\<not> 0 < entry_net s l"
      proof
        assume p: "0 < entry_net s l"
        have "num6 (- remaining_net (lg_amount l) (adjustment_sum e (ad_adjustments s))) < 0"
          using R(1) p by (simp add: num6_minus)
        then show False using assms(2) refused that R(2) p by (simp add: clawback_def Let_def)
      qed
      moreover have "0 \<le> entry_net s l" using assms(1) l(1) by (auto simp: nets_ok_def)
      ultimately show ?thesis by simp
    qed
    then show ?thesis using refused assms(1) by simp
  next
    case (booked l0 mag a)
    have l0: "l0 \<in> set (db_ledger (ad_db s))" "lg_result l0 = e" using find_entryD [OF booked(1)] by auto
    note R = remaining_net_entry [OF assms(1) l0(1), unfolded l0(2)]
    have le: "num6 mag \<le> entry_net s l0" using num6_mono [OF order_less_imp_le [OF booked(5)] booked(6)] R(1) by simp
    have net: "entry_net s' l' = entry_net s l' - (if lg_result l' = e then num6 mag else 0)" for l'
      using booked(8,9,14) by (auto simp: entry_net_def num6_minus)
    have uniq: "l' = l0" if "l' \<in> set (db_ledger (ad_db s))" "lg_result l' = e" for l'
      using assms(1) that l0 by (auto simp: nets_ok_def distinct_map inj_on_def)
    have "nets_ok s'"
      unfolding nets_ok_def
    proof (intro conjI ballI)
      show "distinct (map lg_result (db_ledger (ad_db s')))" using assms(1) booked(14) by (simp add: nets_ok_def)
    next
      fix l' assume l': "l' \<in> set (db_ledger (ad_db s'))"
      then show "six_decimals (lg_amount l')" "0 < lg_amount l'" "lg_amount l' \<le> 2 ^ 29"
        using assms(1) booked(14) by (auto simp: nets_ok_def)
      show "0 \<le> entry_net s' l'"
        using net [of l'] le uniq [of l'] l' assms(1) booked(14) by (auto simp: nets_ok_def)
    next
      fix a' assume "a' \<in> set (ad_adjustments s')"
      then have a': "a' \<in> set (ad_adjustments s) \<or> a' = a" using booked(14) by auto
      then show "six_decimals (adj_amount a')" using assms(1) booked(9) by (auto simp: nets_ok_def)
      show "adj_amount a' < 0" using a' assms(1) booked(7,9) by (auto simp: nets_ok_def)
    qed
    moreover have "num6 mag = entry_net s l0" if "m = None" using that booked(4) R(1) by simp
    ultimately show ?thesis using net booked(1,14) l0(2) by auto
  qed
  then show "nets_ok s'" "ad_db s' = ad_db s"
    "l \<in> set (db_ledger (ad_db s)) \<Longrightarrow> lg_result l \<noteq> e \<Longrightarrow> entry_net s' l = entry_net s l"
    "m = None \<Longrightarrow> find_entry e (ad_db s) = Some l \<Longrightarrow> entry_net s' l = 0" by blast+
qed

subsection \<open>Clawbacks\<close>

text \<open>A clawback never drives an entry's net below zero, in spite of the floating point it computes
  with: for entries of up to 2^29 credits with six decimals, every clawback, with or without an explicit
  magnitude, keeps every net non-negative and changes no other entry's net. A full clawback leaves exactly
  nothing, and repeating it reports the entry as exhausted and writes nothing.\<close>

theorem clawback_keeps_nets:
  assumes "nets_ok s" "find_entry e (ad_db s) = Some l" "clawback e m reason note by aid s = (r, s')"
  shows "nets_ok s' \<and> ad_db s' = ad_db s \<and>
    (\<forall>l'\<in>set (db_ledger (ad_db s)). lg_result l' \<noteq> e \<longrightarrow> entry_net s' l' = entry_net s l') \<and>
    (m = None \<longrightarrow> entry_net s' l = 0 \<and>
       clawback e None reason note by aid s' = (Inl adjustment_exhausted, s'))"
proof -
  note N = clawback_nets [OF assms(1,3)]
  have "find_entry e (ad_db s') = Some l" using assms(2) N(2) by simp
  then have "entry_net s' l = 0 \<Longrightarrow> clawback e None reason note by aid s' = (Inl adjustment_exhausted, s')"
    using clawback_exhausted N(1) by blast
  then show ?thesis using N assms(2) by blast
qed

definition sample_settlement :: "rat \<Rightarrow> rat list \<Rightarrow> audit_db" where
  "sample_settlement c amounts =
     \<lparr>ad_db = (sample_db [] [] [])\<lparr>db_ledger := [\<lparr>lg_volunteer = ''a'', lg_leaf = ''l'', lg_unit = ''u'', lg_result = ''r'',
         lg_amount = c, lg_granted_at = 0\<rparr>]\<rparr>,
      ad_audits = [], ad_adjustments = map (\<lambda>x. \<lparr>adj_entry = ''r'', adj_volunteer = ''a'', adj_leaf = ''l'',
         adj_amount = x, adj_reason = ''OPERATOR_CORRECTION'', adj_note = None, adj_by = adjustment_by_operator,
         adj_audit = None, adj_rac_applied = None, adj_created_at = 0\<rparr>) amounts,
      ad_rac = Map.empty, ad_repairs = []\<rparr>"

lemma sample_settlement_ok:
  assumes "six_decimals c" "0 < c" "c \<le> 2 ^ 29" "\<forall>x\<in>set amounts. six_decimals x \<and> x < 0" "0 \<le> c + sum_list amounts"
  shows "nets_ok (sample_settlement c amounts)"
  using assms by (auto simp: nets_ok_def sample_settlement_def sample_db_def entry_net_def adjustment_sum_def comp_def)

theorem clawback_keeps_nets_witness:
  "let s = sample_settlement (3/10) [-1/10] in
     clawback ''r'' None ''AUDIT_MISMATCH'' '''' adjustment_by_audit (Some ''A'')
       (snd (clawback ''r'' None ''AUDIT_MISMATCH'' '''' adjustment_by_audit (Some ''A'') s)) =
     (Inl adjustment_exhausted, snd (clawback ''r'' None ''AUDIT_MISMATCH'' '''' adjustment_by_audit (Some ''A'') s))"
proof -
  let ?s = "sample_settlement (3/10) [-1/10]"
  have sd: "six_decimals (3/10)" "six_decimals (-1/10)" by code_simp+
  have ok: "nets_ok ?s" by (rule sample_settlement_ok) (use sd in auto)
  have f: "find_entry ''r'' (ad_db ?s) = Some \<lparr>lg_volunteer = ''a'', lg_leaf = ''l'', lg_unit = ''u'', lg_result = ''r'',
         lg_amount = 3/10, lg_granted_at = 0\<rparr>"
    by (simp add: find_entry_def sample_settlement_def)
  obtain r s' where c: "clawback ''r'' None ''AUDIT_MISMATCH'' '''' adjustment_by_audit (Some ''A'') ?s = (r, s')"
    by (cases "clawback ''r'' None ''AUDIT_MISMATCH'' '''' adjustment_by_audit (Some ''A'') ?s")
  show ?thesis using clawback_keeps_nets [OF ok f c] c by (simp add: Let_def)
qed

text \<open>An operator cannot always claw back exactly what is left of an entry: after 0.1 of 0.3 credits has
  been clawed back, 0.2 credits remain, but the request for 0.2 is refused as an overshoot, because the
  remaining net is computed as the floating-point sum of 0.3 and -0.1.\<close>

theorem exact_remainder_is_refused:
  "let s = sample_settlement (3/10) [-1/10] in
     entry_net s (hd (db_ledger (ad_db s))) = 2/10 \<and>
     clawback ''r'' (Some (rnd (2/10))) ''OPERATOR_CORRECTION'' '''' adjustment_by_operator None s =
       (Inl adjustment_overshoot, s)"
proof -
  have "remaining_net (3/10) (-1/10) < rnd (2/10)" "0 < remaining_net (3/10) (-1/10)" "0 < rnd (2/10)"
    by code_simp+
  then show ?thesis
    by (simp add: Let_def clawback_def sample_settlement_def find_entry_def entry_net_def adjustment_sum_def
        sample_db_def not_le)
qed


subsection \<open>Recent average credit is decremented once\<close>

lemma apply_rac_adjustment_cases:
  assumes "apply_rac_adjustment decay k s = (x, s')"
  obtains (missing) "\<not> k < length (ad_adjustments s)" "x = Inl (NotFound ''credit_adjustment'')" "s' = s"
  | (stamped) "k < length (ad_adjustments s)" "adj_rac_applied (ad_adjustments s ! k) \<noteq> None" "x = Inr False" "s' = s"
  | (applied) "k < length (ad_adjustments s)" "adj_rac_applied (ad_adjustments s ! k) = None" "x = Inr True"
      "ad_adjustments s' = (ad_adjustments s)[k := (ad_adjustments s ! k)\<lparr>adj_rac_applied := Some (db_now (ad_db s))\<rparr>]"
      "ad_db s' = ad_db s" "ad_audits s' = ad_audits s" "ad_repairs s' = ad_repairs s"
      "ad_rac s' = (let a = ad_adjustments s ! k; key = (adj_volunteer a, adj_leaf a) in
         case ad_rac s key of None \<Rightarrow> ad_rac s
         | Some r \<Rightarrow> (ad_rac s)(key \<mapsto> rac_decremented decay (db_now (ad_db s)) (rnd (- adj_amount a)) r))"
  using assms by (fastforce simp: apply_rac_adjustment_def Let_def split: if_splits)

text \<open>The decrement of recent average credit for one adjustment happens exactly once. The first call for
  an existing adjustment applies it and stamps the row; every later call, after any number of others on
  other adjustments, changes nothing. The stamp never changes an amount, the lifetime total of an account
  never decreases, and no decrement makes a recent average negative.\<close>

theorem rac_adjustment_exactly_once:
  "case apply_rac_adjustment decay k s of
     (Inl _, s') \<Rightarrow> s' = s \<and> \<not> k < length (ad_adjustments s)
   | (Inr done, s') \<Rightarrow>
       done = (adj_rac_applied (ad_adjustments s ! k) = None) \<and>
       apply_rac_adjustment decay k s' = (Inr False, s') \<and>
       map adj_amount (ad_adjustments s') = map adj_amount (ad_adjustments s) \<and>
       map_option rc_total_credit \<circ> ad_rac s' = map_option rc_total_credit \<circ> ad_rac s \<and>
       (if done then (case ad_rac s' (adj_volunteer (ad_adjustments s ! k), adj_leaf (ad_adjustments s ! k)) of
                        None \<Rightarrow> True | Some r \<Rightarrow> 0 \<le> rc_rac r)
        else s' = s)"
proof (cases "apply_rac_adjustment decay k s")
  case (Pair x s')
  then show ?thesis
  proof (cases rule: apply_rac_adjustment_cases)
    case missing
    then show ?thesis using Pair by simp
  next
    case stamped
    then show ?thesis using Pair by (simp add: apply_rac_adjustment_def split: option.splits)
  next
    case applied
    let ?a = "ad_adjustments s ! k"
    have "apply_rac_adjustment decay k s' = (Inr False, s')"
      using applied(1,4) by (simp add: apply_rac_adjustment_def)
    moreover have "map adj_amount (ad_adjustments s') = map adj_amount (ad_adjustments s)"
      using applied(1,4) by (simp add: map_update) (metis list_update_id map_update)
    moreover have "map_option rc_total_credit \<circ> ad_rac s' = map_option rc_total_credit \<circ> ad_rac s"
      using applied(8) by (auto simp: fun_eq_iff Let_def rac_decremented_def split: option.splits)
    moreover have "case ad_rac s' (adj_volunteer ?a, adj_leaf ?a) of None \<Rightarrow> True | Some r \<Rightarrow> 0 \<le> rc_rac r"
      using applied(8) by (auto simp: Let_def rac_decremented_def num6_nonneg split: option.splits)
    ultimately show ?thesis using Pair applied(2,3) by (simp split: option.splits)
  qed
qed

text \<open>Grants in quick succession lose their weight in the recent average credit. When a grant arrives in
  the same instant as the previous update of the row, the average stays what it was, however large the
  grant is; only the lifetime total grows.\<close>

theorem burst_grant_has_no_weight:
  assumes "ad_rac s (v, lf) = Some r" "rc_last_updated_at r = db_now (ad_db s)" "decay 0 = 1"
    "six_decimals (rc_rac r)" "0 \<le> rc_rac r" "rc_rac r \<le> 2 ^ 29"
  shows "map_option rc_rac (ad_rac (rac_upsert decay v lf amount s) (v, lf)) = Some (rc_rac r) \<and>
    map_option rc_total_credit (ad_rac (rac_upsert decay v lf amount s) (v, lf)) = Some (num6 (rc_total_credit r + amount))"
proof -
  let ?x = "rc_rac r"
  have e: "\<bar>rnd y - y\<bar> \<le> 1 / 2 ^ 23" if "\<bar>y - ?x\<bar> \<le> 1" for y
    by (rule rnd_error) (use that assms(5,6) in \<open>auto simp: abs_le_iff\<close>)
  have "\<bar>rnd ?x - ?x\<bar> \<le> 1 / 2 ^ 23" by (rule e) simp
  moreover from this have "\<bar>rnd (rnd ?x) - rnd ?x\<bar> \<le> 1 / 2 ^ 23"
    by (intro e) (rule order_trans, assumption, simp)
  moreover from calculation have "\<bar>rnd (rnd ?x) - ?x\<bar> \<le> 1" unfolding abs_le_iff by simp
  then have "\<bar>rnd (rnd (rnd ?x)) - rnd (rnd ?x)\<bar> \<le> 1 / 2 ^ 23" by (rule e)
  ultimately have "\<bar>rnd (rnd (rnd ?x)) - ?x\<bar> < 1 / 2000000" unfolding abs_le_iff abs_less_iff by simp
  moreover have "0 \<le> rnd (rnd (rnd ?x))" using assms(5) by (simp add: rnd_nonneg)
  ultimately have "num6 (rnd (rnd (rnd ?x))) = ?x" using num6_near assms(4,5) by blast
  then show ?thesis using assms(1-3) by (simp add: rac_upsert_def Let_def)
qed

theorem burst_grant_has_no_weight_witness:
  "map_option rc_rac (ad_rac (rac_upsert (\<lambda>_. 1) ''a'' ''l'' 1000 ((sample_settlement 1 [])\<lparr>ad_rac := [(''a'', ''l'') \<mapsto>
     \<lparr>rc_rac = 1, rc_total_credit = 1, rc_last_credit_at = None, rc_last_updated_at = 100\<rparr>]\<rparr>)) (''a'', ''l'')) = Some 1"
proof -
  let ?r = "\<lparr>rc_rac = 1, rc_total_credit = 1, rc_last_credit_at = None, rc_last_updated_at = 100\<rparr>"
  let ?s = "(sample_settlement 1 [])\<lparr>ad_rac := [(''a'', ''l'') \<mapsto> ?r]\<rparr>"
  have h: "ad_rac ?s (''a'', ''l'') = Some ?r" "rc_last_updated_at ?r = db_now (ad_db ?s)"
    by (simp_all add: sample_settlement_def sample_db_def)
  have "six_decimals (rc_rac ?r)" "0 \<le> rc_rac ?r" "rc_rac ?r \<le> 2 ^ 29" by (simp_all add: six_decimals_def)
  from burst_grant_has_no_weight [OF h, of "\<lambda>_. 1", OF refl this, of 1000] show ?thesis by simp
qed

end
