(* ===== verification/Audits.thy ===== *)
theory Audits
  imports Settlement
begin

text \<open>
  The audit queue (\<open>audit/pgx-repo.go\<close>, \<open>server/audit-service.go\<close>): sampling enqueues an audit of a
  validated unit, a vetted runner claims it under a lease and returns bytes, the head adjudicates them,
  and a mismatch found while enforcement is on gets a second audit, its confirmation, from another
  runner. Every mutation is one guarded statement. \<open>reachable_audits\<close> is every history of the queue;
  the invariant proved of it is what the enforcement pass relies on.
\<close>

subsection \<open>Constants and errors\<close>

definition max_attempts :: int where "max_attempts = 3"
definition lease_floor :: int where "lease_floor = 600"
definition queued_lifetime :: int where "queued_lifetime = 259200"
definition confirmation_queued_lifetime :: int where "confirmation_queued_lifetime = 86400"
definition max_concurrent_claims :: int where "max_concurrent_claims = 8"
definition max_confirmation_attempts :: int where "max_confirmation_attempts = 3"
definition max_audit_claim_attempts :: nat where "max_audit_claim_attempts = 10"

definition duplicate_open_audit :: api_error where
  "duplicate_open_audit = OtherError ''an open audit already exists for this work unit''"

definition not_claimant :: api_error where
  "not_claimant = OtherError ''audit is not claimed by this runner''"

subsection \<open>Rows\<close>

definition audit_open :: "audit \<Rightarrow> bool" where
  "audit_open a \<longleftrightarrow> au_status a = AuditQueued \<or> au_status a = AuditClaimed"

definition find_audit :: "uid \<Rightarrow> audit_db \<Rightarrow> audit option" where
  "find_audit i s = find (\<lambda>a. au_id a = i) (ad_audits s)"

definition update_audits :: "(audit \<Rightarrow> bool) \<Rightarrow> (audit \<Rightarrow> audit) \<Rightarrow> audit_db \<Rightarrow> audit_db" where
  "update_audits P f s = s\<lparr>ad_audits := update_where P f (ad_audits s)\<rparr>"

text \<open>What an insert leaves to the table's defaults.\<close>

definition fresh_audit :: "uid \<Rightarrow> time \<Rightarrow> audit \<Rightarrow> audit" where
  "fresh_audit i now a = a\<lparr>au_id := i, au_status := AuditQueued, au_verdict := None, au_detail := None,
     au_attempts := 0, au_claimed_by := None, au_lease_expires := None, au_output := OutputEmpty,
     au_output_checksum := None, au_created_at := now, au_claimed_at := None, au_completed_at := None,
     au_eligible := False, au_enforcement := EnfNone, au_enforced_at := None, au_confirms := None,
     au_claimed_hr := None\<rparr>"

text \<open>The partial unique index: one open audit per unit.\<close>

definition insert_audit :: "audit \<Rightarrow> (audit_db, audit) op" where
  "insert_audit a s =
     (if \<exists>b\<in>set (ad_audits s). audit_open b \<and> au_unit b = au_unit a then (Inl duplicate_open_audit, s)
      else (Inr a, s\<lparr>ad_audits := ad_audits s @ [a]\<rparr>))"

definition enqueue_audit :: "uid \<Rightarrow> audit \<Rightarrow> (audit_db, audit) op" where
  "enqueue_audit i a s = insert_audit (fresh_audit i (db_now (ad_db s)) a) s"

definition enqueue_confirmation :: "uid \<Rightarrow> uid \<Rightarrow> (audit_db, audit) op" where
  "enqueue_confirmation i rt s =
     (case find_audit rt s of
        None \<Rightarrow> (Inl (NotFound ''result_audit''), s)
      | Some a \<Rightarrow> insert_audit ((fresh_audit i (db_now (ad_db s)) a)\<lparr>au_confirms := Some rt\<rparr>) s)"

subsection \<open>Claiming\<close>

definition confirmation_open_to :: "uid \<Rightarrow> string \<Rightarrow> audit list \<Rightarrow> audit \<Rightarrow> bool" where
  "confirmation_open_to runner hr audits c \<longleftrightarrow>
     \<not> (\<exists>rt\<in>set audits. Some (au_id rt) = au_confirms c \<and> au_claimed_by rt = Some runner) \<and>
     \<not> (\<exists>sib\<in>set audits. au_confirms sib = au_confirms c \<and> au_claimed_by sib = Some runner \<and>
          (au_status sib = AuditCompleted \<and> au_verdict sib = Some AuditInconclusive \<or> au_status sib = AuditExpired)) \<and>
     (au_required_hr c \<noteq> None \<or>
      \<not> (\<exists>rt\<in>set audits. Some (au_id rt) = au_confirms c \<and> au_claimed_hr rt = Some hr))"

definition claimable :: "uid \<Rightarrow> string \<Rightarrow> audit list \<Rightarrow> audit \<Rightarrow> bool" where
  "claimable runner hr audits c \<longleftrightarrow>
     au_status c = AuditQueued \<and> (au_required_hr c = None \<or> au_required_hr c = Some hr) \<and>
     (au_confirms c = None \<or> confirmation_open_to runner hr audits c)"

definition claims_held :: "uid \<Rightarrow> audit list \<Rightarrow> int" where
  "claims_held runner audits = count_if (\<lambda>a. au_claimed_by a = Some runner \<and> au_status a = AuditClaimed) audits"

definition claimed_row :: "audit_db \<Rightarrow> uid \<Rightarrow> string \<Rightarrow> audit \<Rightarrow> audit" where
  "claimed_row s runner hr a =
     (let deadline = (case find_unit (au_unit a) (ad_db s) of None \<Rightarrow> lease_floor
                        | Some w \<Rightarrow> max (wu_deadline_seconds w) lease_floor);
          now = db_now (ad_db s) in
      a\<lparr>au_status := AuditClaimed, au_claimed_by := Some runner, au_claimed_at := Some now,
        au_claimed_hr := Some hr, au_attempts := au_attempts a + 1, au_lease_expires := Some (now + deadline)\<rparr>)"

definition claim_audit :: "uid \<Rightarrow> string \<Rightarrow> (audit_db, audit option) op" where
  "claim_audit runner hr s =
     (case sort_key au_created_at (filter (claimable runner hr (ad_audits s)) (ad_audits s)) of
        [] \<Rightarrow> (Inr None, s)
      | c # _ \<Rightarrow>
          (if \<not> claims_held runner (ad_audits s) < max_concurrent_claims then (Inr None, s)
           else (Inr (Some (claimed_row s runner hr c)),
                 update_audits (\<lambda>a. au_id a = au_id c) (claimed_row s runner hr) s)))"

subsection \<open>Closing and reclaiming\<close>

definition held_by :: "uid \<Rightarrow> uid \<Rightarrow> audit \<Rightarrow> bool" where
  "held_by i runner a \<longleftrightarrow> au_id a = i \<and> au_status a = AuditClaimed \<and> au_claimed_by a = Some runner"

definition guarded_close :: "uid \<Rightarrow> uid \<Rightarrow> (audit \<Rightarrow> audit) \<Rightarrow> (audit_db, unit) op" where
  "guarded_close i runner f s =
     (if count_if (held_by i runner) (ad_audits s) = 0 then (Inl not_claimant, s)
      else (Inr (), update_audits (held_by i runner) f s))"

definition verdict_row ::
  "time \<Rightarrow> audit_verdict \<Rightarrow> string \<Rightarrow> raw_output \<Rightarrow> string \<Rightarrow> bool \<Rightarrow> audit \<Rightarrow> audit" where
  "verdict_row now v detail out checksum eligible a =
     a\<lparr>au_status := AuditCompleted, au_verdict := Some v, au_detail := Some detail, au_output := out,
       au_output_checksum := Some checksum, au_completed_at := Some now, au_lease_expires := None,
       au_eligible := eligible,
       au_enforcement := (if eligible \<and> v = AuditMismatch \<and> au_confirms a = None then EnfAwaiting
                          else au_enforcement a)\<rparr>"

definition complete_verdict ::
  "uid \<Rightarrow> uid \<Rightarrow> audit_verdict \<Rightarrow> string \<Rightarrow> raw_output \<Rightarrow> string \<Rightarrow> bool \<Rightarrow> (audit_db, unit) op" where
  "complete_verdict i runner v detail out checksum eligible s =
     guarded_close i runner (verdict_row (db_now (ad_db s)) v detail out checksum eligible) s"

definition complete_inconclusive :: "uid \<Rightarrow> uid \<Rightarrow> string \<Rightarrow> (audit_db, unit) op" where
  "complete_inconclusive i runner detail s =
     guarded_close i runner (\<lambda>a. a\<lparr>au_status := AuditCompleted, au_verdict := Some AuditInconclusive,
       au_detail := Some detail, au_completed_at := Some (db_now (ad_db s)), au_lease_expires := None\<rparr>) s"

definition release_row :: "string \<Rightarrow> audit \<Rightarrow> audit" where
  "release_row msg a =
     (if au_attempts a < max_attempts
      then a\<lparr>au_status := AuditQueued, au_claimed_by := None, au_claimed_at := None, au_lease_expires := None,
             au_detail := Some msg\<rparr>
      else a\<lparr>au_status := AuditExpired, au_detail := Some msg\<rparr>)"

definition release_failure :: "uid \<Rightarrow> uid \<Rightarrow> string \<Rightarrow> (audit_db, unit) op" where
  "release_failure i runner msg = guarded_close i runner (release_row msg)"

definition lapsed :: "time \<Rightarrow> audit \<Rightarrow> bool" where
  "lapsed now a \<longleftrightarrow> au_status a = AuditClaimed \<and>
     (case au_lease_expires a of None \<Rightarrow> False | Some t \<Rightarrow> t < now)"

definition sweep_lapsed_leases :: "audit_db \<Rightarrow> audit_db" where
  "sweep_lapsed_leases s =
     (let now = db_now (ad_db s);
          s1 = update_audits (\<lambda>a. lapsed now a \<and> au_attempts a < max_attempts)
                 (\<lambda>a. a\<lparr>au_status := AuditQueued, au_claimed_by := None, au_claimed_at := None,
                        au_lease_expires := None\<rparr>) s
      in update_audits (\<lambda>a. lapsed now a \<and> au_attempts a \<ge> max_attempts) (\<lambda>a. a\<lparr>au_status := AuditExpired\<rparr>) s1)"

definition sweep_stale_queued :: "audit_db \<Rightarrow> audit_db" where
  "sweep_stale_queued s =
     update_audits (\<lambda>a. au_status a = AuditQueued \<and> au_created_at a < db_now (ad_db s) -
         (if au_confirms a = None then queued_lifetime else confirmation_queued_lifetime))
       (\<lambda>a. a\<lparr>au_status := AuditExpired\<rparr>) s"

subsection \<open>Enforcement bookkeeping\<close>

definition actionable :: "audit \<Rightarrow> bool" where
  "actionable a \<longleftrightarrow> au_verdict a = Some AuditMismatch \<and> au_eligible a \<and>
     (au_enforcement a = EnfNone \<or> au_enforcement a = EnfAwaiting) \<and> au_confirms a = None"

definition list_actionable_roots :: "nat \<Rightarrow> audit_db \<Rightarrow> audit list" where
  "list_actionable_roots limit s =
     take limit (sort_key (\<lambda>a. case au_completed_at a of None \<Rightarrow> 0 | Some t \<Rightarrow> t) (filter actionable (ad_audits s)))"

definition confirmations_for_root :: "uid \<Rightarrow> audit_db \<Rightarrow> audit list" where
  "confirmations_for_root rt s =
     rev (sort_key au_created_at (filter (\<lambda>a. au_confirms a = Some rt) (ad_audits s)))"

definition get_runner_output :: "uid \<Rightarrow> audit_db \<Rightarrow> (raw_output \<times> string) res" where
  "get_runner_output i s =
     (case find (\<lambda>a. au_id a = i \<and> au_status a = AuditCompleted) (ad_audits s) of
        None \<Rightarrow> Inl (NotFound ''result_audit runner output'')
      | Some a \<Rightarrow> Inr (au_output a, (case au_output_checksum a of None \<Rightarrow> '''' | Some c \<Rightarrow> c)))"

definition set_enforcement_state :: "uid \<Rightarrow> enforcement_state \<Rightarrow> (audit_db, bool) op" where
  "set_enforcement_state i st s =
     (let sel = (\<lambda>a. au_id a = i \<and> (au_enforcement a = EnfNone \<or> au_enforcement a = EnfAwaiting)) in
      (Inr (count_if sel (ad_audits s) = 1),
       update_audits sel (\<lambda>a. a\<lparr>au_enforcement := st, au_enforced_at :=
         (if st = EnfEnforced then Some (db_now (ad_db s)) else au_enforced_at a)\<rparr>) s))"

definition claim_repair :: "uid \<Rightarrow> uid \<Rightarrow> (audit_db, bool) op" where
  "claim_repair aid r s =
     (if \<exists>(a, x)\<in>set (ad_repairs s). x = r then (Inr False, s)
      else (Inr True, s\<lparr>ad_repairs := ad_repairs s @ [(aid, r)]\<rparr>))"


subsection \<open>The audit service\<close>

text \<open>
  \<open>runner\<close> is the registry row the request's signature was authenticated to. A job whose unit or leaf is
  gone is closed as inconclusive and the next one is tried, ten times at most.
\<close>

definition artifacts_gone :: "audit \<Rightarrow> audit_db \<Rightarrow> bool" where
  "artifacts_gone a s \<longleftrightarrow> find_unit (au_unit a) (ad_db s) = None \<or> db_leafs (ad_db s) (au_leaf a) = None"

fun claim_job_loop :: "nat \<Rightarrow> uid \<Rightarrow> string \<Rightarrow> (audit_db, audit option) op" where
  "claim_job_loop 0 runner hr s = (Inr None, s)"
| "claim_job_loop (Suc n) runner hr s =
     (case claim_audit runner hr s of
        (Inl e, s') \<Rightarrow> (Inl (Internal ''internal error''), s')
      | (Inr None, s') \<Rightarrow> (Inr None, s')
      | (Inr (Some a), s') \<Rightarrow>
          (if artifacts_gone a s'
           then claim_job_loop n runner hr
                  (snd (complete_inconclusive (au_id a) runner ''ARTIFACT_UNAVAILABLE: unit or leaf deleted'' s'))
           else (Inr (Some a), s')))"

definition claim_job :: "uid \<Rightarrow> string \<Rightarrow> (audit_db, audit option) op" where
  "claim_job = claim_job_loop max_audit_claim_attempts"

definition accepted_outputs :: "audit \<Rightarrow> db \<Rightarrow> raw_output list" where
  "accepted_outputs a d =
     (let agreed = filter (\<lambda>r. res_status r = Agreed) (list_by_work_unit (au_unit a) d) in
      map res_output (filter (\<lambda>r. res_id r = au_accepted_result a) agreed) @
      map res_output (filter (\<lambda>r. res_id r \<noteq> au_accepted_result a) agreed))"

datatype runner_report = RunFailed string | RunOutput raw_output string

text \<open>
  The runner's bytes come as what they decode to and their SHA-256, which the head computes. \<open>i\<close> is the
  identifier the database gives the confirmation; that insert is best effort. The wording of the
  verdict's detail is not modelled.
\<close>

definition submit_audit :: "uid \<Rightarrow> bool \<Rightarrow> uid \<Rightarrow> uid \<Rightarrow> runner_report \<Rightarrow> (audit_db, unit) op" where
  "submit_audit i enforcement runner aid report s =
     (case report of
        RunFailed msg \<Rightarrow> release_failure aid runner msg s
      | RunOutput out checksum \<Rightarrow>
          (if out = OutputEmpty then (Inl (ValidationError ''output_data is required unless execution_failed is set''), s)
           else case find_audit aid s of
             None \<Rightarrow> (Inl (NotFound ''audit not found''), s)
           | Some a \<Rightarrow>
               let v = adjudicate_audit (au_snapshot a) (case au_accepted_key a of None \<Rightarrow> '''' | Some k \<Rightarrow> k)
                         (accepted_outputs a (ad_db s)) out checksum in
               (case complete_verdict aid runner v '''' out checksum enforcement s of
                  (Inl e, s') \<Rightarrow> (Inl e, s')
                | (Inr _, s') \<Rightarrow>
                    (if v = AuditMismatch \<and> enforcement \<and> au_confirms a = None
                     then (Inr (), snd (enqueue_confirmation i aid s')) else (Inr (), s')))))"

subsection \<open>Histories of the queue\<close>

inductive audit_step :: "audit_db \<Rightarrow> audit_db \<Rightarrow> bool" where
  sample: "enqueue_audit i a s = (x, s') \<Longrightarrow> i \<notin> au_id ` set (ad_audits s) \<Longrightarrow> audit_step s s'"
| claim: "claim_job runner hr s = (y, s') \<Longrightarrow> audit_step s s'"
| submit: "submit_audit i enforcement runner aid report s = (z, s') \<Longrightarrow> i \<notin> au_id ` set (ad_audits s) \<Longrightarrow> audit_step s s'"
| lapse: "audit_step s (sweep_lapsed_leases s)"
| stale: "audit_step s (sweep_stale_queued s)"
| confirm: "a \<in> set (ad_audits s) \<Longrightarrow> actionable a \<Longrightarrow> i \<notin> au_id ` set (ad_audits s) \<Longrightarrow>
    enqueue_confirmation i (au_id a) s = (x, s') \<Longrightarrow> audit_step s s'"
| record_state: "a \<in> set (ad_audits s) \<Longrightarrow> actionable a \<Longrightarrow> st \<noteq> EnfNone \<Longrightarrow>
    set_enforcement_state (au_id a) st s = (w, s') \<Longrightarrow> audit_step s s'"
| elsewhere: "ad_audits s' = ad_audits s \<Longrightarrow> audit_step s s'"

inductive reachable_audits :: "audit_db \<Rightarrow> bool" where
  start: "ad_audits s = [] \<Longrightarrow> reachable_audits s"
| step: "reachable_audits s \<Longrightarrow> audit_step s s' \<Longrightarrow> reachable_audits s'"

subsection \<open>The invariant of the queue\<close>

definition confirmed_root :: "audit \<Rightarrow> bool" where
  "confirmed_root a \<longleftrightarrow> au_status a = AuditCompleted \<and> au_verdict a = Some AuditMismatch \<and> au_eligible a \<and>
     au_confirms a = None"

definition audit_row_ok :: "audit \<Rightarrow> bool" where
  "audit_row_ok a \<longleftrightarrow>
     (au_status a = AuditCompleted \<longleftrightarrow> au_verdict a \<noteq> None) \<and>
     (au_status a = AuditClaimed \<longrightarrow> au_claimed_by a \<noteq> None \<and> au_lease_expires a \<noteq> None) \<and>
     (au_status a = AuditCompleted \<longrightarrow> au_claimed_by a \<noteq> None) \<and>
     au_attempts a \<le> max_attempts \<and> (au_status a = AuditQueued \<longrightarrow> au_attempts a < max_attempts) \<and>
     (au_enforcement a \<noteq> EnfNone \<longleftrightarrow> confirmed_root a)"

definition confirmation_ok :: "audit list \<Rightarrow> audit \<Rightarrow> bool" where
  "confirmation_ok audits c \<longleftrightarrow>
     (case au_confirms c of None \<Rightarrow> True
      | Some i \<Rightarrow> \<exists>r\<in>set audits. au_id r = i \<and> au_unit r = au_unit c \<and> confirmed_root r \<and>
          (au_claimed_by c \<noteq> None \<longrightarrow> au_claimed_by c \<noteq> au_claimed_by r))"

definition audits_ok :: "audit_db \<Rightarrow> bool" where
  "audits_ok s \<longleftrightarrow> distinct (map au_id (ad_audits s)) \<and>
     (\<forall>a\<in>set (ad_audits s). audit_row_ok a \<and> confirmation_ok (ad_audits s) a) \<and>
     (\<forall>u. count_if (\<lambda>a. audit_open a \<and> au_unit a = u) (ad_audits s) \<le> 1) \<and>
     (\<forall>r. claims_held r (ad_audits s) \<le> max_concurrent_claims)"

text \<open>What a statement does to a row it rewrites, short of a claim.\<close>

definition row_step :: "audit list \<Rightarrow> audit \<Rightarrow> audit \<Rightarrow> bool" where
  "row_step audits a b \<longleftrightarrow>
     au_id b = au_id a \<and> au_unit b = au_unit a \<and> au_confirms b = au_confirms a \<and> audit_row_ok b \<and>
     (audit_open b \<longrightarrow> audit_open a) \<and>
     (confirmed_root a \<longrightarrow> confirmed_root b \<and> au_claimed_by b = au_claimed_by a) \<and>
     (au_claimed_by b = au_claimed_by a \<or> au_claimed_by b = None \<or>
      au_confirms a = None \<or> (\<forall>r\<in>set audits. Some (au_id r) = au_confirms a \<longrightarrow> au_claimed_by b \<noteq> au_claimed_by r))"

lemma audits_ok_update:
  assumes "audits_ok s" "\<And>a. a \<in> set (ad_audits s) \<Longrightarrow> P a \<Longrightarrow> row_step (ad_audits s) a (f a)"
    and "\<And>r. claims_held r (update_where P f (ad_audits s)) \<le> max_concurrent_claims"
  shows "audits_ok (update_audits P f s)"
proof -
  define g where "g = (\<lambda>a. if P a then f a else a)"
  have uw: "update_where P f (ad_audits s) = map g (ad_audits s)" by (simp add: update_where_def g_def)
  have rs: "row_step (ad_audits s) a (g a)" if "a \<in> set (ad_audits s)" for a
    using assms(1,2) that by (auto simp: audits_ok_def row_step_def g_def)
  have ids: "map au_id (update_where P f (ad_audits s)) = map au_id (ad_audits s)"
    unfolding uw using rs by (auto simp: row_step_def)
  have conf: "confirmation_ok (update_where P f (ad_audits s)) (g a)" if a: "a \<in> set (ad_audits s)" for a
  proof (cases "au_confirms a")
    case None
    then show ?thesis using rs [OF a] by (simp add: confirmation_ok_def row_step_def)
  next
    case (Some i)
    have "confirmation_ok (ad_audits s) a" using assms(1) a by (simp add: audits_ok_def)
    then obtain r where r: "r \<in> set (ad_audits s)" "au_id r = i" "au_unit r = au_unit a" "confirmed_root r"
        "au_claimed_by a \<noteq> None \<longrightarrow> au_claimed_by a \<noteq> au_claimed_by r"
      unfolding confirmation_ok_def Some option.case by blast
    have g: "au_id (g r) = i" "au_unit (g r) = au_unit a" "confirmed_root (g r)" "au_claimed_by (g r) = au_claimed_by r"
      using rs [OF r(1)] r by (simp_all only: row_step_def)
    have b: "au_confirms (g a) = Some i" "au_unit (g a) = au_unit a"
      using rs [OF a] Some by (simp_all only: row_step_def)
    have "au_claimed_by (g a) = au_claimed_by a \<or> au_claimed_by (g a) = None \<or>
        (\<forall>r\<in>set (ad_audits s). Some (au_id r) = Some i \<longrightarrow> au_claimed_by (g a) \<noteq> au_claimed_by r)"
      using rs [OF a] unfolding row_step_def Some by blast
    then have c: "au_claimed_by (g a) \<noteq> None \<longrightarrow> au_claimed_by (g a) \<noteq> au_claimed_by r"
      using r(1,2,5) by metis
    have "g r \<in> set (update_where P f (ad_audits s))" using r(1) by (auto simp: uw)
    then show ?thesis unfolding confirmation_ok_def b option.case using g b(2) c by metis
  qed
  have open1: "count_if (\<lambda>a. audit_open a \<and> au_unit a = u) (update_where P f (ad_audits s)) \<le> 1" for u
  proof -
    have "count_if (\<lambda>a. audit_open a \<and> au_unit a = u) (update_where P f (ad_audits s)) \<le>
        count_if (\<lambda>a. audit_open a \<and> au_unit a = u) (ad_audits s)"
      unfolding uw count_if_map comp_def by (rule count_if_mono) (use rs in \<open>auto simp: row_step_def\<close>)
    then show ?thesis using assms(1) unfolding audits_ok_def by (meson order_trans)
  qed
  have d: "distinct (map au_id (update_where P f (ad_audits s)))"
    using assms(1) unfolding ids audits_ok_def by blast
  have "audit_row_ok a \<and> confirmation_ok (update_where P f (ad_audits s)) a"
    if "a \<in> set (update_where P f (ad_audits s))" for a
    using conf rs that unfolding uw by (auto simp: row_step_def)
  then show ?thesis unfolding audits_ok_def update_audits_def using d open1 assms(3) by simp
qed

lemma claims_held_mono:
  assumes "audits_ok s"
    "\<And>a r. a \<in> set (ad_audits s) \<Longrightarrow> P a \<Longrightarrow> au_status (f a) = AuditClaimed \<Longrightarrow> au_status a = AuditClaimed \<and> au_claimed_by (f a) = au_claimed_by a"
  shows "claims_held r (update_where P f (ad_audits s)) \<le> max_concurrent_claims"
proof -
  have "claims_held r (update_where P f (ad_audits s)) \<le> claims_held r (ad_audits s)"
    unfolding claims_held_def count_if_update_where
    by (rule count_if_mono) (use assms(2) in \<open>fastforce split: if_splits\<close>)
  then show ?thesis using assms(1) unfolding audits_ok_def by (meson order_trans)
qed


lemma confirmed_root_audits: "a \<in> set (ad_audits s) \<Longrightarrow> audits_ok s \<Longrightarrow> actionable a \<Longrightarrow> confirmed_root a"
  by (auto simp: actionable_def confirmed_root_def audits_ok_def audit_row_ok_def)

lemma confirmation_ok_mono: "confirmation_ok audits c \<Longrightarrow> set audits \<subseteq> set audits' \<Longrightarrow> confirmation_ok audits' c"
  unfolding confirmation_ok_def by (cases "au_confirms c") (simp, force)

lemma audits_ok_insert:
  assumes "audits_ok s" "insert_audit a s = (x, s')" "au_id a \<notin> au_id ` set (ad_audits s)"
    "audit_row_ok a" "confirmation_ok (ad_audits s) a" "au_status a = AuditQueued"
  shows "audits_ok s'"
proof (cases "\<exists>b\<in>set (ad_audits s). audit_open b \<and> au_unit b = au_unit a")
  case True
  then show ?thesis using assms(1,2) by (simp add: insert_audit_def)
next
  case False
  then have "insert_audit a s = (Inr a, s\<lparr>ad_audits := ad_audits s @ [a]\<rparr>)"
    unfolding insert_audit_def by (rule if_not_P)
  then have s': "ad_audits s' = ad_audits s @ [a]" using assms(2) by auto
  have "count_if (\<lambda>b. audit_open b \<and> au_unit b = au_unit a) (ad_audits s) = 0"
    using False by (simp add: count_if_zero)
  then have o: "count_if (\<lambda>b. audit_open b \<and> au_unit b = u) (ad_audits s') \<le> 1" for u
    using assms(1) by (cases "u = au_unit a") (auto simp: s' audits_ok_def)
  have c: "claims_held r (ad_audits s') \<le> max_concurrent_claims" for r
    using assms(1,6) by (simp add: s' audits_ok_def claims_held_def)
  have "confirmation_ok (ad_audits s') b" if "b \<in> set (ad_audits s')" for b
    using that assms(1,5) confirmation_ok_mono [of "ad_audits s" _ "ad_audits s'"]
    by (auto simp: s' audits_ok_def)
  then show ?thesis using assms(1,3,4) o c by (auto simp: audits_ok_def s')
qed

lemma fresh_audit_simps [simp]:
  "au_id (fresh_audit i now a) = i" "au_unit (fresh_audit i now a) = au_unit a"
  "au_status (fresh_audit i now a) = AuditQueued" "au_confirms (fresh_audit i now a) = None"
  "au_claimed_by (fresh_audit i now a) = None"
  by (simp_all add: fresh_audit_def)

lemma audit_row_ok_fresh: "audit_row_ok (fresh_audit i now a)" "audit_row_ok ((fresh_audit i now a)\<lparr>au_confirms := rt\<rparr>)"
  by (simp_all add: audit_row_ok_def fresh_audit_def max_attempts_def confirmed_root_def)

lemma audits_ok_enqueue:
  assumes "audits_ok s" "enqueue_audit i a s = (x, s')" "i \<notin> au_id ` set (ad_audits s)"
  shows "audits_ok s'"
  by (rule audits_ok_insert [OF assms(1) assms(2) [unfolded enqueue_audit_def]])
    (use assms(3) in \<open>simp_all add: audit_row_ok_fresh confirmation_ok_def\<close>)

lemma audits_ok_confirmation:
  assumes "audits_ok s" "enqueue_confirmation i (au_id a) s = (x, s')" "i \<notin> au_id ` set (ad_audits s)"
    "a \<in> set (ad_audits s)" "confirmed_root a"
  shows "audits_ok s'"
proof -
  have "find_audit (au_id a) s = Some b \<Longrightarrow> b = a" for b
    using assms(1,4) by (auto simp: find_audit_def find_Some_iff audits_ok_def distinct_map inj_on_def)
  then consider "s' = s" | "insert_audit ((fresh_audit i (db_now (ad_db s)) a)\<lparr>au_confirms := Some (au_id a)\<rparr>) s = (x, s')"
    using assms(2) by (auto simp: enqueue_confirmation_def split: option.splits)
  then show ?thesis
  proof cases
    case 2
    show ?thesis
      by (rule audits_ok_insert [OF assms(1) 2]) (use assms(3-5) in \<open>auto simp: audit_row_ok_fresh confirmation_ok_def\<close>)
  qed (use assms(1) in simp)
qed

lemma audits_ok_close:
  assumes "audits_ok s" "guarded_close i runner f s = (x, s')"
    and "\<And>a. held_by i runner a \<Longrightarrow> audit_row_ok a \<Longrightarrow> row_step (ad_audits s) a (f a) \<and> au_status (f a) \<noteq> AuditClaimed"
  shows "audits_ok s'"
proof -
  have "audits_ok (update_audits (held_by i runner) f s)"
    by (rule audits_ok_update [OF assms(1) _ claims_held_mono [OF assms(1)]])
      (use assms(1,3) in \<open>auto simp: audits_ok_def\<close>)
  then show ?thesis using assms(1,2) by (auto simp: guarded_close_def split: if_splits)
qed

lemma verdict_row_step:
  "held_by i runner a \<Longrightarrow> audit_row_ok a \<Longrightarrow> row_step audits a (verdict_row now v detail out chk eligible a)"
  by (auto simp: held_by_def row_step_def verdict_row_def audit_row_ok_def confirmed_root_def audit_open_def)

lemma audits_ok_complete_verdict:
  "audits_ok s \<Longrightarrow> complete_verdict i runner v detail out chk eligible s = (x, s') \<Longrightarrow> audits_ok s'"
  unfolding complete_verdict_def by (erule audits_ok_close, assumption) (simp add: verdict_row_step, simp add: verdict_row_def)

lemma audits_ok_complete_inconclusive:
  "audits_ok s \<Longrightarrow> complete_inconclusive i runner detail s = (x, s') \<Longrightarrow> audits_ok s'"
  unfolding complete_inconclusive_def
  by (erule audits_ok_close, assumption)
    (auto simp: held_by_def row_step_def audit_row_ok_def confirmed_root_def audit_open_def)

lemma audits_ok_release:
  "audits_ok s \<Longrightarrow> release_failure i runner msg s = (x, s') \<Longrightarrow> audits_ok s'"
  unfolding release_failure_def
  by (erule audits_ok_close, assumption)
    (auto simp: held_by_def row_step_def release_row_def audit_row_ok_def confirmed_root_def audit_open_def)


lemma audits_ok_sweeps:
  assumes "audits_ok s"
  shows "audits_ok (sweep_lapsed_leases s)" "audits_ok (sweep_stale_queued s)"
proof -
  note rules = row_step_def lapsed_def audit_row_ok_def confirmed_root_def audit_open_def
  have u: "audits_ok (update_audits P f t)"
    if "audits_ok t" "\<And>a. P a \<Longrightarrow> audit_row_ok a \<Longrightarrow> row_step (ad_audits t) a (f a) \<and> au_status (f a) \<noteq> AuditClaimed"
    for P f t
    by (rule audits_ok_update [OF that(1) _ claims_held_mono [OF that(1)]])
      (use that in \<open>auto simp: audits_ok_def\<close>)
  show "audits_ok (sweep_lapsed_leases s)"
    unfolding sweep_lapsed_leases_def Let_def
    by (rule u [OF u [OF assms]]) (auto simp: rules)
  show "audits_ok (sweep_stale_queued s)"
    unfolding sweep_stale_queued_def by (rule u [OF assms]) (auto simp: rules)
qed

lemma audits_ok_set_state:
  assumes "audits_ok s" "a \<in> set (ad_audits s)" "actionable a" "st \<noteq> EnfNone"
    "set_enforcement_state (au_id a) st s = (x, s')"
  shows "audits_ok s'"
proof -
  have u: "b = a" if "b \<in> set (ad_audits s)" "au_id b = au_id a" for b
    using assms(1,2) that by (auto simp: audits_ok_def distinct_map inj_on_def)
  have r: "confirmed_root a" using confirmed_root_audits [OF assms(2,1,3)] .
  have "audits_ok (update_audits (\<lambda>b. au_id b = au_id a \<and> (au_enforcement b = EnfNone \<or> au_enforcement b = EnfAwaiting))
      (\<lambda>b. b\<lparr>au_enforcement := st, au_enforced_at :=
         (if st = EnfEnforced then Some (db_now (ad_db s)) else au_enforced_at b)\<rparr>) s)"
  proof (rule audits_ok_update [OF assms(1) _ claims_held_mono [OF assms(1)]])
    fix b assume b: "b \<in> set (ad_audits s)"
      "au_id b = au_id a \<and> (au_enforcement b = EnfNone \<or> au_enforcement b = EnfAwaiting)"
    then have "b = a" "audit_row_ok a" using u assms(1,2) by (auto simp: audits_ok_def)
    then show "row_step (ad_audits s) b (b\<lparr>au_enforcement := st, au_enforced_at :=
         (if st = EnfEnforced then Some (db_now (ad_db s)) else au_enforced_at b)\<rparr>)"
      using r assms(4) by (simp add: row_step_def audit_row_ok_def confirmed_root_def audit_open_def)
  qed auto
  then show ?thesis using assms(5) by (simp add: set_enforcement_state_def Let_def)
qed

lemma count_if_either:
  "count_if (\<lambda>x. \<not> P x \<longrightarrow> Q x) xs \<le> count_if Q xs + count_if P xs"
  by (induction xs) auto

lemma audits_ok_claim:
  assumes "audits_ok s" "claim_audit runner hr s = (x, s')"
  shows "audits_ok s'"
proof (cases "sort_key au_created_at (filter (claimable runner hr (ad_audits s)) (ad_audits s))")
  case Nil
  then show ?thesis using assms by (simp add: claim_audit_def)
next
  case (Cons c rest)
  have "c \<in> set (sort_key au_created_at (filter (claimable runner hr (ad_audits s)) (ad_audits s)))"
    unfolding Cons by simp
  then have c: "c \<in> set (ad_audits s)" "claimable runner hr (ad_audits s) c" by auto
  have u: "b = c" if "b \<in> set (ad_audits s)" "au_id b = au_id c" for b
    using assms(1) c(1) that by (auto simp: audits_ok_def distinct_map inj_on_def)
  show ?thesis
  proof (cases "claims_held runner (ad_audits s) < max_concurrent_claims")
    case False
    then show ?thesis using assms Cons by (simp add: claim_audit_def)
  next
    case True
    have "audits_ok (update_audits (\<lambda>a. au_id a = au_id c) (claimed_row s runner hr) s)"
    proof (rule audits_ok_update [OF assms(1)])
      fix a assume "a \<in> set (ad_audits s)" "au_id a = au_id c"
      then have a: "a = c" "audit_row_ok c" using u assms(1) c(1) by (auto simp: audits_ok_def)
      have "au_confirms c = None \<or> (\<forall>r\<in>set (ad_audits s). Some (au_id r) = au_confirms c \<longrightarrow> Some runner \<noteq> au_claimed_by r)"
        using c(2) by (auto simp: claimable_def confirmation_open_to_def)
      then show "row_step (ad_audits s) a (claimed_row s runner hr a)"
        using a c(2) by (auto simp: row_step_def claimed_row_def Let_def claimable_def audit_row_ok_def confirmed_root_def audit_open_def)
    next
      fix r
      have "claims_held r (update_where (\<lambda>a. au_id a = au_id c) (claimed_row s runner hr) (ad_audits s)) \<le>
          claims_held r (ad_audits s) + (if r = runner then count_if (\<lambda>a. au_id a = au_id c) (ad_audits s) else 0)"
        unfolding claims_held_def count_if_update_where
        by (cases "r = runner") (auto simp: claimed_row_def Let_def intro: count_if_either count_if_mono split: if_splits)
      moreover have "count_if (\<lambda>a. au_id a = au_id c) (ad_audits s) \<le> 1"
      proof -
        have "distinct (map au_id as) \<Longrightarrow> count_if (\<lambda>a. au_id a = i) as \<le> 1" for i as
        proof (induction as)
          case (Cons b as)
          have "count_if (\<lambda>a. au_id a = i) as = 0" if "au_id b = i"
            using Cons.prems that by (auto simp: count_if_zero image_iff)
          then show ?case using Cons by simp
        qed simp
        then show ?thesis using assms(1) unfolding audits_ok_def by blast
      qed
      ultimately show "claims_held r (update_where (\<lambda>a. au_id a = au_id c) (claimed_row s runner hr) (ad_audits s)) \<le> max_concurrent_claims"
        using True assms(1) by (cases "r = runner") (auto simp: audits_ok_def dest: spec [of _ r])
    qed
    then show ?thesis using assms(2) Cons True by (simp add: claim_audit_def)
  qed
qed

lemma audits_ok_claim_job: "audits_ok s \<Longrightarrow> claim_job_loop n runner hr s = (x, s') \<Longrightarrow> audits_ok s'"
proof (induction n arbitrary: s)
  case (Suc n)
  obtain y s1 where c: "claim_audit runner hr s = (y, s1)" by (cases "claim_audit runner hr s")
  have 1: "audits_ok s1" using audits_ok_claim [OF Suc.prems(1) c] .
  have "audits_ok (snd (complete_inconclusive i runner det s1))" for i det
    using audits_ok_complete_inconclusive [OF 1] by (metis prod.collapse)
  then show ?case using Suc.prems(2) c 1 Suc.IH
    by (auto split: sum.splits option.splits if_splits)
qed simp

lemma find_auditD: "find_audit i s = Some a \<Longrightarrow> a \<in> set (ad_audits s) \<and> au_id a = i"
  by (auto simp: find_audit_def find_Some_iff)

lemma complete_verdict_row:
  assumes "complete_verdict aid runner v det out chk en s = (Inr u, s')" "find_audit aid s = Some a" "audits_ok s"
  shows "verdict_row (db_now (ad_db s)) v det out chk en a \<in> set (ad_audits s')"
    and "au_id ` set (ad_audits s') = au_id ` set (ad_audits s)"
proof -
  note a = find_auditD [OF assms(2)]
  have s': "s' = update_audits (held_by aid runner) (verdict_row (db_now (ad_db s)) v det out chk en) s"
    and n: "count_if (held_by aid runner) (ad_audits s) \<noteq> 0"
    using assms(1) by (auto simp: complete_verdict_def guarded_close_def split: if_splits)
  then obtain b where b: "b \<in> set (ad_audits s)" "held_by aid runner b" by (auto simp: count_if_zero)
  then have "b = a" using a assms(3) by (auto simp: held_by_def audits_ok_def distinct_map inj_on_def)
  then show "verdict_row (db_now (ad_db s)) v det out chk en a \<in> set (ad_audits s')"
    using b by (auto simp: s' update_audits_def set_update_where)
  have "map au_id (ad_audits s') = map au_id (ad_audits s)"
    by (simp add: s' update_audits_def map_key_update_where verdict_row_def)
  then show "au_id ` set (ad_audits s') = au_id ` set (ad_audits s)" by (metis set_map)
qed

lemma audits_ok_submit:
  assumes "audits_ok s" "submit_audit i en runner aid rep s = (x, s')" "i \<notin> au_id ` set (ad_audits s)"
  shows "audits_ok s'"
proof (cases rep)
  case (RunFailed msg)
  then show ?thesis using assms(1,2) audits_ok_release by (simp add: submit_audit_def)
next
  case (RunOutput out chk)
  show ?thesis
  proof (cases "out = OutputEmpty \<or> find_audit aid s = None")
    case True
    then show ?thesis using assms(1,2) RunOutput by (auto simp: submit_audit_def split: option.splits if_splits)
  next
    case False
    then obtain a where a: "out \<noteq> OutputEmpty" "find_audit aid s = Some a" by auto
    define v where "v = adjudicate_audit (au_snapshot a) (case au_accepted_key a of None \<Rightarrow> '''' | Some k \<Rightarrow> k)
                         (accepted_outputs a (ad_db s)) out chk"
    obtain y s1 where c: "complete_verdict aid runner v '''' out chk en s = (y, s1)"
      by (cases "complete_verdict aid runner v '''' out chk en s")
    have 1: "audits_ok s1" using audits_ok_complete_verdict [OF assms(1) c] .
    show ?thesis
    proof (cases "is_ok y \<and> v = AuditMismatch \<and> en \<and> au_confirms a = None")
      case False
      then show ?thesis using assms(2) RunOutput a c 1
        by (auto simp: submit_audit_def v_def [symmetric] Let_def is_ok_def split: sum.splits if_splits)
    next
      case True
      then obtain u where y: "y = Inr u" by (cases y) auto
      note C = complete_verdict_row [OF c [unfolded y] a(2) assms(1)]
      let ?b = "verdict_row (db_now (ad_db s)) v '''' out chk en a"
      have b: "au_id ?b = aid" "confirmed_root ?b"
        using True find_auditD [OF a(2)] by (simp_all add: verdict_row_def confirmed_root_def)
      have "s' = snd (enqueue_confirmation i (au_id ?b) s1)"
        using assms(2) RunOutput a c y True b(1) by (simp add: submit_audit_def v_def [symmetric] Let_def)
      then show ?thesis
        using audits_ok_confirmation [OF 1 prod.collapse [symmetric] _ C(1) b(2)] C(2) assms(3) by simp
    qed
  qed
qed

inductive_cases audit_stepE: "audit_step s s'"

lemma audit_step_ok: "audit_step s s' \<Longrightarrow> audits_ok s \<Longrightarrow> audits_ok s'"
proof (induction rule: audit_step.induct)
  case (claim runner hr s y s')
  then show ?case unfolding claim_job_def by (rule audits_ok_claim_job [rotated])
next
  case (confirm a s i x s')
  then show ?case using audits_ok_confirmation confirmed_root_audits by blast
next
  case (elsewhere s' s)
  then show ?case by (simp add: audits_ok_def)
qed (blast intro: audits_ok_enqueue audits_ok_submit audits_ok_sweeps audits_ok_set_state)+


lemma reachable_audits_ok: "reachable_audits s \<Longrightarrow> audits_ok s"
proof (induction rule: reachable_audits.induct)
  case (start s)
  then show ?case by (simp add: audits_ok_def claims_held_def max_concurrent_claims_def)
next
  case (step s s')
  then show ?case by (blast intro: audit_step_ok)
qed

text \<open>C35. In every history of the audit queue: an audit has a verdict exactly when it is completed, a claimed
  one has a runner and a lease, and no audit is claimed more than three times; a unit has at most one open
  audit and a runner at most eight claims; an eligible mismatch is under enforcement bookkeeping from the
  moment its verdict is written, and nothing else ever is; and every confirmation re-checks such a
  mismatch of the same unit and is never held by the runner whose verdict it confirms.\<close>

theorem audit_queue_invariant:
  assumes "reachable_audits s"
  shows "audits_ok s"
  by (rule reachable_audits_ok [OF assms])

text \<open>One audit, sampled, claimed, refuted while enforcement is on, and its confirmation.\<close>

definition sampled_audit :: audit where
  "sampled_audit = \<lparr>au_id = [], au_unit = ''u'', au_leaf = ''l'', au_accepted_result = ''r1'', au_accepted_key = Some ''k'',
     au_snapshot = \<lparr>cs_mode = cmp_exact, cs_numeric_tolerance = 0, cs_ignore_fields = [], cs_compare_fields = []\<rparr>,
     au_required_hr = None, au_artifact_version = None, au_status = AuditQueued, au_verdict = None, au_detail = None,
     au_attempts = 0, au_claimed_by = None, au_lease_expires = None, au_output = OutputEmpty, au_output_checksum = None,
     au_created_at = 0, au_claimed_at = None, au_completed_at = None, au_eligible = False, au_enforcement = EnfNone,
     au_enforced_at = None, au_confirms = None, au_claimed_hr = None\<rparr>"

definition audited_db :: audit_db where
  "audited_db = \<lparr>ad_db = sample_db [queued_unit ''u'' ''l''] [] [], ad_audits = [], ad_adjustments = [],
     ad_rac = Map.empty, ad_repairs = []\<rparr>"

definition refuted_db :: audit_db where
  "refuted_db = snd (submit_audit ''A2'' True ''R1'' ''A1'' (RunOutput (OutputDoc JNull) ''other'')
     (snd (claim_job ''R1'' ''x86'' (snd (enqueue_audit ''A1'' sampled_audit audited_db)))))"

lemma refuted_rows:
  "map (\<lambda>a. (au_id a, au_status a, au_verdict a, au_claimed_by a, au_confirms a, au_enforcement a)) (ad_audits refuted_db) =
     [(''A1'', AuditCompleted, Some AuditMismatch, Some ''R1'', None, EnfAwaiting),
      (''A2'', AuditQueued, None, None, Some ''A1'', EnfNone)]"
  by code_simp

lemma reachable_refuted: "reachable_audits refuted_db"
proof -
  let ?s1 = "snd (enqueue_audit ''A1'' sampled_audit audited_db)"
  let ?s2 = "snd (claim_job ''R1'' ''x86'' ?s1)"
  have "reachable_audits audited_db" by (rule reachable_audits.start) (simp add: audited_db_def)
  moreover have "audit_step audited_db ?s1"
    by (rule audit_step.sample [of "''A1''" sampled_audit _ "fst (enqueue_audit ''A1'' sampled_audit audited_db)"])
      (simp_all add: audited_db_def)
  moreover have "audit_step ?s1 ?s2"
    by (rule audit_step.claim [of "''R1''" "''x86''" _ "fst (claim_job ''R1'' ''x86'' ?s1)"]) simp
  moreover have "audit_step ?s2 refuted_db"
  proof (rule audit_step.submit [of "''A2''" True "''R1''" "''A1''" "RunOutput (OutputDoc JNull) ''other''" _
        "fst (submit_audit ''A2'' True ''R1'' ''A1'' (RunOutput (OutputDoc JNull) ''other'') ?s2)"])
    show "submit_audit ''A2'' True ''R1'' ''A1'' (RunOutput (OutputDoc JNull) ''other'') ?s2 =
        (fst (submit_audit ''A2'' True ''R1'' ''A1'' (RunOutput (OutputDoc JNull) ''other'') ?s2), refuted_db)"
      by (simp add: refuted_db_def)
    have "map au_id (ad_audits ?s2) = [''A1'']" by code_simp
    then have "au_id ` set (ad_audits ?s2) = {''A1''}" by (metis list.set(1,2) set_map)
    then show "''A2'' \<notin> au_id ` set (ad_audits ?s2)" by simp
  qed
  ultimately show ?thesis by (blast intro: reachable_audits.step)
qed

theorem audit_queue_invariant_witness: "audits_ok refuted_db \<and> length (ad_audits refuted_db) = 2"
proof -
  have "length (ad_audits refuted_db) = 2" using arg_cong [OF refuted_rows, of length] by simp
  then show ?thesis using audit_queue_invariant [OF reachable_refuted] by simp
qed

end
