(* ===== verification/Enforcement.thy ===== *)
theory Enforcement
  imports Audits
begin

text \<open>
  The enforcement pass (\<open>audit/enforcement_sweep.go\<close>, with the adapters of
  \<open>cmd/lettuce-server/enforcement_wiring.go\<close> and the repair of \<open>validation/repair.go\<close>): on a mismatch
  that a second runner confirmed, slash the subjects of the agreed results, claw their credit back, take
  it out of their recent average, mark the results as disagreed, repair the results that match the
  ground truth, and demote the unit when none does. Attestations, revocations, the lifetime counters and
  the log lines are not modelled; the advisory lock of the pass is best effort in the code and absent
  here. A pass that stops in the middle has applied a prefix of the steps.
\<close>

subsection \<open>Ground truth\<close>

type_synonym runner_bytes = "raw_output \<times> string"

definition flatten_pair_match ::
  "string list \<Rightarrow> string list \<Rightarrow> f64 \<Rightarrow> raw_output \<Rightarrow> raw_output \<Rightarrow> bool res" where
  "flatten_pair_match ig cmp eps a b =
     (case flatten_output a ig cmp of
        Inl e \<Rightarrow> Inl e
      | Inr fa \<Rightarrow> (case flatten_output b ig cmp of Inl e \<Rightarrow> Inl e | Inr fb \<Rightarrow> Inr (numeric_match fa fb eps)))"

definition ground_truth_agreement :: "comparison_snapshot \<Rightarrow> runner_bytes \<Rightarrow> runner_bytes \<Rightarrow> bool res" where
  "ground_truth_agreement snap a b =
     (if cs_mode snap = cmp_exact then
        (if cs_ignore_fields snap = [] then Inr (snd a = snd b)
         else flatten_pair_match (cs_ignore_fields snap) (cs_compare_fields snap) 0 (fst a) (fst b))
      else if cs_mode snap = cmp_numeric_tolerance then
        flatten_pair_match (cs_ignore_fields snap) (cs_compare_fields snap) (cs_numeric_tolerance snap) (fst a) (fst b)
      else Inl (Internal ''unsupported comparison mode for ground-truth agreement''))"

datatype repair_skip = RepairInconclusive | RepairNoMatch | RepairRefOnly | RepairCanonEmpty

definition repair_candidate_key ::
  "(string \<Rightarrow> string) \<Rightarrow> result \<Rightarrow> comparison_snapshot \<Rightarrow> repair_skip + string \<times> raw_output list" where
  "repair_candidate_key sha_hex r snap =
     (if cs_mode snap = cmp_numeric_tolerance then
        (if res_output r = OutputEmpty then Inl RepairRefOnly else Inr ('''', [res_output r]))
      else if cs_mode snap = cmp_exact then
        (case comparison_key sha_hex r (cs_ignore_fields snap) of
           Inl _ \<Rightarrow> Inl RepairInconclusive
         | Inr k \<Rightarrow> (if starts_with ''canon-empty:'' k then Inl RepairCanonEmpty else Inr (k, [res_output r])))
      else Inl RepairInconclusive)"

fun match_any :: "comparison_snapshot \<Rightarrow> string \<Rightarrow> raw_output list \<Rightarrow> bool \<Rightarrow> runner_bytes list \<Rightarrow> repair_skip option" where
  "match_any snap k outs inconclusive [] = Some (if inconclusive then RepairInconclusive else RepairNoMatch)"
| "match_any snap k outs inconclusive (gt # gts) =
     (case adjudicate_audit snap k outs (fst gt) (snd gt) of
        AuditMatch \<Rightarrow> None
      | AuditInconclusive \<Rightarrow> match_any snap k outs True gts
      | AuditMismatch \<Rightarrow> match_any snap k outs inconclusive gts)"

definition repair_verdict ::
  "(string \<Rightarrow> string) \<Rightarrow> comparison_snapshot \<Rightarrow> runner_bytes list \<Rightarrow> result \<Rightarrow> repair_skip option" where
  "repair_verdict sha_hex snap gts r =
     (case repair_candidate_key sha_hex r snap of
        Inl skip \<Rightarrow> Some skip
      | Inr (k, outs) \<Rightarrow> match_any snap k outs False gts)"

subsection \<open>The worker's seams\<close>

record enforcer =
  ef_engine :: engine
  ef_rac_decay :: "int \<Rightarrow> f64"
  ef_maturation_days :: int
  ef_sha_hex :: "string \<Rightarrow> string"

record fraud_result =
  fr_result :: uid
  fr_volunteer :: uid
  fr_subject :: string

definition load_fraud_set :: "uid \<Rightarrow> audit_db \<Rightarrow> fraud_result list" where
  "load_fraud_set u s =
     map (\<lambda>r. \<lparr>fr_result = res_id r, fr_volunteer = res_volunteer r, fr_subject = subject_for_result r\<rparr>)
       (filter (\<lambda>r. res_status r = Agreed) (list_by_work_unit u (ad_db s)))"

text \<open>The distinct keys in the order they first occur.\<close>

definition first_occurrences :: "'a list \<Rightarrow> 'a list" where
  "first_occurrences xs = rev (remdups (rev xs))"

definition lift_db :: "(db, 'a) op \<Rightarrow> (audit_db, 'a) op" where
  "lift_db m s = (case m (ad_db s) of (r, d) \<Rightarrow> (r, s\<lparr>ad_db := d\<rparr>))"

definition slash_subjects :: "string list \<Rightarrow> audit_db \<Rightarrow> audit_db" where
  "slash_subjects subjects s =
     s\<lparr>ad_db := (ad_db s)\<lparr>db_trust := fold (trust_slash (db_now (ad_db s))) subjects (db_trust (ad_db s))\<rparr>\<rparr>"

text \<open>Nothing to claw back is success: the entry is missing or already exhausted.\<close>

definition clawback_entry :: "uid \<Rightarrow> uid \<Rightarrow> string \<Rightarrow> (audit_db, nat option) op" where
  "clawback_entry e aid reason s =
     (case find_entry e (ad_db s) of
        None \<Rightarrow> (Inr None, s)
      | Some l \<Rightarrow>
          (case clawback_for_audit e aid reason s of
             (Inr k, s') \<Rightarrow> (Inr (Some k), s')
           | (Inl err, s') \<Rightarrow> (if err = adjustment_exhausted then (Inr None, s') else (Inl err, s'))))"

fun clawback_entries :: "uid list \<Rightarrow> uid \<Rightarrow> string \<Rightarrow> (audit_db, nat list) op" where
  "clawback_entries [] aid reason = oreturn []"
| "clawback_entries (e # es) aid reason =
     obind (clawback_entry e aid reason) (\<lambda>k.
       obind (clawback_entries es aid reason) (\<lambda>ks.
         oreturn (case k of None \<Rightarrow> ks | Some i \<Rightarrow> i # ks)))"

fun clawback_unmatured :: "uid list \<Rightarrow> uid \<Rightarrow> int \<Rightarrow> (audit_db, nat list) op" where
  "clawback_unmatured [] aid days = oreturn []"
| "clawback_unmatured (v # vs) aid days =
     obind (\<lambda>s. clawback_entries (list_unmatured_entries v days s) aid reason_audit_mismatch_unmatured s) (\<lambda>ks.
       obind (clawback_unmatured vs aid days) (\<lambda>ks'. oreturn (ks @ ks')))"

fun apply_rac_adjustments :: "(int \<Rightarrow> f64) \<Rightarrow> nat list \<Rightarrow> (audit_db, unit) op" where
  "apply_rac_adjustments decay [] = oreturn ()"
| "apply_rac_adjustments decay (k # ks) =
     obind (apply_rac_adjustment decay k) (\<lambda>_. apply_rac_adjustments decay ks)"

text \<open>Steps 2 to 7: the fraud set, slashed, clawed back, taken out of the average, marked.\<close>

definition punish :: "enforcer \<Rightarrow> uid \<Rightarrow> uid \<Rightarrow> (audit_db, unit) op" where
  "punish ef aid u s =
     (let fraud = load_fraud_set u s;
          s1 = slash_subjects (first_occurrences (map fr_subject fraud)) s in
      obind (clawback_entries (map fr_result fraud) aid reason_audit_mismatch) (\<lambda>ks.
      obind (clawback_unmatured (first_occurrences (map fr_volunteer fraud)) aid (ef_maturation_days ef)) (\<lambda>ks'.
      obind (apply_rac_adjustments (ef_rac_decay ef) (ks @ ks')) (\<lambda>_.
        lift_db (batch_update_validation_status (map fr_result fraud) Disagreed)))) s1)"

subsection \<open>Repair\<close>

text \<open>The unit's per-result amount: that of any entry of the unit, else the leaf's derivation.\<close>

definition grant_amount :: "leaf \<Rightarrow> result list \<Rightarrow> db \<Rightarrow> f64" where
  "grant_amount lf rs d =
     (case List.map_filter (\<lambda>r. find_entry (res_id r) d) rs of
        e # _ \<Rightarrow> lg_amount e
      | [] \<Rightarrow> credit_amount lf)"

definition repair_grant :: "enforcer \<Rightarrow> work_unit \<Rightarrow> f64 \<Rightarrow> result \<Rightarrow> (audit_db, bool) op" where
  "repair_grant ef w amount r s =
     (let cap = en_emission_cap (ef_engine ef);
          grant = (if cap > 0 then create_capped cap (credit_entry w amount r)
                   else obind (create_credit (credit_entry w amount r)) (\<lambda>_. oreturn True)) in
      case lift_db grant s of
        (Inr inserted, s') \<Rightarrow> (Inr inserted, s')
      | (Inl (Conflict _), s') \<Rightarrow> (Inr False, s')
      | (Inl e, s') \<Rightarrow> (Inl e, s'))"

definition repair_reputation :: "enforcer \<Rightarrow> result \<Rightarrow> db \<Rightarrow> db" where
  "repair_reputation ef r d =
     (let d1 = record_reliability (ef_engine ef) True [r] (record_adjudicated_db (ef_engine ef) True r d) in
      if standing_countable r
      then d1\<lparr>db_trust := trust_accrue_clean_unit (subject_for_result r) (db_trust d1)\<rparr> else d1)"

definition apply_repair :: "enforcer \<Rightarrow> uid \<Rightarrow> work_unit \<Rightarrow> f64 \<Rightarrow> result \<Rightarrow> (audit_db, bool) op" where
  "apply_repair ef aid w amount r =
     obind (lift_db (batch_update_validation_status [res_id r] Agreed)) (\<lambda>_.
     obind (repair_grant ef w amount r) (\<lambda>inserted.
     obind (\<lambda>s. (Inr (), if inserted then rac_upsert (ef_rac_decay ef) (res_volunteer r) (wu_leaf w) amount s else s)) (\<lambda>_.
     obind (claim_repair aid (res_id r)) (\<lambda>claimed s.
       if \<not> claimed then (Inr False, s)
       else (Inr True, s\<lparr>ad_db := repair_reputation ef r (ad_db s)\<rparr>)))))"

fun repair_candidates :: "enforcer \<Rightarrow> uid \<Rightarrow> comparison_snapshot \<Rightarrow> runner_bytes list \<Rightarrow> work_unit \<Rightarrow> f64 \<Rightarrow>
    result list \<Rightarrow> (audit_db, int) op" where
  "repair_candidates ef aid snap gts w amount [] = oreturn 0"
| "repair_candidates ef aid snap gts w amount (r # rs) =
     (if res_status r = Disagreed \<and> repair_verdict (ef_sha_hex ef) snap gts r = None
      then obind (apply_repair ef aid w amount r) (\<lambda>fresh.
             obind (repair_candidates ef aid snap gts w amount rs) (\<lambda>n. oreturn (if fresh then n + 1 else n)))
      else repair_candidates ef aid snap gts w amount rs)"

text \<open>The report: how many were repaired by this pass, and how many results agree after it.\<close>

definition repair_unit :: "enforcer \<Rightarrow> uid \<Rightarrow> uid \<Rightarrow> comparison_snapshot \<Rightarrow> runner_bytes list \<Rightarrow> (audit_db, int \<times> int) op" where
  "repair_unit ef aid u snap gts s =
     (case find_unit u (ad_db s) of
        None \<Rightarrow> (Inl (NotFound ''work_unit''), s)
      | Some w \<Rightarrow>
          (case db_leafs (ad_db s) (wu_leaf w) of
             None \<Rightarrow> (Inl (NotFound ''leaf''), s)
           | Some lf \<Rightarrow>
               let all = list_by_work_unit u (ad_db s) in
               obind (repair_candidates ef aid snap gts w (grant_amount lf all (ad_db s)) all) (\<lambda>repaired s'.
                 (Inr (repaired, count_if (\<lambda>r. res_status r = Agreed) (list_by_work_unit u (ad_db s'))), s')) s))"

subsection \<open>The pass\<close>

definition await_confirmation :: "uid \<Rightarrow> audit \<Rightarrow> (audit_db, unit) op" where
  "await_confirmation i rt s =
     (case enqueue_confirmation i (au_id rt) s of
        (Inl e, s') \<Rightarrow> (if e = duplicate_open_audit then (Inr (), snd (set_enforcement_state (au_id rt) EnfAwaiting s'))
                        else (Inl e, s'))
      | (Inr _, s') \<Rightarrow> (Inr (), snd (set_enforcement_state (au_id rt) EnfAwaiting s')))"

definition escalate_or_stall :: "uid \<Rightarrow> audit \<Rightarrow> int \<Rightarrow> (audit_db, unit) op" where
  "escalate_or_stall i rt attempts s =
     (if attempts < max_confirmation_attempts then await_confirmation i rt s
      else (Inr (), snd (set_enforcement_state (au_id rt) EnfStalled s)))"

definition contradict :: "audit \<Rightarrow> (audit_db, unit) op" where
  "contradict rt s = (Inr (), snd (set_enforcement_state (au_id rt) EnfContradicted s))"

definition stop_pass :: "(audit_db, unit) op \<Rightarrow> (audit_db, runner_bytes list option) op" where
  "stop_pass m = obind m (\<lambda>_. oreturn None)"

definition resolve_confirmation :: "uid \<Rightarrow> audit \<Rightarrow> (audit_db, runner_bytes list option) op" where
  "resolve_confirmation i rt s =
     (case confirmations_for_root (au_id rt) s of
        [] \<Rightarrow> stop_pass (await_confirmation i rt) s
      | latest # rest \<Rightarrow>
          let attempts = int (length rest) + 1 in
          (case au_status latest of
             AuditQueued \<Rightarrow> (Inr None, s)
           | AuditClaimed \<Rightarrow> (Inr None, s)
           | AuditExpired \<Rightarrow> stop_pass (escalate_or_stall i rt attempts) s
           | AuditCompleted \<Rightarrow>
               (case au_verdict latest of
                  None \<Rightarrow> stop_pass (escalate_or_stall i rt attempts) s
                | Some AuditMatch \<Rightarrow> stop_pass (contradict rt) s
                | Some AuditInconclusive \<Rightarrow> stop_pass (escalate_or_stall i rt attempts) s
                | Some AuditMismatch \<Rightarrow>
                    (case get_runner_output (au_id rt) s of
                       Inl e \<Rightarrow> (Inl e, s)
                     | Inr a \<Rightarrow>
                         (case get_runner_output (au_id latest) s of
                            Inl e \<Rightarrow> (Inl e, s)
                          | Inr b \<Rightarrow>
                              (case ground_truth_agreement (au_snapshot rt) a b of
                                 Inl _ \<Rightarrow> stop_pass (contradict rt) s
                               | Inr agree \<Rightarrow>
                                   (if \<not> agree then stop_pass (contradict rt) s else (Inr (Some [a, b]), s))))))))"

text \<open>Steps 2 to 8, then the disposition and the closing of the root.\<close>

definition consequences :: "enforcer \<Rightarrow> audit \<Rightarrow> runner_bytes list \<Rightarrow> (audit_db, int \<times> int) op" where
  "consequences ef rt gts =
     obind (punish ef (au_id rt) (au_unit rt)) (\<lambda>_. repair_unit ef (au_id rt) (au_unit rt) (au_snapshot rt) gts)"

definition enforce_root :: "enforcer \<Rightarrow> uid \<Rightarrow> audit \<Rightarrow> (audit_db, unit) op" where
  "enforce_root ef i rt s =
     (if au_confirms rt \<noteq> None then (Inr (), s)
      else if \<not> au_eligible rt \<or> au_verdict rt \<noteq> Some AuditMismatch then (Inr (), s)
      else obind (resolve_confirmation i rt) (\<lambda>go.
        (case go of
           None \<Rightarrow> oreturn ()
         | Some gts \<Rightarrow>
             obind (consequences ef rt gts) (\<lambda>(repaired, agreed_after).
             obind (if agreed_after = 0 then lift_db (demote_and_requeue (au_unit rt)) else oreturn ()) (\<lambda>_.
             obind (set_enforcement_state (au_id rt) EnfEnforced) (\<lambda>_. oreturn ()))))) s)"

text \<open>One sweep; a failed root is left for the next. \<open>ids\<close> names the confirmations it may insert.\<close>

definition enforcement_batch_limit :: nat where "enforcement_batch_limit = 20"

definition enforcement_sweep :: "enforcer \<Rightarrow> (nat \<Rightarrow> uid) \<Rightarrow> audit_db \<Rightarrow> audit_db" where
  "enforcement_sweep ef ids s =
     fold (\<lambda>(n, rt) t. snd (enforce_root ef (ids n) rt t))
       (enumerate 0 (list_actionable_roots enforcement_batch_limit s)) s"


subsection \<open>What touches only the queue\<close>

definition same_books :: "audit_db \<Rightarrow> audit_db \<Rightarrow> bool" where
  "same_books s s' \<longleftrightarrow> ad_db s' = ad_db s \<and> ad_adjustments s' = ad_adjustments s \<and> ad_rac s' = ad_rac s \<and>
     ad_repairs s' = ad_repairs s"

lemma same_books_refl [simp]: "same_books s s"
  by (simp add: same_books_def)

lemma same_books_ops:
  "same_books s (snd (set_enforcement_state i st s))"
  "same_books s (snd (insert_audit a s))"
  "same_books s (snd (enqueue_confirmation i rt s))"
  by (auto simp: same_books_def set_enforcement_state_def Let_def update_audits_def insert_audit_def
      enqueue_confirmation_def split: option.splits)

lemma same_books_await: "same_books s (snd (await_confirmation i rt s))"
proof (cases "enqueue_confirmation i (au_id rt) s")
  case (Pair x s1)
  then have "same_books s s1" using same_books_ops(3) [of s i "au_id rt"] by simp
  moreover have "same_books s1 (snd (set_enforcement_state (au_id rt) EnfAwaiting s1))" by (rule same_books_ops)
  ultimately show ?thesis using Pair by (auto simp: await_confirmation_def same_books_def split: sum.splits)
qed

lemma same_books_stop:
  "same_books s (snd (stop_pass (await_confirmation i rt) s))"
  "same_books s (snd (stop_pass (escalate_or_stall i rt n) s))"
  "same_books s (snd (stop_pass (contradict rt) s))"
  "fst (stop_pass m s) \<noteq> Inr (Some gts)"
  using same_books_await same_books_ops(1)
  by (auto simp: stop_pass_def obind_def escalate_or_stall_def contradict_def split: prod.splits sum.splits)
    (metis snd_conv)+

lemma resolve_confirmation_cases:
  assumes "resolve_confirmation i rt s = (x, s')"
  obtains (stopped) "same_books s s'" "\<And>gts. x \<noteq> Inr (Some gts)"
  | (confirmed) c a b where "c \<in> set (confirmations_for_root (au_id rt) s)" "au_status c = AuditCompleted"
      "au_verdict c = Some AuditMismatch" "get_runner_output (au_id rt) s = Inr a"
      "get_runner_output (au_id c) s = Inr b" "ground_truth_agreement (au_snapshot rt) a b = Inr True"
      "x = Inr (Some [a, b])" "s' = s"
proof (cases "confirmations_for_root (au_id rt) s")
  case Nil
  then have "(x, s') = stop_pass (await_confirmation i rt) s" using assms by (simp add: resolve_confirmation_def)
  then show ?thesis using stopped same_books_stop(1,4) by (metis fst_conv snd_conv)
next
  case (Cons c rest)
  show ?thesis
  proof (cases "\<exists>m\<in>{escalate_or_stall i rt (int (length rest) + 1), contradict rt}. (x, s') = stop_pass m s")
    case True
    then show ?thesis using stopped same_books_stop(2-4) by (metis (no_types) empty_iff fst_conv insert_iff snd_conv)
  next
    case False
    then show ?thesis using assms Cons stopped confirmed [of c]
      by (auto simp: resolve_confirmation_def Let_def
          split: audit_status.splits option.splits audit_verdict.splits sum.splits if_splits)
  qed
qed

lemma get_runner_output_row:
  assumes "get_runner_output (au_id c) s = Inr b" "c \<in> set (ad_audits s)" "audits_ok s"
  shows "b = (au_output c, case au_output_checksum c of None \<Rightarrow> '''' | Some k \<Rightarrow> k)"
proof -
  obtain c' where c': "find (\<lambda>a. au_id a = au_id c \<and> au_status a = AuditCompleted) (ad_audits s) = Some c'"
    and b: "b = (au_output c', case au_output_checksum c' of None \<Rightarrow> '''' | Some k \<Rightarrow> k)"
    using assms(1) by (auto simp: get_runner_output_def split: option.splits)
  then have "c' \<in> set (ad_audits s)" "au_id c' = au_id c" by (auto simp: find_Some_iff)
  then have "c' = c" using assms(2,3) by (auto simp: audits_ok_def distinct_map inj_on_def)
  then show ?thesis using b by simp
qed

text \<open>C36. No consequence without two runners. When a pass over a root changes anything but the queue itself
  (a result, a trust score, a unit, the ledger, an adjustment, a recent average, a repair), then the root is
  an eligible mismatch and there is a completed confirmation of it on the same unit that also refuted the
  accepted output, made by a different runner, and the two runners' outputs agree with each other. This holds
  in every history of the queue.\<close>

theorem consequences_need_two_runners:
  assumes "reachable_audits s" "rt \<in> set (ad_audits s)" "enforce_root ef i rt s = (x, s')" "\<not> same_books s s'"
  shows "confirmed_root rt \<and> (\<exists>c\<in>set (ad_audits s).
    au_confirms c = Some (au_id rt) \<and> au_unit c = au_unit rt \<and>
    au_status c = AuditCompleted \<and> au_verdict c = Some AuditMismatch \<and>
    au_claimed_by rt \<noteq> None \<and> au_claimed_by c \<noteq> None \<and> au_claimed_by c \<noteq> au_claimed_by rt \<and>
    ground_truth_agreement (au_snapshot rt)
      (au_output rt, case au_output_checksum rt of None \<Rightarrow> '''' | Some k \<Rightarrow> k)
      (au_output c, case au_output_checksum c of None \<Rightarrow> '''' | Some k \<Rightarrow> k) = Inr True)"
proof -
  have ok: "audits_ok s" by (rule reachable_audits_ok [OF assms(1)])
  have rt: "au_confirms rt = None" "au_eligible rt" "au_verdict rt = Some AuditMismatch"
    using assms(3,4) by (auto simp: enforce_root_def split: if_splits)
  obtain y s1 where r: "resolve_confirmation i rt s = (y, s1)" by (cases "resolve_confirmation i rt s")
  show ?thesis using r
  proof (cases rule: resolve_confirmation_cases)
    case stopped
    have "same_books s s'"
    proof (cases y)
      case (Inl e)
      then show ?thesis using assms(3) r rt stopped(1) by (simp add: enforce_root_def)
    next
      case (Inr go)
      then have "go = None" using stopped(2) by (cases go) auto
      then show ?thesis using assms(3) r rt stopped(1) Inr by (simp add: enforce_root_def)
    qed
    then show ?thesis using assms(4) by simp
  next
    case (confirmed c a b)
    have c: "c \<in> set (ad_audits s)" "au_confirms c = Some (au_id rt)"
      using confirmed(1) by (auto simp: confirmations_for_root_def)
    have rok: "audit_row_ok rt" "audit_row_ok c" "confirmation_ok (ad_audits s) c"
      using ok assms(2) c(1) by (auto simp: audits_ok_def)
    obtain r where r: "r \<in> set (ad_audits s)" "au_id r = au_id rt" "au_unit r = au_unit c" "confirmed_root r"
        "au_claimed_by c \<noteq> None \<longrightarrow> au_claimed_by c \<noteq> au_claimed_by r"
      using rok(3) unfolding confirmation_ok_def c(2) option.case by blast
    have "r = rt" using r(1,2) assms(2) ok by (auto simp: audits_ok_def distinct_map inj_on_def)
    then have "confirmed_root rt" "au_unit c = au_unit rt" "au_claimed_by c \<noteq> None \<longrightarrow> au_claimed_by c \<noteq> au_claimed_by rt"
      using r by auto
    moreover have "au_claimed_by rt \<noteq> None" "au_claimed_by c \<noteq> None"
      using rok(1,2) confirmed(2) \<open>confirmed_root rt\<close> by (auto simp: audit_row_ok_def confirmed_root_def)
    moreover have "a = (au_output rt, case au_output_checksum rt of None \<Rightarrow> '''' | Some k \<Rightarrow> k)"
      by (rule get_runner_output_row [OF confirmed(4) assms(2) ok])
    moreover have "b = (au_output c, case au_output_checksum c of None \<Rightarrow> '''' | Some k \<Rightarrow> k)"
      by (rule get_runner_output_row [OF confirmed(5) c(1) ok])
    ultimately show ?thesis using c confirmed(2,3,6) by blast
  qed
qed


subsection \<open>The money unwind\<close>

text \<open>What a group of clawbacks leaves: the entries they name are worth nothing, all others what they were.\<close>

definition claws :: "uid set \<Rightarrow> audit_db \<Rightarrow> audit_db \<Rightarrow> bool" where
  "claws E s s' \<longleftrightarrow> nets_ok s' \<and> ad_db s' = ad_db s \<and> ad_audits s' = ad_audits s \<and> ad_repairs s' = ad_repairs s \<and>
     length (ad_adjustments s) \<le> length (ad_adjustments s') \<and>
     (\<forall>l\<in>set (db_ledger (ad_db s)). entry_net s' l = (if lg_result l \<in> E then 0 else entry_net s l))"

lemma claws_refl: "nets_ok s \<Longrightarrow> claws {} s s"
  by (simp add: claws_def)

lemma claws_trans: "claws E s s' \<Longrightarrow> claws F s' s'' \<Longrightarrow> claws (E \<union> F) s s''"
  by (simp add: claws_def)

lemma clawback_entry_claws:
  assumes "nets_ok s"
  obtains k s' where "clawback_entry e aid reason s = (Inr k, s')" "claws {e} s s'"
    "\<And>i. k = Some i \<Longrightarrow> i < length (ad_adjustments s')"
proof (cases "find_entry e (ad_db s)")
  case None
  then have "\<forall>l\<in>set (db_ledger (ad_db s)). lg_result l \<noteq> e" by (auto simp: find_entry_def find_None_iff)
  then show ?thesis using that [of None s] assms None by (auto simp: clawback_entry_def claws_def)
next
  case (Some l)
  obtain x s' where c: "clawback e None reason '''' adjustment_by_audit (Some aid) s = (x, s')"
    by (cases "clawback e None reason '''' adjustment_by_audit (Some aid) s")
  note N = clawback_nets [OF assms c]
  have net: "entry_net s' l' = (if lg_result l' \<in> {e} then 0 else entry_net s l')"
    if l': "l' \<in> set (db_ledger (ad_db s))" for l'
  proof (cases "lg_result l' = e")
    case True
    then have "l' = l" using l' find_entryD [OF Some] assms by (auto simp: nets_ok_def distinct_map inj_on_def)
    then show ?thesis using N(4) [OF refl Some] True by simp
  qed (use N(3) [OF l'] in simp)
  have len: "length (ad_adjustments s) \<le> length (ad_adjustments s') \<and> ad_audits s' = ad_audits s \<and> ad_repairs s' = ad_repairs s \<and>
      (\<forall>i. x = Inr i \<longrightarrow> i < length (ad_adjustments s')) \<and> (\<forall>err. x = Inl err \<longrightarrow> s' = s)"
    using c by (cases rule: clawback_cases) auto
  have cl: "claws {e} s s'" using N(1,2) net len unfolding claws_def by blast
  show ?thesis
  proof (cases x)
    case (Inr i)
    then show ?thesis using that [of "Some i" s'] Some c cl len
      by (auto simp: clawback_entry_def clawback_for_audit_def)
  next
    case (Inl err)
    then have "s' = s" using len by simp
    then have "entry_net s l = 0" using N(4) [OF refl Some] by simp
    then have "err = adjustment_exhausted"
      using clawback_exhausted [OF Some assms, of reason "''''" adjustment_by_audit "Some aid"] c Inl by simp
    then show ?thesis using that [of None s'] Some c cl Inl
      by (auto simp: clawback_entry_def clawback_for_audit_def)
  qed
qed

lemma clawback_entries_claws:
  assumes "nets_ok s"
  shows "\<exists>ks s'. clawback_entries es aid reason s = (Inr ks, s') \<and> claws (set es) s s' \<and>
    (\<forall>k\<in>set ks. k < length (ad_adjustments s'))"
  using assms
proof (induction es arbitrary: s)
  case Nil
  then show ?case by (simp add: claws_refl)
next
  case (Cons e es)
  obtain k s1 where k: "clawback_entry e aid reason s = (Inr k, s1)" "claws {e} s s1"
    "\<And>i. k = Some i \<Longrightarrow> i < length (ad_adjustments s1)" by (rule clawback_entry_claws [OF Cons.prems]) blast
  have "nets_ok s1" using k(2) by (simp add: claws_def)
  then obtain ks s2 where ks: "clawback_entries es aid reason s1 = (Inr ks, s2)" "claws (set es) s1 s2"
    "\<forall>k\<in>set ks. k < length (ad_adjustments s2)" using Cons.IH by blast
  have "length (ad_adjustments s1) \<le> length (ad_adjustments s2)" using ks(2) by (simp add: claws_def)
  then have "\<forall>j\<in>set (case k of None \<Rightarrow> ks | Some i \<Rightarrow> i # ks). j < length (ad_adjustments s2)"
    using ks(3) k(3) by (fastforce split: option.splits)
  moreover have "claws (set (e # es)) s s2" using claws_trans [OF k(2) ks(2)] by simp
  ultimately show ?case using k(1) ks(1) by simp
qed

definition unmatured_of :: "uid list \<Rightarrow> int \<Rightarrow> audit_db \<Rightarrow> uid set" where
  "unmatured_of vs days s =
     {lg_result l | l. l \<in> set (db_ledger (ad_db s)) \<and> lg_volunteer l \<in> set vs \<and>
        lg_granted_at l > db_now (ad_db s) - days * 86400}"

lemma set_list_unmatured: "set (list_unmatured_entries v days s) = unmatured_of [v] days s"
  by (auto simp: list_unmatured_entries_def unmatured_of_def)

lemma clawback_unmatured_claws:
  assumes "nets_ok s"
  shows "\<exists>ks s'. clawback_unmatured vs aid days s = (Inr ks, s') \<and> claws (unmatured_of vs days s) s s' \<and>
    (\<forall>k\<in>set ks. k < length (ad_adjustments s'))"
  using assms
proof (induction vs arbitrary: s)
  case Nil
  then show ?case using claws_refl by (simp add: unmatured_of_def)
next
  case (Cons v vs)
  obtain ks s1 where ks: "clawback_entries (list_unmatured_entries v days s) aid reason_audit_mismatch_unmatured s = (Inr ks, s1)"
    "claws (unmatured_of [v] days s) s s1" "\<forall>k\<in>set ks. k < length (ad_adjustments s1)"
    using clawback_entries_claws [OF Cons.prems] set_list_unmatured by metis
  then have "nets_ok s1" "ad_db s1 = ad_db s" by (simp_all add: claws_def)
  then obtain ks' s2 where ks': "clawback_unmatured vs aid days s1 = (Inr ks', s2)"
    "claws (unmatured_of vs days s) s1 s2" "\<forall>k\<in>set ks'. k < length (ad_adjustments s2)"
    using Cons.IH [of s1] by (auto simp: unmatured_of_def)
  have "unmatured_of (v # vs) days s = unmatured_of [v] days s \<union> unmatured_of vs days s"
    by (auto simp: unmatured_of_def)
  then have "claws (unmatured_of (v # vs) days s) s s2" using claws_trans [OF ks(2) ks'(2)] by simp
  moreover have "\<forall>k\<in>set (ks @ ks'). k < length (ad_adjustments s2)"
    using ks(3) ks'(2,3) by (fastforce simp: claws_def)
  ultimately show ?case using ks(1) ks'(1) by simp
qed

lemma nets_ok_amounts:
  assumes "map adj_amount (ad_adjustments s') = map adj_amount (ad_adjustments s)"
    "map adj_entry (ad_adjustments s') = map adj_entry (ad_adjustments s)" "db_ledger (ad_db s') = db_ledger (ad_db s)"
  shows "entry_net s' l = entry_net s l" and "nets_ok s \<Longrightarrow> nets_ok s'"
proof -
  have z: "sum_list (map adj_amount (filter (\<lambda>a. adj_entry a = e) as)) =
      sum_list (map snd (filter (\<lambda>(x, y). x = e) (zip (map adj_entry as) (map adj_amount as))))" for e as
    by (induction as) auto
  have s: "adjustment_sum e (ad_adjustments s') = adjustment_sum e (ad_adjustments s)" for e
    by (simp only: adjustment_sum_def z assms(1,2))
  then show n: "entry_net s' l = entry_net s l" for l by (simp add: entry_net_def)
  have "adj_amount ` set (ad_adjustments s') = adj_amount ` set (ad_adjustments s)"
    using assms(1) by (metis set_map)
  then have a: "(\<forall>a\<in>set (ad_adjustments s'). Q (adj_amount a)) = (\<forall>a\<in>set (ad_adjustments s). Q (adj_amount a))" for Q
    by (metis (no_types) image_iff)
  show "nets_ok s'" if "nets_ok s"
    using that n assms(3) a [of "\<lambda>x. six_decimals x \<and> x < 0"] by (simp add: nets_ok_def)
qed

lemma apply_rac_adjustments_ok:
  assumes "\<forall>k\<in>set ks. k < length (ad_adjustments s)"
  shows "\<exists>s'. apply_rac_adjustments decay ks s = (Inr (), s') \<and> ad_db s' = ad_db s \<and> ad_audits s' = ad_audits s \<and>
    ad_repairs s' = ad_repairs s \<and> map adj_amount (ad_adjustments s') = map adj_amount (ad_adjustments s) \<and>
    map adj_entry (ad_adjustments s') = map adj_entry (ad_adjustments s)"
  using assms
proof (induction ks arbitrary: s)
  case (Cons k ks)
  obtain x s1 where a: "apply_rac_adjustment decay k s = (x, s1)" by (cases "apply_rac_adjustment decay k s")
  then have "\<exists>b. x = Inr b \<and> ad_db s1 = ad_db s \<and> ad_audits s1 = ad_audits s \<and> ad_repairs s1 = ad_repairs s \<and>
      map adj_amount (ad_adjustments s1) = map adj_amount (ad_adjustments s) \<and>
      map adj_entry (ad_adjustments s1) = map adj_entry (ad_adjustments s) \<and>
      length (ad_adjustments s1) = length (ad_adjustments s)"
  proof (cases rule: apply_rac_adjustment_cases)
    case applied
    then show ?thesis by (auto simp: map_update) (metis list_update_id map_update)+
  qed (use Cons.prems in auto)
  then show ?case using Cons.IH [of s1] Cons.prems a by auto
qed simp


definition agreed_row :: "uid \<Rightarrow> result \<Rightarrow> bool" where
  "agreed_row u r \<longleftrightarrow> res_unit r = u \<and> res_status r = Agreed"

lemma load_fraud_set_results: "map fr_result (load_fraud_set u s) =
    map res_id (filter (\<lambda>r. res_status r = Agreed) (list_by_work_unit u (ad_db s)))"
  by (simp add: load_fraud_set_def)

lemma set_load_fraud_set:
  "fr_result ` set (load_fraud_set u s) = res_id ` {r \<in> set (db_results (ad_db s)). agreed_row u r}"
  "fr_volunteer ` set (load_fraud_set u s) = res_volunteer ` {r \<in> set (db_results (ad_db s)). agreed_row u r}"
  "fr_subject ` set (load_fraud_set u s) = subject_for_result ` {r \<in> set (db_results (ad_db s)). agreed_row u r}"
  by (auto simp: load_fraud_set_def list_by_work_unit_def results_of_def agreed_row_def image_image)

lemma count_ids:
  assumes "distinct (map res_id rows)" "\<forall>r\<in>set rows. P r \<longleftrightarrow> res_id r \<in> set ids" "set ids \<subseteq> res_id ` set rows" "distinct ids"
  shows "count_if (\<lambda>r. res_id r \<in> set ids) rows = int (length ids)"
proof -
  have "distinct rows" using assms(1) by (simp add: distinct_map)
  then have "length (filter (\<lambda>r. res_id r \<in> set ids) rows) = card {r \<in> set rows. res_id r \<in> set ids}"
    by (rule length_filter_distinct)
  also have "\<dots> = card (res_id ` {r \<in> set rows. res_id r \<in> set ids})"
    using assms(1) by (intro card_image [symmetric]) (auto simp: distinct_map inj_on_def)
  also have "res_id ` {r \<in> set rows. res_id r \<in> set ids} = set ids" using assms(3) by auto
  finally show ?thesis using assms(4) by (simp add: count_if_def distinct_card)
qed

lemma flip_fraud:
  assumes "results_distinct (ad_db s)" "db_results d = db_results (ad_db s)"
  shows "batch_update_validation_status (map fr_result (load_fraud_set u s)) Disagreed d =
    (Inr (), d\<lparr>db_results := update_where (agreed_row u) (\<lambda>r. r\<lparr>res_status := Disagreed, res_validated_at := Some (db_now d)\<rparr>)
       (db_results d)\<rparr>)"
proof -
  let ?ids = "map fr_result (load_fraud_set u s)"
  have sel: "res_id r \<in> set ?ids \<longleftrightarrow> agreed_row u r" if "r \<in> set (db_results d)" for r
    using that assms results_distinct_eq [OF assms(1)] by (auto simp: set_load_fraud_set)
  have dist: "distinct (map res_id (list_by_work_unit u (ad_db s)))"
    using assms(1) unfolding results_distinct_def list_by_work_unit_def results_of_def
    by (simp add: distinct_map_filter distinct_map inj_on_def)
  then have "distinct ?ids" unfolding load_fraud_set_results by (simp add: distinct_map_filter)
  then have n: "count_if (\<lambda>r. res_id r \<in> set ?ids) (db_results d) = int (length ?ids)"
    using assms sel by (intro count_ids [of _ "agreed_row u"]) (auto simp: results_distinct_def set_load_fraud_set)
  have up: "update_where (\<lambda>r. res_id r \<in> set ?ids) f (db_results d) = update_where (agreed_row u) f (db_results d)" for f
    by (rule update_where_cong) (use sel in auto)
  show ?thesis
  proof (cases "?ids = []")
    case True
    then have "\<forall>r\<in>set (db_results d). \<not> agreed_row u r" using sel by auto
    then have "update_where (agreed_row u) f (db_results d) = db_results d" for f
      unfolding update_where_def by (intro map_idI) auto
    then show ?thesis using True by (simp add: batch_update_validation_status_def)
  next
    case False
    then show ?thesis using n up by (simp add: batch_update_validation_status_def Let_def update_results_def)
  qed
qed

lemma fold_slash_score:
  "trust_get_score (fold (trust_slash now) subjects t) x = (if x \<in> set subjects then 0 else trust_get_score t x)"
  by (induction subjects arbitrary: t) (auto simp: trust_slash_score)

lemma first_occurrences_set [simp]: "set (first_occurrences xs) = set xs"
  by (simp add: first_occurrences_def)

text \<open>C37. The consequences hit exactly the agreed results of the unit and the accounts behind them, and they
  always run to their end. Every subject of an agreed result is left with no trust, every other subject keeps
  its score; the entries of those results and every unmatured entry of their accounts are worth nothing,
  every other entry keeps its net, and no net goes below zero; exactly the agreed results of the unit become
  disagreed; no unit, no audit, no repair and no ledger entry is touched. Which results are agreed is read
  when the pass runs, not taken from the audited verdict.\<close>

theorem punishment_is_exact:
  assumes "nets_ok s" "results_distinct (ad_db s)"
  shows "\<exists>s'. punish ef aid u s = (Inr (), s') \<and> nets_ok s' \<and>
    db_results (ad_db s') = update_where (agreed_row u)
      (\<lambda>r. r\<lparr>res_status := Disagreed, res_validated_at := Some (db_now (ad_db s))\<rparr>) (db_results (ad_db s)) \<and>
    (\<forall>x. trust_get_score (db_trust (ad_db s')) x =
       (if x \<in> subject_for_result ` {r \<in> set (db_results (ad_db s)). agreed_row u r} then 0
        else trust_get_score (db_trust (ad_db s)) x)) \<and>
    (\<forall>l\<in>set (db_ledger (ad_db s)). entry_net s' l =
       (if lg_result l \<in> res_id ` {r \<in> set (db_results (ad_db s)). agreed_row u r} \<or>
           lg_volunteer l \<in> res_volunteer ` {r \<in> set (db_results (ad_db s)). agreed_row u r} \<and>
           lg_granted_at l > db_now (ad_db s) - ef_maturation_days ef * 86400
        then 0 else entry_net s l)) \<and>
    db_units (ad_db s') = db_units (ad_db s) \<and> db_copies (ad_db s') = db_copies (ad_db s) \<and>
    db_ledger (ad_db s') = db_ledger (ad_db s) \<and> db_volunteers (ad_db s') = db_volunteers (ad_db s) \<and>
    db_leafs (ad_db s') = db_leafs (ad_db s) \<and>
    ad_audits s' = ad_audits s \<and> ad_repairs s' = ad_repairs s"
proof -
  let ?fraud = "load_fraud_set u s"
  define s1 where "s1 = slash_subjects (first_occurrences (map fr_subject ?fraud)) s"
  have d1: "ad_db s1 = (ad_db s)\<lparr>db_trust := fold (trust_slash (db_now (ad_db s)))
      (first_occurrences (map fr_subject ?fraud)) (db_trust (ad_db s))\<rparr>"
    "ad_adjustments s1 = ad_adjustments s" "ad_audits s1 = ad_audits s" "ad_repairs s1 = ad_repairs s"
    by (simp_all add: s1_def slash_subjects_def)
  have n1: "nets_ok s1" "\<And>l. entry_net s1 l = entry_net s l"
    using nets_ok_amounts [of s1 s] d1 assms(1) by simp_all
  obtain ks s2 where 2: "clawback_entries (map fr_result ?fraud) aid reason_audit_mismatch s1 = (Inr ks, s2)"
    "claws (fr_result ` set ?fraud) s1 s2" "\<forall>k\<in>set ks. k < length (ad_adjustments s2)"
    using clawback_entries_claws [OF n1(1)] by (metis set_map)
  have n2: "nets_ok s2" "ad_db s2 = ad_db s1" using 2(2) by (simp_all add: claws_def)
  let ?vs = "first_occurrences (map fr_volunteer ?fraud)"
  obtain ks' s3 where 3: "clawback_unmatured ?vs aid (ef_maturation_days ef) s2 = (Inr ks', s3)"
    "claws (unmatured_of ?vs (ef_maturation_days ef) s2) s2 s3" "\<forall>k\<in>set ks'. k < length (ad_adjustments s3)"
    using clawback_unmatured_claws [OF n2(1)] by blast
  have c13: "claws (fr_result ` set ?fraud \<union> unmatured_of ?vs (ef_maturation_days ef) s2) s1 s3"
    by (rule claws_trans [OF 2(2) 3(2)])
  have len: "\<forall>k\<in>set (ks @ ks'). k < length (ad_adjustments s3)" using 2(3) 3(2,3) by (fastforce simp: claws_def)
  obtain s4 where 4: "apply_rac_adjustments (ef_rac_decay ef) (ks @ ks') s3 = (Inr (), s4)"
    "ad_db s4 = ad_db s3" "ad_audits s4 = ad_audits s3" "ad_repairs s4 = ad_repairs s3"
    "map adj_amount (ad_adjustments s4) = map adj_amount (ad_adjustments s3)"
    "map adj_entry (ad_adjustments s4) = map adj_entry (ad_adjustments s3)"
    using apply_rac_adjustments_ok [OF len] by blast
  have d4: "ad_db s4 = ad_db s1" using 4(2) c13 by (simp add: claws_def)
  define s5 where "s5 = s4\<lparr>ad_db := (ad_db s4)\<lparr>db_results := update_where (agreed_row u)
      (\<lambda>r. r\<lparr>res_status := Disagreed, res_validated_at := Some (db_now (ad_db s))\<rparr>) (db_results (ad_db s4))\<rparr>\<rparr>"
  have "lift_db (batch_update_validation_status (map fr_result ?fraud) Disagreed) s4 = (Inr (), s5)"
    using flip_fraud [OF assms(2), of "ad_db s4" u] by (simp add: lift_db_def s5_def d4 d1)
  then have p: "punish ef aid u s = (Inr (), s5)"
    using 2(1) 3(1) 4(1) by (simp add: punish_def Let_def s1_def [symmetric])
  have net5: "entry_net s5 l = entry_net s3 l" for l
    using nets_ok_amounts(1) [of s5 s3] 4(2,5,6) by (simp add: s5_def)
  have n5: "nets_ok s5" using nets_ok_amounts(2) [of s5 s3] 4(2,5,6) c13 by (simp add: s5_def claws_def)
  have um: "lg_result l \<in> unmatured_of ?vs days s2 \<longleftrightarrow>
      lg_volunteer l \<in> fr_volunteer ` set ?fraud \<and> lg_granted_at l > db_now (ad_db s) - days * 86400"
    if "l \<in> set (db_ledger (ad_db s))" for l days
  proof -
    have "l' = l" if "l' \<in> set (db_ledger (ad_db s))" "lg_result l' = lg_result l" for l'
      using assms(1) that \<open>l \<in> _\<close> by (auto simp: nets_ok_def distinct_map inj_on_def)
    then show ?thesis using that by (auto simp: unmatured_of_def n2(2) d1)
  qed
  have "entry_net s5 l = (if lg_result l \<in> fr_result ` set ?fraud \<or> lg_volunteer l \<in> fr_volunteer ` set ?fraud \<and>
      lg_granted_at l > db_now (ad_db s) - ef_maturation_days ef * 86400 then 0 else entry_net s l)"
    if "l \<in> set (db_ledger (ad_db s))" for l
    using c13 um [OF that] that net5 n1(2) by (simp add: claws_def d1)
  then show ?thesis
    using p n5 c13 4(3,4) d4
    by (intro exI [of _ s5]) (simp add: s5_def d1 fold_slash_score set_load_fraud_set [symmetric] claws_def)
qed


subsection \<open>An interrupted pass\<close>

text \<open>
  A unit accepted on a wrong result \<open>r1\<close> of account a, with an honest \<open>r2\<close> of account b in the
  minority; two runners have refuted the accepted output and agree with each other and with \<open>r2\<close>.
\<close>

definition plain_enforcer :: enforcer where
  "plain_enforcer = \<lparr>ef_engine = default_engine, ef_rac_decay = (\<lambda>_. 1), ef_maturation_days = 30, ef_sha_hex = id\<rparr>"

definition refuted_root :: audit where
  "refuted_root = sampled_audit\<lparr>au_id := ''A1'', au_accepted_key := Some ''bad'', au_status := AuditCompleted,
     au_verdict := Some AuditMismatch, au_attempts := 1, au_claimed_by := Some ''R1'', au_output := OutputDoc JNull,
     au_output_checksum := Some ''good'', au_completed_at := Some 50, au_eligible := True, au_enforcement := EnfAwaiting\<rparr>"

definition confirming_audit :: audit where
  "confirming_audit = refuted_root\<lparr>au_id := ''A2'', au_claimed_by := Some ''R2'', au_enforcement := EnfNone,
     au_confirms := Some ''A1''\<rparr>"

definition convicted_db :: audit_db where
  "convicted_db = \<lparr>ad_db = (sample_db [(queued_unit ''u'' ''l'')\<lparr>wu_state := Validated\<rparr>] []
       [(ok_result ''r1'' ''a'' ''bad'')\<lparr>res_status := Agreed\<rparr>, (ok_result ''r2'' ''b'' ''good'')\<lparr>res_status := Disagreed\<rparr>])
       \<lparr>db_ledger := [\<lparr>lg_volunteer = ''a'', lg_leaf = ''l'', lg_unit = ''u'', lg_result = ''r1'', lg_amount = 1, lg_granted_at = 40\<rparr>],
        db_trust := [''vol:a'' \<mapsto> \<lparr>te_score = 5, te_clean_units = 5, te_slashed_at = None\<rparr>,
                     ''vol:b'' \<mapsto> \<lparr>te_score = 5, te_clean_units = 5, te_slashed_at = None\<rparr>]\<rparr>,
     ad_audits = [refuted_root, confirming_audit], ad_adjustments = [], ad_rac = Map.empty, ad_repairs = []\<rparr>"

definition honest_fate :: "audit_db \<Rightarrow> int \<times> rat list \<times> validation_status list \<times> enforcement_state list" where
  "honest_fate s = (trust_get_score (db_trust (ad_db s)) ''vol:b'',
     map (entry_net s) (filter (\<lambda>l. lg_volunteer l = ''b'') (db_ledger (ad_db s))),
     map res_status (db_results (ad_db s)), map au_enforcement (ad_audits s))"

definition pass_until_repair :: "audit_db \<Rightarrow> audit_db" where
  "pass_until_repair s = snd (consequences plain_enforcer refuted_root
     [(OutputDoc JNull, ''good''), (OutputDoc JNull, ''good'')] s)"

definition whole_pass :: "audit_db \<Rightarrow> audit_db" where
  "whole_pass s = snd (enforce_root plain_enforcer ''A3'' refuted_root s)"


text \<open>The punishment of one pass, on the same unit.\<close>

lemma convicted_ok: "nets_ok convicted_db" "results_distinct (ad_db convicted_db)"
proof -
  have "six_decimals 1" by code_simp
  then show "nets_ok convicted_db"
    by (simp add: nets_ok_def convicted_db_def sample_db_def entry_net_def adjustment_sum_def)
  show "results_distinct (ad_db convicted_db)"
    by (simp add: results_distinct_def convicted_db_def sample_db_def ok_result_def)
qed

theorem punishment_is_exact_witness:
  "\<exists>s'. punish plain_enforcer ''A1'' ''u'' convicted_db = (Inr (), s') \<and> nets_ok s' \<and>
     trust_get_score (db_trust (ad_db s')) ''vol:a'' = 0 \<and> trust_get_score (db_trust (ad_db s')) ''vol:b'' = 5"
proof -
  have "{r \<in> set (db_results (ad_db convicted_db)). agreed_row ''u'' r} = {(ok_result ''r1'' ''a'' ''bad'')\<lparr>res_status := Agreed\<rparr>}"
    by (auto simp: convicted_db_def sample_db_def ok_result_def agreed_row_def)
  then have s: "subject_for_result ` {r \<in> set (db_results (ad_db convicted_db)). agreed_row ''u'' r} = {''vol:a''}"
    by (simp add: ok_result_def subject_for_result_def subject_for_volunteer_id_def)
  have t: "trust_get_score (db_trust (ad_db convicted_db)) ''vol:b'' = 5"
    by (simp add: convicted_db_def sample_db_def trust_get_score_def)
  show ?thesis
    using punishment_is_exact [OF convicted_ok, of plain_enforcer "''A1''" "''u''"] unfolding s
    using t by (elim exE conjE) (intro exI conjI, assumption+, simp_all)
qed

definition confirmed_db :: audit_db where
  "confirmed_db = (snd (submit_audit ''A3'' True ''R2'' ''A2'' (RunOutput (OutputDoc JNull) ''other'')
     (snd (claim_job ''R2'' ''arm'' refuted_db))))\<lparr>ad_db := ad_db convicted_db\<rparr>"

lemma confirmed_rows: "map au_id (ad_audits confirmed_db) = [''A1'', ''A2'']"
  "map au_id (ad_audits (snd (claim_job ''R2'' ''arm'' refuted_db))) = [''A1'', ''A2'']"
  by code_simp+

lemma reachable_confirmed: "reachable_audits confirmed_db"
proof -
  let ?s1 = "snd (claim_job ''R2'' ''arm'' refuted_db)"
  let ?rep = "RunOutput (OutputDoc JNull) ''other''"
  let ?s2 = "snd (submit_audit ''A3'' True ''R2'' ''A2'' ?rep ?s1)"
  have "audit_step refuted_db ?s1"
    by (rule audit_step.claim [of "''R2''" "''arm''" _ "fst (claim_job ''R2'' ''arm'' refuted_db)"]) simp
  moreover have "audit_step ?s1 ?s2"
  proof (rule audit_step.submit [of "''A3''" True "''R2''" "''A2''" ?rep _ "fst (submit_audit ''A3'' True ''R2'' ''A2'' ?rep ?s1)"])
    have "au_id ` set (ad_audits ?s1) = {''A1'', ''A2''}" using confirmed_rows(2) by (metis list.set(1,2) set_map)
    then show "''A3'' \<notin> au_id ` set (ad_audits ?s1)" by simp
  qed simp
  moreover have "audit_step ?s2 confirmed_db" by (rule audit_step.elsewhere) (simp add: confirmed_db_def)
  ultimately show ?thesis using reachable_refuted by (blast intro: reachable_audits.step)
qed

theorem consequences_need_two_runners_witness:
  "\<exists>c\<in>set (ad_audits confirmed_db). au_confirms c = Some (au_id (hd (ad_audits confirmed_db))) \<and>
     au_claimed_by c \<noteq> au_claimed_by (hd (ad_audits confirmed_db))"
proof -
  let ?rt = "hd (ad_audits confirmed_db)"
  let ?x = "enforce_root plain_enforcer ''A3'' ?rt confirmed_db"
  have m: "?rt \<in> set (ad_audits confirmed_db)" using confirmed_rows(1) by (cases "ad_audits confirmed_db") auto
  have "trust_get_score (db_trust (ad_db (snd ?x))) ''vol:a'' = 0" "trust_get_score (db_trust (ad_db confirmed_db)) ''vol:a'' = 5"
    by code_simp+
  then have "\<not> same_books confirmed_db (snd ?x)" by (auto simp: same_books_def)
  from consequences_need_two_runners [OF reachable_confirmed m prod.collapse [symmetric] this] show ?thesis by blast
qed


subsection \<open>A result is repaired once\<close>

definition repaired :: "audit_db \<Rightarrow> uid \<Rightarrow> bool" where
  "repaired s r \<longleftrightarrow> r \<in> snd ` set (ad_repairs s)"

lemma lift_db_cases:
  assumes "lift_db m s = (x, s')"
  obtains d where "m (ad_db s) = (x, d)" "s' = s\<lparr>ad_db := d\<rparr>"
  using assms by (auto simp: lift_db_def split: prod.splits)

lemma repair_grant_effect:
  assumes "repair_grant ef w amount r s = (Inr b, s')"
  shows "s' = s\<lparr>ad_db := ad_db s'\<rparr> \<and> ad_db s' = (ad_db s)\<lparr>db_ledger := db_ledger (ad_db s')\<rparr> \<and>
    (if b then \<not> credit_taken (ad_db s) (res_id r) \<and> db_ledger (ad_db s') = db_ledger (ad_db s) @
            [(credit_entry w amount r)\<lparr>lg_granted_at := db_now (ad_db s)\<rparr>]
     else db_ledger (ad_db s') = db_ledger (ad_db s))"
  using assms unfolding repair_grant_def Let_def lift_db_def create_capped_def create_credit_def obind_def oreturn_def
  by (auto simp: credit_entry_def split: if_splits prod.splits sum.splits api_error.splits)

lemma claim_repair_effect:
  "claim_repair aid r s = (Inr (\<not> repaired s r), if repaired s r then s else s\<lparr>ad_repairs := ad_repairs s @ [(aid, r)]\<rparr>)"
  by (force simp: claim_repair_def repaired_def)

text \<open>C39. A result is repaired at most once, whatever pass, audit or crash asks again. The repair is fresh
  exactly when the result was never repaired before; one that is not fresh changes no trust score, no
  account and no machine, and a result that already has a ledger entry gets no second one, so neither its
  grant nor the average it feeds is paid twice.\<close>

theorem repair_pays_once:
  assumes "apply_repair ef aid w amount r s = (Inr fresh, s')"
  shows "fresh = (\<not> repaired s (res_id r)) \<and> repaired s' (res_id r) \<and>
    (if fresh then True
     else db_trust (ad_db s') = db_trust (ad_db s) \<and> db_volunteers (ad_db s') = db_volunteers (ad_db s) \<and>
          db_reliability (ad_db s') = db_reliability (ad_db s)) \<and>
    (if credit_taken (ad_db s) (res_id r)
     then db_ledger (ad_db s') = db_ledger (ad_db s) \<and> ad_rac s' = ad_rac s
     else length (db_ledger (ad_db s')) \<le> length (db_ledger (ad_db s)) + 1)"
proof -
  obtain s1 b s2 where 1: "lift_db (batch_update_validation_status [res_id r] Agreed) s = (Inr (), s1)"
    and 2: "repair_grant ef w amount r s1 = (Inr b, s2)"
    and 3: "(let s3 = (if b then rac_upsert (ef_rac_decay ef) (res_volunteer r) (wu_leaf w) amount s2 else s2);
               (c, s4) = claim_repair aid (res_id r) s3 in
             case c of Inl e \<Rightarrow> (Inl e, s4) | Inr claimed \<Rightarrow> if \<not> claimed then (Inr False, s4)
               else (Inr True, s4\<lparr>ad_db := repair_reputation ef r (ad_db s4)\<rparr>)) = (Inr fresh, s')"
    using assms unfolding apply_repair_def obind_eq_Inr
    by (auto simp: obind_def Let_def split: prod.splits sum.splits)
  obtain d1 where d1: "batch_update_validation_status [res_id r] Agreed (ad_db s) = (Inr (), d1)" "s1 = s\<lparr>ad_db := d1\<rparr>"
    using 1 by (rule lift_db_cases)
  note B = batch_ok [OF d1(1)]
  define d2 where "d2 = ad_db s2"
  have s1: "ad_db s1 = d1" "\<And>d. s1\<lparr>ad_db := d\<rparr> = s\<lparr>ad_db := d\<rparr>" by (simp_all add: d1(2))
  have d2: "s2 = s\<lparr>ad_db := d2\<rparr>" "d2 = d1\<lparr>db_ledger := db_ledger d2\<rparr>"
    "if b then \<not> credit_taken d1 (res_id r) \<and> db_ledger d2 = db_ledger d1 @
            [(credit_entry w amount r)\<lparr>lg_granted_at := db_now d1\<rparr>] else db_ledger d2 = db_ledger d1"
    using repair_grant_effect [OF 2] unfolding d2_def [symmetric] s1 by blast+
  define s3 where "s3 = (if b then rac_upsert (ef_rac_decay ef) (res_volunteer r) (wu_leaf w) amount s2 else s2)"
  have s3: "ad_db s3 = d2" "ad_repairs s3 = ad_repairs s" "\<not> b \<Longrightarrow> ad_rac s3 = ad_rac s"
    by (simp_all add: s3_def rac_upsert_def Let_def d2(1) d1(2))
  have rep: "repaired s3 (res_id r) = repaired s (res_id r)" by (simp add: repaired_def s3(2))
  have fin: "fresh = (\<not> repaired s (res_id r))"
    "s' = (if repaired s (res_id r) then s3
           else s3\<lparr>ad_repairs := ad_repairs s3 @ [(aid, res_id r)], ad_db := repair_reputation ef r d2\<rparr>)"
    using 3 unfolding s3_def [symmetric] Let_def claim_repair_effect rep by (auto simp: s3(1) split: if_splits)
  have ct: "credit_taken d1 (res_id r) = credit_taken (ad_db s) (res_id r)" by (simp add: B credit_taken_def)
  have rl: "db_ledger (repair_reputation ef r d2) = db_ledger d2"
    by (simp add: repair_reputation_def Let_def record_reliability_def record_adjudicated_db_def split: option.splits)
  have same: "db_trust d2 = db_trust (ad_db s)" "db_volunteers d2 = db_volunteers (ad_db s)"
    "db_reliability d2 = db_reliability (ad_db s)" "db_ledger d1 = db_ledger (ad_db s)"
    by (subst d2(2), simp add: B)+ (simp add: B)
  have led: "db_ledger (ad_db s') = db_ledger d2" "ad_rac s' = ad_rac s3" using rl s3(1) by (simp_all add: fin(2))
  have pay: "if credit_taken (ad_db s) (res_id r) then db_ledger d2 = db_ledger (ad_db s) \<and> ad_rac s3 = ad_rac s
      else length (db_ledger d2) \<le> length (db_ledger (ad_db s)) + 1"
    using d2(3) ct same(4) s3(3) by (cases b) auto
  have "repaired s' (res_id r)" by (cases "repaired s (res_id r)") (use rep in \<open>auto simp: fin(2) repaired_def\<close>)
  then show ?thesis using fin same pay led s3(1) by (auto split: if_splits)
qed

lemma convicted_repair:
  "fst (apply_repair plain_enforcer ''A1'' ((queued_unit ''u'' ''l'')\<lparr>wu_state := Validated\<rparr>) 1
     ((ok_result ''r2'' ''b'' ''good'')\<lparr>res_status := Disagreed\<rparr>) (pass_until_repair convicted_db)) = Inr False"
  "credit_taken (ad_db (pass_until_repair convicted_db)) ''r2''"
  by code_simp+

theorem repair_pays_once_witness:
  "let r = (ok_result ''r2'' ''b'' ''good'')\<lparr>res_status := Disagreed\<rparr>;
       s = pass_until_repair convicted_db;
       s' = snd (apply_repair plain_enforcer ''A1'' ((queued_unit ''u'' ''l'')\<lparr>wu_state := Validated\<rparr>) 1 r s)
   in db_trust (ad_db s') = db_trust (ad_db s) \<and> db_ledger (ad_db s') = db_ledger (ad_db s)"
proof -
  let ?r = "(ok_result ''r2'' ''b'' ''good'')\<lparr>res_status := Disagreed\<rparr>"
  let ?s = "pass_until_repair convicted_db"
  let ?x = "apply_repair plain_enforcer ''A1'' ((queued_unit ''u'' ''l'')\<lparr>wu_state := Validated\<rparr>) 1 ?r ?s"
  have x: "?x = (Inr False, snd ?x)" using convicted_repair(1) by (metis prod.collapse)
  have "credit_taken (ad_db ?s) (res_id ?r)" using convicted_repair(2) by (simp add: ok_result_def)
  then show ?thesis using repair_pays_once [OF x] by (simp add: Let_def)
qed

end
