(* ===== verification/Capability.thy ===== *)
theory Capability
  imports CopyStore "HOL-Library.Word"
begin

text \<open>
  A work request and whether a leaf fits the machine that makes it: \<open>AssignmentOptions\<close> of
  \<open>workunit/repository.go\<close>, the in-memory predicate \<open>leafMatchesCapabilities\<close> of
  \<open>server/dispatch_cache.go\<close>, and the clauses of \<open>assignableSelectSQL\<close> in
  \<open>workunit/pgx-repo.go\<close> it was ported from. Case and white space are those of ASCII text.
\<close>

record assignment_options =
  ao_volunteer :: uid
  ao_leaf_ids :: "uid list"
  ao_blocked_leaf_ids :: "uid list"
  ao_max_cpu_cores :: int
  ao_max_memory_mb :: int
  ao_max_disk_mb :: int
  ao_has_gpu :: bool
  ao_max_gpu_vram_mb :: int
  ao_runtimes :: "string list"
  ao_gpu_vendors :: "string list"
  ao_gpu_compute_capabilities :: "string list"
  ao_max_inflight :: int
  ao_hr_class :: string
  ao_host :: "uid option"
  ao_trust_subject :: string
  ao_benchmark_fpops :: f64
  ao_host_max_cpu_cores :: int
  ao_host_max_memory_mb :: int

definition budgets_for :: "assignment_options \<Rightarrow> string \<Rightarrow> int \<times> int" where
  "budgets_for q runtime =
     (if runtime \<noteq> '''' \<and> runtime \<noteq> runtime_native \<and> runtime \<noteq> runtime_wasm
      then (ao_max_cpu_cores q, ao_max_memory_mb q)
      else (if ao_host_max_cpu_cores q > 0 then ao_host_max_cpu_cores q else ao_max_cpu_cores q,
            if ao_host_max_memory_mb q > 0 then ao_host_max_memory_mb q else ao_max_memory_mb q))"

definition is_space :: "char \<Rightarrow> bool" where
  "is_space c \<longleftrightarrow> (of_char c :: nat) \<in> {9, 10, 11, 12, 13, 32}"

definition trim_space :: "string \<Rightarrow> string" where
  "trim_space s = rev (dropWhile is_space (rev (dropWhile is_space s)))"

definition to_upper :: "string \<Rightarrow> string" where
  "to_upper = map (\<lambda>c. let n = (of_char c :: nat) in if 97 \<le> n \<and> n \<le> 122 then char_of (n - 32) else c)"

definition leaf_matches_capabilities :: "leaf \<Rightarrow> assignment_options \<Rightarrow> bool" where
  "leaf_matches_capabilities lf q =
     (let rr = leaf_resource_requirements lf; ec = leaf_execution_config lf;
          runtime = (if ec_runtime ec = '''' then runtime_native else ec_runtime ec);
          (max_cpu, max_mem) = budgets_for q runtime in
      if rr_min_cpu_cores rr > max_cpu then False
      else if ec_max_memory_mb ec > max_mem then False
      else if rr_min_disk_mb rr > ao_max_disk_mb q then False
      else if (rr_gpu_required rr \<or> ec_gpu_required ec) \<and>
              (\<not> ao_has_gpu q \<or> rr_min_gpu_vram_mb rr > ao_max_gpu_vram_mb q) then False
      else if rr_gpu_required rr \<and>
              (case rr_gpu_compute_capability rr of
                 None \<Rightarrow> False
               | Some cc \<Rightarrow> cc \<noteq> '''' \<and> cc \<notin> set (ao_gpu_compute_capabilities q)) then False
      else if runtime \<notin> set (ao_runtimes q) then False
      else if ec_gpu_required ec \<and>
              (let t = to_upper (trim_space (ec_gpu_type ec)) in
               t \<noteq> '''' \<and> t \<noteq> gpu_type_any \<and> t \<notin> set (ao_gpu_vendors q)) then False
      else True)"

text \<open>The same rules in SQL. A row's runtime is compared as stored.\<close>

definition native_or_wasm_sql :: "execution_config \<Rightarrow> bool" where
  "native_or_wasm_sql ec \<longleftrightarrow>
     (if ec_runtime ec = '''' then runtime_native else ec_runtime ec) \<in> {runtime_native, runtime_wasm}"

definition capability_sql :: "leaf \<Rightarrow> assignment_options \<Rightarrow> bool" where
  "capability_sql lf q \<longleftrightarrow>
     (let rr = leaf_resource_requirements lf; ec = leaf_execution_config lf in
      rr_min_cpu_cores rr \<le>
        (if ao_host_max_cpu_cores q > 0 \<and> native_or_wasm_sql ec then ao_host_max_cpu_cores q else ao_max_cpu_cores q) \<and>
      ec_max_memory_mb ec \<le>
        (if ao_host_max_memory_mb q > 0 \<and> native_or_wasm_sql ec then ao_host_max_memory_mb q else ao_max_memory_mb q) \<and>
      rr_min_disk_mb rr \<le> ao_max_disk_mb q \<and>
      (\<not> rr_gpu_required rr \<and> \<not> ec_gpu_required ec \<or>
       ao_has_gpu q \<and> rr_min_gpu_vram_mb rr \<le> ao_max_gpu_vram_mb q) \<and>
      ec_runtime ec \<in> set (ao_runtimes q) \<and>
      (\<not> ec_gpu_required ec \<or> ec_gpu_type ec = gpu_type_any \<or> to_upper (ec_gpu_type ec) \<in> set (ao_gpu_vendors q)) \<and>
      (\<not> rr_gpu_required rr \<or>
       (case rr_gpu_compute_capability rr of None \<Rightarrow> True | Some cc \<Rightarrow> cc \<in> set (ao_gpu_compute_capabilities q))))"

definition meter_id :: "uid \<Rightarrow> uid option \<Rightarrow> uid" where
  "meter_id v host = (case host of Some h \<Rightarrow> h | None \<Rightarrow> v)"

definition requester_subject :: "uid \<Rightarrow> assignment_options \<Rightarrow> string" where
  "requester_subject v q =
     (if ao_trust_subject q \<noteq> '''' then ao_trust_subject q else subject_for_volunteer_id v)"

text \<open>
  The spot-check draw: \<open>draw\<close> is what the eight random bytes of one call hold, \<open>None\<close> when the
  random source fails.
\<close>

definition should_spot_check :: "64 word option \<Rightarrow> f64 \<Rightarrow> bool" where
  "should_spot_check draw percentage =
     (if percentage \<le> 0 then False
      else if percentage \<ge> 100 then True
      else case draw of
        None \<Rightarrow> True
      | Some b \<Rightarrow> rnd (rnd (of_nat (unat (drop_bit 11 b)) / 2 ^ 53) * 100) < percentage)"

end
