(* ===== verification/Decimals.thy ===== *)
theory Decimals
  imports Output
begin

text \<open>
  What the source uses of Go's \<open>strconv\<close> and \<open>strings\<close> on decimal texts: rendering a 64-bit
  integer, \<open>ParseInt(s, 10, 64)\<close> and \<open>strings.Cut\<close>.
\<close>

definition show_int :: "int \<Rightarrow> string" where
  "show_int n = (if n < 0 then CHR ''-'' # itoa (nat (- n)) else itoa (nat n))"

definition digit_value :: "char \<Rightarrow> nat option" where
  "digit_value c = (let n = (of_char c :: nat) in if 48 \<le> n \<and> n \<le> 57 then Some (n - 48) else None)"

fun parse_digits :: "nat \<Rightarrow> string \<Rightarrow> nat option" where
  "parse_digits acc [] = Some acc"
| "parse_digits acc (c # cs) =
     (case digit_value c of None \<Rightarrow> None | Some k \<Rightarrow> parse_digits (10 * acc + k) cs)"

definition parse_nat :: "string \<Rightarrow> nat option" where
  "parse_nat s = (if s = [] then None else parse_digits 0 s)"

definition int64_range :: "int \<Rightarrow> bool" where
  "int64_range n \<longleftrightarrow> - (2 ^ 63) \<le> n \<and> n < 2 ^ 63"

definition parse_int64 :: "string \<Rightarrow> int option" where
  "parse_int64 s =
     (case (case s of
              [] \<Rightarrow> None
            | c # cs \<Rightarrow>
                (if c = CHR ''-'' then map_option (\<lambda>n. - int n) (parse_nat cs)
                 else if c = CHR ''+'' then map_option int (parse_nat cs)
                 else map_option int (parse_nat s))) of
        None \<Rightarrow> None
      | Some n \<Rightarrow> (if int64_range n then Some n else None))"

definition cut_at :: "char \<Rightarrow> string \<Rightarrow> string \<times> string \<times> bool" where
  "cut_at sep s =
     (case dropWhile (\<lambda>c. c \<noteq> sep) s of
        [] \<Rightarrow> (s, [], False)
      | _ # rest \<Rightarrow> (takeWhile (\<lambda>c. c \<noteq> sep) s, rest, True))"

lemma digit_value_digit: "k < 10 \<Longrightarrow> digit_value (char_of (48 + k)) = Some k"
  by (simp add: digit_value_def)

lemma parse_digits_append: "parse_digits a (xs @ ys) = (case parse_digits a xs of None \<Rightarrow> None | Some b \<Rightarrow> parse_digits b ys)"
  by (induction xs arbitrary: a) (auto split: option.splits)

lemma parse_digits_itoa: "parse_digits 0 (itoa n) = Some n"
proof (induction n rule: less_induct)
  case (less n)
  show ?case
  proof (cases "n < 10")
    case True
    then show ?thesis by (simp add: itoa.simps [of n] digit_value_digit)
  next
    case False
    then show ?thesis using less [of "n div 10"]
      by (simp add: itoa.simps [of n] parse_digits_append digit_value_digit)
  qed
qed

lemma itoa_digits: "c \<in> set (itoa n) \<Longrightarrow> 48 \<le> (of_char c :: nat) \<and> (of_char c :: nat) \<le> 57"
proof (induction n rule: less_induct)
  case (less n)
  show ?case
  proof (cases "n < 10")
    case True
    then show ?thesis using less.prems by (simp add: itoa.simps [of n])
  next
    case False
    then show ?thesis using less.prems less.IH [of "n div 10"]
      by (auto simp: itoa.simps [of n])
  qed
qed

lemma itoa_not_Nil [simp]: "itoa n \<noteq> []"
  by (simp add: itoa.simps [of n])

lemma parse_nat_itoa [simp]: "parse_nat (itoa n) = Some n"
  by (simp add: parse_nat_def parse_digits_itoa)

lemma itoa_head: "\<exists>c cs. itoa n = c # cs \<and> c \<noteq> CHR ''-'' \<and> c \<noteq> CHR ''+''"
proof -
  obtain c cs where e: "itoa n = c # cs" by (cases "itoa n") auto
  then have "48 \<le> (of_char c :: nat)" using itoa_digits [of c n] by simp
  then show ?thesis using e by auto
qed

lemma parse_show_int: "int64_range n \<Longrightarrow> parse_int64 (show_int n) = Some n"
proof (cases "n < 0")
  case True
  then show "int64_range n \<Longrightarrow> ?thesis" by (simp add: show_int_def parse_int64_def)
next
  case False
  obtain c cs where "itoa (nat n) = c # cs" "c \<noteq> CHR ''-''" "c \<noteq> CHR ''+''" using itoa_head by blast
  then show "int64_range n \<Longrightarrow> ?thesis"
    using False parse_nat_itoa [of "nat n"] by (simp add: show_int_def parse_int64_def)
qed

lemma bar_notin_show_int: "CHR ''|'' \<notin> set (show_int n)"
proof
  assume "CHR ''|'' \<in> set (show_int n)"
  then obtain m where "CHR ''|'' \<in> set (itoa m)" by (auto simp: show_int_def split: if_splits)
  from itoa_digits [OF this] show False by simp
qed

lemma cut_at_append: "sep \<notin> set xs \<Longrightarrow> cut_at sep (xs @ sep # ys) = (xs, ys, True)"
  by (induction xs) (auto simp: cut_at_def split: list.splits)

lemma cut_at_none: "sep \<notin> set xs \<Longrightarrow> cut_at sep xs = (xs, [], False)"
proof -
  assume "sep \<notin> set xs"
  then have "dropWhile (\<lambda>c. c \<noteq> sep) xs = []" by (auto simp: dropWhile_eq_Nil_conv)
  then show ?thesis by (simp only: cut_at_def list.case)
qed

end
