(* ===== verification/DispatchQueries.thy ===== *)
theory DispatchQueries
  imports Capability Decimals
begin

text \<open>
  The dispatch queries of \<open>workunit/pgx-repo.go\<close>: the per-requester predicate
  \<open>assignableSelectSQL\<close> and its single and batch forms, the volunteer-agnostic refill with and
  without a head's dispatch claim, the batched landing write \<open>FlushReservations\<close>, and the counts the
  cache reconciles with. Rows that tie in an \<open>ORDER BY\<close> come in table order.
\<close>

subsection \<open>The refill's view of a unit\<close>

definition priority_rank :: "wu_priority \<Rightarrow> int" where
  "priority_rank p = (case p of PriNormal \<Rightarrow> 0 | PriHigh \<Rightarrow> 1 | PriCritical \<Rightarrow> 2)"

definition dispatch_order :: "work_unit list \<Rightarrow> work_unit list" where
  "dispatch_order ws = sort_key (\<lambda>w. - priority_rank (wu_priority w)) (sort_key wu_created_at ws)"

lemma set_dispatch_order [simp]: "set (dispatch_order ws) = set ws"
  by (simp add: dispatch_order_def)

lemma mset_dispatch_order [simp]: "mset (dispatch_order ws) = mset ws"
  by (simp add: dispatch_order_def)

text \<open>The trusted subjects already covering a unit: live holders by their current score, authors by the stamp.\<close>

definition trusted_live_subject :: "db \<Rightarrow> int \<Rightarrow> unit_copy \<Rightarrow> string option" where
  "trusted_live_subject d fl c =
     (case db_volunteers d (cp_volunteer c) of
        None \<Rightarrow> None
      | Some v \<Rightarrow>
          (case db_trust d (subject_expr_sql v) of
             None \<Rightarrow> None
           | Some e \<Rightarrow> (if te_score e \<ge> fl \<and> standing_expr_sql (db_now d) (Some v) = standing_ok
                        then Some (subject_expr_sql v) else None)))"

definition trusted_pending_subject :: "int \<Rightarrow> result \<Rightarrow> string option" where
  "trusted_pending_subject fl r =
     (if (case res_trust_score r of None \<Rightarrow> False | Some s \<Rightarrow> s \<ge> fl) \<and>
         (res_standing r = None \<or> res_standing r = Some standing_ok)
      then res_trust_subject r else None)"

definition trusted_contributor_subjects_sql :: "uid \<Rightarrow> int \<Rightarrow> db \<Rightarrow> string list" where
  "trusted_contributor_subjects_sql u fl d =
     remdups (List.map_filter (trusted_live_subject d fl) (live_copies_of u d) @
              List.map_filter (trusted_pending_subject fl) (pending_of u d))"

definition trusted_present_count_sql :: "uid \<Rightarrow> int \<Rightarrow> db \<Rightarrow> int" where
  "trusted_present_count_sql u fl d = int (length (trusted_contributor_subjects_sql u fl d))"

definition contributor_subjects_sql :: "uid \<Rightarrow> db \<Rightarrow> string list" where
  "contributor_subjects_sql u d =
     remdups (List.map_filter (\<lambda>c. subject_row d (cp_volunteer c)) (live_copies_of u d) @
              List.map_filter (\<lambda>r. subject_row d (res_volunteer r)) (pending_of u d))"

text \<open>
  The refused volunteers of a unit: one row per account and kind of outcome still inside its window,
  carrying the latest such outcome.
\<close>

record benched_volunteer =
  bv_volunteer :: uid
  bv_outcome_at :: time
  bv_returned :: bool

definition benched_kind :: "time \<Rightarrow> work_unit \<Rightarrow> bool \<Rightarrow> unit_copy \<Rightarrow> bool" where
  "benched_kind now w returned c \<longleftrightarrow>
     cp_unit c = wu_id w \<and>
     (case cp_outcome_at c of
        None \<Rightarrow> False
      | Some t \<Rightarrow>
          (if returned then cp_outcome c = Some OutReturned \<and> t > now - returned_reoffer_cooldown_seconds
           else cp_outcome c \<in> {Some OutExpired, Some OutAbandoned} \<and> t > now - max (wu_deadline_seconds w) 1))"

definition benched_rows :: "db \<Rightarrow> work_unit \<Rightarrow> bool \<Rightarrow> benched_volunteer list" where
  "benched_rows d w returned =
     (let cs = filter (benched_kind (db_now d) w returned) (db_copies d) in
      map (\<lambda>v. \<lparr>bv_volunteer = v,
                bv_outcome_at = Max (set (map (the \<circ> cp_outcome_at) (filter (\<lambda>c. cp_volunteer c = v) cs))),
                bv_returned = returned\<rparr>)
        (keys_of cp_volunteer cs))"

definition benched_snapshot_sql :: "db \<Rightarrow> work_unit \<Rightarrow> benched_volunteer list" where
  "benched_snapshot_sql d w = benched_rows d w False @ benched_rows d w True"

subsection \<open>The snapshot on the wire\<close>

text \<open>The text of one refused volunteer, and what the scan makes of it; \<open>parse_id\<close> is \<open>types.ParseID\<close>.\<close>

definition bench_text :: "benched_volunteer \<Rightarrow> string" where
  "bench_text b =
     bv_volunteer b @ ''|'' @ show_int (bv_outcome_at b) @ (if bv_returned b then ''|R'' else '''')"

definition parse_bench_text :: "(string \<Rightarrow> uid option) \<Rightarrow> string \<Rightarrow> benched_volunteer option" where
  "parse_bench_text parse_id t =
     (case cut_at (CHR ''|'') t of
        (id_part, rest, found) \<Rightarrow>
          (if \<not> found then None
           else case cut_at (CHR ''|'') rest of
             (epoch_part, kind, _) \<Rightarrow>
               (case parse_id id_part of
                  None \<Rightarrow> None
                | Some i \<Rightarrow>
                    (case parse_int64 epoch_part of
                       None \<Rightarrow> None
                     | Some e \<Rightarrow> Some \<lparr>bv_volunteer = i, bv_outcome_at = e, bv_returned = (kind = ''R'')\<rparr>))))"

definition parse_bench_texts :: "(string \<Rightarrow> uid option) \<Rightarrow> string list \<Rightarrow> benched_volunteer list" where
  "parse_bench_texts parse_id = List.map_filter (parse_bench_text parse_id)"

lemma parse_bench_text_text:
  assumes "parse_id (bv_volunteer b) = Some (bv_volunteer b)" "CHR ''|'' \<notin> set (bv_volunteer b)"
    "int64_range (bv_outcome_at b)"
  shows "parse_bench_text parse_id (bench_text b) = Some b"
proof -
  have "cut_at (CHR ''|'') (bench_text b) =
      (bv_volunteer b, show_int (bv_outcome_at b) @ (if bv_returned b then ''|R'' else ''''), True)"
    using cut_at_append [OF assms(2)] by (simp add: bench_text_def)
  moreover have "cut_at (CHR ''|'') (show_int (bv_outcome_at b) @ (if bv_returned b then ''|R'' else '''')) =
      (show_int (bv_outcome_at b), if bv_returned b then ''R'' else '''', bv_returned b)"
    using cut_at_append [OF bar_notin_show_int, of "bv_outcome_at b" "''R''"]
      cut_at_none [OF bar_notin_show_int, of "bv_outcome_at b"] by simp
  ultimately show ?thesis using assms(1,3) by (simp add: parse_bench_text_def parse_show_int)
qed

subsection \<open>The predicate for one requester\<close>

definition request_subject_sql :: "db \<Rightarrow> uid \<Rightarrow> string" where
  "request_subject_sql d v = (case db_volunteers d v of Some vv \<Rightarrow> subject_expr_sql vv | None \<Rightarrow> ''vol:'' @ v)"

definition live_of_machine :: "uid \<Rightarrow> db \<Rightarrow> int" where
  "live_of_machine h d = count_if (\<lambda>c. meter_id (cp_volunteer c) (cp_host c) = h \<and> cp_live c) (db_copies d)"

text \<open>The slots kept for trusted subjects: off when the leaf asks for none, open to a trusted requester.\<close>

definition trust_reservation_sql :: "trust_policy \<Rightarrow> work_unit \<Rightarrow> leaf \<Rightarrow> string \<Rightarrow> db \<Rightarrow> bool" where
  "trust_reservation_sql tp w lf subj d \<longleftrightarrow>
     (let vc = leaf_validation_config lf;
          k = eff_trust_k_sql w vc (tp_gate_enabled tp) (tp_default_min_corroborators tp);
          fl = eff_trust_floor_sql vc (tp_default_floor tp) in
      k = 0 \<or>
      (case db_trust d subj of None \<Rightarrow> False | Some e \<Rightarrow> te_score e \<ge> fl) \<or>
      countable_coverage_sql (wu_id w) d + 1 + max 0 (k - trusted_present_count_sql (wu_id w) fl d)
        \<le> eff_target_sql w vc)"

definition assignable_sql :: "trust_policy \<Rightarrow> assignment_options \<Rightarrow> db \<Rightarrow> work_unit \<Rightarrow> bool" where
  "assignable_sql tp q d w \<longleftrightarrow>
     (case db_leafs d (wu_leaf w) of
        None \<Rightarrow> False
      | Some lf \<Rightarrow>
          let v = ao_volunteer q; subj = request_subject_sql d v; u = wu_id w in
          wu_state w = Queued \<and> leaf_state lf = LActive \<and>
          (ao_leaf_ids q = [] \<or> wu_leaf w \<in> set (ao_leaf_ids q)) \<and>
          wu_leaf w \<notin> set (ao_blocked_leaf_ids q) \<and>
          (leaf_visibility lf = visibility_public \<or> wu_leaf w \<in> set (ao_leaf_ids q)) \<and>
          capability_sql lf q \<and>
          countable_coverage_sql u d < eff_target_sql w (leaf_validation_config lf) \<and>
          caps_not_exhausted_sql w lf d \<and>
          trust_reservation_sql tp w lf subj d \<and>
          \<not> (\<exists>c\<in>set (live_copies_of u d). subject_row d (cp_volunteer c) = Some subj) \<and>
          \<not> (\<exists>r\<in>set (pending_of u d). subject_row d (res_volunteer r) = Some subj) \<and>
          standing_expr_sql (db_now d) (db_volunteers d v) \<noteq> standing_benched \<and>
          cooldown_guard_sql d w v \<and>
          (ao_max_inflight q \<le> 0 \<or> live_of_machine (meter_id v (ao_host q)) d < ao_max_inflight q) \<and>
          (wu_hr_class w = None \<or> wu_hr_class w = Some '''' \<or> wu_hr_class w = Some (ao_hr_class q)) \<and>
          feasible_by_deadline (leaf_rsc_fpops_est lf) (ao_benchmark_fpops q) (wu_deadline_seconds w))"

definition find_next_assignable :: "trust_policy \<Rightarrow> assignment_options \<Rightarrow> db \<Rightarrow> work_unit option" where
  "find_next_assignable tp q d =
     (case dispatch_order (filter (assignable_sql tp q d) (db_units d)) of [] \<Rightarrow> None | w # _ \<Rightarrow> Some w)"

text \<open>
  The batch form. The nil head id (a single replica) selects without claims; otherwise the units
  another head holds a live claim on are skipped and the picked ones are claimed.
\<close>

abbreviation "nil_id \<equiv> ''00000000-0000-0000-0000-000000000000''"

definition default_claim_lease_seconds :: int where "default_claim_lease_seconds = 120"

definition lease_or_default :: "int \<Rightarrow> int" where
  "lease_or_default lease = (if lease \<le> 0 then default_claim_lease_seconds else lease)"

definition claimable_by :: "uid \<Rightarrow> time \<Rightarrow> work_unit \<Rightarrow> bool" where
  "claimable_by head now w \<longleftrightarrow>
     wu_dispatch_claimed_by w = None \<or>
     (case wu_dispatch_claim_expires_at w of None \<Rightarrow> False | Some t \<Rightarrow> t < now) \<or>
     wu_dispatch_claimed_by w = Some head"

definition claim_units :: "uid \<Rightarrow> int \<Rightarrow> uid list \<Rightarrow> db \<Rightarrow> db" where
  "claim_units head lease us d =
     update_units (\<lambda>w. wu_id w \<in> set us)
       (\<lambda>w. w\<lparr>wu_dispatch_claimed_by := Some head,
              wu_dispatch_claim_expires_at := Some (db_now d + lease_or_default lease)\<rparr>) d"

definition batch_room :: "assignment_options \<Rightarrow> int \<Rightarrow> db \<Rightarrow> int" where
  "batch_room q limit d =
     min limit (if ao_max_inflight q \<le> 0 then limit
                else max 0 (ao_max_inflight q - live_of_machine (meter_id (ao_volunteer q) (ao_host q)) d))"

definition find_assignable_batch ::
  "trust_policy \<Rightarrow> uid \<Rightarrow> int \<Rightarrow> assignment_options \<Rightarrow> int \<Rightarrow> uid list \<Rightarrow> db \<Rightarrow> work_unit list \<times> db" where
  "find_assignable_batch tp head lease q limit exclude d =
     (if limit \<le> 0 then ([], d)
      else
        let ok = (\<lambda>w. assignable_sql tp q d w \<and> wu_id w \<notin> set exclude \<and>
                      (head = nil_id \<or> claimable_by head (db_now d) w));
            picked = take (nat (batch_room q limit d)) (dispatch_order (filter ok (db_units d))) in
        if head = nil_id then (picked, d)
        else let d' = claim_units head lease (map wu_id picked) d in
             (dispatch_order (filter (\<lambda>w. wu_id w \<in> set (map wu_id picked)) (db_units d')), d'))"

subsection \<open>The refill\<close>

record dispatch_candidate =
  dcd_unit :: work_unit
  dcd_redundancy :: int
  dcd_active :: int
  dcd_probation :: int
  dcd_contributors :: "string list"
  dcd_benched :: "benched_volunteer list"
  dcd_trusted :: "string list"
  dcd_trust_k :: int
  dcd_trust_floor :: int

definition dispatchable_sql :: "uid list \<Rightarrow> uid list \<Rightarrow> db \<Rightarrow> work_unit \<Rightarrow> bool" where
  "dispatchable_sql exclude leafs d w \<longleftrightarrow>
     (case db_leafs d (wu_leaf w) of
        None \<Rightarrow> False
      | Some lf \<Rightarrow>
          wu_state w = Queued \<and> leaf_state lf = LActive \<and> wu_id w \<notin> set exclude \<and>
          (leafs = [] \<or> wu_leaf w \<in> set leafs) \<and>
          (leaf_visibility lf = visibility_public \<or> wu_leaf w \<in> set leafs) \<and>
          countable_coverage_sql (wu_id w) d < eff_target_sql w (leaf_validation_config lf) \<and>
          caps_not_exhausted_sql w lf d)"

definition candidate_row :: "trust_policy \<Rightarrow> db \<Rightarrow> work_unit \<Rightarrow> dispatch_candidate option" where
  "candidate_row tp d w =
     (case db_leafs d (wu_leaf w) of
        None \<Rightarrow> None
      | Some lf \<Rightarrow>
          let vc = leaf_validation_config lf; u = wu_id w;
              fl = eff_trust_floor_sql vc (tp_default_floor tp) in
          Some \<lparr>dcd_unit = w, dcd_redundancy = eff_target_sql w vc,
                dcd_active = count_live_copies u d + count_pending_by_work_unit u d,
                dcd_probation = non_countable_coverage_sql u d,
                dcd_contributors = contributor_subjects_sql u d,
                dcd_benched = benched_snapshot_sql d w,
                dcd_trusted = trusted_contributor_subjects_sql u fl d,
                dcd_trust_k = eff_trust_k_sql w vc (tp_gate_enabled tp) (tp_default_min_corroborators tp),
                dcd_trust_floor = fl\<rparr>)"

definition find_dispatchable_batch ::
  "trust_policy \<Rightarrow> int \<Rightarrow> uid list \<Rightarrow> uid list \<Rightarrow> db \<Rightarrow> dispatch_candidate list" where
  "find_dispatchable_batch tp limit exclude leafs d =
     (if limit \<le> 0 then []
      else List.map_filter (candidate_row tp d)
        (take (nat limit) (dispatch_order (filter (dispatchable_sql exclude leafs d) (db_units d)))))"

text \<open>Rows come back from the claiming update in table order: \<open>RETURNING\<close> has no \<open>ORDER BY\<close>.\<close>

definition claim_dispatchable_batch ::
  "trust_policy \<Rightarrow> uid \<Rightarrow> int \<Rightarrow> int \<Rightarrow> uid list \<Rightarrow> uid list \<Rightarrow> db \<Rightarrow> dispatch_candidate list \<times> db" where
  "claim_dispatchable_batch tp head lease limit exclude leafs d =
     (if limit \<le> 0 then ([], d)
      else
        let ok = (\<lambda>w. dispatchable_sql exclude leafs d w \<and> claimable_by head (db_now d) w);
            picked = map wu_id (take (nat limit) (dispatch_order (filter ok (db_units d))));
            d' = claim_units head lease picked d in
        (List.map_filter (candidate_row tp d) (filter (\<lambda>w. wu_id w \<in> set picked) (db_units d')), d'))"

definition clear_expired_dispatch_claims :: "(db, int) op" where
  "clear_expired_dispatch_claims d =
     (let sel = (\<lambda>w. wu_dispatch_claimed_by w \<noteq> None \<and>
                     (case wu_dispatch_claim_expires_at w of None \<Rightarrow> False | Some t \<Rightarrow> t < db_now d)) in
      (Inr (count_if sel (db_units d)),
       update_units sel (\<lambda>w. w\<lparr>wu_dispatch_claimed_by := None, wu_dispatch_claim_expires_at := None\<rparr>) d))"

subsection \<open>The landing write\<close>

record flush_reservation =
  fl_unit :: uid
  fl_volunteer :: uid
  fl_host :: "uid option"
  fl_until :: time
  fl_deadline :: int

text \<open>\<open>DISTINCT ON (unit, subject)\<close> after the join with the volunteers: the first row of each pair.\<close>

definition flush_key :: "db \<Rightarrow> flush_reservation \<Rightarrow> uid \<times> string option" where
  "flush_key d r = (fl_unit r, subject_row d (fl_volunteer r))"

fun first_per_key :: "('a \<Rightarrow> 'k) \<Rightarrow> 'k list \<Rightarrow> 'a list \<Rightarrow> 'a list" where
  "first_per_key f seen [] = []"
| "first_per_key f seen (x # xs) =
     (if f x \<in> set seen then first_per_key f seen xs else x # first_per_key f (f x # seen) xs)"

definition deduplicated :: "db \<Rightarrow> flush_reservation list \<Rightarrow> flush_reservation list" where
  "deduplicated d recs = first_per_key (flush_key d) [] (filter (\<lambda>r. db_volunteers d (fl_volunteer r) \<noteq> None) recs)"

definition flush_guard :: "trust_policy \<Rightarrow> db \<Rightarrow> flush_reservation \<Rightarrow> bool" where
  "flush_guard tp d r \<longleftrightarrow>
     reserve_guard d (fl_unit r) (fl_volunteer r) \<and>
     (case find_unit (fl_unit r) d of
        None \<Rightarrow> False
      | Some w \<Rightarrow>
          (case db_leafs d (wu_leaf w) of
             None \<Rightarrow> False
           | Some lf \<Rightarrow>
               countable_coverage_sql (fl_unit r) d < eff_target_sql w (leaf_validation_config lf) \<and>
               trust_reservation_sql tp w lf (request_subject_sql d (fl_volunteer r)) d))"

text \<open>
  Every guard reads the table as it was before the statement; \<open>ON CONFLICT DO NOTHING\<close> reads the live
  rows inserted so far. \<open>ids\<close> names the rows the database creates.
\<close>

definition live_copy_of :: "uid \<Rightarrow> uid \<Rightarrow> db \<Rightarrow> bool" where
  "live_copy_of u v d \<longleftrightarrow> (\<exists>c\<in>set (db_copies d). cp_unit c = u \<and> cp_volunteer c = v \<and> cp_outcome c = None)"

definition land_one :: "uid \<Rightarrow> flush_reservation \<Rightarrow> db \<Rightarrow> bool \<times> db" where
  "land_one i r d =
     (if live_copy_of (fl_unit r) (fl_volunteer r) d then (False, d)
      else (True, d\<lparr>db_copies := db_copies d @
             [new_copy (db_now d) i (fl_unit r) (fl_volunteer r) (fl_host r) (fl_until r) (fl_deadline r)]\<rparr>))"

fun land_all :: "(nat \<Rightarrow> uid) \<Rightarrow> nat \<Rightarrow> flush_reservation list \<Rightarrow> db \<Rightarrow> (uid \<times> uid) list \<times> db" where
  "land_all ids n [] d = ([], d)"
| "land_all ids n (r # rs) d =
     (case land_one (ids n) r d of
        (landed, d') \<Rightarrow>
          (case land_all ids (n + 1) rs d' of
             (ps, d'') \<Rightarrow> (if landed then (fl_unit r, fl_volunteer r) # ps else ps, d'')))"

definition renew_claims :: "uid \<Rightarrow> int \<Rightarrow> uid list \<Rightarrow> db \<Rightarrow> db" where
  "renew_claims head lease us d =
     (if head = nil_id then d
      else update_units (\<lambda>w. wu_id w \<in> set us \<and> wu_dispatch_claimed_by w = Some head)
             (\<lambda>w. w\<lparr>wu_dispatch_claim_expires_at := Some (db_now d + lease_or_default lease)\<rparr>) d)"

definition flush_reservations ::
  "trust_policy \<Rightarrow> uid \<Rightarrow> int \<Rightarrow> (nat \<Rightarrow> uid) \<Rightarrow> flush_reservation list \<Rightarrow> db \<Rightarrow> (uid \<times> uid) list \<times> db" where
  "flush_reservations tp head lease ids recs d =
     (if recs = [] then ([], d)
      else case land_all ids 0 (filter (flush_guard tp d) (deduplicated d recs)) d of
        (landed, d') \<Rightarrow> (landed, renew_claims head lease (map fl_unit recs) d'))"

definition count_active_by_host :: "db \<Rightarrow> uid \<Rightarrow> int" where
  "count_active_by_host d h = live_of_machine h d"

definition count_active_by_volunteer :: "db \<Rightarrow> uid \<Rightarrow> int" where
  "count_active_by_volunteer d v = count_if (\<lambda>c. cp_volunteer c = v \<and> cp_live c) (db_copies d)"

subsection \<open>What the landing write leaves\<close>

lemma first_per_key_avoids: "x \<in> set (first_per_key f seen xs) \<Longrightarrow> f x \<notin> set seen"
proof (induction xs arbitrary: seen)
  case (Cons a xs)
  then show ?case using Cons.IH [of seen] Cons.IH [of "f a # seen"] by (auto split: if_splits)
qed simp

lemma first_per_key_subset: "set (first_per_key f seen xs) \<subseteq> set xs"
  by (induction xs arbitrary: seen) auto

lemma first_per_key_distinct: "distinct (map f (first_per_key f seen xs))"
proof (induction xs arbitrary: seen)
  case (Cons x xs)
  have "f x \<notin> f ` set (first_per_key f (f x # seen) xs)" using first_per_key_avoids by fastforce
  then show ?case using Cons by simp
qed simp

lemma distinct_map_filter: "distinct (map f xs) \<Longrightarrow> distinct (map f (filter P xs))"
  by (induction xs) auto

lemma subject_row_copies [simp]: "subject_row (d\<lparr>db_copies := cs\<rparr>) = subject_row d"
  by (simp add: subject_row_def [abs_def])

lemma subject_row_units [simp]: "subject_row (update_units P f d) = subject_row d"
  by (simp add: subject_row_def [abs_def] update_units_def)

lemma live_subjects_snoc:
  "cp_live c \<Longrightarrow> live_subjects u (d\<lparr>db_copies := db_copies d @ [c]\<rparr>) =
     live_subjects u d @ (if cp_unit c = u then [subject_row d (cp_volunteer c)] else [])"
  by (simp add: live_subjects_def live_copies_of_def)

lemma pending_subjects_copies [simp]: "pending_subjects u (d\<lparr>db_copies := cs\<rparr>) = pending_subjects u d"
  by (simp add: pending_subjects_def pending_of_def)


lemma new_copy_fields [simp]:
  "cp_unit (new_copy t i u v h ru dl) = u" "cp_volunteer (new_copy t i u v h ru dl) = v"
  "cp_live (new_copy t i u v h ru dl)" "cp_outcome (new_copy t i u v h ru dl) = None"
  by (simp_all add: new_copy_def cp_live_def)

text \<open>Landing rows with distinct keys, none of whose subjects holds a slot, keeps the slots distinct.\<close>

lemma land_all_slots:
  assumes "slots_distinct u d" "distinct (map (flush_key d) rs)"
    "\<And>r. r \<in> set rs \<Longrightarrow> fl_unit r = u \<Longrightarrow>
       subject_row d (fl_volunteer r) \<notin> set (live_subjects u d) \<union> set (pending_subjects u d)"
  shows "slots_distinct u (snd (land_all ids n rs d))"
  using assms
proof (induction rs arbitrary: n d)
  case (Cons r rs)
  show ?case
  proof (cases "live_copy_of (fl_unit r) (fl_volunteer r) d")
    case True
    then show ?thesis using Cons.IH [of d "n + 1"] Cons.prems
      by (auto simp: land_one_def split: prod.splits)
  next
    case False
    let ?c = "new_copy (db_now d) (ids n) (fl_unit r) (fl_volunteer r) (fl_host r) (fl_until r) (fl_deadline r)"
    let ?d = "d\<lparr>db_copies := db_copies d @ [?c]\<rparr>"
    have keys: "flush_key ?d = flush_key d" by (rule ext) (simp add: flush_key_def)
    have "slots_distinct u ?d"
      using Cons.prems(1,3) by (auto simp: slots_distinct_def live_subjects_snoc)
    moreover have "distinct (map (flush_key ?d) rs)" using Cons.prems(2) by (simp add: keys)
    moreover have "subject_row ?d (fl_volunteer x) \<notin> set (live_subjects u ?d) \<union> set (pending_subjects u ?d)"
      if "x \<in> set rs" "fl_unit x = u" for x
    proof -
      have "flush_key d x \<noteq> flush_key d r" using Cons.prems(2) that(1) by (auto simp: image_iff)
      then show ?thesis using Cons.prems(3) [of x] that
        by (auto simp: live_subjects_snoc flush_key_def)
    qed
    ultimately have "slots_distinct u (snd (land_all ids (n + 1) rs ?d))" by (rule Cons.IH)
    then show ?thesis using False by (auto simp: land_one_def split: prod.splits)
  qed
qed simp

lemma slots_distinct_renew [simp]: "slots_distinct u (renew_claims h l us d) = slots_distinct u d"
  by (simp add: renew_claims_def slots_distinct_def live_subjects_def pending_subjects_def)

lemma flush_guard_slots:
  assumes "flush_guard tp d r" "fl_unit r = u"
  shows "subject_row d (fl_volunteer r) \<notin> set (live_subjects u d) \<union> set (pending_subjects u d)"
proof -
  have "reserve_guard d u (fl_volunteer r)" using assms by (simp add: flush_guard_def)
  then obtain vv where "db_volunteers d (fl_volunteer r) = Some vv"
    "\<And>r. r \<in> set (pending_of u d) \<Longrightarrow> subject_row d (res_volunteer r) \<noteq> Some (subject_expr_sql vv)"
    "\<And>c. c \<in> set (live_copies_of u d) \<Longrightarrow> subject_row d (cp_volunteer c) \<noteq> Some (subject_expr_sql vv)"
    by (metis reserve_guardD)
  then have "subject_row d (fl_volunteer r) = Some (subject_expr_sql vv)"
    "Some (subject_expr_sql vv) \<notin> set (live_subjects u d)" "Some (subject_expr_sql vv) \<notin> set (pending_subjects u d)"
    unfolding live_subjects_def pending_subjects_def set_map image_iff by (simp add: subject_row_def, metis+)
  then show ?thesis by simp
qed

lemma land_all_pairs:
  "set (fst (land_all ids n rs d)) \<subseteq> (\<lambda>r. (fl_unit r, fl_volunteer r)) ` set rs \<and>
   (\<forall>u v. live_copy_of u v (snd (land_all ids n rs d)) \<longleftrightarrow> live_copy_of u v d \<or> (u, v) \<in> set (fst (land_all ids n rs d))) \<and>
   (\<forall>u v. (u, v) \<in> set (fst (land_all ids n rs d)) \<longrightarrow> \<not> live_copy_of u v d)"
proof (induction rs arbitrary: n d)
  case (Cons r rs)
  let ?c = "new_copy (db_now d) (ids n) (fl_unit r) (fl_volunteer r) (fl_host r) (fl_until r) (fl_deadline r)"
  let ?d = "if live_copy_of (fl_unit r) (fl_volunteer r) d then d else d\<lparr>db_copies := db_copies d @ [?c]\<rparr>"
  have step: "fst (land_all ids n (r # rs) d) =
      (if live_copy_of (fl_unit r) (fl_volunteer r) d then [] else [(fl_unit r, fl_volunteer r)]) @ fst (land_all ids (n + 1) rs ?d)"
    "snd (land_all ids n (r # rs) d) = snd (land_all ids (n + 1) rs ?d)"
    by (auto simp: land_one_def split: prod.splits)
  have live: "live_copy_of u v ?d \<longleftrightarrow> live_copy_of u v d \<or> u = fl_unit r \<and> v = fl_volunteer r" for u v
    by (auto simp: live_copy_of_def)
  define D where "D = ?d"
  define B where "B = live_copy_of (fl_unit r) (fl_volunteer r) d"
  obtain P T where PT: "P = fst (land_all ids (n + 1) rs D)" "T = snd (land_all ids (n + 1) rs D)" by blast
  have "live_copy_of u v D \<longleftrightarrow> live_copy_of u v d \<or> u = fl_unit r \<and> v = fl_volunteer r" for u v
    using live by (simp add: D_def)
  moreover note Cons.IH [of "n + 1" D, folded PT]
  moreover have "fst (land_all ids n (r # rs) d) = (if B then [] else [(fl_unit r, fl_volunteer r)]) @ P"
    "snd (land_all ids n (r # rs) d) = T"
    unfolding step PT D_def B_def by simp_all
  moreover have "B \<longleftrightarrow> live_copy_of (fl_unit r) (fl_volunteer r) d" by (simp add: B_def)
  ultimately show ?case by (simp only:) auto
qed simp

lemma live_copy_of_renew [simp]: "live_copy_of u v (renew_claims h l us d) = live_copy_of u v d"
  by (simp add: renew_claims_def live_copy_of_def)

text \<open>The landed pairs are exactly the live copies the write adds.\<close>

lemma flush_lands_exactly:
  assumes "flush_reservations tp head lease ids recs d = (landed, d')"
  shows "live_copy_of u v d' \<longleftrightarrow> live_copy_of u v d \<or> (u, v) \<in> set landed"
    "(u, v) \<in> set landed \<Longrightarrow> \<not> live_copy_of u v d"
    "set landed \<subseteq> (\<lambda>r. (fl_unit r, fl_volunteer r)) ` set (filter (flush_guard tp d) recs)"
proof -
  have sub: "set (filter (flush_guard tp d) (deduplicated d recs)) \<subseteq> set (filter (flush_guard tp d) recs)"
    using first_per_key_subset by (fastforce simp: deduplicated_def)
  let ?rs = "filter (flush_guard tp d) (deduplicated d recs)"
  note L = land_all_pairs [where ids = ids and n = 0 and rs = ?rs and d = d]
  have "landed = fst (land_all ids 0 ?rs d) \<and> d' = renew_claims head lease (map fl_unit recs) (snd (land_all ids 0 ?rs d)) \<or>
      recs = [] \<and> landed = [] \<and> d' = d"
    using assms by (auto simp: flush_reservations_def split: prod.splits if_splits)
  then show "live_copy_of u v d' \<longleftrightarrow> live_copy_of u v d \<or> (u, v) \<in> set landed"
    "(u, v) \<in> set landed \<Longrightarrow> \<not> live_copy_of u v d"
    "set landed \<subseteq> (\<lambda>r. (fl_unit r, fl_volunteer r)) ` set (filter (flush_guard tp d) recs)"
    using L image_mono [OF sub, of "\<lambda>r. (fl_unit r, fl_volunteer r)"] by auto
qed

end
