(* ===== verification/DispatchCache.thy ===== *)
theory DispatchCache
  imports DispatchQueries
begin

text \<open>
  The in-memory dispatch cache of one replica (\<open>server/dispatch_cache.go\<close>, with
  \<open>dispatch_no_work_reason.go\<close> and \<open>dispatch_requester_fallback.go\<close>): the ready pool, the holds handed
  out of it, the per-machine in-flight counts and the queued landing writes. Each definition is one
  critical section of the mutex. The two-level map of holds is the table \<open>dc_holds\<close> of its entries
  (the code drops an inner map that becomes empty, so a unit is held iff it has an entry); the sets of
  subjects are lists. Admission semaphores and logging are not modelled.
\<close>

subsection \<open>State\<close>

record bench_entry =
  be_until :: time
  be_fallback_at :: time

record candidate =
  cd_unit :: work_unit
  cd_redundancy :: int
  cd_active :: int
  cd_probation :: int
  cd_contributors :: "string list"
  cd_benched :: "uid \<rightharpoonup> bench_entry"
  cd_trust_k :: int
  cd_trust_floor :: int
  cd_trusted :: "string list"
  cd_run_started :: "string list"

record held_copy =
  hc_unit :: uid
  hc_account :: uid
  hc_until :: time
  hc_host :: uid
  hc_subject :: string

record spot_check_write =
  sc_unit :: uid
  sc_volunteer :: uid
  sc_host :: "uid option"
  sc_until :: time

record cache_config =
  cf_ready_pool_size :: int
  cf_low_watermark :: int
  cf_refill_batch :: int
  cf_flush_batch :: nat
  cf_lease_seconds :: int
  cf_min_send_interval :: int
  cf_leaf_ttl :: int
  cf_quota_enabled :: bool
  cf_reliability_floor :: int
  cf_inflight_per_core :: int

record standing_entry =
  se_standing :: string
  se_benched_until :: "time option"

record held_report =
  hp_units :: "uid list"
  hp_account :: uid
  hp_at :: time

record dcache =
  dc_ready :: "candidate list"
  dc_holds :: "held_copy list"
  dc_inflight :: "uid \<Rightarrow> int"
  dc_last_hand_out :: "uid \<rightharpoonup> time"
  dc_pending :: "flush_reservation list"
  dc_spot :: "spot_check_write list"
  dc_trust_scores :: "string \<Rightarrow> int"
  dc_standing :: "uid \<rightharpoonup> standing_entry"
  dc_leafs :: "uid \<rightharpoonup> leaf \<times> time"
  dc_scores :: "uid \<rightharpoonup> f64"
  dc_fallback_runs :: "uid \<times> string \<rightharpoonup> time \<times> bool"
  dc_trust_at :: "time option"
  dc_standing_at :: "time option"
  dc_held_reports :: "(uid \<times> held_report) list"
  dc_now :: time

definition bench_entry_for :: "time \<Rightarrow> bool \<Rightarrow> int \<Rightarrow> bench_entry" where
  "bench_entry_for outcome_at returned deadline =
     (let window = (if deadline < 1 then 1 else deadline);
          window = (if returned then returned_reoffer_cooldown_seconds else window) in
      \<lparr>be_until = outcome_at + window, be_fallback_at = outcome_at + bench_pool_exhausted_grace_seconds\<rparr>)"

definition merge_bench :: "bench_entry \<Rightarrow> bench_entry option \<Rightarrow> bench_entry" where
  "merge_bench e prev =
     (case prev of
        None \<Rightarrow> e
      | Some p \<Rightarrow> \<lparr>be_until = (if be_until p > be_until e then be_until p else be_until e),
                   be_fallback_at = (if be_fallback_at p > be_fallback_at e then be_fallback_at p else be_fallback_at e)\<rparr>)"

definition bench_set :: "benched_volunteer list \<Rightarrow> int \<Rightarrow> uid \<rightharpoonup> bench_entry" where
  "bench_set bs deadline =
     fold (\<lambda>b m. m(bv_volunteer b \<mapsto> merge_bench (bench_entry_for (bv_outcome_at b) (bv_returned b) deadline)
                                        (m (bv_volunteer b)))) bs Map.empty"

definition candidate_of :: "dispatch_candidate \<Rightarrow> candidate" where
  "candidate_of dc =
     \<lparr>cd_unit = dcd_unit dc, cd_redundancy = dcd_redundancy dc, cd_active = dcd_active dc,
      cd_probation = dcd_probation dc, cd_contributors = dcd_contributors dc,
      cd_benched = bench_set (dcd_benched dc) (wu_deadline_seconds (dcd_unit dc)),
      cd_trust_k = dcd_trust_k dc, cd_trust_floor = dcd_trust_floor dc, cd_trusted = dcd_trusted dc,
      cd_run_started = []\<rparr>"

abbreviation cd_id :: "candidate \<Rightarrow> uid" where "cd_id cd \<equiv> wu_id (cd_unit cd)"

subsection \<open>Reading the cache\<close>

definition holders_of :: "uid \<Rightarrow> dcache \<Rightarrow> held_copy list" where
  "holders_of u c = filter (\<lambda>h. hc_unit h = u) (dc_holds c)"

definition held :: "uid \<Rightarrow> dcache \<Rightarrow> bool" where
  "held u c \<longleftrightarrow> holders_of u c \<noteq> []"

definition in_mem_holder_cap :: "candidate \<Rightarrow> int" where "in_mem_holder_cap cd = cd_redundancy cd"

definition standing_of :: "uid \<Rightarrow> dcache \<Rightarrow> string" where
  "standing_of a c =
     (case dc_standing c a of
        None \<Rightarrow> standing_ok
      | Some e \<Rightarrow> effective_standing (se_standing e) (se_benched_until e) (dc_now c))"

definition countable_holders :: "held_copy list \<Rightarrow> dcache \<Rightarrow> int" where
  "countable_holders hs c = count_if (\<lambda>h. standing_of (hc_account h) c = standing_ok) hs"

definition trusted_present :: "candidate \<Rightarrow> dcache \<Rightarrow> int" where
  "trusted_present cd c =
     int (length (remdups
       (cd_trusted cd @
        map hc_subject (filter (\<lambda>h. hc_subject h \<noteq> '''' \<and> dc_trust_scores c (hc_subject h) \<ge> cd_trust_floor cd \<and>
             standing_of (hc_account h) c = standing_ok) (holders_of (cd_id cd) c)) @
        filter (\<lambda>s. dc_trust_scores c s \<ge> cd_trust_floor cd) (cd_run_started cd))))"

definition peek_leaf :: "uid \<Rightarrow> dcache \<Rightarrow> leaf option" where
  "peek_leaf l c = map_option fst (dc_leafs c l)"

definition peek_leaf_fresh :: "cache_config \<Rightarrow> uid \<Rightarrow> dcache \<Rightarrow> leaf option \<times> bool" where
  "peek_leaf_fresh cf l c =
     (case dc_leafs c l of None \<Rightarrow> (None, False) | Some (lf, fetched) \<Rightarrow> (Some lf, dc_now c - fetched < cf_leaf_ttl cf))"

definition hidden_leaf :: "leaf \<Rightarrow> bool" where
  "hidden_leaf lf \<longleftrightarrow> leaf_visibility lf = visibility_unlisted \<or> leaf_visibility lf = visibility_private"

definition leaf_visible_fresh :: "cache_config \<Rightarrow> uid \<Rightarrow> dcache \<Rightarrow> bool" where
  "leaf_visible_fresh cf l c =
     (case peek_leaf_fresh cf l c of (Some lf, True) \<Rightarrow> \<not> hidden_leaf lf | _ \<Rightarrow> False)"

definition excluded_ids :: "dcache \<Rightarrow> uid list" where
  "excluded_ids c = map cd_id (dc_ready c) @ keys_of hc_unit (dc_holds c)"

subsection \<open>May this requester have this unit?\<close>

datatype reject_reason =
    RejectNone | RejectRedundancyFull | RejectHolderCap | RejectSelfHeld | RejectAlreadyContributed | RejectBenched
  | RejectInflightCap | RejectLeafFilter | RejectBlockedLeaf | RejectHRClassMismatch | RejectLeafNotCached
  | RejectLeafNotPublic | RejectLeafSnapshotStale | RejectCapabilityMismatch | RejectInfeasibleDeadline
  | RejectTrustReserved | RejectStandingBenched

definition countable_coverage :: "candidate \<Rightarrow> dcache \<Rightarrow> int" where
  "countable_coverage cd c =
     (let n = cd_active cd - cd_probation cd + countable_holders (holders_of (cd_id cd) c) c in
      if n < 0 then 0 else n)"

definition trust_reserved :: "string \<Rightarrow> candidate \<Rightarrow> dcache \<Rightarrow> bool" where
  "trust_reserved subj cd c \<longleftrightarrow>
     cd_trust_k cd > 0 \<and> dc_trust_scores c subj < cd_trust_floor cd \<and>
     (let r = cd_trust_k cd - trusted_present cd c; r = (if r < 0 then 0 else r) in
      countable_coverage cd c + 1 + r > cd_redundancy cd)"

definition bench_refuses :: "uid \<Rightarrow> candidate \<Rightarrow> dcache \<Rightarrow> bool" where
  "bench_refuses v cd c \<longleftrightarrow>
     (case cd_benched cd v of
        None \<Rightarrow> False
      | Some e \<Rightarrow> dc_now c < be_until e \<and> \<not> (holders_of (cd_id cd) c = [] \<and> dc_now c > be_fallback_at e))"

definition eligible ::
  "cache_config \<Rightarrow> uid \<Rightarrow> uid \<Rightarrow> assignment_options \<Rightarrow> candidate \<Rightarrow> dcache \<Rightarrow> reject_reason" where
  "eligible cf v host q cd c =
     (let u = cd_unit cd; l = wu_leaf u; subj = requester_subject v q; holders = holders_of (wu_id u) c in
      if ao_leaf_ids q \<noteq> [] \<and> l \<notin> set (ao_leaf_ids q) then RejectLeafFilter
      else if l \<in> set (ao_blocked_leaf_ids q) then RejectBlockedLeaf
      else if countable_coverage cd c \<ge> cd_redundancy cd then RejectRedundancyFull
      else if int (length holders) \<ge> in_mem_holder_cap cd then RejectHolderCap
      else if trust_reserved subj cd c then RejectTrustReserved
      else if v \<in> hc_account ` set holders then RejectSelfHeld
      else if subj \<in> hc_subject ` set holders then RejectSelfHeld
      else if subj \<in> set (cd_contributors cd) then RejectAlreadyContributed
      else if bench_refuses v cd c then RejectBenched
      else if standing_of v c = standing_benched then RejectStandingBenched
      else if ao_max_inflight q > 0 \<and> dc_inflight c host \<ge> ao_max_inflight q then RejectInflightCap
      else if (case wu_hr_class u of None \<Rightarrow> False | Some h \<Rightarrow> h \<noteq> '''' \<and> h \<noteq> ao_hr_class q) then RejectHRClassMismatch
      else case peek_leaf_fresh cf l c of
        (None, _) \<Rightarrow> RejectLeafNotCached
      | (Some lf, fresh) \<Rightarrow>
          (if l \<notin> set (ao_leaf_ids q) \<and> hidden_leaf lf then RejectLeafNotPublic
           else if l \<notin> set (ao_leaf_ids q) \<and> \<not> fresh then RejectLeafSnapshotStale
           else if \<not> leaf_matches_capabilities lf q then RejectCapabilityMismatch
           else if \<not> feasible_by_deadline (leaf_rsc_fpops_est lf) (ao_benchmark_fpops q) (wu_deadline_seconds u)
             then RejectInfeasibleDeadline
           else RejectNone))"

subsection \<open>The machine's in-flight cap\<close>

definition inflight_ceiling :: "cache_config \<Rightarrow> assignment_options \<Rightarrow> int" where
  "inflight_ceiling cf q =
     (let cores = (if ao_host_max_cpu_cores q > ao_max_cpu_cores q then ao_host_max_cpu_cores q else ao_max_cpu_cores q) in
      ceiling_for (ao_max_inflight q) (cf_inflight_per_core cf) cores (int (length (ao_gpu_vendors q))))"

definition effective_inflight_cap :: "cache_config \<Rightarrow> uid \<Rightarrow> int \<Rightarrow> int \<Rightarrow> dcache \<Rightarrow> int" where
  "effective_inflight_cap cf host flat_cap ceil c =
     (if \<not> cf_quota_enabled cf \<or> flat_cap \<le> 0 then flat_cap
      else case dc_scores c host of
        Some score \<Rightarrow> scaled_budget score (cf_reliability_floor cf) flat_cap ceil default_ramp_units
      | None \<Rightarrow> (if cf_reliability_floor cf < flat_cap then cf_reliability_floor cf else flat_cap))"

definition resolved_options :: "cache_config \<Rightarrow> uid \<Rightarrow> uid \<Rightarrow> assignment_options \<Rightarrow> dcache \<Rightarrow> assignment_options" where
  "resolved_options cf v host q c =
     (let cap = effective_inflight_cap cf host (ao_max_inflight q) (inflight_ceiling cf q) c;
          cap = (if cf_quota_enabled cf \<and> cap > cf_reliability_floor cf \<and> standing_of v c \<noteq> standing_ok
                 then cf_reliability_floor cf else cap) in
      q\<lparr>ao_max_inflight := cap\<rparr>)"

subsection \<open>Why a reply is empty\<close>

datatype no_work_reason =
    NoWorkUnspecified | NoWorkAccountBenched "time option" | NoWorkInflightCap | NoWorkInfeasibleDeadline int int
  | NoWorkBenchCooldown | NoWorkAlreadyContributed

datatype no_work_scope = ScopeNone | ScopeNamed | ScopeAnyLeaf

definition no_work_scope_of :: "cache_config \<Rightarrow> assignment_options \<Rightarrow> dcache \<Rightarrow> no_work_scope" where
  "no_work_scope_of cf q c =
     (if ao_leaf_ids q = [] then ScopeAnyLeaf
      else if (\<exists>l\<in>set (ao_leaf_ids q). \<not> leaf_visible_fresh cf l c) then ScopeNone
      else ScopeNamed)"

record no_work_tally =
  nt_cap_binding :: bool
  nt_contributed :: int
  nt_cooldown :: int
  nt_infeasible :: int
  nt_deadline :: int
  nt_estimated :: int
  nt_other :: int

definition empty_tally :: no_work_tally where
  "empty_tally = \<lparr>nt_cap_binding = False, nt_contributed = 0, nt_cooldown = 0, nt_infeasible = 0,
     nt_deadline = 0, nt_estimated = 0, nt_other = 0\<rparr>"

definition count_reason ::
  "assignment_options \<Rightarrow> candidate \<Rightarrow> dcache \<Rightarrow> reject_reason \<Rightarrow> no_work_tally \<Rightarrow> no_work_tally" where
  "count_reason q cd c reason t =
     (case reason of
        RejectAlreadyContributed \<Rightarrow> t\<lparr>nt_contributed := nt_contributed t + 1\<rparr>
      | RejectSelfHeld \<Rightarrow> t\<lparr>nt_contributed := nt_contributed t + 1\<rparr>
      | RejectBenched \<Rightarrow> t\<lparr>nt_cooldown := nt_cooldown t + 1\<rparr>
      | RejectInfeasibleDeadline \<Rightarrow>
          (let t1 = (if nt_infeasible t = 0
                     then (let t0 = t\<lparr>nt_deadline := wu_deadline_seconds (cd_unit cd)\<rparr> in
                           case peek_leaf (wu_leaf (cd_unit cd)) c of
                             Some lf \<Rightarrow>
                               (if ao_benchmark_fpops q > 0
                                then t0\<lparr>nt_estimated := \<lceil>rnd (leaf_rsc_fpops_est lf / ao_benchmark_fpops q)\<rceil>\<rparr> else t0)
                           | None \<Rightarrow> t0)
                     else t) in
           t1\<lparr>nt_infeasible := nt_infeasible t1 + 1\<rparr>)
      | _ \<Rightarrow> t\<lparr>nt_other := nt_other t + 1\<rparr>)"

definition note_reject ::
  "cache_config \<Rightarrow> uid \<Rightarrow> uid \<Rightarrow> assignment_options \<Rightarrow> no_work_scope \<Rightarrow> candidate \<Rightarrow> reject_reason \<Rightarrow> dcache \<Rightarrow>
   no_work_tally \<Rightarrow> no_work_tally" where
  "note_reject cf v host nocap scope cd reason c t =
     (if scope = ScopeNone \<or> nt_cap_binding t then t
      else if reason = RejectLeafFilter \<or> reason = RejectBlockedLeaf then t
      else if scope = ScopeAnyLeaf \<and> \<not> leaf_visible_fresh cf (wu_leaf (cd_unit cd)) c then t
      else if reason = RejectInflightCap
        then (case eligible cf v host nocap cd c of
                RejectNone \<Rightarrow> t\<lparr>nt_cap_binding := True\<rparr>
              | next_reason \<Rightarrow> count_reason nocap cd c next_reason t)
      else count_reason nocap cd c reason t)"

definition no_work_reply :: "uid \<Rightarrow> no_work_tally \<Rightarrow> dcache \<Rightarrow> no_work_reason" where
  "no_work_reply v t c =
     (if dc_standing c v \<noteq> None \<and> standing_of v c = standing_benched
      then NoWorkAccountBenched (se_benched_until (the (dc_standing c v)))
      else if nt_cap_binding t then NoWorkInflightCap
      else if nt_infeasible t > 0 then NoWorkInfeasibleDeadline (nt_deadline t) (nt_estimated t)
      else if nt_cooldown t > 0 then NoWorkBenchCooldown
      else if nt_contributed t > 0 \<and> nt_other t = 0 then NoWorkAlreadyContributed
      else NoWorkUnspecified)"

definition unverified :: "no_work_reason \<Rightarrow> no_work_reason" where
  "unverified r = (if r = NoWorkAlreadyContributed then NoWorkUnspecified else r)"

subsection \<open>Handing out\<close>

definition put_hold :: "held_copy \<Rightarrow> held_copy list \<Rightarrow> held_copy list" where
  "put_hold h hs = filter (\<lambda>x. \<not> (hc_unit x = hc_unit h \<and> hc_account x = hc_account h)) hs @ [h]"

definition hold_until :: "cache_config \<Rightarrow> work_unit \<Rightarrow> dcache \<Rightarrow> time" where
  "hold_until cf u c = dc_now c + (if wu_deadline_seconds u > 0 then wu_deadline_seconds u else cf_lease_seconds cf)"

text \<open>The first holder of an unpinned unit of a homogeneous leaf pins its hardware class.\<close>

definition pin_class :: "assignment_options \<Rightarrow> dcache \<Rightarrow> work_unit \<Rightarrow> work_unit" where
  "pin_class q c u =
     (if wu_hr_class u = None \<and> ao_hr_class q \<noteq> '''' \<and>
         (case peek_leaf (wu_leaf u) c of None \<Rightarrow> False
          | Some lf \<Rightarrow> vc_homogeneous_redundancy (leaf_validation_config lf))
      then u\<lparr>wu_hr_class := Some (ao_hr_class q)\<rparr> else u)"

definition chosen_for_spot_check :: "64 word option \<Rightarrow> work_unit \<Rightarrow> dcache \<Rightarrow> bool" where
  "chosen_for_spot_check draw u c \<longleftrightarrow>
     (case peek_leaf (wu_leaf u) c of
        None \<Rightarrow> False
      | Some lf \<Rightarrow>
          let vc = leaf_validation_config lf in
          vc_spot_check_enabled vc \<and> vc_redundancy_factor vc = 1 \<and> should_spot_check draw (vc_spot_check_percentage vc))"

text \<open>The candidate as it stays in the pool, if it does, the unit handed out, and the cache.\<close>

definition accept_candidate ::
  "cache_config \<Rightarrow> uid \<Rightarrow> uid \<Rightarrow> assignment_options \<Rightarrow> 64 word option \<Rightarrow> candidate \<Rightarrow> dcache \<Rightarrow>
   candidate option \<times> (work_unit \<times> time) \<times> dcache" where
  "accept_candidate cf v host q draw cd c =
     (let until = hold_until cf (cd_unit cd) c;
          c1 = c\<lparr>dc_holds := put_hold \<lparr>hc_unit = cd_id cd, hc_account = v, hc_until = until, hc_host = host,
                                       hc_subject = requester_subject v q\<rparr> (dc_holds c),
                 dc_inflight := (dc_inflight c)(host := dc_inflight c host + 1)\<rparr>;
          holders = int (length (holders_of (cd_id cd) c1));
          u1 = pin_class q c (cd_unit cd);
          newly = (holders = 1 \<and> cd_active cd = 0 \<and> \<not> wu_spot_check u1 \<and> chosen_for_spot_check draw u1 c);
          cd1 = (if newly then cd\<lparr>cd_unit := u1\<lparr>wu_spot_check := True\<rparr>, cd_redundancy := 2\<rparr> else cd\<lparr>cd_unit := u1\<rparr>);
          c2 = (if wu_spot_check (cd_unit cd1)
                then c1\<lparr>dc_spot := dc_spot c1 @ [\<lparr>sc_unit = cd_id cd, sc_volunteer = v, sc_host = ao_host q, sc_until = until\<rparr>]\<rparr>
                else c1\<lparr>dc_pending := dc_pending c1 @ [\<lparr>fl_unit = cd_id cd, fl_volunteer = v, fl_host = ao_host q,
                          fl_until = until, fl_deadline = wu_deadline_seconds (cd_unit cd)\<rparr>]\<rparr>);
          keep = cd_active cd1 + holders < cd_redundancy cd1 \<and> holders < in_mem_holder_cap cd1 in
      (if keep then Some cd1 else None, (cd_unit cd1, until), c2))"

record scan_state =
  ss_cache :: dcache
  ss_results :: "(work_unit \<times> time) list"
  ss_rejects :: "reject_reason list"
  ss_tally :: no_work_tally

definition refuse_candidate ::
  "cache_config \<Rightarrow> uid \<Rightarrow> uid \<Rightarrow> assignment_options \<Rightarrow> candidate \<Rightarrow> reject_reason \<Rightarrow> scan_state \<Rightarrow> scan_state" where
  "refuse_candidate cf v host q cd reason st =
     (let c = ss_cache st in
      st\<lparr>ss_rejects := reason # ss_rejects st,
         ss_tally := (if ss_results st = []
                      then note_reject cf v host (q\<lparr>ao_max_inflight := 0\<rparr>) (no_work_scope_of cf q c) cd reason c (ss_tally st)
                      else ss_tally st)\<rparr>)"

fun scan_ready ::
  "cache_config \<Rightarrow> uid \<Rightarrow> uid \<Rightarrow> assignment_options \<Rightarrow> (nat \<Rightarrow> 64 word option) \<Rightarrow> nat \<Rightarrow> candidate list \<Rightarrow> scan_state \<Rightarrow>
   candidate list \<times> scan_state" where
  "scan_ready cf v host q draws n [] st = ([], st)"
| "scan_ready cf v host q draws n (cd # cds) st =
     (if length (ss_results st) \<ge> n then (cd # cds, st)
      else case eligible cf v host q cd (ss_cache st) of
        RejectNone \<Rightarrow>
          (case accept_candidate cf v host q (draws (length (ss_results st))) cd (ss_cache st) of
             (keep, res, c') \<Rightarrow>
               (case scan_ready cf v host q draws n cds (st\<lparr>ss_cache := c', ss_results := ss_results st @ [res]\<rparr>) of
                  (rest, st') \<Rightarrow> ((case keep of None \<Rightarrow> rest | Some cd1 \<Rightarrow> cd1 # rest), st')))
      | reason \<Rightarrow>
          (case scan_ready cf v host q draws n cds (refuse_candidate cf v host q cd reason st) of
             (rest, st') \<Rightarrow> (cd # rest, st')))"

subsection \<open>The database fallback's plan\<close>

datatype fallback_plan =
    FbNotApplicable
  | FbDue "uid \<times> string" int "uid list"
  | FbAnsweredEmpty
  | FbUnverified

definition fallback_empty_ttl :: int where "fallback_empty_ttl = 300"
definition fallback_found_spacing :: int where "fallback_found_spacing = 10"

definition join_ids :: "uid list \<Rightarrow> string" where
  "join_ids ids = (case sort ids of [] \<Rightarrow> '''' | i # is \<Rightarrow> i @ concat (map (\<lambda>x. '','' @ x) is))"

definition fallback_scope_key :: "assignment_options \<Rightarrow> string" where
  "fallback_scope_key q = join_ids (ao_leaf_ids q) @ ''|'' @ join_ids (ao_blocked_leaf_ids q)"

definition plan_fallback ::
  "uid \<Rightarrow> assignment_options \<Rightarrow> int \<Rightarrow> reject_reason list \<Rightarrow> no_work_reason \<Rightarrow> dcache \<Rightarrow> fallback_plan" where
  "plan_fallback host q n rejects reason c =
     (if count_if (\<lambda>r. r \<in> {RejectAlreadyContributed, RejectSelfHeld, RejectBenched}) rejects = 0 then FbNotApplicable
      else if (case reason of NoWorkAccountBenched _ \<Rightarrow> True | _ \<Rightarrow> False) then FbNotApplicable
      else let room = ao_max_inflight q - dc_inflight c host in
        if ao_max_inflight q > 0 \<and> room \<le> 0 then FbUnverified
        else let limit = (if ao_max_inflight q > 0 \<and> room < n then room else n);
                 key = (host, fallback_scope_key q);
                 due = FbDue key limit (excluded_ids c) in
          (case dc_fallback_runs c key of
             None \<Rightarrow> due
           | Some (ran_at, found) \<Rightarrow>
               (if \<not> found \<and> dc_now c - ran_at < fallback_empty_ttl then FbAnsweredEmpty
                else if found \<and> dc_now c - ran_at < fallback_found_spacing then FbUnverified
                else due)))"

record hand_out_reply =
  hr_results :: "(work_unit \<times> time) list"
  hr_drained :: bool
  hr_reason :: no_work_reason
  hr_plan :: fallback_plan
  hr_cap :: int

text \<open>The section of \<open>HandOutWithReason\<close> under the mutex.\<close>

definition hand_out ::
  "cache_config \<Rightarrow> uid \<Rightarrow> assignment_options \<Rightarrow> int \<Rightarrow> (nat \<Rightarrow> 64 word option) \<Rightarrow> dcache \<Rightarrow> hand_out_reply \<times> dcache" where
  "hand_out cf v q0 n0 draws c =
     (let n = (if n0 < 1 then 1 else n0);
          host = meter_id v (ao_host q0);
          q = resolved_options cf v host q0 c in
      if cf_min_send_interval cf > 0 \<and>
         (case dc_last_hand_out c host of None \<Rightarrow> False | Some t \<Rightarrow> dc_now c - t < cf_min_send_interval cf)
      then (\<lparr>hr_results = [], hr_drained = False, hr_reason = NoWorkUnspecified, hr_plan = FbNotApplicable,
             hr_cap = ao_max_inflight q\<rparr>, c)
      else
        case scan_ready cf v host q draws (nat n) (dc_ready c)
               \<lparr>ss_cache = c, ss_results = [], ss_rejects = [], ss_tally = empty_tally\<rparr> of
          (kept, st) \<Rightarrow>
            let taken = ss_results st;
                c1 = (ss_cache st)\<lparr>dc_ready := kept\<rparr>;
                c2 = (if taken \<noteq> [] \<and> cf_min_send_interval cf > 0
                      then c1\<lparr>dc_last_hand_out := (dc_last_hand_out c1)(host \<mapsto> dc_now c1)\<rparr> else c1);
                reason = (if taken = [] then no_work_reply v (ss_tally st) c2 else NoWorkUnspecified);
                plan = (if taken = [] then plan_fallback host q n (ss_rejects st) reason c2 else FbNotApplicable) in
            (\<lparr>hr_results = taken, hr_drained = int (length kept) < cf_low_watermark cf, hr_reason = reason,
              hr_plan = plan, hr_cap = ao_max_inflight q\<rparr>, c2))"

subsection \<open>The end of a copy\<close>

definition drop_machine :: "uid \<Rightarrow> (uid \<Rightarrow> int) \<Rightarrow> uid \<Rightarrow> int" where
  "drop_machine host inflight = (if inflight host > 0 then inflight(host := inflight host - 1) else inflight)"

definition purge_pending :: "uid \<Rightarrow> uid \<Rightarrow> dcache \<Rightarrow> dcache" where
  "purge_pending u v c =
     c\<lparr>dc_pending := filter (\<lambda>r. \<not> (fl_unit r = u \<and> fl_volunteer r = v)) (dc_pending c),
       dc_spot := filter (\<lambda>r. \<not> (sc_unit r = u \<and> sc_volunteer r = v)) (dc_spot c)\<rparr>"

definition release_in_mem :: "uid \<Rightarrow> uid \<Rightarrow> dcache \<Rightarrow> dcache" where
  "release_in_mem u v c =
     (case find (\<lambda>h. hc_unit h = u \<and> hc_account h = v) (dc_holds c) of
        None \<Rightarrow> c
      | Some h \<Rightarrow>
          purge_pending u v
            (c\<lparr>dc_holds := filter (\<lambda>h. \<not> (hc_unit h = u \<and> hc_account h = v)) (dc_holds c),
               dc_inflight := drop_machine (hc_host h) (dc_inflight c)\<rparr>))"

datatype copy_close = CopyReturned | CopyFailed | CopyVoided

definition void_bench_ttl :: int where "void_bench_ttl = 60"

definition close_bench :: "copy_close \<Rightarrow> time \<Rightarrow> int \<Rightarrow> bench_entry" where
  "close_bench how now deadline =
     (if how = CopyVoided then \<lparr>be_until = now + void_bench_ttl, be_fallback_at = now + void_bench_ttl\<rparr>
      else bench_entry_for now (how = CopyReturned) deadline)"

fun update_first :: "('a \<Rightarrow> bool) \<Rightarrow> ('a \<Rightarrow> 'a) \<Rightarrow> 'a list \<Rightarrow> 'a list" where
  "update_first P f [] = []"
| "update_first P f (x # xs) = (if P x then f x # xs else x # update_first P f xs)"

fun drop_first :: "('a \<Rightarrow> bool) \<Rightarrow> 'a list \<Rightarrow> 'a list" where
  "drop_first P [] = []"
| "drop_first P (x # xs) = (if P x then xs else x # drop_first P xs)"

definition bench_candidate :: "uid \<Rightarrow> copy_close \<Rightarrow> time \<Rightarrow> candidate \<Rightarrow> candidate" where
  "bench_candidate v how now cd =
     cd\<lparr>cd_benched := (cd_benched cd)(v \<mapsto>
          merge_bench (close_bench how now (wu_deadline_seconds (cd_unit cd))) (cd_benched cd v))\<rparr>"

definition close_copy_in_mem :: "uid \<Rightarrow> uid \<Rightarrow> copy_close \<Rightarrow> dcache \<Rightarrow> dcache" where
  "close_copy_in_mem u v how c =
     (let c1 = release_in_mem u v c in
      c1\<lparr>dc_ready := update_first (\<lambda>cd. cd_id cd = u) (bench_candidate v how (dc_now c1)) (dc_ready c1)\<rparr>)"

definition void_non_landed_copy :: "uid \<Rightarrow> uid \<Rightarrow> dcache \<Rightarrow> dcache" where
  "void_non_landed_copy u v = close_copy_in_mem u v CopyVoided"

definition on_copy_closed :: "uid \<Rightarrow> uid \<Rightarrow> bool \<Rightarrow> dcache \<Rightarrow> dcache" where
  "on_copy_closed u v returned = close_copy_in_mem u v (if returned then CopyReturned else CopyFailed)"

definition has_in_mem_reservation :: "uid \<Rightarrow> uid \<Rightarrow> dcache \<Rightarrow> bool" where
  "has_in_mem_reservation u v c \<longleftrightarrow> v \<in> hc_account ` set (holders_of u c)"

definition on_unit_done :: "uid \<Rightarrow> dcache \<Rightarrow> dcache" where
  "on_unit_done u c =
     c\<lparr>dc_inflight := fold (drop_machine \<circ> hc_host) (holders_of u c) (dc_inflight c),
       dc_holds := filter (\<lambda>h. hc_unit h \<noteq> u) (dc_holds c),
       dc_ready := drop_first (\<lambda>cd. cd_id cd = u) (dc_ready c)\<rparr>"

definition invalidate_work_unit :: "uid \<Rightarrow> dcache \<Rightarrow> dcache" where
  "invalidate_work_unit u c =
     (let c1 = fold (\<lambda>h. release_in_mem u (hc_account h)) (holders_of u c) c in
      c1\<lparr>dc_ready := drop_first (\<lambda>cd. cd_id cd = u) (dc_ready c1)\<rparr>)"

text \<open>
  A run-start: the hold becomes a running copy. The candidate records the principal as a contributor
  and leaves the pool once its copies are all out.
\<close>

definition run_start_subject :: "uid \<Rightarrow> uid \<Rightarrow> dcache \<Rightarrow> string" where
  "run_start_subject u v c =
     (case find (\<lambda>h. hc_unit h = u \<and> hc_account h = v) (dc_holds c) of
        None \<Rightarrow> subject_for_volunteer_id v
      | Some h \<Rightarrow> (if hc_subject h \<noteq> '''' then hc_subject h else subject_for_volunteer_id v))"

definition run_started_candidate :: "string \<Rightarrow> candidate \<Rightarrow> candidate" where
  "run_started_candidate subj cd =
     cd\<lparr>cd_active := cd_active cd + 1,
        cd_contributors := List.insert subj (cd_contributors cd),
        cd_run_started := (if cd_trust_k cd > 0 then List.insert subj (cd_run_started cd) else cd_run_started cd)\<rparr>"

fun run_start_ready :: "uid \<Rightarrow> string \<Rightarrow> int \<Rightarrow> candidate list \<Rightarrow> candidate list" where
  "run_start_ready u subj remaining [] = []"
| "run_start_ready u subj remaining (cd # cds) =
     (if cd_id cd = u
      then let cd1 = run_started_candidate subj cd in
           if cd_active cd1 + remaining \<ge> cd_redundancy cd1 then cds else cd1 # cds
      else cd # run_start_ready u subj remaining cds)"

definition on_run_start :: "uid \<Rightarrow> uid \<Rightarrow> dcache \<Rightarrow> dcache" where
  "on_run_start u v c =
     (let subj = run_start_subject u v c;
          c1 = c\<lparr>dc_holds := filter (\<lambda>h. \<not> (hc_unit h = u \<and> hc_account h = v)) (dc_holds c)\<rparr> in
      c1\<lparr>dc_ready := run_start_ready u subj (int (length (holders_of u c1))) (dc_ready c1)\<rparr>)"

subsection \<open>Stocking the pool\<close>

definition ready_contains :: "uid \<Rightarrow> dcache \<Rightarrow> bool" where
  "ready_contains u c \<longleftrightarrow> u \<in> cd_id ` set (dc_ready c)"

definition stageable :: "dcache \<Rightarrow> candidate \<Rightarrow> bool" where
  "stageable c cd \<longleftrightarrow> \<not> held (cd_id cd) c \<and> \<not> ready_contains (cd_id cd) c"

text \<open>The last \<open>need\<close> unheld candidates of leaves that are not demanded, from the back.\<close>

fun evict_from_back :: "(candidate \<Rightarrow> bool) \<Rightarrow> nat \<Rightarrow> candidate list \<Rightarrow> candidate list" where
  "evict_from_back evictable need [] = []"
| "evict_from_back evictable need (cd # cds) =
     (if evictable cd \<and> need > 0 then evict_from_back evictable (need - 1) cds
      else cd # evict_from_back evictable need cds)"

definition evict_for_leaf_demand :: "int \<Rightarrow> uid list \<Rightarrow> dcache \<Rightarrow> dcache" where
  "evict_for_leaf_demand need leafs c =
     c\<lparr>dc_ready := rev (evict_from_back (\<lambda>cd. wu_leaf (cd_unit cd) \<notin> set leafs \<and> \<not> held (cd_id cd) c)
                          (nat need) (rev (dc_ready c)))\<rparr>"

fun stage_all :: "cache_config \<Rightarrow> candidate list \<Rightarrow> dcache \<Rightarrow> dcache" where
  "stage_all cf [] c = c"
| "stage_all cf (cd # cds) c =
     (if \<not> stageable c cd then stage_all cf cds c
      else if int (length (dc_ready c)) \<ge> cf_ready_pool_size cf then c
      else stage_all cf cds (c\<lparr>dc_ready := dc_ready c @ [cd]\<rparr>))"

text \<open>The section of \<open>fetchAndStage\<close> under the mutex; \<open>leafs\<close> is empty for the watermark refill.\<close>

definition stage_batch :: "cache_config \<Rightarrow> uid list \<Rightarrow> candidate list \<Rightarrow> dcache \<Rightarrow> dcache" where
  "stage_batch cf leafs staged c =
     (let need = count_if (stageable c) staged - (cf_ready_pool_size cf - int (length (dc_ready c)));
          c1 = (if leafs \<noteq> [] \<and> need > 0 then evict_for_leaf_demand need leafs c else c) in
      stage_all cf staged c1)"

definition drop_staged_of_leaf :: "uid \<Rightarrow> dcache \<Rightarrow> dcache" where
  "drop_staged_of_leaf l c = c\<lparr>dc_ready := filter (\<lambda>cd. wu_leaf (cd_unit cd) \<noteq> l) (dc_ready c)\<rparr>"

text \<open>How many candidates the watermark refill asks for; nothing when the pool is above its watermark.\<close>

definition refill_want :: "cache_config \<Rightarrow> dcache \<Rightarrow> int" where
  "refill_want cf c =
     (let have = int (length (dc_ready c)) in
      if have \<ge> cf_ready_pool_size cf \<or> have \<ge> cf_low_watermark cf then 0
      else if have + cf_refill_batch cf > cf_ready_pool_size cf then cf_ready_pool_size cf - have
      else cf_refill_batch cf)"

subsection \<open>Leaf snapshots\<close>

text \<open>The zero \<open>time.Time\<close>: the snapshot reads as aged out.\<close>

definition zero_time :: time where "zero_time = - 62135596800"

definition cache_leaf :: "leaf \<Rightarrow> dcache \<Rightarrow> dcache" where
  "cache_leaf lf c = c\<lparr>dc_leafs := (dc_leafs c)(leaf_id lf \<mapsto> (lf, dc_now c))\<rparr>"

definition invalidate_leaf :: "uid \<Rightarrow> dcache \<Rightarrow> dcache" where
  "invalidate_leaf l c =
     (case dc_leafs c l of None \<Rightarrow> c | Some (lf, _) \<Rightarrow> c\<lparr>dc_leafs := (dc_leafs c)(l \<mapsto> (lf, zero_time))\<rparr>)"

text \<open>\<open>read\<close> is what the database answers, \<open>None\<close> when it could not be asked or failed.\<close>

definition get_leaf :: "cache_config \<Rightarrow> leaf option \<Rightarrow> uid \<Rightarrow> dcache \<Rightarrow> leaf option \<times> dcache" where
  "get_leaf cf read l c =
     (case peek_leaf_fresh cf l c of
        (Some lf, True) \<Rightarrow> (Some lf, c)
      | (stale, _) \<Rightarrow>
          (case read of
             None \<Rightarrow> (stale, c)
           | Some lf \<Rightarrow> (Some lf, c\<lparr>dc_leafs := (dc_leafs c)(l \<mapsto> (lf, dc_now c))\<rparr>)))"

definition warm_leaf :: "cache_config \<Rightarrow> leaf option \<Rightarrow> uid \<Rightarrow> dcache \<Rightarrow> dcache" where
  "warm_leaf cf read l c =
     (if snd (peek_leaf_fresh cf l c) then c
      else case read of None \<Rightarrow> c | Some lf \<Rightarrow> c\<lparr>dc_leafs := (dc_leafs c)(l \<mapsto> (lf, dc_now c))\<rparr>)"

text \<open>The refiller's refresh of the aged snapshots of the leafs with staged units; a deleted leaf loses them.\<close>

definition refresh_leaf :: "(uid \<Rightarrow> leaf option) \<Rightarrow> uid \<Rightarrow> dcache \<Rightarrow> dcache" where
  "refresh_leaf db_leaf l c =
     (case db_leaf l of
        None \<Rightarrow> drop_staged_of_leaf l (c\<lparr>dc_leafs := (dc_leafs c)(l := None)\<rparr>)
      | Some lf \<Rightarrow> c\<lparr>dc_leafs := (dc_leafs c)(l \<mapsto> (lf, dc_now c))\<rparr>)"

definition refresh_stale_leaf_snapshots :: "cache_config \<Rightarrow> (uid \<Rightarrow> leaf option) \<Rightarrow> dcache \<Rightarrow> dcache" where
  "refresh_stale_leaf_snapshots cf db_leaf c =
     fold (refresh_leaf db_leaf)
       (filter (\<lambda>l. \<not> snd (peek_leaf_fresh cf l c)) (keys_of (wu_leaf \<circ> cd_unit) (dc_ready c))) c"

subsection \<open>The account snapshots\<close>

definition trust_score_ttl :: int where "trust_score_ttl = 30"
definition standing_snapshot_ttl :: int where "standing_snapshot_ttl = 30"

definition snapshot_fresh :: "time \<Rightarrow> time option \<Rightarrow> int \<Rightarrow> bool" where
  "snapshot_fresh now taken ttl \<longleftrightarrow> (case taken of None \<Rightarrow> False | Some t \<Rightarrow> now - t < ttl)"

definition all_scores :: "db \<Rightarrow> string \<Rightarrow> int" where
  "all_scores d s = (case db_trust d s of None \<Rightarrow> 0 | Some e \<Rightarrow> (if te_score e > 0 then te_score e else 0))"

definition all_non_ok :: "db \<Rightarrow> uid \<rightharpoonup> standing_entry" where
  "all_non_ok d a =
     (case db_volunteers d a of
        None \<Rightarrow> None
      | Some v \<Rightarrow> (if vol_standing v = standing_ok then None
                   else Some \<lparr>se_standing = vol_standing v, se_benched_until = vol_benched_until v\<rparr>))"

definition refresh_trust_scores :: "(string \<Rightarrow> int) option \<Rightarrow> dcache \<Rightarrow> dcache" where
  "refresh_trust_scores read c =
     (if snapshot_fresh (dc_now c) (dc_trust_at c) trust_score_ttl then c
      else case read of None \<Rightarrow> c | Some scores \<Rightarrow> c\<lparr>dc_trust_scores := scores, dc_trust_at := Some (dc_now c)\<rparr>)"

definition refresh_standing :: "(uid \<rightharpoonup> standing_entry) option \<Rightarrow> dcache \<Rightarrow> dcache" where
  "refresh_standing read c =
     (if snapshot_fresh (dc_now c) (dc_standing_at c) standing_snapshot_ttl then c
      else case read of None \<Rightarrow> c | Some es \<Rightarrow> c\<lparr>dc_standing := es, dc_standing_at := Some (dc_now c)\<rparr>)"

subsection \<open>Loading the leafs of a reply\<close>

text \<open>
  What the caller makes of one accepted unit after the mutex: the leaf must load, and a leaf that turned
  out hidden goes only to a requester that named it.
\<close>

definition ship_unit ::
  "cache_config \<Rightarrow> (uid \<Rightarrow> leaf option) \<Rightarrow> uid \<Rightarrow> assignment_options \<Rightarrow> work_unit \<times> time \<Rightarrow> dcache \<Rightarrow>
   (work_unit \<times> time \<times> leaf) option \<times> dcache" where
  "ship_unit cf read v q r c =
     (case r of (u, until) \<Rightarrow>
        (case get_leaf cf (read (wu_leaf u)) (wu_leaf u) c of
           (None, c1) \<Rightarrow> (None, release_in_mem (wu_id u) v c1)
         | (Some lf, c1) \<Rightarrow>
             (if hidden_leaf lf \<and> wu_leaf u \<notin> set (ao_leaf_ids q) then (None, release_in_mem (wu_id u) v c1)
              else (Some (u, until, lf), c1))))"

fun ship_units ::
  "cache_config \<Rightarrow> (uid \<Rightarrow> leaf option) \<Rightarrow> uid \<Rightarrow> assignment_options \<Rightarrow> (work_unit \<times> time) list \<Rightarrow> dcache \<Rightarrow>
   (work_unit \<times> time \<times> leaf) list \<times> dcache" where
  "ship_units cf read v q [] c = ([], c)"
| "ship_units cf read v q (r # rs) c =
     (case ship_unit cf read v q r c of
        (x, c1) \<Rightarrow> (case ship_units cf read v q rs c1 of
           (ys, c2) \<Rightarrow> (case x of None \<Rightarrow> ys | Some y \<Rightarrow> y # ys, c2)))"

subsection \<open>The flusher's and the reconciler's sections\<close>

definition take_flush_batch :: "cache_config \<Rightarrow> dcache \<Rightarrow> flush_reservation list \<times> dcache" where
  "take_flush_batch cf c =
     (take (cf_flush_batch cf) (dc_pending c), c\<lparr>dc_pending := drop (cf_flush_batch cf) (dc_pending c)\<rparr>)"

definition requeue_writes :: "flush_reservation list \<Rightarrow> dcache \<Rightarrow> dcache" where
  "requeue_writes batch c = c\<lparr>dc_pending := batch @ dc_pending c\<rparr>"

definition take_spot_batch :: "cache_config \<Rightarrow> dcache \<Rightarrow> spot_check_write list \<times> dcache" where
  "take_spot_batch cf c =
     (take (cf_flush_batch cf) (dc_spot c), c\<lparr>dc_spot := drop (cf_flush_batch cf) (dc_spot c)\<rparr>)"

definition requeue_spot_checks :: "spot_check_write list \<Rightarrow> dcache \<Rightarrow> dcache" where
  "requeue_spot_checks batch c = c\<lparr>dc_spot := batch @ dc_spot c\<rparr>"

definition lapsed_hold_grace :: int where "lapsed_hold_grace = 300"

definition release_lapsed_holds :: "dcache \<Rightarrow> dcache" where
  "release_lapsed_holds c =
     fold (\<lambda>h. if hc_until h < dc_now c - lapsed_hold_grace then release_in_mem (hc_unit h) (hc_account h) else id)
       (dc_holds c) c"

definition pending_of_machine :: "uid \<Rightarrow> dcache \<Rightarrow> int" where
  "pending_of_machine h c =
     count_if (\<lambda>r. meter_id (fl_volunteer r) (fl_host r) = h) (dc_pending c) +
     count_if (\<lambda>r. meter_id (sc_volunteer r) (sc_host r) = h) (dc_spot c)"

definition recount_inflight :: "cache_config \<Rightarrow> (uid \<Rightarrow> int) \<Rightarrow> dcache \<Rightarrow> dcache" where
  "recount_inflight cf db_counts c =
     c\<lparr>dc_inflight := (\<lambda>h. db_counts h + pending_of_machine h c),
       dc_last_hand_out :=
         (if cf_min_send_interval cf > 0
          then (\<lambda>h. case dc_last_hand_out c h of None \<Rightarrow> None
                | Some t \<Rightarrow> (if t < dc_now c - cf_min_send_interval cf then None else Some t))
          else dc_last_hand_out c)\<rparr>"

definition note_volunteer_held :: "uid \<Rightarrow> uid \<Rightarrow> uid list \<Rightarrow> dcache \<Rightarrow> dcache" where
  "note_volunteer_held v host units c =
     c\<lparr>dc_held_reports := filter (\<lambda>(h, _). h \<noteq> host) (dc_held_reports c) @
          [(host, \<lparr>hp_units = units, hp_account = v, hp_at = dc_now c\<rparr>)]\<rparr>"

definition prune_fallback_runs :: "dcache \<Rightarrow> dcache" where
  "prune_fallback_runs c =
     c\<lparr>dc_fallback_runs := (\<lambda>k. case dc_fallback_runs c k of None \<Rightarrow> None
         | Some (ran_at, found) \<Rightarrow> (if ran_at < dc_now c - fallback_empty_ttl then None else Some (ran_at, found)))\<rparr>"

text \<open>The bookkeeping of a fallback whose copies have landed (\<open>handOutFromDB\<close>).\<close>

definition land_fallback ::
  "cache_config \<Rightarrow> uid \<Rightarrow> uid \<Rightarrow> string \<Rightarrow> uid \<times> string \<Rightarrow> work_unit list \<Rightarrow> dcache \<Rightarrow> dcache" where
  "land_fallback cf v host subj key landed c =
     (let c1 = fold (\<lambda>u c. c\<lparr>dc_holds := put_hold \<lparr>hc_unit = wu_id u, hc_account = v, hc_until = hold_until cf u c,
                                  hc_host = host, hc_subject = subj\<rparr> (dc_holds c),
                              dc_inflight := (dc_inflight c)(host := dc_inflight c host + 1)\<rparr>) landed c;
          c2 = c1\<lparr>dc_fallback_runs := (dc_fallback_runs c1)(key \<mapsto> (dc_now c1, landed \<noteq> []))\<rparr> in
      if landed \<noteq> [] \<and> cf_min_send_interval cf > 0
      then c2\<lparr>dc_last_hand_out := (dc_last_hand_out c2)(host \<mapsto> dc_now c2)\<rparr> else c2)"

end
