(* ===== verification/DispatchInvariant.thy ===== *)
theory DispatchInvariant
  imports DispatchCache
begin

text \<open>
  What holds of the dispatch cache whatever its critical sections are interleaved with: one candidate per
  unit, one hold per account and per principal of a unit, no more holders than the unit wants copies.
\<close>

subsection \<open>The cache invariant\<close>

definition cache_ok :: "dcache \<Rightarrow> bool" where
  "cache_ok c \<longleftrightarrow>
     distinct (map cd_id (dc_ready c)) \<and>
     distinct (map (\<lambda>h. (hc_unit h, hc_account h)) (dc_holds c)) \<and>
     distinct (map (\<lambda>h. (hc_unit h, hc_subject h)) (dc_holds c)) \<and>
     (\<forall>cd\<in>set (dc_ready c). holders_of (cd_id cd) c = [] \<or>
        int (length (holders_of (cd_id cd) c)) \<le> cd_redundancy cd) \<and>
     (\<forall>h. 0 \<le> dc_inflight c h)"

lemma held_ready [simp]: "held u (c\<lparr>dc_ready := r\<rparr>) = held u c" "holders_of u (c\<lparr>dc_ready := r\<rparr>) = holders_of u c"
  by (simp_all add: held_def holders_of_def)

lemma holders_of_filter:
  "dc_holds c' = filter P (dc_holds c) \<Longrightarrow> holders_of u c' = filter P (holders_of u c)"
  by (auto simp: holders_of_def intro: filter_cong)

text \<open>Dropping holds, dropping candidates and editing candidates under the same id and cap keep it.\<close>

lemma cache_ok_shrink:
  assumes "cache_ok c" "dc_holds c' = filter P (dc_holds c)" "distinct (map cd_id (dc_ready c'))"
    "\<And>cd. cd \<in> set (dc_ready c') \<Longrightarrow> \<exists>cd0\<in>set (dc_ready c). cd_id cd0 = cd_id cd \<and> cd_redundancy cd0 = cd_redundancy cd"
    "\<And>h. 0 \<le> dc_inflight c' h"
  shows "cache_ok c'"
proof -
  have "holders_of (cd_id cd) c' = [] \<or> int (length (holders_of (cd_id cd) c')) \<le> cd_redundancy cd"
    if "cd \<in> set (dc_ready c')" for cd
  proof -
    obtain cd0 where cd0: "cd0 \<in> set (dc_ready c)" "cd_id cd0 = cd_id cd" "cd_redundancy cd0 = cd_redundancy cd"
      using assms(4) [OF \<open>cd \<in> _\<close>] by blast
    have "length (holders_of (cd_id cd) c') \<le> length (holders_of (cd_id cd0) c)"
      unfolding holders_of_filter [OF assms(2)] cd0(2) by simp
    moreover have "holders_of (cd_id cd) c' = [] \<or> holders_of (cd_id cd0) c \<noteq> []"
      unfolding holders_of_filter [OF assms(2)] cd0(2) by auto
    ultimately show ?thesis using assms(1) cd0(1,3) by (force simp: cache_ok_def)
  qed
  then show ?thesis using assms(1,3,5) by (simp add: cache_ok_def assms(2) distinct_map_filter)
qed

lemma drop_machine_nonneg: "(\<And>h. 0 \<le> f h) \<Longrightarrow> 0 \<le> drop_machine x f h"
  by (auto simp: drop_machine_def)

lemma fold_drop_machine_nonneg: "(\<And>h. 0 \<le> f h) \<Longrightarrow> 0 \<le> fold (drop_machine \<circ> g) xs f h"
  by (induction xs arbitrary: f) (auto intro: drop_machine_nonneg)

lemma release_in_mem_simps [simp]:
  "dc_ready (release_in_mem u v c) = dc_ready c"
  "dc_holds (release_in_mem u v c) = filter (\<lambda>h. \<not> (hc_unit h = u \<and> hc_account h = v)) (dc_holds c)"
  "dc_now (release_in_mem u v c) = dc_now c"
  by (auto simp: release_in_mem_def purge_pending_def find_None_iff filter_id_conv split: option.splits)

lemma release_in_mem_inflight: "(\<And>h. 0 \<le> dc_inflight c h) \<Longrightarrow> 0 \<le> dc_inflight (release_in_mem u v c) h"
  by (auto simp: release_in_mem_def purge_pending_def drop_machine_nonneg split: option.splits)

lemma cache_ok_release: "cache_ok c \<Longrightarrow> cache_ok (release_in_mem u v c)"
  by (rule cache_ok_shrink [where c = c and P = "\<lambda>h. \<not> (hc_unit h = u \<and> hc_account h = v)"])
    (auto simp: cache_ok_def release_in_mem_inflight)

lemma update_first_map:
  assumes "\<And>x. f (g x) = f x" shows "map f (update_first P g xs) = map f xs"
  using assms by (induction xs) auto

lemma update_first_set: "x \<in> set (update_first P g xs) \<Longrightarrow> \<exists>y\<in>set xs. x = y \<or> x = g y"
  by (induction xs) (auto split: if_splits)

lemma set_drop_first: "set (drop_first P xs) \<subseteq> set xs"
  by (induction xs) auto

lemma distinct_drop_first: "distinct (map f xs) \<Longrightarrow> distinct (map f (drop_first P xs))"
  by (induction xs) (use set_drop_first in force)+

lemma cache_ok_ready:
  assumes "cache_ok c" "dc_holds c' = dc_holds c" "dc_inflight c' = dc_inflight c"
    "distinct (map cd_id (dc_ready c'))"
    "\<And>cd. cd \<in> set (dc_ready c') \<Longrightarrow> \<exists>cd0\<in>set (dc_ready c). cd_id cd0 = cd_id cd \<and> cd_redundancy cd0 = cd_redundancy cd"
  shows "cache_ok c'"
  using assms(1) by (rule cache_ok_shrink [where P = "\<lambda>_. True"]) (use assms in \<open>auto simp: cache_ok_def\<close>)

lemma bench_candidate_simps [simp]:
  "cd_unit (bench_candidate v how now cd) = cd_unit cd" "cd_redundancy (bench_candidate v how now cd) = cd_redundancy cd"
  by (simp_all add: bench_candidate_def)

lemma cache_ok_close: "cache_ok c \<Longrightarrow> cache_ok (close_copy_in_mem u v how c)"
  by (rule cache_ok_ready [OF cache_ok_release])
    (auto simp: close_copy_in_mem_def Let_def update_first_map cache_ok_def dest!: update_first_set)

lemma cache_ok_done: "cache_ok c \<Longrightarrow> cache_ok (on_unit_done u c)"
  by (rule cache_ok_shrink [where c = c])
    (use set_drop_first in \<open>fastforce simp: cache_ok_def on_unit_done_def fold_drop_machine_nonneg distinct_drop_first\<close>)+

lemma cache_ok_fold_release: "cache_ok c \<Longrightarrow> cache_ok (fold (\<lambda>h. release_in_mem (f h) (g h)) hs c)"
  by (induction hs arbitrary: c) (auto intro: cache_ok_release)

lemma cache_ok_drop_ready: "cache_ok c \<Longrightarrow> cache_ok (c\<lparr>dc_ready := drop_first P (dc_ready c)\<rparr>)"
  by (rule cache_ok_ready) (use set_drop_first in \<open>fastforce simp: cache_ok_def distinct_drop_first\<close>)+

lemma cache_ok_invalidate: "cache_ok c \<Longrightarrow> cache_ok (invalidate_work_unit u c)"
  unfolding invalidate_work_unit_def Let_def by (intro cache_ok_drop_ready cache_ok_fold_release)

lemma run_started_simps [simp]:
  "cd_unit (run_started_candidate s cd) = cd_unit cd" "cd_redundancy (run_started_candidate s cd) = cd_redundancy cd"
  by (simp_all add: run_started_candidate_def)

lemma run_start_ready_props:
  "cd \<in> set (run_start_ready u s k cds) \<Longrightarrow> \<exists>cd0\<in>set cds. cd_id cd0 = cd_id cd \<and> cd_redundancy cd0 = cd_redundancy cd"
  "distinct (map cd_id cds) \<Longrightarrow> distinct (map cd_id (run_start_ready u s k cds))"
proof -
  show P: "cd \<in> set (run_start_ready u s k cds) \<Longrightarrow> \<exists>cd0\<in>set cds. cd_id cd0 = cd_id cd \<and> cd_redundancy cd0 = cd_redundancy cd" for cd cds
    by (induction cds) (auto simp: Let_def split: if_splits)
  show "distinct (map cd_id cds) \<Longrightarrow> distinct (map cd_id (run_start_ready u s k cds))"
  proof (induction cds)
    case (Cons a cds)
    have "cd_id a \<notin> cd_id ` set (run_start_ready u s k cds)"
    proof
      assume "cd_id a \<in> cd_id ` set (run_start_ready u s k cds)"
      then obtain cd where "cd \<in> set (run_start_ready u s k cds)" "cd_id cd = cd_id a" by auto
      then have "cd_id a \<in> cd_id ` set cds" using P by (metis image_iff)
      then show False using Cons.prems by simp
    qed
    then show ?case using Cons by (auto simp: Let_def)
  qed simp
qed

lemma cache_ok_run_start: "cache_ok c \<Longrightarrow> cache_ok (on_run_start u v c)"
  by (rule cache_ok_shrink [where c = c])
    (use run_start_ready_props in \<open>auto simp: cache_ok_def on_run_start_def Let_def\<close>)

subsection \<open>Accepting a candidate\<close>

lemma eligibleD:
  assumes "eligible cf v host q cd c = RejectNone"
  shows "countable_coverage cd c < cd_redundancy cd"
    "int (length (holders_of (cd_id cd) c)) < cd_redundancy cd"
    "v \<notin> hc_account ` set (holders_of (cd_id cd) c)"
    "requester_subject v q \<notin> hc_subject ` set (holders_of (cd_id cd) c)"
    "requester_subject v q \<notin> set (cd_contributors cd)"
    "\<not> bench_refuses v cd c" "\<not> trust_reserved (requester_subject v q) cd c"
    "standing_of v c \<noteq> standing_benched"
    "ao_max_inflight q > 0 \<longrightarrow> dc_inflight c host < ao_max_inflight q"
    "ao_leaf_ids q = [] \<or> wu_leaf (cd_unit cd) \<in> set (ao_leaf_ids q)"
    "wu_leaf (cd_unit cd) \<notin> set (ao_blocked_leaf_ids q)"
    "\<exists>lf. peek_leaf (wu_leaf (cd_unit cd)) c = Some lf \<and> leaf_matches_capabilities lf q \<and>
       (hidden_leaf lf \<longrightarrow> wu_leaf (cd_unit cd) \<in> set (ao_leaf_ids q))"
  using assms
  by (auto simp: eligible_def Let_def in_mem_holder_cap_def peek_leaf_fresh_def peek_leaf_def not_le
      split: if_splits option.splits prod.splits)

lemma put_hold_new:
  assumes "v \<notin> hc_account ` set (holders_of u c)"
  shows "put_hold \<lparr>hc_unit = u, hc_account = v, hc_until = t, hc_host = h, hc_subject = s\<rparr> (dc_holds c) =
    dc_holds c @ [\<lparr>hc_unit = u, hc_account = v, hc_until = t, hc_host = h, hc_subject = s\<rparr>]"
  using assms by (auto simp: put_hold_def holders_of_def filter_id_conv)

lemma accept_candidate_eqs:
  assumes "accept_candidate cf v host q draw cd c = (keep, res, c')"
    "v \<notin> hc_account ` set (holders_of (cd_id cd) c)"
  shows "dc_holds c' = dc_holds c @ [\<lparr>hc_unit = cd_id cd, hc_account = v, hc_until = hold_until cf (cd_unit cd) c,
      hc_host = host, hc_subject = requester_subject v q\<rparr>]"
    "dc_inflight c' = (dc_inflight c)(host := dc_inflight c host + 1)" "dc_ready c' = dc_ready c"
    "dc_now c' = dc_now c" "dc_leafs c' = dc_leafs c" "dc_standing c' = dc_standing c"
    "wu_id (fst res) = cd_id cd" "wu_leaf (fst res) = wu_leaf (cd_unit cd)"
    "keep = Some k \<Longrightarrow> cd_id k = cd_id cd \<and> int (length (holders_of (cd_id cd) c)) + 1 < cd_redundancy k"
proof -
  have h: "holders_of (cd_id cd) (c\<lparr>dc_holds := put_hold \<lparr>hc_unit = cd_id cd, hc_account = v,
      hc_until = hold_until cf (cd_unit cd) c, hc_host = host, hc_subject = requester_subject v q\<rparr> (dc_holds c),
      dc_inflight := f\<rparr>) = holders_of (cd_id cd) c @ [\<lparr>hc_unit = cd_id cd, hc_account = v,
      hc_until = hold_until cf (cd_unit cd) c, hc_host = host, hc_subject = requester_subject v q\<rparr>]" for f
    unfolding put_hold_new [OF assms(2)] by (simp add: holders_of_def)
  have pin: "wu_id (pin_class q c u) = wu_id u" "wu_leaf (pin_class q c u) = wu_leaf u" for u
    by (simp_all add: pin_class_def)
  note E = assms(1) [unfolded accept_candidate_def Let_def h]
  show "dc_holds c' = dc_holds c @ [\<lparr>hc_unit = cd_id cd, hc_account = v, hc_until = hold_until cf (cd_unit cd) c,
      hc_host = host, hc_subject = requester_subject v q\<rparr>]"
    using E put_hold_new [OF assms(2)] by (auto split: if_splits)
  show "dc_inflight c' = (dc_inflight c)(host := dc_inflight c host + 1)" "dc_ready c' = dc_ready c"
    "dc_now c' = dc_now c" "dc_leafs c' = dc_leafs c" "dc_standing c' = dc_standing c"
    "wu_id (fst res) = cd_id cd" "wu_leaf (fst res) = wu_leaf (cd_unit cd)"
    using E pin by (auto split: if_splits)
  show "cd_id k = cd_id cd \<and> int (length (holders_of (cd_id cd) c)) + 1 < cd_redundancy k" if "keep = Some k"
    using E that pin by (auto simp: in_mem_holder_cap_def split: if_splits)
qed

lemma holders_of_append:
  "dc_holds c' = dc_holds c @ [h] \<Longrightarrow> holders_of u c' = holders_of u c @ (if hc_unit h = u then [h] else [])"
  by (simp add: holders_of_def)

lemma cache_ok_accept:
  assumes ok: "cache_ok (c\<lparr>dc_ready := K @ cd # R\<rparr>)" and el: "eligible cf v host q cd c = RejectNone"
    and acc: "accept_candidate cf v host q draw cd c = (keep, res, c')"
  shows "cache_ok (c'\<lparr>dc_ready := K @ (case keep of None \<Rightarrow> [] | Some k \<Rightarrow> [k]) @ R\<rparr>)"
proof -
  note D = eligibleD [OF el] and E = accept_candidate_eqs [OF acc D(3)]
  let ?h = "\<lparr>hc_unit = cd_id cd, hc_account = v, hc_until = hold_until cf (cd_unit cd) c,
      hc_host = host, hc_subject = requester_subject v q\<rparr>"
  have hs: "dc_holds c' = dc_holds c @ [?h]" by (rule E(1))
  have new: "(cd_id cd, v) \<notin> (\<lambda>h. (hc_unit h, hc_account h)) ` set (dc_holds c)"
    "(cd_id cd, requester_subject v q) \<notin> (\<lambda>h. (hc_unit h, hc_subject h)) ` set (dc_holds c)"
    using D(3,4) by (auto simp: holders_of_def image_iff)
  have ids: "distinct (map cd_id (K @ cd # R))" using ok by (simp add: cache_ok_def)
  have d: "distinct (map (\<lambda>h. (hc_unit h, hc_account h)) (dc_holds c'))"
    "distinct (map (\<lambda>h. (hc_unit h, hc_subject h)) (dc_holds c'))"
    using ok new by (simp_all add: cache_ok_def hs)
  have k: "cd_id k = cd_id cd" "int (length (holders_of (cd_id cd) c')) \<le> cd_redundancy k" if "keep = Some k" for k
    using E(9) [OF that] by (simp_all add: holders_of_append [OF hs])
  have other: "holders_of (cd_id x) c' = [] \<or> int (length (holders_of (cd_id x) c')) \<le> cd_redundancy x"
    if "x \<in> set (K @ R)" for x
  proof -
    have "cd_id x \<in> cd_id ` set (K @ R)" using that by (rule imageI)
    then have "cd_id x \<noteq> cd_id cd" using ids by auto
    then have "holders_of (cd_id x) c' = holders_of (cd_id x) c" by (simp add: holders_of_append [OF hs])
    moreover have "x \<in> set (dc_ready (c\<lparr>dc_ready := K @ cd # R\<rparr>))" using that by auto
    ultimately show ?thesis using ok unfolding cache_ok_def held_ready by metis
  qed
  have fl: "\<forall>h. 0 \<le> dc_inflight c' h" using ok by (auto simp: cache_ok_def E(2))
  show ?thesis
  proof (cases keep)
    case None
    show ?thesis unfolding None cache_ok_def held_ready using d ids other fl by auto
  next
    case (Some k0)
    show ?thesis unfolding Some cache_ok_def held_ready using d ids other fl k [OF Some] by auto
  qed
qed

lemma scan_ready_step:
  assumes "\<not> length (ss_results st) \<ge> n"
  shows "eligible cf v host q cd (ss_cache st) = RejectNone \<Longrightarrow>
      accept_candidate cf v host q (draws (length (ss_results st))) cd (ss_cache st) = (keep, res, c') \<Longrightarrow>
      scan_ready cf v host q draws n (cd # cds) st =
        (case scan_ready cf v host q draws n cds (st\<lparr>ss_cache := c', ss_results := ss_results st @ [res]\<rparr>) of
           (rest, st') \<Rightarrow> ((case keep of None \<Rightarrow> [] | Some k \<Rightarrow> [k]) @ rest, st'))"
    "eligible cf v host q cd (ss_cache st) \<noteq> RejectNone \<Longrightarrow>
      scan_ready cf v host q draws n (cd # cds) st =
        (case scan_ready cf v host q draws n cds
            (refuse_candidate cf v host q cd (eligible cf v host q cd (ss_cache st)) st) of
           (rest, st') \<Rightarrow> (cd # rest, st'))"
  using assms by (auto split: reject_reason.splits option.splits prod.splits)

lemma scan_ready_full: "length (ss_results st) \<ge> n \<Longrightarrow> scan_ready cf v host q draws n cds st = (cds, st)"
  by (cases cds) simp_all

lemma refuse_candidate_simps [simp]:
  "ss_cache (refuse_candidate cf v host q cd r st) = ss_cache st"
  "ss_results (refuse_candidate cf v host q cd r st) = ss_results st"
  by (simp_all add: refuse_candidate_def Let_def)

text \<open>The scan, candidate by candidate; \<open>K\<close> is what it has kept so far.\<close>

lemma cache_ok_scan:
  "cache_ok ((ss_cache st)\<lparr>dc_ready := K @ cds\<rparr>) \<Longrightarrow> scan_ready cf v host q draws n cds st = (kept, st') \<Longrightarrow>
   cache_ok ((ss_cache st')\<lparr>dc_ready := K @ kept\<rparr>)"
proof (induction cds arbitrary: K st kept)
  case (Cons cd cds)
  show ?case
  proof (cases "length (ss_results st) \<ge> n")
    case True
    then show ?thesis using Cons.prems by (simp add: scan_ready_full)
  next
    case n: False
    show ?thesis
    proof (cases "eligible cf v host q cd (ss_cache st) = RejectNone")
      case True
      obtain keep res c' where acc: "accept_candidate cf v host q (draws (length (ss_results st))) cd (ss_cache st) = (keep, res, c')"
        by (cases "accept_candidate cf v host q (draws (length (ss_results st))) cd (ss_cache st)") auto
      let ?k = "case keep of None \<Rightarrow> [] | Some k \<Rightarrow> [k]"
      obtain rest where rest: "scan_ready cf v host q draws n cds (st\<lparr>ss_cache := c', ss_results := ss_results st @ [res]\<rparr>) = (rest, st')"
        "kept = ?k @ rest"
        using Cons.prems(2) scan_ready_step(1) [where draws = draws, OF n True acc] by (auto split: prod.splits)
      have "cache_ok (c'\<lparr>dc_ready := (K @ ?k) @ cds\<rparr>)"
        using cache_ok_accept [OF Cons.prems(1) True acc] by simp
      then show ?thesis using Cons.IH [where st = "st\<lparr>ss_cache := c', ss_results := ss_results st @ [res]\<rparr>" and K = "K @ ?k" and kept = rest] rest
        by simp
    next
      case False
      obtain rest where rest: "scan_ready cf v host q draws n cds
          (refuse_candidate cf v host q cd (eligible cf v host q cd (ss_cache st)) st) = (rest, st')" "kept = cd # rest"
        using Cons.prems(2) scan_ready_step(2) [where draws = draws, OF n False] by (auto split: prod.splits)
      then show ?thesis
        using Cons.IH [where st = "refuse_candidate cf v host q cd (eligible cf v host q cd (ss_cache st)) st" and K = "K @ [cd]" and kept = rest] Cons.prems(1)
        by simp
    qed
  qed
qed simp

lemma cache_ok_ready_id: "cache_ok (c\<lparr>dc_ready := dc_ready c\<rparr>) = cache_ok c"
  by simp

lemma cache_ok_fields:
  "cache_ok (c\<lparr>dc_last_hand_out := x\<rparr>) = cache_ok c" "cache_ok (c\<lparr>dc_pending := p\<rparr>) = cache_ok c"
  "cache_ok (c\<lparr>dc_spot := s\<rparr>) = cache_ok c" "cache_ok (c\<lparr>dc_fallback_runs := r\<rparr>) = cache_ok c"
  "cache_ok (c\<lparr>dc_leafs := l\<rparr>) = cache_ok c" "cache_ok (c\<lparr>dc_trust_scores := ts\<rparr>) = cache_ok c"
  "cache_ok (c\<lparr>dc_standing := se\<rparr>) = cache_ok c" "cache_ok (c\<lparr>dc_scores := sc\<rparr>) = cache_ok c"
  "cache_ok (c\<lparr>dc_now := t\<rparr>) = cache_ok c"
  by (simp_all add: cache_ok_def holders_of_def)

text \<open>The reply of a poll is the paced refusal or the scan's; the cache it leaves is the scan's with the kept pool.\<close>

definition scan_start :: "dcache \<Rightarrow> scan_state" where
  "scan_start c = \<lparr>ss_cache = c, ss_results = [], ss_rejects = [], ss_tally = empty_tally\<rparr>"

lemma hand_out_scan:
  obtains (paced) "snd (hand_out cf v q n draws c) = c" "hr_results (fst (hand_out cf v q n draws c)) = []"
  | (scan) kept st l where
    "scan_ready cf v (meter_id v (ao_host q)) (resolved_options cf v (meter_id v (ao_host q)) q c) draws
       (nat (max 1 n)) (dc_ready c) (scan_start c) = (kept, st)"
    "snd (hand_out cf v q n draws c) = (ss_cache st)\<lparr>dc_ready := kept, dc_last_hand_out := l\<rparr>"
    "hr_results (fst (hand_out cf v q n draws c)) = ss_results st"
proof (cases "cf_min_send_interval cf > 0 \<and> (case dc_last_hand_out c (meter_id v (ao_host q)) of None \<Rightarrow> False
    | Some t \<Rightarrow> dc_now c - t < cf_min_send_interval cf)")
  case True
  then show ?thesis by (intro paced) (simp_all add: hand_out_def Let_def)
next
  case False
  have n: "(if n < 1 then 1 else n) = max 1 n" by simp
  obtain kept st where scan_eq: "scan_ready cf v (meter_id v (ao_host q)) (resolved_options cf v (meter_id v (ao_host q)) q c)
      draws (nat (max 1 n)) (dc_ready c) (scan_start c) = (kept, st)" by (rule prod.exhaust)
  note E = hand_out_def [of cf v q n draws c, folded scan_start_def, unfolded Let_def n if_not_P [OF False] scan_eq prod.case]
  have "\<exists>l. snd (hand_out cf v q n draws c) = (ss_cache st)\<lparr>dc_ready := kept, dc_last_hand_out := l\<rparr>"
  proof (cases "ss_results st \<noteq> [] \<and> cf_min_send_interval cf > 0")
    case True
    then show ?thesis unfolding E by auto
  next
    case False
    then show ?thesis unfolding E by (intro exI [where x = "dc_last_hand_out (ss_cache st)"]) (auto split: if_splits)
  qed
  moreover have "hr_results (fst (hand_out cf v q n draws c)) = ss_results st" unfolding E by simp
  ultimately show ?thesis using scan scan_eq by blast
qed

lemma cache_ok_hand_out: "cache_ok c \<Longrightarrow> cache_ok (snd (hand_out cf v q n draws c))"
proof (cases rule: hand_out_scan [of cf v q n draws c])
  case (scan kept st l)
  assume "cache_ok c"
  then have "cache_ok ((ss_cache st)\<lparr>dc_ready := kept\<rparr>)"
    using cache_ok_scan [OF _ scan(1), of "[]"] by (simp add: scan_start_def)
  then show ?thesis unfolding scan(2) by (simp add: cache_ok_fields)
qed simp

lemma cache_ok_stage_all: "cache_ok c \<Longrightarrow> cache_ok (stage_all cf cds c)"
proof (induction cds arbitrary: c)
  case (Cons cd cds)
  have "cache_ok (c\<lparr>dc_ready := dc_ready c @ [cd]\<rparr>)" if "stageable c cd"
    using Cons.prems that by (auto simp: cache_ok_def stageable_def held_def ready_contains_def)
  then show ?case using Cons by simp
qed simp

lemma evict_from_back_sub:
  "set (evict_from_back P n xs) \<subseteq> set xs" "distinct (map f xs) \<Longrightarrow> distinct (map f (evict_from_back P n xs))"
proof -
  show S: "set (evict_from_back P n xs) \<subseteq> set xs" for n xs
    by (induction xs arbitrary: n) auto
  show "distinct (map f xs) \<Longrightarrow> distinct (map f (evict_from_back P n xs))"
    by (induction xs arbitrary: n) (use S in force)+
qed

lemma cache_ok_stage: "cache_ok c \<Longrightarrow> cache_ok (stage_batch cf leafs cds c)"
proof -
  assume ok: "cache_ok c"
  have "cache_ok (evict_for_leaf_demand need leafs c)" for need
  proof (rule cache_ok_ready [OF ok])
    let ?P = "\<lambda>cd. wu_leaf (cd_unit cd) \<notin> set leafs \<and> \<not> held (cd_id cd) c"
    have "distinct (map cd_id (rev (dc_ready c)))" using ok by (simp add: cache_ok_def rev_map [symmetric])
    then show "distinct (map cd_id (dc_ready (evict_for_leaf_demand need leafs c)))"
      using evict_from_back_sub(2) [of cd_id "rev (dc_ready c)" ?P "nat need"]
      by (simp add: evict_for_leaf_demand_def rev_map [symmetric])
    show "\<exists>cd0\<in>set (dc_ready c). cd_id cd0 = cd_id cd \<and> cd_redundancy cd0 = cd_redundancy cd"
      if "cd \<in> set (dc_ready (evict_for_leaf_demand need leafs c))" for cd
      using that evict_from_back_sub(1) [of ?P "nat need" "rev (dc_ready c)"] by (auto simp: evict_for_leaf_demand_def)
  qed (simp_all add: evict_for_leaf_demand_def)
  then show ?thesis using ok by (simp add: stage_batch_def Let_def cache_ok_stage_all)
qed

end
