(* ===== verification/DispatchSteps.thy ===== *)
theory DispatchSteps
  imports DispatchInvariant
begin

text \<open>
  The dispatch cache as a state machine: one step per critical section, in any order and with any
  arguments, so every interleaving of polls, flushes, refills, run-starts, closures and reconciles
  is a run. What every run keeps, and what one poll does to the machine's meter.
\<close>

subsection \<open>The step relation\<close>

text \<open>
  A fallback's units were outside the pool and unheld when its plan was made; the step \<open>fallback\<close> is
  taken while they still are (\<open>excluded_ids\<close>).
\<close>

inductive cache_step :: "cache_config \<Rightarrow> dcache \<Rightarrow> dcache \<Rightarrow> bool" for cf :: cache_config where
  poll: "cache_step cf c (snd (hand_out cf v q n draws c))"
| ship: "cache_step cf c (snd (ship_unit cf read v q r c))"
| release: "cache_step cf c (release_in_mem u v c)"
| close: "cache_step cf c (close_copy_in_mem u v how c)"
| unit_done: "cache_step cf c (on_unit_done u c)"
| invalidate: "cache_step cf c (invalidate_work_unit u c)"
| run_start: "cache_step cf c (on_run_start u v c)"
| stage: "cache_step cf c (stage_batch cf leafs cds c)"
| drop_leaf: "cache_step cf c (drop_staged_of_leaf l c)"
| leaf_cached: "cache_step cf c (cache_leaf lf c)"
| leaf_changed: "cache_step cf c (invalidate_leaf l c)"
| leafs_refreshed: "cache_step cf c (refresh_stale_leaf_snapshots cf db_leaf c)"
| trust_refreshed: "cache_step cf c (refresh_trust_scores read_trust c)"
| standing_refreshed: "cache_step cf c (refresh_standing read_standing c)"
| scores_refreshed: "cache_step cf c (c\<lparr>dc_scores := sc\<rparr>)"
| flush_taken: "cache_step cf c (snd (take_flush_batch cf c))"
| flush_requeued: "cache_step cf c (requeue_writes batch c)"
| spot_taken: "cache_step cf c (snd (take_spot_batch cf c))"
| spot_requeued: "cache_step cf c (requeue_spot_checks spots c)"
| lapsed: "cache_step cf c (release_lapsed_holds c)"
| recount: "(\<And>h. 0 \<le> counts h) \<Longrightarrow> cache_step cf c (recount_inflight cf counts c)"
| held_noted: "cache_step cf c (note_volunteer_held v host us c)"
| pruned: "cache_step cf c (prune_fallback_runs c)"
| fallback: "distinct (map wu_id landed) \<Longrightarrow> wu_id ` set landed \<inter> set (excluded_ids c) = {} \<Longrightarrow>
    cache_step cf c (land_fallback cf v host subj key landed c)"
| clock: "dc_now c \<le> t \<Longrightarrow> cache_step cf c (c\<lparr>dc_now := t\<rparr>)"

definition fresh_cache :: "time \<Rightarrow> dcache" where
  "fresh_cache t = \<lparr>dc_ready = [], dc_holds = [], dc_inflight = (\<lambda>_. 0), dc_last_hand_out = Map.empty, dc_pending = [],
     dc_spot = [], dc_trust_scores = (\<lambda>_. 0), dc_standing = Map.empty, dc_leafs = Map.empty, dc_scores = Map.empty,
     dc_fallback_runs = Map.empty, dc_trust_at = None, dc_standing_at = None, dc_held_reports = [], dc_now = t\<rparr>"

inductive cache_reachable :: "cache_config \<Rightarrow> dcache \<Rightarrow> bool" for cf :: cache_config where
  fresh: "cache_reachable cf (fresh_cache t)"
| step: "cache_reachable cf c \<Longrightarrow> cache_step cf c c' \<Longrightarrow> cache_reachable cf c'"

subsection \<open>Every section keeps the invariant\<close>

lemma cache_ok_same:
  assumes "cache_ok c" "dc_ready c' = dc_ready c" "dc_holds c' = dc_holds c" "dc_inflight c' = dc_inflight c"
  shows "cache_ok c'"
  using assms by (simp add: cache_ok_def holders_of_def)

lemma cache_ok_ship: "cache_ok c \<Longrightarrow> cache_ok (snd (ship_unit cf read v q r c))"
proof -
  assume ok: "cache_ok c"
  obtain u t where r: "r = (u, t)" by (cases r)
  obtain x c1 where g: "get_leaf cf (read (wu_leaf u)) (wu_leaf u) c = (x, c1)" by (rule prod.exhaust)
  have c1: "cache_ok c1"
    using ok by (rule cache_ok_same) (use g in \<open>auto simp: get_leaf_def split: prod.splits option.splits bool.splits\<close>)
  then show ?thesis by (auto simp: ship_unit_def r g intro: cache_ok_release split: option.split)
qed

lemma cache_ok_drop_staged: "cache_ok c \<Longrightarrow> cache_ok (drop_staged_of_leaf l c)"
  by (rule cache_ok_ready) (auto simp: drop_staged_of_leaf_def cache_ok_def distinct_map_filter)

lemma cache_ok_refresh_leafs: "cache_ok c \<Longrightarrow> cache_ok (refresh_stale_leaf_snapshots cf db_leaf c)"
proof -
  have step: "cache_ok (refresh_leaf db_leaf l c)" if "cache_ok c" for l c
    using that by (auto simp: refresh_leaf_def cache_ok_fields intro: cache_ok_drop_staged split: option.split)
  have "cache_ok c \<Longrightarrow> cache_ok (fold (refresh_leaf db_leaf) ls c)" for ls
    by (induction ls arbitrary: c) (auto intro: step)
  then show "cache_ok c \<Longrightarrow> cache_ok (refresh_stale_leaf_snapshots cf db_leaf c)"
    by (simp add: refresh_stale_leaf_snapshots_def)
qed

lemma cache_ok_lapsed: "cache_ok c \<Longrightarrow> cache_ok (release_lapsed_holds c)"
proof -
  have "cache_ok c' \<Longrightarrow> cache_ok (fold (\<lambda>h. if P h then release_in_mem (hc_unit h) (hc_account h) else id) hs c')" for P hs c'
    by (induction hs arbitrary: c') (auto intro: cache_ok_release)
  then show "cache_ok c \<Longrightarrow> cache_ok (release_lapsed_holds c)" by (simp add: release_lapsed_holds_def)
qed

lemma cache_ok_recount: "cache_ok c \<Longrightarrow> (\<And>h. 0 \<le> counts h) \<Longrightarrow> cache_ok (recount_inflight cf counts c)"
  by (simp add: recount_inflight_def cache_ok_def holders_of_def pending_of_machine_def count_if_def)

text \<open>The holds and counts of a landed fallback, unit by unit.\<close>

definition land_holds :: "cache_config \<Rightarrow> uid \<Rightarrow> uid \<Rightarrow> string \<Rightarrow> work_unit list \<Rightarrow> dcache \<Rightarrow> dcache" where
  "land_holds cf v host subj = fold (\<lambda>u c. c\<lparr>dc_holds := put_hold \<lparr>hc_unit = wu_id u, hc_account = v,
      hc_until = hold_until cf u c, hc_host = host, hc_subject = subj\<rparr> (dc_holds c),
      dc_inflight := (dc_inflight c)(host := dc_inflight c host + 1)\<rparr>)"

lemma cache_ok_land_holds:
  "cache_ok c \<Longrightarrow> distinct (map wu_id us) \<Longrightarrow> wu_id ` set us \<inter> set (excluded_ids c) = {} \<Longrightarrow> cache_ok (land_holds cf v host subj us c)"
proof (induction us arbitrary: c)
  case (Cons u us)
  let ?h = "\<lparr>hc_unit = wu_id u, hc_account = v, hc_until = hold_until cf u c, hc_host = host, hc_subject = subj\<rparr>"
  let ?c = "c\<lparr>dc_holds := put_hold ?h (dc_holds c), dc_inflight := (dc_inflight c)(host := dc_inflight c host + 1)\<rparr>"
  have new: "wu_id u \<notin> hc_unit ` set (dc_holds c)" "wu_id u \<notin> cd_id ` set (dc_ready c)"
    using Cons.prems(3) by (auto simp: excluded_ids_def)
  then have no: "holders_of (wu_id u) c = []" by (force simp: holders_of_def filter_empty_conv)
  then have hs: "dc_holds ?c = dc_holds c @ [?h]" using put_hold_new [where v = v and u = "wu_id u" and c = c] by simp
  have same: "holders_of (cd_id cd) ?c = holders_of (cd_id cd) c" if "cd \<in> set (dc_ready c)" for cd
  proof -
    have "wu_id u \<noteq> cd_id cd" using new(2) that by auto
    then show ?thesis using holders_of_append [OF hs] by simp
  qed
  have "(wu_id u, v) \<notin> set (map (\<lambda>h. (hc_unit h, hc_account h)) (dc_holds c))"
    "(wu_id u, subj) \<notin> set (map (\<lambda>h. (hc_unit h, hc_subject h)) (dc_holds c))" using new(1) by auto
  moreover have "dc_ready ?c = dc_ready c" "\<forall>h. 0 \<le> dc_inflight ?c h" using Cons.prems(1) by (auto simp: cache_ok_def)
  ultimately have "cache_ok ?c" using Cons.prems(1) same unfolding cache_ok_def hs by auto
  moreover have "set (excluded_ids ?c) = insert (wu_id u) (set (excluded_ids c))"
    by (simp add: excluded_ids_def hs [simplified])
  ultimately have "cache_ok (land_holds cf v host subj us ?c)"
    using Cons.prems(2,3) by (intro Cons.IH) auto
  then show ?case by (simp add: land_holds_def)
qed (simp add: land_holds_def)

lemma cache_ok_fallback:
  assumes "cache_ok c" "distinct (map wu_id landed)" "wu_id ` set landed \<inter> set (excluded_ids c) = {}"
  shows "cache_ok (land_fallback cf v host subj key landed c)"
  using cache_ok_land_holds [OF assms] by (simp add: land_fallback_def land_holds_def [symmetric] Let_def cache_ok_fields)

lemma cache_ok_step: "cache_step cf c c' \<Longrightarrow> cache_ok c \<Longrightarrow> cache_ok c'"
proof (induction rule: cache_step.induct)
  case (leaf_cached c lf)
  then show ?case by (simp add: cache_leaf_def cache_ok_fields)
next
  case (leaf_changed c l)
  then show ?case by (simp add: invalidate_leaf_def cache_ok_fields split: option.split prod.split)
next
  case (trust_refreshed c read_trust)
  then show ?case by (rule cache_ok_same) (auto simp: refresh_trust_scores_def split: option.split)
next
  case (standing_refreshed c read_standing)
  then show ?case by (rule cache_ok_same) (auto simp: refresh_standing_def split: option.split)
next
  case (held_noted c v host us)
  then show ?case by (rule cache_ok_same) (auto simp: note_volunteer_held_def)
qed (simp_all add: cache_ok_hand_out cache_ok_ship cache_ok_release cache_ok_close cache_ok_done cache_ok_invalidate
    cache_ok_run_start cache_ok_stage cache_ok_drop_staged cache_ok_refresh_leafs cache_ok_fields take_flush_batch_def
    requeue_writes_def take_spot_batch_def requeue_spot_checks_def cache_ok_lapsed cache_ok_recount prune_fallback_runs_def
    cache_ok_fallback)

lemma cache_ok_fresh: "cache_ok (fresh_cache t)"
  by (simp add: fresh_cache_def cache_ok_def holders_of_def)

lemma cache_ok_reachable: "cache_reachable cf c \<Longrightarrow> cache_ok c"
  by (induction rule: cache_reachable.induct) (auto intro: cache_ok_step cache_ok_fresh)

subsection \<open>What one poll does\<close>

text \<open>The hold a poll of account \<open>v\<close> on machine \<open>host\<close> takes for one unit of its reply.\<close>

definition hold_of :: "uid \<Rightarrow> uid \<Rightarrow> assignment_options \<Rightarrow> work_unit \<times> time \<Rightarrow> held_copy" where
  "hold_of v host q r =
     \<lparr>hc_unit = wu_id (fst r), hc_account = v, hc_until = snd r, hc_host = host, hc_subject = requester_subject v q\<rparr>"

text \<open>What the request and the snapshots say of a unit that may be handed out, whatever else is held.\<close>

definition admissible :: "uid \<Rightarrow> assignment_options \<Rightarrow> dcache \<Rightarrow> uid \<Rightarrow> bool" where
  "admissible v q c l \<longleftrightarrow>
     (ao_leaf_ids q = [] \<or> l \<in> set (ao_leaf_ids q)) \<and> l \<notin> set (ao_blocked_leaf_ids q) \<and>
     standing_of v c \<noteq> standing_benched \<and>
     (\<exists>lf. peek_leaf l c = Some lf \<and> leaf_matches_capabilities lf q \<and> (hidden_leaf lf \<longrightarrow> l \<in> set (ao_leaf_ids q)))"

lemma accept_snd: "accept_candidate cf v host q draw cd c = (keep, res, c') \<Longrightarrow> snd res = hold_until cf (cd_unit cd) c"
  by (auto simp: accept_candidate_def Let_def)

lemma admissible_same:
  "dc_leafs c' = dc_leafs c \<Longrightarrow> dc_standing c' = dc_standing c \<Longrightarrow> dc_now c' = dc_now c \<Longrightarrow>
   admissible v q c' l = admissible v q c l"
  by (simp add: admissible_def standing_of_def peek_leaf_def cong: option.case_cong)

lemma capabilities_ignore_inflight:
  "leaf_matches_capabilities lf (q\<lparr>ao_max_inflight := k\<rparr>) = leaf_matches_capabilities lf q"
  by (simp add: leaf_matches_capabilities_def budgets_for_def Let_def cong: option.case_cong)

definition scan_summary ::
  "uid \<Rightarrow> uid \<Rightarrow> assignment_options \<Rightarrow> nat \<Rightarrow> candidate list \<Rightarrow> dcache \<Rightarrow> (work_unit \<times> time) list \<Rightarrow> dcache \<Rightarrow> bool" where
  "scan_summary v host q room cds c new c' \<longleftrightarrow>
     length new \<le> room \<and>
     dc_holds c' = dc_holds c @ map (hold_of v host q) new \<and>
     dc_inflight c' = (dc_inflight c)(host := dc_inflight c host + int (length new)) \<and>
     (ao_max_inflight q > 0 \<longrightarrow> new \<noteq> [] \<longrightarrow> dc_inflight c' host \<le> ao_max_inflight q) \<and>
     (\<forall>r\<in>set new. wu_id (fst r) \<in> cd_id ` set cds \<and> admissible v q c (wu_leaf (fst r))) \<and>
     dc_leafs c' = dc_leafs c \<and> dc_standing c' = dc_standing c \<and> dc_now c' = dc_now c"

lemma scan_summary_nil: "scan_summary v host q room cds c [] c"
  by (simp add: scan_summary_def)

lemma scan_summary_weaken:
  "scan_summary v host q room cds c new c' \<Longrightarrow> scan_summary v host q room (cd # cds) c new c'"
  by (auto simp: scan_summary_def)

lemma scan_summary_cons:
  assumes el: "eligible cf v host q cd c = RejectNone" and acc: "accept_candidate cf v host q draw cd c = (keep, res, c1)"
    and rest: "scan_summary v host q room cds c1 new c'"
  shows "scan_summary v host q (Suc room) (cd # cds) c (res # new) c'"
proof -
  note D = eligibleD [OF el] and E = accept_candidate_eqs [OF acc eligibleD(3) [OF el]]
  have adm: "admissible v q c (wu_leaf (cd_unit cd))"
    unfolding admissible_def using D(8,10,11,12) by simp
  have same: "admissible v q c1 l = admissible v q c l" for l by (rule admissible_same) (rule E)+
  have "dc_holds c1 = dc_holds c @ [hold_of v host q res]"
    unfolding E(1) hold_of_def by (simp add: E(7) accept_snd [OF acc])
  moreover have "wu_id (fst res) = cd_id cd" "wu_leaf (fst res) = wu_leaf (cd_unit cd)" by (rule E)+
  moreover have "dc_inflight c' host \<le> ao_max_inflight q" if "ao_max_inflight q > 0"
    using rest that D(9) E(2) by (cases "new = []") (auto simp: scan_summary_def)
  ultimately show ?thesis
    using rest adm E(2,4,5,6) by (auto simp: scan_summary_def same)
qed

lemma scan_ready_summary:
  "scan_ready cf v host q draws n cds st = (kept, st') \<Longrightarrow>
   \<exists>new. ss_results st' = ss_results st @ new \<and>
     scan_summary v host q (n - length (ss_results st)) cds (ss_cache st) new (ss_cache st')"
proof (induction cds arbitrary: st kept)
  case Nil
  then show ?case by (intro exI [where x = "[]"]) (simp add: scan_summary_nil)
next
  case (Cons cd cds)
  show ?case
  proof (cases "length (ss_results st) \<ge> n")
    case True
    then show ?thesis using Cons.prems by (intro exI [where x = "[]"]) (simp add: scan_ready_full scan_summary_nil)
  next
    case n: False
    show ?thesis
    proof (cases "eligible cf v host q cd (ss_cache st) = RejectNone")
      case True
      obtain keep res c1 where acc: "accept_candidate cf v host q (draws (length (ss_results st))) cd (ss_cache st) = (keep, res, c1)"
        by (cases "accept_candidate cf v host q (draws (length (ss_results st))) cd (ss_cache st)") auto
      let ?st = "st\<lparr>ss_cache := c1, ss_results := ss_results st @ [res]\<rparr>"
      obtain rest where "scan_ready cf v host q draws n cds ?st = (rest, st')"
        using Cons.prems scan_ready_step(1) [where draws = draws, OF n True acc] by (auto split: prod.splits)
      from Cons.IH [OF this] obtain new where new: "ss_results st' = ss_results st @ res # new"
        "scan_summary v host q (n - Suc (length (ss_results st))) cds c1 new (ss_cache st')" by auto
      have "Suc (n - Suc (length (ss_results st))) = n - length (ss_results st)" using n by simp
      then show ?thesis using new(1) scan_summary_cons [OF True acc new(2)] by metis
    next
      case False
      obtain rest where "scan_ready cf v host q draws n cds
          (refuse_candidate cf v host q cd (eligible cf v host q cd (ss_cache st)) st) = (rest, st')"
        using Cons.prems scan_ready_step(2) [where draws = draws, OF n False] by (auto split: prod.splits)
      from Cons.IH [OF this] show ?thesis using scan_summary_weaken by fastforce
    qed
  qed
qed

lemma hand_out_summary:
  "scan_summary v (meter_id v (ao_host q)) (resolved_options cf v (meter_id v (ao_host q)) q c) (nat (max 1 n)) (dc_ready c) c
     (hr_results (fst (hand_out cf v q n draws c))) (snd (hand_out cf v q n draws c))"
proof (cases rule: hand_out_scan [of cf v q n draws c])
  case paced
  then show ?thesis by (simp add: scan_summary_nil)
next
  case (scan kept st l)
  obtain new where "ss_results st = new"
    "scan_summary v (meter_id v (ao_host q)) (resolved_options cf v (meter_id v (ao_host q)) q c) (nat (max 1 n)) (dc_ready c) c
       new (ss_cache st)"
    using scan_ready_summary [OF scan(1)] by (auto simp: scan_start_def)
  then show ?thesis unfolding scan(2,3) by (auto simp: scan_summary_def)
qed

subsection \<open>A small pool\<close>

text \<open>A pool of one replicated unit, for concrete instances.\<close>

definition demo_config :: cache_config where
  "demo_config = \<lparr>cf_ready_pool_size = 10, cf_low_watermark = 2, cf_refill_batch = 5, cf_flush_batch = 8,
     cf_lease_seconds = 600, cf_min_send_interval = 0, cf_leaf_ttl = 30, cf_quota_enabled = False,
     cf_reliability_floor = 2, cf_inflight_per_core = 2\<rparr>"

definition demo_request :: "uid \<Rightarrow> uid option \<Rightarrow> assignment_options" where
  "demo_request v host = \<lparr>ao_volunteer = v, ao_leaf_ids = [], ao_blocked_leaf_ids = [], ao_max_cpu_cores = 4,
     ao_max_memory_mb = 8192, ao_max_disk_mb = 20480, ao_has_gpu = False, ao_max_gpu_vram_mb = 0,
     ao_runtimes = [runtime_container], ao_gpu_vendors = [], ao_gpu_compute_capabilities = [], ao_max_inflight = 3,
     ao_hr_class = '''', ao_host = host, ao_trust_subject = '''', ao_benchmark_fpops = 0, ao_host_max_cpu_cores = 0,
     ao_host_max_memory_mb = 0\<rparr>"

definition demo_candidate :: "uid \<Rightarrow> candidate" where
  "demo_candidate u = \<lparr>cd_unit = queued_unit u ''L'', cd_redundancy = 2, cd_active = 0, cd_probation = 0,
     cd_contributors = [], cd_benched = Map.empty, cd_trust_k = 0, cd_trust_floor = 0, cd_trusted = [], cd_run_started = []\<rparr>"

definition demo_pool :: dcache where
  "demo_pool = stage_batch demo_config [] [demo_candidate ''U'']
     (cache_leaf (active_leaf ''L'' default_validation_config) (fresh_cache 100))"

lemma demo_pool_reachable: "cache_reachable demo_config demo_pool"
  unfolding demo_pool_def by (rule cache_reachable.step, rule cache_reachable.step, rule cache_reachable.fresh)
    (rule cache_step.intros)+

lemma demo_pool_eq:
  "demo_pool = (fresh_cache 100)\<lparr>dc_ready := [demo_candidate ''U''],
     dc_leafs := [''L'' \<mapsto> (active_leaf ''L'' default_validation_config, 100)]\<rparr>"
  by (simp add: demo_pool_def stage_batch_def cache_leaf_def fresh_cache_def stageable_def held_def holders_of_def
      ready_contains_def demo_config_def active_leaf_def Let_def)

lemmas demo_defs = demo_config_def demo_request_def demo_candidate_def demo_pool_eq fresh_cache_def queued_unit_def active_leaf_def
  default_validation_config_def apply_validation_config_defaults_def zero_validation_config_def plain_execution_config_def
  plain_resource_requirements_def

lemmas eligible_defs = eligible_def countable_coverage_def countable_holders_def holders_of_def in_mem_holder_cap_def trust_reserved_def
  bench_refuses_def standing_of_def peek_leaf_fresh_def hidden_leaf_def leaf_matches_capabilities_def budgets_for_def
  feasible_by_deadline_def count_if_def requester_subject_def

lemma demo_hand_out:
  "hr_results (fst (hand_out demo_config ''A'' (demo_request ''A'' (Some ''M'')) 1 (\<lambda>_. None) demo_pool)) =
     [(queued_unit ''U'' ''L'', 21700)]"
  "hr_cap (fst (hand_out demo_config ''A'' (demo_request ''A'' (Some ''M'')) 1 (\<lambda>_. None) demo_pool)) = 3"
  "dc_holds (snd (hand_out demo_config ''A'' (demo_request ''A'' (Some ''M'')) 1 (\<lambda>_. None) demo_pool)) =
     [\<lparr>hc_unit = ''U'', hc_account = ''A'', hc_until = 21700, hc_host = ''M'', hc_subject = ''vol:A''\<rparr>]"
  by (simp_all add: hand_out_def resolved_options_def effective_inflight_cap_def meter_id_def demo_defs eligible_defs
      accept_candidate_def hold_until_def put_hold_def pin_class_def peek_leaf_def chosen_for_spot_check_def Let_def
      subject_for_volunteer_id_def)

subsection \<open>The invariant of a running cache\<close>


lemma demo_polled_reachable:
  "cache_reachable demo_config (snd (hand_out demo_config ''A'' (demo_request ''A'' (Some ''M'')) 1 (\<lambda>_. None) demo_pool))"
  by (rule cache_reachable.step [OF demo_pool_reachable]) (rule cache_step.poll)


text \<open>C5. One poll is metered exactly: it returns at most what was asked (and at least one may be), takes
  one hold per unit it returns and no other, raises the count of the machine it ran on by exactly the
  number of units returned and no other machine's, leaves that count within the cap it reports, and
  returns only units that were staged and whose leaf the request may have: in its filter, not blocked,
  known, within the machine's capabilities, and named by the request when it is not public.\<close>

theorem hand_out_is_metered:
  assumes "hand_out cf v q n draws c = (r, c')"
  shows "let m = meter_id v (ao_host q) in
    int (length (hr_results r)) \<le> max 1 n \<and>
    dc_holds c' = dc_holds c @ map (hold_of v m q) (hr_results r) \<and>
    dc_inflight c' = (dc_inflight c)(m := dc_inflight c m + int (length (hr_results r))) \<and>
    (0 < hr_cap r \<longrightarrow> hr_results r \<noteq> [] \<longrightarrow> dc_inflight c' m \<le> hr_cap r) \<and>
    (\<forall>x\<in>set (hr_results r). wu_id (fst x) \<in> cd_id ` set (dc_ready c) \<and> admissible v q c (wu_leaf (fst x)))"
proof -
  let ?m = "meter_id v (ao_host q)"
  let ?q = "resolved_options cf v ?m q c"
  obtain k where q: "?q = q\<lparr>ao_max_inflight := k\<rparr>" by (simp add: resolved_options_def Let_def)
  have adm: "admissible v ?q c l = admissible v q c l" for l
    unfolding q by (simp add: admissible_def capabilities_ignore_inflight)
  have hold: "hold_of v ?m ?q = hold_of v ?m q"
    unfolding q by (rule ext) (simp add: hold_of_def requester_subject_def)
  have cap: "hr_cap r = ao_max_inflight ?q"
    using assms by (auto simp: hand_out_def Let_def split: prod.splits if_splits simp del: not_le)
  have S: "scan_summary v ?m ?q (nat (max 1 n)) (dc_ready c) c (hr_results r) c'"
    using hand_out_summary [of v q cf c n draws] assms by simp
  then have "length (hr_results r) \<le> nat (max 1 n)" by (simp only: scan_summary_def)
  then have n: "int (length (hr_results r)) \<le> max 1 n" by linarith
  show ?thesis
    using S unfolding Let_def cap scan_summary_def hold adm by (elim conjE) (intro conjI n; assumption)
qed

theorem hand_out_is_metered_witness:
  "let (r, c') = hand_out demo_config ''A'' (demo_request ''A'' (Some ''M'')) 1 (\<lambda>_. None) demo_pool in
   length (hr_results r) = 1 \<and> dc_inflight c' ''M'' = dc_inflight demo_pool ''M'' + 1 \<and> dc_inflight c' ''M'' \<le> 3"
proof -
  obtain r c' where E: "hand_out demo_config ''A'' (demo_request ''A'' (Some ''M'')) 1 (\<lambda>_. None) demo_pool = (r, c')"
    by (rule prod.exhaust)
  then have "hr_results r = [(queued_unit ''U'' ''L'', 21700)]" "hr_cap r = 3" using demo_hand_out by simp_all
  moreover have "ao_host (demo_request ''A'' (Some ''M'')) = Some ''M''" by (simp add: demo_request_def)
  ultimately show ?thesis using hand_out_is_metered [OF E] by (auto simp: E meter_id_def Let_def)
qed

end
