(* ===== verification/DispatchAgreement.thy ===== *)
theory DispatchAgreement
  imports DispatchSteps
begin

text \<open>
  The two views dispatch has of a unit: the per-requester SQL predicate, which is the database's word on who
  may have it, and the in-memory check of a candidate staged by the volunteer-agnostic refill. The
  capability rules are the same on a validated leaf, and over fresh snapshots the cache never refuses
  a requester the database would serve.
\<close>

subsection \<open>The capability rules\<close>

definition capability_pre :: "leaf \<Rightarrow> bool" where
  "capability_pre lf \<longleftrightarrow>
     (let ec = leaf_execution_config lf in
      validate_runtime ec = Inr () \<and> validate_gpu_type ec = Inr () \<and> ec_gpu_type ec \<noteq> '''' \<and>
      rr_gpu_compute_capability (leaf_resource_requirements lf) \<noteq> Some '''')"

lemma gpu_type_normal:
  "t \<in> {''ANY'', ''NVIDIA'', ''AMD'', ''WEBGPU''} \<Longrightarrow> to_upper (trim_space t) = t \<and> to_upper t = t"
  by (auto simp: to_upper_def trim_space_def is_space_def)

lemma capability_agree:
  assumes "capability_pre lf"
  shows "leaf_matches_capabilities lf q \<longleftrightarrow> capability_sql lf q"
proof -
  let ?ec = "leaf_execution_config lf" and ?rr = "leaf_resource_requirements lf"
  have rt: "ec_runtime ?ec \<in> {runtime_native, runtime_container, runtime_wasm}" "ec_runtime ?ec \<noteq> ''''"
    and gt: "ec_gpu_required ?ec \<longrightarrow> ec_gpu_type ?ec \<in> {''ANY'', ''NVIDIA'', ''AMD'', ''WEBGPU''}"
    and cc: "rr_gpu_compute_capability ?rr \<noteq> Some ''''"
    using assms by (auto simp: capability_pre_def Let_def validate_runtime_def validate_gpu_type_def guard_valid_ok)
  have b: "fst (budgets_for q (ec_runtime ?ec)) =
      (if ao_host_max_cpu_cores q > 0 \<and> native_or_wasm_sql ?ec then ao_host_max_cpu_cores q else ao_max_cpu_cores q)"
    "snd (budgets_for q (ec_runtime ?ec)) =
      (if ao_host_max_memory_mb q > 0 \<and> native_or_wasm_sql ?ec then ao_host_max_memory_mb q else ao_max_memory_mb q)"
    using rt by (auto simp: budgets_for_def native_or_wasm_sql_def)
  have g: "(ec_gpu_required ?ec \<and> (let t = to_upper (trim_space (ec_gpu_type ?ec)) in
        t \<noteq> '''' \<and> t \<noteq> gpu_type_any \<and> t \<notin> set (ao_gpu_vendors q))) \<longleftrightarrow>
      \<not> (\<not> ec_gpu_required ?ec \<or> ec_gpu_type ?ec = gpu_type_any \<or> to_upper (ec_gpu_type ?ec) \<in> set (ao_gpu_vendors q))"
    using gt gpu_type_normal [of "ec_gpu_type ?ec"] by (cases "ec_gpu_required ?ec") (auto simp: Let_def)
  have c: "(case rr_gpu_compute_capability ?rr of None \<Rightarrow> False
        | Some cc \<Rightarrow> cc \<noteq> '''' \<and> cc \<notin> set (ao_gpu_compute_capabilities q)) \<longleftrightarrow>
      \<not> (case rr_gpu_compute_capability ?rr of None \<Rightarrow> True | Some cc \<Rightarrow> cc \<in> set (ao_gpu_compute_capabilities q))"
    using cc by (auto split: option.split)
  show ?thesis
    unfolding leaf_matches_capabilities_def capability_sql_def Let_def split_def b [symmetric] c
    using rt(2) g [unfolded Let_def] by (auto simp: not_le not_less)
qed

subsection \<open>The bench\<close>

lemma bench_set_fallback:
  assumes "\<And>b. b \<in> set bs \<Longrightarrow> bv_volunteer b = v \<Longrightarrow> bv_outcome_at b + bench_pool_exhausted_grace_seconds < now"
    "bench_set bs deadline v = Some e"
  shows "be_fallback_at e < now"
proof -
  let ?f = "\<lambda>b m. m(bv_volunteer b \<mapsto> merge_bench (bench_entry_for (bv_outcome_at b) (bv_returned b) deadline) (m (bv_volunteer b)))"
  have "fold ?f bs m v = Some e \<Longrightarrow> (\<And>e. m v = Some e \<Longrightarrow> be_fallback_at e < now) \<Longrightarrow>
      (\<And>b. b \<in> set bs \<Longrightarrow> bv_volunteer b = v \<Longrightarrow> bv_outcome_at b + bench_pool_exhausted_grace_seconds < now) \<Longrightarrow>
      be_fallback_at e < now" for m :: "uid \<rightharpoonup> bench_entry"
  proof (induction bs arbitrary: m)
    case (Cons b bs)
    show ?case
    proof (rule Cons.IH)
      show "fold ?f bs (?f b m) v = Some e" using Cons.prems(1) by (simp only: fold.simps comp_apply)
      show "be_fallback_at e < now" if "(?f b m) v = Some e" for e
        using that Cons.prems(2,3)
        by (auto simp: merge_bench_def bench_entry_for_def Let_def split: if_splits option.splits)
      show "bv_outcome_at x + bench_pool_exhausted_grace_seconds < now" if "x \<in> set bs" "bv_volunteer x = v" for x
        using that Cons.prems(3) by simp
    qed
  qed simp
  from this [of Map.empty] show ?thesis using assms unfolding bench_set_def by blast
qed

lemma benched_rows_copy:
  assumes "b \<in> set (benched_rows d w returned)"
  shows "\<exists>h\<in>set (db_copies d). cp_unit h = wu_id w \<and> cp_volunteer h = bv_volunteer b \<and>
    benching_copy (db_now d) w h \<and> cp_outcome_at h = Some (bv_outcome_at b)"
proof -
  let ?cs = "filter (benched_kind (db_now d) w returned) (db_copies d)"
  let ?mine = "filter (\<lambda>c. cp_volunteer c = bv_volunteer b) ?cs"
  obtain v where v: "v \<in> cp_volunteer ` set ?cs" and b: "b = \<lparr>bv_volunteer = v,
      bv_outcome_at = Max (set (map (the \<circ> cp_outcome_at) (filter (\<lambda>c. cp_volunteer c = v) ?cs))), bv_returned = returned\<rparr>"
    using assms unfolding benched_rows_def Let_def set_map set_keys_of by blast
  have at: "bv_outcome_at b = Max (set (map (the \<circ> cp_outcome_at) ?mine))" by (simp add: b)
  have v: "bv_volunteer b \<in> cp_volunteer ` set ?cs" using v by (simp add: b)
  obtain c0 where "c0 \<in> set ?cs" "cp_volunteer c0 = bv_volunteer b" using v by auto
  then have "c0 \<in> set ?mine" by simp
  then have ne: "?mine \<noteq> []" by (metis empty_iff empty_set)
  have "Max (set (map (the \<circ> cp_outcome_at) ?mine)) \<in> set (map (the \<circ> cp_outcome_at) ?mine)"
    by (rule Max_in) (simp, use ne in \<open>simp only: set_map image_is_empty set_empty\<close>, simp)
  then obtain h where h: "h \<in> set ?mine" "bv_outcome_at b = the (cp_outcome_at h)" unfolding at by auto
  then have "h \<in> set (db_copies d)" "cp_unit h = wu_id w" "cp_volunteer h = bv_volunteer b"
    "benching_copy (db_now d) w h" "cp_outcome_at h = Some (bv_outcome_at b)"
    by (auto simp: benched_kind_def benching_copy_def split: option.splits if_splits)
  then show ?thesis by blast
qed

lemma cooldown_lifts_bench:
  assumes "cooldown_guard_sql d w v" "dc_now c = db_now d" "holders_of (cd_id cd) c = []"
    "cd_benched cd = bench_set (benched_snapshot_sql d w) deadline"
  shows "\<not> bench_refuses v cd c"
proof (cases "cd_benched cd v")
  case (Some e)
  have "bv_outcome_at b + bench_pool_exhausted_grace_seconds < db_now d"
    if "b \<in> set (benched_snapshot_sql d w)" "bv_volunteer b = v" for b
    using that assms(1) benched_rows_copy
    by (fastforce simp: benched_snapshot_sql_def cooldown_guard_sql_def pool_exhausted_def split: option.splits)
  then have "be_fallback_at e < db_now d" using Some assms(4) by (metis bench_set_fallback)
  then show ?thesis by (simp add: bench_refuses_def Some assms(2,3))
qed (simp add: bench_refuses_def)

subsection \<open>The whole predicate\<close>

text \<open>
  The snapshots a hand-out reads are those of this moment: the candidate as the refill just read it, nobody
  holding its unit in memory, the account, trust and leaf snapshots just refreshed, the machine's count
  the database's, and the request naming the principal the database derives.
\<close>

definition fresh_view :: "trust_policy \<Rightarrow> cache_config \<Rightarrow> assignment_options \<Rightarrow> db \<Rightarrow> work_unit \<Rightarrow> candidate \<Rightarrow> dcache \<Rightarrow> bool" where
  "fresh_view tp cf q d w cd c \<longleftrightarrow>
     (\<exists>dc. candidate_row tp d w = Some dc \<and> cd = candidate_of dc) \<and>
     holders_of (wu_id w) c = [] \<and> dc_now c = db_now d \<and>
     dc_standing c (ao_volunteer q) = all_non_ok d (ao_volunteer q) \<and>
     dc_trust_scores c (request_subject_sql d (ao_volunteer q)) = all_scores d (request_subject_sql d (ao_volunteer q)) \<and>
     peek_leaf_fresh cf (wu_leaf w) c = (db_leafs d (wu_leaf w), True) \<and>
     dc_inflight c (meter_id (ao_volunteer q) (ao_host q)) = live_of_machine (meter_id (ao_volunteer q) (ao_host q)) d \<and>
     requester_subject (ao_volunteer q) q = request_subject_sql d (ao_volunteer q)"

lemma standing_snapshot:
  assumes "dc_standing c a = all_non_ok d a" "dc_now c = db_now d"
    "standing_expr_sql (db_now d) (db_volunteers d a) \<noteq> standing_benched"
  shows "standing_of a c \<noteq> standing_benched"
  using assms
  by (auto simp: standing_of_def all_non_ok_def standing_expr_sql_def effective_standing_def split: option.splits if_splits)

lemma candidate_coverage:
  assumes "holders_of (cd_id cd) c = []" "candidate_row tp d w = Some dc" "cd = candidate_of dc"
  shows "countable_coverage cd c = countable_coverage_sql (wu_id w) d"
proof -
  have "0 \<le> countable_coverage_sql (wu_id w) d"
    by (auto simp: countable_coverage_sql_def countable_live_copies_sql_def countable_pending_results_sql_def
        sql_best_group_count_def)
  then show ?thesis
    using assms coverage_complement [of "wu_id w" d]
    by (auto simp: countable_coverage_def countable_holders_def candidate_row_def candidate_of_def Let_def split: option.splits)
qed


lemma fresh_trusted_present:
  assumes "holders_of (cd_id cd) c = []" "candidate_row tp d w = Some dc" "cd = candidate_of dc" "db_leafs d (wu_leaf w) = Some lf"
  shows "trusted_present cd c =
    trusted_present_count_sql (wu_id w) (eff_trust_floor_sql (leaf_validation_config lf) (tp_default_floor tp)) d"
  using assms
  by (auto simp: trusted_present_def trusted_present_count_sql_def candidate_row_def candidate_of_def Let_def
      trusted_contributor_subjects_sql_def)

lemma fresh_trust_reserved:
  assumes f: "fresh_view tp cf q d w cd c" and lf: "db_leafs d (wu_leaf w) = Some lf"
    and r: "trust_reservation_sql tp w lf (request_subject_sql d (ao_volunteer q)) d"
  shows "\<not> trust_reserved (requester_subject (ao_volunteer q) q) cd c"
proof -
  let ?s = "request_subject_sql d (ao_volunteer q)"
  let ?fl = "eff_trust_floor_sql (leaf_validation_config lf) (tp_default_floor tp)"
  let ?k = "eff_trust_k_sql w (leaf_validation_config lf) (tp_gate_enabled tp) (tp_default_min_corroborators tp)"
  obtain dc where dc: "candidate_row tp d w = Some dc" "cd = candidate_of dc" using f by (auto simp: fresh_view_def)
  have id: "cd_id cd = wu_id w" using dc lf by (auto simp: candidate_row_def candidate_of_def Let_def)
  then have no: "holders_of (cd_id cd) c = []" using f by (simp add: fresh_view_def)
  have fields: "cd_trust_k cd = ?k" "cd_trust_floor cd = ?fl" "cd_redundancy cd = eff_target_sql w (leaf_validation_config lf)"
    using dc lf by (auto simp: candidate_row_def candidate_of_def Let_def)
  have subj: "requester_subject (ao_volunteer q) q = ?s" and score: "dc_trust_scores c ?s = all_scores d ?s"
    using f by (simp_all add: fresh_view_def)
  have "1 \<le> ?fl" by (simp add: eff_trust_floor_sql_def)
  then have row: "dc_trust_scores c ?s < ?fl \<longleftrightarrow> \<not> (case db_trust d ?s of None \<Rightarrow> False | Some e \<Rightarrow> te_score e \<ge> ?fl)"
    by (auto simp: score all_scores_def split: option.splits)
  show ?thesis
    using r row candidate_coverage [OF no dc] fresh_trusted_present [OF no dc lf]
    by (auto simp: trust_reserved_def trust_reservation_sql_def subj fields Let_def max_def split: if_splits)
qed

text \<open>C3. The pool never hides work the database would hand out: over snapshots of the same moment, a
  requester the per-requester query would serve with a unit of a validated leaf is not refused by the
  in-memory check of the candidate the volunteer-agnostic refill stages for it, on any of its sixteen
  grounds: coverage, trust reservation, distinctness, bench, standing, in-flight cap, hardware class,
  visibility, capabilities and deadline.\<close>

theorem pool_never_hides_work:
  assumes "fresh_view tp cf q d w cd c" "assignable_sql tp q d w"
    "\<forall>lf. db_leafs d (wu_leaf w) = Some lf \<longrightarrow> capability_pre lf"
  shows "eligible cf (ao_volunteer q) (meter_id (ao_volunteer q) (ao_host q)) q cd c = RejectNone"
proof -
  let ?v = "ao_volunteer q" and ?l = "wu_leaf w"
  let ?m = "meter_id ?v (ao_host q)" and ?s = "request_subject_sql d ?v"
  note F = assms(1) [unfolded fresh_view_def]
  obtain lf where lf: "db_leafs d ?l = Some lf" using assms(2) by (auto simp: assignable_sql_def split: option.splits)
  note A = assms(2) [unfolded assignable_sql_def lf option.case Let_def]
  obtain dc where dc: "candidate_row tp d w = Some dc" "cd = candidate_of dc" using F by blast
  have fields: "cd_unit cd = w" "cd_redundancy cd = eff_target_sql w (leaf_validation_config lf)"
    "cd_contributors cd = contributor_subjects_sql (wu_id w) d"
    "cd_benched cd = bench_set (benched_snapshot_sql d w) (wu_deadline_seconds w)"
    using dc lf by (auto simp: candidate_row_def candidate_of_def Let_def)
  have no: "holders_of (wu_id w) c = []" using F by blast
  have cov: "countable_coverage cd c < cd_redundancy cd"
    using A candidate_coverage [OF _ dc] no by (simp add: fields)
  moreover have "0 \<le> countable_coverage cd c" by (simp add: countable_coverage_def Let_def)
  ultimately have red: "0 < cd_redundancy cd" by linarith
  have trust: "\<not> trust_reserved (requester_subject ?v q) cd c"
    using A by (intro fresh_trust_reserved [OF assms(1) lf]) blast
  have subj: "requester_subject ?v q = ?s" using F by blast
  have contrib: "?s \<notin> set (cd_contributors cd)"
    using A by (auto simp: fields contributor_subjects_sql_def map_filter_def)
  have bench: "\<not> bench_refuses ?v cd c"
    using A F by (intro cooldown_lifts_bench [where d = d and w = w and deadline = "wu_deadline_seconds w"]) (auto simp: fields)
  have standing: "standing_of ?v c \<noteq> standing_benched"
    using A F by (intro standing_snapshot [where d = d]) auto
  have cap: "\<not> (ao_max_inflight q > 0 \<and> dc_inflight c ?m \<ge> ao_max_inflight q)" using A F by auto
  have leaf: "peek_leaf_fresh cf ?l c = (Some lf, True)" using F lf by simp
  have caps: "leaf_matches_capabilities lf q" using A assms(3) lf capability_agree by blast
  have hidden: "\<not> (?l \<notin> set (ao_leaf_ids q) \<and> hidden_leaf lf)" using A by (auto simp: hidden_leaf_def)
  have hr: "\<not> (case wu_hr_class w of None \<Rightarrow> False | Some h \<Rightarrow> h \<noteq> '''' \<and> h \<noteq> ao_hr_class q)"
    using A by (auto split: option.splits)
  have filt: "\<not> (ao_leaf_ids q \<noteq> [] \<and> ?l \<notin> set (ao_leaf_ids q))" "?l \<notin> set (ao_blocked_leaf_ids q)"
    "feasible_by_deadline (leaf_rsc_fpops_est lf) (ao_benchmark_fpops q) (wu_deadline_seconds w)" using A by auto
  show ?thesis
    unfolding eligible_def Let_def fields(1) no leaf
    using filt cov red trust contrib bench standing cap caps hidden hr
    by (simp add: subj in_mem_holder_cap_def not_le)
qed

text \<open>A queued unit of a public leaf and an account with no history: the database would serve it, so the pool does.\<close>

definition demo_db :: db where
  "demo_db = sample_db [queued_unit ''u'' ''l''] [] []"

definition demo_view :: dcache where
  "demo_view = (fresh_cache 100)\<lparr>dc_leafs := [''l'' \<mapsto> (active_leaf ''l'' default_validation_config, 100)]\<rparr>"

definition no_gate :: trust_policy where
  "no_gate = \<lparr>tp_gate_enabled = False, tp_default_min_corroborators = 0, tp_default_floor = 1\<rparr>"

lemma demo_candidate_row:
  "candidate_row no_gate demo_db (queued_unit ''u'' ''l'') = Some \<lparr>dcd_unit = queued_unit ''u'' ''l'', dcd_redundancy = 2,
     dcd_active = 0, dcd_probation = 0, dcd_contributors = [], dcd_benched = [], dcd_trusted = [], dcd_trust_k = 0, dcd_trust_floor = 1\<rparr>"
  by (simp add: candidate_row_def demo_db_def sample_db_def no_gate_def active_leaf_def queued_unit_def Let_def eff_target_sql_def
      default_validation_config_def apply_validation_config_defaults_def zero_validation_config_def count_live_copies_def
      count_pending_by_work_unit_def non_countable_coverage_sql_def countable_pending_results_sql_def sql_best_group_count_def
      pending_of_def contributor_subjects_sql_def live_copies_of_def benched_snapshot_sql_def benched_rows_def keys_of_def
      trusted_contributor_subjects_sql_def eff_trust_k_sql_def eff_trust_floor_sql_def)

lemma demo_fresh_view:
  "fresh_view no_gate demo_config (demo_request ''a'' None) demo_db (queued_unit ''u'' ''l'')
     (candidate_of (the (candidate_row no_gate demo_db (queued_unit ''u'' ''l'')))) demo_view"
  unfolding fresh_view_def demo_candidate_row
  by (simp add: demo_view_def fresh_cache_def demo_db_def sample_db_def demo_request_def holders_of_def all_non_ok_def
      ok_volunteer_def all_scores_def peek_leaf_fresh_def demo_config_def queued_unit_def meter_id_def live_of_machine_def
      requester_subject_def request_subject_sql_def subject_expr_sql_def subject_for_volunteer_id_def)

lemma demo_assignable: "assignable_sql no_gate (demo_request ''a'' None) demo_db (queued_unit ''u'' ''l'')"
  by (simp add: assignable_sql_def demo_db_def sample_db_def demo_request_def queued_unit_def active_leaf_def Let_def
      capability_sql_def plain_execution_config_def plain_resource_requirements_def native_or_wasm_sql_def
      countable_coverage_sql_def countable_live_copies_sql_def countable_pending_results_sql_def sql_best_group_count_def
      pending_of_def eff_target_sql_def default_validation_config_def apply_validation_config_defaults_def
      zero_validation_config_def caps_not_exhausted_sql_def budget_copies_sql_def error_copies_sql_def
      unstarted_abandoners_sql_def keys_of_def eff_max_total_sql_def eff_max_error_sql_def trust_reservation_sql_def
      eff_trust_k_sql_def no_gate_def live_copies_of_def standing_expr_sql_def ok_volunteer_def cooldown_guard_sql_def
      live_of_machine_def feasible_by_deadline_def)

lemma demo_capability_pre: "capability_pre (active_leaf l vc)"
  by (simp add: capability_pre_def active_leaf_def plain_execution_config_def plain_resource_requirements_def
      validate_runtime_def validate_gpu_type_def guard_valid_def)

theorem pool_never_hides_work_witness:
  "eligible demo_config ''a'' ''a'' (demo_request ''a'' None)
     (candidate_of (the (candidate_row no_gate demo_db (queued_unit ''u'' ''l'')))) demo_view = RejectNone"
  using pool_never_hides_work [OF demo_fresh_view demo_assignable] demo_capability_pre
  by (simp add: demo_request_def meter_id_def demo_db_def sample_db_def queued_unit_def)

text \<open>A leaf whose required compute capability is the empty string passes every validator; the in-memory
  check reads it as no requirement, the SQL predicate as one no machine meets.\<close>

theorem empty_capability_diverges:
  "let lf = (active_leaf ''l'' default_validation_config)\<lparr>leaf_resource_requirements :=
         plain_resource_requirements\<lparr>rr_gpu_required := True, rr_gpu_compute_capability := Some ''''\<rparr>\<rparr>;
       q = (demo_request ''a'' None)\<lparr>ao_has_gpu := True, ao_gpu_compute_capabilities := [''8.6'']\<rparr> in
   validate_resource_requirements (leaf_resource_requirements lf) = Inr () \<and>
   validate_runtime (leaf_execution_config lf) = Inr () \<and> leaf_matches_capabilities lf q \<and> \<not> capability_sql lf q"
  by (simp add: active_leaf_def plain_resource_requirements_def plain_execution_config_def demo_request_def
      validate_resource_requirements_def validate_runtime_def guard_valid_def leaf_matches_capabilities_def
      capability_sql_def budgets_for_def Let_def)

end
