(* ===== verification/DispatchFlow.thy ===== *)
theory DispatchFlow
  imports DispatchAgreement
begin

text \<open>
  The cache and the database together: the refill that stages what a query returns, the flushes that land the
  queued hand-outs and undo the ones the database refuses, the per-requester fallback, the
  reconciliation of a machine's held set, and a whole poll. Each flow is the sequence of critical
  sections and statements of its function with nothing interleaved; a database call that can fail takes
  an argument that says whether it did.
\<close>

type_synonym replica = "dcache \<times> db"

subsection \<open>The refill\<close>

definition fetch_and_stage ::
  "trust_policy \<Rightarrow> cache_config \<Rightarrow> uid \<Rightarrow> int \<Rightarrow> int \<Rightarrow> uid list \<Rightarrow> uid list \<Rightarrow> replica \<Rightarrow> replica" where
  "fetch_and_stage tp cf head lease want excluded leafs s =
     (case s of (c, d) \<Rightarrow>
        let c1 = refresh_standing (Some (all_non_ok d)) (refresh_trust_scores (Some (all_scores d)) c);
            (cands, d1) = (if head \<noteq> nil_id then claim_dispatchable_batch tp head lease want excluded leafs d
                           else (find_dispatchable_batch tp want excluded leafs d, d)) in
        if cands = [] then (c1, d1)
        else let c2 = fold (\<lambda>dc. warm_leaf cf (db_leafs d1 (wu_leaf (dcd_unit dc))) (wu_leaf (dcd_unit dc))) cands c1 in
          (stage_batch cf leafs (map candidate_of cands) c2, d1))"

definition refill_once :: "trust_policy \<Rightarrow> cache_config \<Rightarrow> uid \<Rightarrow> int \<Rightarrow> replica \<Rightarrow> replica" where
  "refill_once tp cf head lease s =
     (if refill_want cf (fst s) \<le> 0 then s
      else fetch_and_stage tp cf head lease (refill_want cf (fst s)) (excluded_ids (fst s)) [] s)"

definition leaf_refill_once :: "trust_policy \<Rightarrow> cache_config \<Rightarrow> uid \<Rightarrow> int \<Rightarrow> uid list \<Rightarrow> replica \<Rightarrow> replica" where
  "leaf_refill_once tp cf head lease leafs s =
     (if leafs = [] then s
      else fetch_and_stage tp cf head lease (cf_refill_batch cf) (excluded_ids (fst s)) leafs s)"

subsection \<open>Landing the queued hand-outs\<close>

text \<open>The refused units that are gone or no longer queued; one whose state could not be read is not among them.\<close>

definition not_queued :: "(uid \<Rightarrow> bool) \<Rightarrow> db \<Rightarrow> uid \<Rightarrow> bool" where
  "not_queued readable d u \<longleftrightarrow>
     readable u \<and> (case find_unit u d of None \<Rightarrow> True | Some w \<Rightarrow> wu_state w \<noteq> Queued)"

fun settle_conflicts :: "(uid \<Rightarrow> bool) \<Rightarrow> uid list \<Rightarrow> flush_reservation list \<Rightarrow> dcache \<Rightarrow> dcache" where
  "settle_conflicts gone evicted [] c = c"
| "settle_conflicts gone evicted (r # rs) c =
     (if gone (fl_unit r)
      then (if fl_unit r \<in> set evicted then settle_conflicts gone evicted rs c
            else settle_conflicts gone (fl_unit r # evicted) rs (invalidate_work_unit (fl_unit r) c))
      else settle_conflicts gone evicted rs (void_non_landed_copy (fl_unit r) (fl_volunteer r) c))"

definition flush_batch ::
  "trust_policy \<Rightarrow> cache_config \<Rightarrow> uid \<Rightarrow> int \<Rightarrow> (nat \<Rightarrow> uid) \<Rightarrow> bool \<Rightarrow> (uid \<Rightarrow> bool) \<Rightarrow> replica \<Rightarrow> replica" where
  "flush_batch tp cf head lease ids landed_ok readable s =
     (case s of (c, d) \<Rightarrow>
        (case take_flush_batch cf c of
           (batch, c1) \<Rightarrow>
             (if dc_pending c = [] then (c, d)
              else if \<not> landed_ok then (requeue_writes batch c1, d)
              else case flush_reservations tp head lease ids batch d of
                (landed, d1) \<Rightarrow>
                  (let conflicts = filter (\<lambda>r. (fl_unit r, fl_volunteer r) \<notin> set landed) batch in
                   (settle_conflicts (not_queued readable d1) [] conflicts c1, d1)))))"

text \<open>
  The spot-checked hand-outs, one by one: \<open>admitted\<close> says whether each could be sent to the database,
  \<open>ids\<close> names the rows created. A refusal undoes the hold and no more.
\<close>

definition spot_deadline :: "time \<Rightarrow> spot_check_write \<Rightarrow> int" where
  "spot_deadline now sc = (if sc_until sc - now < 0 then 0 else sc_until sc - now)"

definition land_spot_check :: "uid \<Rightarrow> spot_check_write \<Rightarrow> replica \<Rightarrow> replica" where
  "land_spot_check i sc s =
     (case s of (c, d) \<Rightarrow>
        (case mark_spot_check (sc_unit sc) d of
           (Inl e, d1) \<Rightarrow> (release_in_mem (sc_unit sc) (sc_volunteer sc) c, d1)
         | (Inr _, d1) \<Rightarrow>
             (case reserve_copy i (sc_unit sc) (sc_volunteer sc) (sc_host sc) (sc_until sc) (spot_deadline (dc_now c) sc) d1 of
                (Inl e, d2) \<Rightarrow> (release_in_mem (sc_unit sc) (sc_volunteer sc) c, d2)
              | (Inr _, d2) \<Rightarrow> (c, d2))))"

fun land_spot_checks :: "(nat \<Rightarrow> uid) \<Rightarrow> (nat \<Rightarrow> bool) \<Rightarrow> nat \<Rightarrow> spot_check_write list \<Rightarrow> replica \<Rightarrow> replica" where
  "land_spot_checks ids admitted n [] s = s"
| "land_spot_checks ids admitted n (sc # scs) s =
     land_spot_checks ids admitted (n + 1) scs
       (if admitted n then land_spot_check (ids n) sc s
        else (requeue_spot_checks [sc] (fst s), snd s))"

definition flush_spot_checks :: "cache_config \<Rightarrow> (nat \<Rightarrow> uid) \<Rightarrow> (nat \<Rightarrow> bool) \<Rightarrow> replica \<Rightarrow> replica" where
  "flush_spot_checks cf ids admitted s =
     (case take_spot_batch cf (fst s) of
        (batch, c1) \<Rightarrow> (if dc_spot (fst s) = [] then s else land_spot_checks ids admitted 0 batch (c1, snd s)))"

text \<open>
  The blocking drain before a run-start, \<open>fuel\<close> passes at most: \<open>live\<close> says whether the caller's context is
  still live at a pass, \<open>ok\<close> whether the pass's statement succeeded, \<open>ids\<close> names its rows.
\<close>

fun flush_all_pending_held ::
  "trust_policy \<Rightarrow> cache_config \<Rightarrow> uid \<Rightarrow> int \<Rightarrow> (nat \<Rightarrow> nat \<Rightarrow> uid) \<Rightarrow> (nat \<Rightarrow> bool) \<Rightarrow> (nat \<Rightarrow> bool) \<Rightarrow> nat \<Rightarrow> replica \<Rightarrow>
   (bool \<times> replica) option" where
  "flush_all_pending_held tp cf head lease ids live ok 0 s = None"
| "flush_all_pending_held tp cf head lease ids live ok (Suc fuel) s =
     (if dc_pending (fst s) = [] \<and> dc_spot (fst s) = [] then Some (True, s)
      else if \<not> live fuel then Some (False, s)
      else if dc_pending (fst s) \<noteq> []
        then flush_all_pending_held tp cf head lease ids live ok fuel
               (flush_batch tp cf head lease (ids fuel) (ok fuel) (\<lambda>_. True) s)
      else flush_all_pending_held tp cf head lease ids live ok fuel (flush_spot_checks cf (ids fuel) (\<lambda>_. True) s))"

subsection \<open>What a flush leaves\<close>

lemma requeue_taken: "requeue_writes (fst (take_flush_batch cf c)) (snd (take_flush_batch cf c)) = c"
  by (simp add: take_flush_batch_def requeue_writes_def)

lemma release_fold_holds:
  "dc_holds (fold (\<lambda>h. release_in_mem u (hc_account h)) hs c) =
     filter (\<lambda>h. \<not> (hc_unit h = u \<and> hc_account h \<in> hc_account ` set hs)) (dc_holds c)"
  by (induction hs arbitrary: c) (auto intro!: filter_cong)

lemma invalidate_holds: "dc_holds (invalidate_work_unit u c) = filter (\<lambda>h. hc_unit h \<noteq> u) (dc_holds c)"
  by (auto simp: invalidate_work_unit_def Let_def release_fold_holds holders_of_def intro!: filter_cong)

lemma void_holds:
  "dc_holds (void_non_landed_copy u v c) = filter (\<lambda>h. \<not> (hc_unit h = u \<and> hc_account h = v)) (dc_holds c)"
  by (simp add: void_non_landed_copy_def close_copy_in_mem_def Let_def)

text \<open>A hold that settling the conflicts of a batch drops.\<close>

definition settled :: "(uid \<Rightarrow> bool) \<Rightarrow> uid list \<Rightarrow> flush_reservation list \<Rightarrow> held_copy \<Rightarrow> bool" where
  "settled gone evicted rs h \<longleftrightarrow>
     (\<exists>r\<in>set rs. fl_unit r = hc_unit h \<and>
        (if gone (fl_unit r) then fl_unit r \<notin> set evicted else fl_volunteer r = hc_account h))"

lemma settle_conflicts_holds:
  "dc_holds (settle_conflicts gone ev rs c) = filter (\<lambda>h. \<not> settled gone ev rs h) (dc_holds c)"
proof (induction rs arbitrary: ev c)
  case (Cons r rs)
  show ?case
  proof (cases "gone (fl_unit r)")
    case True
    then show ?thesis
      by (cases "fl_unit r \<in> set ev") (auto simp: Cons.IH invalidate_holds settled_def intro!: filter_cong)
  next
    case False
    then show ?thesis by (auto simp: Cons.IH void_holds settled_def intro!: filter_cong)
  qed
qed (simp add: settled_def)

lemma release_queues:
  "length (dc_pending (release_in_mem u v c)) \<le> length (dc_pending c)"
  "length (dc_spot (release_in_mem u v c)) \<le> length (dc_spot c)"
  by (auto simp: release_in_mem_def purge_pending_def split: option.split)

lemma release_fold_queues:
  "length (dc_pending (fold (\<lambda>h. release_in_mem u (f h)) hs c)) \<le> length (dc_pending c) \<and>
   length (dc_spot (fold (\<lambda>h. release_in_mem u (f h)) hs c)) \<le> length (dc_spot c)"
proof (induction hs arbitrary: c)
  case (Cons h hs)
  then show ?case using Cons.IH [of "release_in_mem u (f h) c"] release_queues [of u "f h" c] by (auto intro: order_trans)
qed simp

lemma settle_queues:
  "length (dc_pending (settle_conflicts gone ev rs c)) \<le> length (dc_pending c) \<and>
   length (dc_spot (settle_conflicts gone ev rs c)) \<le> length (dc_spot c)"
proof (induction rs arbitrary: ev c)
  case (Cons r rs)
  let ?i = "invalidate_work_unit (fl_unit r) c" and ?v = "void_non_landed_copy (fl_unit r) (fl_volunteer r) c"
  have "length (dc_pending ?i) \<le> length (dc_pending c) \<and> length (dc_spot ?i) \<le> length (dc_spot c)"
    using release_fold_queues by (simp add: invalidate_work_unit_def Let_def)
  moreover have "length (dc_pending ?v) \<le> length (dc_pending c) \<and> length (dc_spot ?v) \<le> length (dc_spot c)"
    using release_queues by (simp add: void_non_landed_copy_def close_copy_in_mem_def Let_def)
  ultimately show ?case using Cons.IH [of _ ?i] Cons.IH [of _ ?v] Cons.IH [of ev c] by (auto intro: order_trans)
qed simp

lemma flush_batch_ok:
  assumes "flush_batch tp cf head lease ids True readable (c, d) = (c', d')" "dc_pending c \<noteq> []"
  obtains landed where
    "flush_reservations tp head lease ids (take (cf_flush_batch cf) (dc_pending c)) d = (landed, d')"
    "c' = settle_conflicts (not_queued readable d') [] (filter (\<lambda>r. (fl_unit r, fl_volunteer r) \<notin> set landed)
       (take (cf_flush_batch cf) (dc_pending c))) (c\<lparr>dc_pending := drop (cf_flush_batch cf) (dc_pending c)\<rparr>)"
  using assms by (auto simp: flush_batch_def take_flush_batch_def Let_def split: prod.splits)

text \<open>C2. After a flush no volunteer holds in memory what the database did not give it: every queued hand-out the
  flush took is either a live copy in the database or no longer held, a hold is dropped only over a
  refused hand-out of its unit, and a flush whose statement failed leaves cache and database exactly as they were.\<close>

theorem flush_settles_every_hand_out:
  assumes "flush_batch tp cf head lease ids ok readable (c, d) = (c', d')"
  shows "(\<not> ok \<longrightarrow> c' = c \<and> d' = d) \<and>
    (ok \<longrightarrow> (\<forall>r\<in>set (take (cf_flush_batch cf) (dc_pending c)).
       live_copy_of (fl_unit r) (fl_volunteer r) d' \<or>
       (\<forall>h\<in>set (dc_holds c'). \<not> (hc_unit h = fl_unit r \<and> hc_account h = fl_volunteer r)))) \<and>
    (\<forall>h\<in>set (dc_holds c) - set (dc_holds c'). \<exists>r\<in>set (take (cf_flush_batch cf) (dc_pending c)). fl_unit r = hc_unit h) \<and>
    set (dc_holds c') \<subseteq> set (dc_holds c)"
proof (cases "ok \<and> dc_pending c \<noteq> []")
  case True
  then have f: "flush_batch tp cf head lease ids True readable (c, d) = (c', d')" using assms by simp
  obtain landed where L: "flush_reservations tp head lease ids (take (cf_flush_batch cf) (dc_pending c)) d = (landed, d')"
    "c' = settle_conflicts (not_queued readable d') [] (filter (\<lambda>r. (fl_unit r, fl_volunteer r) \<notin> set landed)
       (take (cf_flush_batch cf) (dc_pending c))) (c\<lparr>dc_pending := drop (cf_flush_batch cf) (dc_pending c)\<rparr>)"
    by (rule flush_batch_ok [OF f conjunct2 [OF True]])
  let ?gone = "not_queued readable d'"
  let ?rs = "filter (\<lambda>r. (fl_unit r, fl_volunteer r) \<notin> set landed) (take (cf_flush_batch cf) (dc_pending c))"
  have holds: "dc_holds c' = filter (\<lambda>h. \<not> settled ?gone [] ?rs h) (dc_holds c)"
    unfolding L(2) settle_conflicts_holds by simp
  have A: "live_copy_of (fl_unit r) (fl_volunteer r) d' \<or>
      (\<forall>h\<in>set (dc_holds c'). \<not> (hc_unit h = fl_unit r \<and> hc_account h = fl_volunteer r))"
    if r: "r \<in> set (take (cf_flush_batch cf) (dc_pending c))" for r
  proof (cases "(fl_unit r, fl_volunteer r) \<in> set landed")
    case True
    then show ?thesis using flush_lands_exactly(1) [OF L(1)] by blast
  next
    case False
    then have "r \<in> set ?rs" using r by simp
    then have "settled ?gone [] ?rs h" if "hc_unit h = fl_unit r" "hc_account h = fl_volunteer r" for h
      using that by (auto simp: settled_def)
    then show ?thesis by (auto simp: holds)
  qed
  have B: "\<exists>r\<in>set (take (cf_flush_batch cf) (dc_pending c)). fl_unit r = hc_unit h"
    if "h \<in> set (dc_holds c) - set (dc_holds c')" for h
    using that by (auto simp: holds settled_def)
  have C: "set (dc_holds c') \<subseteq> set (dc_holds c)" by (auto simp: holds)
  show ?thesis using True by (intro conjI impI ballI A B C) auto
next
  case False
  then have "c' = c \<and> d' = d"
    using assms requeue_taken [of cf c] by (auto simp: flush_batch_def split: prod.splits if_splits)
  moreover have "ok \<Longrightarrow> dc_pending c = []" using False by simp
  ultimately show ?thesis by auto
qed

subsection \<open>The drain ends\<close>

lemma flush_batch_shrinks:
  assumes "0 < cf_flush_batch cf" "dc_pending (fst s) \<noteq> []"
  shows "length (dc_pending (fst (flush_batch tp cf head lease ids True readable s))) < length (dc_pending (fst s)) \<and>
    length (dc_spot (fst (flush_batch tp cf head lease ids True readable s))) \<le> length (dc_spot (fst s))"
proof -
  obtain c d where s: "s = (c, d)" by (cases s)
  obtain c' d' where f: "flush_batch tp cf head lease ids True readable (c, d) = (c', d')" by (rule prod.exhaust)
  obtain rs gone where "c' = settle_conflicts gone [] rs (c\<lparr>dc_pending := drop (cf_flush_batch cf) (dc_pending c)\<rparr>)"
    using flush_batch_ok [OF f] assms(2) s by (metis fst_conv)
  moreover have "length (drop (cf_flush_batch cf) (dc_pending c)) < length (dc_pending c)" using assms s by (cases "dc_pending c") auto
  ultimately show ?thesis
    using settle_queues [of gone "[]" rs "c\<lparr>dc_pending := drop (cf_flush_batch cf) (dc_pending c)\<rparr>"] by (simp add: s f)
qed

lemma land_spot_check_queues:
  "length (dc_pending (fst (land_spot_check i sc s))) \<le> length (dc_pending (fst s)) \<and>
   length (dc_spot (fst (land_spot_check i sc s))) \<le> length (dc_spot (fst s))"
  using release_queues by (auto simp: land_spot_check_def split: prod.splits sum.splits)

lemma land_spot_checks_queues:
  "length (dc_pending (fst (land_spot_checks ids (\<lambda>_. True) n scs s))) \<le> length (dc_pending (fst s)) \<and>
   length (dc_spot (fst (land_spot_checks ids (\<lambda>_. True) n scs s))) \<le> length (dc_spot (fst s))"
proof (induction scs arbitrary: n s)
  case (Cons sc scs)
  show ?case
    using Cons.IH [of "n + 1" "land_spot_check (ids n) sc s"] land_spot_check_queues [of "ids n" sc s]
    unfolding land_spot_checks.simps if_True by linarith
qed simp

lemma flush_spots_shrinks:
  assumes "0 < cf_flush_batch cf" "dc_spot (fst s) \<noteq> []"
  shows "length (dc_pending (fst (flush_spot_checks cf ids (\<lambda>_. True) s))) \<le> length (dc_pending (fst s)) \<and>
    length (dc_spot (fst (flush_spot_checks cf ids (\<lambda>_. True) s))) < length (dc_spot (fst s))"
proof -
  let ?c = "(fst s)\<lparr>dc_spot := drop (cf_flush_batch cf) (dc_spot (fst s))\<rparr>"
  have "length (dc_spot ?c) < length (dc_spot (fst s))" using assms by (cases "dc_spot (fst s)") auto
  then show ?thesis
    using assms land_spot_checks_queues [of ids 0 "take (cf_flush_batch cf) (dc_spot (fst s))" "(?c, snd s)"]
    by (auto simp: flush_spot_checks_def take_spot_batch_def intro: le_less_trans)
qed


end
