(* ===== verification/DispatchPoll.thy ===== *)
theory DispatchPoll
  imports DispatchFlow
begin

text \<open>
  A whole poll: the hand-out from the pool, the per-requester database fallback behind an empty one
  (\<open>dispatch_requester_fallback.go\<close>), the leafs of the reply, and the reason an empty reply carries; and the
  reconciler's tick. What the fallback finds it lands, and what an empty reply claims is so.
\<close>

subsection \<open>The fallback\<close>

definition fallback_record :: "cache_config \<Rightarrow> uid \<Rightarrow> assignment_options \<Rightarrow> dcache \<Rightarrow> work_unit \<Rightarrow> flush_reservation" where
  "fallback_record cf v q c u =
     \<lparr>fl_unit = wu_id u, fl_volunteer = v, fl_host = ao_host q, fl_until = hold_until cf u c,
      fl_deadline = wu_deadline_seconds u\<rparr>"

definition mark_spot_check_if_chosen ::
  "cache_config \<Rightarrow> (uid \<Rightarrow> leaf option) \<Rightarrow> 64 word option \<Rightarrow> work_unit \<Rightarrow> replica \<Rightarrow> work_unit \<times> replica" where
  "mark_spot_check_if_chosen cf read draw u s =
     (if wu_spot_check u then (u, s)
      else case (case peek_leaf (wu_leaf u) (fst s) of Some lf \<Rightarrow> (Some lf, fst s)
                 | None \<Rightarrow> get_leaf cf (read (wu_leaf u)) (wu_leaf u) (fst s)) of
        (None, c) \<Rightarrow> (u, (c, snd s))
      | (Some lf, c) \<Rightarrow>
          (let vc = leaf_validation_config lf in
           if \<not> vc_spot_check_enabled vc \<or> vc_redundancy_factor vc \<noteq> 1 \<or> \<not> should_spot_check draw (vc_spot_check_percentage vc)
           then (u, (c, snd s))
           else case mark_spot_check (wu_id u) (snd s) of
             (Inl e, d) \<Rightarrow> (u, (c, d))
           | (Inr _, d) \<Rightarrow> (u\<lparr>wu_spot_check := True\<rparr>, (c, d))))"

fun mark_spot_checks ::
  "cache_config \<Rightarrow> (uid \<Rightarrow> leaf option) \<Rightarrow> (nat \<Rightarrow> 64 word option) \<Rightarrow> nat \<Rightarrow> (work_unit \<times> time) list \<Rightarrow> replica \<Rightarrow>
   (work_unit \<times> time) list \<times> replica" where
  "mark_spot_checks cf read draws n [] s = ([], s)"
| "mark_spot_checks cf read draws n ((u, t) # rs) s =
     (case mark_spot_check_if_chosen cf read (draws n) u s of
        (u', s') \<Rightarrow> (case mark_spot_checks cf read draws (n + 1) rs s' of (rs', s'') \<Rightarrow> ((u', t) # rs', s'')))"

text \<open>\<open>None\<close>: the database could not be asked (no admission slot, or a failed statement).\<close>

definition hand_out_from_db ::
  "trust_policy \<Rightarrow> cache_config \<Rightarrow> uid \<Rightarrow> int \<Rightarrow> (nat \<Rightarrow> uid) \<Rightarrow> (uid \<Rightarrow> leaf option) \<Rightarrow> (nat \<Rightarrow> 64 word option) \<Rightarrow> bool \<Rightarrow> bool \<Rightarrow>
   uid \<Rightarrow> uid \<Rightarrow> assignment_options \<Rightarrow> uid \<times> string \<Rightarrow> int \<Rightarrow> uid list \<Rightarrow> replica \<Rightarrow> (work_unit \<times> time) list option \<times> replica" where
  "hand_out_from_db tp cf head lease ids read draws found_ok landed_ok v host q key limit excluded s =
     (case s of (c, d) \<Rightarrow>
        if \<not> found_ok then (None, s)
        else case find_assignable_batch tp head lease q limit excluded d of
          (units, d1) \<Rightarrow>
            (if units \<noteq> [] \<and> \<not> landed_ok then (None, (c, d1))
             else case (if units = [] then ([], d1)
                        else flush_reservations tp head lease ids (map (fallback_record cf v q c) units) d1) of
               (landed, d2) \<Rightarrow>
                 let got = filter (\<lambda>u. (wu_id u, v) \<in> set landed) units;
                     c1 = land_fallback cf v host (requester_subject v q) key got c in
                 (case mark_spot_checks cf read draws 0 (map (\<lambda>u. (u, hold_until cf u c)) got) (c1, d2) of
                    (rs, s') \<Rightarrow> (Some rs, s'))))"

subsection \<open>The poll\<close>

record poll_reply =
  pr_units :: "(work_unit \<times> time \<times> leaf) list"
  pr_reason :: no_work_reason
  pr_cap :: int
  pr_held :: int

definition hand_out_with_reason ::
  "trust_policy \<Rightarrow> cache_config \<Rightarrow> uid \<Rightarrow> int \<Rightarrow> (nat \<Rightarrow> uid) \<Rightarrow> (uid \<Rightarrow> leaf option) \<Rightarrow> (nat \<Rightarrow> 64 word option) \<Rightarrow>
   (nat \<Rightarrow> 64 word option) \<Rightarrow> bool \<Rightarrow> bool \<Rightarrow> uid \<Rightarrow> assignment_options \<Rightarrow> int \<Rightarrow> replica \<Rightarrow> poll_reply \<times> replica" where
  "hand_out_with_reason tp cf head lease ids read draws draws_db found_ok landed_ok v q n s =
     (case hand_out cf v q n draws (fst s) of
        (r, c1) \<Rightarrow>
          let host = meter_id v (ao_host q);
              (results, reason, c2, d2) =
                (case hr_plan r of
                   FbDue key limit excluded \<Rightarrow>
                     (case hand_out_from_db tp cf head lease ids read draws_db found_ok landed_ok v host
                             (q\<lparr>ao_max_inflight := hr_cap r\<rparr>) key limit excluded (c1, snd s) of
                        (None, s2) \<Rightarrow> ([], unverified (hr_reason r), s2)
                      | (Some fb, s2) \<Rightarrow> (if fb \<noteq> [] then (fb, NoWorkUnspecified, s2) else ([], hr_reason r, s2)))
                 | FbUnverified \<Rightarrow> (hr_results r, unverified (hr_reason r), c1, snd s)
                 | _ \<Rightarrow> (hr_results r, hr_reason r, c1, snd s)) in
          (case ship_units cf read v q results c2 of
             (shipped, c3) \<Rightarrow>
               (\<lparr>pr_units = shipped, pr_reason = reason, pr_cap = hr_cap r, pr_held = dc_inflight c3 host\<rparr>, (c3, d2))))"

subsection \<open>The reconciler's tick\<close>

definition reconcile_grace_period :: int where "reconcile_grace_period = 60"
definition held_report_freshness :: int where "held_report_freshness = 90"

definition close_released :: "uid \<Rightarrow> uid \<times> bool \<Rightarrow> dcache \<Rightarrow> dcache" where
  "close_released account r = close_copy_in_mem (fst r) account (if snd r then CopyFailed else CopyReturned)"

definition reconcile_machine :: "(int \<Rightarrow> f64) \<Rightarrow> uid \<times> held_report \<Rightarrow> replica \<Rightarrow> replica" where
  "reconcile_machine decay hr s =
     (case (hr, s) of ((host, rep), (c, d)) \<Rightarrow>
        let grace = dc_now c - reconcile_grace_period;
            cutoff = (if hp_at rep < grace then hp_at rep else grace) in
        (case release_stale_held_copies host (hp_units rep) cutoff d of
           (Inl e, d1) \<Rightarrow> (c, d1)
         | (Inr released, d1) \<Rightarrow>
             (fold (close_released (hp_account rep)) released c,
              d1\<lparr>db_reliability := fold (\<lambda>r. if snd r then record_outcome decay (db_now d1) host False else id) released
                                   (db_reliability d1)\<rparr>)))"

definition reconcile_held_copies :: "(int \<Rightarrow> f64) \<Rightarrow> replica \<Rightarrow> replica" where
  "reconcile_held_copies decay s =
     (case s of (c, d) \<Rightarrow>
        let live = filter (\<lambda>(h, r). dc_now c - hp_at r \<le> held_report_freshness) (dc_held_reports c) in
        fold (reconcile_machine decay) live (c\<lparr>dc_held_reports := live\<rparr>, d))"

definition refresh_budgets_once :: "(int \<Rightarrow> f64) \<Rightarrow> replica \<Rightarrow> replica" where
  "refresh_budgets_once decay s =
     (case s of (c, d) \<Rightarrow>
        (c\<lparr>dc_scores := (\<lambda>h. case db_reliability d h of None \<Rightarrow> None | Some r \<Rightarrow> budget_input decay (db_now d) r)\<rparr>, d))"

definition reconcile_once :: "cache_config \<Rightarrow> (int \<Rightarrow> f64) \<Rightarrow> replica \<Rightarrow> replica" where
  "reconcile_once cf decay s =
     (case reconcile_held_copies decay s of
        (c, d) \<Rightarrow> (recount_inflight cf (count_active_by_host d) (release_lapsed_holds (prune_fallback_runs c)), d))"

subsection \<open>What the fallback finds it lands\<close>

lemma sql_reads_update_units [simp]:
  "countable_coverage_sql u (update_units P f d) = countable_coverage_sql u d"
  "budget_copies_sql u (update_units P f d) = budget_copies_sql u d"
  "error_copies_sql u (update_units P f d) = error_copies_sql u d"
  "trusted_present_count_sql u fl (update_units P f d) = trusted_present_count_sql u fl d"
  "request_subject_sql (update_units P f d) v = request_subject_sql d v"
  "pool_exhausted (update_units P f d) u h = pool_exhausted d u h"
  "live_copy_of u v (update_units P f d) = live_copy_of u v d"
  by (simp_all add: countable_coverage_sql_def countable_live_copies_sql_def countable_pending_results_sql_def
      budget_copies_sql_def error_copies_sql_def unstarted_abandoners_sql_def trusted_present_count_sql_def
      trusted_contributor_subjects_sql_def trusted_live_subject_def [abs_def] request_subject_sql_def pool_exhausted_def
      live_copy_of_def cong: option.case_cong)

text \<open>Claiming a unit changes nothing the landing guard reads.\<close>

lemma landing_reads_claimed:
  fixes w :: work_unit
  assumes w': "w' = w\<lparr>wu_dispatch_claimed_by := a, wu_dispatch_claim_expires_at := b, wu_updated_at := t\<rparr>"
  shows "eff_target_sql w' vc = eff_target_sql w vc" "eff_trust_k_sql w' vc g k = eff_trust_k_sql w vc g k"
    "caps_not_exhausted_sql w' lf d = caps_not_exhausted_sql w lf d" "cooldown_guard_sql d w' v = cooldown_guard_sql d w v"
    "trust_reservation_sql tp w' lf s d = trust_reservation_sql tp w lf s d"
proof -
  have q: "eff_quorum_sql w' vc = eff_quorum_sql w vc" for vc by (simp add: w' eff_quorum_sql_def)
  have t: "eff_target_sql w' vc = eff_target_sql w vc" for vc by (simp add: w' eff_target_sql_def)
  have k: "eff_trust_k_sql w' vc g k = eff_trust_k_sql w vc g k" for vc g k by (simp only: eff_trust_k_sql_def q)
  have m: "eff_max_total_sql w' vc = eff_max_total_sql w vc" "eff_max_error_sql w' vc = eff_max_error_sql w vc" for vc
    by (simp_all add: w' eff_max_total_sql_def eff_max_error_sql_def eff_target_sql_def)
  have i: "wu_id w' = wu_id w" "wu_deadline_seconds w' = wu_deadline_seconds w" by (simp_all add: w')
  show "eff_target_sql w' vc = eff_target_sql w vc" "eff_trust_k_sql w' vc g k = eff_trust_k_sql w vc g k" by (rule t, rule k)
  show "caps_not_exhausted_sql w' lf d = caps_not_exhausted_sql w lf d" by (simp only: caps_not_exhausted_sql_def m i)
  show "cooldown_guard_sql d w' v = cooldown_guard_sql d w v" by (simp only: cooldown_guard_sql_def benching_copy_def i)
  show "trust_reservation_sql tp w' lf s d = trust_reservation_sql tp w lf s d"
    by (simp only: trust_reservation_sql_def t k i)
qed

lemma landing_reads_claim:
  fixes w :: work_unit
  assumes w': "w' = w\<lparr>wu_dispatch_claimed_by := a, wu_dispatch_claim_expires_at := b\<rparr>"
  shows "eff_target_sql w' vc = eff_target_sql w vc" "eff_trust_k_sql w' vc g k = eff_trust_k_sql w vc g k"
    "caps_not_exhausted_sql w' lf d = caps_not_exhausted_sql w lf d" "cooldown_guard_sql d w' v = cooldown_guard_sql d w v"
    "trust_reservation_sql tp w' lf s d = trust_reservation_sql tp w lf s d"
proof -
  have q: "eff_quorum_sql w' vc = eff_quorum_sql w vc" for vc by (simp add: w' eff_quorum_sql_def)
  have t: "eff_target_sql w' vc = eff_target_sql w vc" for vc by (simp add: w' eff_target_sql_def)
  have k: "eff_trust_k_sql w' vc g k = eff_trust_k_sql w vc g k" for vc g k by (simp only: eff_trust_k_sql_def q)
  have m: "eff_max_total_sql w' vc = eff_max_total_sql w vc" "eff_max_error_sql w' vc = eff_max_error_sql w vc" for vc
    by (simp_all add: w' eff_max_total_sql_def eff_max_error_sql_def eff_target_sql_def)
  have i: "wu_id w' = wu_id w" "wu_deadline_seconds w' = wu_deadline_seconds w" by (simp_all add: w')
  show "eff_target_sql w' vc = eff_target_sql w vc" "eff_trust_k_sql w' vc g k = eff_trust_k_sql w vc g k" by (rule t, rule k)
  show "caps_not_exhausted_sql w' lf d = caps_not_exhausted_sql w lf d" by (simp only: caps_not_exhausted_sql_def m i)
  show "cooldown_guard_sql d w' v = cooldown_guard_sql d w v" by (simp only: cooldown_guard_sql_def benching_copy_def i)
  show "trust_reservation_sql tp w' lf s d = trust_reservation_sql tp w lf s d"
    by (simp only: trust_reservation_sql_def t k i)
qed

lemma landing_reads_update_units [simp]:
  "caps_not_exhausted_sql w lf (update_units P f d) = caps_not_exhausted_sql w lf d"
  "cooldown_guard_sql (update_units P f d) w v = cooldown_guard_sql d w v"
  "trust_reservation_sql tp w lf s (update_units P f d) = trust_reservation_sql tp w lf s d"
  by (simp_all add: caps_not_exhausted_sql_def cooldown_guard_sql_def trust_reservation_sql_def)

lemma flush_guard_claim_units: "flush_guard tp (claim_units head lease us d) r = flush_guard tp d r"
  by (cases "find_unit (fl_unit r) d")
    (simp_all add: flush_guard_def reserve_guard_def claim_units_def find_unit_update_units landing_reads_claimed [OF refl] landing_reads_claim [OF refl]
      cong: option.case_cong)

lemma find_unit_distinct:
  "distinct (map wu_id (db_units d)) \<Longrightarrow> w \<in> set (db_units d) \<Longrightarrow> find_unit (wu_id w) d = Some w"
proof -
  have "distinct (map wu_id ws) \<Longrightarrow> w \<in> set ws \<Longrightarrow> find (\<lambda>x. wu_id x = wu_id w) ws = Some w" for ws
    by (induction ws) auto
  then show "distinct (map wu_id (db_units d)) \<Longrightarrow> w \<in> set (db_units d) \<Longrightarrow> find_unit (wu_id w) d = Some w"
    by (simp add: find_unit_def)
qed

lemma assignable_lands:
  assumes "distinct (map wu_id (db_units d))" "w \<in> set (db_units d)" "assignable_sql tp q d w"
    "db_volunteers d (ao_volunteer q) = Some vv" "vol_benchmark_fpops vv = ao_benchmark_fpops q"
    "fl_unit r = wu_id w" "fl_volunteer r = ao_volunteer q"
  shows "flush_guard tp d r"
proof -
  obtain lf where lf: "db_leafs d (wu_leaf w) = Some lf" using assms(3) by (auto simp: assignable_sql_def split: option.splits)
  note A = assms(3) [unfolded assignable_sql_def lf option.case Let_def]
  have subj: "request_subject_sql d (ao_volunteer q) = subject_expr_sql vv" by (simp add: request_subject_sql_def assms(4))
  have w: "find_unit (wu_id w) d = Some w" by (rule find_unit_distinct [OF assms(1,2)])
  show ?thesis
    using A by (auto simp: flush_guard_def reserve_guard_def assms(4-7) w lf subj pending_of_def live_copies_of_def cp_live_def)
qed

lemma flush_guard_no_live:
  assumes "flush_guard tp d r"
  shows "\<not> live_copy_of (fl_unit r) (fl_volunteer r) d" "db_volunteers d (fl_volunteer r) \<noteq> None"
  using assms by (auto simp: flush_guard_def reserve_guard_def live_copy_of_def subject_row_def split: option.splits)

lemma land_all_all:
  "distinct (map fl_unit rs) \<Longrightarrow> (\<And>r. r \<in> set rs \<Longrightarrow> \<not> live_copy_of (fl_unit r) (fl_volunteer r) d) \<Longrightarrow>
   fst (land_all ids n rs d) = map (\<lambda>r. (fl_unit r, fl_volunteer r)) rs"
proof (induction rs arbitrary: n d)
  case (Cons r rs)
  let ?c = "new_copy (db_now d) (ids n) (fl_unit r) (fl_volunteer r) (fl_host r) (fl_until r) (fl_deadline r)"
  let ?d = "d\<lparr>db_copies := db_copies d @ [?c]\<rparr>"
  have "\<not> live_copy_of (fl_unit x) (fl_volunteer x) ?d" if "x \<in> set rs" for x
    using that Cons.prems by (auto simp: live_copy_of_def image_iff)
  then have "fst (land_all ids (n + 1) rs ?d) = map (\<lambda>r. (fl_unit r, fl_volunteer r)) rs"
    using Cons.prems(1) by (intro Cons.IH) auto
  then show ?case using Cons.prems(2) [of r] by (auto simp: land_one_def split: prod.splits)
qed simp

lemma first_per_key_all:
  "distinct (map f xs) \<Longrightarrow> set (map f xs) \<inter> set seen = {} \<Longrightarrow> first_per_key f seen xs = xs"
  by (induction xs arbitrary: seen) auto

lemma flush_all_lands:
  assumes "distinct (map fl_unit rs)" "\<And>r. r \<in> set rs \<Longrightarrow> flush_guard tp d r"
    "flush_reservations tp head lease ids rs d = (landed, d')"
  shows "landed = map (\<lambda>r. (fl_unit r, fl_volunteer r)) rs"
proof -
  have "distinct (map (flush_key d) rs)"
    using assms(1) by (auto simp: flush_key_def distinct_map inj_on_def)
  moreover have "filter (\<lambda>r. db_volunteers d (fl_volunteer r) \<noteq> None) rs = rs"
    using assms(2) flush_guard_no_live(2) by (metis (mono_tags, lifting) filter_True)
  ultimately have "deduplicated d rs = rs" by (simp add: deduplicated_def first_per_key_all)
  moreover have "filter (flush_guard tp d) rs = rs" using assms(2) by (simp add: filter_id_conv)
  ultimately show ?thesis
    using assms(3) land_all_all [OF assms(1), of d ids 0] assms(2) flush_guard_no_live(1)
    by (auto simp: flush_reservations_def split: prod.splits if_splits)
qed

lemma distinct_dispatch_order: "distinct (map wu_id (dispatch_order ws)) = distinct (map wu_id ws)"
proof -
  have "mset (map wu_id (dispatch_order ws)) = mset (map wu_id ws)" unfolding mset_map by simp
  then show ?thesis by (metis mset_eq_imp_distinct_iff)
qed

lemma claim_units_ids [simp]: "map wu_id (db_units (claim_units head lease us d)) = map wu_id (db_units d)"
  by (simp add: claim_units_def update_units_def map_key_update_where)

lemma claimed_unit_row:
  "u \<in> set (db_units (claim_units head lease us d)) \<Longrightarrow> \<exists>w\<in>set (db_units d). wu_id w = wu_id u"
  by (auto simp: claim_units_def update_units_def set_update_where)

lemma batch_rows:
  assumes "find_assignable_batch tp head lease q limit excluded d = (units, d1)" "distinct (map wu_id (db_units d))"
  shows "(\<forall>u\<in>set units. \<exists>w\<in>set (db_units d). wu_id w = wu_id u \<and> assignable_sql tp q d w) \<and> distinct (map wu_id units) \<and>
    (\<exists>us. d1 = d \<or> d1 = claim_units head lease us d)"
proof (cases "limit \<le> 0")
  case True
  then show ?thesis using assms by (auto simp: find_assignable_batch_def)
next
  case False
  define ok where "ok = (\<lambda>w. assignable_sql tp q d w \<and> wu_id w \<notin> set excluded \<and> (head = nil_id \<or> claimable_by head (db_now d) w))"
  define picked where "picked = take (nat (batch_room q limit d)) (dispatch_order (filter ok (db_units d)))"
  have pick: "w \<in> set (db_units d) \<and> assignable_sql tp q d w" if "w \<in> set picked" for w
    using that set_take_subset by (fastforce simp: picked_def ok_def)
  have dist: "distinct (map wu_id picked)"
    unfolding picked_def take_map [symmetric]
    by (intro distinct_take) (simp only: distinct_dispatch_order distinct_map_filter [OF assms(2)])
  show ?thesis
  proof (cases "head = nil_id")
    case True
    then have "units = picked \<and> d1 = d"
      using assms(1) False by (auto simp: find_assignable_batch_def picked_def ok_def Let_def)
    then show ?thesis using pick dist by blast
  next
    case head: False
    let ?d = "claim_units head lease (map wu_id picked) d"
    have E: "units = dispatch_order (filter (\<lambda>w. wu_id w \<in> set (map wu_id picked)) (db_units ?d))" "d1 = ?d"
      using assms(1) False head by (auto simp: find_assignable_batch_def picked_def ok_def Let_def)
    have "distinct (map wu_id units)"
      unfolding E(1) distinct_dispatch_order by (intro distinct_map_filter) (simp add: assms(2))
    moreover have "\<exists>w\<in>set (db_units d). wu_id w = wu_id u \<and> assignable_sql tp q d w" if "u \<in> set units" for u
    proof -
      have "wu_id u \<in> wu_id ` set picked" using that by (simp add: E(1))
      then obtain w where "w \<in> set picked" "wu_id w = wu_id u" by auto
      then show ?thesis using pick by blast
    qed
    ultimately show ?thesis using E(2) by blast
  qed
qed

lemma mark_if_chosen_id:
  "mark_spot_check_if_chosen cf read draw u s = (u', s') \<Longrightarrow> wu_id u' = wu_id u \<and> (\<forall>i v. live_copy_of i v (snd s') = live_copy_of i v (snd s))"
  by (auto simp: mark_spot_check_if_chosen_def mark_spot_check_def Let_def split: if_splits option.splits prod.splits sum.splits)

lemma mark_spot_checks_ids:
  "mark_spot_checks cf read draws n rs s = (rs', s') \<Longrightarrow>
   map (wu_id \<circ> fst) rs' = map (wu_id \<circ> fst) rs \<and> (\<forall>i v. live_copy_of i v (snd s') = live_copy_of i v (snd s))"
proof (induction rs arbitrary: n s rs' s')
  case (Cons r rs)
  obtain u t where r: "r = (u, t)" by (cases r)
  obtain u' s1 where m: "mark_spot_check_if_chosen cf read (draws n) u s = (u', s1)" by (rule prod.exhaust)
  obtain rs1 s2 where rest: "mark_spot_checks cf read draws (Suc n) rs s1 = (rs1, s2)" by (rule prod.exhaust)
  have "rs' = (u', t) # rs1" "s' = s2" using Cons.prems by (simp_all add: r m rest)
  then show ?case using Cons.IH [OF rest] mark_if_chosen_id [OF m] by (simp add: r)
qed simp

lemma fallback_lands:
  assumes "distinct (map wu_id (db_units d))" "db_volunteers d (ao_volunteer q) = Some vv"
    "vol_benchmark_fpops vv = ao_benchmark_fpops q"
    "find_assignable_batch tp head lease q limit excluded d = (units, d1)"
    "hand_out_from_db tp cf head lease ids read draws True True (ao_volunteer q) host q key limit excluded (c, d) = (r, s')"
  shows "(\<exists>rs. r = Some rs \<and> map (wu_id \<circ> fst) rs = map wu_id units) \<and>
    (\<forall>u\<in>set units. live_copy_of (wu_id u) (ao_volunteer q) (snd s'))"
proof -
  let ?v = "ao_volunteer q" and ?recs = "map (fallback_record cf (ao_volunteer q) q c) units"
  note rows = batch_rows [OF assms(4,1)]
  have guard: "flush_guard tp d1 x" if x: "x \<in> set ?recs" for x
  proof -
    obtain u where u: "u \<in> set units" "x = fallback_record cf ?v q c u" using x by auto
    then obtain w where w: "w \<in> set (db_units d)" "wu_id w = wu_id u" "assignable_sql tp q d w" using rows by blast
    have "flush_guard tp d x"
      by (rule assignable_lands [OF assms(1) w(1,3) assms(2,3)]) (simp_all add: u(2) w(2) fallback_record_def)
    then show ?thesis using rows flush_guard_claim_units by metis
  qed
  have dist: "distinct (map fl_unit ?recs)"
  proof -
    have "map fl_unit ?recs = map wu_id units" by (simp add: fallback_record_def)
    then show ?thesis using rows by (simp only:)
  qed
  obtain landed d2 where F: "(if units = [] then ([], d1) else flush_reservations tp head lease ids ?recs d1) = (landed, d2)"
    by (rule prod.exhaust)
  have landed: "landed = map (\<lambda>u. (wu_id u, ?v)) units \<and> (\<forall>u\<in>set units. live_copy_of (wu_id u) ?v d2)"
  proof (cases "units = []")
    case False
    then have f: "flush_reservations tp head lease ids ?recs d1 = (landed, d2)" using F by simp
    have "landed = map (\<lambda>r. (fl_unit r, fl_volunteer r)) ?recs" by (rule flush_all_lands [OF dist guard f])
    then have "landed = map (\<lambda>u. (wu_id u, ?v)) units" by (simp add: fallback_record_def)
    then show ?thesis using flush_lands_exactly(1) [OF f] by auto
  qed (use F in auto)
  then have got: "filter (\<lambda>u. (wu_id u, ?v) \<in> set landed) units = units" by (auto simp: filter_id_conv)
  obtain rs t where M: "mark_spot_checks cf read draws 0 (map (\<lambda>u. (u, hold_until cf u c)) units)
      (land_fallback cf ?v host (requester_subject ?v q) key units c, d2) = (rs, t)" by (rule prod.exhaust)
  have "r = Some rs" "s' = t"
    using assms(5) by (simp_all add: hand_out_from_db_def assms(4) F got M Let_def)
  then show ?thesis using mark_spot_checks_ids [OF M] landed by (simp add: comp_def)
qed

text \<open>The fallback hands out everything the database found for the requester: every unit the per-requester
  query returns (claimed for this head or not) passes the landing guard of the same moment, so it
  becomes a live copy of the requester's account and is part of the reply. The requester must be a
  stored account whose benchmark is the one the request is matched with.\<close>

theorem fallback_lands_what_it_finds:
  assumes "distinct (map wu_id (db_units d))" "db_volunteers d (ao_volunteer q) = Some vv"
    "vol_benchmark_fpops vv = ao_benchmark_fpops q"
    "find_assignable_batch tp head lease q limit excluded d = (units, d1)"
    "hand_out_from_db tp cf head lease ids read draws True True (ao_volunteer q) host q key limit excluded (c, d) = (r, s')"
  shows "(\<exists>rs. r = Some rs \<and> map (wu_id \<circ> fst) rs = map wu_id units) \<and>
    (\<forall>u\<in>set units. live_copy_of (wu_id u) (ao_volunteer q) (snd s'))"
  using assms by (rule fallback_lands)

subsection \<open>What an empty reply claims\<close>

lemma plan_due:
  assumes "hr_plan (fst (hand_out cf v q n draws c)) = FbDue key limit excluded"
  shows "0 < limit \<and> excluded = excluded_ids (snd (hand_out cf v q n draws c)) \<and>
    hr_results (fst (hand_out cf v q n draws c)) = []"
proof -
  have P: "0 < limit \<and> excluded = excluded_ids c'" if "plan_fallback host q' n' rej reason c' = FbDue key limit excluded" "0 < n'"
    for host q' n' rej reason c'
    using that by (auto simp: plan_fallback_def Let_def split: if_splits option.splits)
  show ?thesis
    using assms by (auto simp: hand_out_def Let_def split: prod.splits if_splits dest!: P)
qed

lemma row_of_id: "i \<in> set (map f xs) \<Longrightarrow> \<exists>x\<in>set xs. f x = i"
  by auto

lemma set_nonempty: "x \<in> set xs \<Longrightarrow> xs \<noteq> []"
  by auto

lemma dispatch_order_Nil: "dispatch_order ws = [] \<longleftrightarrow> ws = []"
  by (simp flip: set_empty)

lemma empty_batch:
  assumes "fst (find_assignable_batch tp head lease q limit excluded d) = []" "0 < limit"
    "w \<in> set (db_units d)" "wu_id w \<notin> set excluded" "head = nil_id \<or> claimable_by head (db_now d) w"
  shows "\<not> assignable_sql tp q d w"
proof
  assume a: "assignable_sql tp q d w"
  define ok where "ok = (\<lambda>w. assignable_sql tp q d w \<and> wu_id w \<notin> set excluded \<and> (head = nil_id \<or> claimable_by head (db_now d) w))"
  have "0 < batch_room q limit d"
    using a assms(2) by (auto simp: batch_room_def assignable_sql_def Let_def split: option.splits)
  moreover have "w \<in> set (dispatch_order (filter ok (db_units d)))" using a assms(3-5) by (simp add: ok_def)
  ultimately have "take (nat (batch_room q limit d)) (dispatch_order (filter ok (db_units d))) \<noteq> []"
    by (metis empty_iff empty_set take_eq_Nil zero_less_nat_eq less_irrefl)
  then obtain p where p: "p \<in> set (take (nat (batch_room q limit d)) (dispatch_order (filter ok (db_units d))))"
    by (meson hd_in_set)
  show False
  proof (cases "head = nil_id")
    case True
    then show False using p assms(1,2) by (auto simp: find_assignable_batch_def ok_def Let_def)
  next
    case False
    let ?picked = "take (nat (batch_room q limit d)) (dispatch_order (filter ok (db_units d)))"
    have "p \<in> set (db_units d)" using p set_take_subset by fastforce
    then have "wu_id p \<in> set (map wu_id (db_units (claim_units head lease (map wu_id ?picked) d)))"
      unfolding claim_units_ids by simp
    from row_of_id [OF this] obtain x where "x \<in> set (db_units (claim_units head lease (map wu_id ?picked) d))" "wu_id x = wu_id p"
      by (elim bexE)
    moreover have "wu_id p \<in> set (map wu_id ?picked)" unfolding set_map using p by (rule imageI)
    ultimately have "x \<in> set (filter (\<lambda>w. wu_id w \<in> set (map wu_id ?picked))
        (db_units (claim_units head lease (map wu_id ?picked) d)))" by (simp only: set_filter mem_Collect_eq)
    then have "filter (\<lambda>w. wu_id w \<in> set (map wu_id ?picked)) (db_units (claim_units head lease (map wu_id ?picked) d)) \<noteq> []"
      by (rule set_nonempty)
    then have "dispatch_order (filter (\<lambda>w. wu_id w \<in> set (map wu_id ?picked)) (db_units (claim_units head lease (map wu_id ?picked) d))) \<noteq> []"
      by (simp only: dispatch_order_Nil not_False_eq_True)
    then show False using assms(1,2) False unfolding find_assignable_batch_def Let_def ok_def by simp
  qed
qed

text \<open>A request refused as a contributor is never at its cap first, so the search is planned whenever one was.\<close>

lemma cap_hides_no_contribution:
  assumes "eligible cf v host q cd c = RejectInflightCap"
  shows "eligible cf v host (q\<lparr>ao_max_inflight := 0\<rparr>) cd c \<notin> {RejectAlreadyContributed, RejectSelfHeld}"
  using assms by (auto simp: eligible_def Let_def requester_subject_def split: if_splits option.splits prod.splits)

definition tally_backed :: "scan_state \<Rightarrow> bool" where
  "tally_backed st \<longleftrightarrow> 0 \<le> nt_contributed (ss_tally st) \<and>
     (0 < nt_contributed (ss_tally st) \<longrightarrow> (\<exists>r\<in>set (ss_rejects st). r \<in> {RejectAlreadyContributed, RejectSelfHeld}))"

lemma count_reason_contributed:
  "nt_contributed (count_reason q cd c r t) =
     nt_contributed t + (if r \<in> {RejectAlreadyContributed, RejectSelfHeld} then 1 else 0)"
  by (auto simp: count_reason_def Let_def split: reject_reason.splits option.splits)

lemma note_reject_contributed:
  assumes "eligible cf v host q cd c = r"
  shows "nt_contributed (note_reject cf v host (q\<lparr>ao_max_inflight := 0\<rparr>) scope cd r c t) = nt_contributed t \<or>
    nt_contributed (note_reject cf v host (q\<lparr>ao_max_inflight := 0\<rparr>) scope cd r c t) = nt_contributed t + 1 \<and>
      r \<in> {RejectAlreadyContributed, RejectSelfHeld}"
proof (cases "r = RejectInflightCap")
  case True
  then show ?thesis
    using cap_hides_no_contribution [of cf v host q cd c] assms
    by (auto simp: note_reject_def count_reason_contributed split: reject_reason.splits)
next
  case False
  then show ?thesis by (auto simp: note_reject_def count_reason_contributed)
qed

lemma tally_backed_refuse:
  "tally_backed st \<Longrightarrow> eligible cf v host q cd (ss_cache st) = r \<Longrightarrow> tally_backed (refuse_candidate cf v host q cd r st)"
  using note_reject_contributed [of cf v host q cd "ss_cache st" r "no_work_scope_of cf q (ss_cache st)" "ss_tally st"]
  by (auto simp: tally_backed_def refuse_candidate_def Let_def)

lemma tally_backed_scan:
  "scan_ready cf v host q draws n cds st = (kept, st') \<Longrightarrow> tally_backed st \<Longrightarrow> tally_backed st'"
proof (induction cds arbitrary: st kept)
  case (Cons cd cds)
  show ?case
  proof (cases "length (ss_results st) \<ge> n")
    case True
    then show ?thesis using Cons.prems by (simp add: scan_ready_full)
  next
    case n: False
    show ?thesis
    proof (cases "eligible cf v host q cd (ss_cache st) = RejectNone")
      case True
      obtain keep res c1 where acc: "accept_candidate cf v host q (draws (length (ss_results st))) cd (ss_cache st) = (keep, res, c1)"
        by (cases "accept_candidate cf v host q (draws (length (ss_results st))) cd (ss_cache st)") auto
      obtain rest where "scan_ready cf v host q draws n cds (st\<lparr>ss_cache := c1, ss_results := ss_results st @ [res]\<rparr>) = (rest, st')"
        using Cons.prems scan_ready_step(1) [where draws = draws, OF n True acc] by (auto split: prod.splits)
      then show ?thesis by (rule Cons.IH) (use Cons.prems in \<open>simp add: tally_backed_def\<close>)
    next
      case False
      obtain rest where "scan_ready cf v host q draws n cds
          (refuse_candidate cf v host q cd (eligible cf v host q cd (ss_cache st)) st) = (rest, st')"
        using Cons.prems scan_ready_step(2) [where draws = draws, OF n False] by (auto split: prod.splits)
      then show ?thesis by (rule Cons.IH) (rule tally_backed_refuse [OF Cons.prems(2) refl])
    qed
  qed
qed simp

lemma hand_out_cases:
  obtains (paced) "hr_reason (fst (hand_out cf v q n draws c)) = NoWorkUnspecified"
      "hr_plan (fst (hand_out cf v q n draws c)) = FbNotApplicable"
  | (served) "hr_reason (fst (hand_out cf v q n draws c)) = NoWorkUnspecified"
      "hr_plan (fst (hand_out cf v q n draws c)) = FbNotApplicable"
  | (empty) st where "tally_backed st"
      "hr_reason (fst (hand_out cf v q n draws c)) = no_work_reply v (ss_tally st) (snd (hand_out cf v q n draws c))"
      "hr_plan (fst (hand_out cf v q n draws c)) = plan_fallback (meter_id v (ao_host q))
         (resolved_options cf v (meter_id v (ao_host q)) q c) (max 1 n) (ss_rejects st)
         (hr_reason (fst (hand_out cf v q n draws c))) (snd (hand_out cf v q n draws c))"
proof (cases "cf_min_send_interval cf > 0 \<and> (case dc_last_hand_out c (meter_id v (ao_host q)) of None \<Rightarrow> False
    | Some t \<Rightarrow> dc_now c - t < cf_min_send_interval cf)")
  case True
  then show ?thesis by (intro paced) (simp_all add: hand_out_def Let_def)
next
  case False
  have n: "(if n < 1 then 1 else n) = max 1 n" by simp
  obtain kept st where scan_eq: "scan_ready cf v (meter_id v (ao_host q)) (resolved_options cf v (meter_id v (ao_host q)) q c)
      draws (nat (max 1 n)) (dc_ready c) (scan_start c) = (kept, st)" by (rule prod.exhaust)
  note E = hand_out_def [of cf v q n draws c, folded scan_start_def, unfolded Let_def n if_not_P [OF False] scan_eq prod.case]
  have "tally_backed st"
    by (rule tally_backed_scan [OF scan_eq]) (simp add: tally_backed_def scan_start_def empty_tally_def)
  then show ?thesis
    using served empty [of st] unfolding E by (cases "ss_results st = []") simp_all
qed

lemma contributed_not_inapplicable:
  assumes "hr_reason (fst (hand_out cf v q n draws c)) = NoWorkAlreadyContributed"
  shows "hr_plan (fst (hand_out cf v q n draws c)) \<noteq> FbNotApplicable"
proof (cases rule: hand_out_cases [of cf v q n draws c])
  case (empty st)
  have "0 < nt_contributed (ss_tally st)"
    using empty(2) assms by (auto simp: no_work_reply_def split: if_splits)
  then have "count_if (\<lambda>r. r \<in> {RejectAlreadyContributed, RejectSelfHeld, RejectBenched}) (ss_rejects st) \<noteq> 0"
    using empty(1) by (auto simp: tally_backed_def count_if_zero)
  then show ?thesis
    unfolding empty(3) assms by (auto simp: plan_fallback_def Let_def split: option.splits if_splits)
qed (use assms in simp_all)

lemma plan_answered_empty:
  assumes "hr_plan (fst (hand_out cf v q n draws c)) = FbAnsweredEmpty"
  shows "\<exists>t. dc_fallback_runs (snd (hand_out cf v q n draws c)) (meter_id v (ao_host q), fallback_scope_key q) = Some (t, False) \<and>
    dc_now (snd (hand_out cf v q n draws c)) - t < fallback_empty_ttl"
proof (cases rule: hand_out_cases [of cf v q n draws c])
  case (empty st)
  have "fallback_scope_key (resolved_options cf v (meter_id v (ao_host q)) q c) = fallback_scope_key q"
    by (simp add: fallback_scope_key_def resolved_options_def Let_def)
  then show ?thesis
    using assms unfolding empty(3) by (auto simp: plan_fallback_def Let_def split: option.splits if_splits)
qed (use assms in simp_all)


lemma demo_found:
  "find_assignable_batch no_gate nil_id 120 (demo_request ''a'' None) 1 [] demo_db = ([queued_unit ''u'' ''l''], demo_db)"
proof -
  have "filter (\<lambda>w. assignable_sql no_gate (demo_request ''a'' None) demo_db w) (db_units demo_db) = [queued_unit ''u'' ''l'']"
    using demo_assignable by (simp add: demo_db_def sample_db_def)
  moreover have "batch_room (demo_request ''a'' None) 1 demo_db = 1"
    by (simp add: batch_room_def demo_request_def live_of_machine_def demo_db_def sample_db_def)
  ultimately show ?thesis by (simp add: find_assignable_batch_def dispatch_order_def Let_def)
qed

theorem fallback_lands_what_it_finds_witness:
  "\<exists>rs s'. hand_out_from_db no_gate demo_config nil_id 120 (\<lambda>_. ''i'') (\<lambda>_. None) (\<lambda>_. None) True True ''a'' ''a''
       (demo_request ''a'' None) (''a'', '''') 1 [] (fresh_cache 100, demo_db) = (Some rs, s') \<and>
     map (wu_id \<circ> fst) rs = [''u''] \<and> live_copy_of ''u'' ''a'' (snd s')"
proof -
  obtain r s' where h: "hand_out_from_db no_gate demo_config nil_id 120 (\<lambda>_. ''i'') (\<lambda>_. None) (\<lambda>_. None) True True
      (ao_volunteer (demo_request ''a'' None)) ''a'' (demo_request ''a'' None) (''a'', '''') 1 [] (fresh_cache 100, demo_db) = (r, s')"
    by (rule prod.exhaust)
  have "distinct (map wu_id (db_units demo_db))" "db_volunteers demo_db (ao_volunteer (demo_request ''a'' None)) = Some (ok_volunteer ''a'')"
    "vol_benchmark_fpops (ok_volunteer ''a'') = ao_benchmark_fpops (demo_request ''a'' None)"
    by (simp_all add: demo_db_def sample_db_def demo_request_def ok_volunteer_def)
  from fallback_lands_what_it_finds [OF this demo_found h]
  have "\<exists>rs. r = Some rs \<and> map (wu_id \<circ> fst) rs = map wu_id [queued_unit ''u'' ''l'']"
    "\<forall>u\<in>set [queued_unit ''u'' ''l'']. live_copy_of (wu_id u) (ao_volunteer (demo_request ''a'' None)) (snd s')" by blast+
  moreover have "ao_volunteer (demo_request ''a'' None) = ''a''" "wu_id (queued_unit ''u'' ''l'') = ''u''"
    by (simp_all add: demo_request_def queued_unit_def)
  ultimately show ?thesis using h by auto
qed

definition demo_contributed :: dcache where
  "demo_contributed = demo_pool\<lparr>dc_ready := [demo_candidate ''U''\<lparr>cd_contributors := [''vol:a'']\<rparr>]\<rparr>"

lemma demo_contributed_reply:
  "pr_reason (fst (hand_out_with_reason no_gate demo_config nil_id 120 (\<lambda>_. ''i'') (\<lambda>_. None) (\<lambda>_. None) (\<lambda>_. None) True True
     ''a'' (demo_request ''a'' None) 1 (demo_contributed, sample_db [] [] []))) = NoWorkAlreadyContributed"
proof -
  have "fst (hand_out demo_config ''a'' (demo_request ''a'' None) 1 (\<lambda>_. None) demo_contributed) =
      \<lparr>hr_results = [], hr_drained = True, hr_reason = NoWorkAlreadyContributed,
       hr_plan = FbDue (''a'', ''|'') 1 [''U''], hr_cap = 3\<rparr>"
    by (simp add: hand_out_def resolved_options_def effective_inflight_cap_def meter_id_def demo_contributed_def demo_defs
        eligible_defs subject_for_volunteer_id_def refuse_candidate_def note_reject_def no_work_scope_of_def count_reason_def
        leaf_visible_fresh_def no_work_reply_def empty_tally_def plan_fallback_def fallback_scope_key_def join_ids_def
        excluded_ids_def keys_of_def Let_def)
  then show ?thesis
    by (auto simp: hand_out_with_reason_def hand_out_from_db_def find_assignable_batch_def sample_db_def dispatch_order_def
        Let_def split: prod.splits)
qed


subsection \<open>Where the bookkeeping slips\<close>

definition one_slot :: assignment_options where
  "one_slot = (demo_request ''a'' (Some ''M''))\<lparr>ao_max_inflight := 1\<rparr>"

definition two_unit_pool :: dcache where
  "two_unit_pool = demo_pool\<lparr>dc_ready := [demo_candidate ''U'', demo_candidate ''V'']\<rparr>"


definition pool_of :: "work_unit \<Rightarrow> dcache" where
  "pool_of u = (fresh_cache 100)\<lparr>dc_ready := [(demo_candidate ''X'')\<lparr>cd_unit := u\<rparr>],
     dc_leafs := [''l'' \<mapsto> (active_leaf ''l'' default_validation_config, 100)]\<rparr>"

definition benched_db :: db where
  "benched_db = sample_db [(queued_unit ''u'' ''l'')\<lparr>wu_spot_check := True\<rparr>]
     [(reserved_copy ''c'' ''u'' ''a'')\<lparr>cp_outcome := Some OutReturned, cp_outcome_at := Some 99\<rparr>] []"

lemmas poll_defs = hand_out_def resolved_options_def effective_inflight_cap_def meter_id_def demo_defs eligible_defs accept_candidate_def
  hold_until_def put_hold_def pin_class_def peek_leaf_def chosen_for_spot_check_def Let_def subject_for_volunteer_id_def
  refuse_candidate_def note_reject_def no_work_scope_of_def count_reason_def leaf_visible_fresh_def no_work_reply_def
  empty_tally_def plan_fallback_def

lemma benched_db_refuses: "\<not> reserve_guard d ''u'' ''a''"
  if "db_copies d = db_copies benched_db" "db_now d = 100"
  using that by (auto simp: reserve_guard_def cooldown_guard_sql_def benched_db_def sample_db_def reserved_copy_def benching_copy_def
      pool_exhausted_def returned_reoffer_cooldown_seconds_def bench_pool_exhausted_grace_seconds_def dest: find_unit_id split: option.splits)

text \<open>A spot-checked hand-out the database refuses is released without a bench, unlike every other refused
  landing: the very next poll of the same account is handed the same unit again, and refused again.\<close>

theorem refused_spot_check_is_reoffered:
  "let u = (queued_unit ''u'' ''l'')\<lparr>wu_spot_check := True\<rparr>; q = demo_request ''a'' None;
       poll = hand_out demo_config ''a'' q 1 (\<lambda>_. None);
       c1 = snd (poll (pool_of u));
       (c2, d2) = flush_spot_checks demo_config (\<lambda>_. ''i'') (\<lambda>_. True) (c1, benched_db) in
   map (wu_id \<circ> fst) (hr_results (fst (poll (pool_of u)))) = [''u''] \<and>
   db_copies d2 = db_copies benched_db \<and> dc_holds c2 = [] \<and>
   map (wu_id \<circ> fst) (hr_results (fst (poll c2))) = [''u'']"
proof -
  let ?u = "(queued_unit ''u'' ''l'')\<lparr>wu_spot_check := True\<rparr>" and ?q = "demo_request ''a'' None"
  let ?r = "hand_out demo_config ''a'' ?q 1 (\<lambda>_. None) (pool_of ?u)"
  have r: "map (wu_id \<circ> fst) (hr_results (fst ?r)) = [''u'']"
    "dc_spot (snd ?r) = [\<lparr>sc_unit = ''u'', sc_volunteer = ''a'', sc_host = None, sc_until = 21700\<rparr>]"
    "(snd ?r)\<lparr>dc_spot := [], dc_holds := [], dc_inflight := (\<lambda>_. 0)\<rparr> = pool_of ?u"
    "dc_holds (snd ?r) = [\<lparr>hc_unit = ''u'', hc_account = ''a'', hc_until = 21700, hc_host = ''a'', hc_subject = ''vol:a''\<rparr>]"
    "dc_inflight (snd ?r) = (\<lambda>_. 0)(''a'' := 1)" "dc_pending (snd ?r) = []"
    by (simp_all add: pool_of_def poll_defs)
  define d1 where "d1 = snd (mark_spot_check ''u'' benched_db)"
  have m: "mark_spot_check ''u'' benched_db = (Inr (), d1)" "db_copies d1 = db_copies benched_db" "db_now d1 = 100"
    by (simp_all add: d1_def mark_spot_check_def benched_db_def sample_db_def queued_unit_def Let_def)
  have "fst (reserve_copy ''i'' ''u'' ''a'' None 21700 n d1) = Inl (Conflict ''RESERVATION_CONFLICT'')"
    "snd (reserve_copy ''i'' ''u'' ''a'' None 21700 n d1) = d1" for n
    using benched_db_refuses [OF m(2,3)] by (simp_all add: reserve_copy_def)
  then have "reserve_copy ''i'' ''u'' ''a'' None 21700 n d1 = (Inl (Conflict ''RESERVATION_CONFLICT''), d1)" for n
    by (metis prod.collapse)
  moreover have batch: "cf_flush_batch demo_config = 8" by (simp add: demo_config_def)
  ultimately have F: "flush_spot_checks demo_config (\<lambda>_. ''i'') (\<lambda>_. True) (snd ?r, benched_db) =
      (release_in_mem ''u'' ''a'' ((snd ?r)\<lparr>dc_spot := []\<rparr>), d1)"
    by (simp add: flush_spot_checks_def take_spot_batch_def r(2) land_spot_check_def m(1))
  have C: "release_in_mem ''u'' ''a'' ((snd ?r)\<lparr>dc_spot := []\<rparr>) = pool_of ?u"
  proof -
    have "release_in_mem ''u'' ''a'' (c\<lparr>dc_spot := []\<rparr>) = c\<lparr>dc_spot := [], dc_holds := [], dc_inflight := (\<lambda>_. 0)\<rparr>"
      if "dc_holds c = dc_holds (snd ?r)" "dc_inflight c = dc_inflight (snd ?r)" "dc_pending c = []" for c
      using that by (simp add: release_in_mem_def purge_pending_def drop_machine_def r(4,5) fun_eq_iff)
    from this [OF refl refl r(6)] show ?thesis by (rule trans) (rule r(3))
  qed
  show ?thesis unfolding Let_def F C prod.case using r(1) m(2) by (simp add: pool_of_def fresh_cache_def)
qed

subsection \<open>Landing a batch\<close>

text \<open>The landing write is the one place a hand-out becomes a copy, and it never gives one principal two
  slots of a unit: if no two of the live copies and pending results of every unit share a principal before a
  batch, none do after it, whatever the batch holds (two devices of one identity in it included). The pairs it
  reports are exactly the live copies it added, each of a record of the batch that passed the landing guard.\<close>

theorem landing_keeps_principals_distinct:
  assumes "slots_distinct u d" "flush_reservations tp head lease ids recs d = (landed, d')"
  shows "slots_distinct u d' \<and> (\<forall>v. live_copy_of u v d' \<longleftrightarrow> live_copy_of u v d \<or> (u, v) \<in> set landed) \<and>
    (\<forall>p\<in>set landed. \<exists>r\<in>set recs. p = (fl_unit r, fl_volunteer r) \<and> flush_guard tp d r)"
proof (intro conjI)
  let ?rs = "filter (flush_guard tp d) (deduplicated d recs)"
  have "distinct (map (flush_key d) ?rs)"
    by (simp add: deduplicated_def distinct_map_filter first_per_key_distinct)
  then have "slots_distinct u (snd (land_all ids 0 ?rs d))"
    using assms(1) flush_guard_slots by (intro land_all_slots) auto
  then show "slots_distinct u d'"
    using assms by (auto simp: flush_reservations_def split: prod.splits if_splits)
  show "\<forall>v. live_copy_of u v d' \<longleftrightarrow> live_copy_of u v d \<or> (u, v) \<in> set landed"
    using flush_lands_exactly(1) [OF assms(2)] by blast
  show "\<forall>p\<in>set landed. \<exists>r\<in>set recs. p = (fl_unit r, fl_volunteer r) \<and> flush_guard tp d r"
    using flush_lands_exactly(3) [OF assms(2)] by fastforce
qed

definition demo_record :: flush_reservation where
  "demo_record = \<lparr>fl_unit = ''u'', fl_volunteer = ''a'', fl_host = None, fl_until = 21700, fl_deadline = 21600\<rparr>"

lemma demo_record_guard: "flush_guard no_gate demo_db demo_record"
  by (rule assignable_lands [where w = "queued_unit ''u'' ''l''" and q = "demo_request ''a'' None" and vv = "ok_volunteer ''a''"])
    (simp_all add: demo_assignable, simp_all add: demo_db_def sample_db_def demo_request_def demo_record_def queued_unit_def ok_volunteer_def)

theorem landing_keeps_principals_distinct_witness:
  "\<exists>d'. flush_reservations no_gate nil_id 120 (\<lambda>_. ''i'') [demo_record] demo_db = ([(''u'', ''a'')], d') \<and>
     slots_distinct ''u'' d' \<and> live_copy_of ''u'' ''a'' d'"
proof -
  obtain landed d' where f: "flush_reservations no_gate nil_id 120 (\<lambda>_. ''i'') [demo_record] demo_db = (landed, d')"
    by (rule prod.exhaust)
  have "landed = map (\<lambda>r. (fl_unit r, fl_volunteer r)) [demo_record]"
    by (rule flush_all_lands [OF _ _ f]) (simp_all add: demo_record_guard)
  then have "landed = [(''u'', ''a'')]" by (simp add: demo_record_def)
  moreover have "slots_distinct ''u'' demo_db"
    by (simp add: slots_distinct_def live_subjects_def pending_subjects_def live_copies_of_def pending_of_def demo_db_def sample_db_def)
  ultimately show ?thesis using landing_keeps_principals_distinct [OF _ f, of "''u''"] f by auto
qed

text \<open>One polled and unflushed unit of the small pool.\<close>

definition demo_unflushed :: dcache where
  "demo_unflushed = snd (hand_out demo_config ''a'' (demo_request ''a'' None) 1 (\<lambda>_. None) (pool_of (queued_unit ''u'' ''l'')))"

lemma demo_unflushed_queues: "dc_pending demo_unflushed = [demo_record]" "dc_spot demo_unflushed = []"
  by (simp_all add: demo_unflushed_def demo_record_def pool_of_def poll_defs)

theorem flush_settles_every_hand_out_witness:
  "let (c', d') = flush_batch no_gate demo_config nil_id 120 (\<lambda>_. ''i'') True (\<lambda>_. True) (demo_unflushed, demo_db) in
   (live_copy_of ''u'' ''a'' d' \<or> (\<forall>h\<in>set (dc_holds c'). \<not> (hc_unit h = ''u'' \<and> hc_account h = ''a''))) \<and>
   set (dc_holds c') \<subseteq> set (dc_holds demo_unflushed)"
proof -
  obtain c' d' where f: "flush_batch no_gate demo_config nil_id 120 (\<lambda>_. ''i'') True (\<lambda>_. True) (demo_unflushed, demo_db) = (c', d')"
    by (rule prod.exhaust)
  have "cf_flush_batch demo_config = 8" by (simp add: demo_config_def)
  then show ?thesis
    using flush_settles_every_hand_out [OF f] unfolding f Let_def prod.case
    by (simp add: demo_unflushed_queues) (simp add: demo_record_def)
qed


end
