(* ===== verification/ClientBudget.thy ===== *)
theory ClientBudget
  imports Capability
begin

text \<open>
  The volunteer client's budgets (\<open>volunteer-cli/internal/daemon/cpu_budget.go\<close>, \<open>leaf_override.go\<close>, and
  \<open>runtime/limits.go\<close>, \<open>runtime/cpu_share.go\<close>): what a unit is booked at, the ledger of what the
  configured budgets have free, and the cores a starting unit is granted. The client's configuration
  and what it knows of the machine are one record; a running unit is a \<open>client_unit\<close> that carries its
  grant. The configuration is present and a unit pointer is never nil. A Go map the code searches for
  its first match is the list of its entries in iteration order.
\<close>

record cached_spec =
  cs_binaries :: "string list"
  cs_image :: string
  cs_gpu :: bool
  cs_max_mem :: int
  cs_max_disk :: int

record cached_reqs =
  cr_min_disk :: int
  cr_min_cores :: int
  cr_max_cores :: int
  cr_gpu :: bool

record cached_leaf =
  cl_id :: uid
  cl_slug :: string
  cl_spec :: "cached_spec option"
  cl_reqs :: "cached_reqs option"
  cl_est_seconds :: rat

record leaf_prefs =
  lp_cores :: "string \<Rightarrow> int option"
  lp_max_running :: "string \<Rightarrow> int option"

record server_config =
  sc_name :: string
  sc_address :: string
  sc_pinned :: "uid list"
  sc_prefs :: leaf_prefs

record client_env =
  ce_max_cores :: int
  ce_max_mem :: int
  ce_max_disk_gb :: int
  ce_max_running :: int
  ce_servers :: "server_config list"
  ce_leafs :: "(string \<times> cached_leaf list) list"
  ce_vm_cpus :: int
  ce_vm_mem :: int
  ce_gpus :: int

record cpu_grant =
  cg_cores :: int
  cg_budget :: int

record client_unit =
  cu_id :: uid
  cu_leaf :: uid
  cu_runtime :: string
  cu_gpu :: bool
  cu_mem :: int
  cu_disk :: int
  cu_fpops :: rat
  cu_deadline :: int
  cu_reserved_until :: int
  cu_grant :: cpu_grant

definition no_grant :: cpu_grant where
  "no_grant = \<lparr>cg_cores = 0, cg_budget = 0\<rparr>"

text \<open>The runtime a unit runs on.\<close>

definition to_lower :: "string \<Rightarrow> string" where
  "to_lower = map (\<lambda>c. if CHR ''A'' \<le> c \<and> c \<le> CHR ''Z'' then char_of (of_char c + (32::nat)) else c)"

definition normalize_runtime_name :: "string \<Rightarrow> string" where
  "normalize_runtime_name n = to_lower (trim_space n)"

definition runtime_key_for :: "client_unit \<Rightarrow> string" where
  "runtime_key_for u = (let n = normalize_runtime_name (cu_runtime u) in if n = [] then ''native'' else n)"

definition is_container_unit :: "client_unit \<Rightarrow> bool" where
  "is_container_unit u \<longleftrightarrow> runtime_key_for u = ''container''"

text \<open>What is booked is what is enforced: the declaration clamped to the budget.\<close>

definition booked_mem_mb :: "int \<Rightarrow> int \<Rightarrow> int" where
  "booked_mem_mb declared limit =
     (let v = (if declared \<le> 0 then 512 else declared);
          v = (if v < 16 then 16 else v)
      in if limit > 0 \<and> v > limit then limit else v)"

definition booked_disk_mb :: "int \<Rightarrow> int \<Rightarrow> int" where
  "booked_disk_mb declared limit =
     (let v = (if declared \<le> 0 then 10 * 1024 else declared);
          v = (if v < 16 then 16 else v)
      in if limit > 0 \<and> v > limit then limit else v)"

definition container_memory_budget :: "int \<Rightarrow> int \<Rightarrow> int" where
  "container_memory_budget config engine =
     (if engine \<le> 0 then config
      else let vm = (if engine - 512 < 16 then 16 else engine - 512)
           in if config \<le> 0 \<or> vm < config then vm else config)"

definition container_cpu_budget :: "int \<Rightarrow> int \<Rightarrow> int" where
  "container_cpu_budget config engine =
     (if engine \<le> 0 \<or> config \<le> 0 then config else if engine < config then engine else config)"

definition host_cores :: "client_env \<Rightarrow> int" where
  "host_cores e = ce_max_cores e"

definition container_cores :: "client_env \<Rightarrow> int" where
  "container_cores e = container_cpu_budget (host_cores e) (ce_vm_cpus e)"

definition host_mem :: "client_env \<Rightarrow> int" where
  "host_mem e = ce_max_mem e"

definition container_mem :: "client_env \<Rightarrow> int" where
  "container_mem e = container_memory_budget (host_mem e) (ce_vm_mem e)"

definition cpu_budget_for :: "client_env \<Rightarrow> client_unit \<Rightarrow> int" where
  "cpu_budget_for e u = (if is_container_unit u then container_cores e else host_cores e)"

definition memory_budget_for :: "client_env \<Rightarrow> client_unit \<Rightarrow> int" where
  "memory_budget_for e u = (if is_container_unit u then container_mem e else host_mem e)"

definition container_cpu_binds :: "client_env \<Rightarrow> bool" where
  "container_cpu_binds e \<longleftrightarrow> container_cores e > 0 \<and> (host_cores e \<le> 0 \<or> container_cores e < host_cores e)"

definition cpu_limited_by_vm :: "client_env \<Rightarrow> bool" where
  "cpu_limited_by_vm e \<longleftrightarrow> ce_vm_cpus e > 0 \<and> container_cores e < ce_max_cores e"

definition memory_limited_by_vm :: "client_env \<Rightarrow> bool" where
  "memory_limited_by_vm e \<longleftrightarrow> ce_vm_mem e > 0 \<and> container_mem e < ce_max_mem e"

definition booked_mem :: "client_env \<Rightarrow> client_unit \<Rightarrow> int" where
  "booked_mem e u = booked_mem_mb (cu_mem u) (memory_budget_for e u)"

definition booked_container_mem :: "client_env \<Rightarrow> client_unit \<Rightarrow> int" where
  "booked_container_mem e u = (if \<not> is_container_unit u then 0 else booked_mem e u)"

text \<open>The cores of a leaf: its declared range, and the volunteer's override for it.\<close>

definition core_range_of :: "cached_reqs option \<Rightarrow> int \<times> int" where
  "core_range_of r =
     (let lo = (case r of None \<Rightarrow> 1 | Some q \<Rightarrow> if cr_min_cores q > 1 then cr_min_cores q else 1);
          hi = (case r of None \<Rightarrow> 0 | Some q \<Rightarrow> cr_max_cores q)
      in (lo, if hi < lo then lo else hi))"

definition head_of_leaf :: "client_env \<Rightarrow> uid \<Rightarrow> (string \<times> cached_leaf) option" where
  "head_of_leaf e i =
     map_option (\<lambda>(h, ls). (h, the (find (\<lambda>l. cl_id l = i) ls)))
       (find (\<lambda>(h, ls). find (\<lambda>l. cl_id l = i) ls \<noteq> None) (ce_leafs e))"

definition cached_leaf_of :: "client_env \<Rightarrow> uid \<Rightarrow> cached_leaf option" where
  "cached_leaf_of e i = (if i = [] then None else map_option snd (head_of_leaf e i))"

definition declared_core_range :: "client_env \<Rightarrow> uid \<Rightarrow> int \<times> int" where
  "declared_core_range e i = core_range_of (case cached_leaf_of e i of None \<Rightarrow> None | Some l \<Rightarrow> cl_reqs l)"

definition display_name :: "server_config \<Rightarrow> string" where
  "display_name s = (if sc_name s \<noteq> [] then sc_name s else sc_address s)"

definition pref_lookup :: "(string \<Rightarrow> int option) \<Rightarrow> string \<Rightarrow> uid \<Rightarrow> int" where
  "pref_lookup m slug i =
     (let by_id = (case m i of Some n \<Rightarrow> if n > 0 then n else 0 | None \<Rightarrow> 0)
      in if slug \<noteq> [] then (case m slug of Some n \<Rightarrow> if n > 0 then n else by_id | None \<Rightarrow> by_id) else by_id)"

definition override_from :: "leaf_prefs \<Rightarrow> string \<Rightarrow> uid \<Rightarrow> int \<times> int" where
  "override_from p slug i = (pref_lookup (lp_cores p) slug i, pref_lookup (lp_max_running p) slug i)"

text \<open>The volunteer's cores and running cap for a leaf; \<open>(0, 0)\<close> when there is none.\<close>

definition leaf_override :: "client_env \<Rightarrow> uid \<Rightarrow> int \<times> int" where
  "leaf_override e i =
     (if i = [] then (0, 0)
      else let (head, slug) = (case head_of_leaf e i of Some (h, l) \<Rightarrow> (h, cl_slug l) | None \<Rightarrow> ([], []))
           in case find (\<lambda>s. if head \<noteq> [] then display_name s = head else i \<in> set (sc_pinned s)) (ce_servers e) of
                None \<Rightarrow> (0, 0)
              | Some s \<Rightarrow> override_from (sc_prefs s) slug i)"

definition leaf_max_running :: "client_env \<Rightarrow> uid \<Rightarrow> int" where
  "leaf_max_running e i = snd (leaf_override e i)"

definition apply_cores_override :: "int \<times> int \<Rightarrow> int \<Rightarrow> int \<times> int" where
  "apply_cores_override r cores =
     (case r of (lo, hi) \<Rightarrow>
       if cores \<le> 0 then (lo, hi)
       else let c = (if cores < lo then lo else cores); c = (if c > hi then hi else c) in (c, c))"

definition leaf_core_range :: "client_env \<Rightarrow> uid \<Rightarrow> int \<times> int" where
  "leaf_core_range e i = apply_cores_override (declared_core_range e i) (fst (leaf_override e i))"

definition effective_core_range :: "client_env \<Rightarrow> cached_leaf \<Rightarrow> int \<times> int" where
  "effective_core_range e l = apply_cores_override (core_range_of (cl_reqs l)) (fst (leaf_override e (cl_id l)))"

definition unit_core_range :: "client_env \<Rightarrow> client_unit \<Rightarrow> int \<times> int" where
  "unit_core_range e u =
     (case leaf_core_range e (cu_leaf u) of (lo, hi) \<Rightarrow>
       let b = cpu_budget_for e u
       in if b > 0 then (if lo > b then b else lo, if hi > b then b else hi) else (lo, hi))"

definition booked_cores :: "client_env \<Rightarrow> client_unit \<Rightarrow> int" where
  "booked_cores e u = (if cg_cores (cu_grant u) > 0 then cg_cores (cu_grant u) else fst (unit_core_range e u))"

definition booked_container_cores :: "client_env \<Rightarrow> client_unit \<Rightarrow> int" where
  "booked_container_cores e u = (if \<not> is_container_unit u then 0 else booked_cores e u)"

section \<open>The ledger and the grant\<close>

text \<open>
  What the configured budgets have free. \<open>no_bound\<close> stands for a budget that is not set. The running
  tasks are the units of the active slots.
\<close>

record budget_ledger =
  lg_host :: int
  lg_container :: int
  lg_host_mem :: int
  lg_container_mem :: int
  lg_gpus :: int
  lg_tasks :: int
  lg_leaf :: "uid \<Rightarrow> int"

definition no_bound :: int where
  "no_bound = 2147483647"

definition unbounded_ledger :: budget_ledger where
  "unbounded_ledger = \<lparr>lg_host = no_bound, lg_container = no_bound, lg_host_mem = no_bound,
     lg_container_mem = no_bound, lg_gpus = no_bound, lg_tasks = no_bound, lg_leaf = (\<lambda>_. 0)\<rparr>"

definition total_active :: "(client_unit \<Rightarrow> int) \<Rightarrow> client_unit list \<Rightarrow> int" where
  "total_active book running = sum_list (map book running)"

definition active_gpus :: "client_unit list \<Rightarrow> int" where
  "active_gpus running = count_if cu_gpu running"

definition active_for_leaf :: "uid \<Rightarrow> client_unit list \<Rightarrow> int" where
  "active_for_leaf i running = count_if (\<lambda>u. cu_leaf u = i) running"

definition max_running_tasks :: "client_env \<Rightarrow> int" where
  "max_running_tasks e = (if ce_max_running e < 0 then 0 else ce_max_running e)"

definition ledger_for :: "client_env \<Rightarrow> client_unit list \<Rightarrow> budget_ledger" where
  "ledger_for e running =
     \<lparr>lg_host = (if host_cores e > 0 then host_cores e - total_active (booked_cores e) running else no_bound),
      lg_container = (if container_cpu_binds e
        then container_cores e - total_active (booked_container_cores e) running else no_bound),
      lg_host_mem = (if host_mem e > 0 then host_mem e - total_active (booked_mem e) running else no_bound),
      lg_container_mem = (if container_mem e > 0 \<and> (host_mem e \<le> 0 \<or> container_mem e < host_mem e)
        then container_mem e - total_active (booked_container_mem e) running else no_bound),
      lg_gpus = (if ce_gpus e > 0 then ce_gpus e - active_gpus running else no_bound),
      lg_tasks = (if max_running_tasks e > 0 then max_running_tasks e - int (length running) else no_bound),
      lg_leaf = (\<lambda>i. active_for_leaf i running)\<rparr>"

definition ledger_fits :: "client_env \<Rightarrow> budget_ledger \<Rightarrow> client_unit \<Rightarrow> bool" where
  "ledger_fits e l u =
     (let cores = booked_cores e u; mem = booked_mem e u; c = is_container_unit u in
      if cores > lg_host l \<or> c \<and> cores > lg_container l \<or> mem > lg_host_mem l
         \<or> c \<and> mem > lg_container_mem l \<or> cu_gpu u \<and> lg_gpus l \<le> 0 \<or> lg_tasks l \<le> 0
      then False
      else let limit = leaf_max_running e (cu_leaf u)
           in if limit > 0 \<and> lg_leaf l (cu_leaf u) \<ge> limit then False else True)"

definition ledger_take :: "client_env \<Rightarrow> client_unit \<Rightarrow> int \<Rightarrow> budget_ledger \<Rightarrow> budget_ledger" where
  "ledger_take e u cores l =
     (let mem = booked_mem e u; c = is_container_unit u in
      l\<lparr>lg_host := lg_host l - cores,
        lg_host_mem := lg_host_mem l - mem,
        lg_container := (if c then lg_container l - cores else lg_container l),
        lg_container_mem := (if c then lg_container_mem l - mem else lg_container_mem l),
        lg_gpus := (if cu_gpu u then lg_gpus l - 1 else lg_gpus l),
        lg_tasks := lg_tasks l - 1,
        lg_leaf := (lg_leaf l)(cu_leaf u := lg_leaf l (cu_leaf u) + 1)\<rparr>)"

definition cores_free_for :: "budget_ledger \<Rightarrow> client_unit \<Rightarrow> int" where
  "cores_free_for l u =
     (if is_container_unit u \<and> lg_container l < lg_host l then lg_container l else lg_host l)"

text \<open>The loop over the waiting units that sets their minimums aside.\<close>

fun set_aside :: "client_env \<Rightarrow> client_unit \<Rightarrow> client_unit list \<Rightarrow> budget_ledger \<Rightarrow> budget_ledger" where
  "set_aside e u [] l = l"
| "set_aside e u (w # ws) l =
     (if cores_free_for l u \<le> 0 then l
      else if cu_id w = cu_id u \<or> \<not> ledger_fits e l w then set_aside e u ws l
      else set_aside e u ws (ledger_take e w (booked_cores e w) l))"

definition grant_from :: "client_env \<Rightarrow> budget_ledger \<Rightarrow> client_unit \<Rightarrow> client_unit list \<Rightarrow> cpu_grant" where
  "grant_from e l u waiting =
     (let budget = cpu_budget_for e u in
      if budget \<le> 0 then no_grant
      else case unit_core_range e u of (lo, hi) \<Rightarrow>
        let l1 = set_aside e u waiting (ledger_take e u lo l);
            extra = (if cores_free_for l1 u < 0 then 0 else cores_free_for l1 u);
            cores = (if lo + extra > hi then hi else lo + extra)
        in \<lparr>cg_cores = cores, cg_budget = budget\<rparr>)"

definition grant_cpu :: "client_env \<Rightarrow> client_unit list \<Rightarrow> client_unit \<Rightarrow> client_unit list \<Rightarrow> cpu_grant" where
  "grant_cpu e running u waiting = grant_from e (ledger_for e running) u waiting"

definition adopted_grant :: "client_env \<Rightarrow> client_unit \<Rightarrow> int \<Rightarrow> cpu_grant" where
  "adopted_grant e u cores =
     (let budget = cpu_budget_for e u in
      if budget \<le> 0 then no_grant
      else \<lparr>cg_cores = (if cores \<le> 0 then fst (unit_core_range e u) else cores), cg_budget = budget\<rparr>)"

section \<open>Bounds\<close>

lemma core_range_ordered: "1 \<le> fst (core_range_of r)" "fst (core_range_of r) \<le> snd (core_range_of r)"
  by (simp_all add: core_range_of_def Let_def split: option.splits)

lemma apply_cores_override_range:
  assumes "1 \<le> fst r" "fst r \<le> snd r"
  shows "fst r \<le> fst (apply_cores_override r c)" "fst (apply_cores_override r c) \<le> snd (apply_cores_override r c)"
    "snd (apply_cores_override r c) \<le> snd r"
  using assms by (auto simp: apply_cores_override_def Let_def split: prod.splits)

lemma leaf_core_range_ordered:
  "1 \<le> fst (leaf_core_range e i)" "fst (leaf_core_range e i) \<le> snd (leaf_core_range e i)"
  using apply_cores_override_range [OF core_range_ordered] core_range_ordered(1)
  unfolding leaf_core_range_def declared_core_range_def by (meson order_trans)+

lemma unit_core_range_ordered:
  "1 \<le> fst (unit_core_range e u)" "fst (unit_core_range e u) \<le> snd (unit_core_range e u)"
  "cpu_budget_for e u > 0 \<Longrightarrow> snd (unit_core_range e u) \<le> cpu_budget_for e u"
  using leaf_core_range_ordered [of e "cu_leaf u"]
  by (auto simp: unit_core_range_def Let_def split: prod.splits)

lemma booked_cores_pos: "1 \<le> booked_cores e u"
  using unit_core_range_ordered(1) [of e u] by (simp add: booked_cores_def)

lemma booked_mem_pos: "0 \<le> booked_mem e u"
  by (simp add: booked_mem_def booked_mem_mb_def Let_def)

lemma container_cores_le_host: "host_cores e > 0 \<Longrightarrow> 0 < container_cores e \<and> container_cores e \<le> host_cores e"
  by (auto simp: container_cores_def container_cpu_budget_def)

lemma cpu_budget_pos: "host_cores e > 0 \<Longrightarrow> cpu_budget_for e u > 0"
  using container_cores_le_host [of e] by (simp add: cpu_budget_for_def)

lemma total_active_simps [simp]:
  "total_active b [] = 0" "total_active b (u # us) = b u + total_active b us"
  "total_active b (us @ vs) = total_active b us + total_active b vs"
  by (simp_all add: total_active_def)

lemma ledger_take_figures [simp]:
  "lg_host (ledger_take e u c l) = lg_host l - c"
  "lg_container (ledger_take e u c l) = (if is_container_unit u then lg_container l - c else lg_container l)"
  "lg_host_mem (ledger_take e u c l) = lg_host_mem l - booked_mem e u"
  "lg_container_mem (ledger_take e u c l) = (if is_container_unit u then lg_container_mem l - booked_mem e u else lg_container_mem l)"
  "lg_gpus (ledger_take e u c l) = (if cu_gpu u then lg_gpus l - 1 else lg_gpus l)"
  "lg_tasks (ledger_take e u c l) = lg_tasks l - 1"
  "lg_leaf (ledger_take e u c l) = (lg_leaf l)(cu_leaf u := lg_leaf l (cu_leaf u) + 1)"
  by (simp_all add: ledger_take_def Let_def)

text \<open>Setting minimums aside only lowers what is left.\<close>

lemma set_aside_le:
  "lg_host (set_aside e u ws l) \<le> lg_host l \<and> lg_container (set_aside e u ws l) \<le> lg_container l"
proof (induction ws arbitrary: l)
  case (Cons w ws)
  have "lg_host (ledger_take e w (booked_cores e w) l) \<le> lg_host l
        \<and> lg_container (ledger_take e w (booked_cores e w) l) \<le> lg_container l"
    using booked_cores_pos [of e w] by simp
  with Cons [of l] Cons [of "ledger_take e w (booked_cores e w) l"] show ?case
    by (auto intro: order_trans)
qed simp

lemma grant_from_bounds:
  assumes "cpu_budget_for e u > 0"
  shows "fst (unit_core_range e u) \<le> cg_cores (grant_from e l u ws)"
    and "cg_cores (grant_from e l u ws) \<le> snd (unit_core_range e u)"
    and "cg_budget (grant_from e l u ws) = cpu_budget_for e u"
  using assms unit_core_range_ordered(2) [of e u]
  by (auto simp: grant_from_def Let_def split: prod.splits)

lemma grant_from_room:
  assumes b: "cpu_budget_for e u > 0"
  shows "cg_cores (grant_from e l u ws) \<le> max (fst (unit_core_range e u)) (cores_free_for l u)"
proof -
  let ?lo = "fst (unit_core_range e u)"
  let ?l1 = "set_aside e u ws (ledger_take e u ?lo l)"
  have le: "lg_host ?l1 \<le> lg_host l - ?lo" "is_container_unit u \<Longrightarrow> lg_container ?l1 \<le> lg_container l - ?lo"
    using set_aside_le [of e u ws "ledger_take e u ?lo l"] by auto
  have "cores_free_for ?l1 u \<le> cores_free_for l u - ?lo"
    using le by (auto simp: cores_free_for_def)
  then show ?thesis
    using b by (auto simp: grant_from_def Let_def split: prod.splits)
qed

section \<open>A grant displaces nobody\<close>

text \<open>The waiting units that can start beside what a ledger has placed, one after another.\<close>

fun could_start :: "client_env \<Rightarrow> client_unit \<Rightarrow> client_unit list \<Rightarrow> budget_ledger \<Rightarrow> client_unit list" where
  "could_start e u [] l = []"
| "could_start e u (w # ws) l =
     (if cu_id w = cu_id u \<or> \<not> ledger_fits e l w then could_start e u ws l
      else w # could_start e u ws (ledger_take e w (booked_cores e w) l))"

definition fewer_cores :: "client_unit \<Rightarrow> int \<Rightarrow> budget_ledger \<Rightarrow> budget_ledger" where
  "fewer_cores u x l = l\<lparr>lg_host := lg_host l - x,
     lg_container := (if is_container_unit u then lg_container l - x else lg_container l)\<rparr>"

lemma fewer_cores_zero [simp]: "fewer_cores u 0 l = l"
  by (simp add: fewer_cores_def)

lemma take_more_cores: "ledger_take e u (c + x) l = fewer_cores u x (ledger_take e u c l)"
  by (simp add: ledger_take_def fewer_cores_def Let_def)

lemma take_fewer_cores:
  "ledger_take e w c (fewer_cores u x l) = fewer_cores u x (ledger_take e w c l)"
  by (simp add: ledger_take_def fewer_cores_def Let_def)

lemma fits_fewer_cores:
  assumes "ledger_fits e (fewer_cores u x l) w" "0 \<le> x"
  shows "ledger_fits e l w"
  using assms by (auto simp: ledger_fits_def fewer_cores_def Let_def split: if_splits)

lemma fits_fewer_coresI:
  assumes "ledger_fits e l w" and "x \<le> lg_host l - booked_cores e w"
    and "is_container_unit u \<Longrightarrow> is_container_unit w \<Longrightarrow> x \<le> lg_container l - booked_cores e w"
  shows "ledger_fits e (fewer_cores u x l) w"
  using assms by (auto simp: ledger_fits_def fewer_cores_def Let_def split: if_splits)

lemma could_start_fewer_cores:
  assumes "0 \<le> x" and "x \<le> max 0 (cores_free_for (set_aside e u ws l) u)"
  shows "could_start e u ws (fewer_cores u x l) = could_start e u ws l"
  using assms(2)
proof (induction ws arbitrary: l)
  case (Cons w ws)
  show ?case
  proof (cases "x = 0")
    case False
    then have pos: "0 < x" using assms(1) by simp
    have more: "\<not> cores_free_for l u \<le> 0" using Cons.prems pos by (auto split: if_splits)
    show ?thesis
    proof (cases "cu_id w = cu_id u \<or> \<not> ledger_fits e l w")
      case True
      then have "cu_id w = cu_id u \<or> \<not> ledger_fits e (fewer_cores u x l) w"
        using fits_fewer_cores assms(1) by blast
      moreover have "could_start e u ws (fewer_cores u x l) = could_start e u ws l"
        using Cons.IH [of l] Cons.prems more True by simp
      ultimately show ?thesis using True by auto
    next
      case nb: False
      let ?l = "ledger_take e w (booked_cores e w) l"
      have fin: "set_aside e u (w # ws) l = set_aside e u ws ?l" using more nb by simp
      have le: "lg_host (set_aside e u ws ?l) \<le> lg_host ?l"
               "lg_container (set_aside e u ws ?l) \<le> lg_container ?l"
        using set_aside_le [of e u ws ?l] by auto
      have x: "x \<le> cores_free_for (set_aside e u ws ?l) u"
        using Cons.prems pos fin by simp
      have "ledger_fits e (fewer_cores u x l) w"
        by (rule fits_fewer_coresI) (use nb x le in \<open>auto simp: cores_free_for_def split: if_splits\<close>)
      moreover have "could_start e u ws (fewer_cores u x ?l) = could_start e u ws ?l"
        using Cons.IH [of ?l] Cons.prems fin by simp
      ultimately show ?thesis using nb by (simp add: take_fewer_cores)
    qed
  qed simp
qed simp

lemma grant_extra:
  assumes "cpu_budget_for e u > 0"
  shows "cg_cores (grant_from e l u ws) - fst (unit_core_range e u)
           \<le> max 0 (cores_free_for (set_aside e u ws (ledger_take e u (fst (unit_core_range e u)) l)) u)"
  using assms by (auto simp: grant_from_def Let_def split: prod.splits)

text \<open>A unit is granted cores between its range's ends, and only cores no waiting unit could use: every
  buffered unit that could start beside it on its minimum can start beside it on its grant.
\<close>

theorem grant_displaces_no_waiting_unit:
  assumes "cpu_budget_for e u > 0"
  shows "fst (unit_core_range e u) \<le> cg_cores (grant_from e l u ws)
       \<and> cg_cores (grant_from e l u ws) \<le> snd (unit_core_range e u)
       \<and> could_start e u ws (ledger_take e u (cg_cores (grant_from e l u ws)) l)
         = could_start e u ws (ledger_take e u (fst (unit_core_range e u)) l)"
proof -
  let ?lo = "fst (unit_core_range e u)"
  let ?x = "cg_cores (grant_from e l u ws) - ?lo"
  have "could_start e u ws (fewer_cores u ?x (ledger_take e u ?lo l)) = could_start e u ws (ledger_take e u ?lo l)"
    by (rule could_start_fewer_cores) (use grant_from_bounds(1) [OF assms] grant_extra [OF assms] in simp_all)
  then show ?thesis
    using grant_from_bounds [OF assms] take_more_cores [of e u ?lo ?x l] by simp
qed

definition demo_env :: client_env where
  "demo_env = \<lparr>ce_max_cores = 4, ce_max_mem = 100000, ce_max_disk_gb = 10, ce_max_running = 0,
     ce_servers = [],
     ce_leafs = [(''h'', [\<lparr>cl_id = ''wide'', cl_slug = ''w'', cl_spec = None,
                    cl_reqs = Some \<lparr>cr_min_disk = 0, cr_min_cores = 1, cr_max_cores = 4, cr_gpu = False\<rparr>,
                    cl_est_seconds = 0\<rparr>])],
     ce_vm_cpus = 0, ce_vm_mem = 0, ce_gpus = 0\<rparr>"

definition demo_unit :: "uid \<Rightarrow> uid \<Rightarrow> client_unit" where
  "demo_unit i lf = \<lparr>cu_id = i, cu_leaf = lf, cu_runtime = [], cu_gpu = False, cu_mem = 0, cu_disk = 0,
     cu_fpops = 0, cu_deadline = 0, cu_reserved_until = 0, cu_grant = no_grant\<rparr>"

lemma grant_displaces_no_waiting_unit_witness:
  "cg_cores (grant_from demo_env (ledger_for demo_env []) (demo_unit ''a'' ''wide'')
     [demo_unit ''b'' ''wide'']) = 3
   \<and> fst (unit_core_range demo_env (demo_unit ''a'' ''wide''))
     \<le> cg_cores (grant_from demo_env (ledger_for demo_env []) (demo_unit ''a'' ''wide'') [demo_unit ''b'' ''wide''])"
proof
  show "cg_cores (grant_from demo_env (ledger_for demo_env []) (demo_unit ''a'' ''wide'')
          [demo_unit ''b'' ''wide'']) = 3"
    by code_simp
  have "cpu_budget_for demo_env (demo_unit ''a'' ''wide'') > 0" by code_simp
  from grant_displaces_no_waiting_unit [OF this, of "ledger_for demo_env []" "[demo_unit ''b'' ''wide'']"]
  show "fst (unit_core_range demo_env (demo_unit ''a'' ''wide''))
     \<le> cg_cores (grant_from demo_env (ledger_for demo_env []) (demo_unit ''a'' ''wide'') [demo_unit ''b'' ''wide''])"
    by blast
qed

end
