(* ===== verification/ClientAdmission.thy ===== *)
theory ClientAdmission
  imports ClientBudget "HOL-Library.AList"
begin

text \<open>
  Admission on the volunteer client (\<open>volunteer-cli/internal/daemon/daemon.go\<close>, \<open>prefetch.go\<close>, \<open>slot.go\<close>,
  \<open>cpu_budget.go\<close>): whether a buffered unit can start beside what runs, the prefetch queue with its
  first-fit picker, the execution slots, and the loop that fills them. What only the moment can say (free
  RAM, free disk) is a record of facts. The queue's log memory (\<open>BlockedSince\<close>, \<open>BlockedReason\<close>),
  its notification channel and the work directories are not modelled. The figures of a refusal are its
  constructor's arguments; its kind, the text before the colon, is the constructor.
\<close>

record live_facts =
  lv_free_mem :: "int option"
  lv_disk_ok :: "int \<Rightarrow> bool"

datatype refusal =
    DeclaredOverVM int int
  | DeclaredOverBudget int int
  | HostMemory int int int
  | ContainerMemory int int int
  | FreeRam int int
  | GpusBusy int int
  | DiskWorkspace int
  | RunningCap int int
  | LeafRunning int int
  | HostCpu int int int
  | ContainerCpu int int int

definition memory_declaration_fits :: "client_env \<Rightarrow> client_unit \<Rightarrow> refusal option" where
  "memory_declaration_fits e u =
     (let declared = cu_mem u; budget = memory_budget_for e u in
      if declared \<le> 0 \<or> budget \<le> 0 \<or> declared \<le> budget then None
      else if is_container_unit u \<and> memory_limited_by_vm e then Some (DeclaredOverVM declared budget)
      else Some (DeclaredOverBudget declared budget))"

definition free_memory_headroom :: int where
  "free_memory_headroom = 512"

definition disk_floor_mb :: int where
  "disk_floor_mb = 2048"

text \<open>The first guard that refuses, in the code's order; None when the unit may start.\<close>

definition can_accommodate :: "client_env \<Rightarrow> live_facts \<Rightarrow> client_unit list \<Rightarrow> client_unit \<Rightarrow> refusal option" where
  "can_accommodate e lv running u =
     (let mem = booked_mem e u; active_mem = total_active (booked_mem e) running;
          container_mb = total_active (booked_container_mem e) running;
          need_disk = booked_disk_mb (cu_disk u) (ce_max_disk_gb e * 1024) + disk_floor_mb;
          cap = max_running_tasks e; leaf_cap = leaf_max_running e (cu_leaf u);
          cores = booked_cores e u; active = total_active (booked_cores e) running;
          container_active = total_active (booked_container_cores e) running
      in case memory_declaration_fits e u of Some why \<Rightarrow> Some why | None \<Rightarrow>
         if host_mem e > 0 \<and> active_mem + mem > host_mem e then Some (HostMemory active_mem mem (host_mem e))
         else if is_container_unit u \<and> container_mem e > 0 \<and> (host_mem e \<le> 0 \<or> container_mem e < host_mem e)
                 \<and> container_mb + mem > container_mem e
         then Some (ContainerMemory container_mb mem (container_mem e))
         else if (case lv_free_mem lv of None \<Rightarrow> False | Some f \<Rightarrow> f < mem + free_memory_headroom)
         then Some (FreeRam (the (lv_free_mem lv)) mem)
         else if cu_gpu u \<and> ce_gpus e > 0 \<and> active_gpus running \<ge> ce_gpus e
         then Some (GpusBusy (active_gpus running) (ce_gpus e))
         else if \<not> lv_disk_ok lv need_disk then Some (DiskWorkspace need_disk)
         else if cap > 0 \<and> int (length running) \<ge> cap then Some (RunningCap (int (length running)) cap)
         else if leaf_cap > 0 \<and> active_for_leaf (cu_leaf u) running \<ge> leaf_cap
         then Some (LeafRunning (active_for_leaf (cu_leaf u) running) leaf_cap)
         else if host_cores e > 0 \<and> active + cores > host_cores e then Some (HostCpu active cores (host_cores e))
         else if is_container_unit u \<and> container_cores e > 0 \<and> (host_cores e \<le> 0 \<or> container_cores e < host_cores e)
                 \<and> container_active + cores > container_cores e
         then Some (ContainerCpu container_active cores (container_cores e))
         else None)"

text \<open>Whether starting a unit now could postpone a blocked one's own admission.\<close>

definition may_delay :: "client_env \<Rightarrow> live_facts \<Rightarrow> client_unit \<Rightarrow> client_unit \<Rightarrow> bool" where
  "may_delay e lv blocked cand =
     (let both = is_container_unit blocked \<and> is_container_unit cand;
          bm = booked_mem e blocked; cm = booked_mem e cand;
          disk = booked_disk_mb (cu_disk blocked) (ce_max_disk_gb e * 1024)
               + booked_disk_mb (cu_disk cand) (ce_max_disk_gb e * 1024) + disk_floor_mb;
          cores = booked_cores e blocked + booked_cores e cand
      in if host_mem e > 0 \<and> bm + cm > host_mem e then True
         else if both \<and> container_mem e > 0 \<and> bm + cm > container_mem e then True
         else if cu_gpu blocked \<and> cu_gpu cand \<and> ce_gpus e < 2 then True
         else if \<not> lv_disk_ok lv disk then True
         else if host_cores e > 0 \<and> cores > host_cores e then True
         else if both \<and> container_cores e > 0 \<and> cores > container_cores e then True
         else False)"

text \<open>A unit refused only for cores, and the budget it is short of.\<close>

definition core_wait_for :: "client_env \<Rightarrow> client_unit \<Rightarrow> refusal \<Rightarrow> (bool \<times> int) option" where
  "core_wait_for e u why =
     (case why of HostCpu _ _ _ \<Rightarrow> Some (False, booked_cores e u)
      | ContainerCpu _ _ _ \<Rightarrow> Some (True, booked_cores e u)
      | _ \<Rightarrow> None)"

definition holds_back :: "client_env \<Rightarrow> client_unit list \<Rightarrow> bool \<times> int \<Rightarrow> client_unit \<Rightarrow> bool" where
  "holds_back e running w cand =
     (case w of (container_pool, need) \<Rightarrow>
       if container_pool \<and> \<not> is_container_unit cand
       then lg_host (ledger_for e running) - booked_cores e cand < need else True)"

section \<open>The prefetch queue\<close>

record prefetch_item =
  it_unit :: client_unit
  it_fetched :: time
  it_skipped :: nat
  it_run_started :: bool

record prefetch_queue =
  pq_items :: "prefetch_item list"
  pq_starting :: "(uid \<times> prefetch_item) list"
  pq_max :: nat

definition new_queue :: "int \<Rightarrow> prefetch_queue" where
  "new_queue n = \<lparr>pq_items = [], pq_starting = [], pq_max = nat (if n \<le> 0 then 3 else n)\<rparr>"

definition push :: "prefetch_item \<Rightarrow> prefetch_queue \<Rightarrow> bool \<times> prefetch_queue" where
  "push it q = (if length (pq_items q) \<ge> pq_max q then (False, q) else (True, q\<lparr>pq_items := pq_items q @ [it]\<rparr>))"

definition push_front :: "prefetch_item \<Rightarrow> prefetch_queue \<Rightarrow> prefetch_queue" where
  "push_front it q = q\<lparr>pq_items := it # pq_items q\<rparr>"

definition max_backfill_starts :: nat where
  "max_backfill_starts = 16"

fun scan_fit :: "(prefetch_item \<Rightarrow> bool) \<Rightarrow> (prefetch_item \<Rightarrow> prefetch_item \<Rightarrow> bool)
    \<Rightarrow> (prefetch_item \<Rightarrow> prefetch_item \<Rightarrow> bool) \<Rightarrow> prefetch_item list \<Rightarrow> prefetch_item list
    \<Rightarrow> (prefetch_item list \<times> prefetch_item \<times> prefetch_item list) option" where
  "scan_fit fits delay holds ahead [] = None"
| "scan_fit fits delay holds ahead (x # xs) =
     (if \<not> fits x then scan_fit fits delay holds (ahead @ [x]) xs
      else if list_ex (\<lambda>a. it_skipped a \<ge> max_backfill_starts \<and> delay a x \<or> holds a x) ahead
      then scan_fit fits delay holds (ahead @ [x]) xs
      else Some (ahead, x, xs))"

definition pop_fit :: "(prefetch_item \<Rightarrow> bool) \<Rightarrow> (prefetch_item \<Rightarrow> prefetch_item \<Rightarrow> bool)
    \<Rightarrow> (prefetch_item \<Rightarrow> prefetch_item \<Rightarrow> bool) \<Rightarrow> prefetch_queue \<Rightarrow> prefetch_item option \<times> prefetch_queue" where
  "pop_fit fits delay holds q =
     (case scan_fit fits delay holds [] (pq_items q) of
        None \<Rightarrow> (None, q)
      | Some (ahead, x, rest) \<Rightarrow>
          (Some x, q\<lparr>pq_items := map (\<lambda>a. if delay a x then a\<lparr>it_skipped := it_skipped a + 1\<rparr> else a) ahead @ rest,
                     pq_starting := AList.update (cu_id (it_unit x)) x (pq_starting q)\<rparr>))"

definition has_runnable :: "(prefetch_item \<Rightarrow> bool) \<Rightarrow> (prefetch_item \<Rightarrow> prefetch_item \<Rightarrow> bool)
    \<Rightarrow> (prefetch_item \<Rightarrow> prefetch_item \<Rightarrow> bool) \<Rightarrow> prefetch_queue \<Rightarrow> bool" where
  "has_runnable fits delay holds q \<longleftrightarrow> scan_fit fits delay holds [] (pq_items q) \<noteq> None"

definition finish_start :: "uid \<Rightarrow> prefetch_queue \<Rightarrow> prefetch_queue" where
  "finish_start i q = q\<lparr>pq_starting := AList.delete i (pq_starting q)\<rparr>"

definition pop :: "prefetch_queue \<Rightarrow> prefetch_item option \<times> prefetch_queue" where
  "pop q = (case pq_items q of [] \<Rightarrow> (None, q) | x # xs \<Rightarrow> (Some x, q\<lparr>pq_items := xs\<rparr>))"

definition is_full :: "prefetch_queue \<Rightarrow> bool" where
  "is_full q \<longleftrightarrow> length (pq_items q) \<ge> pq_max q"

definition room :: "prefetch_queue \<Rightarrow> nat" where
  "room q = pq_max q - length (pq_items q)"

text \<open>A buffered unit is dropped when less than \<open>threshold\<close> of its deadline remains.\<close>

definition expiring :: "rat \<Rightarrow> time \<Rightarrow> prefetch_item \<Rightarrow> bool" where
  "expiring threshold now it \<longleftrightarrow> cu_deadline (it_unit it) > 0
     \<and> of_int (now - it_fetched it) / of_int (cu_deadline (it_unit it)) > 1 - threshold"

definition drop_expiring :: "rat \<Rightarrow> time \<Rightarrow> prefetch_queue \<Rightarrow> prefetch_queue" where
  "drop_expiring threshold now q = q\<lparr>pq_items := filter (\<lambda>it. \<not> expiring threshold now it) (pq_items q)\<rparr>"

definition reservation_lapsed :: "time \<Rightarrow> time \<Rightarrow> prefetch_item \<Rightarrow> bool" where
  "reservation_lapsed margin now it \<longleftrightarrow> cu_reserved_until (it_unit it) \<noteq> 0 \<and> cu_reserved_until (it_unit it) \<le> now + margin"

definition drop_lapsed :: "time \<Rightarrow> time \<Rightarrow> prefetch_queue \<Rightarrow> prefetch_queue" where
  "drop_lapsed margin now q = q\<lparr>pq_items := filter (\<lambda>it. \<not> reservation_lapsed margin now it) (pq_items q)\<rparr>"

definition drop_unfit :: "(prefetch_item \<Rightarrow> 'r option) \<Rightarrow> prefetch_queue \<Rightarrow> (prefetch_item \<times> 'r) list \<times> prefetch_queue" where
  "drop_unfit unfit q =
     ([(it, the (unfit it)). it \<leftarrow> pq_items q, unfit it \<noteq> None],
      q\<lparr>pq_items := filter (\<lambda>it. unfit it = None) (pq_items q)\<rparr>)"

text \<open>When the buffer gives a unit up: the earlier of the two drops; None when it has neither clock.\<close>

definition start_by :: "rat \<Rightarrow> time \<Rightarrow> prefetch_item \<Rightarrow> rat option" where
  "start_by threshold margin it =
     (let u = it_unit it;
          d = (if cu_deadline u > 0 then Some (of_int (it_fetched it) + of_int (cu_deadline u) * (1 - threshold)) else None)
      in if cu_reserved_until u > 0
         then let lapse = of_int (cu_reserved_until u - margin)
              in (case d of None \<Rightarrow> Some lapse | Some t \<Rightarrow> Some (if lapse < t then lapse else t))
         else d)"

section \<open>The slots and the loop that fills them\<close>

text \<open>
  The slot manager: the unit each slot runs, and the slots in the channel of available ones. The loop
  stops at the first dead end; a unit that can no longer meet its deadline (\<open>unfit\<close>, the check of
  \<open>deadline_skip.go\<close>) is given back un-run.
\<close>

record slot_manager =
  sm_slots :: "client_unit option list"
  sm_available :: "nat list"

definition new_slot_manager :: "int \<Rightarrow> slot_manager" where
  "new_slot_manager n = (let k = nat (if n \<le> 0 then 1 else n) in \<lparr>sm_slots = replicate k None, sm_available = [0..<k]\<rparr>)"

definition active_units :: "slot_manager \<Rightarrow> client_unit list" where
  "active_units sm = List.map_filter id (sm_slots sm)"

definition return_slot :: "nat \<Rightarrow> slot_manager \<Rightarrow> slot_manager" where
  "return_slot k sm = sm\<lparr>sm_available := sm_available sm @ [k]\<rparr>"

definition start_slot :: "nat \<Rightarrow> client_unit \<Rightarrow> slot_manager \<Rightarrow> slot_manager" where
  "start_slot k u sm = sm\<lparr>sm_slots := (sm_slots sm)[k := Some u]\<rparr>"

text \<open>The end of a slot's run: the slot is cleared and goes back to the channel.\<close>

definition end_slot :: "nat \<Rightarrow> slot_manager \<Rightarrow> slot_manager" where
  "end_slot k sm = sm\<lparr>sm_slots := (sm_slots sm)[k := None], sm_available := sm_available sm @ [k]\<rparr>"

record client =
  cl_queue :: prefetch_queue
  cl_slots :: slot_manager
  cl_returned :: "uid list"

definition running :: "client \<Rightarrow> client_unit list" where
  "running c = active_units (cl_slots c)"

definition item_fits :: "client_env \<Rightarrow> live_facts \<Rightarrow> client_unit list \<Rightarrow> prefetch_item \<Rightarrow> bool" where
  "item_fits e lv run it \<longleftrightarrow> can_accommodate e lv run (it_unit it) = None"

definition item_may_delay :: "client_env \<Rightarrow> live_facts \<Rightarrow> prefetch_item \<Rightarrow> prefetch_item \<Rightarrow> bool" where
  "item_may_delay e lv a x = may_delay e lv (it_unit a) (it_unit x)"

definition item_holds :: "client_env \<Rightarrow> live_facts \<Rightarrow> client_unit list \<Rightarrow> prefetch_item \<Rightarrow> prefetch_item \<Rightarrow> bool" where
  "item_holds e lv run a x =
     (case can_accommodate e lv run (it_unit a) of None \<Rightarrow> False
      | Some why \<Rightarrow> (case core_wait_for e (it_unit a) why of None \<Rightarrow> False
                     | Some w \<Rightarrow> holds_back e run w (it_unit x)))"

definition pick :: "client_env \<Rightarrow> live_facts \<Rightarrow> client \<Rightarrow> prefetch_item option \<times> prefetch_queue" where
  "pick e lv c = pop_fit (item_fits e lv (running c)) (item_may_delay e lv) (item_holds e lv (running c)) (cl_queue c)"

lemma scan_fit_split: "scan_fit f d h ahead xs = Some (a, x, rest) \<Longrightarrow> a @ x # rest = ahead @ xs"
  by (induction xs arbitrary: ahead) (auto split: if_splits)

lemma scan_fit_result:
  "scan_fit f d h ahead xs = Some (a, x, rest) \<Longrightarrow>
     f x \<and> \<not> list_ex (\<lambda>b. it_skipped b \<ge> max_backfill_starts \<and> d b x \<or> h b x) a"
  by (induction xs arbitrary: ahead) (auto split: if_splits)

lemma pick_some:
  assumes "pick e lv c = (Some x, q)"
  obtains ahead rest where "pq_items (cl_queue c) = ahead @ x # rest" "item_fits e lv (running c) x"
    "\<And>a. a \<in> set ahead \<Longrightarrow> \<not> (it_skipped a \<ge> max_backfill_starts \<and> item_may_delay e lv a x)
                            \<and> \<not> item_holds e lv (running c) a x"
    "pq_items q = map (\<lambda>a. if item_may_delay e lv a x then a\<lparr>it_skipped := it_skipped a + 1\<rparr> else a) ahead @ rest"
    "pq_starting q = AList.update (cu_id (it_unit x)) x (pq_starting (cl_queue c))" "pq_max q = pq_max (cl_queue c)"
proof -
  let ?f = "item_fits e lv (running c)" and ?d = "item_may_delay e lv" and ?h = "item_holds e lv (running c)"
  obtain ahead rest where s: "scan_fit ?f ?d ?h [] (pq_items (cl_queue c)) = Some (ahead, x, rest)"
    and q: "q = (cl_queue c)\<lparr>pq_items := map (\<lambda>a. if ?d a x then a\<lparr>it_skipped := it_skipped a + 1\<rparr> else a) ahead @ rest,
                     pq_starting := AList.update (cu_id (it_unit x)) x (pq_starting (cl_queue c))\<rparr>"
    using assms by (auto simp: pick_def pop_fit_def split: option.splits)
  have r: "?f x" "\<And>a. a \<in> set ahead \<Longrightarrow> \<not> (it_skipped a \<ge> max_backfill_starts \<and> ?d a x) \<and> \<not> ?h a x"
    using scan_fit_result [OF s] by (auto simp: list_ex_iff)
  have i: "pq_items (cl_queue c) = ahead @ x # rest" using scan_fit_split [OF s] by simp
  show ?thesis by (rule that [OF i r]) (simp_all add: q)
qed

lemma pick_shortens: "pick e lv c = (Some x, q) \<Longrightarrow> length (pq_items q) < length (pq_items (cl_queue c))"
  by (erule pick_some) simp

definition start_item :: "client_env \<Rightarrow> nat \<Rightarrow> prefetch_item \<Rightarrow> prefetch_queue \<Rightarrow> client \<Rightarrow> client" where
  "start_item e k x q c =
     (let g = grant_cpu e (running c) (it_unit x) (map it_unit (pq_items q))
      in c\<lparr>cl_queue := finish_start (cu_id (it_unit x)) q,
           cl_slots := start_slot k ((it_unit x)\<lparr>cu_grant := g\<rparr>) (cl_slots c)\<rparr>)"

lemma finish_start_items [simp]: "pq_items (finish_start i q) = pq_items q"
  by (simp add: finish_start_def)

lemma pick_slots [simp]: "pick e lv (c\<lparr>cl_slots := (cl_slots c)\<lparr>sm_available := ks\<rparr>\<rparr>) = pick e lv c"
  by (simp add: pick_def running_def active_units_def)

lemma start_item_queue [simp]: "cl_queue (start_item e k x q c) = finish_start (cu_id (it_unit x)) q"
  by (simp add: start_item_def Let_def)

function fill_slots :: "client_env \<Rightarrow> live_facts \<Rightarrow> (client_unit \<Rightarrow> bool) \<Rightarrow> client \<Rightarrow> client" where
  "fill_slots e lv unfit c =
     (case sm_available (cl_slots c) of
        [] \<Rightarrow> c
      | k # ks \<Rightarrow>
          (let c1 = c\<lparr>cl_slots := (cl_slots c)\<lparr>sm_available := ks\<rparr>\<rparr> in
           case pick e lv c1 of
             (None, q) \<Rightarrow> c1\<lparr>cl_slots := return_slot k (cl_slots c1)\<rparr>
           | (Some x, q) \<Rightarrow>
               if \<not> it_run_started x \<and> unfit (it_unit x)
               then fill_slots e lv unfit
                      (c1\<lparr>cl_slots := return_slot k (cl_slots c1), cl_returned := cl_returned c1 @ [cu_id (it_unit x)],
                          cl_queue := finish_start (cu_id (it_unit x)) q\<rparr>)
               else fill_slots e lv unfit (start_item e k x q c1)))"
  by pat_completeness auto

termination
  by (relation "measure (\<lambda>(e, lv, unfit, c). length (pq_items (cl_queue c)))")
     (auto dest!: pick_shortens [OF sym] simp: Let_def)

declare fill_slots.simps [simp del]

section \<open>The grants of the running tasks never exceed the budget\<close>

definition granted :: "client_unit list \<Rightarrow> int" where
  "granted us = sum_list (map (\<lambda>u. cg_cores (cu_grant u)) us)"

definition granted_container :: "client_unit list \<Rightarrow> int" where
  "granted_container us = sum_list (map (\<lambda>u. if is_container_unit u then cg_cores (cu_grant u) else 0) us)"

lemma granted_simps [simp]:
  "granted [] = 0" "granted (u # us) = cg_cores (cu_grant u) + granted us"
  "granted_container [] = 0"
  "granted_container (u # us) = (if is_container_unit u then cg_cores (cu_grant u) else 0) + granted_container us"
  by (simp_all add: granted_def granted_container_def)

definition all_granted :: "client_unit list \<Rightarrow> bool" where
  "all_granted us \<longleftrightarrow> (\<forall>u\<in>set us. cg_cores (cu_grant u) > 0)"

lemma booked_is_granted:
  assumes "all_granted us"
  shows "total_active (booked_cores e) us = granted us"
    and "total_active (booked_container_cores e) us = granted_container us"
    and "granted_container us \<le> granted us"
  using assms by (induction us) (auto simp: all_granted_def booked_cores_def booked_container_cores_def)

lemma can_accommodate_cores:
  assumes "can_accommodate e lv us u = None" "host_cores e > 0"
  shows "total_active (booked_cores e) us + booked_cores e u \<le> host_cores e"
    and "is_container_unit u \<Longrightarrow> container_cores e < host_cores e \<Longrightarrow>
           total_active (booked_container_cores e) us + booked_cores e u \<le> container_cores e"
  using assms container_cores_le_host [of e]
  by (auto simp: can_accommodate_def Let_def split: option.splits if_splits)

lemma grant_stays_in_budget:
  assumes fit: "can_accommodate e lv us u = None" and h: "host_cores e > 0"
    and ag: "all_granted us" and new: "cg_cores (cu_grant u) \<le> 0"
    and ok: "granted_container us \<le> container_cores e"
    and g: "g = cg_cores (grant_cpu e us u ws)"
  shows "0 < g" and "granted us + g \<le> host_cores e"
    and "is_container_unit u \<Longrightarrow> granted_container us + g \<le> container_cores e"
proof -
  let ?lo = "fst (unit_core_range e u)"
  have b: "cpu_budget_for e u > 0" using cpu_budget_pos [OF h] .
  have lo: "booked_cores e u = ?lo" using new by (simp add: booked_cores_def)
  show "0 < g" using grant_from_bounds(1) [OF b] unit_core_range_ordered(1) [of e u]
    unfolding g grant_cpu_def by (meson int_one_le_iff_zero_less order_trans)
  have room: "g \<le> max ?lo (cores_free_for (ledger_for e us) u)"
    unfolding g grant_cpu_def by (rule grant_from_room [OF b])
  note tot = booked_is_granted [OF ag]
  have free: "lg_host (ledger_for e us) = host_cores e - granted us" using h tot by (simp add: ledger_for_def)
  have fh: "granted us + ?lo \<le> host_cores e" using can_accommodate_cores(1) [OF fit h] lo tot by simp
  show host: "granted us + g \<le> host_cores e"
    using room fh free by (auto simp: cores_free_for_def split: if_splits)
  show "granted_container us + g \<le> container_cores e" if c: "is_container_unit u"
  proof (cases "container_cores e < host_cores e")
    case True
    then have binds: "container_cpu_binds e" using container_cores_le_host [OF h] by (simp add: container_cpu_binds_def)
    have "lg_container (ledger_for e us) = container_cores e - granted_container us"
      using binds tot by (simp add: ledger_for_def)
    moreover have "granted_container us + ?lo \<le> container_cores e"
      using can_accommodate_cores(2) [OF fit h c True] lo tot by simp
    ultimately show ?thesis using room c free by (auto simp: cores_free_for_def split: if_splits)
  next
    case False
    then have "container_cores e = host_cores e" using container_cores_le_host [OF h] by simp
    then show ?thesis using host booked_is_granted(3) [OF ag] by linarith
  qed
qed

lemma map_filter_id_update:
  "k < length xs \<Longrightarrow> xs ! k = None \<Longrightarrow>
     mset (List.map_filter id (xs[k := Some u])) = add_mset u (mset (List.map_filter id xs))"
proof (induction xs arbitrary: k)
  case (Cons x xs)
  then show ?case by (cases k) (auto simp: List.map_filter_simps split: option.splits)
qed simp

lemma map_filter_id_clear:
  "k < length xs \<Longrightarrow> xs ! k = Some u \<Longrightarrow>
     add_mset u (mset (List.map_filter id (xs[k := None]))) = mset (List.map_filter id xs)"
proof (induction xs arbitrary: k)
  case (Cons x xs)
  then show ?case by (cases k) (auto simp: List.map_filter_simps split: option.splits)
qed simp

lemma granted_mset: "mset us = mset vs \<Longrightarrow> granted us = granted vs \<and> granted_container us = granted_container vs"
  by (simp add: granted_def granted_container_def flip: sum_mset_sum_list)

lemma all_granted_mset: "mset us = mset vs \<Longrightarrow> all_granted us = all_granted vs"
  unfolding all_granted_def by (metis set_mset_mset)

text \<open>
  Every history of a running client while its CPU budget stays what it is: the filler runs, a task ends,
  a unit arrives, a stopped task is put back for a restart, and the buffer gives units up. Free memory
  and disk, the leaf catalog and the volunteer's other settings may change between any two steps.
\<close>

definition requeue_for_restart :: "prefetch_item \<Rightarrow> prefetch_queue \<Rightarrow> prefetch_queue" where
  "requeue_for_restart it q =
     push_front (it\<lparr>it_unit := (it_unit it)\<lparr>cu_grant := no_grant, cu_reserved_until := 0\<rparr>,
                    it_skipped := 0, it_run_started := True\<rparr>) q"

inductive client_step :: "int \<Rightarrow> int \<Rightarrow> client \<Rightarrow> client \<Rightarrow> bool" for H C where
  fill: "host_cores e = H \<Longrightarrow> container_cores e = C \<Longrightarrow> client_step H C c (fill_slots e lv unfit c)"
| task_ends: "k < length (sm_slots (cl_slots c)) \<Longrightarrow> sm_slots (cl_slots c) ! k = Some u \<Longrightarrow>
    client_step H C c (c\<lparr>cl_slots := end_slot k (cl_slots c)\<rparr>)"
| restart: "client_step H C c (c\<lparr>cl_queue := requeue_for_restart it (cl_queue c)\<rparr>)"
| arrival: "cu_grant (it_unit it) = no_grant \<Longrightarrow> client_step H C c (c\<lparr>cl_queue := snd (push it (cl_queue c))\<rparr>)"
| expiry: "client_step H C c (c\<lparr>cl_queue := drop_expiring threshold now (cl_queue c)\<rparr>)"
| lapse: "client_step H C c (c\<lparr>cl_queue := drop_lapsed margin now (cl_queue c)\<rparr>)"
| unfit: "client_step H C c (c\<lparr>cl_queue := snd (drop_unfit (f :: prefetch_item \<Rightarrow> string option) (cl_queue c))\<rparr>)"

inductive client_reachable :: "int \<Rightarrow> int \<Rightarrow> client \<Rightarrow> bool" for H C where
  start: "client_reachable H C \<lparr>cl_queue = new_queue depth, cl_slots = new_slot_manager n, cl_returned = []\<rparr>"
| step: "client_reachable H C c \<Longrightarrow> client_step H C c c' \<Longrightarrow> client_reachable H C c'"

definition slots_ok :: "slot_manager \<Rightarrow> bool" where
  "slots_ok sm \<longleftrightarrow> distinct (sm_available sm) \<and>
     (\<forall>k\<in>set (sm_available sm). k < length (sm_slots sm) \<and> sm_slots sm ! k = None)"

definition ungranted :: "prefetch_queue \<Rightarrow> bool" where
  "ungranted q \<longleftrightarrow> (\<forall>it\<in>set (pq_items q). cg_cores (cu_grant (it_unit it)) \<le> 0)"

definition client_inv :: "int \<Rightarrow> int \<Rightarrow> client \<Rightarrow> bool" where
  "client_inv H C c \<longleftrightarrow> slots_ok (cl_slots c) \<and> ungranted (cl_queue c) \<and> all_granted (running c)
     \<and> granted (running c) \<le> H \<and> granted_container (running c) \<le> C"

lemma client_invI:
  "slots_ok (cl_slots c) \<Longrightarrow> ungranted (cl_queue c) \<Longrightarrow> all_granted (running c) \<Longrightarrow>
   granted (running c) \<le> H \<Longrightarrow> granted_container (running c) \<le> C \<Longrightarrow> client_inv H C c"
  by (simp add: client_inv_def)

lemma client_invD:
  assumes "client_inv H C c"
  shows "slots_ok (cl_slots c)" "ungranted (cl_queue c)" "all_granted (running c)"
    "granted (running c) \<le> H" "granted_container (running c) \<le> C"
  using assms by (simp_all add: client_inv_def)

lemma client_inv_queue:
  assumes "client_inv H C c" "cl_slots c' = cl_slots c" "ungranted (cl_queue c')"
  shows "client_inv H C c'"
  using assms by (simp add: client_inv_def running_def)

lemma running_start_slot:
  assumes "slots_ok sm" "sm_available sm = k # ks"
  shows "mset (active_units (start_slot k u (sm\<lparr>sm_available := ks\<rparr>))) = add_mset u (mset (active_units sm))"
    and "slots_ok (start_slot k u (sm\<lparr>sm_available := ks\<rparr>))"
  using assms by (auto simp: slots_ok_def active_units_def start_slot_def map_filter_id_update nth_list_update)

lemma pick_ungranted:
  assumes "ungranted (cl_queue c)" "pick e lv c = (Some x, q)"
  shows "ungranted q" and "cg_cores (cu_grant (it_unit x)) \<le> 0"
proof -
  obtain ahead rest where i: "pq_items (cl_queue c) = ahead @ x # rest"
    and q: "pq_items q = map (\<lambda>a. if item_may_delay e lv a x then a\<lparr>it_skipped := it_skipped a + 1\<rparr> else a) ahead @ rest"
    by (rule pick_some [OF assms(2)]) blast
  show "ungranted q" using assms(1) unfolding ungranted_def i q by auto
  show "cg_cores (cu_grant (it_unit x)) \<le> 0" using assms(1) unfolding ungranted_def i by simp
qed

lemma start_item_inv:
  assumes inv: "client_inv (host_cores e) (container_cores e) c" and h: "host_cores e > 0"
    and av: "sm_available (cl_slots c) = k # ks" and p: "pick e lv c = (Some x, q)"
  shows "client_inv (host_cores e) (container_cores e)
           (start_item e k x q (c\<lparr>cl_slots := (cl_slots c)\<lparr>sm_available := ks\<rparr>\<rparr>))"
proof -
  note i = client_invD [OF inv]
  define g where "g = grant_cpu e (running c) (it_unit x) (map it_unit (pq_items q))"
  define u where "u = (it_unit x)\<lparr>cu_grant := g\<rparr>"
  let ?c = "start_item e k x q (c\<lparr>cl_slots := (cl_slots c)\<lparr>sm_available := ks\<rparr>\<rparr>)"
  have fit: "can_accommodate e lv (running c) (it_unit x) = None"
    using p by (auto simp: item_fits_def elim: pick_some)
  have kind: "is_container_unit u = is_container_unit (it_unit x)"
    by (simp add: u_def is_container_unit_def runtime_key_for_def)
  note gr = grant_stays_in_budget [OF fit h i(3) pick_ungranted(2) [OF i(2) p] i(5),
              where g = "cg_cores g" and ws = "map it_unit (pq_items q)", OF arg_cong [OF g_def]]
  have slots: "cl_slots ?c = start_slot k u ((cl_slots c)\<lparr>sm_available := ks\<rparr>)"
    by (simp add: start_item_def Let_def u_def g_def running_def active_units_def)
  have ms: "mset (running ?c) = mset (u # running c)"
    using running_start_slot(1) [OF i(1) av] by (simp add: running_def slots)
  show ?thesis
  proof (rule client_invI)
    show "slots_ok (cl_slots ?c)" using running_start_slot(2) [OF i(1) av] by (simp add: slots)
    show "ungranted (cl_queue ?c)" using pick_ungranted(1) [OF i(2) p] by (simp add: ungranted_def)
    show "all_granted (running ?c)"
      unfolding all_granted_mset [OF ms] using gr(1) i(3) by (simp add: all_granted_def u_def)
    show "granted (running ?c) \<le> host_cores e"
      using granted_mset [OF ms] gr(2) by (simp add: u_def)
    show "granted_container (running ?c) \<le> container_cores e"
      using granted_mset [OF ms] gr(3) i(5) kind by (auto simp: u_def)
  qed
qed

lemma return_slot_ok:
  assumes "slots_ok sm" "sm_available sm = k # ks"
  shows "slots_ok (return_slot k (sm\<lparr>sm_available := ks\<rparr>))"
  using assms by (auto simp: slots_ok_def return_slot_def)

lemma return_slot_inv:
  assumes inv: "client_inv H C c" and av: "sm_available (cl_slots c) = k # ks"
    and s: "cl_slots c' = return_slot k ((cl_slots c)\<lparr>sm_available := ks\<rparr>)" and q: "ungranted (cl_queue c')"
  shows "client_inv H C c'"
proof -
  have "running c' = running c" by (simp add: running_def s return_slot_def active_units_def)
  then show ?thesis using client_invD [OF inv] return_slot_ok [OF _ av] q by (intro client_invI) (simp_all add: s)
qed

lemma fill_slots_inv:
  assumes "client_inv (host_cores e) (container_cores e) c" "host_cores e > 0"
  shows "client_inv (host_cores e) (container_cores e) (fill_slots e lv unfit c)"
  using assms
proof (induction e lv unfit c rule: fill_slots.induct)
  case (1 e lv unfit c)
  show ?case
  proof (cases "sm_available (cl_slots c)")
    case Nil
    then show ?thesis using 1 by (simp add: fill_slots.simps [of e lv unfit c])
  next
    case (Cons k ks)
    let ?c1 = "c\<lparr>cl_slots := (cl_slots c)\<lparr>sm_available := ks\<rparr>\<rparr>"
    obtain xo q where p: "pick e lv ?c1 = (xo, q)" by fastforce
    note ug = client_invD(2) [OF 1(3)]
    show ?thesis
    proof (cases xo)
      case None
      have "client_inv (host_cores e) (container_cores e) (?c1\<lparr>cl_slots := return_slot k (cl_slots ?c1)\<rparr>)"
        by (rule return_slot_inv [OF 1(3) Cons]) (simp_all add: ug)
      then show ?thesis using Cons p None by (simp add: fill_slots.simps [of e lv unfit c])
    next
      case (Some x)
      have p': "pick e lv c = (Some x, q)" using p Some by simp
      show ?thesis
      proof (cases "\<not> it_run_started x \<and> unfit (it_unit x)")
        case True
        let ?c2 = "?c1\<lparr>cl_slots := return_slot k (cl_slots ?c1), cl_returned := cl_returned ?c1 @ [cu_id (it_unit x)],
                       cl_queue := finish_start (cu_id (it_unit x)) q\<rparr>"
        have "client_inv (host_cores e) (container_cores e) ?c2"
          by (rule return_slot_inv [OF 1(3) Cons])
             (use pick_ungranted(1) [OF ug p'] in \<open>simp_all add: ungranted_def\<close>)
        moreover have "fill_slots e lv unfit c = fill_slots e lv unfit ?c2"
          using Cons p Some True by (simp add: fill_slots.simps [of e lv unfit c])
        ultimately show ?thesis using 1(1) [OF Cons refl p [symmetric] Some True] 1(4) by simp
      next
        case False
        have "client_inv (host_cores e) (container_cores e) (start_item e k x q ?c1)"
          by (rule start_item_inv [OF 1(3) 1(4) Cons p'])
        moreover have "fill_slots e lv unfit c = fill_slots e lv unfit (start_item e k x q ?c1)"
          using Cons p Some False by (auto simp: Let_def fill_slots.simps [of e lv unfit c])
        ultimately show ?thesis using 1(2) [OF Cons refl p [symmetric] Some False] 1(4) by simp
      qed
    qed
  qed
qed

lemma client_step_inv:
  assumes "client_step H C c c'" "client_inv H C c" "0 < H"
  shows "client_inv H C c'"
  using assms
proof (cases rule: client_step.cases)
  case (fill e lv unfit)
  then show ?thesis using fill_slots_inv [of e c lv unfit] assms by simp
next
  case (task_ends k u)
  note i = client_invD [OF assms(2)]
  have ms: "mset (u # running c') = mset (running c)"
    using map_filter_id_clear [OF task_ends(2,3)]
    by (simp add: task_ends(1) running_def active_units_def end_slot_def)
  have g: "granted (u # running c') = granted (running c)"
    "granted_container (u # running c') = granted_container (running c)" using granted_mset [OF ms] by auto
  have ag: "all_granted (u # running c')" using all_granted_mset [OF ms] i(3) by simp
  show ?thesis
  proof (rule client_invI)
    show "slots_ok (cl_slots c')" using i(1) task_ends by (auto simp: slots_ok_def end_slot_def nth_list_update)
    show "ungranted (cl_queue c')" using i(2) task_ends by simp
    show "all_granted (running c')" using ag by (simp add: all_granted_def)
    show "granted (running c') \<le> H" "granted_container (running c') \<le> C"
      using g i(4,5) ag by (auto simp: all_granted_def split: if_splits)
  qed
qed (auto intro!: client_inv_queue [OF assms(2)] simp: ungranted_def push_def push_front_def
       requeue_for_restart_def drop_expiring_def drop_lapsed_def drop_unfit_def no_grant_def
       dest: client_invD(2) [OF assms(2), unfolded ungranted_def, rule_format])

lemma client_reachable_inv: "client_reachable H C c \<Longrightarrow> 0 < H \<Longrightarrow> 0 \<le> C \<Longrightarrow> client_inv H C c"
proof (induction rule: client_reachable.induct)
  case (start depth n)
  show ?case
    by (rule client_invI)
       (auto simp: slots_ok_def new_slot_manager_def Let_def ungranted_def new_queue_def running_def
          active_units_def List.map_filter_def all_granted_def start(1)  start(2) less_imp_le)
qed (auto intro: client_step_inv)


end
