(* ===== verification/ClientResume.thy ===== *)
theory ClientResume
  imports ClientAdmission
begin

text \<open>
  Where the client's start policy falls short of what it promises
  (\<open>volunteer-cli/internal/daemon/daemon.go\<close>: \<open>resumePersistedTasks\<close>, \<open>mayDelayAdmission\<close>;
  \<open>cpu_budget.go\<close>: \<open>holdsBack\<close>; \<open>prefetch.go\<close>: \<open>PopFit\<close>): what a pick guarantees the units it
  passes, and three histories in which the guarantee the comments state does not hold.
\<close>

section \<open>What a pick guarantees\<close>

lemma free_host_cores:
  "host_cores e > 0 \<Longrightarrow> lg_host (ledger_for e us) = host_cores e - total_active (booked_cores e) us"
  by (simp add: ledger_for_def)

text \<open>The picker starts the first unit that fits and that no unit ahead of it vetoes: it passes no unit short of
  the machine's cores, a unit short of the container engine's cores only for a task outside it and while
  the machine keeps the cores that unit needs, and no unit already delayed sixteen times whose start it
  could delay again.
\<close>

theorem pick_passes_fairly:
  assumes "pick e lv c = (Some x, q)" and "host_cores e > 0"
  shows "\<exists>ahead rest. pq_items (cl_queue c) = ahead @ x # rest
     \<and> can_accommodate e lv (running c) (it_unit x) = None
     \<and> (\<forall>a\<in>set ahead.
          (\<forall>i j k. can_accommodate e lv (running c) (it_unit a) \<noteq> Some (HostCpu i j k))
        \<and> (\<forall>i j k. can_accommodate e lv (running c) (it_unit a) = Some (ContainerCpu i j k) \<longrightarrow>
             \<not> is_container_unit (it_unit x) \<and>
             host_cores e - total_active (booked_cores e) (running c) - booked_cores e (it_unit x)
               \<ge> booked_cores e (it_unit a))
        \<and> (it_skipped a \<ge> 16 \<longrightarrow> \<not> may_delay e lv (it_unit a) (it_unit x)))"
proof -
  obtain ahead rest where i: "pq_items (cl_queue c) = ahead @ x # rest"
    and f: "item_fits e lv (running c) x"
    and v: "\<And>a. a \<in> set ahead \<Longrightarrow> \<not> (it_skipped a \<ge> max_backfill_starts \<and> item_may_delay e lv a x)
                            \<and> \<not> item_holds e lv (running c) a x"
    by (rule pick_some [OF assms(1)]) blast
  have "(\<forall>i j k. can_accommodate e lv (running c) (it_unit a) \<noteq> Some (HostCpu i j k))
      \<and> (\<forall>i j k. can_accommodate e lv (running c) (it_unit a) = Some (ContainerCpu i j k) \<longrightarrow>
             \<not> is_container_unit (it_unit x) \<and>
             host_cores e - total_active (booked_cores e) (running c) - booked_cores e (it_unit x)
               \<ge> booked_cores e (it_unit a))
      \<and> (it_skipped a \<ge> 16 \<longrightarrow> \<not> may_delay e lv (it_unit a) (it_unit x))" if "a \<in> set ahead" for a
    using v [OF that] free_host_cores [OF assms(2)]
    by (auto simp: item_holds_def core_wait_for_def holds_back_def item_may_delay_def max_backfill_starts_def
             split: if_splits)
  then show ?thesis using i f by (intro exI [of _ ahead] exI [of _ rest]) (simp add: item_fits_def)
qed

section \<open>Resuming a previous session's tasks\<close>

text \<open>
  A task saved at the last exit: its unit, the cores it was granted, and what is left of it: a frozen process
  that answers (\<open>pt_alive\<close>) and resumes, its work directory, its head and runtime, a container that
  resumes. The buffer is restored after the tasks, so nothing is waiting.
\<close>

record persisted_task =
  pt_unit :: client_unit
  pt_cores :: int
  pt_alive :: bool
  pt_resumes :: bool
  pt_work_dir :: bool
  pt_head_known :: bool
  pt_runtime_known :: bool
  pt_container_resumes :: bool

definition book_and_start :: "cpu_grant \<Rightarrow> nat \<Rightarrow> client_unit \<Rightarrow> slot_manager \<Rightarrow> slot_manager" where
  "book_and_start g k u sm = start_slot k (u\<lparr>cu_grant := g\<rparr>) sm"

definition take_slot :: "slot_manager \<Rightarrow> (nat \<times> slot_manager) option" where
  "take_slot sm = (case sm_available sm of [] \<Rightarrow> None | k # ks \<Rightarrow> Some (k, sm\<lparr>sm_available := ks\<rparr>))"

fun resume_tasks :: "client_env \<Rightarrow> persisted_task list \<Rightarrow> slot_manager \<Rightarrow> slot_manager" where
  "resume_tasks e [] sm = sm"
| "resume_tasks e (p # ps) sm =
     (let u = pt_unit p;
          rerun = (\<lambda>sm. if \<not> pt_work_dir p \<or> \<not> pt_head_known p \<or> \<not> pt_runtime_known p then resume_tasks e ps sm
             else case take_slot sm of None \<Rightarrow> sm
               | Some (k, sm1) \<Rightarrow>
                   let g = (if pt_container_resumes p then adopted_grant e u (pt_cores p)
                            else grant_cpu e (active_units sm1) u [])
                   in resume_tasks e ps (book_and_start g k u sm1))
      in if pt_alive p
         then (case take_slot sm of None \<Rightarrow> sm
               | Some (k, sm1) \<Rightarrow>
                   if \<not> pt_resumes p then rerun (return_slot k sm1)
                   else if \<not> pt_head_known p then resume_tasks e ps (return_slot k sm1)
                   else resume_tasks e ps (book_and_start (adopted_grant e u (pt_cores p)) k u sm1))
         else rerun sm)"

text \<open>
  A client that is stopped with its grants within the budget can come back over it with the budget
  unchanged: a task that is run again is granted the cores free at that moment, which a task resumed after
  it still holds.
\<close>

theorem resume_exceeds_the_budget:
  "\<exists>e ps. host_cores e > 0 \<and> sum_list (map pt_cores ps) \<le> host_cores e
      \<and> list_all (\<lambda>p. 1 \<le> pt_cores p \<and> pt_cores p \<le> snd (unit_core_range e (pt_unit p))) ps
      \<and> granted (active_units (resume_tasks e ps (new_slot_manager 4))) > host_cores e"
proof -
  define task where "task = (\<lambda>i alive. \<lparr>pt_unit = demo_unit i ''wide'', pt_cores = 2, pt_alive = alive,
    pt_resumes = True, pt_work_dir = True, pt_head_known = True, pt_runtime_known = True,
    pt_container_resumes = False\<rparr>)"
  let ?ps = "[task ''a'' False, task ''b'' True]"
  have "host_cores demo_env > 0 \<and> sum_list (map pt_cores ?ps) \<le> host_cores demo_env
      \<and> list_all (\<lambda>p. 1 \<le> pt_cores p \<and> pt_cores p \<le> snd (unit_core_range demo_env (pt_unit p))) ?ps
      \<and> granted (active_units (resume_tasks demo_env ?ps (new_slot_manager 4))) > host_cores demo_env"
    unfolding task_def by code_simp
  then show ?thesis by blast
qed

section \<open>A passed unit can lose the cores the picker kept for it\<close>

definition anywhere :: live_facts where
  "anywhere = \<lparr>lv_free_mem = None, lv_disk_ok = (\<lambda>_. True)\<rparr>"

definition leaf_shape :: "uid \<Rightarrow> int \<Rightarrow> int \<Rightarrow> cached_leaf" where
  "leaf_shape i lo hi = \<lparr>cl_id = i, cl_slug = i, cl_spec = None,
     cl_reqs = Some \<lparr>cr_min_disk = 0, cr_min_cores = lo, cr_max_cores = hi, cr_gpu = False\<rparr>, cl_est_seconds = 0\<rparr>"

definition shape_env :: "int \<Rightarrow> int \<Rightarrow> int \<Rightarrow> cached_leaf list \<Rightarrow> client_env" where
  "shape_env cores mem vm ls = \<lparr>ce_max_cores = cores, ce_max_mem = mem, ce_max_disk_gb = 10, ce_max_running = 0,
     ce_servers = [], ce_leafs = [(''h'', ls)], ce_vm_cpus = vm, ce_vm_mem = 0, ce_gpus = 0\<rparr>"

definition shape_unit :: "uid \<Rightarrow> uid \<Rightarrow> string \<Rightarrow> int \<Rightarrow> int \<Rightarrow> client_unit" where
  "shape_unit i lf rt mem cores = \<lparr>cu_id = i, cu_leaf = lf, cu_runtime = rt, cu_gpu = False, cu_mem = mem, cu_disk = 0,
     cu_fpops = 0, cu_deadline = 0, cu_reserved_until = 0, cu_grant = \<lparr>cg_cores = cores, cg_budget = cores\<rparr>\<rparr>"

definition waiting_item :: "client_unit \<Rightarrow> prefetch_item" where
  "waiting_item u = \<lparr>it_unit = u, it_fetched = 0, it_skipped = 0, it_run_started = False\<rparr>"

definition vm_env :: client_env where
  "vm_env = shape_env 8 0 4 [leaf_shape ''two'' 2 2, leaf_shape ''one'' 1 1, leaf_shape ''wide'' 1 8]"

definition vm_waiter :: client_unit where
  "vm_waiter = shape_unit ''a'' ''two'' ''container'' 0 0"

definition vm_client :: client where
  "vm_client = \<lparr>cl_queue = (new_queue 8)\<lparr>pq_items := map waiting_item [vm_waiter, shape_unit ''x'' ''wide'' ''native'' 0 0]\<rparr>,
     cl_slots = \<lparr>sm_slots = [Some (shape_unit ''r'' ''two'' ''container'' 0 2), Some (shape_unit ''s'' ''one'' ''container'' 0 1),
                           None, None], sm_available = [2, 3]\<rparr>,
     cl_returned = []\<rparr>"

text \<open>
  A task let past a container unit, because the machine keeps the cores that unit needs, is then granted
  those cores: when a container task ends, the waiting unit fits the engine and would have started, but is
  refused for the machine's cores.
\<close>

theorem passed_waiter_loses_its_cores:
  "\<exists>e lv c k a. client_inv (host_cores e) (container_cores e) c
     \<and> can_accommodate e lv (running c) a = Some (ContainerCpu 3 2 4)
     \<and> can_accommodate e lv (active_units (end_slot k (cl_slots c))) a = None
     \<and> can_accommodate e lv (active_units (end_slot k (cl_slots (fill_slots e lv (\<lambda>_. False) c)))) a
         = Some (HostCpu 7 2 8)"
proof -
  have inv: "client_inv (host_cores vm_env) (container_cores vm_env) vm_client"
    by (rule client_invI) code_simp+
  have b: "can_accommodate vm_env anywhere (running vm_client) vm_waiter = Some (ContainerCpu 3 2 4)"
    by code_simp
  have ok: "can_accommodate vm_env anywhere (active_units (end_slot 1 (cl_slots vm_client))) vm_waiter = None"
    by code_simp
  have bad: "can_accommodate vm_env anywhere
      (active_units (end_slot 1 (cl_slots (fill_slots vm_env anywhere (\<lambda>_. False) vm_client)))) vm_waiter
      = Some (HostCpu 7 2 8)"
    by code_simp
  show ?thesis using inv b ok bad by blast
qed

section \<open>Harmless backfills can starve a unit\<close>

definition mem_env :: client_env where
  "mem_env = shape_env 8 100 0 [leaf_shape ''s'' 1 1]"

definition big_unit :: client_unit where
  "big_unit = shape_unit ''big'' ''s'' ''native'' 50 0"

definition small_unit :: "nat \<Rightarrow> client_unit" where
  "small_unit n = shape_unit (replicate n CHR ''c'') ''s'' ''native'' 20 0"

text \<open>One round: the first busy slot's task ends, a small unit arrives, the slots are filled.\<close>

definition busy_slot :: "client \<Rightarrow> nat" where
  "busy_slot c = length (takeWhile (\<lambda>s. s = None) (sm_slots (cl_slots c)))"

definition task_ended :: "client \<Rightarrow> client" where
  "task_ended c = c\<lparr>cl_slots := end_slot (busy_slot c) (cl_slots c)\<rparr>"

definition small_arrived :: "nat \<Rightarrow> client \<Rightarrow> client" where
  "small_arrived n c = c\<lparr>cl_queue := snd (push (waiting_item (small_unit n)) (cl_queue c))\<rparr>"

definition starve_round :: "nat \<Rightarrow> client \<Rightarrow> client" where
  "starve_round n c = fill_slots mem_env anywhere (\<lambda>_. False) (small_arrived n (task_ended c))"

primrec starve_run :: "nat \<Rightarrow> client" where
  "starve_run 0 = \<lparr>cl_queue = (new_queue 8)\<lparr>pq_items := [waiting_item big_unit]\<rparr>,
     cl_slots = \<lparr>sm_slots = replicate 4 (Some ((small_unit 0)\<lparr>cu_grant := \<lparr>cg_cores = 1, cg_budget = 8\<rparr>\<rparr>)) @ [None],
                sm_available = [4]\<rparr>,
     cl_returned = []\<rparr>"
| "starve_run (Suc n) = starve_round (Suc n) (starve_run n)"

definition small_shape :: "client_unit \<Rightarrow> bool" where
  "small_shape u \<longleftrightarrow> cu_leaf u = ''s'' \<and> cu_runtime u = ''native'' \<and> \<not> cu_gpu u \<and> cu_mem u = 20
     \<and> cu_grant u = \<lparr>cg_cores = 1, cg_budget = 8\<rparr>"

definition starving :: "client \<Rightarrow> bool" where
  "starving c \<longleftrightarrow> slots_ok (cl_slots c) \<and> pq_max (cl_queue c) = 8
     \<and> pq_items (cl_queue c) = [waiting_item big_unit]
     \<and> length (running c) = 4 \<and> (\<forall>u\<in>set (running c). small_shape u)"

lemma mem_env_figures:
  "host_mem mem_env = 100" "container_mem mem_env = 100" "host_cores mem_env = 8" "container_cores mem_env = 8"
  "ce_gpus mem_env = 0" "max_running_tasks mem_env = 0" "leaf_max_running mem_env ''s'' = 0"
  "leaf_core_range mem_env ''s'' = (1, 1)"
  by code_simp+

lemma native_key: "cu_runtime u = ''native'' \<Longrightarrow> \<not> is_container_unit u"
  by (simp add: is_container_unit_def runtime_key_for_def normalize_runtime_name_def to_lower_def
      trim_space_def is_space_def)

lemma unit_range_s: "cu_leaf u = ''s'' \<Longrightarrow> cu_runtime u = ''native'' \<Longrightarrow> unit_core_range mem_env u = (1, 1)"
  by (simp add: unit_core_range_def mem_env_figures cpu_budget_for_def native_key Let_def)

lemma booked_s:
  assumes "cu_leaf u = ''s''" "cu_runtime u = ''native''"
  shows "booked_mem mem_env u = (if cu_mem u \<le> 0 then 100 else if cu_mem u < 16 then 16 else if cu_mem u > 100 then 100 else cu_mem u)"
    and "booked_cores mem_env u = (if cg_cores (cu_grant u) > 0 then cg_cores (cu_grant u) else 1)"
    and "booked_container_mem mem_env u = 0" "booked_container_cores mem_env u = 0"
  using assms by (simp_all add: booked_mem_def booked_mem_mb_def memory_budget_for_def native_key mem_env_figures
      booked_cores_def unit_range_s booked_container_mem_def booked_container_cores_def Let_def)

lemma small_totals:
  assumes "\<forall>u\<in>set us. small_shape u"
  shows "total_active (booked_mem mem_env) us = 20 * int (length us)"
    and "total_active (booked_cores mem_env) us = int (length us)"
  using assms by (induction us) (auto simp: small_shape_def booked_s)

lemma admission_s:
  assumes us: "\<forall>u\<in>set us. small_shape u" and u: "cu_leaf u = ''s''" "cu_runtime u = ''native''" "\<not> cu_gpu u"
    "cu_mem u \<in> {16..100}" "cg_cores (cu_grant u) \<le> 0" and l: "length us \<le> 7"
  shows "can_accommodate mem_env anywhere us u =
     (if 20 * int (length us) + cu_mem u > 100 then Some (HostMemory (20 * int (length us)) (cu_mem u) 100) else None)"
  using u l
  by (simp add: can_accommodate_def memory_declaration_fits_def memory_budget_for_def native_key mem_env_figures
      small_totals [OF us] booked_s anywhere_def Let_def)

lemma big_small:
  "cu_leaf big_unit = ''s''" "cu_runtime big_unit = ''native''" "\<not> cu_gpu big_unit" "cu_mem big_unit = 50"
  "cg_cores (cu_grant big_unit) = 0"
  "cu_leaf (small_unit n) = ''s''" "cu_runtime (small_unit n) = ''native''" "\<not> cu_gpu (small_unit n)"
  "cu_mem (small_unit n) = 20" "cg_cores (cu_grant (small_unit n)) = 0"
  by (simp_all add: big_unit_def small_unit_def shape_unit_def)

lemma big_not_delayed: "\<not> may_delay mem_env anywhere big_unit (small_unit n)"
  by (simp add: may_delay_def booked_s big_small native_key mem_env_figures anywhere_def Let_def)

lemma pick_small:
  assumes us: "\<forall>u\<in>set (running c). small_shape u" "length (running c) = 3"
    and q: "pq_items (cl_queue c) = [waiting_item big_unit, waiting_item (small_unit n)]"
  obtains q' where "pick mem_env anywhere c = (Some (waiting_item (small_unit n)), q')"
    "pq_items q' = [waiting_item big_unit]" "pq_max q' = pq_max (cl_queue c)"
proof -
  have b: "can_accommodate mem_env anywhere (running c) big_unit = Some (HostMemory 60 50 100)"
    by (subst admission_s [OF us(1)]) (simp_all add: big_small us(2))
  have s: "can_accommodate mem_env anywhere (running c) (small_unit n) = None"
    by (subst admission_s [OF us(1)]) (simp_all add: big_small us(2))
  have "pick mem_env anywhere c = (Some (waiting_item (small_unit n)),
      (cl_queue c)\<lparr>pq_items := [waiting_item big_unit],
        pq_starting := AList.update (cu_id (small_unit n)) (waiting_item (small_unit n)) (pq_starting (cl_queue c))\<rparr>)"
    by (simp add: pick_def pop_fit_def q item_fits_def waiting_item_def b s max_backfill_starts_def item_holds_def
        core_wait_for_def item_may_delay_def big_not_delayed)
  then show ?thesis by (rule that) simp_all
qed

lemma pick_none:
  assumes us: "\<forall>u\<in>set (running c). small_shape u" "length (running c) = 4"
    and q: "pq_items (cl_queue c) = [waiting_item big_unit]"
  shows "pick mem_env anywhere c = (None, cl_queue c)"
proof -
  have b: "can_accommodate mem_env anywhere (running c) big_unit = Some (HostMemory 80 50 100)"
    by (subst admission_s [OF us(1)]) (simp_all add: big_small us(2))
  show ?thesis by (simp add: pick_def pop_fit_def q item_fits_def waiting_item_def b)
qed

lemma fill_idle:
  assumes "starving c"
  shows "starving (fill_slots mem_env anywhere (\<lambda>_. False) c)"
proof (cases "sm_available (cl_slots c)")
  case Nil
  then show ?thesis using assms by (simp add: fill_slots.simps [of _ _ _ c])
next
  case (Cons k ks)
  have s: "slots_ok (cl_slots c)" "pq_items (cl_queue c) = [waiting_item big_unit]" "length (running c) = 4"
    "\<forall>u\<in>set (running c). small_shape u"
    using assms by (simp_all add: starving_def)
  have "fill_slots mem_env anywhere (\<lambda>_. False) c
        = c\<lparr>cl_slots := return_slot k ((cl_slots c)\<lparr>sm_available := ks\<rparr>)\<rparr>" (is "_ = ?c")
    using Cons pick_none [OF s(4,3,2)] by (simp add: fill_slots.simps [of _ _ _ c])
  moreover have "running ?c = running c" by (simp add: running_def return_slot_def active_units_def)
  ultimately show ?thesis using assms return_slot_ok [OF s(1) Cons] by (simp add: starving_def)
qed

lemma fill_starts_small:
  assumes so: "slots_ok (cl_slots c)" and av: "sm_available (cl_slots c) \<noteq> []" and mx: "pq_max (cl_queue c) = 8"
    and us: "\<forall>u\<in>set (running c). small_shape u" "length (running c) = 3"
    and q: "pq_items (cl_queue c) = [waiting_item big_unit, waiting_item (small_unit n)]"
  shows "starving (fill_slots mem_env anywhere (\<lambda>_. False) c)"
proof -
  obtain k ks where k: "sm_available (cl_slots c) = k # ks" using av by (cases "sm_available (cl_slots c)") auto
  let ?x = "waiting_item (small_unit n)"
  let ?c1 = "c\<lparr>cl_slots := (cl_slots c)\<lparr>sm_available := ks\<rparr>\<rparr>"
  obtain q' where p: "pick mem_env anywhere c = (Some ?x, q')" and q': "pq_items q' = [waiting_item big_unit]"
    "pq_max q' = 8" using pick_small [OF us q] mx by metis
  let ?c2 = "start_item mem_env k ?x q' ?c1"
  have f: "fill_slots mem_env anywhere (\<lambda>_. False) c = fill_slots mem_env anywhere (\<lambda>_. False) ?c2"
    using k p by (simp add: fill_slots.simps [of _ _ _ c])
  have g: "grant_cpu mem_env us' (small_unit n) ws = \<lparr>cg_cores = 1, cg_budget = 8\<rparr>" for us' ws
    by (simp add: grant_cpu_def grant_from_def unit_range_s big_small cpu_budget_for_def native_key
        mem_env_figures Let_def)
  have slots: "cl_slots ?c2 = start_slot k ((small_unit n)\<lparr>cu_grant := \<lparr>cg_cores = 1, cg_budget = 8\<rparr>\<rparr>)
                                 ((cl_slots c)\<lparr>sm_available := ks\<rparr>)"
    by (simp add: start_item_def Let_def waiting_item_def g)
  have ms: "mset (running ?c2) = add_mset ((small_unit n)\<lparr>cu_grant := \<lparr>cg_cores = 1, cg_budget = 8\<rparr>\<rparr>) (mset (running c))"
    using running_start_slot(1) [OF so k] by (simp add: running_def slots)
  have "starving ?c2"
    unfolding starving_def
  proof (intro conjI)
    show "slots_ok (cl_slots ?c2)" using running_start_slot(2) [OF so k] by (simp add: slots)
    show "length (running ?c2) = 4" using arg_cong [OF ms, of size] us(2) by simp
    have "set (running ?c2) = insert ((small_unit n)\<lparr>cu_grant := \<lparr>cg_cores = 1, cg_budget = 8\<rparr>\<rparr>) (set (running c))"
      using arg_cong [OF ms, of set_mset] by simp
    then show "\<forall>u\<in>set (running ?c2). small_shape u" using us(1) by (simp add: small_shape_def big_small)
  qed (simp_all add: q' finish_start_def)
  then show ?thesis unfolding f by (rule fill_idle)
qed

lemma first_some: "List.map_filter id xs \<noteq> [] \<Longrightarrow>
    length (takeWhile (\<lambda>s. s = None) xs) < length xs \<and> (\<exists>u. xs ! length (takeWhile (\<lambda>s. s = None) xs) = Some u)"
  by (induction xs) (auto simp: List.map_filter_simps split: option.splits)

lemma starving_round:
  assumes "starving c"
  shows "starving (starve_round n c)"
proof -
  have s: "slots_ok (cl_slots c)" "pq_items (cl_queue c) = [waiting_item big_unit]" "length (running c) = 4"
    "\<forall>u\<in>set (running c). small_shape u" "pq_max (cl_queue c) = 8"
    using assms by (simp_all add: starving_def)
  let ?k = "busy_slot c"
  have ne: "List.map_filter id (sm_slots (cl_slots c)) \<noteq> []" using s(3) by (auto simp: running_def active_units_def)
  obtain u where k: "?k < length (sm_slots (cl_slots c))" "sm_slots (cl_slots c) ! ?k = Some u"
    using first_some [OF ne] by (auto simp: busy_slot_def)
  let ?c = "small_arrived n (task_ended c)"
  have ms: "add_mset u (mset (running ?c)) = mset (running c)"
    using map_filter_id_clear [OF k] by (simp add: small_arrived_def task_ended_def running_def active_units_def end_slot_def)
  show ?thesis
    unfolding starve_round_def
  proof (rule fill_starts_small)
    show "slots_ok (cl_slots ?c)" using s(1) k
      by (auto simp: small_arrived_def task_ended_def slots_ok_def end_slot_def nth_list_update)
    show "length (running ?c) = 3" using arg_cong [OF ms, of size] s(3) by simp
    have "set (running ?c) \<subseteq> set (running c)" using arg_cong [OF ms, of set_mset] by auto
    then show "\<forall>u\<in>set (running ?c). small_shape u" using s(4) by blast
  qed (simp_all add: small_arrived_def task_ended_def end_slot_def push_def s)
qed

text \<open>The delay test is pairwise: a unit that each newcomer could run beside, taken alone, can be kept
  waiting for ever by several of them together, and since none of them counts as a delay the cap of
  sixteen never applies. In every round of this history a task ends and another starts past the waiting
  unit, which would fit the idle machine.
\<close>

theorem harmless_backfills_starve:
  "can_accommodate mem_env anywhere [] big_unit = None \<and>
   (\<forall>n. pq_items (cl_queue (starve_run n)) = [waiting_item big_unit]
      \<and> length (running (starve_run n)) = 4 \<and> big_unit \<notin> set (running (starve_run n))
      \<and> list_all (\<lambda>u. \<not> may_delay mem_env anywhere big_unit u) (running (starve_run n)))"
proof -
  have start: "starving (starve_run 0)"
    by (auto simp: starving_def slots_ok_def running_def active_units_def new_queue_def List.map_filter_simps
        small_shape_def small_unit_def shape_unit_def eval_nat_numeral)
  have run: "starving (starve_run n)" for n
    by (induction n) (use start starving_round in auto)
  have nd: "\<not> may_delay mem_env anywhere big_unit u" if "small_shape u" for u
    using that by (simp add: small_shape_def may_delay_def booked_s big_small native_key mem_env_figures
        anywhere_def Let_def)
  have big: "\<not> small_shape big_unit" by (simp add: small_shape_def big_small)
  have "can_accommodate mem_env anywhere [] big_unit = None"
    by (subst admission_s) (simp_all add: big_small)
  then show ?thesis using run nd big unfolding starving_def list_all_iff by blast
qed


definition filled_client :: client where
  "filled_client = fill_slots demo_env anywhere (\<lambda>_. False)
     \<lparr>cl_queue = snd (push (waiting_item (demo_unit ''a'' ''wide'')) (new_queue 3)), cl_slots = new_slot_manager 2, cl_returned = []\<rparr>"

lemma filled_client_reachable: "client_reachable 4 (container_cores demo_env) filled_client"
proof -
  let ?c0 = "\<lparr>cl_queue = new_queue 3, cl_slots = new_slot_manager 2, cl_returned = []\<rparr>"
  let ?it = "waiting_item (demo_unit ''a'' ''wide'')"
  have "cu_grant (it_unit ?it) = no_grant" by (simp add: waiting_item_def demo_unit_def)
  from client_step.arrival [OF this, of 4 "container_cores demo_env" ?c0]
  have "client_reachable 4 (container_cores demo_env) (?c0\<lparr>cl_queue := snd (push ?it (cl_queue ?c0))\<rparr>)"
    by (rule client_reachable.step [OF client_reachable.start])
  moreover have "host_cores demo_env = 4" by code_simp
  from client_step.fill [OF this refl, of "?c0\<lparr>cl_queue := snd (push ?it (cl_queue ?c0))\<rparr>" anywhere "\<lambda>_. False"]
  have "client_step 4 (container_cores demo_env) (?c0\<lparr>cl_queue := snd (push ?it (cl_queue ?c0))\<rparr>) filled_client"
    by (simp add: filled_client_def)
  ultimately show ?thesis by (rule client_reachable.step)
qed


theorem pick_passes_fairly_witness:
  "\<exists>x q ahead rest. pick demo_env anywhere
       \<lparr>cl_queue = snd (push (waiting_item (demo_unit ''a'' ''wide'')) (new_queue 3)), cl_slots = new_slot_manager 2, cl_returned = []\<rparr>
       = (Some x, q) \<and> [waiting_item (demo_unit ''a'' ''wide'')] = ahead @ x # rest"
proof -
  let ?c = "\<lparr>cl_queue = snd (push (waiting_item (demo_unit ''a'' ''wide'')) (new_queue 3)), cl_slots = new_slot_manager 2, cl_returned = []\<rparr>"
  have "fst (pick demo_env anywhere ?c) = Some (waiting_item (demo_unit ''a'' ''wide''))"
    "host_cores demo_env > 0" "pq_items (cl_queue ?c) = [waiting_item (demo_unit ''a'' ''wide'')]" by code_simp+
  moreover from this(1) obtain x q where "pick demo_env anywhere ?c = (Some x, q)" by (cases "pick demo_env anywhere ?c") auto
  ultimately show ?thesis using pick_passes_fairly by metis
qed

end
