(* ===== verification/ClientBuffer.thy ===== *)
theory ClientBuffer
  imports ClientAdmission
begin

text \<open>
  The client's work buffer (\<open>volunteer-cli/internal/daemon/daemon.go\<close>, \<open>durations.go\<close>, \<open>deadline_skip.go\<close>):
  what it learns about a leaf's run times, how many units can run at once, when the buffer is full as a
  whole and in its GPU, container and per-leaf classes, which arriving unit it accepts and how many it
  asks for. Seconds and hours are rational numbers; the rounding of \<open>float64\<close> is not modelled. A conversion to \<open>int32\<close>
  out of its range gives the least \<open>int32\<close>, as amd64 does. The verdicts' texts are constructors.
\<close>

section \<open>Learned durations\<close>

record duration_sample =
  ds_fpops :: rat
  ds_seconds :: rat
  ds_cores :: int
  ds_deadline :: int

type_synonym durations = "uid \<Rightarrow> duration_sample list"

definition duration_window :: nat where
  "duration_window = 5"

definition record_run :: "uid \<Rightarrow> rat \<Rightarrow> rat \<Rightarrow> int \<Rightarrow> int \<Rightarrow> durations \<Rightarrow> durations" where
  "record_run lf fpops secs cores deadline t =
     (if lf = [] \<or> secs \<le> 0 then t
      else let s = t lf @ [\<lparr>ds_fpops = fpops, ds_seconds = secs, ds_cores = cores, ds_deadline = deadline\<rparr>]
           in t(lf := if length s > duration_window then drop (length s - duration_window) s else s))"

definition median :: "rat list \<Rightarrow> rat option" where
  "median v = (if v = [] then None
     else let s = sort v; n = length s
          in Some (if n mod 2 = 1 then s ! (n div 2) else (s ! (n div 2 - 1) + s ! (n div 2)) / 2))"

definition seconds_per_fpop :: "durations \<Rightarrow> uid \<Rightarrow> rat option" where
  "seconds_per_fpop t lf = median [ds_seconds s / ds_fpops s. s \<leftarrow> t lf, ds_fpops s > 0]"

definition unit_seconds :: "durations \<Rightarrow> uid \<Rightarrow> rat option" where
  "unit_seconds t lf = median (map ds_seconds (t lf))"

definition seconds_at :: "durations \<Rightarrow> uid \<Rightarrow> int \<Rightarrow> rat option" where
  "seconds_at t lf cores =
     (let c = (if cores < 1 then 1 else cores)
      in median (map (\<lambda>s. ds_seconds s * of_int (if ds_cores s \<le> 0 then c else ds_cores s) / of_int c) (t lf)))"

definition go_int :: "rat \<Rightarrow> int" where
  "go_int x = (if x \<ge> 0 then \<lfloor>x\<rfloor> else - \<lfloor>- x\<rfloor>)"

definition go_int32 :: "rat \<Rightarrow> int" where
  "go_int32 x = (let n = go_int x in if - (2 ^ 31) \<le> n \<and> n < 2 ^ 31 then n else - (2 ^ 31))"

definition run_cores :: "durations \<Rightarrow> uid \<Rightarrow> int" where
  "run_cores t lf = go_int ((case median [of_int (ds_cores s). s \<leftarrow> t lf, ds_cores s > 0] of None \<Rightarrow> 0 | Some m \<Rightarrow> m) + 1 / 2)"

definition last_deadline :: "durations \<Rightarrow> uid \<Rightarrow> int option" where
  "last_deadline t lf = map_option ds_deadline (find (\<lambda>s. ds_deadline s > 0) (rev (t lf)))"

section \<open>What the buffer knows\<close>

text \<open>
  \<open>bv_enabled\<close> are the enabled leafs of every attached head; \<open>bv_open\<close> is the scheduler's answer to how many
  seconds of a stretch from now work may run, absent without a scheduler.
\<close>

record buffer_view =
  bv_env :: client_env
  bv_hours :: rat
  bv_cpu_pct :: int
  bv_benchmark :: rat
  bv_durations :: durations
  bv_arrival_fpops :: "uid \<Rightarrow> rat"
  bv_arrival_deadline :: "uid \<Rightarrow> int"
  bv_enabled :: "cached_leaf list"
  bv_open :: "(int \<Rightarrow> rat \<times> bool) option"

definition cpu_time_pct :: "buffer_view \<Rightarrow> int" where
  "cpu_time_pct v = (if bv_cpu_pct v \<le> 0 \<or> bv_cpu_pct v > 100 then 100 else bv_cpu_pct v)"

definition cpu_time_fraction :: "buffer_view \<Rightarrow> rat" where
  "cpu_time_fraction v = of_int (cpu_time_pct v) / 100"

definition est_seconds_for_unit :: "buffer_view \<Rightarrow> uid \<Rightarrow> rat \<Rightarrow> rat" where
  "est_seconds_for_unit v lf fpops =
     (case (if fpops > 0 then seconds_per_fpop (bv_durations v) lf else None) of
        Some rate \<Rightarrow> fpops * rate
      | None \<Rightarrow> (case unit_seconds (bv_durations v) lf of
          Some sec \<Rightarrow> sec
        | None \<Rightarrow> if fpops > 0 \<and> bv_benchmark v > 0 then fpops / bv_benchmark v
                  else (case map_option snd (head_of_leaf (bv_env v) lf) of
                          Some l \<Rightarrow> if cl_est_seconds l > 0 then cl_est_seconds l else 0
                        | None \<Rightarrow> 0)))"

definition leaf_est_seconds :: "buffer_view \<Rightarrow> cached_leaf \<Rightarrow> rat" where
  "leaf_est_seconds v l =
     (let sec = (case unit_seconds (bv_durations v) (cl_id l) of Some s \<Rightarrow> s | None \<Rightarrow> cl_est_seconds l);
          arr = est_seconds_for_unit v (cl_id l) (bv_arrival_fpops v (cl_id l));
          sec = (if arr > sec then arr else sec)
      in if sec \<le> 0 then 0 else sec)"

definition note_arrival_estimate :: "uid \<Rightarrow> rat \<Rightarrow> buffer_view \<Rightarrow> buffer_view" where
  "note_arrival_estimate lf fpops v =
     (if lf = [] \<or> fpops \<le> 0 then v else v\<lparr>bv_arrival_fpops := (bv_arrival_fpops v)(lf := fpops)\<rparr>)"

definition note_arrival_deadline :: "uid \<Rightarrow> int \<Rightarrow> buffer_view \<Rightarrow> buffer_view" where
  "note_arrival_deadline lf deadline v =
     (if lf = [] \<or> deadline \<le> 0 then v else v\<lparr>bv_arrival_deadline := (bv_arrival_deadline v)(lf := deadline)\<rparr>)"

section \<open>How many run at once\<close>

definition leaf_requires_gpu :: "cached_leaf \<Rightarrow> bool" where
  "leaf_requires_gpu l \<longleftrightarrow> (case cl_spec l of Some s \<Rightarrow> cs_gpu s | None \<Rightarrow> False)
     \<or> (case cl_reqs l of Some r \<Rightarrow> cr_gpu r | None \<Rightarrow> False)"

definition required_runtime_for_leaf :: "cached_leaf \<Rightarrow> string" where
  "required_runtime_for_leaf l =
     (case cl_spec l of None \<Rightarrow> ''native''
      | Some s \<Rightarrow> if cs_image s \<noteq> [] then ''container''
                  else if ''wasm'' \<in> set (cs_binaries s) then ''wasm'' else ''native'')"

definition leaf_shape_unit :: "cached_leaf \<Rightarrow> client_unit" where
  "leaf_shape_unit l =
     \<lparr>cu_id = [], cu_leaf = cl_id l, cu_runtime = required_runtime_for_leaf l,
      cu_gpu = (case cl_spec l of Some s \<Rightarrow> cs_gpu s | None \<Rightarrow> False),
      cu_mem = (case cl_spec l of Some s \<Rightarrow> cs_max_mem s | None \<Rightarrow> 0),
      cu_disk = (case cl_spec l of Some s \<Rightarrow> cs_max_disk s | None \<Rightarrow> 0),
      cu_fpops = 0, cu_deadline = 0, cu_reserved_until = 0, cu_grant = no_grant\<rparr>"

definition leaf_runnable_at_once :: "client_env \<Rightarrow> cached_leaf \<Rightarrow> int" where
  "leaf_runnable_at_once e l =
     (let c = (required_runtime_for_leaf l = ''container'');
          cores = (if c then container_cores e else host_cores e);
          mem = (if c then container_mem e else host_mem e);
          n = (if cores > 0
               then (let lo = fst (effective_core_range e l); lo = (if lo > cores then cores else lo) in cores div lo)
               else no_bound);
          n = (case cl_spec l of None \<Rightarrow> n
               | Some s \<Rightarrow> if mem > 0
                    then (let b = booked_mem_mb (cs_max_mem s) mem in if b > 0 \<and> mem div b < n then mem div b else n)
                    else n);
          limit = leaf_max_running e (cl_id l);
          n = (if limit > 0 \<and> limit < n then limit else n)
      in if n < 1 then 1 else n)"

definition runnable_at_once :: "buffer_view \<Rightarrow> int" where
  "runnable_at_once v =
     (let best = foldl (\<lambda>b l. let n = leaf_runnable_at_once (bv_env v) l in if n > b then n else b) 0 (bv_enabled v)
      in if best = 0 then host_cores (bv_env v) else best)"

definition slot_pool_size :: "client_env \<Rightarrow> int \<Rightarrow> int" where
  "slot_pool_size e cpus =
     (let n = (if ce_max_cores e > cpus then ce_max_cores e else cpus);
          n = (if ce_max_running e > n then ce_max_running e else n)
      in if n < 1 then 1 else n)"

definition max_slots :: "buffer_view \<Rightarrow> slot_manager \<Rightarrow> int" where
  "max_slots v sm =
     (let n = runnable_at_once v; limit = max_running_tasks (bv_env v);
          n = (if limit > 0 \<and> limit < n then limit else n);
          pool = int (length (sm_slots sm));
          n = (if pool < n then pool else n)
      in if n < 1 then 1 else n)"

definition gpu_slots :: "buffer_view \<Rightarrow> slot_manager \<Rightarrow> int" where
  "gpu_slots v sm = (let s = max_slots v sm; n = ce_gpus (bv_env v) in if n > 0 \<and> n < s then n else s)"

definition container_slots_for :: "buffer_view \<Rightarrow> slot_manager \<Rightarrow> client_unit \<Rightarrow> int" where
  "container_slots_for v sm u =
     (let e = bv_env v; slots = max_slots v sm in
      if \<not> is_container_unit u then slots
      else let m = booked_mem e u;
               n = (if container_mem e > 0 \<and> (host_mem e \<le> 0 \<or> container_mem e < host_mem e)
                       \<and> m > 0 \<and> container_mem e div m < slots then container_mem e div m else slots);
               k = booked_cores e u;
               n = (if container_cores e > 0 \<and> (host_cores e \<le> 0 \<or> container_cores e < host_cores e)
                       \<and> k > 0 \<and> container_cores e div k < n then container_cores e div k else n)
           in if n < 1 then 1 else n)"

definition leaf_slots_for :: "buffer_view \<Rightarrow> slot_manager \<Rightarrow> cached_leaf \<Rightarrow> int" where
  "leaf_slots_for v sm l =
     (let n = max_slots v sm; m = leaf_runnable_at_once (bv_env v) l; n = (if m < n then m else n)
      in if n < 1 then 1 else n)"

definition leaf_of_unit :: "client_env \<Rightarrow> client_unit \<Rightarrow> cached_leaf" where
  "leaf_of_unit e u = (case cached_leaf_of e (cu_leaf u) of Some l \<Rightarrow> l
     | None \<Rightarrow> \<lparr>cl_id = cu_leaf u, cl_slug = [], cl_spec = None, cl_reqs = None, cl_est_seconds = 0\<rparr>)"

section \<open>What is held\<close>

text \<open>Queued, in the handoff to a slot, and running units, each once.\<close>

fun dedup_units :: "uid set \<Rightarrow> client_unit list \<Rightarrow> client_unit list" where
  "dedup_units seen [] = []"
| "dedup_units seen (u # us) =
     (if cu_id u \<in> seen then dedup_units seen us else u # dedup_units (insert (cu_id u) seen) us)"

definition held_units :: "client \<Rightarrow> client_unit list" where
  "held_units c = dedup_units {}
     (map it_unit (pq_items (cl_queue c)) @ map (it_unit \<circ> snd) (pq_starting (cl_queue c)) @ running c)"

definition booked_seconds :: "buffer_view \<Rightarrow> (client_unit \<Rightarrow> bool) \<Rightarrow> client_unit list \<Rightarrow> rat" where
  "booked_seconds v P us = sum_list (map (\<lambda>u. est_seconds_for_unit v (cu_leaf u) (cu_fpops u)) (filter P us))"

definition buffered_seconds :: "buffer_view \<Rightarrow> client \<Rightarrow> rat" where
  "buffered_seconds v c = booked_seconds v (\<lambda>_. True) (held_units c)"

definition buffered_unit_count :: "client \<Rightarrow> int" where
  "buffered_unit_count c = int (length (held_units c))"

definition buffered_gpu_seconds :: "buffer_view \<Rightarrow> client \<Rightarrow> rat" where
  "buffered_gpu_seconds v c = booked_seconds v cu_gpu (held_units c)"

definition buffered_gpu_count :: "client \<Rightarrow> int" where
  "buffered_gpu_count c = count_if cu_gpu (held_units c)"

definition buffered_container_seconds :: "buffer_view \<Rightarrow> client \<Rightarrow> rat" where
  "buffered_container_seconds v c = booked_seconds v is_container_unit (held_units c)"

definition buffered_container_count :: "client \<Rightarrow> int" where
  "buffered_container_count c = count_if is_container_unit (held_units c)"

definition buffered_leaf_seconds :: "buffer_view \<Rightarrow> client \<Rightarrow> uid \<Rightarrow> rat" where
  "buffered_leaf_seconds v c i = booked_seconds v (\<lambda>u. cu_leaf u = i) (held_units c)"

definition buffered_leaf_count :: "client \<Rightarrow> uid \<Rightarrow> int" where
  "buffered_leaf_count c i = count_if (\<lambda>u. cu_leaf u = i) (held_units c)"

definition avg_buffered_seconds :: "buffer_view \<Rightarrow> client \<Rightarrow> rat" where
  "avg_buffered_seconds v c =
     (if buffered_seconds v c \<le> 0 \<or> buffered_unit_count c \<le> 0 then 0
      else buffered_seconds v c / of_int (buffered_unit_count c))"

text \<open>The remaining-time view: a running unit counts what its run has not used yet.\<close>

definition buffered_remaining_seconds :: "buffer_view \<Rightarrow> (uid \<Rightarrow> rat option) \<Rightarrow> client \<Rightarrow> rat" where
  "buffered_remaining_seconds v elapsed c =
     sum_list (map (\<lambda>u. let est = est_seconds_for_unit v (cu_leaf u) (cu_fpops u) in
         (case elapsed (cu_id u) of None \<Rightarrow> est | Some used \<Rightarrow> if est - used < 0 then 0 else est - used)) (held_units c))"

section \<open>Full, accepted, asked\<close>

definition buffer_seconds_per_slot :: "buffer_view \<Rightarrow> rat" where
  "buffer_seconds_per_slot v = (if bv_hours v \<le> 0 then 0 else bv_hours v * 3600 * cpu_time_fraction v)"

definition buffer_target :: "buffer_view \<Rightarrow> client \<Rightarrow> rat" where
  "buffer_target v c = buffer_seconds_per_slot v * of_int (max_slots v (cl_slots c))"

definition gpu_target :: "buffer_view \<Rightarrow> client \<Rightarrow> rat" where
  "gpu_target v c = buffer_seconds_per_slot v * of_int (gpu_slots v (cl_slots c))"

definition container_target :: "buffer_view \<Rightarrow> client \<Rightarrow> client_unit \<Rightarrow> rat" where
  "container_target v c u = buffer_seconds_per_slot v * of_int (container_slots_for v (cl_slots c) u)"

definition leaf_target :: "buffer_view \<Rightarrow> client \<Rightarrow> cached_leaf \<Rightarrow> rat" where
  "leaf_target v c l = buffer_seconds_per_slot v * of_int (leaf_slots_for v (cl_slots c) l)"

definition fallback_per_slot :: int where
  "fallback_per_slot = 2"

datatype buffer_class = WholeBuffer | GpuClass | ContainerClass | LeafClass
datatype buffer_full = FullHoursZero buffer_class int int | FullUnitCount buffer_class int int | FullOverHours buffer_class

text \<open>
  The verdict of one class: its hours target where it is usable, else the count of its units. The code
  repeats it per class.
\<close>

definition class_verdict :: "buffer_class \<Rightarrow> int \<Rightarrow> int \<Rightarrow> rat \<Rightarrow> rat \<Rightarrow> buffer_full option" where
  "class_verdict k held cap target sec =
     (if target \<le> 0 then (if held < cap then None else Some (FullHoursZero k held cap))
      else if sec \<le> 0 then (if held < cap then None else Some (FullUnitCount k held cap))
      else if sec < target then None
      else Some (FullOverHours k))"

definition work_buffer_full_verdict :: "buffer_view \<Rightarrow> client \<Rightarrow> buffer_full option" where
  "work_buffer_full_verdict v c = class_verdict WholeBuffer (buffered_unit_count c)
     (fallback_per_slot * max_slots v (cl_slots c)) (buffer_target v c) (buffered_seconds v c)"

definition gpu_buffer_full_verdict :: "buffer_view \<Rightarrow> client \<Rightarrow> buffer_full option" where
  "gpu_buffer_full_verdict v c = class_verdict GpuClass (buffered_gpu_count c)
     (fallback_per_slot * gpu_slots v (cl_slots c)) (gpu_target v c) (buffered_gpu_seconds v c)"

definition container_buffer_full_verdict :: "buffer_view \<Rightarrow> client \<Rightarrow> client_unit \<Rightarrow> buffer_full option" where
  "container_buffer_full_verdict v c u =
     (let slots = container_slots_for v (cl_slots c) u in
      if \<not> is_container_unit u \<or> slots \<ge> max_slots v (cl_slots c) then None
      else class_verdict ContainerClass (buffered_container_count c) (fallback_per_slot * slots)
             (container_target v c u) (buffered_container_seconds v c))"

definition leaf_class_exists :: "buffer_view \<Rightarrow> client \<Rightarrow> cached_leaf \<Rightarrow> bool" where
  "leaf_class_exists v c l \<longleftrightarrow> cl_id l \<noteq> [] \<and> leaf_slots_for v (cl_slots c) l < max_slots v (cl_slots c)"

definition leaf_buffer_full_verdict :: "buffer_view \<Rightarrow> client \<Rightarrow> cached_leaf \<Rightarrow> buffer_full option" where
  "leaf_buffer_full_verdict v c l =
     (if \<not> leaf_class_exists v c l then None
      else class_verdict LeafClass (buffered_leaf_count c (cl_id l))
             (fallback_per_slot * leaf_slots_for v (cl_slots c) l) (leaf_target v c l) (buffered_leaf_seconds v c (cl_id l)))"

text \<open>The pre-request skip of a leaf whose class is full.\<close>

definition leaf_class_buffer_full :: "buffer_view \<Rightarrow> client \<Rightarrow> cached_leaf \<Rightarrow> bool" where
  "leaf_class_buffer_full v c l \<longleftrightarrow>
     (leaf_requires_gpu l \<and> gpu_buffer_full_verdict v c \<noteq> None)
     \<or> (is_container_unit (leaf_shape_unit l) \<and> container_buffer_full_verdict v c (leaf_shape_unit l) \<noteq> None)
     \<or> leaf_buffer_full_verdict v c l \<noteq> None"

text \<open>The deadline a leaf's units carry, and whether a unit can finish before its own here.\<close>

definition leaf_deadline :: "buffer_view \<Rightarrow> uid \<Rightarrow> int" where
  "leaf_deadline v i = (if bv_arrival_deadline v i > 0 then bv_arrival_deadline v i
     else case last_deadline (bv_durations v) i of Some d \<Rightarrow> d | None \<Rightarrow> 0)"

record deadline_check =
  dk_infeasible :: bool
  dk_cores :: int
  dk_run :: rat
  dk_runs :: nat
  dk_need :: rat
  dk_open :: rat
  dk_known :: bool

definition check_deadline :: "buffer_view \<Rightarrow> cached_leaf \<Rightarrow> int \<Rightarrow> deadline_check" where
  "check_deadline v l deadline =
     (let none = \<lparr>dk_infeasible = False, dk_cores = 0, dk_run = 0, dk_runs = 0, dk_need = 0, dk_open = 0, dk_known = True\<rparr> in
      if deadline \<le> 0 \<or> cl_id l = [] then none
      else let cores = snd (unit_core_range (bv_env v) (leaf_shape_unit l)) in
        case seconds_at (bv_durations v) (cl_id l) cores of
          None \<Rightarrow> none\<lparr>dk_cores := cores\<rparr>
        | Some run \<Rightarrow>
            let need = run * (5 / 4) / cpu_time_fraction v;
                op = (case bv_open v of None \<Rightarrow> (of_int deadline, True) | Some f \<Rightarrow> f deadline)
            in \<lparr>dk_infeasible = (need > fst op), dk_cores = cores, dk_run = run,
                dk_runs = length (bv_durations v (cl_id l)), dk_need = need, dk_open = fst op, dk_known = snd op\<rparr>)"

definition leaf_deadline_gate :: "buffer_view \<Rightarrow> cached_leaf \<Rightarrow> bool" where
  "leaf_deadline_gate v l \<longleftrightarrow> \<not> dk_infeasible (check_deadline v l (leaf_deadline v (cl_id l)))"

definition unit_deadline_unfit :: "buffer_view \<Rightarrow> client_unit \<Rightarrow> bool" where
  "unit_deadline_unfit v u \<longleftrightarrow> dk_infeasible (check_deadline v (leaf_of_unit (bv_env v) u) (cu_deadline u))"

text \<open>Whether a slot is idle while the picker would start nothing.\<close>

definition cores_taken :: "buffer_view \<Rightarrow> client \<Rightarrow> bool" where
  "cores_taken v c =
     (let e = bv_env v; free = lg_host (ledger_for e (running c));
          need = foldl (\<lambda>n l. let lo = fst (effective_core_range e l) in if n = 0 \<or> lo < n then lo else n) 0 (bv_enabled v);
          need = (if need = 0 then 1 else need)
      in free < need)"

definition occupied_slots :: "client \<Rightarrow> int" where
  "occupied_slots c = int (length (running c))
     + count_if (\<lambda>(i, it). cu_id (it_unit it) \<notin> cu_id ` set (running c)) (pq_starting (cl_queue c))"

definition waiting_for_cores :: "client_env \<Rightarrow> live_facts \<Rightarrow> client \<Rightarrow> bool" where
  "waiting_for_cores e lv c \<longleftrightarrow> list_ex (\<lambda>it. case can_accommodate e lv (running c) (it_unit it) of None \<Rightarrow> False
     | Some why \<Rightarrow> core_wait_for e (it_unit it) why \<noteq> None) (pq_items (cl_queue c))"

definition idle_slot_starved :: "buffer_view \<Rightarrow> live_facts \<Rightarrow> client \<Rightarrow> bool" where
  "idle_slot_starved v lv c =
     (let e = bv_env v in
      if occupied_slots c \<ge> max_slots v (cl_slots c) then False
      else if cores_taken v c then False
      else if has_runnable (item_fits e lv (running c)) (item_may_delay e lv) (item_holds e lv (running c)) (cl_queue c)
      then False
      else \<not> waiting_for_cores e lv c)"

datatype give_back = GiveDeclared refusal | GiveDeadline | GiveFull buffer_full | GiveFullCannotStart refusal

text \<open>One arriving unit: None when it may be buffered.\<close>

definition buffer_accepts :: "buffer_view \<Rightarrow> live_facts \<Rightarrow> client \<Rightarrow> client_unit \<Rightarrow> give_back option" where
  "buffer_accepts v lv c u =
     (case memory_declaration_fits (bv_env v) u of Some why \<Rightarrow> Some (GiveDeclared why) | None \<Rightarrow>
      if unit_deadline_unfit v u then Some GiveDeadline
      else let full = work_buffer_full_verdict v c;
               full = (if full = None \<and> cu_gpu u then gpu_buffer_full_verdict v c else full);
               full = (if full = None then container_buffer_full_verdict v c u else full);
               full = (if full = None then leaf_buffer_full_verdict v c (leaf_of_unit (bv_env v) u) else full)
           in case full of None \<Rightarrow> None
              | Some why \<Rightarrow>
                  if \<not> idle_slot_starved v lv c then Some (GiveFull why)
                  else case can_accommodate (bv_env v) lv (running c) u of
                         Some r \<Rightarrow> Some (GiveFullCannotStart r) | None \<Rightarrow> None)"

definition max_batch :: int where
  "max_batch = 64"

definition clamp_batch :: "int \<Rightarrow> int" where
  "clamp_batch n = (if n < 1 then 1 else if n > max_batch then max_batch else n)"

definition request_share_batch_size :: "buffer_view \<Rightarrow> client \<Rightarrow> cached_leaf \<Rightarrow> rat \<Rightarrow> rat \<Rightarrow> int" where
  "request_share_batch_size v c l est share0 =
     (let share = (if share0 \<le> 0 \<or> share0 > 1 then 1 else share0); target = buffer_target v c in
      if target \<le> 0 then 1
      else let deficit = (target - buffered_seconds v c) * share;
               gpu = leaf_requires_gpu l;
               deficit = (if gpu \<and> gpu_target v c - buffered_gpu_seconds v c < deficit
                          then gpu_target v c - buffered_gpu_seconds v c else deficit);
               shape = leaf_shape_unit l; cslots = container_slots_for v (cl_slots c) shape;
               cclass = (is_container_unit shape \<and> cslots < max_slots v (cl_slots c));
               deficit = (if cclass \<and> container_target v c shape - buffered_container_seconds v c < deficit
                          then container_target v c shape - buffered_container_seconds v c else deficit);
               lclass = leaf_class_exists v c l;
               deficit = (if lclass \<and> leaf_target v c l - buffered_leaf_seconds v c (cl_id l) < deficit
                          then leaf_target v c l - buffered_leaf_seconds v c (cl_id l) else deficit)
           in if deficit \<le> 0 then 1
              else let per = (if est \<le> 0 then avg_buffered_seconds v c else est) in
                if per \<le> 0
                then let h = (if gpu then fallback_per_slot * gpu_slots v (cl_slots c) - buffered_gpu_count c
                              else fallback_per_slot * max_slots v (cl_slots c) - buffered_unit_count c);
                         h = (if cclass \<and> fallback_per_slot * cslots - buffered_container_count c < h
                              then fallback_per_slot * cslots - buffered_container_count c else h);
                         h = (if lclass \<and> fallback_per_slot * leaf_slots_for v (cl_slots c) l - buffered_leaf_count c (cl_id l) < h
                              then fallback_per_slot * leaf_slots_for v (cl_slots c) l - buffered_leaf_count c (cl_id l) else h)
                     in clamp_batch (go_int32 (of_int h * share))
                else clamp_batch (go_int32 (deficit / per)))"

definition request_batch_size :: "buffer_view \<Rightarrow> client \<Rightarrow> cached_leaf \<Rightarrow> rat \<Rightarrow> int" where
  "request_batch_size v c l est = request_share_batch_size v c l est 1"

text \<open>The hysteresis latch of the fetch gate.\<close>

definition buffer_below_low_water :: "buffer_view \<Rightarrow> (uid \<Rightarrow> rat option) \<Rightarrow> client \<Rightarrow> bool" where
  "buffer_below_low_water v elapsed c =
     (let target = buffer_target v c in
      if target \<le> 0 \<or> buffered_seconds v c \<le> 0
      then buffered_unit_count c < fallback_per_slot * max_slots v (cl_slots c)
      else buffered_remaining_seconds v elapsed c < target * (1 / 2))"

definition work_buffer_full :: "buffer_view \<Rightarrow> live_facts \<Rightarrow> (uid \<Rightarrow> rat option) \<Rightarrow> bool \<Rightarrow> client \<Rightarrow> bool \<times> bool" where
  "work_buffer_full v lv elapsed latch c =
     (let filled = (if work_buffer_full_verdict v c \<noteq> None then True
                    else if latch \<and> buffer_below_low_water v elapsed c then False else latch)
      in (filled, if \<not> filled then False else \<not> idle_slot_starved v lv c))"

definition starved_backfill :: "buffer_view \<Rightarrow> live_facts \<Rightarrow> client \<Rightarrow> bool" where
  "starved_backfill v lv c \<longleftrightarrow> work_buffer_full_verdict v c \<noteq> None \<and> idle_slot_starved v lv c"

definition leaf_fit_gate :: "buffer_view \<Rightarrow> live_facts \<Rightarrow> client \<Rightarrow> cached_leaf \<Rightarrow> bool" where
  "leaf_fit_gate v lv c l \<longleftrightarrow>
     (if cl_spec l = None then True else can_accommodate (bv_env v) lv (running c) (leaf_shape_unit l) = None)"

section \<open>The ask and the acceptance agree\<close>

definition enqueued :: "client_unit \<Rightarrow> client \<Rightarrow> client" where
  "enqueued u c = c\<lparr>cl_queue := (cl_queue c)\<lparr>pq_items := pq_items (cl_queue c)
     @ [\<lparr>it_unit = u, it_fetched = 0, it_skipped = 0, it_run_started = False\<rparr>]\<rparr>\<rparr>"

fun all_accepted :: "buffer_view \<Rightarrow> live_facts \<Rightarrow> client \<Rightarrow> client_unit list \<Rightarrow> bool" where
  "all_accepted v lv c [] = True"
| "all_accepted v lv c (u # us) = (buffer_accepts v lv c u = None \<and> all_accepted v lv (enqueued u c) us)"

definition held_ids :: "client \<Rightarrow> uid set" where
  "held_ids c = cu_id ` set (held_units c)"

lemma dedup_ids: "cu_id ` set (dedup_units S us) = cu_id ` set us - S"
  by (induction S us rule: dedup_units.induct) auto

lemma dedup_fresh: "i \<notin> cu_id ` set us \<Longrightarrow> dedup_units (insert i S) us = dedup_units S us"
proof (induction us arbitrary: S)
  case (Cons u us)
  show ?case using Cons.prems Cons.IH [of "insert (cu_id u) S"] Cons.IH [of S]
    by (auto simp: insert_commute)
qed simp

lemma dedup_insert:
  "cu_id u \<notin> S \<Longrightarrow> cu_id u \<notin> cu_id ` set (xs @ ys) \<Longrightarrow>
     mset (dedup_units S (xs @ u # ys)) = add_mset u (mset (dedup_units S (xs @ ys)))"
proof (induction xs arbitrary: S)
  case Nil
  then show ?case by (simp add: dedup_fresh)
qed auto

lemma held_enqueued:
  assumes "cu_id u \<notin> held_ids c"
  shows "mset (held_units (enqueued u c)) = add_mset u (mset (held_units c))"
proof -
  let ?xs = "map it_unit (pq_items (cl_queue c))"
  let ?ys = "map (it_unit \<circ> snd) (pq_starting (cl_queue c)) @ running c"
  have "cu_id u \<notin> cu_id ` set (?xs @ ?ys)"
    using assms dedup_ids [of "{}" "?xs @ ?ys"] by (simp add: held_ids_def held_units_def)
  then have "mset (dedup_units {} (?xs @ u # ?ys)) = add_mset u (mset (dedup_units {} (?xs @ ?ys)))"
    by (intro dedup_insert) simp_all
  then show ?thesis by (simp add: held_units_def enqueued_def running_def)
qed

lemma held_ids_enqueued: "cu_id u \<notin> held_ids c \<Longrightarrow> held_ids (enqueued u c) = insert (cu_id u) (held_ids c)"
  using arg_cong [OF held_enqueued, of u c set_mset] by (simp add: held_ids_def)

lemma booked_seconds_mset:
  assumes "mset us = add_mset u (mset vs)"
  shows "booked_seconds v P us = booked_seconds v P vs + (if P u then est_seconds_for_unit v (cu_leaf u) (cu_fpops u) else 0)"
proof -
  have *: "booked_seconds v P xs =
      sum_mset (image_mset (\<lambda>u. est_seconds_for_unit v (cu_leaf u) (cu_fpops u)) (filter_mset P (mset xs)))" for xs
    by (simp add: booked_seconds_def flip: sum_mset_sum_list mset_filter)
  show ?thesis by (simp add: * assms)
qed

lemma count_if_add_mset:
  assumes "mset us = add_mset u (mset vs)"
  shows "count_if P us = count_if P vs + (if P u then 1 else 0)"
proof -
  have *: "count_if P xs = int (size (filter_mset P (mset xs)))" for xs
    by (simp add: count_if_def flip: mset_filter)
  show ?thesis by (simp add: * assms)
qed

lemma slots_enqueued [simp]: "cl_slots (enqueued u c) = cl_slots c" "running (enqueued u c) = running c"
  by (simp_all add: enqueued_def running_def)

lemma targets_enqueued [simp]:
  "buffer_target v (enqueued u c) = buffer_target v c" "gpu_target v (enqueued u c) = gpu_target v c"
  "container_target v (enqueued u c) w = container_target v c w" "leaf_target v (enqueued u c) l = leaf_target v c l"
  "leaf_class_exists v (enqueued u c) l = leaf_class_exists v c l"
  by (simp_all add: buffer_target_def gpu_target_def container_target_def leaf_target_def leaf_class_exists_def)

text \<open>Medians of positive samples are positive, so no unit books negative time.\<close>

definition durations_ok :: "durations \<Rightarrow> bool" where
  "durations_ok t \<longleftrightarrow> (\<forall>lf. \<forall>s\<in>set (t lf). 0 < ds_seconds s)"

lemma durations_ok_record: "durations_ok t \<Longrightarrow> durations_ok (record_run lf f s c d t)"
  by (auto simp: durations_ok_def record_run_def Let_def dest: in_set_dropD)

lemma median_in_range:
  assumes "median v = Some m" "\<And>x. x \<in> set v \<Longrightarrow> lo \<le> x" "\<And>x. x \<in> set v \<Longrightarrow> x \<le> hi"
  shows "lo \<le> m \<and> m \<le> hi"
proof -
  have ne: "v \<noteq> []" using assms(1) by (auto simp: median_def)
  let ?s = "sort v" and ?n = "length v"
  have i: "?n div 2 < ?n" using ne by simp
  have s: "?s ! k \<in> set v" if "k < ?n" for k using that by (metis length_sort nth_mem set_sort)
  have a: "lo \<le> ?s ! (?n div 2)" "?s ! (?n div 2) \<le> hi" using s [OF i] assms(2,3) by auto
  have b: "lo \<le> ?s ! (?n div 2 - 1)" "?s ! (?n div 2 - 1) \<le> hi"
    using s [of "?n div 2 - 1"] i assms(2,3) by auto
  show ?thesis using assms(1) ne a b by (auto simp: median_def Let_def split: if_splits)
qed

lemma median_nonneg: "median v = Some m \<Longrightarrow> (\<And>x. x \<in> set v \<Longrightarrow> 0 \<le> x) \<Longrightarrow> 0 \<le> m"
proof -
  assume m: "median v = Some m" and v: "\<And>x. x \<in> set v \<Longrightarrow> 0 \<le> x"
  have "0 \<le> m \<and> m \<le> Max (set v)"
    by (rule median_in_range [OF m]) (use v in auto)
  then show "0 \<le> m" by simp
qed

lemma est_seconds_nonneg:
  assumes "durations_ok (bv_durations v)"
  shows "0 \<le> est_seconds_for_unit v lf f"
proof -
  have pos: "0 < ds_seconds s" if "s \<in> set (bv_durations v lf)" for s
    using assms that unfolding durations_ok_def by blast
  have r: "0 \<le> m" if "seconds_per_fpop (bv_durations v) lf = Some m" for m
    using that unfolding seconds_per_fpop_def by (rule median_nonneg) (auto dest: pos intro: divide_nonneg_pos less_imp_le)
  have u: "0 \<le> m" if "unit_seconds (bv_durations v) lf = Some m" for m
    using that unfolding unit_seconds_def by (rule median_nonneg) (auto dest: pos intro: less_imp_le)
  show ?thesis
    unfolding est_seconds_for_unit_def
    by (auto split: option.splits if_splits dest: r u)
qed

lemma booked_seconds_nonneg: "durations_ok (bv_durations v) \<Longrightarrow> 0 \<le> booked_seconds v P us"
  unfolding booked_seconds_def by (intro sum_list_nonneg) (auto intro: est_seconds_nonneg)

lemma go_int_le: "2 \<le> go_int x \<Longrightarrow> of_int (go_int x) \<le> x"
  by (auto simp: go_int_def split: if_splits) linarith

lemma clamped_ask:
  assumes "2 \<le> clamp_batch (go_int32 x)"
  shows "of_int (clamp_batch (go_int32 x)) \<le> x"
proof -
  have "clamp_batch (go_int32 x) \<le> go_int32 x" using assms by (auto simp: clamp_batch_def max_batch_def split: if_splits)
  moreover have "go_int32 x = go_int x"
    using calculation assms by (auto simp: go_int32_def Let_def split: if_splits)
  ultimately have "clamp_batch (go_int32 x) \<le> go_int x" "2 \<le> go_int x" using assms by auto
  then show ?thesis using go_int_le [of x] by (meson of_int_le_iff order_trans)
qed

text \<open>A batch of two or more fits the deficit of the buffer and of every class the leaf belongs to.\<close>

lemma batch_fits_deficits:
  assumes n: "n = request_batch_size v c l est" "2 \<le> n" and est: "0 < est" and t: "0 < buffer_target v c"
  shows "of_int n * est \<le> buffer_target v c - buffered_seconds v c"
    and "leaf_requires_gpu l \<Longrightarrow> of_int n * est \<le> gpu_target v c - buffered_gpu_seconds v c"
    and "is_container_unit (leaf_shape_unit l) \<Longrightarrow>
         container_slots_for v (cl_slots c) (leaf_shape_unit l) < max_slots v (cl_slots c) \<Longrightarrow>
         of_int n * est \<le> container_target v c (leaf_shape_unit l) - buffered_container_seconds v c"
    and "leaf_class_exists v c l \<Longrightarrow> of_int n * est \<le> leaf_target v c l - buffered_leaf_seconds v c (cl_id l)"
proof -
  define d0 where "d0 = buffer_target v c - buffered_seconds v c"
  define d1 where "d1 = (if leaf_requires_gpu l \<and> gpu_target v c - buffered_gpu_seconds v c < d0
                          then gpu_target v c - buffered_gpu_seconds v c else d0)"
  define d2 where "d2 = (if (is_container_unit (leaf_shape_unit l)
       \<and> container_slots_for v (cl_slots c) (leaf_shape_unit l) < max_slots v (cl_slots c))
       \<and> container_target v c (leaf_shape_unit l) - buffered_container_seconds v c < d1
     then container_target v c (leaf_shape_unit l) - buffered_container_seconds v c else d1)"
  define d3 where "d3 = (if leaf_class_exists v c l \<and> leaf_target v c l - buffered_leaf_seconds v c (cl_id l) < d2
                          then leaf_target v c l - buffered_leaf_seconds v c (cl_id l) else d2)"
  have ask: "request_batch_size v c l est = (if d3 \<le> 0 then 1 else clamp_batch (go_int32 (d3 / est)))"
  proof -
    have f: "(buffer_target v c \<le> 0) = False" "(est \<le> 0) = False" using t est by auto
    show ?thesis
      unfolding request_batch_size_def request_share_batch_size_def d3_def d2_def d1_def d0_def
      by (simp only: Let_def f if_False if_cancel mult_1_right)
  qed
  then have "n = clamp_batch (go_int32 (d3 / est))" using n by (auto split: if_splits)
  then have "of_int n \<le> d3 / est" using n(2) clamped_ask by metis
  then have le: "of_int n * est \<le> d3" using est by (simp add: pos_le_divide_eq)
  show "of_int n * est \<le> buffer_target v c - buffered_seconds v c"
    and "leaf_requires_gpu l \<Longrightarrow> of_int n * est \<le> gpu_target v c - buffered_gpu_seconds v c"
    and "is_container_unit (leaf_shape_unit l) \<Longrightarrow>
         container_slots_for v (cl_slots c) (leaf_shape_unit l) < max_slots v (cl_slots c) \<Longrightarrow>
         of_int n * est \<le> container_target v c (leaf_shape_unit l) - buffered_container_seconds v c"
    and "leaf_class_exists v c l \<Longrightarrow> of_int n * est \<le> leaf_target v c l - buffered_leaf_seconds v c (cl_id l)"
    using le by (auto simp: d0_def d1_def d2_def d3_def split: if_splits)
qed

text \<open>A unit of the leaf as the ask expects it.\<close>

definition arrives_as :: "buffer_view \<Rightarrow> cached_leaf \<Rightarrow> rat \<Rightarrow> client_unit \<Rightarrow> bool" where
  "arrives_as v l est u \<longleftrightarrow>
     cu_leaf u = cl_id l \<and> leaf_of_unit (bv_env v) u = l
     \<and> 0 < est_seconds_for_unit v (cu_leaf u) (cu_fpops u) \<and> est_seconds_for_unit v (cu_leaf u) (cu_fpops u) \<le> est
     \<and> (cu_gpu u \<longrightarrow> leaf_requires_gpu l)
     \<and> is_container_unit u = is_container_unit (leaf_shape_unit l)
     \<and> cu_mem u = cu_mem (leaf_shape_unit l) \<and> cg_cores (cu_grant u) \<le> 0
     \<and> memory_declaration_fits (bv_env v) u = None \<and> \<not> unit_deadline_unfit v u"

lemma container_slots_shape:
  assumes "arrives_as v l est u"
  shows "container_slots_for v sm u = container_slots_for v sm (leaf_shape_unit l)"
proof -
  have s: "cu_leaf u = cu_leaf (leaf_shape_unit l)" "is_container_unit u = is_container_unit (leaf_shape_unit l)"
    "cu_mem u = cu_mem (leaf_shape_unit l)" "cg_cores (cu_grant u) \<le> 0" "cg_cores (cu_grant (leaf_shape_unit l)) = 0"
    using assms by (auto simp: arrives_as_def leaf_shape_unit_def no_grant_def)
  have m: "booked_mem e u = booked_mem e (leaf_shape_unit l)" for e
    unfolding booked_mem_def memory_budget_for_def s(2,3) ..
  have b: "booked_cores e u = booked_cores e (leaf_shape_unit l)" for e
    using s(4,5) by (simp add: booked_cores_def unit_core_range_def cpu_budget_for_def s(1,2))
  show ?thesis unfolding container_slots_for_def m b s(2) ..
qed

lemma class_verdict_room:
  assumes "class_verdict k held0 cap target sec0 = None" "0 < target"
    and "sec = sec0 \<and> held = held0 \<or> 0 < sec \<and> sec < target"
  shows "class_verdict k held cap target sec = None"
  using assms by (auto simp: class_verdict_def split: if_splits)

text \<open>What \<open>j\<close> accepted units of the batch have added to one class of the buffer.\<close>

definition added :: "buffer_view \<Rightarrow> rat \<Rightarrow> nat \<Rightarrow> (client_unit \<Rightarrow> bool) \<Rightarrow> client_unit list \<Rightarrow> client_unit list \<Rightarrow> bool" where
  "added v est j P us vs \<longleftrightarrow>
     (booked_seconds v P us = booked_seconds v P vs \<and> count_if P us = count_if P vs \<or> 0 < booked_seconds v P us \<and> 0 < j)
     \<and> booked_seconds v P us \<le> booked_seconds v P vs + of_nat j * est"

lemma added_Suc:
  assumes "added v est j P us vs" "mset us' = add_mset u (mset us)" "durations_ok (bv_durations v)"
    and "0 < est_seconds_for_unit v (cu_leaf u) (cu_fpops u)" "est_seconds_for_unit v (cu_leaf u) (cu_fpops u) \<le> est"
  shows "added v est (Suc j) P us' vs"
  using assms(1,4,5) booked_seconds_nonneg [OF assms(3), of P us]
  by (auto simp: added_def booked_seconds_mset [OF assms(2)] count_if_add_mset [OF assms(2)] algebra_simps)

lemma slots_ge_1:
  "1 \<le> max_slots v sm" "1 \<le> gpu_slots v sm" "1 \<le> container_slots_for v sm u" "1 \<le> leaf_slots_for v sm l"
proof -
  show m: "1 \<le> max_slots v sm" by (simp add: max_slots_def Let_def)
  then show "1 \<le> gpu_slots v sm" "1 \<le> container_slots_for v sm u" "1 \<le> leaf_slots_for v sm l"
    by (simp_all add: gpu_slots_def container_slots_for_def leaf_slots_for_def Let_def)
qed

lemma cpu_time_fraction_pos: "0 < cpu_time_fraction v"
  by (simp add: cpu_time_fraction_def cpu_time_pct_def)

lemma targets_pos:
  assumes "0 < bv_hours v"
  shows "0 < buffer_target v c" "0 < gpu_target v c" "0 < container_target v c u" "0 < leaf_target v c l"
proof -
  have p: "0 < buffer_seconds_per_slot v" using assms cpu_time_fraction_pos [of v] by (simp add: buffer_seconds_per_slot_def)
  have s: "0 < (of_int k :: rat)" if "1 \<le> k" for k :: int using that by simp
  show "0 < buffer_target v c" "0 < gpu_target v c" "0 < container_target v c u" "0 < leaf_target v c l"
    unfolding buffer_target_def gpu_target_def container_target_def leaf_target_def
    using p slots_ge_1 by (auto intro!: mult_pos_pos s)
qed

lemma verdict_after_batch:
  assumes base: "class_verdict k (count_if P vs) cap target (booked_seconds v P vs) = None" and t: "0 < target"
    and add: "added v est j P us vs" and est: "0 < est"
    and room: "0 < j \<Longrightarrow> of_nat (Suc j) * est \<le> target - booked_seconds v P vs"
  shows "class_verdict k (count_if P us) cap target (booked_seconds v P us) = None"
proof (rule class_verdict_room [OF base t])
  have "booked_seconds v P us < target" if "0 < j"
  proof -
    have "booked_seconds v P us \<le> booked_seconds v P vs + of_nat j * est" using add by (simp add: added_def)
    also have "\<dots> < booked_seconds v P vs + of_nat (Suc j) * est" using est by (simp add: algebra_simps)
    also have "\<dots> \<le> target" using room [OF that] by simp
    finally show ?thesis .
  qed
  then show "booked_seconds v P us = booked_seconds v P vs \<and> count_if P us = count_if P vs
    \<or> 0 < booked_seconds v P us \<and> booked_seconds v P us < target"
    using add by (auto simp: added_def)
qed

lemma count_all: "int (length us) = count_if (\<lambda>_. True) us"
  by (simp add: count_if_def)

lemma accepts_next:
  assumes hours: "0 < bv_hours v" and est: "0 < est"
    and base: "work_buffer_full_verdict v c0 = None" "\<not> leaf_class_buffer_full v c0 l"
    and slots: "cl_slots c = cl_slots c0"
    and add: "\<And>P. added v est j P (held_units c) (held_units c0)"
    and j: "int (Suc j) \<le> request_batch_size v c0 l est"
    and u: "arrives_as v l est u"
  shows "buffer_accepts v lv c u = None"
proof -
  let ?n = "request_batch_size v c0 l est"
  note t = targets_pos [OF hours]
  have two: "2 \<le> ?n" if "0 < j" using j that by simp
  have le: "of_nat (Suc j) * est \<le> of_int ?n * est"
  proof -
    have "of_int (int (Suc j)) \<le> (of_int ?n :: rat)" using j by (simp only: of_int_le_iff)
    then show ?thesis using est by (simp add: mult_right_mono)
  qed
  note fit = batch_fits_deficits [OF refl two est t(1)]
  have tg: "buffer_target v c = buffer_target v c0" "gpu_target v c = gpu_target v c0"
    "container_target v c w = container_target v c0 w" "leaf_target v c l = leaf_target v c0 l"
    "leaf_class_exists v c l = leaf_class_exists v c0 l" for w
    by (simp_all add: buffer_target_def gpu_target_def container_target_def leaf_target_def leaf_class_exists_def slots)
  have w: "work_buffer_full_verdict v c = None"
    unfolding work_buffer_full_verdict_def buffered_unit_count_def buffered_seconds_def tg slots count_all
    by (rule verdict_after_batch [OF _ t(1) add est])
       (use base(1) le fit(1) in \<open>auto simp: work_buffer_full_verdict_def buffered_unit_count_def buffered_seconds_def count_all
          intro: order_trans\<close>)
  have g: "gpu_buffer_full_verdict v c = None" if "cu_gpu u"
  proof -
    have lg: "leaf_requires_gpu l" using u that by (simp add: arrives_as_def)
    then have b: "gpu_buffer_full_verdict v c0 = None" using base(2) by (auto simp: leaf_class_buffer_full_def)
    show ?thesis
      unfolding gpu_buffer_full_verdict_def buffered_gpu_count_def buffered_gpu_seconds_def tg slots
      by (rule verdict_after_batch [OF _ t(2) add est])
         (use b le fit(2) lg in \<open>auto simp: gpu_buffer_full_verdict_def buffered_gpu_count_def buffered_gpu_seconds_def
            intro: order_trans\<close>)
  qed
  have k: "container_buffer_full_verdict v c u = None"
  proof (cases "is_container_unit u \<and> container_slots_for v (cl_slots c) u < max_slots v (cl_slots c)")
    case True
    let ?s = "leaf_shape_unit l"
    have cs: "is_container_unit ?s" "container_slots_for v (cl_slots c0) u = container_slots_for v (cl_slots c0) ?s"
      using u True container_slots_shape [OF u] by (auto simp: arrives_as_def)
    have ct: "container_target v c0 u = container_target v c0 ?s" by (simp add: container_target_def cs(2))
    have b: "container_buffer_full_verdict v c0 ?s = None" using base(2) cs(1) by (auto simp: leaf_class_buffer_full_def)
    have sl: "container_slots_for v (cl_slots c0) ?s < max_slots v (cl_slots c0)" using True by (simp add: slots cs(2))
    have "class_verdict ContainerClass (count_if is_container_unit (held_units c))
        (fallback_per_slot * container_slots_for v (cl_slots c0) ?s) (container_target v c0 ?s)
        (booked_seconds v is_container_unit (held_units c)) = None"
      by (rule verdict_after_batch [OF _ t(3) add est])
         (use b le fit(3) cs(1) sl in \<open>auto simp: container_buffer_full_verdict_def buffered_container_count_def
            buffered_container_seconds_def Let_def intro: order_trans\<close>)
    then show ?thesis
      using True by (simp add: container_buffer_full_verdict_def tg slots cs(2) ct buffered_container_count_def
          buffered_container_seconds_def Let_def)
  qed (auto simp: container_buffer_full_verdict_def Let_def)
  have l: "leaf_buffer_full_verdict v c (leaf_of_unit (bv_env v) u) = None"
  proof (cases "leaf_class_exists v c0 l")
    case True
    have b: "leaf_buffer_full_verdict v c0 l = None" using base(2) by (auto simp: leaf_class_buffer_full_def)
    have "class_verdict LeafClass (count_if (\<lambda>u. cu_leaf u = cl_id l) (held_units c))
        (fallback_per_slot * leaf_slots_for v (cl_slots c0) l) (leaf_target v c0 l)
        (booked_seconds v (\<lambda>u. cu_leaf u = cl_id l) (held_units c)) = None"
      by (rule verdict_after_batch [OF _ t(4) add est])
         (use b le fit(4) True in \<open>auto simp: leaf_buffer_full_verdict_def buffered_leaf_count_def
            buffered_leaf_seconds_def intro: order_trans\<close>)
    then show ?thesis
      using True u by (simp add: arrives_as_def leaf_buffer_full_verdict_def tg slots buffered_leaf_count_def
          buffered_leaf_seconds_def)
  next
    case False
    then show ?thesis using u by (simp add: arrives_as_def leaf_buffer_full_verdict_def tg)
  qed
  show ?thesis using u w g k l unfolding buffer_accepts_def arrives_as_def by (auto simp: Let_def)
qed

lemma added_zero: "added v est 0 P us us"
  by (simp add: added_def)

lemma batch_accepted:
  assumes dur: "durations_ok (bv_durations v)" and hours: "0 < bv_hours v" and est: "0 < est"
    and base: "work_buffer_full_verdict v c0 = None" "\<not> leaf_class_buffer_full v c0 l"
  shows "cl_slots c = cl_slots c0 \<Longrightarrow> (\<And>P. added v est j P (held_units c) (held_units c0)) \<Longrightarrow>
     int (j + length us) \<le> request_batch_size v c0 l est \<Longrightarrow> (\<forall>u\<in>set us. arrives_as v l est u) \<Longrightarrow>
     distinct (map cu_id us) \<Longrightarrow> cu_id ` set us \<inter> held_ids c = {} \<Longrightarrow> all_accepted v lv c us"
proof (induction us arbitrary: c j)
  case (Cons u us)
  have u: "arrives_as v l est u" and fresh: "cu_id u \<notin> held_ids c" using Cons.prems by auto
  have b: "0 < est_seconds_for_unit v (cu_leaf u) (cu_fpops u)" "est_seconds_for_unit v (cu_leaf u) (cu_fpops u) \<le> est"
    using u by (auto simp: arrives_as_def)
  have "buffer_accepts v lv c u = None"
    using accepts_next [OF hours est base Cons.prems(1) Cons.prems(2) _ u] Cons.prems(3) by simp
  moreover have "all_accepted v lv (enqueued u c) us"
  proof (rule Cons.IH [where j = "Suc j"])
    show "added v est (Suc j) P (held_units (enqueued u c)) (held_units c0)" for P
      by (rule added_Suc [OF Cons.prems(2) held_enqueued [OF fresh] dur b])
    show "cu_id ` set us \<inter> held_ids (enqueued u c) = {}"
      using Cons.prems(5,6) held_ids_enqueued [OF fresh] by auto
  qed (use Cons.prems in auto)
  ultimately show ?case by simp
qed simp

text \<open>The client never asks for units it then gives back: while neither the buffer nor a class of the leaf is full,
  every unit of a batch of the size it asks for is accepted, whatever of the GPU, container and per-leaf
  classes bind, if the units are the leaf's shape, take no longer than the estimate the ask was sized by,
  and can meet their deadline here.
\<close>

theorem asked_units_are_accepted:
  assumes "durations_ok (bv_durations v)" "0 < bv_hours v" "0 < est"
    and "work_buffer_full_verdict v c = None" "\<not> leaf_class_buffer_full v c l"
    and "int (length us) \<le> request_batch_size v c l est"
    and "\<forall>u\<in>set us. arrives_as v l est u"
    and "distinct (map cu_id us)" "cu_id ` set us \<inter> held_ids c = {}"
  shows "all_accepted v lv c us"
  by (rule batch_accepted [OF assms(1-5) refl added_zero]) (use assms(6-9) in simp_all)

definition timed_leaf :: cached_leaf where
  "timed_leaf = \<lparr>cl_id = ''t'', cl_slug = ''t'', cl_spec = None,
     cl_reqs = Some \<lparr>cr_min_disk = 0, cr_min_cores = 1, cr_max_cores = 4, cr_gpu = False\<rparr>, cl_est_seconds = 600\<rparr>"

definition timed_view :: buffer_view where
  "timed_view = \<lparr>bv_env = \<lparr>ce_max_cores = 4, ce_max_mem = 4096, ce_max_disk_gb = 10, ce_max_running = 0,
       ce_servers = [], ce_leafs = [(''h'', [timed_leaf])], ce_vm_cpus = 0, ce_vm_mem = 0, ce_gpus = 0\<rparr>,
     bv_hours = 1, bv_cpu_pct = 100, bv_benchmark = 0, bv_durations = (\<lambda>_. []), bv_arrival_fpops = (\<lambda>_. 0),
     bv_arrival_deadline = (\<lambda>_. 0), bv_enabled = [timed_leaf], bv_open = None\<rparr>"

definition idle_client :: client where
  "idle_client = \<lparr>cl_queue = new_queue 256, cl_slots = new_slot_manager 4, cl_returned = []\<rparr>"

lemma asked_units_are_accepted_witness:
  "request_batch_size timed_view idle_client timed_leaf (leaf_est_seconds timed_view timed_leaf) = 24
   \<and> all_accepted timed_view \<lparr>lv_free_mem = None, lv_disk_ok = (\<lambda>_. True)\<rparr> idle_client
       [demo_unit ''a'' ''t'', demo_unit ''b'' ''t'', demo_unit ''c'' ''t'']"
proof
  let ?us = "[demo_unit ''a'' ''t'', demo_unit ''b'' ''t'', demo_unit ''c'' ''t'']"
  show n: "request_batch_size timed_view idle_client timed_leaf (leaf_est_seconds timed_view timed_leaf) = 24"
    by code_simp
  show "all_accepted timed_view \<lparr>lv_free_mem = None, lv_disk_ok = (\<lambda>_. True)\<rparr> idle_client ?us"
  proof (rule asked_units_are_accepted [where est = "leaf_est_seconds timed_view timed_leaf" and l = timed_leaf])
    show "durations_ok (bv_durations timed_view)" by (simp add: durations_ok_def timed_view_def)
    show "0 < bv_hours timed_view" by code_simp
    show "0 < leaf_est_seconds timed_view timed_leaf" by code_simp
    show "work_buffer_full_verdict timed_view idle_client = None" by code_simp
    show "\<not> leaf_class_buffer_full timed_view idle_client timed_leaf" by code_simp
    show "int (length ?us) \<le> request_batch_size timed_view idle_client timed_leaf (leaf_est_seconds timed_view timed_leaf)"
      unfolding n by simp
    show "\<forall>u\<in>set ?us. arrives_as timed_view timed_leaf (leaf_est_seconds timed_view timed_leaf) u" by code_simp
    show "distinct (map cu_id ?us)" by code_simp
    show "cu_id ` set ?us \<inter> held_ids idle_client = {}" by code_simp
  qed
qed

text \<open>The estimate an ask is sized by covers the units that last arrived.\<close>

lemma arrival_within_estimate:
  "0 < est_seconds_for_unit v (cl_id l) (bv_arrival_fpops v (cl_id l)) \<Longrightarrow>
   est_seconds_for_unit v (cl_id l) (bv_arrival_fpops v (cl_id l)) \<le> leaf_est_seconds v l"
  by (simp add: leaf_est_seconds_def Let_def split: option.splits)

end
