(* ===== verification/ClientPreview.thy ===== *)
theory ClientPreview
  imports ClientResume ClientBuffer
begin

text \<open>
  \<open>run_preview.go\<close>: a buffer's worth of units shaped like the enabled leafs, placed on an idle machine by the
  ledger the slot filler grants from. A unit is tagged with its place so that it has an identity; a
  preview task is its leaf and its cores.
\<close>

definition fits_bar_cores :: "client_env \<Rightarrow> budget_ledger \<Rightarrow> client_unit \<Rightarrow> bool" where
  "fits_bar_cores e l u = ledger_fits e (l\<lparr>lg_host := no_bound, lg_container := no_bound\<rparr>) u"

definition empty_ledger :: "client_env \<Rightarrow> budget_ledger" where
  "empty_ledger e = ledger_for e []"

fun simulate_starts :: "client_env \<Rightarrow> budget_ledger \<Rightarrow> client_unit list \<Rightarrow> (uid \<times> int) list \<times> (uid \<times> int) option" where
  "simulate_starts e l [] = ([], None)"
| "simulate_starts e l (u # us) =
     (if \<not> ledger_fits e l u
      then (if fits_bar_cores e l u then ([], Some (cu_leaf u, fst (unit_core_range e u)))
            else simulate_starts e l us)
      else let g = cg_cores (grant_from e l u us); cores = (if g \<le> 0 then fst (unit_core_range e u) else g)
           in case simulate_starts e (ledger_take e u cores l) us of (ts, w) \<Rightarrow> ((cu_leaf u, cores) # ts, w))"

definition preview_units :: "nat \<Rightarrow> cached_leaf list \<Rightarrow> client_unit list" where
  "preview_units rounds ls =
     concat (map (\<lambda>r. map (\<lambda>l. (leaf_shape_unit l)\<lparr>cu_id := cl_id l @ replicate r CHR ''-''\<rparr>) ls) [0..<rounds])"

definition cannot_start :: "client_env \<Rightarrow> cached_leaf \<Rightarrow> bool" where
  "cannot_start e l \<longleftrightarrow>
     (cl_reqs l \<noteq> None \<and> host_cores e > 0 \<and> fst (core_range_of (cl_reqs l)) > host_cores e)
     \<or> (case cl_spec l of None \<Rightarrow> False
        | Some s \<Rightarrow> cs_max_mem s > 0 \<and> host_mem e > 0 \<and> cs_max_mem s > host_mem e)"

record preview_leaf =
  pv_leaf :: uid
  pv_tasks :: "int list"
  pv_cannot_start :: bool

record run_preview =
  rp_limit :: int
  rp_alone :: "preview_leaf list"
  rp_together :: "(uid \<times> int) list"
  rp_waiting :: "(uid \<times> int) option"

definition run_preview_of :: "buffer_view \<Rightarrow> slot_manager \<Rightarrow> run_preview" where
  "run_preview_of v sm =
     (let e = bv_env v; rounds = nat (max_slots v sm);
          ls = filter (\<lambda>l. \<not> (ce_gpus e = 0 \<and> leaf_requires_gpu l)) (bv_enabled v);
          runnable = filter (\<lambda>l. \<not> cannot_start e l) ls;
          together = simulate_starts e (empty_ledger e) (preview_units rounds runnable)
      in \<lparr>rp_limit = host_cores e,
          rp_alone = map (\<lambda>l. if cannot_start e l then \<lparr>pv_leaf = cl_id l, pv_tasks = [], pv_cannot_start = True\<rparr>
             else \<lparr>pv_leaf = cl_id l,
                   pv_tasks = map snd (fst (simulate_starts e (empty_ledger e) (preview_units rounds [l]))),
                   pv_cannot_start = False\<rparr>) ls,
          rp_together = fst together, rp_waiting = snd together\<rparr>)"

lemma simulate_within_ledger:
  assumes "host_cores e > 0" and "\<forall>u\<in>set us. cg_cores (cu_grant u) \<le> 0" and "0 \<le> lg_host l"
  shows "sum_list (map snd (fst (simulate_starts e l us))) \<le> lg_host l"
  using assms(2,3)
proof (induction us arbitrary: l)
  case (Cons u us)
  have b: "cpu_budget_for e u > 0" using cpu_budget_pos [OF assms(1)] .
  show ?case
  proof (cases "ledger_fits e l u")
    case True
    let ?g = "cg_cores (grant_from e l u us)" and ?lo = "fst (unit_core_range e u)"
    have g: "0 < ?g" using grant_from_bounds(1) [OF b] unit_core_range_ordered(1) [of e u]
      by (meson int_one_le_iff_zero_less order_trans)
    have "booked_cores e u = ?lo" using Cons.prems(1) by (simp add: booked_cores_def)
    then have "?lo \<le> lg_host l" using True by (auto simp: ledger_fits_def Let_def split: if_splits)
    then have le: "?g \<le> lg_host l" using grant_from_room [OF b, of l us] by (auto simp: cores_free_for_def split: if_splits)
    have "sum_list (map snd (fst (simulate_starts e (ledger_take e u ?g l) us))) \<le> lg_host l - ?g"
      using Cons.IH [of "ledger_take e u ?g l"] Cons.prems(1) le by simp
    then show ?thesis using True g by (simp add: Let_def case_prod_beta)
  next
    case False
    then show ?thesis using Cons.IH [of l] Cons.prems by simp
  qed
qed simp

text \<open>
  The preview never shows more cores together than the CPU limit, nor does any leaf alone.
\<close>

theorem preview_within_limit:
  assumes "0 < host_cores (bv_env v)"
  shows "sum_list (map snd (rp_together (run_preview_of v sm))) \<le> rp_limit (run_preview_of v sm)
     \<and> (\<forall>p\<in>set (rp_alone (run_preview_of v sm)). sum_list (pv_tasks p) \<le> rp_limit (run_preview_of v sm))"
proof -
  have u: "\<forall>u\<in>set (preview_units r ls). cg_cores (cu_grant u) \<le> 0" for r ls
    by (auto simp: preview_units_def leaf_shape_unit_def no_grant_def)
  have l: "lg_host (empty_ledger (bv_env v)) = host_cores (bv_env v)"
    using assms by (simp add: empty_ledger_def ledger_for_def)
  have s: "sum_list (map snd (fst (simulate_starts (bv_env v) (empty_ledger (bv_env v)) (preview_units r ls))))
      \<le> host_cores (bv_env v)" for r ls
    using simulate_within_ledger [OF assms u, of "empty_ledger (bv_env v)" r ls] assms l by simp
  show ?thesis using s assms by (auto simp: run_preview_of_def Let_def)
qed

lemma preview_within_limit_witness:
  "rp_together (run_preview_of timed_view (new_slot_manager 4)) = [(''t'', 1), (''t'', 1), (''t'', 1), (''t'', 1)]
   \<and> sum_list (map snd (rp_together (run_preview_of timed_view (new_slot_manager 4)))) \<le> 4"
proof -
  have "rp_limit (run_preview_of timed_view (new_slot_manager 4)) = 4" by code_simp
  moreover have "0 < host_cores (bv_env timed_view)" by code_simp
  moreover have "rp_together (run_preview_of timed_view (new_slot_manager 4)) = [(''t'', 1), (''t'', 1), (''t'', 1), (''t'', 1)]"
    by code_simp
  ultimately show ?thesis using preview_within_limit [of timed_view "new_slot_manager 4"] by simp
qed

text \<open>
  The preview stops at the first unit short of cores; the slot filler does not when that unit is short of the
  container engine's cores and the next task runs outside the engine: it starts a task the preview leaves out.
\<close>

theorem preview_stops_short:
  "\<exists>e us sm q. host_cores e > 0
     \<and> pq_items q = map waiting_item us \<and> sm = new_slot_manager 8
     \<and> length (fst (simulate_starts e (empty_ledger e) us)) = 1
     \<and> length (running (fill_slots e anywhere (\<lambda>_. False) \<lparr>cl_queue = q, cl_slots = sm, cl_returned = []\<rparr>)) = 2"
proof -
  let ?e = "shape_env 8 0 4 [leaf_shape ''four'' 4 4, leaf_shape ''two'' 2 2, leaf_shape ''one'' 1 1]"
  let ?us = "[shape_unit ''a'' ''four'' ''container'' 0 0, shape_unit ''b'' ''two'' ''container'' 0 0,
              shape_unit ''c'' ''one'' ''native'' 0 0]"
  let ?q = "(new_queue 8)\<lparr>pq_items := map waiting_item ?us\<rparr>"
  have "host_cores ?e > 0" by code_simp
  moreover have "length (fst (simulate_starts ?e (empty_ledger ?e) ?us)) = 1" by code_simp
  moreover have "length (running (fill_slots ?e anywhere (\<lambda>_. False)
      \<lparr>cl_queue = ?q, cl_slots = new_slot_manager 8, cl_returned = []\<rparr>)) = 2" by code_simp
  moreover have "pq_items ?q = map waiting_item ?us" by simp
  ultimately show ?thesis by blast
qed

end
