(* ===== verification/Generation.thy ===== *)
theory Generation
  imports Float64 Decimals
begin

text \<open>
  The generation of work units (\<open>internal/paramsweep\<close>, \<open>internal/montecarlo\<close>, \<open>internal/generate\<close>): the
  expansion of a parameter space, the enumeration of its combinations, Monte Carlo trials, the batches
  they are stored in, and the lazy manager that generates a leaf a window at a time under a durable
  cursor. A JSON value is what \<open>encoding/json\<close> decodes it to, a number its \<open>float64\<close>; a Go map is the list
  of its entries. Logging is not modelled.
\<close>

section \<open>Parameter spaces\<close>

datatype pval =
    PNull
  | PBool bool
  | PNum f64
  | PStr string
  | PList "pval list"
  | PObj "(string \<times> pval) list"

type_synonym param_space = "(string \<times> pval) list"

definition to_float64 :: "pval option \<Rightarrow> f64 option" where
  "to_float64 v = (case v of Some (PNum x) \<Rightarrow> Some x | _ \<Rightarrow> None)"

definition float_epsilon :: f64 where
  "float_epsilon = 1 / 10 ^ 9"

definition math_round :: "f64 \<Rightarrow> f64" where
  "math_round x = (if x \<ge> 0 then of_int \<lfloor>x + 1 / 2\<rfloor> else - of_int \<lfloor>- x + 1 / 2\<rfloor>)"

definition round_to_step :: "f64 \<Rightarrow> f64 \<Rightarrow> f64 \<Rightarrow> f64" where
  "round_to_step v origin step = rnd (origin + rnd (math_round (rnd (rnd (v - origin) / step)) * step))"

text \<open>The loop of a range; None when it never ends.\<close>

partial_function (option) range_loop :: "f64 \<Rightarrow> f64 \<Rightarrow> f64 \<Rightarrow> f64 \<Rightarrow> f64 list option" where
  "range_loop origin bound step v =
     (if v \<le> bound
      then Option.bind (range_loop origin bound step (rnd (v + step))) (\<lambda>vs. Some (round_to_step v origin step # vs))
      else Some [])"

definition range_error :: "string \<Rightarrow> api_error" where
  "range_error reason = ValidationError reason"

definition expand_range :: "(string \<times> pval) list \<Rightarrow> pval list res option" where
  "expand_range r =
     (case to_float64 (map_of r ''min'') of None \<Rightarrow> Some (Inl (range_error ''missing_min''))
      | Some lo \<Rightarrow> (case to_float64 (map_of r ''max'') of None \<Rightarrow> Some (Inl (range_error ''missing_max''))
      | Some hi \<Rightarrow> (case to_float64 (map_of r ''step'') of None \<Rightarrow> Some (Inl (range_error ''missing_step''))
      | Some step \<Rightarrow>
          if lo > rnd (hi + float_epsilon) then Some (Inl (range_error ''min_greater_than_max''))
          else if step \<le> 0 then Some (Inl (range_error ''invalid_step''))
          else map_option (\<lambda>vs. Inr (map PNum vs)) (range_loop lo (rnd (hi + float_epsilon)) step lo))))"

fun parse_entries :: "param_space \<Rightarrow> (string \<times> pval list) list res option" where
  "parse_entries [] = Some (Inr [])"
| "parse_entries ((n, v) # es) =
     (case (case v of
              PList vs \<Rightarrow> if vs = [] then Some (Inl (range_error ''empty_list'')) else Some (Inr vs)
            | PObj r \<Rightarrow> expand_range r
            | _ \<Rightarrow> Some (Inl (range_error ''invalid_format''))) of
        None \<Rightarrow> None
      | Some (Inl e) \<Rightarrow> Some (Inl e)
      | Some (Inr vs) \<Rightarrow> map_option (map_sum id (Cons (n, vs))) (parse_entries es))"

definition parse_parameter_space :: "param_space \<Rightarrow> (string \<times> pval list) list res option" where
  "parse_parameter_space raw = (if raw = [] then Some (Inl (range_error ''empty'')) else parse_entries raw)"

section \<open>Combinations\<close>

type_synonym params = "(string \<times> pval list) list"

definition sorted_keys :: "params \<Rightarrow> string list" where
  "sorted_keys ps = sort (map fst ps)"

definition values_of :: "params \<Rightarrow> string \<Rightarrow> pval list" where
  "values_of ps k = (case map_of ps k of Some vs \<Rightarrow> vs | None \<Rightarrow> [])"

definition max_int :: nat where
  "max_int = 2 ^ 63 - 1"

fun total_combinations_from :: "nat \<Rightarrow> params \<Rightarrow> string list \<Rightarrow> nat res" where
  "total_combinations_from acc ps [] = Inr acc"
| "total_combinations_from acc ps (k # ks) =
     (let n = length (values_of ps k) in
      if n = 0 then Inr 0
      else if acc > max_int div n then Inl (ValidationError ''combination_count_overflow'')
      else total_combinations_from (acc * n) ps ks)"

definition total_combinations :: "string list \<Rightarrow> params \<Rightarrow> nat res" where
  "total_combinations ks ps = total_combinations_from 1 ps ks"

text \<open>
  The positional decode of a global index, rightmost key fastest; the keys are walked from the right. A
  combination lists its entries in key order.
\<close>

fun decode_rev :: "params \<Rightarrow> string list \<Rightarrow> nat \<Rightarrow> (string \<times> pval) list" where
  "decode_rev ps [] i = []"
| "decode_rev ps (k # ks) i =
     (let n = length (values_of ps k) in decode_rev ps ks (i div n) @ [(k, values_of ps k ! (i mod n))])"

definition decode_combination :: "string list \<Rightarrow> params \<Rightarrow> nat \<Rightarrow> (string \<times> pval) list" where
  "decode_combination ks ps i = decode_rev ps (rev ks) i"

text \<open>The odometer of \<open>CartesianProduct\<close>: one index per key, the last one moves first.\<close>

fun bump_rev :: "params \<Rightarrow> (string \<times> nat) list \<Rightarrow> (string \<times> nat) list" where
  "bump_rev ps [] = []"
| "bump_rev ps ((k, i) # ds) =
     (if i + 1 < length (values_of ps k) then (k, i + 1) # ds else (k, 0) # bump_rev ps ds)"

fun odometer :: "params \<Rightarrow> nat \<Rightarrow> (string \<times> nat) list \<Rightarrow> (string \<times> pval) list list" where
  "odometer ps 0 ds = []"
| "odometer ps (Suc n) ds =
     rev (map (\<lambda>(k, i). (k, values_of ps k ! i)) ds) # odometer ps n (bump_rev ps ds)"

definition cartesian_product :: "params \<Rightarrow> (string \<times> pval) list list" where
  "cartesian_product ps =
     (if ps = [] then []
      else let ks = sorted_keys ps
           in odometer ps (prod_list (map (length \<circ> values_of ps) ks)) (map (\<lambda>k. (k, 0)) (rev ks)))"

text \<open>The digits of an index in the mixed radix of the keys, last key first.\<close>

fun digits_rev :: "params \<Rightarrow> string list \<Rightarrow> nat \<Rightarrow> (string \<times> nat) list" where
  "digits_rev ps [] i = []"
| "digits_rev ps (k # ks) i = (k, i mod length (values_of ps k)) # digits_rev ps ks (i div length (values_of ps k))"

lemma decode_digits: "decode_rev ps ks i = rev (map (\<lambda>(k, d). (k, values_of ps k ! d)) (digits_rev ps ks i))"
  by (induction ks arbitrary: i) (simp_all add: Let_def)

lemma digits_zero: "digits_rev ps ks 0 = map (\<lambda>k. (k, 0)) ks"
  by (induction ks) simp_all

lemma mod_Suc_small: "0 < n \<Longrightarrow> i mod n + 1 < n \<Longrightarrow> Suc i mod n = i mod n + 1 \<and> Suc i div n = i div n"
  by (simp add: mod_Suc div_Suc)

lemma mod_Suc_wrap: "0 < n \<Longrightarrow> \<not> i mod n + 1 < n \<Longrightarrow> Suc i mod n = 0 \<and> Suc i div n = Suc (i div n)"
proof -
  assume n: "0 < n" "\<not> i mod n + 1 < n"
  then have "i mod n < n" by simp
  with n(2) have "Suc (i mod n) = n" by linarith
  then show ?thesis by (simp add: mod_Suc div_Suc)
qed

lemma bump_digits:
  "\<forall>k\<in>set ks. values_of ps k \<noteq> [] \<Longrightarrow> bump_rev ps (digits_rev ps ks i) = digits_rev ps ks (Suc i)"
proof (induction ks arbitrary: i)
  case (Cons k ks)
  have n: "0 < length (values_of ps k)" using Cons.prems by simp
  show ?case
    using Cons mod_Suc_small [OF n, of i] mod_Suc_wrap [OF n, of i] by auto
qed simp

lemma odometer_decode:
  "\<forall>k\<in>set ks. values_of ps k \<noteq> [] \<Longrightarrow>
     odometer ps n (digits_rev ps ks i) = map (decode_rev ps ks) [i..<i + n]"
proof (induction n arbitrary: i)
  case (Suc n)
  have "[i..<i + Suc n] = i # [Suc i..<Suc i + n]" by (simp add: upt_rec)
  then show ?case using Suc.IH [of "Suc i"] Suc.prems by (simp add: bump_digits flip: decode_digits)
qed simp

text \<open>C24. Decoding the indices in order enumerates the Cartesian product, combination for combination: a
  window of indices is the slice of the full product it stands for.
\<close>

theorem decode_is_the_product:
  assumes "ps \<noteq> []" "\<forall>(k, vs)\<in>set ps. vs \<noteq> []"
  shows "cartesian_product ps
       = map (decode_combination (sorted_keys ps) ps) [0..<prod_list (map (length \<circ> values_of ps) (sorted_keys ps))]"
proof -
  let ?ks = "rev (sorted_keys ps)"
  have "\<forall>k\<in>set ?ks. values_of ps k \<noteq> []"
  proof
    fix k assume "k \<in> set ?ks"
    then have "k \<in> fst ` set ps" by (simp add: sorted_keys_def)
    then obtain vs where "map_of ps k = Some vs" by (metis map_of_eq_None_iff not_Some_eq)
    then show "values_of ps k \<noteq> []" using assms(2) map_of_SomeD by (fastforce simp: values_of_def)
  qed
  from odometer_decode [OF this, of _ 0] show ?thesis
    using assms(1) by (simp add: cartesian_product_def Let_def digits_zero decode_combination_def [abs_def])
qed

lemma decode_is_the_product_witness:
  "cartesian_product [(''b'', [PNum 1, PNum 2]), (''a'', [PNum 3, PNum 4])]
   = [[(''a'', PNum 3), (''b'', PNum 1)], [(''a'', PNum 3), (''b'', PNum 2)],
      [(''a'', PNum 4), (''b'', PNum 1)], [(''a'', PNum 4), (''b'', PNum 2)]]"
proof -
  let ?ps = "[(''b'', [PNum 1, PNum 2]), (''a'', [PNum 3, PNum 4])]"
  have "cartesian_product ?ps = map (decode_combination (sorted_keys ?ps) ?ps)
      [0..<prod_list (map (length \<circ> values_of ?ps) (sorted_keys ?ps))]"
    by (rule decode_is_the_product) simp_all
  also have "\<dots> = [[(''a'', PNum 3), (''b'', PNum 1)], [(''a'', PNum 3), (''b'', PNum 2)],
      [(''a'', PNum 4), (''b'', PNum 1)], [(''a'', PNum 4), (''b'', PNum 2)]]" by code_simp
  finally show ?thesis .
qed

section \<open>Ranges\<close>

text \<open>
  A range whose step is below the spacing of the numbers at its start never ends: the sum rounds back to the
  value it started from, and the expansion appends to its list for ever.
\<close>

theorem tiny_step_never_ends:
  assumes "lo \<le> rnd (hi + float_epsilon)" "0 < step" "rnd (lo + step) = lo"
  shows "expand_range [(''min'', PNum lo), (''max'', PNum hi), (''step'', PNum step)] = None"
proof -
  have "range_loop lo (rnd (hi + float_epsilon)) step lo = None"
  proof (cases "range_loop lo (rnd (hi + float_epsilon)) step lo")
    case (Some vs)
    have "range_loop lo (rnd (hi + float_epsilon)) step lo
        = Option.bind (range_loop lo (rnd (hi + float_epsilon)) step lo) (\<lambda>vs. Some (round_to_step lo lo step # vs))"
      using assms by (subst range_loop.simps) simp
    with Some show ?thesis by simp
  qed
  then show ?thesis using assms by (simp add: expand_range_def to_float64_def)
qed

lemma tiny_step_never_ends_witness:
  "expand_range [(''min'', PNum (10 ^ 17)), (''max'', PNum (10 ^ 17 + 64)), (''step'', PNum 1)] = None"
  by (rule tiny_step_never_ends; code_simp)

text \<open>A range of integers below \<open>2^52\<close> is exactly its arithmetic progression.\<close>

lemma bound_int:
  assumes "\<bar>hi\<bar> \<le> 2 ^ 51"
  shows "of_int v \<le> rnd (of_int hi + float_epsilon) \<longleftrightarrow> v \<le> hi"
proof -
  have up: "rnd (of_int hi + float_epsilon) \<le> of_int hi + 1 / 2"
  proof -
    have "rnd (of_int hi + float_epsilon) \<le> rnd (of_int (2 * hi + 1) * 2 powi (- 1))"
      by (rule rnd_mono) (simp add: float_epsilon_def power_int_minus field_simps)
    also have "\<dots> = of_int (2 * hi + 1) * 2 powi (- 1)"
      by (rule rnd_dyadic) (use assms in auto)
    finally show ?thesis by (simp add: power_int_minus field_simps)
  qed
  have "rnd (of_int hi) = of_int hi" by (rule rnd_int) (use assms in auto)
  then have dn: "of_int hi \<le> rnd (of_int hi + float_epsilon)"
    using rnd_mono [of "of_int hi" "of_int hi + float_epsilon"] by (simp add: float_epsilon_def)
  show ?thesis
  proof
    assume "of_int v \<le> rnd (of_int hi + float_epsilon)"
    then have "(of_int v :: rat) \<le> of_int hi + 1 / 2" using up by linarith
    then have "(of_int (2 * v) :: rat) \<le> of_int (2 * hi + 1)" by simp
    then show "v \<le> hi" unfolding of_int_le_iff by presburger
  next
    assume "v \<le> hi"
    then have "(of_int v :: rat) \<le> of_int hi" by simp
    then show "of_int v \<le> rnd (of_int hi + float_epsilon)" using dn by linarith
  qed
qed

lemma le_zdiv:
  assumes "0 < (s :: int)"
  shows "k \<le> x div s \<longleftrightarrow> k * s \<le> x"
proof
  assume "k \<le> x div s"
  then have "k * s \<le> (x div s) * s" using assms by simp
  also have "\<dots> \<le> x" using pos_mod_sign [OF assms, of x] div_mult_mod_eq [of x s] by linarith
  finally show "k * s \<le> x" .
next
  assume "k * s \<le> x"
  then show "k \<le> x div s" using zdiv_mono1 [of "k * s" x s] assms by simp
qed

lemma round_to_step_int:
  assumes "0 < step" "0 \<le> k" "\<bar>lo\<bar> \<le> 2 ^ 51" "k * step \<le> 2 ^ 52"
  shows "round_to_step (of_int (lo + k * step)) (of_int lo) (of_int step) = of_int (lo + k * step)"
proof -
  have ks: "k \<le> k * step" "0 \<le> k * step" using assms by (simp_all add: mult_le_cancel_left1)
  have a: "rnd (of_int (lo + k * step) - of_int lo) = of_int (k * step)"
    using rnd_int [of "k * step"] assms ks by simp
  have b: "rnd (of_int (k * step) / of_int step) = of_int k"
    using rnd_int [of k] assms ks by simp
  have c: "math_round (of_int k) = of_int k"
  proof -
    have "\<lfloor>of_int k + 1 / 2 :: rat\<rfloor> = k" by linarith
    then show ?thesis using assms(2) by (simp add: math_round_def)
  qed
  have d: "rnd (of_int k * of_int step) = of_int (k * step)"
    using rnd_int [of "k * step"] assms ks by simp
  have e: "rnd (of_int lo + of_int (k * step)) = of_int (lo + k * step)"
    using rnd_int [of "lo + k * step"] assms ks by simp
  show ?thesis unfolding round_to_step_def a b c d e ..
qed

lemma range_loop_int:
  assumes s: "0 < step" and lo: "\<bar>lo\<bar> \<le> 2 ^ 51" and hi: "\<bar>hi\<bar> \<le> 2 ^ 51" and st: "step \<le> 2 ^ 51"
  shows "0 \<le> k \<Longrightarrow> lo + k * step \<le> hi + step \<Longrightarrow>
    range_loop (of_int lo) (rnd (of_int hi + float_epsilon)) (of_int step) (of_int (lo + k * step))
    = Some (map (\<lambda>j. of_int (lo + int j * step)) [nat k..<nat ((hi - lo) div step + 1)])"
proof (induction "nat (hi + step - (lo + k * step))" arbitrary: k rule: less_induct)
  case less
  show ?case
  proof (cases "lo + k * step \<le> hi")
    case True
    have "k \<le> (hi - lo) div step" using True le_zdiv [OF s, of k "hi - lo"] by simp
    then have up: "[nat k..<nat ((hi - lo) div step + 1)] = nat k # [nat (k + 1)..<nat ((hi - lo) div step + 1)]"
      using less.prems(1) by (subst upt_conv_Cons) (auto simp: nat_add_distrib)
    have ks: "k * step \<le> 2 ^ 52" using True lo hi by simp
    have nx: "rnd (of_int (lo + k * step) + of_int step) = of_int (lo + (k + 1) * step)"
    proof -
      have "0 \<le> k * step" using s less.prems(1) by simp
      then have "\<bar>lo + (k + 1) * step\<bar> \<le> 2 ^ 53" using True lo hi st s by (simp add: algebra_simps)
      then show ?thesis using rnd_int [of "lo + (k + 1) * step"] by (simp add: algebra_simps)
    qed
    have ih: "range_loop (of_int lo) (rnd (of_int hi + float_epsilon)) (of_int step) (of_int (lo + (k + 1) * step))
        = Some (map (\<lambda>j. of_int (lo + int j * step)) [nat (k + 1)..<nat ((hi - lo) div step + 1)])"
      by (rule less.hyps) (use True s less.prems in \<open>auto simp: algebra_simps\<close>)
    show ?thesis
      using True less.prems round_to_step_int [OF s less.prems(1) lo ks]
      by (subst range_loop.simps) (simp add: bound_int [OF hi] nx ih up del: of_int_add of_int_mult)
  next
    case False
    have "(hi - lo) div step < k" using False le_zdiv [OF s, of k "hi - lo"] by linarith
    then show ?thesis using False by (subst range_loop.simps) (simp add: bound_int [OF hi] del: of_int_add of_int_mult)
  qed
qed

text \<open>
  A range of integers up to \<open>2^51\<close> expands to exactly the values from its minimum in its steps that do not
  pass its maximum.
\<close>

theorem integer_range_is_exact:
  assumes "0 < step" "step \<le> 2 ^ 51" "\<bar>lo\<bar> \<le> 2 ^ 51" "\<bar>hi\<bar> \<le> 2 ^ 51" "lo \<le> hi"
  shows "expand_range [(''min'', PNum (of_int lo)), (''max'', PNum (of_int hi)), (''step'', PNum (of_int step))]
       = Some (Inr (map (\<lambda>j. PNum (of_int (lo + int j * step))) [0..<nat ((hi - lo) div step + 1)]))"
proof -
  have b: "\<not> of_int lo > rnd (of_int hi + float_epsilon)" using bound_int [OF assms(4), of lo] assms(5) by simp
  have "range_loop (of_int lo) (rnd (of_int hi + float_epsilon)) (of_int step) (of_int lo)
      = Some (map (\<lambda>j. of_int (lo + int j * step)) [0..<nat ((hi - lo) div step + 1)])"
    using range_loop_int [OF assms(1,3,4,2), of 0] assms by simp
  then show ?thesis using b assms(1) by (simp add: expand_range_def to_float64_def comp_def)
qed

lemma integer_range_is_exact_witness:
  "expand_range [(''min'', PNum 1), (''max'', PNum 8), (''step'', PNum 3)] = Some (Inr [PNum 1, PNum 4, PNum 7])"
  using integer_range_is_exact [of 3 1 8] by (simp add: eval_nat_numeral)

end
