(* ===== verification/LazyGeneration.thy ===== *)
theory LazyGeneration
  imports Generation LeafConfig
begin

text \<open>
  Storing what is generated (\<open>internal/generate/batchsink.go\<close>, \<open>router.go\<close>, \<open>helpers.go\<close>, the \<open>Generate\<close> functions of
  \<open>paramsweep\<close> and \<open>montecarlo\<close>) and the lazy manager (\<open>internal/generate/lazy.go\<close>). The store is the batches,
  the generated units and the cursor column of the leafs. What a generator relies on of the sink it
  writes through is the locale \<open>batch_sink\<close>; the transactional sink and the lazy tick's wrapper of it are its
  instances. \<open>hash_seed\<close> is the truncated SHA-256 of a leaf and an ordinal. A negative \<open>_offset\<close>, which the lazy manager
  never sends and at which the code indexes out of range, is an error here.
\<close>

section \<open>The store\<close>

datatype task_pattern = ParameterSweep | MapReduce | MonteCarlo | CustomPattern

record gen_leaf =
  gl_id :: uid
  gl_pattern :: task_pattern
  gl_state :: leaf_state
  gl_lazy :: bool
  gl_ongoing :: bool
  gl_threshold :: nat
  gl_batch_size :: int
  gl_config :: param_space
  gl_artifact :: string
  gl_deadline :: int
  gl_max_reassignments :: int
  gl_strategy :: "string option"
  gl_max_input :: int

text \<open>A unit's parameters and input: generated values, or the bytes of a request or a chunk.\<close>

datatype chunk_meta = MetaInt nat | MetaText string

datatype unit_params = Combination "(string \<times> pval) list" | Trial int int | ChunkInfo "(string \<times> chunk_meta) list" | RawParams string

datatype unit_input = JsonInput pval | RawInput string

record gen_unit =
  gu_leaf :: uid
  gu_queued :: bool
  gu_params :: unit_params
  gu_input :: "unit_input option"
  gu_input_ref :: "string option"
  gu_artifact :: string
  gu_deadline :: int
  gu_max_reassignments :: int

record gen_batch =
  gb_leaf :: uid
  gb_seq :: nat
  gb_total :: nat

record cursor =
  gc_offset :: nat
  gc_seed :: nat
  gc_total :: nat
  gc_exhausted :: bool

definition zero_cursor :: cursor where
  "zero_cursor = \<lparr>gc_offset = 0, gc_seed = 0, gc_total = 0, gc_exhausted = False\<rparr>"

record gen_store =
  gs_batches :: "gen_batch list"
  gs_units :: "gen_unit list"
  gs_cursor :: "uid \<Rightarrow> cursor"

text \<open>One batch and its units; the unique key is \<open>(leaf_id, sequence_number)\<close>.\<close>

definition create_batch :: "gen_batch \<Rightarrow> (gen_store, unit) op" where
  "create_batch b s =
     (if \<exists>x\<in>set (gs_batches s). gb_leaf x = gb_leaf b \<and> gb_seq x = gb_seq b
      then (Inl (Conflict ''sequence number exists''), s)
      else (Inr (), s\<lparr>gs_batches := gs_batches s @ [b]\<rparr>))"

definition bulk_create_queued :: "gen_unit list \<Rightarrow> (gen_store, unit) op" where
  "bulk_create_queued us s = (Inr (), s\<lparr>gs_units := gs_units s @ map (\<lambda>u. u\<lparr>gu_queued := True\<rparr>) us\<rparr>)"

text \<open>The guarded write of the cursor column; the guard is the total the writer read.\<close>

definition update_cursor :: "uid \<Rightarrow> cursor \<Rightarrow> nat \<Rightarrow> gen_store \<Rightarrow> bool \<times> gen_store" where
  "update_cursor lf c expected s =
     (if gc_total (gs_cursor s lf) = expected then (True, s\<lparr>gs_cursor := (gs_cursor s)(lf := c)\<rparr>) else (False, s))"

definition persist_batch :: "gen_batch \<Rightarrow> gen_unit list \<Rightarrow> (uid \<times> cursor \<times> nat) option \<Rightarrow> (gen_store, unit) op" where
  "persist_batch b us adv = in_tx (
     obind (create_batch b) (\<lambda>_.
     obind (bulk_create_queued us) (\<lambda>_ s.
       case adv of None \<Rightarrow> (Inr (), s)
       | Some (lf, c, expected) \<Rightarrow>
           (case update_cursor lf c expected s of
              (True, s') \<Rightarrow> (Inr (), s')
            | (False, s') \<Rightarrow> (Inl (Conflict ''cursor''), s')))))"

definition next_sequence :: "uid \<Rightarrow> (gen_store, nat) op" where
  "next_sequence lf s = (Inr (foldr max [gb_seq b. b \<leftarrow> gs_batches s, gb_leaf b = lf] 0 + 1), s)"

section \<open>The sink\<close>

locale batch_sink =
  fixes persist :: "gen_batch \<Rightarrow> gen_unit list \<Rightarrow> ('s, unit) op"
    and next_seq :: "uid \<Rightarrow> ('s, nat) op"
    and units :: "'s \<Rightarrow> gen_unit list"
  assumes persist_ok: "persist b us s = (Inr (), s') \<Longrightarrow> units s' = units s @ map (\<lambda>u. u\<lparr>gu_queued := True\<rparr>) us"
    and next_pure: "next_seq lf s = (r, s') \<Longrightarrow> units s' = units s"

function persist_batches :: "(gen_batch \<Rightarrow> gen_unit list \<Rightarrow> ('s, unit) op) \<Rightarrow> uid \<Rightarrow> nat \<Rightarrow> nat \<Rightarrow> gen_unit list
    \<Rightarrow> ('s, nat) op" where
  "persist_batches persist lf sq bs us =
     (if us = [] \<or> bs = 0 then oreturn 0
      else obind (persist \<lparr>gb_leaf = lf, gb_seq = sq, gb_total = length (take bs us)\<rparr> (take bs us)) (\<lambda>_.
           obind (persist_batches persist lf (sq + 1) bs (drop bs us)) (\<lambda>n.
           oreturn (length (take bs us) + n))))"
  by pat_completeness auto
termination by (relation "measure (\<lambda>(p, lf, sq, bs, us). length us)") auto

declare persist_batches.simps [simp del]

context batch_sink begin

lemma persist_batches_units:
  assumes "persist_batches persist lf sq bs us s = (Inr n, s')" "0 < bs"
  shows "n = length us \<and> units s' = units s @ map (\<lambda>u. u\<lparr>gu_queued := True\<rparr>) us"
  using assms(1)
proof (induction "length us" arbitrary: us sq s n rule: less_induct)
  case less
  show ?case
  proof (cases "us = []")
    case True
    then show ?thesis using less.prems by (simp add: persist_batches.simps)
  next
    case False
    then obtain s1 m where
      a: "persist \<lparr>gb_leaf = lf, gb_seq = sq, gb_total = length (take bs us)\<rparr> (take bs us) s = (Inr (), s1)"
      and b: "persist_batches persist lf (sq + 1) bs (drop bs us) s1 = (Inr m, s')"
      and n: "n = length (take bs us) + m"
      using less.prems assms(2) by (auto simp: persist_batches.simps [of _ _ _ _ us] obind_eq_Inr)
    have "length (drop bs us) < length us" using False assms(2) by simp
    from less.hyps [OF this b]
    have "m = length (drop bs us) \<and> units s' = units s1 @ map (\<lambda>u. u\<lparr>gu_queued := True\<rparr>) (drop bs us)" .
    then show ?thesis using persist_ok [OF a] n by (simp flip: map_append)
  qed
qed

end

section \<open>The generators\<close>

definition clamp_batch_size :: "int \<Rightarrow> nat" where
  "clamp_batch_size n = (let n = (if n \<le> 0 then 10000 else n) in nat (max 1 (min n 100000)))"

definition go_int_of :: "f64 \<Rightarrow> int" where
  "go_int_of x = (if x \<ge> 0 then \<lfloor>x\<rfloor> else - \<lfloor>- x\<rfloor>)"

definition unit_of :: "gen_leaf \<Rightarrow> unit_params \<Rightarrow> unit_input option \<Rightarrow> gen_unit" where
  "unit_of lf p inp = \<lparr>gu_leaf = gl_id lf, gu_queued = False, gu_params = p, gu_input = inp, gu_input_ref = None, gu_artifact = gl_artifact lf,
     gu_deadline = gl_deadline lf, gu_max_reassignments = gl_max_reassignments lf\<rparr>"

text \<open>
  The units a sweep call generates: the window of one batch on the lazy path, the whole remainder
  otherwise. None when the expansion of a range never ends.
\<close>

definition sweep_plan :: "gen_leaf \<Rightarrow> param_space \<Rightarrow> nat \<Rightarrow> gen_unit list res option" where
  "sweep_plan lf space bs =
     (let off = (case map_of space ''_offset'' of None \<Rightarrow> None
                 | Some v \<Rightarrow> Some (case to_float64 (Some v) of Some x \<Rightarrow> go_int_of x | None \<Rightarrow> 0));
          offset = (case off of None \<Rightarrow> 0 | Some n \<Rightarrow> n);
          clean = filter (\<lambda>(k, v). k \<noteq> ''_offset'') space
      in case parse_parameter_space clean of
           None \<Rightarrow> None
         | Some (Inl e) \<Rightarrow> Some (Inl e)
         | Some (Inr ps) \<Rightarrow>
             let ks = sorted_keys ps in
             case total_combinations ks ps of
               Inl e \<Rightarrow> Some (Inl e)
             | Inr n \<Rightarrow>
                 if n = 0 then Some (Inl (ValidationError ''no combinations''))
                 else if offset < 0 then Some (Inl (OtherError ''index out of range''))
                 else if offset \<ge> int n then Some (Inr [])
                 else let start = nat offset; remaining = n - start;
                          need = (if off = None then remaining else min bs remaining)
                      in Some (Inr (map (\<lambda>i. unit_of lf (Combination (decode_combination ks ps i)) None)
                                        [start..<start + need])))"

definition extract_num_trials :: "param_space \<Rightarrow> nat res" where
  "extract_num_trials c =
     (case map_of c ''num_trials'' of None \<Rightarrow> Inl (ValidationError ''num_trials is required'')
      | Some v \<Rightarrow> (case to_float64 (Some v) of None \<Rightarrow> Inl (ValidationError ''num_trials must be an integer >= 1'')
          | Some x \<Rightarrow> let n = go_int_of x in
              if n < 1 then Inl (ValidationError ''num_trials must be an integer >= 1'')
              else if n > 10000000 then Inl (ValidationError ''num_trials too large'')
              else Inr (nat n)))"

definition extract_seed_strategy :: "param_space \<Rightarrow> string res" where
  "extract_seed_strategy c =
     (case map_of c ''seed_strategy'' of None \<Rightarrow> Inr ''sequential''
      | Some (PStr s) \<Rightarrow> if s = ''sequential'' \<or> s = ''hash'' then Inr s else Inl (ValidationError ''invalid seed_strategy'')
      | Some _ \<Rightarrow> Inl (ValidationError ''seed_strategy must be a string''))"

definition extract_seed_offset :: "param_space \<Rightarrow> nat res" where
  "extract_seed_offset c =
     (case map_of c ''seed_offset'' of None \<Rightarrow> Inr 0
      | Some v \<Rightarrow> (case to_float64 (Some v) of None \<Rightarrow> Inl (ValidationError ''seed_offset'')
          | Some x \<Rightarrow> if go_int_of x < 0 then Inl (ValidationError ''seed_offset'') else Inr (nat (go_int_of x))))"

definition extract_shared_config :: "param_space \<Rightarrow> pval option" where
  "extract_shared_config c = (case map_of c ''shared_config'' of Some v \<Rightarrow> if v = PNull then None else Some v | None \<Rightarrow> None)"

definition merge_config :: "param_space \<Rightarrow> param_space \<Rightarrow> param_space" where
  "merge_config request dflt = request @ dflt"

definition generate_seed :: "(uid \<Rightarrow> nat \<Rightarrow> int) \<Rightarrow> string \<Rightarrow> nat \<Rightarrow> uid \<Rightarrow> int" where
  "generate_seed hash_seed strategy ordinal lf = (if strategy = ''hash'' then hash_seed lf ordinal else int ordinal)"

definition trials_plan :: "(uid \<Rightarrow> nat \<Rightarrow> int) \<Rightarrow> gen_leaf \<Rightarrow> param_space \<Rightarrow> gen_unit list res" where
  "trials_plan hash_seed lf space =
     (if gl_pattern lf \<noteq> MonteCarlo then Inl (ValidationError ''wrong pattern'')
      else let c = merge_config space (gl_config lf) in
        case extract_num_trials c of Inl e \<Rightarrow> Inl e | Inr n \<Rightarrow>
        case extract_seed_strategy c of Inl e \<Rightarrow> Inl e | Inr strategy \<Rightarrow>
        case extract_seed_offset c of Inl e \<Rightarrow> Inl e | Inr off \<Rightarrow>
          Inr (map (\<lambda>o'. unit_of lf (Trial (generate_seed hash_seed strategy o' (gl_id lf)) (int o')) (map_option JsonInput (extract_shared_config c)))
                   [off..<off + n]))"

text \<open>
  The units of a call, by the leaf's pattern. Map-reduce splitting has its own theory; custom leafs upload
  their units instead.
\<close>

definition generation_plan :: "(uid \<Rightarrow> nat \<Rightarrow> int) \<Rightarrow> gen_leaf \<Rightarrow> param_space \<Rightarrow> nat \<Rightarrow> gen_unit list res option" where
  "generation_plan hash_seed lf space bs =
     (case gl_pattern lf of
        ParameterSweep \<Rightarrow> sweep_plan lf space bs
      | MonteCarlo \<Rightarrow> Some (trials_plan hash_seed lf space)
      | MapReduce \<Rightarrow> Some (Inl (ValidationError ''map_reduce generator not configured''))
      | CustomPattern \<Rightarrow> Some (Inl (OtherError ''INVALID_PATTERN_FOR_GENERATE'')))"

definition generate_through :: "(gen_batch \<Rightarrow> gen_unit list \<Rightarrow> ('s, unit) op) \<Rightarrow> (uid \<Rightarrow> ('s, nat) op) \<Rightarrow> gen_leaf
    \<Rightarrow> gen_unit list res \<Rightarrow> nat \<Rightarrow> ('s, nat) op" where
  "generate_through persist next_seq lf plan bs =
     (case plan of Inl e \<Rightarrow> othrow e
      | Inr us \<Rightarrow> if us = [] then oreturn 0
                  else obind (next_seq (gl_id lf)) (\<lambda>sq. persist_batches persist (gl_id lf) sq bs us))"

definition generate_units :: "(uid \<Rightarrow> nat \<Rightarrow> int) \<Rightarrow> gen_leaf \<Rightarrow> param_space \<Rightarrow> int \<Rightarrow> (gen_store, nat) op option" where
  "generate_units hash_seed lf space batch_size =
     (let bs = clamp_batch_size batch_size in
      map_option (\<lambda>plan. generate_through (\<lambda>b us. persist_batch b us None) next_sequence lf plan bs)
        (generation_plan hash_seed lf space bs))"

text \<open>The generate endpoint; a request without a parameter space takes the leaf's configuration.\<close>

definition handle_generate :: "(uid \<Rightarrow> nat \<Rightarrow> int) \<Rightarrow> gen_leaf \<Rightarrow> param_space \<Rightarrow> int \<Rightarrow> gen_store \<Rightarrow> (nat res \<times> gen_store) option" where
  "handle_generate hash_seed lf request batch_size s =
     (if gl_state lf \<noteq> LConfiguring \<and> gl_state lf \<noteq> LActive then Some (Inl (Conflict ''INVALID_STATE_TRANSITION''), s)
      else if gl_lazy lf then Some (Inl (Conflict ''LAZY_GENERATION_MANAGED''), s)
      else let space = (if request = [] then gl_config lf else request) in
        if space = [] then Some (Inl (ValidationError ''parameter_space is required''), s)
        else map_option (\<lambda>f. case f s of
                 (Inl e, s') \<Rightarrow> (Inl e, s')
               | (Inr n, s') \<Rightarrow> (if n = 0 then (Inl (Internal ''generation produced no batches''), s') else (Inr n, s')))
               (generate_units hash_seed lf space batch_size))"

section \<open>The lazy manager\<close>

text \<open>The wrapper of one tick: the store, whether the tick's batch was written, and the cursor it committed.\<close>

type_synonym tick_state = "gen_store \<times> bool \<times> cursor"

definition advanced_cursor :: "task_pattern \<Rightarrow> cursor \<Rightarrow> nat \<Rightarrow> cursor" where
  "advanced_cursor p c n =
     (let c1 = c\<lparr>gc_total := gc_total c + n\<rparr> in
      case p of MonteCarlo \<Rightarrow> c1\<lparr>gc_seed := gc_seed c + n\<rparr>
      | ParameterSweep \<Rightarrow> c1\<lparr>gc_offset := gc_offset c + n\<rparr>
      | _ \<Rightarrow> c1)"

definition tick_persist :: "gen_leaf \<Rightarrow> cursor \<Rightarrow> gen_batch \<Rightarrow> gen_unit list \<Rightarrow> (tick_state, unit) op" where
  "tick_persist lf prior b us = (\<lambda>(s, called, adv).
     if called then (Inl (OtherError ''tick emitted more than one batch''), (s, called, adv))
     else let next = advanced_cursor (gl_pattern lf) prior (length us) in
       case persist_batch b us (Some (gl_id lf, next, gc_total prior)) s of
         (Inl e, s') \<Rightarrow> (Inl e, (s', True, adv))
       | (Inr _, s') \<Rightarrow> (Inr (), (s', True, next)))"

definition tick_next :: "uid \<Rightarrow> (tick_state, nat) op" where
  "tick_next lf = (\<lambda>(s, t). case next_sequence lf s of (r, s') \<Rightarrow> (r, (s', t)))"

definition stored_num_trials :: "gen_leaf \<Rightarrow> int option" where
  "stored_num_trials lf = map_option go_int_of (to_float64 (map_of (gl_config lf) ''num_trials''))"

definition set_key :: "string \<Rightarrow> pval \<Rightarrow> param_space \<Rightarrow> param_space" where
  "set_key k v ps = (k, v) # filter (\<lambda>(a, x). a \<noteq> k) ps"

definition per_tick_trials :: "gen_leaf \<Rightarrow> cursor \<Rightarrow> int" where
  "per_tick_trials lf c =
     (if gl_ongoing lf then gl_batch_size lf
      else case stored_num_trials lf of None \<Rightarrow> gl_batch_size lf
      | Some n \<Rightarrow> let r = (if n - int (gc_seed c) < 0 then 0 else n - int (gc_seed c))
                  in if r < gl_batch_size lf then r else gl_batch_size lf)"

definition build_parameter_space :: "gen_leaf \<Rightarrow> cursor \<Rightarrow> param_space" where
  "build_parameter_space lf c =
     (case gl_pattern lf of
        ParameterSweep \<Rightarrow> set_key ''_offset'' (PNum (of_nat (gc_offset c))) (gl_config lf)
      | MonteCarlo \<Rightarrow> set_key ''num_trials'' (PNum (of_int (per_tick_trials lf c)))
                       (set_key ''seed_offset'' (PNum (of_nat (gc_seed c))) (gl_config lf))
      | _ \<Rightarrow> gl_config lf)"

definition mark_exhausted :: "uid \<Rightarrow> cursor \<Rightarrow> gen_store \<Rightarrow> gen_store" where
  "mark_exhausted lf c s = snd (update_cursor lf (c\<lparr>gc_exhausted := True\<rparr>) (gc_total c) s)"

text \<open>
  One tick of a leaf from the cursor its leader has read: the batch's transaction, with the number of units it
  generated and the cursor to stamp as exhausted when the space is spent, and the whole tick.
\<close>

definition tick_batch :: "(uid \<Rightarrow> nat \<Rightarrow> int) \<Rightarrow> gen_leaf \<Rightarrow> cursor \<Rightarrow> (gen_store, nat \<times> cursor option) op option" where
  "tick_batch hash_seed lf c =
     (if gl_state lf \<noteq> LActive \<or> \<not> gl_lazy lf \<or> gl_pattern lf = CustomPattern \<or> gl_pattern lf = MapReduce \<or> gc_exhausted c
      then Some (oreturn (0, None))
      else if gl_pattern lf = MonteCarlo \<and> \<not> gl_ongoing lf \<and> stored_num_trials lf = None then Some (oreturn (0, None))
      else if gl_pattern lf = MonteCarlo \<and> \<not> gl_ongoing lf \<and> the (stored_num_trials lf) - int (gc_seed c) \<le> 0
      then Some (oreturn (0, Some c))
      else let bs = clamp_batch_size (gl_batch_size lf) in
        map_option (\<lambda>plan s.
            case generate_through (tick_persist lf c) tick_next lf plan bs (s, False, c) of
              (Inl e, (s', _)) \<Rightarrow> (Inl e, s')
            | (Inr n, (s', _, adv)) \<Rightarrow>
                (Inr (n, if \<not> gl_ongoing lf \<and> int n < gl_batch_size lf then Some adv else None), s'))
          (generation_plan hash_seed lf (build_parameter_space lf c) bs))"

definition run_tick :: "(uid \<Rightarrow> nat \<Rightarrow> int) \<Rightarrow> gen_leaf \<Rightarrow> cursor \<Rightarrow> (gen_store, nat) op option" where
  "run_tick hash_seed lf c =
     map_option (\<lambda>f s. case f s of
         (Inl e, s') \<Rightarrow> (Inl e, s')
       | (Inr (n, None), s') \<Rightarrow> (Inr n, s')
       | (Inr (n, Some adv), s') \<Rightarrow> (Inr n, mark_exhausted (gl_id lf) adv s'))
       (tick_batch hash_seed lf c)"

definition check_and_generate :: "(uid \<Rightarrow> nat \<Rightarrow> int) \<Rightarrow> gen_leaf \<Rightarrow> gen_store \<Rightarrow> (nat res \<times> gen_store) option" where
  "check_and_generate hash_seed lf s = map_option (\<lambda>f. f s) (run_tick hash_seed lf (gs_cursor s (gl_id lf)))"

section \<open>Leafs that are enumerated\<close>

definition position :: "gen_leaf \<Rightarrow> cursor \<Rightarrow> nat" where
  "position lf c = (if gl_pattern lf = MonteCarlo then gc_seed c else gc_offset c)"

definition lazy_leaf :: "gen_leaf \<Rightarrow> bool" where
  "lazy_leaf lf \<longleftrightarrow> gl_state lf = LActive \<and> gl_lazy lf \<and> \<not> gl_ongoing lf \<and> 1 \<le> gl_batch_size lf \<and> gl_batch_size lf \<le> 100000"

definition sweep_leaf :: "gen_leaf \<Rightarrow> params \<Rightarrow> nat \<Rightarrow> bool" where
  "sweep_leaf lf ps n \<longleftrightarrow> gl_pattern lf = ParameterSweep
     \<and> parse_parameter_space (filter (\<lambda>(k, v). k \<noteq> ''_offset'') (gl_config lf)) = Some (Inr ps)
     \<and> total_combinations (sorted_keys ps) ps = Inr n \<and> 0 < n"

definition sweep_item :: "gen_leaf \<Rightarrow> params \<Rightarrow> nat \<Rightarrow> gen_unit" where
  "sweep_item lf ps i = unit_of lf (Combination (decode_combination (sorted_keys ps) ps i)) None"

definition trials_leaf :: "gen_leaf \<Rightarrow> string \<Rightarrow> nat \<Rightarrow> bool" where
  "trials_leaf lf st n \<longleftrightarrow> gl_pattern lf = MonteCarlo \<and> stored_num_trials lf = Some (int n)
     \<and> extract_seed_strategy (gl_config lf) = Inr st \<and> 0 < n"

definition trial_item :: "(uid \<Rightarrow> nat \<Rightarrow> int) \<Rightarrow> gen_leaf \<Rightarrow> string \<Rightarrow> nat \<Rightarrow> gen_unit" where
  "trial_item h lf st i =
     unit_of lf (Trial (generate_seed h st i (gl_id lf)) (int i)) (map_option JsonInput (extract_shared_config (gl_config lf)))"

text \<open>The leaf's \<open>n\<close> units in order, for the two patterns that can be generated lazily.\<close>

definition enumerated :: "(uid \<Rightarrow> nat \<Rightarrow> int) \<Rightarrow> gen_leaf \<Rightarrow> (nat \<Rightarrow> gen_unit) \<Rightarrow> nat \<Rightarrow> bool" where
  "enumerated h lf item n \<longleftrightarrow> lazy_leaf lf \<and>
     ((\<exists>ps. sweep_leaf lf ps n \<and> item = sweep_item lf ps) \<or> (\<exists>st. trials_leaf lf st n \<and> item = trial_item h lf st))"

lemma enumeratedD:
  assumes "enumerated h lf item n"
  shows "lazy_leaf lf" "0 < n" "gl_pattern lf = ParameterSweep \<or> gl_pattern lf = MonteCarlo" "\<And>i. gu_leaf (item i) = gl_id lf"
  using assms by (auto simp: enumerated_def sweep_leaf_def trials_leaf_def sweep_item_def trial_item_def unit_of_def)

lemma clamp_lazy: "lazy_leaf lf \<Longrightarrow> clamp_batch_size (gl_batch_size lf) = nat (gl_batch_size lf)"
  by (simp add: clamp_batch_size_def lazy_leaf_def)

lemma go_int_of_nat [simp]: "go_int_of (of_nat k) = int k" "go_int_of (of_int (int k)) = int k"
  by (simp_all add: go_int_of_def)

lemma map_of_set_key [simp]: "map_of (set_key k v ps) k' = (if k' = k then Some v else map_of ps k')"
proof -
  have "k' \<noteq> k \<Longrightarrow> map_of (filter (\<lambda>(a, x). a \<noteq> k) ps) k' = map_of ps k'" by (induction ps) auto
  then show ?thesis by (simp add: set_key_def)
qed

lemma filter_set_key: "filter (\<lambda>(a, x). a \<noteq> k) (set_key k v ps) = filter (\<lambda>(a, x). a \<noteq> k) ps"
  by (simp add: set_key_def conj_commute)

lemma plan_sweep:
  assumes "sweep_leaf lf ps n"
  shows "generation_plan h lf (build_parameter_space lf c) bs
       = Some (Inr (if gc_offset c \<ge> n then []
                    else map (sweep_item lf ps) [gc_offset c..<gc_offset c + min bs (n - gc_offset c)]))"
proof -
  have p: "build_parameter_space lf c = set_key ''_offset'' (PNum (of_nat (gc_offset c))) (gl_config lf)"
    using assms by (simp add: build_parameter_space_def sweep_leaf_def)
  have f: "filter (\<lambda>(k, v). k \<noteq> ''_offset'') (build_parameter_space lf c) = filter (\<lambda>(k, v). k \<noteq> ''_offset'') (gl_config lf)"
    unfolding p by (rule filter_set_key)
  have m: "map_of (build_parameter_space lf c) ''_offset'' = Some (PNum (of_nat (gc_offset c)))" by (simp add: p)
  show ?thesis
    using assms unfolding generation_plan_def sweep_plan_def f m sweep_leaf_def
    by (simp add: to_float64_def Let_def sweep_item_def [abs_def])
qed

lemma plan_trials:
  assumes "trials_leaf lf st n" "lazy_leaf lf" "gc_seed c < n"
  shows "generation_plan h lf (build_parameter_space lf c) bs
       = Some (Inr (map (trial_item h lf st) [gc_seed c..<gc_seed c + min (nat (gl_batch_size lf)) (n - gc_seed c)]))"
proof -
  define k where "k = min (nat (gl_batch_size lf)) (n - gc_seed c)"
  let ?m = "merge_config (build_parameter_space lf c) (gl_config lf)"
  have t: "per_tick_trials lf c = int k"
    using assms by (auto simp: per_tick_trials_def lazy_leaf_def trials_leaf_def Let_def k_def)
  have p: "build_parameter_space lf c = set_key ''num_trials'' (PNum (of_int (int k)))
                       (set_key ''seed_offset'' (PNum (of_nat (gc_seed c))) (gl_config lf))"
    using assms(1) t by (simp add: build_parameter_space_def trials_leaf_def)
  have m: "map_of ?m ''num_trials'' = Some (PNum (of_int (int k)))"
    "map_of ?m ''seed_offset'' = Some (PNum (of_nat (gc_seed c)))"
    "map_of ?m ''seed_strategy'' = map_of (gl_config lf) ''seed_strategy''"
    "map_of ?m ''shared_config'' = map_of (gl_config lf) ''shared_config''"
    by (simp_all add: merge_config_def p map_add_def split: option.splits)
  have k: "1 \<le> k" "k \<le> 100000" using assms by (auto simp: lazy_leaf_def k_def)
  have a: "extract_num_trials ?m = Inr k" unfolding extract_num_trials_def m using k by (simp add: to_float64_def Let_def)
  have b: "extract_seed_offset ?m = Inr (gc_seed c)" unfolding extract_seed_offset_def m by (simp add: to_float64_def)
  have s: "extract_seed_strategy ?m = Inr st" using assms(1) unfolding extract_seed_strategy_def m trials_leaf_def by simp
  have d: "extract_shared_config ?m = extract_shared_config (gl_config lf)" unfolding extract_shared_config_def m ..
  show ?thesis
    using assms(1) unfolding generation_plan_def trials_plan_def Let_def a b s d
    by (simp add: trials_leaf_def trial_item_def [abs_def] k_def)
qed


section \<open>The effect of a tick\<close>

abbreviation queued :: "gen_unit \<Rightarrow> gen_unit" where
  "queued u \<equiv> u\<lparr>gu_queued := True\<rparr>"

lemma persist_batches_single:
  "us \<noteq> [] \<Longrightarrow> length us \<le> bs \<Longrightarrow> persist_batches p lf sq bs us =
     obind (p \<lparr>gb_leaf = lf, gb_seq = sq, gb_total = length us\<rparr> us) (\<lambda>_. oreturn (length us))"
  by (auto simp: persist_batches.simps [of p lf sq bs us] persist_batches.simps [of p lf _ bs "[]"] obind_def fun_eq_iff
      split: prod.splits sum.splits)

definition after_batch :: "gen_leaf \<Rightarrow> cursor \<Rightarrow> gen_unit list \<Rightarrow> gen_store \<Rightarrow> gen_store" where
  "after_batch lf c us s =
     (let nxt = foldr max [gb_seq b. b \<leftarrow> gs_batches s, gb_leaf b = gl_id lf] 0 + 1
      in \<lparr>gs_batches = gs_batches s @ [\<lparr>gb_leaf = gl_id lf, gb_seq = nxt, gb_total = length us\<rparr>],
          gs_units = gs_units s @ map queued us,
          gs_cursor = (gs_cursor s)(gl_id lf := advanced_cursor (gl_pattern lf) c (length us))\<rparr>)"

lemma foldr_max_ge: "x \<in> set xs \<Longrightarrow> x \<le> foldr max xs (a::nat)"
  by (induction xs) (auto simp: le_max_iff_disj)

lemma next_sequence_fresh:
  assumes "next_sequence lf s = (Inr sq, s')" "b \<in> set (gs_batches s)" "gb_leaf b = lf"
  shows "gb_seq b < sq"
proof -
  have "gb_seq b \<in> set [gb_seq b. b \<leftarrow> gs_batches s, gb_leaf b = lf]" using assms(2,3) by auto
  from foldr_max_ge [OF this] show ?thesis using assms(1) by (auto simp: next_sequence_def less_Suc_eq_le)
qed


lemma persist_batch_tick:
  assumes "next_sequence (gl_id lf) s = (Inr sq, s)"
  shows "persist_batch \<lparr>gb_leaf = gl_id lf, gb_seq = sq, gb_total = length us\<rparr> us
             (Some (gl_id lf, advanced_cursor (gl_pattern lf) c (length us), gc_total c)) s
       = (if gc_total (gs_cursor s (gl_id lf)) = gc_total c then (Inr (), after_batch lf c us s)
          else (Inl (Conflict ''cursor''), s))"
proof -
  have "\<not> (\<exists>x\<in>set (gs_batches s). gb_leaf x = gl_id lf \<and> gb_seq x = sq)"
    using next_sequence_fresh [OF assms] by blast
  moreover have "sq = foldr max [gb_seq b. b \<leftarrow> gs_batches s, gb_leaf b = gl_id lf] 0 + 1"
    using assms by (simp add: next_sequence_def)
  ultimately show ?thesis
    by (simp add: persist_batch_def in_tx_def obind_def create_batch_def bulk_create_queued_def update_cursor_def
        after_batch_def Let_def)
qed

lemma next_sequence_pure: "\<exists>sq. next_sequence lf s = (Inr sq, s)"
  by (simp add: next_sequence_def)

lemma generate_through_tick:
  assumes "us \<noteq> []" "length us \<le> bs"
  shows "generate_through (tick_persist lf c) tick_next lf (Inr us) bs (s, False, c)
       = (if gc_total (gs_cursor s (gl_id lf)) = gc_total c
          then (Inr (length us), (after_batch lf c us s, True, advanced_cursor (gl_pattern lf) c (length us)))
          else (Inl (Conflict ''cursor''), (s, True, c)))"
proof -
  obtain sq where sq: "next_sequence (gl_id lf) s = (Inr sq, s)" using next_sequence_pure by blast
  show ?thesis
    using assms persist_batch_tick [OF sq, of us c]
    by (simp add: generate_through_def persist_batches_single obind_def tick_next_def sq tick_persist_def Let_def)
qed

definition tick_outcome :: "gen_leaf \<Rightarrow> (nat \<Rightarrow> gen_unit) \<Rightarrow> nat \<Rightarrow> cursor \<Rightarrow> (gen_store, nat \<times> cursor option) op" where
  "tick_outcome lf item n c s =
     (let t = gc_total c; k = min (nat (gl_batch_size lf)) (n - t); us = map item [t..<t + k] in
      if t \<ge> n then (Inr (0, Some c), s)
      else if gc_total (gs_cursor s (gl_id lf)) \<noteq> t then (Inl (Conflict ''cursor''), s)
      else (Inr (k, if k < nat (gl_batch_size lf) then Some (advanced_cursor (gl_pattern lf) c k) else None),
            after_batch lf c us s))"

lemma tick_batch_enumerated:
  assumes "enumerated h lf item n" "position lf c = gc_total c" "\<not> gc_exhausted c"
  shows "tick_batch h lf c = Some (tick_outcome lf item n c)"
proof -
  have lz: "lazy_leaf lf" and n: "0 < n" and p: "gl_pattern lf = ParameterSweep \<or> gl_pattern lf = MonteCarlo"
    using enumeratedD [OF assms(1)] by blast+
  define B where "B = nat (gl_batch_size lf)"
  define k where "k = min B (n - gc_total c)"
  have B: "int B = gl_batch_size lf" "0 < B" "clamp_batch_size (gl_batch_size lf) = B"
    using lz by (auto simp: B_def lazy_leaf_def clamp_batch_size_def)
  show ?thesis
  proof (cases "gc_total c \<ge> n")
    case True
    show ?thesis
    proof (cases "gl_pattern lf = MonteCarlo")
      case mc: True
      then obtain st where "trials_leaf lf st n" using assms(1) by (auto simp: enumerated_def sweep_leaf_def)
      then show ?thesis using mc True assms lz
        by (auto simp: tick_batch_def lazy_leaf_def trials_leaf_def position_def tick_outcome_def fun_eq_iff Let_def)
    next
      case False
      then obtain ps where "sweep_leaf lf ps n" using assms(1) by (auto simp: enumerated_def trials_leaf_def)
      from plan_sweep [OF this, of h c B] show ?thesis using False True assms lz p B
        by (auto simp: tick_batch_def lazy_leaf_def position_def tick_outcome_def fun_eq_iff generate_through_def Let_def)
    qed
  next
    case False
    then have kp: "0 < k" "k \<le> B" using B by (auto simp: k_def)
    have "generation_plan h lf (build_parameter_space lf c) B = Some (Inr (map item [gc_total c..<gc_total c + k]))"
    proof (cases "gl_pattern lf = MonteCarlo")
      case mc: True
      then obtain st where "trials_leaf lf st n" "item = trial_item h lf st"
        using assms(1) by (auto simp: enumerated_def sweep_leaf_def)
      then show ?thesis using plan_trials [of lf st n c h B] mc False assms(2) lz
        by (simp add: position_def k_def B_def)
    next
      case sw: False
      then obtain ps where "sweep_leaf lf ps n" "item = sweep_item lf ps"
        using assms(1) by (auto simp: enumerated_def trials_leaf_def)
      then show ?thesis using plan_sweep [of lf ps n h c B] sw False assms(2)
        by (simp add: position_def k_def)
    qed
    moreover have "map item [gc_total c..<gc_total c + k] \<noteq> []" "length (map item [gc_total c..<gc_total c + k]) = k"
      using kp by auto
    moreover have "\<not> (gl_pattern lf = MonteCarlo \<and> (stored_num_trials lf = None \<or> the (stored_num_trials lf) - int (gc_seed c) \<le> 0))"
      using False assms(1,2) by (auto simp: enumerated_def trials_leaf_def sweep_leaf_def position_def)
    ultimately have "tick_batch h lf c = Some (\<lambda>s.
        if gc_total (gs_cursor s (gl_id lf)) = gc_total c
        then (Inr (k, if int k < gl_batch_size lf then Some (advanced_cursor (gl_pattern lf) c k) else None),
              after_batch lf c (map item [gc_total c..<gc_total c + k]) s)
        else (Inl (Conflict ''cursor''), s))"
      using lz p assms(3) kp B
      by (auto simp: tick_batch_def lazy_leaf_def fun_eq_iff generate_through_tick Let_def)
    then show ?thesis using False B kp
      by (auto simp: tick_outcome_def fun_eq_iff Let_def k_def [symmetric] B_def [symmetric])
  qed
qed


section \<open>Concurrent leaders\<close>

text \<open>
  Leaders that overlap: each reads a leaf's cursor, later commits its tick's batch and later still stamps the cursor
  it was left with. A leader can be lost at any point, and the generate endpoint is called beside them, for any leaf.
\<close>

record lazy_state =
  ls_store :: gen_store
  ls_reads :: "(uid \<times> cursor) list"
  ls_stamps :: "(uid \<times> cursor) list"

inductive lazy_step :: "(uid \<Rightarrow> nat \<Rightarrow> int) \<Rightarrow> (uid \<Rightarrow> gen_leaf) \<Rightarrow> lazy_state \<Rightarrow> lazy_state \<Rightarrow> bool"
  for h L where
  leader_reads: "lazy_step h L st (st\<lparr>ls_reads := (l, gs_cursor (ls_store st) l) # ls_reads st\<rparr>)"
| leader_commits: "(l, c) \<in> set (ls_reads st) \<Longrightarrow> tick_batch h (L l) c = Some f \<Longrightarrow> f (ls_store st) = (Inr (k, stamp), s') \<Longrightarrow>
    lazy_step h L st \<lparr>ls_store = s', ls_reads = remove1 (l, c) (ls_reads st),
       ls_stamps = (case stamp of None \<Rightarrow> ls_stamps st | Some a \<Rightarrow> (l, a) # ls_stamps st)\<rparr>"
| leader_fails: "(l, c) \<in> set (ls_reads st) \<Longrightarrow> tick_batch h (L l) c = Some f \<Longrightarrow> f (ls_store st) = (Inl e, s') \<Longrightarrow>
    lazy_step h L st \<lparr>ls_store = s', ls_reads = remove1 (l, c) (ls_reads st), ls_stamps = ls_stamps st\<rparr>"
| leader_stamps: "(l, c) \<in> set (ls_stamps st) \<Longrightarrow>
    lazy_step h L st (st\<lparr>ls_store := mark_exhausted l c (ls_store st), ls_stamps := remove1 (l, c) (ls_stamps st)\<rparr>)"
| leader_lost: "lazy_step h L st (st\<lparr>ls_reads := remove1 r (ls_reads st), ls_stamps := remove1 x (ls_stamps st)\<rparr>)"
| eager_generates: "handle_generate h (L l) space b (ls_store st) = Some (r, s') \<Longrightarrow>
    lazy_step h L st (st\<lparr>ls_store := s'\<rparr>)"

definition lazy_init :: lazy_state where
  "lazy_init = \<lparr>ls_store = \<lparr>gs_batches = [], gs_units = [], gs_cursor = (\<lambda>_. zero_cursor)\<rparr>, ls_reads = [], ls_stamps = []\<rparr>"

inductive lazy_reachable :: "(uid \<Rightarrow> nat \<Rightarrow> int) \<Rightarrow> (uid \<Rightarrow> gen_leaf) \<Rightarrow> lazy_state \<Rightarrow> bool" for h L where
  lazy_start: "lazy_reachable h L lazy_init"
| lazy_next: "lazy_reachable h L st \<Longrightarrow> lazy_step h L st st' \<Longrightarrow> lazy_reachable h L st'"

text \<open>What another leaf's generation leaves alone.\<close>

definition leaf_view :: "uid \<Rightarrow> gen_store \<Rightarrow> gen_unit list \<times> cursor" where
  "leaf_view l s = (filter (\<lambda>u. gu_leaf u = l) (gs_units s), gs_cursor s l)"

lemma persist_batches_keeps:
  assumes "\<And>b us s r s'. set us \<subseteq> U \<Longrightarrow> persist b us s = (r, s') \<Longrightarrow> V s' = V s"
    and "set us \<subseteq> U" "persist_batches persist lf sq bs us s = (r, s')"
  shows "V s' = V s"
  using assms(2,3)
proof (induction "length us" arbitrary: us sq s r s' rule: less_induct)
  case less
  show ?case
  proof (cases "us = [] \<or> bs = 0")
    case True
    then show ?thesis using less.prems by (auto simp: persist_batches.simps)
  next
    case False
    have t: "set (take bs us) \<subseteq> U" "set (drop bs us) \<subseteq> U" using less.prems(1) set_take_subset set_drop_subset by fast+
    obtain r1 s1 where a: "persist \<lparr>gb_leaf = lf, gb_seq = sq, gb_total = length (take bs us)\<rparr> (take bs us) s = (r1, s1)" by fastforce
    obtain r2 s2 where b: "persist_batches persist lf (sq + 1) bs (drop bs us) s1 = (r2, s2)" by fastforce
    have v: "V s1 = V s" by (rule assms(1) [OF t(1) a])
    have "length (drop bs us) < length us" using False by simp
    from less.hyps [OF this t(2) b] have v2: "V s2 = V s1" .
    show ?thesis using less.prems(2) False a b v v2
      by (auto simp: persist_batches.simps [of _ _ _ _ us] obind_def split: sum.splits)
  qed
qed

lemma generate_through_keeps:
  assumes "\<And>b us s r s'. set us \<subseteq> U \<Longrightarrow> persist b us s = (r, s') \<Longrightarrow> V s' = V s"
    and "\<And>l s r s'. nxt l s = (r, s') \<Longrightarrow> V s' = V s"
    and "\<And>us. plan = Inr us \<Longrightarrow> set us \<subseteq> U" "generate_through persist nxt lf plan bs s = (r, s')"
  shows "V s' = V s"
proof (cases plan)
  case (Inr us)
  obtain q s1 where n: "nxt (gl_id lf) s = (q, s1)" by fastforce
  show ?thesis
    using assms(4) Inr n assms(2) [OF n] persist_batches_keeps [where persist = persist and V = V and U = U, OF assms(1) assms(3) [OF Inr]]
    by (auto simp: generate_through_def obind_def split: if_splits sum.splits)
qed (use assms(4) in \<open>simp add: generate_through_def\<close>)

lemma generation_plan_leaf:
  "generation_plan h lf space bs = Some (Inr us) \<Longrightarrow> u \<in> set us \<Longrightarrow> gu_leaf u = gl_id lf"
  by (auto simp: generation_plan_def sweep_plan_def trials_plan_def unit_of_def Let_def
      split: task_pattern.splits option.splits sum.splits if_splits)


lemma persist_batch_view:
  assumes "persist_batch b us adv s = (r, s')" "\<forall>u\<in>set us. gu_leaf u \<noteq> l" "\<And>x c k. adv = Some (x, c, k) \<Longrightarrow> x \<noteq> l"
  shows "leaf_view l s' = leaf_view l s"
proof -
  have "filter (\<lambda>u. gu_leaf u = l) (map queued us) = []" using assms(2) by (auto simp: filter_empty_conv)
  then show ?thesis using assms(1,3)
    by (auto simp: persist_batch_def in_tx_def obind_def create_batch_def bulk_create_queued_def update_cursor_def leaf_view_def
        filter_map split: if_splits option.splits)
qed

lemma generate_units_view:
  assumes "generate_units h lf space b = Some f" "f s = (r, s')" "gl_id lf \<noteq> l"
  shows "leaf_view l s' = leaf_view l s"
proof -
  obtain plan where p: "generation_plan h lf space (clamp_batch_size b) = Some plan"
    and f: "f = generate_through (\<lambda>b us. persist_batch b us None) next_sequence lf plan (clamp_batch_size b)"
    using assms(1) by (auto simp: generate_units_def Let_def)
  have k: "leaf_view l t' = leaf_view l t"
    if "set us \<subseteq> {u. gu_leaf u = gl_id lf}" "persist_batch x us None t = (q, t')" for x us t q t'
    by (rule persist_batch_view [OF that(2)]) (use that(1) assms(3) in auto)
  show ?thesis
  proof (rule generate_through_keeps [where U = "{u. gu_leaf u = gl_id lf}" and V = "leaf_view l"])
    show "generate_through (\<lambda>b us. persist_batch b us None) next_sequence lf plan (clamp_batch_size b) s = (r, s')"
      using assms(2) f by simp
    show "\<And>us. plan = Inr us \<Longrightarrow> set us \<subseteq> {u. gu_leaf u = gl_id lf}" using generation_plan_leaf p by auto
    show "\<And>l' s r s'. next_sequence l' s = (r, s') \<Longrightarrow> leaf_view l s' = leaf_view l s" by (auto simp: next_sequence_def)
  qed (rule k)
qed

lemma handle_generate_view:
  assumes "handle_generate h lf space b s = Some (r, s')" "gl_id lf \<noteq> l \<or> gl_lazy lf"
  shows "leaf_view l s' = leaf_view l s"
  using assms generate_units_view [where l = l and h = h and lf = lf and b = b and s = s]
  by (auto simp: handle_generate_def Let_def split: if_splits sum.splits prod.splits)

lemma tick_batch_view:
  assumes "tick_batch h lf c = Some f" "f s = (r, s')" "gl_id lf \<noteq> l"
  shows "leaf_view l s' = leaf_view l s"
proof (cases "\<exists>x. f = oreturn x")
  case True
  then show ?thesis using assms(2) by auto
next
  case False
  let ?bs = "clamp_batch_size (gl_batch_size lf)"
  let ?g = "\<lambda>plan s. generate_through (tick_persist lf c) tick_next lf plan ?bs (s, False, c)"
  obtain plan where p: "generation_plan h lf (build_parameter_space lf c) ?bs = Some plan"
    and f: "fst (snd (?g plan s)) = s'"
    using assms(1,2) False by (auto simp: tick_batch_def Let_def split: if_splits sum.splits prod.splits)
  obtain q t where g: "?g plan s = (q, t)" using surj_pair [of "?g plan s"] by blast
  have k: "leaf_view l (fst y') = leaf_view l (fst y)"
    if "set us \<subseteq> {u. gu_leaf u = gl_id lf}" "tick_persist lf c x us y = (e, y')" for x us y e y'
  proof (cases y)
    case (fields t called adv)
    obtain e' t' where b: "persist_batch x us (Some (gl_id lf, advanced_cursor (gl_pattern lf) c (length us), gc_total c)) t = (e', t')"
      by fastforce
    have "leaf_view l t' = leaf_view l t" by (rule persist_batch_view [OF b]) (use that(1) assms(3) in auto)
    then show ?thesis using that(2) b fields by (auto simp: tick_persist_def Let_def split: if_splits sum.splits)
  qed
  have "leaf_view l (fst t) = leaf_view l (fst (s, False, c))"
  proof (rule generate_through_keeps [where U = "{u. gu_leaf u = gl_id lf}" and V = "leaf_view l \<circ> fst", unfolded comp_def])
    show "?g plan s = (q, t)" by (rule g)
    show "\<And>us. plan = Inr us \<Longrightarrow> set us \<subseteq> {u. gu_leaf u = gl_id lf}" using generation_plan_leaf p by auto
    show "\<And>l' s r s'. tick_next l' s = (r, s') \<Longrightarrow> leaf_view l (fst s') = leaf_view l (fst s)"
      by (auto simp: tick_next_def next_sequence_def)
  qed (rule k)
  then show ?thesis using f g by simp
qed

text \<open>What holds of an enumerated leaf whatever leaders have done.\<close>

definition cursor_ok :: "gen_leaf \<Rightarrow> nat \<Rightarrow> cursor \<Rightarrow> bool" where
  "cursor_ok lf n c \<longleftrightarrow> position lf c = gc_total c \<and> gc_total c \<le> n \<and> (gc_exhausted c \<longrightarrow> gc_total c = n)"

definition lazy_inv :: "gen_leaf \<Rightarrow> (nat \<Rightarrow> gen_unit) \<Rightarrow> nat \<Rightarrow> lazy_state \<Rightarrow> bool" where
  "lazy_inv lf item n st \<longleftrightarrow>
     (let l = gl_id lf; c = gs_cursor (ls_store st) l in
      cursor_ok lf n c
      \<and> filter (\<lambda>u. gu_leaf u = l) (gs_units (ls_store st)) = map (queued \<circ> item) [0..<gc_total c]
      \<and> (\<forall>(l', c')\<in>set (ls_reads st). l' = l \<longrightarrow> cursor_ok lf n c')
      \<and> (\<forall>(l', c')\<in>set (ls_stamps st). l' = l \<longrightarrow> cursor_ok lf n c' \<and> gc_total c' = n))"

lemma lazy_inv_view:
  assumes "lazy_inv lf item n st" "leaf_view (gl_id lf) (ls_store st') = leaf_view (gl_id lf) (ls_store st)"
    "set (ls_reads st') \<subseteq> set (ls_reads st)"
    "\<And>c. (gl_id lf, c) \<in> set (ls_stamps st') \<Longrightarrow> (gl_id lf, c) \<in> set (ls_stamps st)"
  shows "lazy_inv lf item n st'"
  using assms unfolding lazy_inv_def leaf_view_def Let_def by (simp add: split_beta) (metis subsetD surjective_pairing)


lemma mark_exhausted_enumerated:
  assumes "cursor_ok lf n c" "gc_total c = n" "cursor_ok lf n (gs_cursor s (gl_id lf))"
  shows "gs_units (mark_exhausted (gl_id lf) c s) = gs_units s
     \<and> gc_total (gs_cursor (mark_exhausted (gl_id lf) c s) (gl_id lf)) = gc_total (gs_cursor s (gl_id lf))
     \<and> cursor_ok lf n (gs_cursor (mark_exhausted (gl_id lf) c s) (gl_id lf))"
  using assms by (auto simp: mark_exhausted_def update_cursor_def cursor_ok_def position_def)

lemma mark_exhausted_view: "l' \<noteq> l \<Longrightarrow> leaf_view l (mark_exhausted l' c s) = leaf_view l s"
  by (auto simp: mark_exhausted_def update_cursor_def leaf_view_def)

lemma advanced_cursor_ok:
  assumes "enumerated h lf item n" "position lf c = gc_total c" "\<not> gc_exhausted c" "gc_total c + k \<le> n"
  shows "cursor_ok lf n (advanced_cursor (gl_pattern lf) c k) \<and> gc_total (advanced_cursor (gl_pattern lf) c k) = gc_total c + k"
  using assms enumeratedD(3) [OF assms(1)] by (auto simp: cursor_ok_def advanced_cursor_def position_def Let_def)

lemma after_batch_units:
  assumes "enumerated h lf item n" "filter (\<lambda>u. gu_leaf u = gl_id lf) (gs_units s) = map (queued \<circ> item) [0..<t]"
  shows "filter (\<lambda>u. gu_leaf u = gl_id lf) (gs_units (after_batch lf c (map item [t..<t + k]) s)) = map (queued \<circ> item) [0..<t + k]"
proof -
  have "filter (\<lambda>u. gu_leaf u = gl_id lf) (map queued (map item [t..<t + k])) = map (queued \<circ> item) [t..<t + k]"
    using enumeratedD(4) [OF assms(1)] by (simp add: filter_map filter_True comp_def)
  then show ?thesis using assms(2) by (simp add: after_batch_def Let_def upt_add_eq_append [of 0])
qed

lemma lazy_inv_commit:
  assumes inv: "lazy_inv lf item n st" and e: "enumerated h lf item n" and c: "(gl_id lf, c) \<in> set (ls_reads st)"
    and f: "tick_batch h lf c = Some f" "f (ls_store st) = (r, s')"
    and st': "ls_store st' = s'" "set (ls_reads st') \<subseteq> set (ls_reads st)"
      "set (ls_stamps st') \<subseteq> set (ls_stamps st) \<union> (case r of Inr (k, Some a) \<Rightarrow> {(gl_id lf, a)} | _ \<Rightarrow> {})"
  shows "lazy_inv lf item n st'"
proof -
  let ?l = "gl_id lf" and ?s = "ls_store st"
  have cc: "cursor_ok lf n c" using inv c by (auto simp: lazy_inv_def Let_def)
  show ?thesis
  proof (cases "gc_exhausted c")
    case True
    then have "f = oreturn (0, None)" using f(1) by (simp add: tick_batch_def)
    then have "s' = ?s" "r = Inr (0, None)" using f(2) by auto
    then show ?thesis using st' by (intro lazy_inv_view [OF inv]) auto
  next
    case False
    from tick_batch_enumerated [OF e _ False] cc f have o: "tick_outcome lf item n c ?s = (r, s')"
      by (simp add: cursor_ok_def)
    let ?t = "gc_total c"
    define k where "k = min (nat (gl_batch_size lf)) (n - ?t)"
    consider "?t \<ge> n" "r = Inr (0, Some c)" "s' = ?s"
      | "?t < n" "gc_total (gs_cursor ?s ?l) \<noteq> ?t" "r = Inl (Conflict ''cursor'')" "s' = ?s"
      | "?t < n" "gc_total (gs_cursor ?s ?l) = ?t" "s' = after_batch lf c (map item [?t..<?t + k]) ?s"
        "r = Inr (k, if k < nat (gl_batch_size lf) then Some (advanced_cursor (gl_pattern lf) c k) else None)"
      using o by (auto simp: tick_outcome_def Let_def k_def split: if_splits)
    then show ?thesis
    proof cases
      case 1
      then have "gc_total c = n" using cc by (simp add: cursor_ok_def)
      then show ?thesis using inv st' 1 cc unfolding lazy_inv_def Let_def by (auto 0 3)
    next
      case 2
      then show ?thesis using st' by (intro lazy_inv_view [OF inv]) auto
    next
      case 3
      have a: "cursor_ok lf n (advanced_cursor (gl_pattern lf) c k) \<and> gc_total (advanced_cursor (gl_pattern lf) c k) = ?t + k"
        using cc 3(1) False by (intro advanced_cursor_ok [OF e]) (auto simp: cursor_ok_def k_def)
      have cur: "gs_cursor s' ?l = advanced_cursor (gl_pattern lf) c k" using 3 by (simp add: after_batch_def Let_def)
      have u: "filter (\<lambda>u. gu_leaf u = ?l) (gs_units s') = map (queued \<circ> item) [0..<?t + k]"
        unfolding 3(3) by (rule after_batch_units [OF e]) (use inv 3(2) in \<open>auto simp: lazy_inv_def Let_def\<close>)
      have "?t + k = n" if "k < nat (gl_batch_size lf)" using that 3(1) by (auto simp: k_def)
      then have "\<forall>(l', c')\<in>set (ls_stamps st'). l' = ?l \<longrightarrow> cursor_ok lf n c' \<and> gc_total c' = n"
        using inv st'(3) a 3(4) by (auto simp: lazy_inv_def Let_def split: if_splits)
      moreover have "\<forall>(l', c')\<in>set (ls_reads st'). l' = ?l \<longrightarrow> cursor_ok lf n c'"
        using inv st'(2) by (auto simp: lazy_inv_def Let_def)
      ultimately show ?thesis using st'(1) cur u a by (simp add: lazy_inv_def)
    qed
  qed
qed

lemma in_set_remove1_D: "x \<in> set (remove1 y xs) \<Longrightarrow> x \<in> set xs"
  using set_remove1_subset by fast

lemma lazy_inv_step:
  assumes ids: "\<forall>l. gl_id (L l) = l" and e: "enumerated h (L l) item n" and inv: "lazy_inv (L l) item n st"
    and "lazy_step h L st st'"
  shows "lazy_inv (L l) item n st'"
  using assms(4)
proof cases
  case (leader_reads l')
  then show ?thesis using inv ids by (auto simp: lazy_inv_def Let_def)
next
  case (leader_commits l' c f k stamp s')
  show ?thesis
  proof (cases "l' = l")
    case True
    show ?thesis
      by (rule lazy_inv_commit [where c = c and f = f and r = "Inr (k, stamp)" and s' = s', OF inv e])
        (use leader_commits ids True in \<open>auto dest: in_set_remove1_D split: option.splits\<close>)
  next
    case False
    have "leaf_view (gl_id (L l)) (ls_store st') = leaf_view (gl_id (L l)) (ls_store st)"
      using tick_batch_view [OF leader_commits(3,4), of l] False ids leader_commits(1) by auto
    then show ?thesis using leader_commits(1) False ids
      by (intro lazy_inv_view [OF inv]) (auto dest: in_set_remove1_D split: option.splits)
  qed
next
  case (leader_fails l' c f er s')
  show ?thesis
  proof (cases "l' = l")
    case True
    show ?thesis
      by (rule lazy_inv_commit [where c = c and f = f and r = "Inl er" and s' = s', OF inv e])
        (use leader_fails ids True in \<open>auto dest: in_set_remove1_D\<close>)
  next
    case False
    have "leaf_view (gl_id (L l)) (ls_store st') = leaf_view (gl_id (L l)) (ls_store st)"
      using tick_batch_view [OF leader_fails(3,4), of l] False ids leader_fails(1) by auto
    then show ?thesis using leader_fails(1)
      by (intro lazy_inv_view [OF inv]) (auto dest: in_set_remove1_D)
  qed
next
  case (leader_stamps l' c)
  show ?thesis
  proof (cases "l' = l")
    case True
    then have "cursor_ok (L l) n c \<and> gc_total c = n" using inv leader_stamps ids by (auto simp: lazy_inv_def Let_def)
    moreover have "cursor_ok (L l) n (gs_cursor (ls_store st) (gl_id (L l)))" using inv by (simp add: lazy_inv_def Let_def)
    ultimately show ?thesis using inv leader_stamps True mark_exhausted_enumerated [of "L l" n c "ls_store st"] ids
      by (auto simp: lazy_inv_def Let_def dest: in_set_remove1_D)
  next
    case False
    then show ?thesis using leader_stamps ids
      by (intro lazy_inv_view [OF inv]) (auto simp: mark_exhausted_view dest: in_set_remove1_D)
  qed
next
  case (leader_lost r x)
  then show ?thesis by (intro lazy_inv_view [OF inv]) (auto dest: in_set_remove1_D)
next
  case (eager_generates l' space b r s')
  have "gl_lazy (L l)" using e by (auto simp: enumerated_def lazy_leaf_def)
  then have "leaf_view l s' = leaf_view l (ls_store st)"
    using handle_generate_view [OF eager_generates(2), of l] ids by auto
  then show ?thesis using eager_generates(1) ids by (intro lazy_inv_view [OF inv]) auto
qed

lemma lazy_inv_reachable:
  assumes "\<forall>l. gl_id (L l) = l" "enumerated h (L l) item n" "lazy_reachable h L st"
  shows "lazy_inv (L l) item n st"
  using assms(3)
proof induction
  case lazy_start
  show ?case by (simp add: lazy_inv_def lazy_init_def cursor_ok_def zero_cursor_def position_def)
next
  case (lazy_next st st')
  show ?case by (rule lazy_inv_step [OF assms(1,2) lazy_next(3,2)])
qed


text \<open>C21. Overlapping leaders of the lazy manager neither skip nor repeat a work unit: whatever reads, commits, guard
  misses, exhaustion stamps and lost leaders have happened, a finite leaf's stored units are exactly the queued images
  of as many first combinations or trials as its cursor counts, in order and once each, the cursor never passes the end of the
  space, and it is stamped exhausted only when the whole space is stored.\<close>

theorem leaders_never_duplicate_or_skip:
  assumes "\<forall>l. gl_id (L l) = l" "enumerated h (L l) item n" "lazy_reachable h L st"
  shows "filter (\<lambda>u. gu_leaf u = l) (gs_units (ls_store st))
           = map (queued \<circ> item) [0..<gc_total (gs_cursor (ls_store st) l)]
       \<and> gc_total (gs_cursor (ls_store st) l) \<le> n
       \<and> (gc_exhausted (gs_cursor (ls_store st) l) \<longrightarrow> gc_total (gs_cursor (ls_store st) l) = n)"
  using lazy_inv_reachable [OF assms] assms(1) by (simp add: lazy_inv_def cursor_ok_def Let_def)

definition three_trials :: "uid \<Rightarrow> gen_leaf" where
  "three_trials l = \<lparr>gl_id = l, gl_pattern = MonteCarlo, gl_state = LActive, gl_lazy = True, gl_ongoing = False,
     gl_threshold = 10, gl_batch_size = 2, gl_config = [(''num_trials'', PNum 3)], gl_artifact = ''a'', gl_deadline = 60,
     gl_max_reassignments = 3, gl_strategy = None, gl_max_input = 1048576\<rparr>"

lemma three_trials_enumerated: "enumerated (\<lambda>_ _. 0) (three_trials l) (trial_item (\<lambda>_ _. 0) (three_trials l) ''sequential'') 3"
  by (simp add: enumerated_def lazy_leaf_def trials_leaf_def three_trials_def stored_num_trials_def extract_seed_strategy_def
      to_float64_def go_int_of_def)

definition two_leaders :: lazy_state where
  "two_leaders = \<lparr>ls_store = \<lparr>gs_batches = [\<lparr>gb_leaf = ''L'', gb_seq = 1, gb_total = 2\<rparr>],
       gs_units = map (queued \<circ> trial_item (\<lambda>_ _. 0) (three_trials ''L'') ''sequential'') [0..<2],
       gs_cursor = (\<lambda>_. zero_cursor)(''L'' := \<lparr>gc_offset = 0, gc_seed = 2, gc_total = 2, gc_exhausted = False\<rparr>)\<rparr>,
     ls_reads = [(''L'', zero_cursor)], ls_stamps = []\<rparr>"

lemma two_leaders_reachable: "lazy_reachable (\<lambda>_ _. 0) three_trials two_leaders"
proof -
  let ?h = "\<lambda>_ _. 0" and ?item = "trial_item (\<lambda>_ _. 0) (three_trials ''L'') ''sequential''"
  let ?r = "lazy_init\<lparr>ls_reads := [(''L'', zero_cursor), (''L'', zero_cursor)]\<rparr>"
  have "lazy_step ?h three_trials lazy_init (lazy_init\<lparr>ls_reads := [(''L'', zero_cursor)]\<rparr>)"
    using leader_reads [of ?h three_trials lazy_init "''L''"] by (simp add: lazy_init_def)
  moreover have "lazy_step ?h three_trials (lazy_init\<lparr>ls_reads := [(''L'', zero_cursor)]\<rparr>) ?r"
    using leader_reads [of ?h three_trials "lazy_init\<lparr>ls_reads := [(''L'', zero_cursor)]\<rparr>" "''L''"] by (simp add: lazy_init_def)
  ultimately have r: "lazy_reachable ?h three_trials ?r" by (meson lazy_start lazy_next)
  have t: "tick_batch ?h (three_trials ''L'') zero_cursor = Some (tick_outcome (three_trials ''L'') ?item 3 zero_cursor)"
    by (rule tick_batch_enumerated [OF three_trials_enumerated]) (simp_all add: position_def zero_cursor_def)
  have o: "tick_outcome (three_trials ''L'') ?item 3 zero_cursor (ls_store ?r) = (Inr (2, None), ls_store two_leaders)"
    by (simp add: tick_outcome_def Let_def zero_cursor_def lazy_init_def three_trials_def two_leaders_def after_batch_def
        advanced_cursor_def upt_rec comp_def eval_nat_numeral)
  have m: "(''L'', zero_cursor) \<in> set (ls_reads ?r)" by (simp add: lazy_init_def)
  have "lazy_step ?h three_trials ?r \<lparr>ls_store = ls_store two_leaders,
      ls_reads = remove1 (''L'', zero_cursor) (ls_reads ?r), ls_stamps = (case None of None \<Rightarrow> ls_stamps ?r | Some a \<Rightarrow> (''L'', a) # ls_stamps ?r)\<rparr>"
    by (rule leader_commits [where L = three_trials and k = 2]) (rule m, rule t, rule o)
  then have "lazy_step ?h three_trials ?r two_leaders" by (simp add: two_leaders_def lazy_init_def)
  then show ?thesis by (rule lazy_next [OF r])
qed

theorem leaders_never_duplicate_or_skip_witness:
  "filter (\<lambda>u. gu_leaf u = ''L'') (gs_units (ls_store two_leaders))
     = map (queued \<circ> trial_item (\<lambda>_ _. 0) (three_trials ''L'') ''sequential'') [0..<2]"
proof -
  have "\<forall>l. gl_id (three_trials l) = l" by (simp add: three_trials_def)
  from leaders_never_duplicate_or_skip [OF this three_trials_enumerated [of "''L''"] two_leaders_reachable]
  show ?thesis by (simp add: two_leaders_def)
qed


section \<open>The sinks\<close>

interpretation eager_sink: batch_sink "\<lambda>b us. persist_batch b us None" next_sequence gs_units
proof unfold_locales
  fix b us s s' assume "persist_batch b us None s = (Inr (), s')"
  then show "gs_units s' = gs_units s @ map queued us"
    by (auto simp: persist_batch_def in_tx_Inr obind_eq_Inr create_batch_def bulk_create_queued_def split: if_splits)
qed (auto simp: next_sequence_def)

interpretation tick_sink: batch_sink "tick_persist lf c" tick_next "gs_units \<circ> fst" for lf c
proof unfold_locales
  fix b us s s' assume "tick_persist lf c b us s = (Inr (), s')"
  then show "(gs_units \<circ> fst) s' = (gs_units \<circ> fst) s @ map queued us"
    by (cases s) (auto simp: tick_persist_def Let_def persist_batch_def in_tx_def obind_def create_batch_def bulk_create_queued_def
        update_cursor_def split: if_splits)
qed (auto simp: tick_next_def next_sequence_def split: prod.splits)

text \<open>The batches of one eager call never collide with each other or with those before them.\<close>

lemma persist_batches_total:
  assumes "\<forall>b\<in>set (gs_batches s). gb_leaf b = lf \<longrightarrow> gb_seq b < sq" "0 < bs"
  shows "\<exists>s'. persist_batches (\<lambda>b us. persist_batch b us None) lf sq bs us s = (Inr (length us), s')"
  using assms(1)
proof (induction "length us" arbitrary: us sq s rule: less_induct)
  case less
  show ?case
  proof (cases "us = []")
    case True
    then show ?thesis by (simp add: persist_batches.simps)
  next
    case False
    let ?b = "\<lparr>gb_leaf = lf, gb_seq = sq, gb_total = length (take bs us)\<rparr>"
    have "\<not> (\<exists>x\<in>set (gs_batches s). gb_leaf x = lf \<and> gb_seq x = sq)" using less.prems by auto
    then obtain s1 where p: "persist_batch ?b (take bs us) None s = (Inr (), s1)" and g: "gs_batches s1 = gs_batches s @ [?b]"
      by (simp add: persist_batch_def in_tx_def obind_def create_batch_def bulk_create_queued_def)
    have l: "length (drop bs us) < length us" using False assms(2) by simp
    have "\<forall>b\<in>set (gs_batches s1). gb_leaf b = lf \<longrightarrow> gb_seq b < sq + 1" using less.prems g by auto
    from less.hyps [OF l this] obtain s' where
      "persist_batches (\<lambda>b us. persist_batch b us None) lf (sq + 1) bs (drop bs us) s1 = (Inr (length (drop bs us)), s')" ..
    then show ?thesis using False assms(2) p by (simp add: persist_batches.simps [of _ _ _ _ us])
  qed
qed

lemma eager_stores_the_plan:
  assumes "generation_plan h lf space (clamp_batch_size b) = Some (Inr us)"
  shows "\<exists>f s'. generate_units h lf space b = Some f \<and> f s = (Inr (length us), s') \<and> gs_units s' = gs_units s @ map queued us"
proof (cases "us = []")
  case True
  then show ?thesis using assms by (simp add: generate_units_def Let_def generate_through_def)
next
  case False
  let ?bs = "clamp_batch_size b"
  have bs: "0 < ?bs" by (simp add: clamp_batch_size_def Let_def)
  obtain sq where sq: "next_sequence (gl_id lf) s = (Inr sq, s)" using next_sequence_pure by blast
  have fr: "\<forall>x\<in>set (gs_batches s). gb_leaf x = gl_id lf \<longrightarrow> gb_seq x < sq" using next_sequence_fresh [OF sq] by blast
  obtain s' where p: "persist_batches (\<lambda>b us. persist_batch b us None) (gl_id lf) sq ?bs us s = (Inr (length us), s')"
    using persist_batches_total [OF fr bs] by blast
  show ?thesis
    using assms False sq p eager_sink.persist_batches_units [OF p bs]
    by (simp add: generate_units_def Let_def generate_through_def)
qed

section \<open>Running to the end\<close>

primrec ticks :: "(uid \<Rightarrow> nat \<Rightarrow> int) \<Rightarrow> gen_leaf \<Rightarrow> nat \<Rightarrow> gen_store \<Rightarrow> gen_store option" where
  "ticks h lf 0 s = Some s"
| "ticks h lf (Suc m) s = Option.bind (ticks h lf m s) (\<lambda>s. map_option snd (check_and_generate h lf s))"

lemma ticks_progress:
  assumes e: "enumerated h lf item n" and z: "gs_cursor s (gl_id lf) = zero_cursor"
  shows "\<exists>s'. ticks h lf m s = Some s' \<and> (let c = gs_cursor s' (gl_id lf); B = nat (gl_batch_size lf) in
     cursor_ok lf n c \<and> gc_total c = min n (m * B) \<and> (gc_exhausted c \<longleftrightarrow> n < m * B)
     \<and> gs_units s' = gs_units s @ map (queued \<circ> item) [0..<gc_total c])"
proof (induction m)
  case 0
  then show ?case using z by (simp add: cursor_ok_def zero_cursor_def position_def)
next
  case (Suc m)
  define B where "B = nat (gl_batch_size lf)"
  obtain s1 c where s1: "ticks h lf m s = Some s1" and c: "c = gs_cursor s1 (gl_id lf)" "cursor_ok lf n c"
    "gc_total c = min n (m * B)" "gc_exhausted c \<longleftrightarrow> n < m * B" "gs_units s1 = gs_units s @ map (queued \<circ> item) [0..<gc_total c]"
    using Suc.IH by (auto simp: Let_def B_def)
  have B: "0 < B" using enumeratedD(1) [OF e] by (simp add: lazy_leaf_def B_def)
  show ?case
  proof (cases "gc_exhausted c")
    case True
    then have "run_tick h lf c = Some (\<lambda>s. (Inr 0, s))" by (simp add: run_tick_def tick_batch_def fun_eq_iff)
    then show ?thesis using s1 c True by (auto simp: check_and_generate_def Let_def B_def [symmetric])
  next
    case False
    let ?t = "gc_total c"
    define k where "k = min B (n - ?t)"
    have pt: "position lf c = ?t" using c(2) by (simp add: cursor_ok_def)
    have tb: "tick_batch h lf c = Some (tick_outcome lf item n c)" by (rule tick_batch_enumerated [OF e pt False])
    have mB: "m * B \<le> n" "?t = m * B" using False c(3,4) by auto
    show ?thesis
    proof (cases "?t = n")
      case True
      have r: "check_and_generate h lf s1 = Some (Inr 0, mark_exhausted (gl_id lf) c s1)"
        using True c(1) tb by (simp add: check_and_generate_def run_tick_def tick_outcome_def)
      show ?thesis using s1 r True c mB B
        by (auto simp: Let_def B_def [symmetric] mark_exhausted_def update_cursor_def cursor_ok_def position_def)
    next
      case nt: False
      then have tn: "?t < n" using mB by simp
      let ?adv = "advanced_cursor (gl_pattern lf) c k"
      let ?s2 = "after_batch lf c (map item [?t..<?t + k]) s1"
      have a: "cursor_ok lf n ?adv \<and> gc_total ?adv = ?t + k"
        using tn by (intro advanced_cursor_ok [OF e pt False]) (simp add: k_def)
      have x: "\<not> gc_exhausted ?adv" using False by (simp add: advanced_cursor_def Let_def split: task_pattern.splits)
      have cur: "gs_cursor ?s2 (gl_id lf) = ?adv" by (simp add: after_batch_def Let_def)
      have u: "gs_units ?s2 = gs_units s @ map (queued \<circ> item) [0..<?t + k]"
        using c(5) by (simp add: after_batch_def Let_def upt_add_eq_append [of 0])
      have o: "tick_outcome lf item n c s1 = (Inr (k, if k < B then Some ?adv else None), ?s2)"
        using tn c(1) by (simp add: tick_outcome_def Let_def k_def B_def)
      have r: "check_and_generate h lf s1 = Some (Inr k, if k < B then mark_exhausted (gl_id lf) ?adv ?s2 else ?s2)"
        using tb o by (simp add: check_and_generate_def run_tick_def c(1) [symmetric])
      have t2: "?t + k = min n (Suc m * B)" using mB tn by (auto simp: k_def)
      have x2: "k < B \<longleftrightarrow> n < Suc m * B" using mB tn by (auto simp: k_def)
      have kn: "k < B \<Longrightarrow> ?t + k = n" using tn by (auto simp: k_def)
      show ?thesis using s1 r a x cur u t2 x2 kn
        by (auto simp: Let_def B_def [symmetric] mark_exhausted_def update_cursor_def cursor_ok_def position_def)
    qed
  qed
qed


lemma eager_plan:
  assumes "enumerated h lf item n" "map_of (gl_config lf) ''_offset'' = None" "map_of (gl_config lf) ''seed_offset'' = None"
    "n \<le> 10000000"
  shows "generation_plan h (lf\<lparr>gl_lazy := False\<rparr>) (gl_config lf) bs = Some (Inr (map item [0..<n]))"
proof -
  have i: "item = sweep_item lf ps \<Longrightarrow> item = (\<lambda>i. unit_of (lf\<lparr>gl_lazy := False\<rparr>) (Combination (decode_combination (sorted_keys ps) ps i)) None)" for ps
    by (simp add: sweep_item_def fun_eq_iff unit_of_def)
  consider ps where "sweep_leaf lf ps n" "item = sweep_item lf ps" | st where "trials_leaf lf st n" "item = trial_item h lf st"
    using assms(1) by (auto simp: enumerated_def)
  then show ?thesis
  proof cases
    case 1
    then show ?thesis using assms(2) i [of ps]
      by (simp add: generation_plan_def sweep_plan_def sweep_leaf_def Let_def)
  next
    case 2
    let ?m = "merge_config (gl_config lf) (gl_config lf)"
    have m: "map_of ?m = map_of (gl_config lf)" by (auto simp: merge_config_def fun_eq_iff map_add_def split: option.splits)
    obtain x where x: "to_float64 (map_of (gl_config lf) ''num_trials'') = Some x" "go_int_of x = int n"
      using 2(1) by (auto simp: trials_leaf_def stored_num_trials_def)
    then obtain v where v: "map_of (gl_config lf) ''num_trials'' = Some v"
      by (cases "map_of (gl_config lf) ''num_trials''") (auto simp: to_float64_def)
    have a: "extract_num_trials ?m = Inr n"
      using x v 2(1) assms(4) by (simp add: extract_num_trials_def m trials_leaf_def Let_def)
    have b: "extract_seed_offset ?m = Inr 0" using assms(3) by (simp add: extract_seed_offset_def m)
    have c: "extract_seed_strategy ?m = Inr st" using 2(1) by (simp add: extract_seed_strategy_def m trials_leaf_def)
    have d: "extract_shared_config ?m = extract_shared_config (gl_config lf)" by (simp add: extract_shared_config_def m)
    show ?thesis using 2 a b c d
      by (simp add: generation_plan_def trials_plan_def trials_leaf_def trial_item_def [abs_def] unit_of_def fun_eq_iff)
  qed
qed



end
