(* ===== verification/Splitting.thy ===== *)
theory Splitting
  imports LazyGeneration
begin

text \<open>
  Map-reduce splitting (\<open>internal/mapreduce/splitter.go\<close>, \<open>generator.go\<close>) and the bulk upload of custom leafs
  (\<open>internal/custom/handler.go\<close>, \<open>generate/helpers.go\<close>), with the batch page both read. Data is the list of its
  bytes. Two functions are parameters: \<open>enc\<close>, the text \<open>json.Marshal\<close> gives a value that is not a string, and
  \<open>jsonb\<close>, which texts the database takes in the JSON column of a unit's input; what is used of it is that a
  JSON text never starts with a letter other than those of its three literals.
\<close>

section \<open>Splitting bytes\<close>

text \<open>\<open>bytes.Split\<close> at a non-empty separator, \<open>bytes.Join\<close>, and the loop every splitter cuts its pieces with.\<close>

fun split_go :: "string \<Rightarrow> nat \<Rightarrow> string \<Rightarrow> string \<Rightarrow> string list" where
  "split_go sep skip acc [] = [rev acc]"
| "split_go sep (Suc k) acc (c # cs) = split_go sep k acc cs"
| "split_go sep 0 acc (c # cs) =
     (if take (length sep) (c # cs) = sep then rev acc # split_go sep (length sep - 1) [] cs
      else split_go sep 0 (c # acc) cs)"

definition bytes_split :: "string \<Rightarrow> string \<Rightarrow> string list" where
  "bytes_split sep data = split_go sep 0 [] data"

fun bytes_join :: "string \<Rightarrow> string list \<Rightarrow> string" where
  "bytes_join sep [] = []"
| "bytes_join sep [x] = x"
| "bytes_join sep (x # y # xs) = x @ sep @ bytes_join sep (y # xs)"

function pieces :: "nat \<Rightarrow> 'a list \<Rightarrow> 'a list list" where
  "pieces n xs = (if xs = [] \<or> n = 0 then [] else take n xs # pieces n (drop n xs))"
  by pat_completeness auto
termination by (relation "measure (\<lambda>(n, xs). length xs)") auto

declare pieces.simps [simp del]

abbreviation newline :: char where
  "newline \<equiv> CHR 0x0A"

record chunk =
  ck_data :: "string option"
  ck_ref :: "string option"
  ck_meta :: "(string \<times> chunk_meta) list"

definition to_int :: "pval \<Rightarrow> int option" where
  "to_int v = (case v of PNum x \<Rightarrow> Some (go_int_of x) | _ \<Rightarrow> None)"

text \<open>A count of the splitting configuration, its default when the key is absent.\<close>

definition chunk_count :: "param_space \<Rightarrow> string \<Rightarrow> nat \<Rightarrow> int \<Rightarrow> int \<Rightarrow> nat res" where
  "chunk_count c key dflt lo hi =
     (case map_of c key of None \<Rightarrow> Inr dflt
      | Some v \<Rightarrow> (case to_int v of None \<Rightarrow> Inl (ValidationError key)
          | Some n \<Rightarrow> if n < lo \<or> n > hi then Inl (ValidationError key) else Inr (nat n)))"

text \<open>The first and last positions a piece covers, for a loop that cuts \<open>n\<close> at a time.\<close>

definition span_meta :: "string \<Rightarrow> string \<Rightarrow> string \<Rightarrow> nat \<Rightarrow> nat \<Rightarrow> nat \<Rightarrow> (string \<times> chunk_meta) list" where
  "span_meta a b c n i k = [(a, MetaInt (i * n)), (b, MetaInt (i * n + k - 1)), (c, MetaInt k)]"

definition indexed :: "'a list \<Rightarrow> (nat \<times> 'a) list" where
  "indexed xs = zip [0..<length xs] xs"

definition split_lines :: "string \<Rightarrow> param_space \<Rightarrow> chunk list res" where
  "split_lines data c =
     (if data = [] then Inl (ValidationError ''input data is empty'')
      else case chunk_count c ''lines_per_chunk'' 1000 1 1000000 of Inl e \<Rightarrow> Inl e | Inr n \<Rightarrow>
        if newline \<notin> set data then Inl (ValidationError ''by_line_count requires text data with newlines'')
        else let ls = bytes_split [newline] data;
                 lines = (if last ls = [] then butlast ls else ls)
             in if lines = [] then Inl (ValidationError ''by_line_count requires text data with newlines'')
                else Inr (map (\<lambda>(i, p). \<lparr>ck_data = Some (bytes_join [newline] p @ [newline]), ck_ref = None,
                                  ck_meta = span_meta ''start_line'' ''end_line'' ''line_count'' n i (length p)\<rparr>)
                              (indexed (pieces n lines))))"

text \<open>Where the chunk that starts here ends: past the threshold at the next newline when one is near enough.\<close>

definition byte_end :: "nat \<Rightarrow> string \<Rightarrow> nat" where
  "byte_end n rest =
     (if n \<ge> length rest then length rest
      else let nl = length (takeWhile (\<lambda>c. c \<noteq> newline) (drop n rest))
           in if nl < length (drop n rest) \<and> nl < n then n + nl + 1 else n)"

function byte_chunks :: "nat \<Rightarrow> nat \<Rightarrow> string \<Rightarrow> chunk list" where
  "byte_chunks n off rest =
     (if rest = [] \<or> n = 0 then []
      else let k = byte_end n rest in
        \<lparr>ck_data = Some (take k rest), ck_ref = None, ck_meta = [(''byte_offset'', MetaInt off), (''byte_size'', MetaInt k)]\<rparr>
        # byte_chunks n (off + k) (drop k rest))"
  by pat_completeness auto
termination by (relation "measure (\<lambda>(n, off, rest). length rest)") (auto simp: byte_end_def Let_def)

declare byte_chunks.simps [simp del]

definition split_bytes :: "string \<Rightarrow> param_space \<Rightarrow> chunk list res" where
  "split_bytes data c =
     (if data = [] then Inl (ValidationError ''input data is empty'')
      else case chunk_count c ''bytes_per_chunk'' 10485760 1024 1073741824 of Inl e \<Rightarrow> Inl e
      | Inr n \<Rightarrow> Inr (byte_chunks n 0 data))"

definition split_by_delimiter :: "string \<Rightarrow> string \<Rightarrow> string list" where
  "split_by_delimiter data d = filter (\<lambda>p. p \<noteq> []) (bytes_split d data)"

definition split_records :: "string \<Rightarrow> param_space \<Rightarrow> chunk list res" where
  "split_records data c =
     (if data = [] then Inl (ValidationError ''input data is empty'')
      else case (case map_of c ''record_delimiter'' of None \<Rightarrow> Inr [newline]
                 | Some (PStr d) \<Rightarrow> if d = [] then Inl (ValidationError ''record_delimiter'') else Inr d
                 | Some _ \<Rightarrow> Inl (ValidationError ''record_delimiter'')) of Inl e \<Rightarrow> Inl e | Inr d \<Rightarrow>
        case chunk_count c ''records_per_chunk'' 100 1 1000000 of Inl e \<Rightarrow> Inl e | Inr n \<Rightarrow>
          Inr (map (\<lambda>(i, p). \<lparr>ck_data = Some (''['' @ bytes_join '','' p @ '']''), ck_ref = None,
                       ck_meta = span_meta ''start_record'' ''end_record'' ''record_count'' n i (length p)\<rparr>)
                   (indexed (pieces n (split_by_delimiter data d)))))"

definition split_with :: "string \<Rightarrow> (string \<Rightarrow> param_space \<Rightarrow> chunk list res) res" where
  "split_with strategy =
     (if strategy = ''by_line_count'' then Inr split_lines
      else if strategy = ''by_byte_size'' then Inr split_bytes
      else if strategy = ''by_record'' then Inr split_records
      else Inl (ValidationError ''unknown splitting_strategy''))"

section \<open>Generating from chunks\<close>

definition extract_raw_data :: "(pval \<Rightarrow> string) \<Rightarrow> pval \<Rightarrow> string" where
  "extract_raw_data enc v = (case v of PStr s \<Rightarrow> s | _ \<Rightarrow> enc v)"

definition map_chunks :: "(pval \<Rightarrow> string) \<Rightarrow> gen_leaf \<Rightarrow> param_space \<Rightarrow> chunk list res" where
  "map_chunks enc lf space =
     (if gl_pattern lf \<noteq> MapReduce then Inl (ValidationError ''wrong pattern'')
      else let inline = map_of space ''input_data''; ref = map_of space ''input_data_ref'' in
        if inline = None \<and> ref = None then Inl (ValidationError ''input_data or input_data_ref is required'')
        else case gl_strategy lf of None \<Rightarrow> Inl (ValidationError ''splitting_strategy is required'')
        | Some st \<Rightarrow>
            if st = [] then Inl (ValidationError ''splitting_strategy is required'')
            else case split_with st of Inl e \<Rightarrow> Inl e | Inr splitter \<Rightarrow>
            case (case ref of
                None \<Rightarrow> splitter (extract_raw_data enc (the inline)) (gl_config lf)
              | Some (PStr r) \<Rightarrow>
                  (case inline of
                     Some v \<Rightarrow> (case splitter (extract_raw_data enc v) (gl_config lf) of Inl e \<Rightarrow> Inl e
                       | Inr cs \<Rightarrow> Inr (map (\<lambda>(i, k). k\<lparr>ck_data := None, ck_ref := Some (r @ ''#chunk_'' @ show_int (int i))\<rparr>) (indexed cs)))
                   | None \<Rightarrow> Inr [\<lparr>ck_data = None, ck_ref = Some r, ck_meta = [(''source'', MetaText r)]\<rparr>])
              | Some _ \<Rightarrow> Inl (ValidationError ''input_data_ref must be a string URL'')) of
              Inl e \<Rightarrow> Inl e
            | Inr cs \<Rightarrow> if cs = [] then Inl (ValidationError ''splitting produced no chunks'') else Inr cs)"

definition chunk_unit :: "gen_leaf \<Rightarrow> chunk \<Rightarrow> gen_unit" where
  "chunk_unit lf k = (unit_of lf (ChunkInfo (ck_meta k)) (if ck_ref k = None then map_option RawInput (ck_data k) else None))
     \<lparr>gu_input_ref := ck_ref k\<rparr>"

text \<open>The transaction of one batch with the check the database makes of the raw input texts.\<close>

definition stored_json :: "(string \<Rightarrow> bool) \<Rightarrow> gen_unit \<Rightarrow> bool" where
  "stored_json jsonb u = (case gu_input u of Some (RawInput s) \<Rightarrow> jsonb s | _ \<Rightarrow> True)"

definition persist_checked :: "(string \<Rightarrow> bool) \<Rightarrow> gen_batch \<Rightarrow> gen_unit list \<Rightarrow> (gen_store, unit) op" where
  "persist_checked jsonb b us = in_tx (
     obind (create_batch b) (\<lambda>_.
     if list_all (stored_json jsonb) us then bulk_create_queued us
     else othrow (Internal ''failed to bulk create work units'')))"

definition generate_chunks :: "(string \<Rightarrow> bool) \<Rightarrow> (pval \<Rightarrow> string) \<Rightarrow> gen_leaf \<Rightarrow> param_space \<Rightarrow> int \<Rightarrow> (gen_store, nat) op" where
  "generate_chunks jsonb enc lf space batch_size =
     generate_through (persist_checked jsonb) next_sequence lf
       (map_sum id (map (chunk_unit lf)) (map_chunks enc lf space)) (clamp_batch_size batch_size)"

interpretation chunk_sink: batch_sink "persist_checked jsonb" next_sequence gs_units for jsonb
proof unfold_locales
  fix b us s s' assume "persist_checked jsonb b us s = (Inr (), s')"
  then show "gs_units s' = gs_units s @ map queued us"
    by (auto simp: persist_checked_def in_tx_Inr obind_eq_Inr create_batch_def bulk_create_queued_def split: if_splits)
qed (auto simp: next_sequence_def)


section \<open>Cutting\<close>

lemma concat_pieces [simp]: "0 < n \<Longrightarrow> concat (pieces n xs) = xs"
proof (induction n xs rule: pieces.induct)
  case (1 n xs)
  then show ?case by (cases "xs = []") (simp_all add: pieces.simps [of n] del: concat_eq_Nil_conv)
qed

lemma pieces_sizes: "p \<in> set (pieces n xs) \<Longrightarrow> p \<noteq> [] \<and> length p \<le> n"
proof (induction n xs rule: pieces.induct)
  case (1 n xs)
  then show ?case by (cases "xs = [] \<or> n = 0") (auto simp: pieces.simps [of n xs])
qed

lemma split_go_nonempty: "split_go sep k acc cs \<noteq> []"
  by (induction sep k acc cs rule: split_go.induct) auto

lemma bytes_join_Cons: "xs \<noteq> [] \<Longrightarrow> bytes_join sep (x # xs) = x @ sep @ bytes_join sep xs"
  by (cases xs) auto

lemma join_split_go: "sep \<noteq> [] \<Longrightarrow> bytes_join sep (split_go sep k acc cs) = rev acc @ drop k cs"
proof (induction sep k acc cs rule: split_go.induct)
  case (3 sep acc c cs)
  show ?case
  proof (cases "take (length sep) (c # cs) = sep")
    case True
    then have "sep @ drop (length sep) (c # cs) = c # cs" by (metis append_take_drop_id)
    moreover have "drop (length sep) (c # cs) = drop (length sep - 1) cs" using 3(3) by (cases sep) auto
    ultimately show ?thesis using True 3 by (simp add: bytes_join_Cons split_go_nonempty)
  qed (use 3 in simp)
qed auto

lemma join_split: "sep \<noteq> [] \<Longrightarrow> bytes_join sep (bytes_split sep data) = data"
  by (simp add: bytes_split_def join_split_go)

lemma split_go_clean: "c \<notin> set acc \<Longrightarrow> p \<in> set (split_go [c] k acc cs) \<Longrightarrow> c \<notin> set p"
  by (induction "[c]" k acc cs rule: split_go.induct) (auto split: if_splits)

lemma split_clean: "p \<in> set (bytes_split [c] data) \<Longrightarrow> c \<notin> set p"
  by (auto simp: bytes_split_def dest: split_go_clean [rotated])

lemma join_terminated: "ls \<noteq> [] \<Longrightarrow> bytes_join sep ls @ sep = concat (map (\<lambda>l. l @ sep) ls)"
  by (induction sep ls rule: bytes_join.induct) auto

lemma map_snd_indexed [simp]: "map snd (indexed xs) = xs" "length (indexed xs) = length xs"
  by (simp_all add: indexed_def)

definition chunk_text :: "chunk \<Rightarrow> string" where
  "chunk_text k = (case ck_data k of None \<Rightarrow> [] | Some d \<Rightarrow> d)"

lemma chunk_texts_indexed:
  "(\<And>i p. chunk_text (f (i, p)) = g p) \<Longrightarrow> map chunk_text (map f (indexed xs)) = map g xs"
proof -
  assume "\<And>i p. chunk_text (f (i, p)) = g p"
  then have "chunk_text \<circ> f = g \<circ> snd" by (auto simp: fun_eq_iff)
  then have "map chunk_text (map f (indexed xs)) = map g (map snd (indexed xs))" by (metis list.map_comp)
  then show ?thesis by simp
qed

lemma chunk_text_Some [simp]: "chunk_text \<lparr>ck_data = Some d, ck_ref = r, ck_meta = m\<rparr> = d"
  by (simp add: chunk_text_def)

lemma concat_map_concat: "concat (map (\<lambda>p. concat (map f p)) ps) = concat (map f (concat ps))"
  by (induction ps) auto

section \<open>Lines\<close>

lemma terminated_snoc: "ls \<noteq> [] \<Longrightarrow> \<exists>x. concat (map (\<lambda>l. l @ [c]) ls) = x @ last ls @ [c]"
proof (induction ls rule: rev_induct)
  case (snoc y ys)
  show ?case by (rule exI [of _ "concat (map (\<lambda>l. l @ [c]) ys)"]) simp
qed simp

lemma chunk_count_bounds: "chunk_count c key dflt lo hi = Inr n \<Longrightarrow> lo \<le> int dflt \<Longrightarrow> int dflt \<le> hi \<Longrightarrow> 0 < lo \<Longrightarrow> lo \<le> int n \<and> int n \<le> hi"
  by (auto simp: chunk_count_def split: option.splits if_splits)

lemma split_lines_texts:
  assumes "split_lines data c = Inr cs"
  shows "\<exists>n lines. chunk_count c ''lines_per_chunk'' 1000 1 1000000 = Inr n \<and> lines \<noteq> []
     \<and> map chunk_text cs = map (\<lambda>p. concat (map (\<lambda>l. l @ [newline]) p)) (pieces n lines)
     \<and> concat (map (\<lambda>l. l @ [newline]) lines) = (if last data = newline then data else data @ [newline])
     \<and> list_all (\<lambda>l. newline \<notin> set l) lines"
proof -
  let ?ls = "bytes_split [newline] data"
  define lines where "lines = (if last ?ls = [] then butlast ?ls else ?ls)"
  obtain n where n: "chunk_count c ''lines_per_chunk'' 1000 1 1000000 = Inr n" "data \<noteq> []" "lines \<noteq> []"
    and cs: "cs = map (\<lambda>(i, p). \<lparr>ck_data = Some (bytes_join [newline] p @ [newline]), ck_ref = None,
                       ck_meta = span_meta ''start_line'' ''end_line'' ''line_count'' n i (length p)\<rparr>) (indexed (pieces n lines))"
    using assms by (auto simp: split_lines_def lines_def Let_def split: if_splits sum.splits)
  have "map chunk_text cs = map (\<lambda>p. bytes_join [newline] p @ [newline]) (pieces n lines)"
    unfolding cs by (rule chunk_texts_indexed) (simp add: chunk_text_def)
  also have "\<dots> = map (\<lambda>p. concat (map (\<lambda>l. l @ [newline]) p)) (pieces n lines)"
    using pieces_sizes [of _ n lines] by (intro map_cong) (auto simp: join_terminated)
  finally have t: "map chunk_text cs = \<dots>" .
  have j: "bytes_join [newline] ?ls = data" by (simp add: join_split)
  have ne: "?ls \<noteq> []" by (simp add: bytes_split_def split_go_nonempty)
  have "concat (map (\<lambda>l. l @ [newline]) lines) = (if last data = newline then data else data @ [newline])"
  proof (cases "last ?ls = []")
    case True
    then have l: "?ls = lines @ [[]]" using ne by (metis append_butlast_last_id lines_def)
    have "data @ [newline] = concat (map (\<lambda>l. l @ [newline]) ?ls)" using join_terminated [OF ne, of "[newline]"] j by simp
    then have "data = concat (map (\<lambda>l. l @ [newline]) lines)" unfolding l by simp
    moreover from this have "last data = newline" using terminated_snoc [OF n(3), of newline] by auto
    ultimately show ?thesis by simp
  next
    case False
    then have l: "lines = ?ls" by (simp add: lines_def)
    have d: "data @ [newline] = concat (map (\<lambda>l. l @ [newline]) lines)" unfolding l using join_terminated [OF ne, of "[newline]"] j by simp
    obtain x where "data = x @ last lines" using terminated_snoc [OF n(3), of newline] d by auto
    then have "last data = last (last lines)" using False l by (metis last_appendR)
    moreover have "last lines \<in> set ?ls" using l n(3) by simp
    then have "newline \<notin> set (last lines)" by (rule split_clean)
    ultimately have "last data \<noteq> newline" using False l by (metis last_in_set)
    then show ?thesis using d by simp
  qed
  moreover have "set lines \<subseteq> set ?ls" by (auto simp: lines_def dest: in_set_butlastD)
  then have "list_all (\<lambda>l. newline \<notin> set l) lines" using split_clean by (auto simp: list_all_iff)
  ultimately show ?thesis using n t by blast
qed


lemma count_lines:
  assumes "list_all (\<lambda>l. c \<notin> set l) ls"
  shows "count_list (concat (map (\<lambda>l. l @ [c]) ls)) c = length ls"
  using assms by (induction ls) (auto simp: count_list_append)

lemma line_chunks_keep_the_data_core:
  assumes "split_lines data c = Inr cs" "chunk_count c ''lines_per_chunk'' 1000 1 1000000 = Inr n"
  shows "concat (map chunk_text cs) = (if last data = newline then data else data @ [newline])
     \<and> list_all (\<lambda>k. last (chunk_text k) = newline \<and> 1 \<le> count_list (chunk_text k) newline
                   \<and> count_list (chunk_text k) newline \<le> n) cs"
proof -
  obtain lines where lines: "lines \<noteq> []" "map chunk_text cs = map (\<lambda>p. concat (map (\<lambda>l. l @ [newline]) p)) (pieces n lines)"
    "concat (map (\<lambda>l. l @ [newline]) lines) = (if last data = newline then data else data @ [newline])"
    "list_all (\<lambda>l. newline \<notin> set l) lines"
    using split_lines_texts [OF assms(1)] assms(2) by auto
  have n: "0 < n" using chunk_count_bounds [OF assms(2)] by simp
  have "concat (map chunk_text cs) = concat (map (\<lambda>l. l @ [newline]) (concat (pieces n lines)))"
    unfolding lines(2) by (rule concat_map_concat)
  moreover have "last (chunk_text k) = newline \<and> 1 \<le> count_list (chunk_text k) newline \<and> count_list (chunk_text k) newline \<le> n"
    if "k \<in> set cs" for k
  proof -
    have "chunk_text k \<in> set (map chunk_text cs)" using that by simp
    then obtain p where p: "p \<in> set (pieces n lines)" "chunk_text k = concat (map (\<lambda>l. l @ [newline]) p)"
      unfolding lines(2) by auto
    have "set p \<subseteq> set (concat (pieces n lines))" using p(1) by auto
    then have "list_all (\<lambda>l. newline \<notin> set l) p" using lines(4) n by (auto simp: list_all_iff)
    then have "count_list (chunk_text k) newline = length p" using p(2) count_lines by simp
    moreover have "p \<noteq> []" "length p \<le> n" using pieces_sizes [OF p(1)] by auto
    moreover have "last (chunk_text k) = newline" using terminated_snoc [OF \<open>p \<noteq> []\<close>, of newline] p(2) by auto
    ultimately show ?thesis by (cases p) auto
  qed
  ultimately show ?thesis using n lines(3) by (simp add: list_all_iff)
qed

text \<open>Splitting by line count loses nothing: the chunks' texts put together are the input, with the final newline
  added when it was missing, and every chunk is a whole number of lines, at least one and at most the configured count.\<close>

theorem line_chunks_keep_the_data:
  assumes "split_lines data c = Inr cs" "chunk_count c ''lines_per_chunk'' 1000 1 1000000 = Inr n"
  shows "concat (map chunk_text cs) = (if last data = newline then data else data @ [newline])
     \<and> list_all (\<lambda>k. last (chunk_text k) = newline \<and> 1 \<le> count_list (chunk_text k) newline
                   \<and> count_list (chunk_text k) newline \<le> n) cs"
  using line_chunks_keep_the_data_core [OF assms] .

theorem line_chunks_keep_the_data_witness:
  "concat (map chunk_text (projr (split_lines ''ab\<newline>c\<newline>de'' [(''lines_per_chunk'', PNum 2)]))) = ''ab\<newline>c\<newline>de\<newline>''"
proof -
  have "chunk_count [(''lines_per_chunk'', PNum 2)] ''lines_per_chunk'' 1000 1 1000000 = Inr 2"
    "isl (split_lines ''ab\<newline>c\<newline>de'' [(''lines_per_chunk'', PNum 2)]) = False"
    by code_simp+
  then obtain cs where "split_lines ''ab\<newline>c\<newline>de'' [(''lines_per_chunk'', PNum 2)] = Inr cs"
    by (cases "split_lines ''ab\<newline>c\<newline>de'' [(''lines_per_chunk'', PNum 2)]") auto
  from line_chunks_keep_the_data [OF this \<open>chunk_count _ _ _ _ _ = _\<close>] this show ?thesis by simp
qed

section \<open>Bytes\<close>

lemma byte_end_bounds:
  assumes "rest \<noteq> []" "0 < n"
  shows "0 < byte_end n rest \<and> byte_end n rest \<le> length rest \<and> byte_end n rest \<le> 2 * n
       \<and> (byte_end n rest < length rest \<longrightarrow> n \<le> byte_end n rest)"
proof (cases "n \<ge> length rest")
  case True
  then show ?thesis using assms by (simp add: byte_end_def)
next
  case False
  then show ?thesis using assms by (auto simp: byte_end_def Let_def)
qed

lemma byte_chunks_keep:
  assumes "0 < n"
  shows "concat (map chunk_text (byte_chunks n off rest)) = rest
     \<and> list_all (\<lambda>k. chunk_text k \<noteq> [] \<and> length (chunk_text k) \<le> 2 * n) (byte_chunks n off rest)
     \<and> list_all (\<lambda>k. n \<le> length (chunk_text k)) (butlast (byte_chunks n off rest))"
  using assms
proof (induction n off rest rule: byte_chunks.induct)
  case (1 n off rest)
  show ?case
  proof (cases "rest = []")
    case True
    then show ?thesis by (simp add: byte_chunks.simps [of n])
  next
    case False
    let ?k = "byte_end n rest"
    note b = byte_end_bounds [OF False 1(2)]
    have ih: "concat (map chunk_text (byte_chunks n (off + ?k) (drop ?k rest))) = drop ?k rest
       \<and> list_all (\<lambda>k. chunk_text k \<noteq> [] \<and> length (chunk_text k) \<le> 2 * n) (byte_chunks n (off + ?k) (drop ?k rest))
       \<and> list_all (\<lambda>k. n \<le> length (chunk_text k)) (butlast (byte_chunks n (off + ?k) (drop ?k rest)))"
      using 1 False by simp
    have "n \<le> ?k" if "byte_chunks n (off + ?k) (drop ?k rest) \<noteq> []"
    proof -
      have "drop ?k rest \<noteq> []" using that by (auto simp: byte_chunks.simps [of n _ "[]"])
      then show ?thesis using b by auto
    qed
    moreover have "take ?k rest @ drop ?k rest = rest" by simp
    ultimately show ?thesis using ih b False 1(2)
      by (auto simp: byte_chunks.simps [of n off] Let_def)
  qed
qed

text \<open>Splitting by byte size loses nothing and keeps its bounds: the chunks put together are the input byte for byte,
  none is empty or longer than twice the configured size, and every chunk but the last has at least the configured size.\<close>

theorem byte_chunks_within_bounds:
  assumes "split_bytes data c = Inr cs" "chunk_count c ''bytes_per_chunk'' 10485760 1024 1073741824 = Inr n"
  shows "concat (map chunk_text cs) = data
     \<and> list_all (\<lambda>k. chunk_text k \<noteq> [] \<and> length (chunk_text k) \<le> 2 * n) cs
     \<and> list_all (\<lambda>k. n \<le> length (chunk_text k)) (butlast cs)"
proof -
  have "0 < n" using chunk_count_bounds [OF assms(2)] by simp
  then show ?thesis using assms byte_chunks_keep [of n 0 data] by (auto simp: split_bytes_def split: if_splits)
qed

theorem byte_chunks_within_bounds_witness:
  "concat (map chunk_text (projr (split_bytes ''ab\<newline>cd'' []))) = ''ab\<newline>cd''"
proof -
  have n: "chunk_count [] ''bytes_per_chunk'' 10485760 1024 1073741824 = Inr 10485760" by (simp add: chunk_count_def)
  then have "split_bytes ''ab\<newline>cd'' [] = Inr (byte_chunks 10485760 0 ''ab\<newline>cd'')"
    by (simp add: split_bytes_def)
  from byte_chunks_within_bounds [OF this n] this show ?thesis by simp
qed


section \<open>Records\<close>

lemma split_records_texts:
  assumes "split_records data c = Inr cs"
  shows "\<exists>d n. d \<noteq> [] \<and> chunk_count c ''records_per_chunk'' 100 1 1000000 = Inr n
     \<and> map chunk_text cs = map (\<lambda>p. ''['' @ bytes_join '','' p @ '']'') (pieces n (split_by_delimiter data d))"
proof -
  obtain d n where d: "d \<noteq> []" "chunk_count c ''records_per_chunk'' 100 1 1000000 = Inr n"
    and cs: "cs = map (\<lambda>(i, p). \<lparr>ck_data = Some (''['' @ bytes_join '','' p @ '']''), ck_ref = None,
                       ck_meta = span_meta ''start_record'' ''end_record'' ''record_count'' n i (length p)\<rparr>)
                   (indexed (pieces n (split_by_delimiter data d)))"
    using assms by (auto simp: split_records_def split: if_splits sum.splits option.splits pval.splits)
  have "map chunk_text cs = map (\<lambda>p. ''['' @ bytes_join '','' p @ '']'') (pieces n (split_by_delimiter data d))"
    unfolding cs by (rule chunk_texts_indexed) simp
  with d show ?thesis by blast
qed

section \<open>What the input column takes\<close>

text \<open>The first characters a JSON text can have; the database's \<open>jsonb\<close> refuses any other text.\<close>

definition json_start :: "char \<Rightarrow> bool" where
  "json_start ch \<longleftrightarrow> ch \<in> set ('' \<newline>{[-0123456789tfn'' @ [CHR 0x22, CHR 0x09, CHR 0x0D])"

lemma first_batch_refused:
  assumes "u \<in> set (take bs us)" "\<not> stored_json jsonb u" "0 < bs" "next_sequence (gl_id lf) s = (Inr sq, s)"
  shows "persist_batches (persist_checked jsonb) (gl_id lf) sq bs us s = (Inl (Internal ''failed to bulk create work units''), s)"
proof -
  have "\<not> list_all (stored_json jsonb) (take bs us)" using assms(1,2) by (auto simp: list_all_iff)
  moreover have "\<not> (\<exists>x\<in>set (gs_batches s). gb_leaf x = gl_id lf \<and> gb_seq x = sq)" using next_sequence_fresh [OF assms(4)] by blast
  ultimately have "persist_checked jsonb \<lparr>gb_leaf = gl_id lf, gb_seq = sq, gb_total = length (take bs us)\<rparr> (take bs us) s
      = (Inl (Internal ''failed to bulk create work units''), s)"
    by (simp add: persist_checked_def in_tx_def obind_def create_batch_def othrow_def)
  moreover have "us \<noteq> []" using assms(1) by auto
  ultimately show ?thesis using assms(3) by (simp add: persist_batches.simps [of _ _ _ _ us] obind_def)
qed

text \<open>Plain text is never stored: a map-reduce leaf that splits by line count and is given inline text whose first
  byte cannot begin a JSON text is refused with an internal error, every time and with nothing stored, because the chunks
  go as they are into a JSON column. Only the record splitter wraps its chunks, and then each record must be JSON.\<close>

theorem text_chunks_are_refused:
  assumes "\<And>t. jsonb t \<Longrightarrow> t \<noteq> [] \<and> json_start (hd t)"
    and "gl_pattern lf = MapReduce" "gl_strategy lf = Some ''by_line_count''"
    and "map_of space ''input_data'' = Some (PStr (ch # text))" "map_of space ''input_data_ref'' = None"
    and "split_lines (ch # text) (gl_config lf) = Inr cs" "\<not> json_start ch"
  shows "generate_chunks jsonb enc lf space b s = (Inl (Internal ''failed to bulk create work units''), s)"
proof -
  obtain n where n: "chunk_count (gl_config lf) ''lines_per_chunk'' 1000 1 1000000 = Inr n"
    using split_lines_texts [OF assms(6)] by blast
  note k = line_chunks_keep_the_data_core [OF assms(6) n]
  from k have "concat (map chunk_text cs) \<noteq> []" by auto
  then obtain x ks where cs: "cs = x # ks" by (cases cs) auto
  have "chunk_text x \<noteq> []" using k cs by auto
  then have "hd (chunk_text x) = hd (concat (map chunk_text cs))" using cs by simp
  also have "\<dots> = ch" using k by auto
  finally have hd: "hd (chunk_text x) = ch" .
  have x: "ck_ref x = None" "ck_data x = Some (chunk_text x)"
    using assms(6) cs by (auto simp: split_lines_def Let_def split: if_splits sum.splits)
  have m: "map_chunks enc lf space = Inr cs"
    using assms cs by (simp add: map_chunks_def split_with_def extract_raw_data_def)
  have r: "\<not> stored_json jsonb (chunk_unit lf x)"
    using x hd assms(1,7) by (auto simp: stored_json_def chunk_unit_def unit_of_def)
  have bs: "0 < clamp_batch_size b" by (simp add: clamp_batch_size_def Let_def)
  obtain sq where sq: "next_sequence (gl_id lf) s = (Inr sq, s)" using next_sequence_pure by blast
  have "chunk_unit lf x \<in> set (take (clamp_batch_size b) (map (chunk_unit lf) cs))" using bs cs by (cases "clamp_batch_size b") auto
  from first_batch_refused [OF this r bs sq] show ?thesis
    using cs by (simp add: generate_chunks_def m generate_through_def sq)
qed

definition line_leaf :: gen_leaf where
  "line_leaf = \<lparr>gl_id = ''L'', gl_pattern = MapReduce, gl_state = LActive, gl_lazy = False, gl_ongoing = False,
     gl_threshold = 10, gl_batch_size = 2, gl_config = [(''lines_per_chunk'', PNum 2)], gl_artifact = ''a'', gl_deadline = 60,
     gl_max_reassignments = 3, gl_strategy = Some ''by_line_count'', gl_max_input = 1048576\<rparr>"

theorem text_chunks_are_refused_witness:
  "generate_chunks (\<lambda>t. t \<noteq> [] \<and> json_start (hd t)) (\<lambda>_. []) line_leaf [(''input_data'', PStr ''ab\<newline>c\<newline>de'')] 0 (ls_store lazy_init)
     = (Inl (Internal ''failed to bulk create work units''), ls_store lazy_init)"
proof -
  have "isl (split_lines ''ab\<newline>c\<newline>de'' (gl_config line_leaf)) = False" by code_simp
  then obtain cs where "split_lines ''ab\<newline>c\<newline>de'' (gl_config line_leaf) = Inr cs"
    by (cases "split_lines ''ab\<newline>c\<newline>de'' (gl_config line_leaf)") auto
  moreover have "\<not> json_start (CHR ''a'')" by code_simp
  ultimately show ?thesis by (intro text_chunks_are_refused) (auto simp: line_leaf_def)
qed


section \<open>Bulk uploads\<close>

text \<open>
  The first page of a leaf's batches, oldest first, as \<open>ListByLeaf\<close> returns it: the list is in order of creation. The
  upload's own statements run outside a transaction. A request's JSON texts are those the decoder kept, so the column
  takes them; a text of no bytes is an absent field.
\<close>

definition clamp_page_size :: "int \<Rightarrow> nat" where
  "clamp_page_size n = (if n \<le> 0 then 50 else if n > 200 then 200 else nat n)"

definition list_batches_by_leaf :: "uid \<Rightarrow> int \<Rightarrow> gen_store \<Rightarrow> gen_batch list \<times> bool" where
  "list_batches_by_leaf lf page s =
     (let bs = take (clamp_page_size page + 1) (filter (\<lambda>b. gb_leaf b = lf) (gs_batches s))
      in (take (clamp_page_size page) bs, clamp_page_size page < length bs))"

definition resolve_next_sequence :: "uid \<Rightarrow> gen_store \<Rightarrow> nat" where
  "resolve_next_sequence lf s = foldl (\<lambda>m b. if gb_seq b > m then gb_seq b else m) 0 (fst (list_batches_by_leaf lf 200 s)) + 1"

record upload_item =
  up_input :: string
  up_input_ref :: "string option"
  up_parameters :: string
  up_estimate :: "int option"

fun check_items :: "int \<Rightarrow> upload_item list \<Rightarrow> unit res" where
  "check_items cap [] = Inr ()"
| "check_items cap (x # xs) =
     (if up_input x = [] \<and> up_input_ref x = None \<and> up_parameters x = [] then Inl (ValidationError ''nothing provided'')
      else if up_input x \<noteq> [] \<and> int (length (up_input x)) > cap then Inl (ValidationError ''max_input_size_bytes'')
      else if (case up_estimate x of None \<Rightarrow> False | Some e \<Rightarrow> e \<le> 0) then Inl (ValidationError ''estimated_duration_seconds'')
      else check_items cap xs)"

definition upload_unit :: "gen_leaf \<Rightarrow> upload_item \<Rightarrow> gen_unit" where
  "upload_unit lf x = (unit_of lf (RawParams (up_parameters x)) (if up_input x = [] then None else Some (RawInput (up_input x))))
     \<lparr>gu_input_ref := up_input_ref x, gu_max_reassignments := (if gl_max_reassignments lf = 0 then 3 else gl_max_reassignments lf)\<rparr>"

definition bulk_upload :: "gen_leaf \<Rightarrow> upload_item list \<Rightarrow> (gen_store, nat) op" where
  "bulk_upload lf xs s =
     (if gl_state lf \<noteq> LConfiguring \<and> gl_state lf \<noteq> LActive then (Inl (Conflict ''INVALID_STATE_TRANSITION''), s)
      else if gl_pattern lf \<noteq> CustomPattern then (Inl (OtherError ''bulk upload is only available for CUSTOM''), s)
      else if xs = [] then (Inl (ValidationError ''work_units array is required''), s)
      else if length xs > 10000 then (Inl (ValidationError ''work_units array exceeds maximum''), s)
      else case check_items (gl_max_input lf) xs of Inl e \<Rightarrow> (Inl e, s)
      | Inr _ \<Rightarrow>
          (case create_batch \<lparr>gb_leaf = gl_id lf, gb_seq = resolve_next_sequence (gl_id lf) s, gb_total = length xs\<rparr> s of
             (Inl e, s') \<Rightarrow> (Inl (Internal ''create batch''), s')
           | (Inr _, s') \<Rightarrow> (Inr (length xs), snd (bulk_create_queued (map (upload_unit lf) xs) s'))))"

text \<open>Uploads one after another: their outcomes and the store they leave.\<close>

fun bulk_uploads :: "gen_leaf \<Rightarrow> upload_item list list \<Rightarrow> gen_store \<Rightarrow> nat res list \<times> gen_store" where
  "bulk_uploads lf [] s = ([], s)"
| "bulk_uploads lf (r # rs) s =
     (let (o1, s1) = bulk_upload lf r s; (os, s2) = bulk_uploads lf rs s1 in (o1 # os, s2))"

definition upload_ok :: "gen_leaf \<Rightarrow> upload_item list \<Rightarrow> bool" where
  "upload_ok lf xs \<longleftrightarrow> xs \<noteq> [] \<and> length xs \<le> 10000 \<and> check_items (gl_max_input lf) xs = Inr ()"

definition leaf_seqs :: "uid \<Rightarrow> gen_store \<Rightarrow> nat list" where
  "leaf_seqs lf s = map gb_seq (filter (\<lambda>b. gb_leaf b = lf) (gs_batches s))"

lemma foldl_max_upt: "foldl (\<lambda>m b. if b > m then b else m) k [Suc k..<Suc k + n] = k + n"
  by (induction n) auto

lemma resolve_seqs:
  assumes "leaf_seqs lf s = [1..<Suc m]"
  shows "resolve_next_sequence lf s = Suc (min m 200)"
proof -
  have f: "foldl (\<lambda>m b. if gb_seq b > m then gb_seq b else m) 0 bs = foldl (\<lambda>m b. if b > m then b else m) 0 (map gb_seq bs)" for bs
    by (simp add: foldl_map)
  have g: "map gb_seq (fst (list_batches_by_leaf lf 200 s)) = take 200 (leaf_seqs lf s)"
    by (simp add: list_batches_by_leaf_def clamp_page_size_def leaf_seqs_def Let_def take_map)
  have t: "take 200 [1..<Suc m] = [Suc 0..<Suc 0 + min m 200]"
  proof (cases "m \<le> 200")
    case True
    then show ?thesis by (simp add: min_def)
  next
    case False
    then have "take 200 [1..<1 + m] = [1..<1 + 200]" by (intro take_upt) simp
    moreover have "min m 200 = 200" using False by simp
    ultimately show ?thesis by simp
  qed
  show ?thesis unfolding resolve_next_sequence_def f g assms t foldl_max_upt by simp
qed

lemma upload_step:
  assumes "gl_pattern lf = CustomPattern" "gl_state lf = LConfiguring \<or> gl_state lf = LActive" "upload_ok lf xs"
    "leaf_seqs (gl_id lf) s = [1..<Suc m]" "m \<le> 201"
  shows "if m < 201 then fst (bulk_upload lf xs s) = Inr (length xs) \<and> leaf_seqs (gl_id lf) (snd (bulk_upload lf xs s)) = [1..<Suc (Suc m)]
         else bulk_upload lf xs s = (Inl (Internal ''create batch''), s)"
proof -
  let ?sq = "Suc (min m 200)"
  have "(\<exists>x\<in>set (gs_batches s). gb_leaf x = gl_id lf \<and> gb_seq x = ?sq) \<longleftrightarrow> ?sq \<in> set (leaf_seqs (gl_id lf) s)"
    by (force simp: leaf_seqs_def)
  also have "\<dots> \<longleftrightarrow> m = 201" unfolding assms(4) using assms(5) by auto
  finally have f: "(\<exists>x\<in>set (gs_batches s). gb_leaf x = gl_id lf \<and> gb_seq x = ?sq) \<longleftrightarrow> m = 201" .
  show ?thesis
  proof (cases "m = 201")
    case True
    then show ?thesis using assms f resolve_seqs [OF assms(4)]
      by (auto simp: bulk_upload_def upload_ok_def create_batch_def)
  next
    case False
    then have "min m 200 = m" "m < 201" using assms(5) by auto
    then show ?thesis using assms f False resolve_seqs [OF assms(4)]
      by (auto simp: bulk_upload_def upload_ok_def create_batch_def bulk_create_queued_def leaf_seqs_def)
  qed
qed

lemma bulk_uploads_outcomes:
  assumes "gl_pattern lf = CustomPattern" "gl_state lf = LConfiguring \<or> gl_state lf = LActive"
    "list_all (upload_ok lf) rs" "leaf_seqs (gl_id lf) s = [1..<Suc m]" "m \<le> 201"
  shows "map isl (fst (bulk_uploads lf rs s)) = replicate (min (length rs) (201 - m)) False @ replicate (length rs - (201 - m)) True"
  using assms(3-5)
proof (induction rs arbitrary: s m)
  case (Cons r rs)
  from Cons.prems have r: "upload_ok lf r" and rs: "list_all (upload_ok lf) rs" by simp_all
  note st = upload_step [OF assms(1,2) r Cons.prems(2,3)]
  show ?case
  proof (cases "m < 201")
    case True
    then have "map isl (fst (bulk_uploads lf rs (snd (bulk_upload lf r s))))
       = replicate (min (length rs) (201 - Suc m)) False @ replicate (length rs - (201 - Suc m)) True"
      using st Cons.IH [OF rs, of "snd (bulk_upload lf r s)" "Suc m"] by simp
    moreover obtain k where "201 - m = Suc k" using True by (metis Suc_diff_Suc)
    ultimately show ?thesis using st True
      by (cases "bulk_upload lf r s") (auto simp: split_beta Let_def diff_Suc split: nat.splits)
  next
    case False
    then have "m = 201" using Cons.prems(3) by simp
    then show ?thesis using st Cons.IH [OF rs Cons.prems(2,3)] by (simp add: split_beta Let_def)
  qed
qed simp

text \<open>A custom leaf takes at most 201 bulk uploads: the next sequence number is read from the oldest 200 batches
  only, so whatever valid requests are made, the first 201 succeed and from the 202nd on every upload fails on the
  unique key of leaf and sequence number.\<close>

theorem uploads_end_at_201:
  assumes "gl_pattern lf = CustomPattern" "gl_state lf = LConfiguring \<or> gl_state lf = LActive"
    "list_all (upload_ok lf) rs" "leaf_seqs (gl_id lf) s = []"
  shows "map isl (fst (bulk_uploads lf rs s)) = replicate (min (length rs) 201) False @ replicate (length rs - 201) True"
  using bulk_uploads_outcomes [of lf rs s 0] assms by simp

definition custom_leaf :: gen_leaf where
  "custom_leaf = line_leaf\<lparr>gl_pattern := CustomPattern, gl_strategy := None\<rparr>"

theorem uploads_end_at_201_witness:
  "map isl (fst (bulk_uploads custom_leaf (replicate 203 [\<lparr>up_input = [], up_input_ref = None, up_parameters = ''{}'',
      up_estimate = None\<rparr>]) (ls_store lazy_init))) = replicate 201 False @ replicate 2 True"
proof -
  let ?r = "[\<lparr>up_input = [], up_input_ref = None, up_parameters = ''{}'', up_estimate = None\<rparr>]"
  have "list_all (upload_ok custom_leaf) (replicate 203 ?r)"
    by (simp add: list_all_iff upload_ok_def)
  moreover have "leaf_seqs (gl_id custom_leaf) (ls_store lazy_init) = []" by (simp add: leaf_seqs_def lazy_init_def)
  moreover have "gl_pattern custom_leaf = CustomPattern" "gl_state custom_leaf = LActive" by (simp_all add: custom_leaf_def line_leaf_def)
  ultimately show ?thesis using uploads_end_at_201 [of custom_leaf "replicate 203 ?r" "ls_store lazy_init"]
    by (simp)
qed

end
