(* ===== verification/RequestAuth.thy ===== *)
theory RequestAuth
  imports Decimals
begin

text \<open>
  The signatures of the volunteers' calls (\<open>internal/server/grpc_auth.go\<close>, \<open>grpc_admission.go\<close> and
  \<open>replay_store.go\<close>): the screen of a call's metadata before its body is read, the verification of its signature
  and the store that refuses a signature it has seen. Signing, hashing and the encoding of a request are arguments;
  the clock is read in nanoseconds since the epoch, and a timestamp is a text of whole seconds.
\<close>

section \<open>What a call carries\<close>

record auth_metadata =
  am_keys :: "string list"
  am_signatures :: "string list"
  am_timestamps :: "string list"
  am_nonces :: "string list"

text \<open>A body that is no message has no bytes to hash.\<close>

record signed_call =
  sc_method :: string
  sc_body :: "string option"
  sc_metadata :: auth_metadata

datatype auth_error =
    MissingMetadata
  | BadPublicKey
  | BadSignatureLength
  | BadTimestamp
  | MissingNonce
  | NonceTooLong
  | OutsideSkew
  | NotAMessage
  | InvalidSignature
  | ReplayStoreUnavailable
  | ReplayedSignature

definition public_key_size :: nat where "public_key_size = 32"
definition signature_size :: nat where "signature_size = 64"
definition grpc_auth_max_nonce_len :: nat where "grpc_auth_max_nonce_len = 256"
definition nanos :: int where "nanos = 1000000000"
definition ed25519_timestamp_skew :: int where "ed25519_timestamp_skew = 300 * nanos"

definition outside_skew :: "int \<Rightarrow> int \<Rightarrow> bool" where
  "outside_skew now ts = (let skew = now - ts * nanos in skew < - ed25519_timestamp_skew \<or> skew > ed25519_timestamp_skew)"

section \<open>The signatures seen\<close>

type_synonym seen_signatures = "string \<rightharpoonup> int"

definition evict_expired :: "int \<Rightarrow> int \<Rightarrow> seen_signatures \<Rightarrow> seen_signatures" where
  "evict_expired ttl now seen =
     (\<lambda>k. case seen k of None \<Rightarrow> None | Some t \<Rightarrow> if now - t > ttl then None else Some t)"

definition check_and_add :: "int \<Rightarrow> string \<Rightarrow> int \<Rightarrow> seen_signatures \<Rightarrow> bool \<times> seen_signatures" where
  "check_and_add ttl sig now seen =
     (let kept = evict_expired ttl now seen in
      if kept sig \<noteq> None then (False, kept) else (True, kept(sig \<mapsto> now)))"

text \<open>Whether the signature was seen, \<open>None\<close> when a store cannot say; the store of one process always can.\<close>

definition in_mem_seen_within :: "string \<Rightarrow> int \<Rightarrow> seen_signatures \<Rightarrow> bool option \<times> seen_signatures" where
  "in_mem_seen_within sig now seen =
     (case check_and_add ed25519_timestamp_skew sig now seen of (fresh, seen') \<Rightarrow> (Some (\<not> fresh), seen'))"

section \<open>Verification\<close>

record auth_env =
  ae_verify :: "string \<Rightarrow> string \<Rightarrow> string \<Rightarrow> bool"
  ae_sha_hex :: "string \<Rightarrow> string"
  ae_fails_open :: bool

definition canonical_grpc_auth_message :: "auth_env \<Rightarrow> int \<Rightarrow> string \<Rightarrow> string \<Rightarrow> string \<Rightarrow> string" where
  "canonical_grpc_auth_message ae ts full_method body nonce =
     show_int ts @ '':'' @ full_method @ '':'' @ ae_sha_hex ae body @ '':'' @ nonce"

definition verify_grpc_auth :: "auth_env \<Rightarrow> (string \<Rightarrow> int \<Rightarrow> 's \<Rightarrow> bool option \<times> 's) \<Rightarrow> int \<Rightarrow> signed_call \<Rightarrow> 's
    \<Rightarrow> (auth_error + string) \<times> 's" where
  "verify_grpc_auth ae seen_within now sc s =
     (let md = sc_metadata sc in
      if am_keys md = [] \<or> am_signatures md = [] \<or> am_timestamps md = [] then (Inl MissingMetadata, s)
      else if length (hd (am_keys md)) \<noteq> public_key_size then (Inl BadPublicKey, s)
      else if length (hd (am_signatures md)) \<noteq> signature_size then (Inl BadSignatureLength, s)
      else case parse_int64 (hd (am_timestamps md)) of None \<Rightarrow> (Inl BadTimestamp, s)
      | Some ts \<Rightarrow>
        if am_nonces md = [] \<or> hd (am_nonces md) = [] then (Inl MissingNonce, s)
        else if length (hd (am_nonces md)) > grpc_auth_max_nonce_len then (Inl NonceTooLong, s)
        else if outside_skew now ts then (Inl OutsideSkew, s)
        else case sc_body sc of None \<Rightarrow> (Inl NotAMessage, s)
        | Some body \<Rightarrow>
          let key = hd (am_keys md); sig = hd (am_signatures md) in
          if \<not> ae_verify ae key (canonical_grpc_auth_message ae ts (sc_method sc) body (hd (am_nonces md))) sig
          then (Inl InvalidSignature, s)
          else case seen_within sig now s of
            (None, s') \<Rightarrow> (if ae_fails_open ae then (Inr key, s') else (Inl ReplayStoreUnavailable, s'))
          | (Some True, s') \<Rightarrow> (Inl ReplayedSignature, s')
          | (Some False, s') \<Rightarrow> (Inr key, s'))"

text \<open>The screen before the body is read: the shape of the metadata only.\<close>

definition screen_auth_metadata_shape :: "int \<Rightarrow> auth_metadata \<Rightarrow> auth_error option" where
  "screen_auth_metadata_shape now md =
     (if am_keys md = [] \<or> am_signatures md = [] \<or> am_timestamps md = [] then Some MissingMetadata
      else if length (hd (am_keys md)) \<noteq> public_key_size then Some BadPublicKey
      else if length (hd (am_signatures md)) \<noteq> signature_size then Some BadSignatureLength
      else case parse_int64 (hd (am_timestamps md)) of None \<Rightarrow> Some BadTimestamp
      | Some ts \<Rightarrow>
        if outside_skew now ts then Some OutsideSkew
        else if am_nonces md = [] \<or> hd (am_nonces md) = [] then Some MissingNonce
        else if length (hd (am_nonces md)) > grpc_auth_max_nonce_len then Some NonceTooLong
        else None)"

text \<open>The methods without identity, and the calls of one head in the order it verifies them.\<close>

definition grpc_public_methods :: "string list" where
  "grpc_public_methods =
     [''/lettuce.volunteer.v1.VolunteerService/GetServerStatus'', ''/lettuce.volunteer.v1.VolunteerService/GetHeadInfo'']"

definition auth_intercept :: "auth_env \<Rightarrow> (string \<Rightarrow> int \<Rightarrow> 's \<Rightarrow> bool option \<times> 's) \<Rightarrow> int \<Rightarrow> signed_call \<Rightarrow> 's
    \<Rightarrow> (auth_error + string option) \<times> 's" where
  "auth_intercept ae seen_within now sc s =
     (if sc_method sc \<in> set grpc_public_methods then (Inr None, s)
      else case verify_grpc_auth ae seen_within now sc s of
        (Inl e, s') \<Rightarrow> (Inl e, s') | (Inr key, s') \<Rightarrow> (Inr (Some key), s'))"

fun intercept_all :: "auth_env \<Rightarrow> (string \<Rightarrow> int \<Rightarrow> 's \<Rightarrow> bool option \<times> 's) \<Rightarrow> (int \<times> signed_call) list \<Rightarrow> 's
    \<Rightarrow> (auth_error + string option) list \<times> 's" where
  "intercept_all ae seen_within [] s = ([], s)"
| "intercept_all ae seen_within ((now, sc) # calls) s =
     (case auth_intercept ae seen_within now sc s of
        (r, s1) \<Rightarrow> (case intercept_all ae seen_within calls s1 of (rs, s2) \<Rightarrow> (r # rs, s2)))"

section \<open>Replays\<close>

text \<open>
  What a call relies on from a replay store: \<open>since s sig\<close> is when the store recorded a signature, and for \<open>ttl\<close>
  nanoseconds from then on it keeps the record and does not pass the signature as new.
\<close>

locale replay_store =
  fixes seen_within :: "string \<Rightarrow> int \<Rightarrow> 's \<Rightarrow> bool option \<times> 's"
    and since :: "'s \<Rightarrow> string \<Rightarrow> int option"
    and ttl :: int
  assumes records: "seen_within sig now s = (Some False, s') \<Longrightarrow> since s' sig = Some now"
    and remembers: "seen_within sig' now s = (r, s') \<Longrightarrow> since s sig = Some t \<Longrightarrow> now - t \<le> ttl \<Longrightarrow> since s' sig = Some t"
    and refuses: "since s sig = Some t \<Longrightarrow> now - t \<le> ttl \<Longrightarrow> seen_within sig now s = (r, s') \<Longrightarrow> r \<noteq> Some False"
begin

lemma intercept_remembers:
  assumes "since s sig = Some t" "now - t \<le> ttl"
  shows "since (snd (auth_intercept ae seen_within now sc s)) sig = Some t"
proof -
  have "since s' sig = Some t" if "verify_grpc_auth ae seen_within now sc s = (r, s')" for r s'
    using that assms remembers [of "hd (am_signatures (sc_metadata sc))" now s]
    by (auto simp: verify_grpc_auth_def Let_def split: if_splits option.splits prod.splits bool.splits)
  then show ?thesis
    using assms by (cases "verify_grpc_auth ae seen_within now sc s") (auto simp: auth_intercept_def split: sum.split)
qed

lemma replayed_not_accepted:
  assumes "since s (hd (am_signatures (sc_metadata sc))) = Some t" "now - t \<le> ttl" "\<not> ae_fails_open ae"
    "sc_method sc \<notin> set grpc_public_methods"
  shows "\<exists>e. fst (auth_intercept ae seen_within now sc s) = Inl e"
  using assms refuses [OF assms(1,2)]
  by (auto simp: auth_intercept_def verify_grpc_auth_def Let_def split: if_splits option.splits prod.splits bool.splits sum.splits)

end

lemma accepted_is_fresh:
  assumes "auth_intercept ae seen_within now sc s = (Inr k, s')" "sc_method sc \<notin> set grpc_public_methods"
  obtains ts r where "parse_int64 (hd (am_timestamps (sc_metadata sc))) = Some ts" "\<not> outside_skew now ts"
    "seen_within (hd (am_signatures (sc_metadata sc))) now s = (r, s')" "r = Some False \<or> r = None \<and> ae_fails_open ae"
  using assms
  by (auto simp: auth_intercept_def verify_grpc_auth_def Let_def split: if_splits option.splits prod.splits bool.splits sum.splits)

definition recorded_at :: "seen_signatures \<Rightarrow> string \<Rightarrow> int option" where
  "recorded_at seen sig = seen sig"

interpretation one_head: replay_store in_mem_seen_within recorded_at ed25519_timestamp_skew
  by unfold_locales
    (auto simp: in_mem_seen_within_def check_and_add_def evict_expired_def recorded_at_def Let_def split: if_splits option.splits)

lemma intercept_nth:
  "i < length calls \<Longrightarrow> fst (intercept_all ae sw calls s) ! i =
     fst (auth_intercept ae sw (fst (calls ! i)) (snd (calls ! i)) (snd (intercept_all ae sw (take i calls) s)))"
proof (induction calls arbitrary: i s)
  case (Cons x calls)
  then show ?case by (cases x; cases i) (simp_all add: case_prod_beta)
qed simp

lemma intercept_take_Suc:
  "i < length calls \<Longrightarrow> snd (intercept_all ae sw (take (Suc i) calls) s) =
     snd (auth_intercept ae sw (fst (calls ! i)) (snd (calls ! i)) (snd (intercept_all ae sw (take i calls) s)))"
proof (induction calls arbitrary: i s)
  case (Cons x calls)
  then show ?case by (cases x; cases i) (simp_all add: case_prod_beta)
qed simp

context replay_store
begin

lemma record_persists:
  assumes "since (snd (intercept_all ae seen_within (take (Suc i) calls) s)) sig = Some t" "Suc i \<le> j" "j \<le> length calls"
    "\<And>k. i < k \<Longrightarrow> k < j \<Longrightarrow> fst (calls ! k) - t \<le> ttl"
  shows "since (snd (intercept_all ae seen_within (take j calls) s)) sig = Some t"
  using assms(2-4)
proof (induction j rule: dec_induct)
  case base
  then show ?case by (simp add: assms(1))
next
  case (step m)
  have m: "since (snd (intercept_all ae seen_within (take m calls) s)) sig = Some t" using step by simp
  have "fst (calls ! m) - t \<le> ttl" using step.prems(2) [of m] step.hyps by simp
  then have "since (snd (auth_intercept ae seen_within (fst (calls ! m)) (snd (calls ! m))
      (snd (intercept_all ae seen_within (take m calls) s)))) sig = Some t"
    by (rule intercept_remembers [OF m])
  then show ?case using intercept_take_Suc [of m calls ae seen_within s] step.prems(1) by simp
qed

lemma accepted_once:
  assumes "sorted_wrt (\<le>) (map fst calls)" "i < j" "j < length calls" "snd (calls ! i) = snd (calls ! j)"
    "sc_method (snd (calls ! i)) \<notin> set grpc_public_methods" "\<not> ae_fails_open ae"
    "fst (intercept_all ae seen_within calls s) ! i = Inr k" "fst (calls ! j) - fst (calls ! i) \<le> ttl"
  shows "\<exists>e. fst (intercept_all ae seen_within calls s) ! j = Inl e"
proof -
  let ?si = "snd (intercept_all ae seen_within (take i calls) s)" and ?sj = "snd (intercept_all ae seen_within (take j calls) s)"
  let ?sc = "snd (calls ! i)" and ?t = "fst (calls ! i)"
  obtain s' where a: "auth_intercept ae seen_within ?t ?sc ?si = (Inr k, s')"
    using assms(2,3,7) intercept_nth [of i calls ae seen_within s] by (metis fst_conv order.strict_trans surj_pair)
  then obtain r where "seen_within (hd (am_signatures (sc_metadata ?sc))) ?t ?si = (Some False, s')"
    using accepted_is_fresh [OF a assms(5)] assms(6) by metis
  then have "since s' (hd (am_signatures (sc_metadata ?sc))) = Some ?t" by (rule records)
  then have "since (snd (intercept_all ae seen_within (take (Suc i) calls) s)) (hd (am_signatures (sc_metadata ?sc))) = Some ?t"
    using intercept_take_Suc [of i calls ae seen_within s] a assms(2,3) by simp
  moreover have "fst (calls ! k) - ?t \<le> ttl" if "i < k" "k < j" for k
  proof -
    have "fst (calls ! k) \<le> fst (calls ! j)"
      using sorted_wrt_nth_less [OF assms(1), of k j] that assms(3) by simp
    then show ?thesis using assms(8) by linarith
  qed
  ultimately have "since ?sj (hd (am_signatures (sc_metadata ?sc))) = Some ?t"
    using record_persists [of ae i calls s "hd (am_signatures (sc_metadata ?sc))" ?t j] assms(2,3) by simp
  then show ?thesis
    using replayed_not_accepted [of ?sj "snd (calls ! j)" ?t "fst (calls ! j)" ae] assms(3-6,8)
      intercept_nth [of j calls ae seen_within s] by simp
qed

end



section \<open>Calls dated ahead\<close>

text \<open>A call the head would accept from a store that has not seen it.\<close>

definition well_signed :: "auth_env \<Rightarrow> int \<Rightarrow> signed_call \<Rightarrow> bool" where
  "well_signed ae now sc \<longleftrightarrow> screen_auth_metadata_shape now (sc_metadata sc) = None \<and> sc_body sc \<noteq> None \<and>
     ae_verify ae (hd (am_keys (sc_metadata sc)))
       (canonical_grpc_auth_message ae (the (parse_int64 (hd (am_timestamps (sc_metadata sc))))) (sc_method sc)
          (the (sc_body sc)) (hd (am_nonces (sc_metadata sc))))
       (hd (am_signatures (sc_metadata sc)))"

lemma verify_well_signed:
  "verify_grpc_auth ae sw now sc s =
     (if well_signed ae now sc
      then (case sw (hd (am_signatures (sc_metadata sc))) now s of
              (None, s') \<Rightarrow> (if ae_fails_open ae then (Inr (hd (am_keys (sc_metadata sc))), s') else (Inl ReplayStoreUnavailable, s'))
            | (Some True, s') \<Rightarrow> (Inl ReplayedSignature, s')
            | (Some False, s') \<Rightarrow> (Inr (hd (am_keys (sc_metadata sc))), s'))
      else (fst (verify_grpc_auth ae sw now sc s), s))"
  by (auto simp: verify_grpc_auth_def well_signed_def screen_auth_metadata_shape_def Let_def split: option.splits)

lemma verify_refuses_ill_signed: "\<not> well_signed ae now sc \<Longrightarrow> \<exists>e. verify_grpc_auth ae sw now sc s = (Inl e, s)"
  by (auto simp: verify_grpc_auth_def well_signed_def screen_auth_metadata_shape_def Let_def split: option.splits)

text \<open>The screen before a body is read never costs a volunteer a call: whatever the signature check accepts at an instant has
  passed the screen at that instant, and what the screen refuses the signature check refuses too.\<close>

theorem screen_refuses_only_the_hopeless:
  "(\<exists>k s'. verify_grpc_auth ae seen_within now sc s = (Inr k, s')) \<longrightarrow> screen_auth_metadata_shape now (sc_metadata sc) = None"
proof (intro impI)
  assume "\<exists>k s'. verify_grpc_auth ae seen_within now sc s = (Inr k, s')"
  then have "well_signed ae now sc" using verify_refuses_ill_signed by (metis Inl_Inr_False prod.inject)
  then show "screen_auth_metadata_shape now (sc_metadata sc) = None" by (simp add: well_signed_def)
qed

lemma in_mem_first: "evict_expired ed25519_timestamp_skew now seen sig = None \<Longrightarrow>
    in_mem_seen_within sig now seen = (Some False, (evict_expired ed25519_timestamp_skew now seen)(sig \<mapsto> now))"
  by (simp add: in_mem_seen_within_def check_and_add_def Let_def)

lemma in_mem_after_window:
  "recorded_at seen sig = Some t \<Longrightarrow> ed25519_timestamp_skew < now - t \<Longrightarrow> fst (in_mem_seen_within sig now seen) = Some False"
  by (simp add: in_mem_seen_within_def check_and_add_def evict_expired_def recorded_at_def Let_def)

text \<open>C19. The record of a signature is kept for the skew window from when it was first seen, but a call dated ahead of the head's
  clock verifies for longer than that: the same bytes are accepted again, by the very store that saw them, once
  the record has lapsed and until the call's date is a whole window in the past.\<close>

theorem future_dated_call_is_accepted_again:
  assumes "well_signed ae t1 sc" "parse_int64 (hd (am_timestamps (sc_metadata sc))) = Some ts"
    "t1 + ed25519_timestamp_skew < t2" "t2 \<le> ts * nanos + ed25519_timestamp_skew"
    "sc_method sc \<notin> set grpc_public_methods"
  shows "fst (intercept_all ae in_mem_seen_within [(t1, sc), (t2, sc)] (\<lambda>_. None)) =
    [Inr (Some (hd (am_keys (sc_metadata sc)))), Inr (Some (hd (am_keys (sc_metadata sc))))]"
proof -
  let ?sig = "hd (am_signatures (sc_metadata sc))" and ?k = "hd (am_keys (sc_metadata sc))"
  let ?s1 = "(evict_expired ed25519_timestamp_skew t1 (\<lambda>_. None))(?sig \<mapsto> t1)"
  have "\<not> outside_skew t1 ts"
    using assms(1,2) by (auto simp: well_signed_def screen_auth_metadata_shape_def Let_def split: if_splits)
  then have skew: "\<not> outside_skew t2 ts" using assms(3,4) by (simp add: outside_skew_def Let_def ed25519_timestamp_skew_def nanos_def)
  have ws: "well_signed ae t2 sc"
    using assms(1,2) skew by (auto simp: well_signed_def screen_auth_metadata_shape_def Let_def split: if_splits)
  have first: "verify_grpc_auth ae in_mem_seen_within t1 sc (\<lambda>_. None) = (Inr ?k, ?s1)"
    using assms(1) by (subst verify_well_signed) (simp add: in_mem_first evict_expired_def)
  obtain s2 where second: "in_mem_seen_within ?sig t2 ?s1 = (Some False, s2)"
    using in_mem_after_window [of ?s1 ?sig t1 t2] assms(3) by (metis fun_upd_same prod.collapse recorded_at_def less_diff_eq add.commute)
  have "verify_grpc_auth ae in_mem_seen_within t2 sc ?s1 = (Inr ?k, s2)"
    using ws by (subst verify_well_signed) (simp add: second)
  then show ?thesis using first assms(5) by (simp add: auth_intercept_def)
qed

section \<open>A concrete call\<close>

definition demo_auth :: auth_env where
  "demo_auth = \<lparr>ae_verify = (\<lambda>k m s. True), ae_sha_hex = (\<lambda>b. b), ae_fails_open = False\<rparr>"

text \<open>Dated at second 200.\<close>

definition demo_signed :: signed_call where
  "demo_signed = \<lparr>sc_method = ''StartWork'', sc_body = Some '''',
     sc_metadata = \<lparr>am_keys = [replicate 32 CHR ''k''], am_signatures = [replicate 64 CHR ''s''], am_timestamps = [''200''],
       am_nonces = [''0f'']\<rparr>\<rparr>"

lemma demo_timestamp: "parse_int64 (hd (am_timestamps (sc_metadata demo_signed))) = Some 200"
  by (simp add: demo_signed_def) code_simp

lemma demo_well_signed:
  assumes "-100 * nanos \<le> now" "now \<le> 500 * nanos"
  shows "well_signed demo_auth now demo_signed"
proof -
  have "\<not> outside_skew now 200" using assms by (simp add: outside_skew_def ed25519_timestamp_skew_def nanos_def Let_def)
  then show ?thesis
    using demo_timestamp
    by (simp add: well_signed_def screen_auth_metadata_shape_def demo_auth_def demo_signed_def public_key_size_def
        signature_size_def grpc_auth_max_nonce_len_def)
qed

lemma demo_method: "sc_method demo_signed \<notin> set grpc_public_methods"
  by (simp add: demo_signed_def grpc_public_methods_def)


theorem future_dated_call_is_accepted_again_witness:
  "fst (intercept_all demo_auth in_mem_seen_within [(0, demo_signed), (400 * nanos, demo_signed)] (\<lambda>_. None)) =
     [Inr (Some (replicate 32 CHR ''k'')), Inr (Some (replicate 32 CHR ''k''))]"
proof -
  have k: "hd (am_keys (sc_metadata demo_signed)) = replicate 32 CHR ''k''" by (simp add: demo_signed_def)
  have "well_signed demo_auth 0 demo_signed" by (rule demo_well_signed) (simp_all add: nanos_def)
  from future_dated_call_is_accepted_again [OF this demo_timestamp _ _ demo_method, of "400 * nanos"] show ?thesis
    by (simp add: k ed25519_timestamp_skew_def nanos_def)
qed

theorem screen_refuses_only_the_hopeless_witness:
  "\<exists>k s'. verify_grpc_auth demo_auth in_mem_seen_within 0 demo_signed (\<lambda>_. None) = (Inr k, s') \<and>
     screen_auth_metadata_shape 0 (sc_metadata demo_signed) = None"
proof -
  have "well_signed demo_auth 0 demo_signed" by (rule demo_well_signed) (simp_all add: nanos_def)
  then obtain k s' where v: "verify_grpc_auth demo_auth in_mem_seen_within 0 demo_signed (\<lambda>_. None) = (Inr k, s')"
    using verify_well_signed [of demo_auth in_mem_seen_within 0 demo_signed "\<lambda>_. None"]
    by (simp add: in_mem_first evict_expired_def)
  then have "screen_auth_metadata_shape 0 (sc_metadata demo_signed) = None"
    by (intro screen_refuses_only_the_hopeless [THEN mp] exI)
  then show ?thesis using v by (intro exI conjI)
qed

end
