(* ===== verification/Registration.thy ===== *)
theory Registration
  imports LeafConfig "HOL-Library.Word" "HOL-Library.Option_ord"
begin

text \<open>
  How an account and its machines get onto the head: the creation cap and the proof of work of
  \<open>internal/admission\<close> (with the solution rule of \<open>pow/pow.go\<close>), the admitted creation of \<open>volunteer/pgx-repo.go\<close>,
  the host ids of \<open>volunteer/host-repo.go\<close> and \<open>RegisterVolunteer\<close> with its helpers. The hash is an argument, and so
  is what another replica does to the database between two statements of one call. Columns a decision never reads
  are left out.
\<close>

section \<open>Proof of work\<close>

fun leading_zeros8 :: "nat \<Rightarrow> 8 word \<Rightarrow> nat" where
  "leading_zeros8 0 b = 0"
| "leading_zeros8 (Suc k) b = (if bit b k then 0 else 1 + leading_zeros8 k b)"

fun leading_zero_bits :: "8 word list \<Rightarrow> nat" where
  "leading_zero_bits [] = 0"
| "leading_zero_bits (b # bs) = (if b = 0 then 8 + leading_zero_bits bs else leading_zeros8 8 b)"

text \<open>The nonce as eight bytes, most significant first.\<close>

definition nonce_bytes :: "64 word \<Rightarrow> 8 word list" where
  "nonce_bytes n = map (\<lambda>k. ucast (drop_bit (8 * k) n)) [7, 6, 5, 4, 3, 2, 1, 0]"

definition verify_solution :: "(8 word list \<Rightarrow> 8 word list) \<Rightarrow> 8 word list \<Rightarrow> 8 word list \<Rightarrow> 64 word \<Rightarrow> int \<Rightarrow> bool" where
  "verify_solution sha256 challenge key nonce difficulty \<longleftrightarrow>
     int (leading_zero_bits (sha256 (challenge @ key @ nonce_bytes nonce))) \<ge> difficulty"

text \<open>The reference solver scans from zero; a nonce space without a solution is scanned for ever.\<close>

partial_function (option) solve_from :: "(64 word \<Rightarrow> bool) \<Rightarrow> 64 word \<Rightarrow> 64 word option" where
  "solve_from ok nonce = (if ok nonce then Some nonce else solve_from ok (nonce + 1))"

definition solve_pow :: "(8 word list \<Rightarrow> 8 word list) \<Rightarrow> 8 word list \<Rightarrow> 8 word list \<Rightarrow> int \<Rightarrow> 64 word option" where
  "solve_pow sha256 challenge key difficulty = solve_from (\<lambda>n. verify_solution sha256 challenge key n difficulty) 0"

section \<open>The tables\<close>

record reg_hardware =
  rh_cpu_cores :: int
  rh_max_cpu_cores :: int
  rh_memory_total_mb :: int
  rh_max_memory_mb :: int
  rh_host_max_cpu_cores :: int
  rh_host_max_memory_mb :: int

record account_row =
  ac_id :: uid
  ac_key :: "8 word list"
  ac_name :: "string option"
  ac_hardware :: reg_hardware
  ac_runtimes :: "string list"
  ac_mode :: string
  ac_active :: bool
  ac_last_seen :: "time option"

record host_row =
  ho_id :: uid
  ho_account :: uid
  ho_name :: "string option"
  ho_hardware :: reg_hardware
  ho_runtimes :: "string list"
  ho_active :: bool
  ho_last_seen :: "time option"

record challenge_row =
  ch_id :: uid
  ch_key :: "8 word list"
  ch_bytes :: "8 word list"
  ch_difficulty :: int
  ch_expires :: time

record reg_db =
  rg_accounts :: "account_row list"
  rg_hosts :: "host_row list"
  rg_counts :: "string \<times> int \<Rightarrow> int option"
  rg_challenges :: "challenge_row list"
  rg_now :: time

datatype reg_error =
    CapExceeded
  | ChallengeInvalid
  | SolutionInvalid
  | DuplicateKey
  | NoSuchAccount

type_synonym 'a reg_op = "reg_db \<Rightarrow> (reg_error + 'a) \<times> reg_db"

definition reg_tx :: "'a reg_op \<Rightarrow> 'a reg_op" where
  "reg_tx m d = (case m d of (Inl e, _) \<Rightarrow> (Inl e, d) | (Inr a, d') \<Rightarrow> (Inr a, d'))"

definition reg_bind :: "'a reg_op \<Rightarrow> ('a \<Rightarrow> 'b reg_op) \<Rightarrow> 'b reg_op" where
  "reg_bind m k d = (case m d of (Inl e, d') \<Rightarrow> (Inl e, d') | (Inr a, d') \<Rightarrow> k a d')"

definition reg_done :: "unit reg_op" where
  "reg_done d = (Inr (), d)"

section \<open>The gates of a creation\<close>

record pow_redemption =
  pr_challenge :: uid
  pr_key :: "8 word list"
  pr_nonce :: "64 word"

record create_gate =
  cg_bucket :: string
  cg_cap_per_day :: int
  cg_pow :: "pow_redemption option"

definition utc_day :: "time \<Rightarrow> int" where
  "utc_day t = t div 86400"

definition reserve_creation_slot :: "string \<Rightarrow> int \<Rightarrow> unit reg_op" where
  "reserve_creation_slot bucket cap d =
     (let k = (bucket, utc_day (rg_now d));
          n = (case rg_counts d k of None \<Rightarrow> 1 | Some n \<Rightarrow> n + 1);
          d' = d\<lparr>rg_counts := (rg_counts d)(k := Some n)\<rparr>
      in if n > cap then (Inl CapExceeded, d') else (Inr (), d'))"

definition redeemable :: "time \<Rightarrow> pow_redemption \<Rightarrow> challenge_row \<Rightarrow> bool" where
  "redeemable now red c \<longleftrightarrow> ch_id c = pr_challenge red \<and> ch_key c = pr_key red \<and> ch_expires c > now"

definition redeem_challenge :: "(8 word list \<Rightarrow> 8 word list) \<Rightarrow> pow_redemption \<Rightarrow> unit reg_op" where
  "redeem_challenge sha256 red d =
     (case find (redeemable (rg_now d) red) (rg_challenges d) of
        None \<Rightarrow> (Inl ChallengeInvalid, d)
      | Some c \<Rightarrow>
          let d' = d\<lparr>rg_challenges := filter (\<lambda>c. \<not> redeemable (rg_now d) red c) (rg_challenges d)\<rparr> in
          if verify_solution sha256 (ch_bytes c) (pr_key red) (pr_nonce red) (ch_difficulty c)
          then (Inr (), d') else (Inl SolutionInvalid, d'))"

definition create_in :: "account_row \<Rightarrow> unit reg_op" where
  "create_in v d =
     (if ac_key v \<in> ac_key ` set (rg_accounts d) then (Inl DuplicateKey, d)
      else (Inr (), d\<lparr>rg_accounts := rg_accounts d @ [v]\<rparr>))"

definition create_admitted :: "(8 word list \<Rightarrow> 8 word list) \<Rightarrow> create_gate option \<Rightarrow> account_row \<Rightarrow> unit reg_op" where
  "create_admitted sha256 gate v =
     (case gate of
        None \<Rightarrow> create_in v
      | Some g \<Rightarrow> reg_tx (
          reg_bind (case cg_pow g of None \<Rightarrow> reg_done | Some red \<Rightarrow> redeem_challenge sha256 red) (\<lambda>_.
          reg_bind (if cg_cap_per_day g > 0 then reserve_creation_slot (cg_bucket g) (cg_cap_per_day g) else reg_done) (\<lambda>_.
          create_in v))))"

definition issue_challenge :: "uid \<Rightarrow> 8 word list \<Rightarrow> 8 word list \<Rightarrow> int \<Rightarrow> int \<Rightarrow> reg_db \<Rightarrow> challenge_row \<times> reg_db" where
  "issue_challenge i key bytes difficulty ttl d =
     (let c = \<lparr>ch_id = i, ch_key = key, ch_bytes = bytes, ch_difficulty = difficulty, ch_expires = rg_now d + ttl\<rparr>
      in (c, d\<lparr>rg_challenges := rg_challenges d @ [c]\<rparr>))"

definition counter_retention_days :: int where "counter_retention_days = 7"

definition sweep_counters :: "reg_db \<Rightarrow> reg_db" where
  "sweep_counters d =
     d\<lparr>rg_counts := (\<lambda>(b, day). if day < utc_day (rg_now d) - counter_retention_days then None else rg_counts d (b, day))\<rparr>"

definition sweep_challenges :: "reg_db \<Rightarrow> reg_db" where
  "sweep_challenges d = d\<lparr>rg_challenges := filter (\<lambda>c. \<not> ch_expires c < rg_now d) (rg_challenges d)\<rparr>"

section \<open>The ids of an account's machines\<close>

text \<open>The stalest machine of the account that has not been seen since the cutoff; one never seen is stalest.\<close>

definition stale_host :: "uid \<Rightarrow> time \<Rightarrow> host_row \<Rightarrow> bool" where
  "stale_host a cutoff h \<longleftrightarrow> ho_account h = a \<and> (case ho_last_seen h of None \<Rightarrow> True | Some t \<Rightarrow> t < cutoff)"

definition stalest_host :: "uid \<Rightarrow> time \<Rightarrow> host_row list \<Rightarrow> host_row option" where
  "stalest_host a cutoff hs =
     (case sort_key ho_last_seen (filter (stale_host a cutoff) hs) of
        [] \<Rightarrow> None | h # _ \<Rightarrow> Some h)"

definition mint_host :: "host_row \<Rightarrow> int \<Rightarrow> int \<Rightarrow> bool reg_op" where
  "mint_host h cap_per_account active_window d =
     (let add = (\<lambda>hs. d\<lparr>rg_hosts := hs @ [h]\<rparr>) in
      if cap_per_account \<le> 0 then (Inr True, add (rg_hosts d))
      else if ho_account h \<notin> ac_id ` set (rg_accounts d) then (Inl NoSuchAccount, d)
      else if count_if (\<lambda>x. ho_account x = ho_account h) (rg_hosts d) \<ge> cap_per_account
      then (case stalest_host (ho_account h) (rg_now d - active_window) (rg_hosts d) of
              None \<Rightarrow> (Inr False, d)
            | Some old \<Rightarrow> (Inr True, add (filter (\<lambda>x. ho_id x \<noteq> ho_id old) (rg_hosts d))))
      else (Inr True, add (rg_hosts d)))"

definition upsert_host :: "host_row \<Rightarrow> reg_db \<Rightarrow> reg_db" where
  "upsert_host h d =
     (if ho_id h \<in> ho_id ` set (rg_hosts d)
      then d\<lparr>rg_hosts := map (\<lambda>x. if ho_id x = ho_id h
               then x\<lparr>ho_name := ho_name h, ho_hardware := ho_hardware h, ho_runtimes := ho_runtimes h,
                      ho_active := ho_active h, ho_last_seen := ho_last_seen h\<rparr> else x) (rg_hosts d)\<rparr>
      else d\<lparr>rg_hosts := rg_hosts d @ [h]\<rparr>)"

definition touch_host :: "uid \<Rightarrow> reg_db \<Rightarrow> reg_db" where
  "touch_host i d = d\<lparr>rg_hosts := map (\<lambda>x. if ho_id x = i then x\<lparr>ho_last_seen := Some (rg_now d), ho_active := True\<rparr> else x)
     (rg_hosts d)\<rparr>"

section \<open>Registering\<close>

record register_request =
  rr_key :: "8 word list"
  rr_hardware :: "reg_hardware option"
  rr_client_version :: string
  rr_runtimes :: "string list"
  rr_mode :: string
  rr_name :: string
  rr_pow_challenge :: uid
  rr_pow_nonce :: "64 word"
  rr_host :: uid

text \<open>
  The head's policies, what a call proves and where it comes from, the bucket of an address, the ids the database
  creates, the ids that parse, and what other replicas do between the lookup of the key and the creation.
\<close>

record register_env =
  re_authed :: "8 word list option"
  re_client_ip :: "string option"
  re_bucket_for_ip :: "string \<Rightarrow> string option"
  re_cap_enabled :: bool
  re_cap_per_day :: int
  re_pow_enabled :: bool
  re_host_cap :: int
  re_host_window :: int
  re_account_id :: uid
  re_host_id :: uid
  re_sha256 :: "8 word list \<Rightarrow> 8 word list"
  re_parses_id :: "string \<Rightarrow> bool"
  re_meanwhile :: "reg_db \<Rightarrow> reg_db"

datatype register_refusal =
    BadRequest string
  | NotAuthenticated
  | WrongKey
  | PowRequired
  | DailyCapReached
  | ProofRejected
  | RegisterInternal

record register_reply =
  ry_account :: uid
  ry_new :: bool
  ry_host :: uid

definition max_client_version_len :: nat where "max_client_version_len = 128"

definition check_hardware :: "reg_hardware \<Rightarrow> register_refusal option" where
  "check_hardware hw =
     (if rh_cpu_cores hw \<le> 0 then Some (BadRequest ''cpu_cores'')
      else if rh_max_cpu_cores hw \<le> 0 \<or> rh_max_cpu_cores hw > rh_cpu_cores hw then Some (BadRequest ''max_cpu_cores'')
      else if rh_memory_total_mb hw \<le> 0 then Some (BadRequest ''memory_total_mb'')
      else if rh_max_memory_mb hw \<le> 0 \<or> rh_max_memory_mb hw > rh_memory_total_mb hw then Some (BadRequest ''max_memory_mb'')
      else if rh_host_max_cpu_cores hw < 0 \<or> rh_host_max_cpu_cores hw > rh_cpu_cores hw
        then Some (BadRequest ''host_max_cpu_cores'')
      else if rh_host_max_memory_mb hw < 0 \<or> rh_host_max_memory_mb hw > rh_memory_total_mb hw
        then Some (BadRequest ''host_max_memory_mb'')
      else None)"

definition scheduling_mode_of :: "register_request \<Rightarrow> string" where
  "scheduling_mode_of rq = (if rr_mode rq = [] then ''ALWAYS'' else rr_mode rq)"

definition check_registration :: "register_env \<Rightarrow> register_request \<Rightarrow> register_refusal option" where
  "check_registration re rq =
     (if length (rr_key rq) \<noteq> 32 then Some (BadRequest ''public_key'')
      else case re_authed re of None \<Rightarrow> Some NotAuthenticated
      | Some key \<Rightarrow>
        if key \<noteq> rr_key rq then Some WrongKey
        else case rr_hardware rq of None \<Rightarrow> Some (BadRequest ''hardware'')
        | Some hw \<Rightarrow> (case check_hardware hw of Some e \<Rightarrow> Some e
          | None \<Rightarrow>
            if length (rr_client_version rq) > max_client_version_len then Some (BadRequest ''client_version'')
            else if rr_runtimes rq = [] then Some (BadRequest ''available_runtimes'')
            else if \<not> set (rr_runtimes rq) \<subseteq> {runtime_native, runtime_container, runtime_wasm} then Some (BadRequest ''runtime'')
            else if scheduling_mode_of rq \<notin> set [''ALWAYS'', ''WHEN_IDLE'', ''SCHEDULED''] then Some (BadRequest ''scheduling_mode'')
            else None))"

definition registration_gate :: "register_env \<Rightarrow> unit + create_gate option" where
  "registration_gate re =
     (if \<not> re_cap_enabled re then Inr None
      else case re_client_ip re of None \<Rightarrow> Inl ()
      | Some ip \<Rightarrow> (case re_bucket_for_ip re ip of None \<Rightarrow> Inl ()
          | Some b \<Rightarrow> Inr (Some \<lparr>cg_bucket = b, cg_cap_per_day = re_cap_per_day re, cg_pow = None\<rparr>)))"

definition name_of :: "register_request \<Rightarrow> string option" where
  "name_of rq = (if rr_name rq = [] then None else Some (rr_name rq))"

definition requested_host :: "register_request \<Rightarrow> uid \<Rightarrow> uid \<Rightarrow> time \<Rightarrow> host_row" where
  "requested_host rq i a now =
     \<lparr>ho_id = i, ho_account = a, ho_name = name_of rq, ho_hardware = the (rr_hardware rq), ho_runtimes = rr_runtimes rq,
      ho_active = True, ho_last_seen = Some now\<rparr>"

definition resolve_registered_host :: "register_env \<Rightarrow> register_request \<Rightarrow> uid \<Rightarrow> time \<Rightarrow> reg_db \<Rightarrow> uid \<times> reg_db" where
  "resolve_registered_host re rq a now d =
     (if rr_host rq \<noteq> [] then
        (case find (\<lambda>h. ho_id h = rr_host rq) (rg_hosts d) of
           None \<Rightarrow> ([], d)
         | Some h \<Rightarrow> if ho_account h \<noteq> a then ([], d)
                     else (rr_host rq, upsert_host (requested_host rq (rr_host rq) a now) d))
      else (case mint_host (requested_host rq (re_host_id re) a now) (re_host_cap re) (re_host_window re) d of
              (Inr True, d') \<Rightarrow> (re_host_id re, d')
            | (_, d') \<Rightarrow> ([], d')))"

definition new_account :: "register_env \<Rightarrow> register_request \<Rightarrow> time \<Rightarrow> account_row" where
  "new_account re rq now =
     \<lparr>ac_id = re_account_id re, ac_key = rr_key rq, ac_name = name_of rq, ac_hardware = the (rr_hardware rq),
      ac_runtimes = rr_runtimes rq, ac_mode = scheduling_mode_of rq, ac_active = True, ac_last_seen = Some now\<rparr>"

definition refresh_account :: "register_request \<Rightarrow> uid \<Rightarrow> time \<Rightarrow> reg_db \<Rightarrow> reg_db" where
  "refresh_account rq a now d =
     d\<lparr>rg_accounts := map (\<lambda>x. if ac_id x = a
         then x\<lparr>ac_name := name_of rq, ac_hardware := the (rr_hardware rq), ac_runtimes := rr_runtimes rq,
                ac_mode := scheduling_mode_of rq, ac_active := True, ac_last_seen := Some now\<rparr>
         else x) (rg_accounts d)\<rparr>"

definition register_known :: "register_env \<Rightarrow> register_request \<Rightarrow> account_row \<Rightarrow> time \<Rightarrow> reg_db \<Rightarrow> (register_refusal + register_reply) \<times> reg_db" where
  "register_known re rq acc now d =
     (case resolve_registered_host re rq (ac_id acc) now (refresh_account rq (ac_id acc) now d) of
        (h, d') \<Rightarrow> (Inr \<lparr>ry_account = ac_id acc, ry_new = False, ry_host = h\<rparr>, d'))"

definition gate_with_pow :: "register_env \<Rightarrow> register_request \<Rightarrow> create_gate option \<Rightarrow> create_gate option" where
  "gate_with_pow re rq gate =
     (if \<not> re_pow_enabled re then gate
      else let red = Some \<lparr>pr_challenge = rr_pow_challenge rq, pr_key = rr_key rq, pr_nonce = rr_pow_nonce rq\<rparr> in
        Some (case gate of None \<Rightarrow> \<lparr>cg_bucket = [], cg_cap_per_day = 0, cg_pow = red\<rparr> | Some g \<Rightarrow> g\<lparr>cg_pow := red\<rparr>))"

definition register_volunteer :: "register_env \<Rightarrow> register_request \<Rightarrow> reg_db \<Rightarrow> (register_refusal + register_reply) \<times> reg_db" where
  "register_volunteer re rq d =
     (case check_registration re rq of Some e \<Rightarrow> (Inl e, d)
      | None \<Rightarrow>
        (case find (\<lambda>a. ac_key a = rr_key rq) (rg_accounts d) of
           Some acc \<Rightarrow> register_known re rq acc (rg_now d) d
         | None \<Rightarrow>
            (case registration_gate re of Inl _ \<Rightarrow> (Inl RegisterInternal, d)
             | Inr gate \<Rightarrow>
                if re_pow_enabled re \<and> rr_pow_challenge rq = [] then (Inl PowRequired, d)
                else if re_pow_enabled re \<and> \<not> re_parses_id re (rr_pow_challenge rq) then (Inl (BadRequest ''pow_challenge_id''), d)
                else let d1 = re_meanwhile re d in
                  (case create_admitted (re_sha256 re) (gate_with_pow re rq gate) (new_account re rq (rg_now d)) d1 of
                     (Inr _, d2) \<Rightarrow>
                       (case resolve_registered_host re rq (re_account_id re) (rg_now d) d2 of
                          (h, d3) \<Rightarrow> (Inr \<lparr>ry_account = re_account_id re, ry_new = True, ry_host = h\<rparr>, d3))
                   | (Inl CapExceeded, d2) \<Rightarrow> (Inl DailyCapReached, d2)
                   | (Inl ChallengeInvalid, d2) \<Rightarrow> (Inl ProofRejected, d2)
                   | (Inl SolutionInvalid, d2) \<Rightarrow> (Inl ProofRejected, d2)
                   | (Inl DuplicateKey, d2) \<Rightarrow>
                       (case find (\<lambda>a. ac_key a = rr_key rq) (rg_accounts d2) of
                          None \<Rightarrow> (Inl RegisterInternal, d2)
                        | Some acc \<Rightarrow> register_known re rq acc (rg_now d) d2)
                   | (Inl _, d2) \<Rightarrow> (Inl RegisterInternal, d2)))))"


section \<open>What a proof of work proves\<close>

text \<open>A digest read as a number, most significant byte first.\<close>

fun be_value :: "8 word list \<Rightarrow> nat" where
  "be_value [] = 0"
| "be_value (b # bs) = unat b * 256 ^ length bs + be_value bs"

lemma be_value_bound: "be_value bs < 256 ^ length bs"
proof (induction bs)
  case (Cons b bs)
  have "unat b < 256" using unsigned_less [of b, where 'a = nat] by simp
  then have "unat b * 256 ^ length bs \<le> 255 * 256 ^ length bs" by (intro mult_right_mono) simp_all
  then have "unat b * 256 ^ length bs + be_value bs < 255 * 256 ^ length bs + 256 ^ length bs" using Cons by linarith
  then show ?case by simp
qed simp

lemma leading_zeros8_le: "leading_zeros8 k b \<le> k"
  by (induction k) auto

lemma leading_zeros8_bits: "j \<le> k \<Longrightarrow> j \<le> leading_zeros8 k b \<longleftrightarrow> (\<forall>i. k - j \<le> i \<and> i < k \<longrightarrow> \<not> bit b i)"
proof (induction k arbitrary: j)
  case (Suc k)
  show ?case
  proof (cases j)
    case (Suc j')
    have "(\<forall>i. Suc k - j \<le> i \<and> i < Suc k \<longrightarrow> \<not> bit b i) \<longleftrightarrow> \<not> bit b k \<and> (\<forall>i. k - j' \<le> i \<and> i < k \<longrightarrow> \<not> bit b i)"
      using Suc.prems Suc by (auto simp: less_Suc_eq)
    then show ?thesis using Suc.IH [of j'] Suc.prems Suc by auto
  qed auto
qed simp

lemma byte_bits: "j \<le> 8 \<Longrightarrow> j \<le> leading_zeros8 8 b \<longleftrightarrow> unat (b :: 8 word) < 2 ^ (8 - j)"
proof -
  assume j: "j \<le> 8"
  have "unat b < 2 ^ (8 - j) \<longleftrightarrow> take_bit (8 - j) b = b"
    by (auto simp: take_bit_nat_eq_self_iff [symmetric] unsigned_take_bit_eq [symmetric] intro: unsigned_word_eqI)
  also have "\<dots> \<longleftrightarrow> (\<forall>i. 8 - j \<le> i \<and> i < 8 \<longrightarrow> \<not> bit b i)"
    by (auto simp: bit_eq_iff bit_simps not_less)
  finally show ?thesis using leading_zeros8_bits [OF j, of b] by simp
qed


lemma leading_zero_bits_le: "leading_zero_bits bs \<le> 8 * length bs"
proof (induction bs)
  case (Cons b bs)
  then show ?case using leading_zeros8_le [of 8 b] by simp
qed simp

text \<open>A digest meets a difficulty exactly when, read as a number, it lies below the matching power of two: each further bit
  of difficulty halves the digests that solve a challenge.\<close>

theorem difficulty_is_a_threshold:
  assumes "k \<le> 8 * length digest"
  shows "k \<le> leading_zero_bits digest \<longleftrightarrow> be_value digest < 2 ^ (8 * length digest - k)"
  using assms
proof (induction digest arbitrary: k)
  case (Cons b bs)
  let ?n = "length bs"
  have p: "(256::nat) ^ ?n = 2 ^ (8 * ?n)" by (simp add: power_mult)
  have v: "be_value bs < 2 ^ (8 * ?n)" using be_value_bound [of bs] by (simp add: p)
  show ?case
  proof (cases "b = 0")
    case True
    show ?thesis
    proof (cases "k \<le> 8")
      case le: True
      have "(2::nat) ^ (8 * ?n) \<le> 2 ^ (8 * length (b # bs) - k)" by (rule power_increasing) (use le in simp_all)
      with v have "be_value bs < 2 ^ (8 * length (b # bs) - k)" by (rule less_le_trans)
      then show ?thesis using True le by simp
    next
      case False
      then obtain k' where k: "k = 8 + k'" by (metis le_add_diff_inverse nat_le_linear)
      then have "8 * length (b # bs) - k = 8 * ?n - k'" by simp
      moreover have "k' \<le> 8 * ?n" using Cons.prems k by simp
      ultimately show ?thesis using Cons.IH [of k'] True k by simp
    qed
  next
    case False
    then have u: "1 \<le> unat b" using unat_gt_0 [of b] by simp
    show ?thesis
    proof (cases "k \<le> 8")
      case le: True
      have e: "8 * length (b # bs) - k = 8 * ?n + (8 - k)" using le by simp
      have "unat b < 2 ^ (8 - k) \<longleftrightarrow> unat b * 2 ^ (8 * ?n) + be_value bs < 2 ^ (8 - k) * 2 ^ (8 * ?n)"
      proof
        assume "unat b < 2 ^ (8 - k)"
        then have "(unat b + 1) * 2 ^ (8 * ?n) \<le> 2 ^ (8 - k) * 2 ^ (8 * ?n)" by (intro mult_right_mono) simp_all
        then show "unat b * 2 ^ (8 * ?n) + be_value bs < 2 ^ (8 - k) * 2 ^ (8 * ?n)" using v by simp
      next
        assume "unat b * 2 ^ (8 * ?n) + be_value bs < 2 ^ (8 - k) * 2 ^ (8 * ?n)"
        then have "unat b * 2 ^ (8 * ?n) < 2 ^ (8 - k) * 2 ^ (8 * ?n)" by linarith
        then show "unat b < 2 ^ (8 - k)" by simp
      qed
      then show ?thesis using False byte_bits [OF le, of b] by (simp only: e power_add be_value.simps leading_zero_bits.simps p if_False) (simp add: mult.commute)
    next
      case gt: False
      have "leading_zero_bits (b # bs) \<le> 8" using False leading_zeros8_le [of 8 b] by simp
      moreover have "(2::nat) ^ (8 * length (b # bs) - k) \<le> 2 ^ (8 * ?n)" by (rule power_increasing) (use gt in simp_all)
      moreover have "1 * 256 ^ ?n \<le> unat b * 256 ^ ?n" by (rule mult_right_mono [OF u]) simp
      then have "2 ^ (8 * ?n) \<le> unat b * 2 ^ (8 * ?n)" by (simp only: p mult_1)
      then have "2 ^ (8 * ?n) \<le> be_value (b # bs)" by (simp add: p trans_le_add1)
      ultimately show ?thesis using gt by linarith
    qed
  qed
qed simp

lemma solve_from_found:
  assumes "ok (n + of_nat k)" "\<And>j. j < k \<Longrightarrow> \<not> ok (n + of_nat j)"
  shows "solve_from ok n = Some (n + of_nat k)"
  using assms
proof (induction k arbitrary: n)
  case 0
  then show ?case by (simp add: solve_from.simps)
next
  case (Suc k)
  have "\<not> ok n" using Suc.prems(2) [of 0] by simp
  moreover have "solve_from ok (n + 1) = Some (n + 1 + of_nat k)"
  proof (rule Suc.IH)
    show "ok (n + 1 + of_nat k)" using Suc.prems(1) by (simp add: add.assoc)
    show "\<not> ok (n + 1 + of_nat j)" if "j < k" for j using Suc.prems(2) [of "Suc j"] that by (simp add: add.assoc)
  qed
  ultimately show ?case by (simp add: solve_from.simps [of ok n] add.assoc)
qed

text \<open>If a challenge has a solution, the solver returns one the head accepts, and it returns the smallest.\<close>

theorem solver_finds_the_smallest_nonce:
  assumes "verify_solution sha256 challenge key m difficulty"
  shows "\<exists>n. solve_pow sha256 challenge key difficulty = Some n \<and> verify_solution sha256 challenge key n difficulty \<and> n \<le> m"
proof -
  let ?ok = "\<lambda>n. verify_solution sha256 challenge key n difficulty"
  let ?P = "\<lambda>k. ?ok (of_nat k)"
  have m: "?P (unat m)" using assms by simp
  define k where "k = (LEAST k. ?P k)"
  have k: "?P k" and le: "k \<le> unat m" unfolding k_def using LeastI [of ?P, OF m] Least_le [of ?P, OF m] by blast+
  have "\<not> ?ok (0 + of_nat j)" if "j < k" for j using not_less_Least [of j ?P] that by (simp add: k_def)
  then have "solve_from ?ok 0 = Some (0 + of_nat k)" using k by (intro solve_from_found) simp_all
  moreover have "k < 2 ^ LENGTH(64)" using le unsigned_less [of m, where 'a = nat] by simp
  then have "of_nat k \<le> m" using le by (simp add: word_le_nat_alt unat_of_nat)
  ultimately show ?thesis using k by (auto simp: solve_pow_def)
qed

theorem solver_finds_the_smallest_nonce_witness:
  "\<exists>n. solve_pow (\<lambda>bs. [last bs]) [] [] 6 = Some n \<and> verify_solution (\<lambda>bs. [last bs]) [] [] n 6 \<and> n \<le> 3"
  by (rule solver_finds_the_smallest_nonce [of "\<lambda>bs. [last bs]" "[]" "[]" 3 6])
    code_simp

theorem difficulty_is_a_threshold_witness:
  "9 \<le> leading_zero_bits [0, 127] \<longleftrightarrow> be_value [0, 127] < 2 ^ (8 * length [0::8 word, 127] - 9)"
  by (rule difficulty_is_a_threshold) simp

section \<open>The cap on an account's machines\<close>

definition machines_of :: "uid \<Rightarrow> reg_db \<Rightarrow> int" where
  "machines_of a d = count_if (\<lambda>x. ho_account x = a) (rg_hosts d)"

lemma stalest_host_none: "stalest_host a c hs = None \<longleftrightarrow> (\<forall>h\<in>set hs. \<not> stale_host a c h)"
proof -
  have "stalest_host a c hs = None \<longleftrightarrow> sort_key ho_last_seen (filter (stale_host a c) hs) = []"
    by (simp add: stalest_host_def split: list.splits)
  also have "\<dots> \<longleftrightarrow> filter (stale_host a c) hs = []" by (metis length_0_conv length_sort)
  also have "\<dots> \<longleftrightarrow> (\<forall>h\<in>set hs. \<not> stale_host a c h)" by (rule filter_empty_conv)
  finally show ?thesis .
qed

lemma stalest_host_some:
  assumes "stalest_host a c hs = Some h"
  shows "h \<in> set hs \<and> stale_host a c h \<and> (\<forall>x\<in>set hs. stale_host a c x \<longrightarrow> ho_last_seen h \<le> ho_last_seen x)"
proof -
  let ?s = "sort_key ho_last_seen (filter (stale_host a c) hs)"
  obtain t where t: "?s = h # t" using assms by (auto simp: stalest_host_def split: list.splits)
  have m: "set ?s = {x \<in> set hs. stale_host a c x}" by auto
  have "sorted (map ho_last_seen (h # t))" using sorted_sort_key [of ho_last_seen "filter (stale_host a c) hs"] by (simp only: t)
  then have "\<forall>x\<in>set (h # t). ho_last_seen h \<le> ho_last_seen x" by auto
  then show ?thesis using m unfolding t by auto
qed

lemma machines_of_append:
  "machines_of a (d\<lparr>rg_hosts := hs @ [h]\<rparr>) = count_if (\<lambda>x. ho_account x = a) hs + (if ho_account h = a then 1 else 0)"
  by (simp add: machines_of_def count_if_def)

lemma count_if_drop_id:
  assumes "old \<in> set hs" "P old"
  shows "count_if P (filter (\<lambda>x. ho_id x \<noteq> ho_id old) hs) + 1 \<le> count_if P hs"
proof -
  have "filter P (filter (\<lambda>x. ho_id x \<noteq> ho_id old) hs) = filter (\<lambda>x. ho_id x \<noteq> ho_id old) (filter P hs)"
    by (simp add: conj_commute)
  moreover have "length (filter (\<lambda>x. ho_id x \<noteq> ho_id old) (filter P hs)) < length (filter P hs)"
    by (rule length_filter_less [where x = old]) (use assms in simp_all)
  ultimately show ?thesis by (simp add: count_if_def)
qed

text \<open>C17. Minting a machine id never takes an account over its cap. It removes at most the stalest machine of the same
  account, and only one that was not seen within the activity window; it refuses only when every slot was used within it.\<close>

theorem machine_cap_holds:
  assumes "mint_host h cap w d = (r, d')" "0 < cap" "distinct (map ho_id (rg_hosts d))"
  shows "machines_of (ho_account h) d' \<le> max cap (machines_of (ho_account h) d)
    \<and> (\<forall>x\<in>set (rg_hosts d) - set (rg_hosts d'). stale_host (ho_account h) (rg_now d - w) x
         \<and> (\<forall>y\<in>set (rg_hosts d). stale_host (ho_account h) (rg_now d - w) y \<longrightarrow> ho_last_seen x \<le> ho_last_seen y))
    \<and> card (set (rg_hosts d) - set (rg_hosts d')) \<le> 1
    \<and> (r = Inr False \<longrightarrow> d' = d \<and> cap \<le> machines_of (ho_account h) d
         \<and> (\<forall>x\<in>set (rg_hosts d). \<not> stale_host (ho_account h) (rg_now d - w) x))
    \<and> (r = Inr True \<longrightarrow> h \<in> set (rg_hosts d'))"
proof -
  let ?a = "ho_account h" and ?c = "rg_now d - w"
  consider (gone) "ho_account h \<notin> ac_id ` set (rg_accounts d)" "r = Inl NoSuchAccount" "d' = d"
    | (refused) "cap \<le> machines_of ?a d" "stalest_host ?a ?c (rg_hosts d) = None" "r = Inr False" "d' = d"
    | (evict) old where "stalest_host ?a ?c (rg_hosts d) = Some old" "r = Inr True"
        "d' = d\<lparr>rg_hosts := filter (\<lambda>x. ho_id x \<noteq> ho_id old) (rg_hosts d) @ [h]\<rparr>"
    | (room) "machines_of ?a d < cap" "r = Inr True" "d' = d\<lparr>rg_hosts := rg_hosts d @ [h]\<rparr>"
  proof (cases "ho_account h \<notin> ac_id ` set (rg_accounts d)")
    case True
    then have "mint_host h cap w d = (Inl NoSuchAccount, d)" using assms(2) by (simp add: mint_host_def)
    then show thesis using assms(1) True by (intro gone) simp_all
  next
    case False
    show thesis
    proof (cases "cap \<le> machines_of ?a d")
      case full: True
      show thesis
      proof (cases "stalest_host ?a ?c (rg_hosts d)")
        case None
        then have "mint_host h cap w d = (Inr False, d)" using False full assms(2) by (simp add: mint_host_def machines_of_def)
        then show thesis using assms(1) full None by (intro refused) simp_all
      next
        case (Some old)
        then have "mint_host h cap w d = (Inr True, d\<lparr>rg_hosts := filter (\<lambda>x. ho_id x \<noteq> ho_id old) (rg_hosts d) @ [h]\<rparr>)"
          using False full assms(2) by (simp add: mint_host_def machines_of_def)
        then show thesis using assms(1) Some by (intro evict) simp_all
      qed
    next
      case less: False
      then have "mint_host h cap w d = (Inr True, d\<lparr>rg_hosts := rg_hosts d @ [h]\<rparr>)"
        using False assms(2) by (simp add: mint_host_def machines_of_def)
      then show thesis using assms(1) less by (intro room) simp_all
    qed
  qed
  then show ?thesis
  proof cases
    case refused
    then show ?thesis by (simp add: stalest_host_none)
  next
    case evict
    note o = stalest_host_some [OF evict(1)]
    have "ho_account old = ?a" using o by (simp add: stale_host_def)
    then have "count_if (\<lambda>x. ho_account x = ?a) (filter (\<lambda>x. ho_id x \<noteq> ho_id old) (rg_hosts d)) + 1 \<le> machines_of ?a d"
      unfolding machines_of_def by (intro count_if_drop_id) (use o in simp_all)
    then have n: "machines_of ?a d' \<le> machines_of ?a d" by (simp add: evict(3) machines_of_append)
    have "x = old" if "x \<in> set (rg_hosts d)" "ho_id x = ho_id old" for x
      using that o assms(3) by (simp add: distinct_map inj_on_def)
    then have gone: "set (rg_hosts d) - set (rg_hosts d') \<subseteq> {old}" by (auto simp: evict(3))
    then have "card (set (rg_hosts d) - set (rg_hosts d')) \<le> 1" using card_mono [of "{old}"] by fastforce
    then show ?thesis using n gone o evict by auto
  next
    case room
    have n: "machines_of ?a d' = machines_of ?a d + 1" by (simp add: room(3) machines_of_append machines_of_def)
    have e: "set (rg_hosts d) - set (rg_hosts d') = {}" and m: "h \<in> set (rg_hosts d')" by (auto simp: room(3))
    show ?thesis unfolding e using n m room(1,2) by simp
  qed auto
qed

definition demo_hw :: reg_hardware where
  "demo_hw = \<lparr>rh_cpu_cores = 4, rh_max_cpu_cores = 4, rh_memory_total_mb = 8, rh_max_memory_mb = 8, rh_host_max_cpu_cores = 0,
    rh_host_max_memory_mb = 0\<rparr>"

definition demo_host :: "uid \<Rightarrow> time option \<Rightarrow> host_row" where
  "demo_host i t = \<lparr>ho_id = i, ho_account = ''a'', ho_name = None, ho_hardware = demo_hw, ho_runtimes = [], ho_active = True,
    ho_last_seen = t\<rparr>"

definition demo_account :: account_row where
  "demo_account = \<lparr>ac_id = ''a'', ac_key = replicate 32 7, ac_name = None, ac_hardware = demo_hw, ac_runtimes = [], ac_mode = ''ALWAYS'',
    ac_active = True, ac_last_seen = None\<rparr>"

definition demo_reg :: reg_db where
  "demo_reg = \<lparr>rg_accounts = [demo_account], rg_hosts = [demo_host ''h1'' (Some 90), demo_host ''h2'' (Some 10)],
    rg_counts = (\<lambda>_. None), rg_challenges = [], rg_now = 100\<rparr>"

lemmas demo_reg_defs = demo_hw_def demo_host_def demo_account_def demo_reg_def

theorem machine_cap_holds_witness:
  "\<exists>r d'. mint_host (demo_host ''h3'' (Some 100)) 2 20 demo_reg = (r, d') \<and> r = Inr True
    \<and> machines_of ''a'' d' \<le> max 2 (machines_of ''a'' demo_reg)"
proof -
  obtain r d' where m: "mint_host (demo_host ''h3'' (Some 100)) 2 20 demo_reg = (r, d')" by (cases "mint_host (demo_host ''h3'' (Some 100)) 2 20 demo_reg")
  have "r = Inr True" using m by (simp add: demo_reg_defs mint_host_def stalest_host_def stale_host_def count_if_def)
  moreover have "machines_of (ho_account (demo_host ''h3'' (Some 100))) d' \<le> max 2 (machines_of (ho_account (demo_host ''h3'' (Some 100))) demo_reg)"
    using machine_cap_holds [OF m] by (simp add: demo_reg_def demo_host_def)
  ultimately show ?thesis using m by (auto simp: demo_host_def)
qed

section \<open>The daily cap and the single use of a challenge\<close>

text \<open>
  What replicas and the two sweepers do to the tables, in any order. The trace records the bucket and day of every
  creation that passed a cap and the id of every challenge that paid for one; ids of new challenges are fresh.
\<close>

record creation_trace =
  ct_slots :: "(string \<times> int) list"
  ct_redeemed :: "uid list"

type_synonym creation_state = "reg_db \<times> creation_trace"

definition slot_of :: "create_gate option \<Rightarrow> time \<Rightarrow> (string \<times> int) list" where
  "slot_of g now = (case g of None \<Rightarrow> [] | Some g \<Rightarrow> if cg_cap_per_day g > 0 then [(cg_bucket g, utc_day now)] else [])"

definition spent_by :: "create_gate option \<Rightarrow> uid list" where
  "spent_by g = (case g of None \<Rightarrow> [] | Some g \<Rightarrow> (case cg_pow g of None \<Rightarrow> [] | Some red \<Rightarrow> [pr_challenge red]))"

definition logged :: "create_gate option \<Rightarrow> time \<Rightarrow> creation_trace \<Rightarrow> creation_trace" where
  "logged g now t = \<lparr>ct_slots = slot_of g now @ ct_slots t, ct_redeemed = spent_by g @ ct_redeemed t\<rparr>"

definition cap_in_force :: "int \<Rightarrow> create_gate option \<Rightarrow> bool" where
  "cap_in_force cap g \<longleftrightarrow> (case g of None \<Rightarrow> True | Some g \<Rightarrow> cg_cap_per_day g \<in> {0, cap})"

inductive creation_step :: "(8 word list \<Rightarrow> 8 word list) \<Rightarrow> int \<Rightarrow> creation_state \<Rightarrow> creation_state \<Rightarrow> bool" for sha256 cap where
  admitted: "create_admitted sha256 g v d = (Inr u, d') \<Longrightarrow> cap_in_force cap g \<Longrightarrow>
     creation_step sha256 cap (d, t) (d', logged g (rg_now d) t)"
| refused: "create_admitted sha256 g v d = (Inl e, d') \<Longrightarrow> creation_step sha256 cap (d, t) (d', t)"
| issued: "i \<notin> ch_id ` set (rg_challenges d) \<Longrightarrow> i \<notin> set (ct_redeemed t) \<Longrightarrow>
     creation_step sha256 cap (d, t) (snd (issue_challenge i key bytes difficulty ttl d), t)"
| counters_swept: "creation_step sha256 cap (d, t) (sweep_counters d, t)"
| challenges_swept: "creation_step sha256 cap (d, t) (sweep_challenges d, t)"
| clock: "rg_now d \<le> now \<Longrightarrow> creation_step sha256 cap (d, t) (d\<lparr>rg_now := now\<rparr>, t)"
| rest: "creation_step sha256 cap (d, t) (d\<lparr>rg_accounts := accs, rg_hosts := hs\<rparr>, t)"

inductive creation_reach :: "(8 word list \<Rightarrow> 8 word list) \<Rightarrow> int \<Rightarrow> creation_state \<Rightarrow> bool" for sha256 cap where
  fresh: "creation_reach sha256 cap (\<lparr>rg_accounts = [], rg_hosts = [], rg_counts = (\<lambda>_. None), rg_challenges = [], rg_now = now\<rparr>,
     \<lparr>ct_slots = [], ct_redeemed = []\<rparr>)"
| later: "creation_reach sha256 cap s \<Longrightarrow> creation_step sha256 cap s s' \<Longrightarrow> creation_reach sha256 cap s'"

definition slots_taken :: "creation_trace \<Rightarrow> string \<times> int \<Rightarrow> int" where
  "slots_taken t k = count_if (\<lambda>x. x = k) (ct_slots t)"

definition counters_exact :: "int \<Rightarrow> creation_state \<Rightarrow> bool" where
  "counters_exact cap s = (case s of (d, t) \<Rightarrow>
     (\<forall>b day. utc_day (rg_now d) - counter_retention_days \<le> day \<longrightarrow>
        (case rg_counts d (b, day) of None \<Rightarrow> 0 | Some n \<Rightarrow> n) = slots_taken t (b, day))
     \<and> (\<forall>k. slots_taken t k \<le> cap))"

definition challenges_single_use :: "creation_state \<Rightarrow> bool" where
  "challenges_single_use s = (case s of (d, t) \<Rightarrow>
     distinct (ct_redeemed t) \<and> distinct (map ch_id (rg_challenges d)) \<and> ch_id ` set (rg_challenges d) \<inter> set (ct_redeemed t) = {})"

lemma reg_tx_ok: "reg_tx m d = (Inr a, d') \<longleftrightarrow> m d = (Inr a, d')"
  by (auto simp: reg_tx_def split: prod.splits sum.splits)

lemma reg_tx_refused: "reg_tx m d = (Inl e, d') \<Longrightarrow> d' = d"
  by (auto simp: reg_tx_def split: prod.splits sum.splits)

lemma reg_bind_ok: "reg_bind m k d = (Inr b, d') \<longleftrightarrow> (\<exists>a d1. m d = (Inr a, d1) \<and> k a d1 = (Inr b, d'))"
  by (auto simp: reg_bind_def split: prod.splits sum.splits)

lemma create_in_ok: "create_in v d = (Inr u, d') \<longleftrightarrow> ac_key v \<notin> ac_key ` set (rg_accounts d) \<and> d' = d\<lparr>rg_accounts := rg_accounts d @ [v]\<rparr>"
  by (auto simp: create_in_def)

lemma create_in_refused: "create_in v d = (Inl e, d') \<Longrightarrow> d' = d"
  by (auto simp: create_in_def split: if_splits)

lemma create_refused: "create_admitted sha256 g v d = (Inl e, d') \<Longrightarrow> d' = d"
  by (cases g) (auto simp: create_admitted_def dest: create_in_refused reg_tx_refused)

lemma redeem_ok:
  "redeem_challenge sha256 red d = (Inr u, d') \<longleftrightarrow>
     (\<exists>c. find (redeemable (rg_now d) red) (rg_challenges d) = Some c
       \<and> verify_solution sha256 (ch_bytes c) (pr_key red) (pr_nonce red) (ch_difficulty c)
       \<and> d' = d\<lparr>rg_challenges := filter (\<lambda>c. \<not> redeemable (rg_now d) red c) (rg_challenges d)\<rparr>)"
  by (auto simp: redeem_challenge_def Let_def split: option.splits if_splits)

lemma reserve_ok:
  "reserve_creation_slot b cap d = (Inr u, d') \<longleftrightarrow>
     (let n = (case rg_counts d (b, utc_day (rg_now d)) of None \<Rightarrow> 0 | Some n \<Rightarrow> n) + 1
      in n \<le> cap \<and> d' = d\<lparr>rg_counts := (rg_counts d)((b, utc_day (rg_now d)) := Some n)\<rparr>)"
  by (auto simp: reserve_creation_slot_def Let_def split: option.splits)

lemma admitted_effect:
  assumes "create_admitted sha256 g v d = (Inr u, d')"
  obtains chs counts where "d' = d\<lparr>rg_accounts := rg_accounts d @ [v], rg_challenges := chs, rg_counts := counts\<rparr>"
    and "set chs \<subseteq> set (rg_challenges d)" and "\<And>i. distinct (map ch_id (rg_challenges d)) \<Longrightarrow> distinct (map ch_id chs)"
    and "\<And>i. distinct (map ch_id (rg_challenges d)) \<Longrightarrow> i \<in> set (spent_by g) \<Longrightarrow> i \<in> ch_id ` set (rg_challenges d) \<and> i \<notin> ch_id ` set chs"
    and "\<And>k. (case counts k of None \<Rightarrow> 0 | Some n \<Rightarrow> n)
           = (case rg_counts d k of None \<Rightarrow> 0 | Some n \<Rightarrow> n) + count_if (\<lambda>x. x = k) (slot_of g (rg_now d))"
    and "\<And>c k. cap_in_force c g \<Longrightarrow> k \<in> set (slot_of g (rg_now d)) \<Longrightarrow> (case counts k of None \<Rightarrow> 0 | Some n \<Rightarrow> n) \<le> c"
proof (cases g)
  case None
  then have "d' = d\<lparr>rg_accounts := rg_accounts d @ [v]\<rparr>" using assms by (simp add: create_admitted_def create_in_ok)
  then show thesis by (intro that [where chs = "rg_challenges d" and counts = "rg_counts d"]) (simp_all add: None spent_by_def slot_of_def)
next
  case (Some gt)
  obtain d1 d2 where
    1: "(case cg_pow gt of None \<Rightarrow> reg_done | Some red \<Rightarrow> redeem_challenge sha256 red) d = (Inr (), d1)" and
    2: "(if cg_cap_per_day gt > 0 then reserve_creation_slot (cg_bucket gt) (cg_cap_per_day gt) else reg_done) d1 = (Inr (), d2)" and
    3: "d' = d2\<lparr>rg_accounts := rg_accounts d2 @ [v]\<rparr>"
    using assms by (auto simp: Some create_admitted_def reg_tx_ok reg_bind_ok create_in_ok)
  obtain chs where d1: "d1 = d\<lparr>rg_challenges := chs\<rparr>" and chs: "set chs \<subseteq> set (rg_challenges d)"
      "distinct (map ch_id (rg_challenges d)) \<Longrightarrow> distinct (map ch_id chs)"
      "\<And>i. distinct (map ch_id (rg_challenges d)) \<Longrightarrow> i \<in> set (spent_by g) \<Longrightarrow> i \<in> ch_id ` set (rg_challenges d) \<and> i \<notin> ch_id ` set chs"
  proof (cases "cg_pow gt")
    case None
    then show thesis using 1 Some by (intro that [of "rg_challenges d"]) (simp_all add: reg_done_def spent_by_def)
  next
    case p: (Some red)
    obtain c where c: "find (redeemable (rg_now d) red) (rg_challenges d) = Some c"
      and e: "d1 = d\<lparr>rg_challenges := filter (\<lambda>c. \<not> redeemable (rg_now d) red c) (rg_challenges d)\<rparr>"
      using 1 by (auto simp: p redeem_ok)
    have m: "c \<in> set (rg_challenges d)" "redeemable (rg_now d) red c" using c by (auto simp: find_Some_iff)
    show thesis
    proof (rule that [OF e])
      fix i assume i: "distinct (map ch_id (rg_challenges d))" "i \<in> set (spent_by g)"
      then have i': "i = ch_id c" using m by (simp add: spent_by_def Some p redeemable_def)
      have "x = c" if "x \<in> set (rg_challenges d)" "ch_id x = ch_id c" for x
        using i(1) m that by (auto simp: distinct_map inj_on_def)
      then show "i \<in> ch_id ` set (rg_challenges d) \<and> i \<notin> ch_id ` set (filter (\<lambda>c. \<not> redeemable (rg_now d) red c) (rg_challenges d))"
        using m i' by auto
    qed (auto simp: distinct_map_filter)
  qed
  show thesis
  proof (cases "cg_cap_per_day gt > 0")
    case True
    define k where "k = (cg_bucket gt, utc_day (rg_now d))"
    define n where "n = (case rg_counts d k of None \<Rightarrow> 0 | Some n \<Rightarrow> n) + 1"
    have d2: "d2 = d1\<lparr>rg_counts := (rg_counts d)(k := Some n)\<rparr>" and n: "n \<le> cg_cap_per_day gt"
      using 2 True by (auto simp: reserve_ok Let_def d1 k_def n_def)
    have s: "slot_of g (rg_now d) = [k]" using True by (simp add: slot_of_def Some k_def)
    have cap: "n \<le> c" if "cap_in_force c g" for c using that n True by (auto simp: cap_in_force_def Some)
    show thesis
    proof (rule that [where chs = chs and counts = "(rg_counts d)(k := Some n)"])
      show "d' = d\<lparr>rg_accounts := rg_accounts d @ [v], rg_challenges := chs, rg_counts := (rg_counts d)(k := Some n)\<rparr>"
        by (simp add: 3 d1 d2)
      show "(case ((rg_counts d)(k := Some n)) j of None \<Rightarrow> 0 | Some n \<Rightarrow> n)
          = (case rg_counts d j of None \<Rightarrow> 0 | Some n \<Rightarrow> n) + count_if (\<lambda>x. x = j) (slot_of g (rg_now d))" for j
        by (simp add: s n_def count_if_def)
      show "(case ((rg_counts d)(k := Some n)) j of None \<Rightarrow> 0 | Some n \<Rightarrow> n) \<le> c"
        if "cap_in_force c g" "j \<in> set (slot_of g (rg_now d))" for c j
        using that cap by (simp add: s)
    qed (use chs in auto)
  next
    case False
    then have d2: "d2 = d1" using 2 by (simp add: reg_done_def)
    have s: "slot_of g (rg_now d) = []" using False by (simp add: slot_of_def Some)
    show thesis by (rule that [where chs = chs and counts = "rg_counts d"]) (use 3 d1 d2 chs in \<open>auto simp: s\<close>)
  qed
qed

lemma slots_taken_logged: "slots_taken (logged g now t) k = slots_taken t k + count_if (\<lambda>x. x = k) (slot_of g now)"
  by (simp add: slots_taken_def logged_def count_if_def)

lemma slot_of_day: "k \<in> set (slot_of g now) \<Longrightarrow> snd k = utc_day now"
  by (auto simp: slot_of_def split: option.splits if_splits)

lemma count_if_none: "k \<notin> set xs \<Longrightarrow> count_if (\<lambda>x. x = k) xs = 0"
  by (auto simp: count_if_def filter_empty_conv)

lemma utc_day_mono: "t \<le> u \<Longrightarrow> utc_day t \<le> utc_day u"
  unfolding utc_day_def by (rule zdiv_mono1) simp_all

lemma admitted_keeps_counters:
  assumes "create_admitted sha256 g v d = (Inr u, d')" "cap_in_force cap g" "counters_exact cap (d, t)"
  shows "counters_exact cap (d', logged g (rg_now d) t)"
proof -
  obtain chs counts where d': "d' = d\<lparr>rg_accounts := rg_accounts d @ [v], rg_challenges := chs, rg_counts := counts\<rparr>"
    and c: "\<And>k. (case counts k of None \<Rightarrow> 0 | Some n \<Rightarrow> n)
           = (case rg_counts d k of None \<Rightarrow> 0 | Some n \<Rightarrow> n) + count_if (\<lambda>x. x = k) (slot_of g (rg_now d))"
    and le: "\<And>k. k \<in> set (slot_of g (rg_now d)) \<Longrightarrow> (case counts k of None \<Rightarrow> 0 | Some n \<Rightarrow> n) \<le> cap"
    using admitted_effect [OF assms(1)] assms(2) by metis
  have e: "(case rg_counts d (b, day) of None \<Rightarrow> 0 | Some n \<Rightarrow> n) = slots_taken t (b, day)"
    if "utc_day (rg_now d) - counter_retention_days \<le> day" for b day using assms(3) that by (simp add: counters_exact_def)
  have all: "slots_taken (logged g (rg_now d) t) k \<le> cap" for k
  proof (cases "k \<in> set (slot_of g (rg_now d))")
    case True
    then have "utc_day (rg_now d) - counter_retention_days \<le> snd k" by (simp add: slot_of_day counter_retention_days_def)
    then have "(case counts k of None \<Rightarrow> 0 | Some n \<Rightarrow> n) = slots_taken (logged g (rg_now d) t) k"
      using e [of "snd k" "fst k"] c [of k] by (simp add: slots_taken_logged)
    then show ?thesis using le [OF True] by simp
  next
    case False
    then show ?thesis using assms(3) by (cases k) (simp add: slots_taken_logged count_if_none counters_exact_def)
  qed
  show ?thesis using e c all by (simp add: counters_exact_def d' slots_taken_logged)
qed

lemma creation_step_keeps_counters:
  assumes "creation_step sha256 cap s s'" "counters_exact cap s"
  shows "counters_exact cap s'"
  using assms
proof cases
  case (admitted g v d u d' t)
  then show ?thesis using admitted_keeps_counters assms(2) by blast
next
  case (refused g v d e d' t)
  then show ?thesis using create_refused assms(2) by blast
next
  case (counters_swept d t)
  then show ?thesis using assms(2) by (auto simp: counters_exact_def sweep_counters_def)
next
  case (clock d now t)
  then show ?thesis using assms(2) utc_day_mono [of "rg_now d" now] by (auto simp: counters_exact_def)
qed (auto simp: counters_exact_def issue_challenge_def sweep_challenges_def Let_def)

lemma admitted_keeps_single_use:
  assumes "create_admitted sha256 g v d = (Inr u, d')" "challenges_single_use (d, t)"
  shows "challenges_single_use (d', logged g (rg_now d) t)"
proof -
  have inv: "distinct (ct_redeemed t)" "distinct (map ch_id (rg_challenges d))" "ch_id ` set (rg_challenges d) \<inter> set (ct_redeemed t) = {}"
    using assms(2) by (simp_all add: challenges_single_use_def)
  obtain chs counts where d': "d' = d\<lparr>rg_accounts := rg_accounts d @ [v], rg_challenges := chs, rg_counts := counts\<rparr>"
    and sub: "set chs \<subseteq> set (rg_challenges d)" and dist: "distinct (map ch_id chs)"
    and spent: "\<And>i. i \<in> set (spent_by g) \<Longrightarrow> i \<in> ch_id ` set (rg_challenges d) \<and> i \<notin> ch_id ` set chs"
    using admitted_effect [OF assms(1)] inv(2) by metis
  have "distinct (spent_by g)" by (simp add: spent_by_def split: option.splits)
  moreover have "set (spent_by g) \<inter> set (ct_redeemed t) = {}" using spent inv(3) by blast
  moreover have "ch_id ` set chs \<inter> (set (spent_by g) \<union> set (ct_redeemed t)) = {}" using spent inv(3) sub by blast
  ultimately show ?thesis using inv(1) dist by (simp add: challenges_single_use_def d' logged_def)
qed

lemma creation_step_keeps_single_use:
  assumes "creation_step sha256 cap s s'" "challenges_single_use s"
  shows "challenges_single_use s'"
  using assms
proof cases
  case (admitted g v d u d' t)
  then show ?thesis using admitted_keeps_single_use assms(2) by blast
next
  case (refused g v d e d' t)
  then show ?thesis using create_refused assms(2) by blast
next
  case (challenges_swept d t)
  then show ?thesis using assms(2) by (auto simp: challenges_single_use_def sweep_challenges_def distinct_map_filter)
qed (auto simp: challenges_single_use_def issue_challenge_def sweep_counters_def Let_def)

text \<open>C16. However registrations, sweeps and the clock interleave, the accounts admitted on one day from one bucket are never
  more than the cap, the counter of a day still in retention counts exactly them (a refused registration takes no slot), and
  no challenge pays for two accounts.\<close>

theorem daily_cap_and_single_use:
  assumes "creation_reach sha256 cap s" "0 < cap"
  shows "counters_exact cap s \<and> challenges_single_use s"
  using assms(1)
proof induction
  case (fresh now)
  then show ?case using assms(2) by (simp add: counters_exact_def challenges_single_use_def slots_taken_def)
next
  case (later s s')
  then show ?case using creation_step_keeps_counters creation_step_keeps_single_use by blast
qed

definition demo_gate :: create_gate where
  "demo_gate = \<lparr>cg_bucket = ''b'', cg_cap_per_day = 1, cg_pow = None\<rparr>"

definition demo_empty :: reg_db where
  "demo_empty = \<lparr>rg_accounts = [], rg_hosts = [], rg_counts = (\<lambda>_. None), rg_challenges = [], rg_now = 100\<rparr>"

theorem daily_cap_and_single_use_witness:
  "\<exists>d t. creation_reach id 1 (d, t) \<and> slots_taken t (''b'', 0) = 1 \<and> counters_exact 1 (d, t) \<and> challenges_single_use (d, t)
    \<and> fst (create_admitted id (Some demo_gate) (demo_account\<lparr>ac_key := []\<rparr>) d) = Inl CapExceeded"
proof -
  define t where "t = \<lparr>ct_slots = [], ct_redeemed = []\<rparr>"
  define d where "d = snd (create_admitted id (Some demo_gate) demo_account demo_empty)"
  have a: "create_admitted id (Some demo_gate) demo_account demo_empty = (Inr (), d)"
    by (simp add: d_def create_admitted_def demo_gate_def demo_empty_def reg_tx_def reg_bind_def reg_done_def reserve_creation_slot_def Let_def create_in_def)
  have "creation_reach id 1 (demo_empty, t)" unfolding demo_empty_def t_def by (rule creation_reach.fresh)
  then have r: "creation_reach id 1 (d, logged (Some demo_gate) (rg_now demo_empty) t)"
    by (rule creation_reach.later) (rule creation_step.admitted [OF a], simp add: cap_in_force_def demo_gate_def)
  moreover have "slots_taken (logged (Some demo_gate) (rg_now demo_empty) t) (''b'', 0) = 1"
    by (simp add: t_def slots_taken_def logged_def slot_of_def demo_gate_def demo_empty_def utc_day_def)
  moreover have "fst (create_admitted id (Some demo_gate) (demo_account\<lparr>ac_key := []\<rparr>) d) = Inl CapExceeded"
    by (simp add: d_def create_admitted_def demo_gate_def demo_empty_def reg_tx_def reg_bind_def reg_done_def reserve_creation_slot_def Let_def create_in_def utc_day_def)
  ultimately show ?thesis using daily_cap_and_single_use [OF r] by auto
qed

section \<open>What a registration answers\<close>

definition has_account :: "uid \<Rightarrow> 8 word list \<Rightarrow> reg_db \<Rightarrow> bool" where
  "has_account a key d \<longleftrightarrow> (\<exists>x\<in>set (rg_accounts d). ac_id x = a \<and> ac_key x = key)"

definition has_machine :: "uid \<Rightarrow> uid \<Rightarrow> reg_db \<Rightarrow> bool" where
  "has_machine a i d \<longleftrightarrow> (\<exists>x\<in>set (rg_hosts d). ho_id x = i \<and> ho_account x = a)"

lemma has_account_hosts: "has_account a key (d\<lparr>rg_hosts := hs\<rparr>) \<longleftrightarrow> has_account a key d"
  by (simp add: has_account_def)

lemma mint_host_accounts: "mint_host h cap w d = (r, d') \<Longrightarrow> rg_accounts d' = rg_accounts d"
  by (auto simp: mint_host_def Let_def split: if_splits option.splits)

lemma mint_host_machine: "mint_host h cap w d = (Inr True, d') \<Longrightarrow> has_machine (ho_account h) (ho_id h) d'"
  by (auto simp: mint_host_def Let_def has_machine_def split: if_splits option.splits)

lemma bex_map: "(\<exists>x\<in>set (map f xs). P x) \<longleftrightarrow> (\<exists>x\<in>set xs. P (f x))"
  by simp

lemma upsert_host_machine:
  assumes "find (\<lambda>h. ho_id h = i) (rg_hosts d) = Some h" "ho_account h = a" "ho_id h' = i"
  shows "has_machine a i (upsert_host h' d)"
proof -
  have "h \<in> set (rg_hosts d)" "ho_id h = i" using assms(1) by (auto simp: find_Some_iff)
  then show ?thesis using assms(2,3) by (auto simp: upsert_host_def has_machine_def bex_map simp del: set_map intro!: bexI [where x = h])
qed

lemma upsert_host_accounts: "rg_accounts (upsert_host h d) = rg_accounts d"
  by (simp add: upsert_host_def)

lemma resolve_registered_host_ok:
  assumes "resolve_registered_host re rq a now d = (i, d')"
  shows "rg_accounts d' = rg_accounts d \<and> (i \<noteq> [] \<longrightarrow> has_machine a i d' \<and> i \<in> {rr_host rq, re_host_id re})"
proof (cases "rr_host rq \<noteq> []")
  case True
  then show ?thesis using assms
    by (auto simp: resolve_registered_host_def upsert_host_accounts requested_host_def split: option.splits if_splits intro: upsert_host_machine)
next
  case False
  let ?h = "requested_host rq (re_host_id re) a now"
  obtain r d1 where m: "mint_host ?h (re_host_cap re) (re_host_window re) d = (r, d1)" by (cases "mint_host ?h (re_host_cap re) (re_host_window re) d")
  have acc: "rg_accounts d1 = rg_accounts d" by (rule mint_host_accounts [OF m])
  have "r = Inr True \<Longrightarrow> has_machine a (re_host_id re) d1" using mint_host_machine [of ?h] m by (simp add: requested_host_def)
  then show ?thesis using assms False acc m by (auto simp: resolve_registered_host_def split: sum.splits bool.splits)
qed

lemma refresh_account_keeps:
  assumes "has_account b key d"
  shows "has_account b key (refresh_account rq a now d)"
proof -
  obtain x where "x \<in> set (rg_accounts d)" "ac_id x = b" "ac_key x = key" using assms by (auto simp: has_account_def)
  then show ?thesis by (auto simp: has_account_def refresh_account_def bex_map simp del: set_map intro!: bexI [where x = x])
qed

lemma register_known_ok:
  assumes "register_known re rq acc now d = (r, d')" "find (\<lambda>a. ac_key a = rr_key rq) (rg_accounts d) = Some acc"
  shows "\<exists>y. r = Inr y \<and> \<not> ry_new y \<and> has_account (ry_account y) (rr_key rq) d'
    \<and> (ry_host y \<noteq> [] \<longrightarrow> has_machine (ry_account y) (ry_host y) d')"
proof -
  obtain i d1 where h: "resolve_registered_host re rq (ac_id acc) now (refresh_account rq (ac_id acc) now d) = (i, d1)"
    by (cases "resolve_registered_host re rq (ac_id acc) now (refresh_account rq (ac_id acc) now d)")
  have "acc \<in> set (rg_accounts d)" "ac_key acc = rr_key rq" using assms(2) by (auto simp: find_Some_iff)
  then have "has_account (ac_id acc) (rr_key rq) d" by (auto simp: has_account_def)
  note a = refresh_account_keeps [OF this, where rq = rq and a = "ac_id acc" and now = now]
  have "has_account (ac_id acc) (rr_key rq) d1" using a resolve_registered_host_ok [OF h] by (simp add: has_account_def)
  then show ?thesis using assms(1) h resolve_registered_host_ok [OF h] by (auto simp: register_known_def)
qed

lemma create_admitted_adds:
  assumes "create_admitted sha256 g v d = (Inr u, d')"
  shows "rg_accounts d' = rg_accounts d @ [v]"
proof -
  obtain chs counts where "d' = d\<lparr>rg_accounts := rg_accounts d @ [v], rg_challenges := chs, rg_counts := counts\<rparr>"
    using admitted_effect [OF assms] by metis
  then show ?thesis by simp
qed

lemma check_registration_ok:
  "check_registration re rq = None \<Longrightarrow> re_authed re = Some (rr_key rq) \<and> length (rr_key rq) = 32
     \<and> (\<exists>hw. rr_hardware rq = Some hw \<and> check_hardware hw = None) \<and> rr_runtimes rq \<noteq> []"
  by (auto simp: check_registration_def split: if_splits option.splits)

definition registration_ok :: "register_env \<Rightarrow> register_request \<Rightarrow> reg_db \<Rightarrow> register_reply \<Rightarrow> reg_db \<Rightarrow> bool" where
  "registration_ok re rq d y d' \<longleftrightarrow> re_authed re = Some (rr_key rq) \<and> has_account (ry_account y) (rr_key rq) d'
     \<and> (ry_new y \<longrightarrow> (\<forall>x\<in>set (rg_accounts d). ac_key x \<noteq> rr_key rq))
     \<and> (ry_host y \<noteq> [] \<longrightarrow> has_machine (ry_account y) (ry_host y) d')"

text \<open>C15. A registration that is answered names an account holding the key the caller proved, and a machine of that account
  or none; it says ``new'' only when the head had no account with the key. A refused registration leaves the tables as the
  other replicas left them: no account, no used slot, no spent challenge.\<close>

theorem registration_binds_the_proved_key:
  "case register_volunteer re rq d of
     (Inr y, d') \<Rightarrow> registration_ok re rq d y d'
   | (Inl e, d') \<Rightarrow> d' = d \<or> d' = re_meanwhile re d"
proof (cases "check_registration re rq")
  case (Some e)
  then show ?thesis by (simp add: register_volunteer_def)
next
  case None
  note ok = check_registration_ok [OF None]
  show ?thesis
  proof (cases "find (\<lambda>a. ac_key a = rr_key rq) (rg_accounts d)")
    case (Some acc)
    obtain r d' where k: "register_known re rq acc (rg_now d) d = (r, d')" by (cases "register_known re rq acc (rg_now d) d")
    then have "register_volunteer re rq d = (r, d')" using None Some by (simp add: register_volunteer_def)
    then show ?thesis using register_known_ok [OF k Some] ok by (auto simp: registration_ok_def)
  next
    case unknown: None
    then have new: "\<forall>x\<in>set (rg_accounts d). ac_key x \<noteq> rr_key rq" by (simp add: find_None_iff)
    show ?thesis
    proof (cases "registration_gate re")
      case (Inl u)
      then show ?thesis using None unknown by (simp add: register_volunteer_def)
    next
      case (Inr gate)
      note start = None unknown Inr
      show ?thesis
      proof (cases "re_pow_enabled re \<and> (rr_pow_challenge rq = [] \<or> \<not> re_parses_id re (rr_pow_challenge rq))")
        case True
        then show ?thesis using start by (auto simp: register_volunteer_def)
      next
        case False
        let ?v = "new_account re rq (rg_now d)"
        obtain r d2 where c: "create_admitted (re_sha256 re) (gate_with_pow re rq gate) ?v (re_meanwhile re d) = (r, d2)"
          by (cases "create_admitted (re_sha256 re) (gate_with_pow re rq gate) ?v (re_meanwhile re d)")
        show ?thesis
        proof (cases r)
          case r: (Inr u)
          obtain i d3 where h: "resolve_registered_host re rq (re_account_id re) (rg_now d) d2 = (i, d3)"
            by (cases "resolve_registered_host re rq (re_account_id re) (rg_now d) d2")
          have "has_account (re_account_id re) (rr_key rq) d2" using create_admitted_adds c r by (auto simp: has_account_def new_account_def)
          then have "has_account (re_account_id re) (rr_key rq) d3" using resolve_registered_host_ok [OF h] by (simp add: has_account_def)
          then show ?thesis using start False c r h resolve_registered_host_ok [OF h] new ok
            by (simp add: register_volunteer_def Let_def registration_ok_def)
        next
          case r: (Inl e)
          have d2: "d2 = re_meanwhile re d" using create_refused c r by blast
          show ?thesis
          proof (cases "e = DuplicateKey")
            case True
            show ?thesis
            proof (cases "find (\<lambda>a. ac_key a = rr_key rq) (rg_accounts d2)")
              case none: None
              then show ?thesis using start False c r d2 True by (simp add: register_volunteer_def Let_def)
            next
              case (Some acc)
              obtain r' d' where k: "register_known re rq acc (rg_now d) d2 = (r', d')" by (cases "register_known re rq acc (rg_now d) d2")
              then have "register_volunteer re rq d = (r', d')" using start False c r True Some by (auto simp: register_volunteer_def Let_def)
              with register_known_ok [OF k Some] ok show ?thesis by (auto simp: registration_ok_def)
            qed
          next
            case other: False
            then show ?thesis using start False c r d2 by (cases e) (simp_all add: register_volunteer_def Let_def)
          qed
        qed
      qed
    qed
  qed
qed

end
