(* ===== verification/Service.thy ===== *)
theory Service
  imports DispatchPoll Lifecycle
begin

text \<open>
  The volunteer's calls as the head answers them (\<open>internal/server/volunteer-service.go\<close>): a request for work, a
  run-start and an abandonment, each composed of the dispatch cache's critical sections, the database's statements and
  the transitioner, in the order of the handler. What a call meets is a record: the key its signature proves, what the
  identity and host lookups answer, whether the admission semaphore has room, and how the drain before it goes. The
  dispatch cache is running; identifiers have been parsed; liveness bookkeeping, metrics and logging are left out.
\<close>

section \<open>Calls\<close>

datatype rpc_code =
    InvalidArgument
  | Unauthenticated
  | PermissionDenied
  | RpcNotFound
  | ResourceExhausted
  | FailedPrecondition
  | AlreadyExists
  | RpcInternal

record gpu_info =
  gpu_vendor :: string
  gpu_vram_mb :: int
  gpu_max_vram_pct :: int
  gpu_compute :: string

record hardware =
  hw_max_cpu_cores :: int
  hw_max_memory_mb :: int
  hw_max_disk_mb :: int
  hw_gpus :: "gpu_info list"
  hw_benchmark :: f64
  hw_os :: string
  hw_cpu_arch :: string
  hw_cpu_vendor :: string
  hw_host_max_memory_mb :: int
  hw_host_max_cpu_cores :: int

record identity =
  id_key :: string
  id_hardware :: hardware
  id_runtimes :: "string list"
  id_subject :: string

datatype identity_lookup = IdentityShed | IdentityUnknown | IdentityFound identity

datatype host_lookup = HostOwnedBy uid | HostUnknown | HostUndetermined

record service =
  sv_engine :: engine
  sv_sha_hex :: "string \<Rightarrow> string"
  sv_cache :: cache_config
  sv_head :: uid
  sv_lease :: int
  sv_max_inflight :: int
  sv_max_batch :: int

record call_env =
  ce_key :: "string option"
  ce_identity :: "uid \<Rightarrow> identity_lookup"
  ce_host_owner :: "uid \<Rightarrow> host_lookup"
  ce_host_runtimes :: "uid \<Rightarrow> string list option"
  ce_slot :: bool
  ce_saturated :: bool
  ce_live :: "nat \<Rightarrow> bool"
  ce_ok :: "nat \<Rightarrow> bool"
  ce_ids :: "nat \<Rightarrow> nat \<Rightarrow> uid"
  ce_fuel :: nat

definition resolve_authed_volunteer :: "call_env \<Rightarrow> uid \<Rightarrow> rpc_code + identity" where
  "resolve_authed_volunteer ce v =
     (case ce_key ce of None \<Rightarrow> Inl Unauthenticated
      | Some key \<Rightarrow> (case ce_identity ce v of
            IdentityShed \<Rightarrow> Inl ResourceExhausted
          | IdentityUnknown \<Rightarrow> Inl RpcNotFound
          | IdentityFound i \<Rightarrow> if id_key i \<noteq> key then Inl PermissionDenied else Inr i))"

text \<open>The forced flush of a hold the cache still has; whether the call may go on.\<close>

definition flush_own_hold :: "service \<Rightarrow> call_env \<Rightarrow> uid \<Rightarrow> uid \<Rightarrow> replica \<Rightarrow> (bool \<times> replica) option" where
  "flush_own_hold sv ce u v s =
     (if has_in_mem_reservation u v (fst s)
      then flush_all_pending_held (en_trust_policy (sv_engine sv)) (sv_cache sv) (sv_head sv) (sv_lease sv)
             (ce_ids ce) (ce_live ce) (ce_ok ce) (ce_fuel ce) s
      else Some (True, s))"

section \<open>A run-start\<close>

datatype start_reply = Started | NoLongerDispatchable | NoLongerReserved

definition start_work :: "service \<Rightarrow> call_env \<Rightarrow> uid \<Rightarrow> uid \<Rightarrow> replica \<Rightarrow> ((rpc_code + start_reply) \<times> replica) option" where
  "start_work sv ce u v s =
     (case resolve_authed_volunteer ce v of Inl e \<Rightarrow> Some (Inl e, s)
      | Inr _ \<Rightarrow>
        if \<not> ce_slot ce then Some (Inl ResourceExhausted, s)
        else case find_unit u (snd s) of None \<Rightarrow> Some (Inl RpcNotFound, s)
        | Some w \<Rightarrow>
          if wu_state w \<noteq> Queued then Some (Inr NoLongerDispatchable, s)
          else case flush_own_hold sv ce u v s of
            None \<Rightarrow> None
          | Some (False, s1) \<Rightarrow> Some (Inl ResourceExhausted, s1)
          | Some (True, c1, d1) \<Rightarrow>
              (case assign u v d1 of
                 (Inl e, d2) \<Rightarrow> Some (Inr NoLongerReserved, (c1, d2))
               | (Inr _, d2) \<Rightarrow> Some (Inr Started, (on_run_start u v c1, d2))))"

section \<open>An abandonment\<close>

datatype abandon_reply = BufferedReleased | CopyRequeued | UnitDeadLettered

definition charge_machine :: "service \<Rightarrow> uid \<Rightarrow> db \<Rightarrow> db" where
  "charge_machine sv machine d =
     d\<lparr>db_reliability := record_outcome (en_reliability_decay (sv_engine sv)) (db_now d) machine False (db_reliability d)\<rparr>"

definition abandon_work_unit :: "service \<Rightarrow> call_env \<Rightarrow> uid \<Rightarrow> uid \<Rightarrow> bool \<Rightarrow> string \<Rightarrow> replica
    \<Rightarrow> ((rpc_code + abandon_reply) \<times> replica) option" where
  "abandon_work_unit sv ce u v giveback reason s =
     (if u = [] \<or> v = [] then Some (Inl InvalidArgument, s)
      else case resolve_authed_volunteer ce v of Inl e \<Rightarrow> Some (Inl e, s)
      | Inr _ \<Rightarrow>
        if \<not> ce_slot ce then Some (Inl ResourceExhausted, s)
        else let had_hold = has_in_mem_reservation u v (fst s) in
        case flush_own_hold sv ce u v s of
          None \<Rightarrow> None
        | Some (False, s1) \<Rightarrow> Some (Inl ResourceExhausted, s1)
        | Some (True, c1, d1) \<Rightarrow>
            (case close_copy_by_volunteer u v (if giveback then OutReturned else OutAbandoned) None reason d1 of
               (Inl (Conflict e), d2) \<Rightarrow>
                 (if had_hold then Some (Inr BufferedReleased, (release_in_mem u v c1, d2))
                  else Some (Inl FailedPrecondition, (c1, d2)))
             | (Inl _, d2) \<Rightarrow> Some (Inl RpcInternal, (c1, d2))
             | (Inr (out, host), d2) \<Rightarrow>
                 (let returned = (out = OutReturned);
                      c2 = on_copy_closed u v returned c1;
                      d3 = (if returned then d2 else charge_machine sv (meter_id v host) d2);
                      (r, ev, d4) = evaluate (db_ops (sv_engine sv) (sv_sha_hex sv)) (en_trust_policy (sv_engine sv)) u d3;
                      dead = (r = Inr ToDeadLettered);
                      c3 = (if ev then invalidate_work_unit u c2 else c2);
                      c4 = (if dead then on_unit_done u c3 else c3)
                  in Some (Inr (if dead then UnitDeadLettered else CopyRequeued), (c4, d4)))))"

section \<open>A request for work\<close>

definition hr_class :: "hardware \<Rightarrow> string" where
  "hr_class hw =
     (let known = (\<lambda>s. if s = [] then ''unknown'' else s)
      in known (hw_cpu_vendor hw) @ ''/'' @ known (hw_os hw) @ ''/'' @ known (hw_cpu_arch hw))"

text \<open>Go's integer division, which truncates.\<close>

definition quot_int :: "int \<Rightarrow> int \<Rightarrow> int" where
  "quot_int a b = sgn a * sgn b * (\<bar>a\<bar> div \<bar>b\<bar>)"

definition max_gpu_vram :: "gpu_info list \<Rightarrow> int" where
  "max_gpu_vram gs =
     foldl (\<lambda>m g. let eff = quot_int (gpu_vram_mb g * gpu_max_vram_pct g) 100 in if eff > m then eff else m) 0 gs"

definition request_options :: "service \<Rightarrow> uid \<Rightarrow> identity \<Rightarrow> hardware \<Rightarrow> string list \<Rightarrow> uid option \<Rightarrow> uid list \<Rightarrow> uid list
    \<Rightarrow> assignment_options" where
  "request_options sv v i hw runtimes host leafs blocked =
     \<lparr>ao_volunteer = v, ao_leaf_ids = leafs, ao_blocked_leaf_ids = blocked,
      ao_max_cpu_cores = hw_max_cpu_cores hw, ao_max_memory_mb = hw_max_memory_mb hw, ao_max_disk_mb = hw_max_disk_mb hw,
      ao_has_gpu = (hw_gpus hw \<noteq> []), ao_max_gpu_vram_mb = max_gpu_vram (hw_gpus hw), ao_runtimes = runtimes,
      ao_gpu_vendors = map (to_upper \<circ> gpu_vendor) (hw_gpus hw),
      ao_gpu_compute_capabilities = filter (\<lambda>s. s \<noteq> []) (map gpu_compute (hw_gpus hw)),
      ao_max_inflight = sv_max_inflight sv, ao_hr_class = hr_class hw, ao_host = host, ao_trust_subject = id_subject i,
      ao_benchmark_fpops = hw_benchmark (id_hardware i),
      ao_host_max_cpu_cores = hw_host_max_cpu_cores hw, ao_host_max_memory_mb = hw_host_max_memory_mb hw\<rparr>"

text \<open>The machine a request may be metered on: one issued to this account, none when that cannot be told.\<close>

definition resolve_host :: "call_env \<Rightarrow> uid \<Rightarrow> uid \<Rightarrow> rpc_code + uid option" where
  "resolve_host ce v raw =
     (if raw = [] then Inr None
      else case ce_host_owner ce raw of
        HostOwnedBy owner \<Rightarrow> if owner = v then Inr (Some raw) else Inl FailedPrecondition
      | HostUnknown \<Rightarrow> Inl FailedPrecondition
      | HostUndetermined \<Rightarrow> Inr None)"

record work_request =
  rq_volunteer :: uid
  rq_key_length :: nat
  rq_host :: uid
  rq_available :: "hardware option"
  rq_leafs :: "uid list"
  rq_blocked :: "uid list"
  rq_max :: int
  rq_held :: "uid list"

definition clamp_assignments :: "service \<Rightarrow> int \<Rightarrow> int" where
  "clamp_assignments sv n = (let n = (if n < 1 then 1 else n) in if n > sv_max_batch sv then sv_max_batch sv else n)"

text \<open>The reply of a request: its draws, the leaf reads and the fallback's fortune are the arguments of the poll.\<close>

definition request_work_unit :: "service \<Rightarrow> call_env \<Rightarrow> (uid \<Rightarrow> leaf option) \<Rightarrow> (nat \<Rightarrow> 64 word option) \<Rightarrow>
    (nat \<Rightarrow> 64 word option) \<Rightarrow> bool \<Rightarrow> bool \<Rightarrow> work_request \<Rightarrow> replica \<Rightarrow> (rpc_code + poll_reply) \<times> replica" where
  "request_work_unit sv ce read draws draws_db found_ok landed_ok rq s =
     (let v = rq_volunteer rq in
      if rq_key_length rq \<noteq> 32 then (Inl InvalidArgument, s)
      else case resolve_authed_volunteer ce v of Inl e \<Rightarrow> (Inl e, s)
      | Inr i \<Rightarrow>
        case resolve_host ce v (rq_host rq) of Inl e \<Rightarrow> (Inl e, s)
        | Inr host \<Rightarrow>
          let runtimes = (case host of None \<Rightarrow> id_runtimes i
                | Some h \<Rightarrow> (case ce_host_runtimes ce h of None \<Rightarrow> id_runtimes i | Some rs \<Rightarrow> rs));
              hw = (case rq_available rq of None \<Rightarrow> id_hardware i | Some a \<Rightarrow> a);
              q = request_options sv v i hw runtimes host (rq_leafs rq) (rq_blocked rq);
              c1 = note_volunteer_held v (meter_id v host) (rq_held rq) (fst s)
          in if dc_ready c1 = [] \<and> ce_saturated ce then (Inl ResourceExhausted, (c1, snd s))
             else (case hand_out_with_reason (en_trust_policy (sv_engine sv)) (sv_cache sv) (sv_head sv) (sv_lease sv)
                      (ce_ids ce 0) read draws draws_db found_ok landed_ok v q (clamp_assignments sv (rq_max rq)) (c1, snd s) of
                     (reply, s') \<Rightarrow> (Inr reply, s')))"

section \<open>What a forced flush leaves\<close>

lemma unit_states_rows:
  assumes "\<And>w. wu_id (f w) = wu_id w" "\<And>w. wu_state (f w) = wu_state w"
  shows "unit_states (update_units P f d) = unit_states d"
proof (rule ext)
  show "unit_states (update_units P f d) i = unit_states d i" for i
    by (cases "find_unit i d") (simp_all add: unit_states_def find_unit_update_units assms)
qed

lemma unit_states_copies [simp]: "unit_states (d\<lparr>db_copies := cs\<rparr>) = unit_states d"
  by (simp add: unit_states_def [abs_def] find_unit_def)

lemma land_all_states: "unit_states (snd (land_all ids n rs d)) = unit_states d"
proof (induction rs arbitrary: n d)
  case (Cons r rs)
  have "unit_states (snd (land_one (ids n) r d)) = unit_states d" by (simp add: land_one_def)
  then show ?case using Cons.IH [of "n + 1" "snd (land_one (ids n) r d)"] by (simp add: case_prod_beta)
qed simp

lemma flush_states: "unit_states (snd (flush_reservations tp head lease ids rs d)) = unit_states d"
  using land_all_states [of ids 0 "filter (flush_guard tp d) (deduplicated d rs)" d]
  by (auto simp: flush_reservations_def renew_claims_def unit_states_rows split: prod.splits)

lemma flush_batch_states: "unit_states (snd (flush_batch tp cf head lease ids ok readable s)) = unit_states (snd s)"
  using flush_states [of tp head lease ids "fst (take_flush_batch cf (fst s))" "snd s"]
  by (auto simp: flush_batch_def Let_def split: prod.splits)

lemma mark_spot_check_states: "mark_spot_check i d = (r, d') \<Longrightarrow> unit_states d' = unit_states d"
  by (auto simp: mark_spot_check_def Let_def unit_states_rows split: if_splits)

lemma reserve_copy_states: "reserve_copy i u v host t dl d = (r, d') \<Longrightarrow> unit_states d' = unit_states d"
  by (auto simp: reserve_copy_def Let_def split: if_splits)

lemma land_spot_check_states: "unit_states (snd (land_spot_check i sc s)) = unit_states (snd s)"
  by (auto simp: land_spot_check_def mark_spot_check_states reserve_copy_states split: prod.splits sum.splits)

lemma land_spot_checks_states: "unit_states (snd (land_spot_checks ids admitted n scs s)) = unit_states (snd s)"
  by (induction scs arbitrary: n s) (simp_all add: land_spot_check_states)

lemma flush_spot_states: "unit_states (snd (flush_spot_checks cf ids admitted s)) = unit_states (snd s)"
  by (auto simp: flush_spot_checks_def land_spot_checks_states split: prod.splits)

lemma drain_states:
  "flush_all_pending_held tp cf head lease ids live ok fuel s = Some (b, s') \<Longrightarrow> unit_states (snd s') = unit_states (snd s)"
proof (induction fuel arbitrary: s)
  case (Suc fuel)
  then show ?case
    using Suc.IH [of "flush_batch tp cf head lease (ids fuel) (ok fuel) (\<lambda>_. True) s"]
      Suc.IH [of "flush_spot_checks cf (ids fuel) (\<lambda>_. True) s"]
    by (auto simp: flush_batch_states flush_spot_states split: if_splits)
qed simp

lemma drained_queues:
  "flush_all_pending_held tp cf head lease ids live ok fuel s = Some (True, s') \<Longrightarrow>
     dc_pending (fst s') = [] \<and> dc_spot (fst s') = []"
  by (induction fuel arbitrary: s) (auto split: if_splits)

lemma own_hold_flushed:
  assumes "flush_own_hold sv ce u v s = Some (True, s1)"
  shows "has_in_mem_reservation u v (fst s) \<Longrightarrow> dc_pending (fst s1) = [] \<and> dc_spot (fst s1) = []"
    "\<not> has_in_mem_reservation u v (fst s) \<Longrightarrow> s1 = s"
    "unit_states (snd s1) = unit_states (snd s)"
  using assms by (auto simp: flush_own_hold_def drain_states dest!: drained_queues split: if_splits)

section \<open>Run-starts\<close>

lemma live_copy_count:
  "live_copy_of u v d \<longleftrightarrow> count_if (\<lambda>c. cp_unit c = u \<and> cp_volunteer c = v \<and> cp_outcome c = None) (db_copies d) \<noteq> 0"
  by (auto simp: live_copy_of_def count_if_zero)

text \<open>The copies and the units after a run-start.\<close>

definition started_copy :: "time \<Rightarrow> unit_copy \<Rightarrow> unit_copy" where
  "started_copy now c = c\<lparr>cp_started_at := (case cp_started_at c of None \<Rightarrow> Some now | Some t \<Rightarrow> Some t)\<rparr>"

lemma update_copies_none: "\<not> (\<exists>c\<in>set (db_copies d). P c) \<Longrightarrow> update_copies P f d = d"
  by (simp add: update_copies_def update_where_def map_idI)

definition started_unit :: "uid \<Rightarrow> time \<Rightarrow> work_unit \<Rightarrow> work_unit" where
  "started_unit v now w = w\<lparr>wu_assigned_volunteer := Some v, wu_assigned_at := Some now, wu_last_heartbeat_at := Some now,
     wu_started_at := (case wu_started_at w of None \<Rightarrow> Some now | Some t \<Rightarrow> Some t)\<rparr>"

definition run_start_db :: "uid \<Rightarrow> uid \<Rightarrow> db \<Rightarrow> db" where
  "run_start_db u v d = update_units (\<lambda>w. wu_id w = u) (started_unit v (db_now d))
     (update_copies (\<lambda>c. cp_unit c = u \<and> cp_volunteer c = v \<and> cp_outcome c = None) (started_copy (db_now d)) d)"

lemma run_start_states: "unit_states (run_start_db u v d) = unit_states d"
  by (simp add: run_start_db_def unit_states_rows started_unit_def update_copies_def)

lemma assign_eq:
  "assign u v d = (if live_copy_of u v d then get_unit u (run_start_db u v d) else (Inl (Conflict ''ASSIGNMENT_CONFLICT''), d))"
proof (cases "live_copy_of u v d")
  case True
  then show ?thesis
    by (simp add: assign_def Let_def live_copy_count run_start_db_def started_copy_def [abs_def] started_unit_def [abs_def])
next
  case False
  then have "\<not> (\<exists>c\<in>set (db_copies d). cp_unit c = u \<and> cp_volunteer c = v \<and> cp_outcome c = None)"
    by (simp add: live_copy_of_def)
  then show ?thesis using False by (simp add: assign_def Let_def live_copy_count update_copies_none)
qed

lemma assign_found:
  assumes "unit_states d u = Some st"
  obtains w where "wu_state w = st" "find_unit u (run_start_db u v d) = Some w"
    "assign u v d = (if live_copy_of u v d then (Inr w, run_start_db u v d) else (Inl (Conflict ''ASSIGNMENT_CONFLICT''), d))"
proof -
  have "unit_states (run_start_db u v d) u = Some st" using assms by (simp add: run_start_states)
  then obtain w where w: "find_unit u (run_start_db u v d) = Some w" "wu_state w = st" by (auto simp: unit_states_def)
  show thesis by (rule that [OF w(2,1)]) (simp add: assign_eq get_unit_def w(1))
qed


lemma run_start_copies:
  "db_copies (run_start_db u v d) =
     update_where (\<lambda>c. cp_unit c = u \<and> cp_volunteer c = v \<and> cp_outcome c = None) (started_copy (db_now d)) (db_copies d)"
  by (simp add: run_start_db_def update_copies_def)

lemma started_copy_simps [simp]:
  "cp_unit (started_copy t c) = cp_unit c" "cp_volunteer (started_copy t c) = cp_volunteer c"
  "cp_outcome (started_copy t c) = cp_outcome c" "cp_started_at (started_copy t c) \<noteq> None"
  "cp_started_at c \<noteq> None \<Longrightarrow> started_copy t c = c"
  by (auto simp: started_copy_def split: option.split)

definition all_started :: "uid \<Rightarrow> uid \<Rightarrow> db \<Rightarrow> bool" where
  "all_started u v d \<longleftrightarrow> (\<forall>c\<in>set (db_copies d).
     cp_unit c = u \<and> cp_volunteer c = v \<and> cp_outcome c = None \<longrightarrow> cp_started_at c \<noteq> None)"

lemma run_start_live: "live_copy_of a b (run_start_db u v d) = live_copy_of a b d"
  unfolding live_copy_of_def run_start_copies set_update_where bex_simps by (intro bex_cong) auto

lemma run_start_all_started: "all_started u v (run_start_db u v d)"
  unfolding all_started_def run_start_copies set_update_where ball_simps by (auto simp del: not_None_eq)

lemma run_start_again: "all_started u v d \<Longrightarrow> db_copies (run_start_db u v d) = db_copies d"
  unfolding run_start_copies update_where_def by (rule map_idI) (auto simp: all_started_def simp del: not_None_eq)

lemma on_run_start_held: "\<not> has_in_mem_reservation u v (on_run_start u v c)"
  by (auto simp: has_in_mem_reservation_def on_run_start_def Let_def holders_of_def)

lemma start_workE:
  assumes "start_work sv ce u v (c, d) = Some (Inr Started, (c', d'))"
  obtains c1 d1 where "flush_own_hold sv ce u v (c, d) = Some (True, c1, d1)" "unit_states d1 u = Some Queued"
    "live_copy_of u v d1" "d' = run_start_db u v d1" "c' = on_run_start u v c1"
proof -
  obtain w c1 d1 x where w: "find_unit u d = Some w" "wu_state w = Queued"
    and fl: "flush_own_hold sv ce u v (c, d) = Some (True, c1, d1)"
    and a: "assign u v d1 = (Inr x, d')" and c': "c' = on_run_start u v c1"
    using assms by (auto simp: start_work_def split: sum.splits option.splits if_splits prod.splits bool.splits)
  have st: "unit_states d1 u = Some Queued" using own_hold_flushed(3) [OF fl] w by (simp add: unit_states_def)
  then obtain w' where "assign u v d1 =
      (if live_copy_of u v d1 then (Inr w', run_start_db u v d1) else (Inl (Conflict ''ASSIGNMENT_CONFLICT''), d1))"
    by (rule assign_found)
  then have "live_copy_of u v d1" "d' = run_start_db u v d1" using a by (auto split: if_splits)
  then show thesis using that fl st c' by blast
qed

lemma start_workI:
  assumes "resolve_authed_volunteer ce v = Inr i" "ce_slot ce" "unit_states d u = Some Queued"
    "\<not> has_in_mem_reservation u v c" "live_copy_of u v d"
  shows "start_work sv ce u v (c, d) = Some (Inr Started, (on_run_start u v c, run_start_db u v d))"
proof -
  obtain w where "find_unit u d = Some w" "wu_state w = Queued" using assms(3) by (auto simp: unit_states_def)
  moreover obtain x where "assign u v d = (Inr x, run_start_db u v d)"
    using assign_found [OF assms(3), of v] assms(5) by auto
  ultimately show ?thesis using assms by (simp add: start_work_def flush_own_hold_def)
qed

text \<open>An accepted run-start leaves the unit queued for its other copies, the caller's copies live and all started, and
  the caller's in-memory hold gone; and a retry at any later time is answered the same and changes no copy.\<close>

theorem run_start_is_idempotent:
  assumes "start_work sv ce u v (c, d) = Some (Inr Started, (c', d'))"
  shows "unit_states d' u = Some Queued \<and> live_copy_of u v d' \<and> all_started u v d' \<and> \<not> has_in_mem_reservation u v c' \<and>
    (\<forall>ce2 i t. resolve_authed_volunteer ce2 v = Inr i \<longrightarrow> ce_slot ce2 \<longrightarrow>
      (\<exists>c2 d2. start_work sv ce2 u v (c', d'\<lparr>db_now := t\<rparr>) = Some (Inr Started, (c2, d2)) \<and> db_copies d2 = db_copies d'))"
proof -
  obtain c1 d1 where d1: "unit_states d1 u = Some Queued" "live_copy_of u v d1" "d' = run_start_db u v d1"
    "c' = on_run_start u v c1"
    using start_workE [OF assms] by blast
  have q: "unit_states d' u = Some Queued" "live_copy_of u v d'" "all_started u v d'" "\<not> has_in_mem_reservation u v c'"
    using d1 by (simp_all add: run_start_states run_start_live run_start_all_started on_run_start_held)
  have "\<exists>c2 d2. start_work sv ce2 u v (c', d'\<lparr>db_now := t\<rparr>) = Some (Inr Started, (c2, d2)) \<and> db_copies d2 = db_copies d'"
    if "resolve_authed_volunteer ce2 v = Inr i" "ce_slot ce2" for ce2 i t
  proof -
    let ?d = "d'\<lparr>db_now := t\<rparr>"
    have "unit_states ?d u = Some Queued" "live_copy_of u v ?d" "all_started u v ?d"
      using q by (simp_all add: unit_states_def find_unit_def live_copy_of_def all_started_def)
    then show ?thesis using start_workI [OF that, of ?d u c' sv] q(4) run_start_again [of u v ?d] by auto
  qed
  then show ?thesis using q by blast
qed


section \<open>What an evaluation leaves of the copies\<close>

text \<open>An operation that keeps a property of the store, whatever it answers.\<close>

definition keeps :: "('s \<Rightarrow> bool) \<Rightarrow> ('s, 'a) op \<Rightarrow> bool" where
  "keeps Q m \<longleftrightarrow> (\<forall>s. Q s \<longrightarrow> Q (snd (m s)))"

named_theorems keeps_intro

lemma keepsD: "keeps Q m \<Longrightarrow> Q s \<Longrightarrow> m s = (r, s') \<Longrightarrow> Q s'"
  by (metis keeps_def snd_conv)

lemma keeps_bind [keeps_intro]: "keeps Q m \<Longrightarrow> (\<And>a. keeps Q (k a)) \<Longrightarrow> keeps Q (obind m k)"
  by (auto simp: keeps_def obind_def split: prod.split sum.split)

lemma keeps_return [keeps_intro]: "keeps Q (oreturn a)"
  by (simp add: keeps_def)

lemma keeps_read [keeps_intro]: "keeps Q (lift_read f)"
  by (simp add: keeps_def lift_read_def)

lemma keeps_tx [keeps_intro]: "keeps Q m \<Longrightarrow> keeps Q (in_tx m)"
  by (auto simp: keeps_def in_tx_def split: prod.split sum.split)

lemma keeps_drop_value [keeps_intro]: "keeps Q m \<Longrightarrow> keeps Q (drop_value m)"
  unfolding drop_value_def by (intro keeps_intro)

lemma keeps_if [keeps_intro]: "keeps Q m \<Longrightarrow> keeps Q n \<Longrightarrow> keeps Q (if b then m else n)"
  by simp

lemma keeps_sum [keeps_intro]: "(\<And>a. keeps Q (f a)) \<Longrightarrow> (\<And>b. keeps Q (g b)) \<Longrightarrow> keeps Q (case x of Inl a \<Rightarrow> f a | Inr b \<Rightarrow> g b)"
  by (cases x) simp_all

lemma keeps_pure: "(\<And>s. Q (snd (m s)) = Q s) \<Longrightarrow> keeps Q m"
  by (simp add: keeps_def)

text \<open>The ten calls of the transitioner that write.\<close>

definition ops_keep :: "('s \<Rightarrow> bool) \<Rightarrow> 's transition_ops \<Rightarrow> bool" where
  "ops_keep Q ops \<longleftrightarrow> (\<forall>i. keeps Q (op_mark_completed ops i)) \<and> (\<forall>i a b. keeps Q (op_update_state ops i a b)) \<and>
     (\<forall>i. keeps Q (op_reassign ops i)) \<and> (\<forall>i. keeps Q (op_dead_letter ops i)) \<and> (\<forall>i x. keeps Q (op_expire_live ops i x)) \<and>
     (\<forall>w lf p m n. keeps Q (op_apply_accept ops w lf p m n)) \<and> (\<forall>w p n. keeps Q (op_apply_reject ops w p n))"

lemma keeps_reopen:
  assumes "ops_keep Q ops"
  shows "keeps Q (reopen ops i st)"
  unfolding keeps_def
proof (intro allI impI)
  show "Q (snd (reopen ops i st s))" if q: "Q s" for s
    using assms q unfolding ops_keep_def keeps_def
    by (cases st) (simp_all add: reopen_def case_prod_beta split: sum.split)
qed

lemma keeps_apply_decision:
  assumes "ops_keep Q ops"
  shows "keeps Q (apply_decision ops i w lf p m n dec)"
proof -
  have e: "keeps Q (\<lambda>s. (Inr ToValidated, snd (op_expire_live ops i OutSuperseded s)))"
    using assms by (simp add: ops_keep_def keeps_def)
  show ?thesis
    using assms keeps_reopen [OF assms] e
    by (cases "de_action dec") (auto simp: apply_decision_def ops_keep_def intro!: keeps_intro)
qed

lemma keeps_decide_and_apply:
  assumes "ops_keep Q ops"
  shows "keeps Q (decide_and_apply ops tp i)"
proof -
  have m: "keeps Q (op_mark_completed ops i)" using assms by (simp add: ops_keep_def)
  show ?thesis
    unfolding decide_and_apply_def decide_on_def load_counts_def Let_def
    by (intro keeps_intro keeps_apply_decision assms m)
qed

lemma keeps_evaluate:
  assumes "ops_keep Q ops" "Q s" "evaluate ops tp i s = (r, ev, s')"
  shows "Q s'"
proof -
  note K = keepsD [OF keeps_decide_and_apply [OF assms(1), of tp i]]
  obtain a s1 where one: "decide_and_apply ops tp i s = (a, s1)" by fastforce
  obtain b s2 where two: "decide_and_apply ops tp i s1 = (b, s2)" by fastforce
  have "Q s1" "Q s2" using K [OF assms(2) one] K [OF K [OF assms(2) one] two] by blast+
  then show ?thesis
    using assms(3) one two by (auto simp: evaluate_def Let_def split: sum.splits api_error.splits)
qed


text \<open>The copies a property picks by their id, unit and volunteer are closed with one of the given outcomes.\<close>

definition copies_closed :: "(uid \<Rightarrow> uid \<Rightarrow> uid \<Rightarrow> bool) \<Rightarrow> outcome set \<Rightarrow> db \<Rightarrow> bool" where
  "copies_closed P outs d \<longleftrightarrow> (\<forall>c\<in>set (db_copies d). P (cp_id c) (cp_unit c) (cp_volunteer c) \<longrightarrow> (\<exists>x\<in>outs. cp_outcome c = Some x))"

lemma keeps_copies: "(\<And>d. db_copies (snd (m d)) = db_copies d) \<Longrightarrow> keeps (copies_closed P outs) m"
  by (rule keeps_pure) (simp add: copies_closed_def)

lemma keeps_closed_store [keeps_intro]:
  "keeps (copies_closed P outs) (mark_completed i)" "keeps (copies_closed P outs) (update_state i a b)" "keeps (copies_closed P outs) (reassign i)"
  "keeps (copies_closed P outs) (dead_letter_if_exhausted i)" "keeps (copies_closed P outs) (batch_update_validation_status ids st)"
  "keeps (copies_closed P outs) (create_credit e)" "keeps (copies_closed P outs) (create_capped cap e)"
  "keeps (copies_closed P outs) (supersede_residue i n p)"
proof -
  have us: "db_copies (snd (update_state i a b d)) = db_copies d" for i a b d
    by (auto simp: update_state_def get_unit_def Let_def split: sum.split option.split)
  show "keeps (copies_closed P outs) (update_state i a b)" by (rule keeps_copies) (rule us)
  show "keeps (copies_closed P outs) (mark_completed i)" by (rule keeps_copies) (simp add: mark_completed_eq)
  show "keeps (copies_closed P outs) (reassign i)"
    by (rule keeps_copies)
      (use us in \<open>auto simp: reassign_def get_unit_def case_prod_beta split: sum.split option.split\<close>)
  show "keeps (copies_closed P outs) (dead_letter_if_exhausted i)"
    by (rule keeps_copies) (simp add: dead_letter_if_exhausted_def Let_def)
  have ba: "db_copies (snd (batch_update_validation_status ids st d)) = db_copies d" for ids st d
    by (simp add: batch_update_validation_status_def Let_def)
  show "keeps (copies_closed P outs) (batch_update_validation_status ids st)" by (rule keeps_copies) (rule ba)
  show "keeps (copies_closed P outs) (create_credit e)" "keeps (copies_closed P outs) (create_capped cap e)"
    by (rule keeps_copies, simp add: create_credit_def create_capped_def)+
  show "keeps (copies_closed P outs) (supersede_residue i n p)" by (rule keeps_copies) (simp add: supersede_residue_def Let_def ba)
qed

lemma keeps_closed_expire [keeps_intro]: "keeps (copies_closed P outs) (expire_live_copies i out)"
  unfolding keeps_def
proof (intro allI impI)
  show "copies_closed P outs (snd (expire_live_copies i out d))" if "copies_closed P outs d" for d
    using that unfolding copies_closed_def expire_live_copies_def Let_def snd_conv update_copies_def by (auto simp: set_update_where)
qed

lemma keeps_closed_grant [keeps_intro]: "keeps (copies_closed P outs) (grant_credit cap amount w rs)"
proof (induction rs)
  case (Cons r rs)
  then show ?case unfolding grant_credit.simps by (intro keeps_intro)
qed (simp add: keeps_def)

lemma keeps_closed_finalization [keeps_intro]:
  "keeps (copies_closed P outs) fn \<Longrightarrow> keeps (copies_closed P outs) (run_finalization i n fn)"
  unfolding run_finalization_def by (rule keeps_tx) (simp add: keeps_def)

lemma effects_copies:
  "db_copies (fold (record_adjudicated_db en b) rs d) = db_copies d"
  "db_copies (record_reliability en b rs d) = db_copies d" "db_copies (accrue_trust en lf w rs d) = db_copies d"
proof -
  show "db_copies (fold (record_adjudicated_db en b) rs d) = db_copies d"
    by (induction rs arbitrary: d) (auto simp: record_adjudicated_db_def split: option.split)
qed (simp_all add: record_reliability_def accrue_trust_def)

lemma keeps_after:
  assumes "keeps (copies_closed P outs) m" "\<And>d. db_copies (g d) = db_copies d"
  shows "keeps (copies_closed P outs) (\<lambda>d. case m d of (Inl e, d') \<Rightarrow> (Inl e, d') | (Inr x, d') \<Rightarrow> (Inr x, g d'))"
  unfolding keeps_def
proof (intro allI impI)
  fix d assume "copies_closed P outs d"
  then have "copies_closed P outs (snd (m d))" using assms(1) by (simp add: keeps_def)
  then show "copies_closed P outs (snd (case m d of (Inl e, d') \<Rightarrow> (Inl e, d') | (Inr x, d') \<Rightarrow> (Inr x, g d')))"
    using assms(2) by (cases "m d") (auto simp: copies_closed_def split: sum.split)
qed

lemma keeps_closed_apply:
  "keeps (copies_closed P outs) (accept_results en w lf p m n)" "keeps (copies_closed P outs) (reject_all en w p n)"
proof -
  have "keeps (copies_closed P outs) (accept_tx en w lf p m n)" unfolding accept_tx_def by (intro keeps_intro)
  then show "keeps (copies_closed P outs) (accept_results en w lf p m n)"
    unfolding accept_results_def [abs_def] by (rule keeps_after) (simp add: accept_effects_def effects_copies)
  have "keeps (copies_closed P outs) (reject_tx w p n)" unfolding reject_tx_def case_prod_beta by (intro keeps_intro)
  then show "keeps (copies_closed P outs) (reject_all en w p n)"
    unfolding reject_all_def [abs_def] by (rule keeps_after) (simp add: effects_copies)
qed

lemma evaluation_keeps_closed:
  assumes "copies_closed P outs d" "evaluate (db_ops en sha_hex) tp i d = (r, ev, d')"
  shows "copies_closed P outs d'"
proof (rule keeps_evaluate [where Q = "copies_closed P outs", OF _ assms(1) assms(2)])
  show "ops_keep (copies_closed P outs) (db_ops en sha_hex)"
    unfolding ops_keep_def db_ops_def transition_ops.simps
    by (intro conjI allI keeps_intro keeps_closed_apply)
qed

lemma live_copy_closed: "\<not> live_copy_of u v d \<longleftrightarrow> copies_closed (\<lambda>_ a b. a = u \<and> b = v) UNIV d"
  by (auto simp: live_copy_of_def copies_closed_def)

lemma evaluation_creates_no_copy:
  assumes "\<not> live_copy_of u v d" "evaluate (db_ops en sha_hex) tp i d = (r, ev, d')"
  shows "\<not> live_copy_of u v d'"
  using assms(1) unfolding live_copy_closed by (rule evaluation_keeps_closed [OF _ assms(2)])


section \<open>The cache under a call\<close>

lemma reachable_settle:
  "cache_reachable cf c \<Longrightarrow> cache_reachable cf (settle_conflicts gone ev rs c)"
proof (induction rs arbitrary: ev c)
  case (Cons r rs)
  note r = Cons.prems [THEN cache_reachable.step]
  show ?case using Cons.IH r [OF cache_step.invalidate] r [OF cache_step.close] Cons.prems by (simp add: void_non_landed_copy_def)
qed simp

lemma reachable_flush_batch:
  "cache_reachable cf (fst s) \<Longrightarrow> cache_reachable cf (fst (flush_batch tp cf head lease ids ok readable s))"
  using cache_reachable.step [OF _ cache_step.flush_taken] cache_reachable.step [OF cache_reachable.step [OF _ cache_step.flush_taken] cache_step.flush_requeued]
  by (auto simp: flush_batch_def Let_def case_prod_beta intro!: reachable_settle)

lemma reachable_land_spots:
  "cache_reachable cf (fst s) \<Longrightarrow> cache_reachable cf (fst (land_spot_checks ids admitted n scs s))"
proof (induction scs arbitrary: n s)
  case (Cons sc scs)
  have "cache_reachable cf (fst (land_spot_check (ids n) sc s))"
    using Cons.prems cache_reachable.step [OF Cons.prems cache_step.release]
    by (auto simp: land_spot_check_def case_prod_beta split: sum.split)
  then show ?case using Cons.IH cache_reachable.step [OF Cons.prems cache_step.spot_requeued] by simp
qed simp

lemma reachable_flush_spots:
  "cache_reachable cf (fst s) \<Longrightarrow> cache_reachable cf (fst (flush_spot_checks cf ids admitted s))"
  using cache_reachable.step [OF _ cache_step.spot_taken]
  by (auto simp: flush_spot_checks_def case_prod_beta intro!: reachable_land_spots)

lemma reachable_drain:
  "flush_all_pending_held tp cf head lease ids live ok fuel s = Some (b, s') \<Longrightarrow> cache_reachable cf (fst s) \<Longrightarrow>
     cache_reachable cf (fst s')"
proof (induction fuel arbitrary: s)
  case (Suc fuel)
  then show ?case using Suc.IH reachable_flush_batch reachable_flush_spots by (auto split: if_splits)
qed simp

lemma reachable_own_hold:
  "flush_own_hold sv ce u v s = Some (b, s') \<Longrightarrow> cache_reachable (sv_cache sv) (fst s) \<Longrightarrow>
     cache_reachable (sv_cache sv) (fst s')"
  by (auto simp: flush_own_hold_def reachable_drain split: if_splits)

lemma reachable_start_work:
  assumes "start_work sv ce u v s = Some (r, s')" "cache_reachable (sv_cache sv) (fst s)"
  shows "cache_reachable (sv_cache sv) (fst s')"
  using assms reachable_own_hold [OF _ assms(2)] cache_reachable.step [OF _ cache_step.run_start]
  by (auto simp: start_work_def split: sum.splits option.splits if_splits prod.splits bool.splits)


section \<open>Abandonments\<close>

text \<open>Every staged copy of the unit is closed to the volunteer at this moment, whoever holds it.\<close>

definition benched_now :: "uid \<Rightarrow> uid \<Rightarrow> dcache \<Rightarrow> bool" where
  "benched_now u v c \<longleftrightarrow> (\<forall>cd\<in>set (dc_ready c). cd_id cd = u \<longrightarrow>
     (\<exists>e. cd_benched cd v = Some e \<and> dc_now c < be_until e \<and> dc_now c \<le> be_fallback_at e))"

lemma benched_now_refuses:
  assumes "benched_now u v c" "cd \<in> set (dc_ready c)" "cd_id cd = u" "dc_now c' = dc_now c"
  shows "bench_refuses v cd c'"
  using assms by (auto simp: benched_now_def bench_refuses_def not_less)

lemma scan_skips:
  assumes "\<forall>cd\<in>set cds. cd_id cd = u \<longrightarrow> (\<forall>c'. dc_now c' = now \<longrightarrow> bench_refuses v cd c')"
    "dc_now (ss_cache st) = now" "u \<notin> wu_id ` fst ` set (ss_results st)"
    "scan_ready cf v host q draws n cds st = (kept, st')"
  shows "u \<notin> wu_id ` fst ` set (ss_results st')"
  using assms
proof (induction cds arbitrary: st kept)
  case (Cons cd cds)
  show ?case
  proof (cases "length (ss_results st) \<ge> n")
    case n: False
    show ?thesis
    proof (cases "eligible cf v host q cd (ss_cache st) = RejectNone")
      case True
      obtain keep res c1 where acc: "accept_candidate cf v host q (draws (length (ss_results st))) cd (ss_cache st) = (keep, res, c1)"
        by (cases "accept_candidate cf v host q (draws (length (ss_results st))) cd (ss_cache st)") auto
      note E = accept_candidate_eqs [OF acc eligibleD(3) [OF True]]
      let ?st = "st\<lparr>ss_cache := c1, ss_results := ss_results st @ [res]\<rparr>"
      obtain rest where r: "scan_ready cf v host q draws n cds ?st = (rest, st')"
        using Cons.prems(4) scan_ready_step(1) [where draws = draws, OF n True acc] by (auto split: prod.splits)
      have "cd_id cd \<noteq> u" using eligibleD(6) [OF True] Cons.prems(1,2) by auto
      then have "u \<notin> wu_id ` fst ` set (ss_results ?st)" using Cons.prems(3) E(7) by simp
      then show ?thesis using Cons.IH [OF _ _ _ r] Cons.prems(1,2) E(4) by simp
    next
      case False
      obtain rest where r: "scan_ready cf v host q draws n cds
          (refuse_candidate cf v host q cd (eligible cf v host q cd (ss_cache st)) st) = (rest, st')"
        using Cons.prems(4) scan_ready_step(2) [where draws = draws, OF n False] by (auto split: prod.splits)
      then show ?thesis using Cons.IH [OF _ _ _ r] Cons.prems(1-3) by simp
    qed
  qed (use Cons.prems in \<open>simp add: scan_ready_full\<close>)
qed simp

lemma benched_not_handed_out:
  assumes "benched_now u v c"
  shows "u \<notin> wu_id ` fst ` set (hr_results (fst (hand_out cf v q n draws c)))"
proof (cases rule: hand_out_scan [of cf v q n draws c])
  case (scan kept st l)
  have "u \<notin> wu_id ` fst ` set (ss_results st)"
    by (rule scan_skips [where now = "dc_now c" and v = v, OF _ _ _ scan(1)])
      (use benched_now_refuses [OF assms] in \<open>auto simp: scan_start_def\<close>)
  then show ?thesis using scan by simp
qed simp

lemma benched_now_shrink:
  "benched_now u v c \<Longrightarrow> set (dc_ready c') \<subseteq> set (dc_ready c) \<Longrightarrow> dc_now c' = dc_now c \<Longrightarrow> benched_now u v c'"
  unfolding benched_now_def by auto

lemma release_fold_fields:
  "dc_ready (fold (\<lambda>h. release_in_mem u (f h)) hs c) = dc_ready c \<and> dc_now (fold (\<lambda>h. release_in_mem u (f h)) hs c) = dc_now c"
  by (induction hs arbitrary: c) (simp_all add: release_in_mem_def purge_pending_def split: option.split)

lemma benched_now_evict:
  "benched_now u v c \<Longrightarrow> benched_now u v (invalidate_work_unit w c)" "benched_now u v c \<Longrightarrow> benched_now u v (on_unit_done w c)"
  by (erule benched_now_shrink; use set_drop_first in \<open>fastforce simp: invalidate_work_unit_def Let_def on_unit_done_def release_fold_fields\<close>)+

lemma benched_after_close:
  assumes "distinct (map cd_id (dc_ready c))"
  shows "benched_now u v (on_copy_closed u v returned c)"
proof -
  have upd: "\<forall>cd\<in>set (update_first (\<lambda>cd. cd_id cd = u) g cds). cd_id cd = u \<longrightarrow> (\<exists>cd0. cd = g cd0)"
    if "distinct (map cd_id cds)" for g :: "candidate \<Rightarrow> candidate" and cds
    using that by (induction cds) (auto simp: image_iff)
  let ?c1 = "release_in_mem u v c"
  let ?g = "bench_candidate v (if returned then CopyReturned else CopyFailed) (dc_now ?c1)"
  have c: "dc_ready ?c1 = dc_ready c" by (simp add: release_in_mem_def purge_pending_def split: option.split)
  have g: "\<exists>e. cd_benched (?g cd) v = Some e \<and> dc_now ?c1 < be_until e \<and> dc_now ?c1 \<le> be_fallback_at e" for cd
    by (auto simp: bench_candidate_def close_bench_def bench_entry_for_def merge_bench_def Let_def
        returned_reoffer_cooldown_seconds_def bench_pool_exhausted_grace_seconds_def split: option.split)
  show ?thesis
    using upd [of "dc_ready c" ?g] assms g
    by (fastforce simp: benched_now_def on_copy_closed_def close_copy_in_mem_def Let_def c)
qed

lemma close_by_volunteer_released:
  assumes "close_copy_by_volunteer u v out res reason d = (r, d')"
  shows "\<not> live_copy_of u v d'"
proof (cases "find (\<lambda>c. cp_unit c = u \<and> cp_volunteer c = v \<and> cp_outcome c = None) (db_copies d)")
  case None
  then have "d' = d" using assms by (simp add: close_copy_by_volunteer_def)
  then show ?thesis using None by (auto simp: live_copy_of_def find_None_iff)
next
  case (Some c0)
  then have "d' = update_copies (\<lambda>c. cp_unit c = u \<and> cp_volunteer c = v \<and> cp_outcome c = None)
      (\<lambda>c. c\<lparr>cp_outcome := Some (honored_outcome out c), cp_outcome_at := Some (db_now d),
             cp_result := (case res of None \<Rightarrow> cp_result c | Some r \<Rightarrow> Some r), cp_reason := bounded_outcome_reason reason\<rparr>) d"
    using assms by (simp add: close_copy_by_volunteer_def)
  then have cs: "db_copies d' = update_where (\<lambda>c. cp_unit c = u \<and> cp_volunteer c = v \<and> cp_outcome c = None)
      (\<lambda>c. c\<lparr>cp_outcome := Some (honored_outcome out c), cp_outcome_at := Some (db_now d),
             cp_result := (case res of None \<Rightarrow> cp_result c | Some r \<Rightarrow> Some r), cp_reason := bounded_outcome_reason reason\<rparr>)
      (db_copies d)" by (simp add: update_copies_def)
  show ?thesis unfolding live_copy_of_def cs set_update_where bex_simps by (simp split: if_split)
qed

lemma charge_machine_copies: "live_copy_of u v (charge_machine sv m d) = live_copy_of u v d"
  by (simp add: charge_machine_def live_copy_of_def)


lemma not_held_after:
  "\<not> has_in_mem_reservation u v (release_in_mem u v c)" "\<not> has_in_mem_reservation u v (on_copy_closed u v b c)"
  "\<not> has_in_mem_reservation u v (invalidate_work_unit u c)" "\<not> has_in_mem_reservation u v (on_unit_done u c)"
proof -
  show r: "\<not> has_in_mem_reservation u v (release_in_mem u v c)" by (auto simp: has_in_mem_reservation_def holders_of_def)
  then show "\<not> has_in_mem_reservation u v (on_copy_closed u v b c)"
    by (simp add: has_in_mem_reservation_def on_copy_closed_def close_copy_in_mem_def Let_def)
  show "\<not> has_in_mem_reservation u v (invalidate_work_unit u c)"
    by (simp add: has_in_mem_reservation_def holders_of_def invalidate_holds)
  show "\<not> has_in_mem_reservation u v (on_unit_done u c)"
    by (simp add: has_in_mem_reservation_def holders_of_def on_unit_done_def)
qed

definition queues_empty :: "dcache \<Rightarrow> bool" where
  "queues_empty c \<longleftrightarrow> dc_pending c = [] \<and> dc_spot c = []"

lemma queues_stay_empty:
  assumes "queues_empty c"
  shows "queues_empty (release_in_mem u v c)" "queues_empty (on_copy_closed u v b c)"
    "queues_empty (invalidate_work_unit u c)" "queues_empty (on_unit_done u c)"
proof -
  show r: "queues_empty (release_in_mem u v c)" for v
    using assms release_queues [of u v c] by (auto simp: queues_empty_def)
  then show "queues_empty (on_copy_closed u v b c)" by (simp add: queues_empty_def on_copy_closed_def close_copy_in_mem_def Let_def)
  show "queues_empty (invalidate_work_unit u c)"
    using assms release_fold_queues [of u hc_account "holders_of u c" c]
    by (simp add: queues_empty_def invalidate_work_unit_def Let_def)
  show "queues_empty (on_unit_done u c)" using assms by (simp add: queues_empty_def on_unit_done_def)
qed

lemma abandonE:
  assumes "abandon_work_unit sv ce u v giveback reason (c, d) = Some (Inr r, (c', d'))"
  obtains (buffered) c1 d1 e where "flush_own_hold sv ce u v (c, d) = Some (True, c1, d1)"
      "close_copy_by_volunteer u v (if giveback then OutReturned else OutAbandoned) None reason d1 = (Inl e, d')"
      "r = BufferedReleased" "c' = release_in_mem u v c1"
    | (closed_copy) c1 d1 d2 d3 b out ev where "flush_own_hold sv ce u v (c, d) = Some (True, c1, d1)"
      "close_copy_by_volunteer u v (if giveback then OutReturned else OutAbandoned) None reason d1 = (Inr out, d2)"
      "d3 = d2 \<or> (\<exists>m. d3 = charge_machine sv m d2)"
      "\<exists>r0. evaluate (db_ops (sv_engine sv) (sv_sha_hex sv)) (en_trust_policy (sv_engine sv)) u d3 = (r0, ev, d')"
      "r \<noteq> BufferedReleased"
      "c' = (if r = UnitDeadLettered then on_unit_done u else id)
              ((if ev then invalidate_work_unit u else id) (on_copy_closed u v b c1))"
proof -
  have "u \<noteq> []" "v \<noteq> []" and sl: "ce_slot ce" using assms by (auto simp: abandon_work_unit_def split: if_splits sum.splits)
  then obtain c1 d1 where fl: "flush_own_hold sv ce u v (c, d) = Some (True, c1, d1)"
    using assms by (auto simp: abandon_work_unit_def Let_def split: sum.splits option.splits prod.splits bool.splits)
  obtain x d2 where cl: "close_copy_by_volunteer u v (if giveback then OutReturned else OutAbandoned) None reason d1 = (x, d2)"
    by (rule prod.exhaust)
  show thesis
  proof (cases x)
    case (Inl e)
    then have "r = BufferedReleased" "c' = release_in_mem u v c1" "d' = d2"
      using assms fl cl by (auto simp: abandon_work_unit_def Let_def split: if_splits sum.splits api_error.splits)
    then show thesis using buffered [OF fl] cl Inl by simp
  next
    case (Inr y)
    obtain out host where y: "y = (out, host)" by (rule prod.exhaust)
    let ?d3 = "if out = OutReturned then d2 else charge_machine sv (meter_id v host) d2"
    obtain r0 ev d4 where ev: "evaluate (db_ops (sv_engine sv) (sv_sha_hex sv)) (en_trust_policy (sv_engine sv)) u ?d3 = (r0, ev, d4)"
      using prod_cases3 by blast
    have R: "r = (if r0 = Inr ToDeadLettered then UnitDeadLettered else CopyRequeued)" "d' = d4"
      "c' = (if r0 = Inr ToDeadLettered then on_unit_done u else id)
              ((if ev then invalidate_work_unit u else id) (on_copy_closed u v (out = OutReturned) c1))"
      using assms fl cl Inr y ev by (auto simp: abandon_work_unit_def Let_def split: if_splits sum.splits)
    show thesis
      by (rule closed_copy [OF fl, of y d2 ?d3 ev "out = OutReturned"]) (use cl Inr ev R in auto)
  qed
qed

lemma abandonI:
  assumes "u \<noteq> []" "v \<noteq> []" "resolve_authed_volunteer ce v = Inr i" "ce_slot ce"
    "flush_own_hold sv ce u v (c, d) = Some (True, c1, d1)"
    "close_copy_by_volunteer u v (if giveback then OutReturned else OutAbandoned) None reason d1 = (Inr (out, host), d2)"
  shows "\<exists>r s'. abandon_work_unit sv ce u v giveback reason (c, d) = Some (Inr r, s') \<and> r \<noteq> BufferedReleased"
proof -
  obtain r0 ev d4 where "evaluate (db_ops (sv_engine sv) (sv_sha_hex sv)) (en_trust_policy (sv_engine sv)) u
      (if out = OutReturned then d2 else charge_machine sv (meter_id v host) d2) = (r0, ev, d4)"
    using prod_cases3 by blast
  then show ?thesis using assms by (auto simp: abandon_work_unit_def Let_def)
qed



section \<open>Requests\<close>

lemma plan_limit:
  assumes "hr_plan (fst (hand_out cf v q n draws c)) = FbDue key limit excluded"
  shows "limit \<le> max 1 n"
proof (cases rule: hand_out_cases [of cf v q n draws c])
  case (empty st)
  then show ?thesis using assms by (auto simp: plan_fallback_def Let_def split: if_splits option.splits)
qed (use assms in simp_all)

lemma batch_length:
  assumes "find_assignable_batch tp head lease q limit excluded d = (units, d1)" "units_distinct d"
  shows "length units \<le> nat limit"
proof (cases "limit \<le> 0")
  case True
  then show ?thesis using assms(1) by (simp add: find_assignable_batch_def)
next
  case False
  define picked where "picked = take (nat (batch_room q limit d)) (dispatch_order (filter (\<lambda>w. assignable_sql tp q d w \<and>
    wu_id w \<notin> set excluded \<and> (head = nil_id \<or> claimable_by head (db_now d) w)) (db_units d)))"
  have "batch_room q limit d \<le> limit" by (simp add: batch_room_def)
  then have p: "length picked \<le> nat limit" unfolding picked_def length_take by linarith
  show ?thesis
  proof (cases "head = nil_id")
    case True
    then have "units = picked" using assms(1) False by (auto simp: find_assignable_batch_def picked_def)
    then show ?thesis using p by simp
  next
    case head: False
    let ?d1 = "claim_units head lease (map wu_id picked) d"
    let ?rows = "filter (\<lambda>w. wu_id w \<in> set (map wu_id picked)) (db_units ?d1)"
    have u: "units = dispatch_order ?rows"
      using assms(1) False head by (auto simp: find_assignable_batch_def picked_def Let_def)
    have "length units = length ?rows" unfolding u by (metis mset_dispatch_order size_mset)
    also have "\<dots> = card (set (map wu_id ?rows))"
      using distinct_map_filter [of wu_id "db_units ?d1"] assms(2) by (metis claim_units_ids distinct_card length_map units_distinct_def)
    also have "\<dots> \<le> card (set (map wu_id picked))" by (intro card_mono) auto
    also have "\<dots> \<le> length picked" by (metis card_length length_map)
    finally show ?thesis using p by simp
  qed
qed

lemma ship_length: "length (fst (ship_units cf read v q rs c)) \<le> length rs"
proof (induction rs arbitrary: c)
  case (Cons r rs)
  then show ?case using Cons.IH [of "snd (ship_unit cf read v q r c)"]
    by (auto simp: case_prod_beta intro: le_SucI split: option.split)
qed simp

lemma mark_spot_checks_length: "length (fst (mark_spot_checks cf read draws n rs s)) = length rs"
  using mark_spot_checks_ids [of cf read draws n rs s] by (metis length_map prod.collapse)

lemma fallback_length:
  assumes "hand_out_from_db tp cf head lease ids read draws ok1 ok2 v host q key limit excluded (c, d) = (Some rs, s')"
    "units_distinct d"
  shows "length rs \<le> nat limit"
proof -
  obtain units d1 where B: "find_assignable_batch tp head lease q limit excluded d = (units, d1)" by (rule prod.exhaust)
  let ?recs = "map (fallback_record cf v q c) units"
  obtain landed d2 where L: "(if units = [] then ([], d1) else flush_reservations tp head lease ids ?recs d1) = (landed, d2)"
    by (rule prod.exhaust)
  let ?got = "filter (\<lambda>u. (wu_id u, v) \<in> set landed) units"
  let ?c1 = "land_fallback cf v host (requester_subject v q) key ?got c"
  have E: "hand_out_from_db tp cf head lease ids read draws ok1 ok2 v host q key limit excluded (c, d) =
      (if \<not> ok1 then (None, (c, d)) else if units \<noteq> [] \<and> \<not> ok2 then (None, (c, d1))
       else case mark_spot_checks cf read draws 0 (map (\<lambda>u. (u, hold_until cf u c)) ?got) (?c1, d2) of (rs, s') \<Rightarrow> (Some rs, s'))"
    by (simp only: hand_out_from_db_def prod.case B L Let_def)
  obtain xs s3 where M: "mark_spot_checks cf read draws 0 (map (\<lambda>u. (u, hold_until cf u c)) ?got) (?c1, d2) = (xs, s3)"
    by (rule prod.exhaust)
  have "rs = xs" using assms(1) unfolding E M prod.case by (simp split: if_splits)
  then have "rs = fst (mark_spot_checks cf read draws 0 (map (\<lambda>u. (u, hold_until cf u c)) ?got) (?c1, d2))" by (simp only: M fst_conv)
  then have "length rs = length ?got" by (simp only: mark_spot_checks_length length_map)
  then have "length rs \<le> length units" by simp
  then show ?thesis using batch_length [OF B assms(2)] by simp
qed

lemma poll_length:
  assumes "hand_out_with_reason tp cf head lease ids read draws draws_db ok1 ok2 v q n (c, d) = (reply, s')" "units_distinct d"
  shows "int (length (pr_units reply)) \<le> max 1 n"
proof -
  obtain r c1 where h: "hand_out cf v q n draws c = (r, c1)" by (rule prod.exhaust)
  have pool: "length (hr_results r) \<le> nat (max 1 n)"
    using hand_out_summary [where v = v and cf = cf and q = q and c = c and n = n and draws = draws] by (simp add: scan_summary_def h)
  obtain rs c2 where rs: "pr_units reply = fst (ship_units cf read v q rs c2)" "length rs \<le> nat (max 1 n)"
  proof (cases "hr_plan r")
    case (FbDue key limit excluded)
    let ?q = "q\<lparr>ao_max_inflight := hr_cap r\<rparr>" and ?m = "meter_id v (ao_host q)"
    have limit: "limit \<le> max 1 n" using plan_limit [of cf v q n draws c] h FbDue by simp
    obtain o1 s2 where D: "hand_out_from_db tp cf head lease ids read draws_db ok1 ok2 v ?m ?q key limit excluded (c1, d) = (o1, s2)"
      by (rule prod.exhaust)
    show thesis
    proof (cases o1)
      case None
      then show thesis using assms(1) that [of "[]" "fst s2"]
        by (auto simp: hand_out_with_reason_def h FbDue D Let_def split: prod.splits)
    next
      case (Some fb)
      have "length fb \<le> nat (max 1 n)" using fallback_length [OF D [unfolded Some] assms(2)] limit by linarith
      then show thesis using assms(1) Some that [of fb "fst s2"]
        by (auto simp: hand_out_with_reason_def h FbDue D Let_def split: prod.splits if_splits)
    qed
  qed (rule that [of "hr_results r" c1]; use assms(1) pool in \<open>auto simp: hand_out_with_reason_def h Let_def split: prod.splits\<close>)+
  have "length (pr_units reply) \<le> nat (max 1 n)" unfolding rs(1) using ship_length rs(2) by (rule order_trans)
  then show ?thesis by simp
qed

text \<open>Work is handed out only to the account whose key signed the request, metered on no machine that is known to be another
  account's, and never more units than asked for or than the head's batch limit; a refused request leaves
  the database as it was.\<close>

theorem request_is_bounded:
  assumes "request_work_unit sv ce read draws draws_db ok1 ok2 rq (c, d) = (r, (c', d'))" "units_distinct d" "1 \<le> sv_max_batch sv"
  shows "(\<forall>reply. r = Inr reply \<longrightarrow>
      (\<exists>i. ce_identity ce (rq_volunteer rq) = IdentityFound i \<and> ce_key ce = Some (id_key i)) \<and>
      (rq_host rq = [] \<or> ce_host_owner ce (rq_host rq) \<in> {HostOwnedBy (rq_volunteer rq), HostUndetermined}) \<and>
      int (length (pr_units reply)) \<le> min (max 1 (rq_max rq)) (sv_max_batch sv)) \<and>
    (\<forall>e. r = Inl e \<longrightarrow> d' = d)"
proof (cases r)
  case (Inl e)
  then show ?thesis using assms(1) by (auto simp: request_work_unit_def Let_def split: if_splits sum.splits prod.splits)
next
  case (Inr reply)
  let ?v = "rq_volunteer rq"
  obtain i where i: "resolve_authed_volunteer ce ?v = Inr i"
    using assms(1) Inr by (auto simp: request_work_unit_def Let_def split: if_splits sum.splits)
  obtain host where host: "resolve_host ce ?v (rq_host rq) = Inr host"
    using assms(1) Inr i by (auto simp: request_work_unit_def Let_def split: if_splits sum.splits)
  have idn: "ce_identity ce ?v = IdentityFound i" "ce_key ce = Some (id_key i)"
    using i by (auto simp: resolve_authed_volunteer_def split: option.splits identity_lookup.splits if_splits)
  have own: "rq_host rq = [] \<or> ce_host_owner ce (rq_host rq) \<in> {HostOwnedBy ?v, HostUndetermined}"
    using host by (auto simp: resolve_host_def split: if_splits host_lookup.splits)
  obtain q c1 where p: "hand_out_with_reason (en_trust_policy (sv_engine sv)) (sv_cache sv) (sv_head sv) (sv_lease sv)
      (ce_ids ce 0) read draws draws_db ok1 ok2 ?v q (clamp_assignments sv (rq_max rq)) (c1, d) = (reply, (c', d'))"
    using assms(1) Inr i host by (auto simp: request_work_unit_def Let_def split: if_splits prod.splits)
  have "max 1 (clamp_assignments sv (rq_max rq)) = min (max 1 (rq_max rq)) (sv_max_batch sv)"
    using assms(3) by (auto simp: clamp_assignments_def Let_def)
  then have "int (length (pr_units reply)) \<le> min (max 1 (rq_max rq)) (sv_max_batch sv)"
    using poll_length [OF p assms(2)] by simp
  then show ?thesis using Inr idn own by simp
qed


section \<open>Concrete calls\<close>

definition demo_service :: service where
  "demo_service = \<lparr>sv_engine = default_engine, sv_sha_hex = (\<lambda>s. s), sv_cache = demo_config, sv_head = nil_id, sv_lease = 120,
     sv_max_inflight = 3, sv_max_batch = 4\<rparr>"

definition demo_hardware :: hardware where
  "demo_hardware = \<lparr>hw_max_cpu_cores = 4, hw_max_memory_mb = 8192, hw_max_disk_mb = 20480, hw_gpus = [], hw_benchmark = 0,
     hw_os = ''linux'', hw_cpu_arch = ''amd64'', hw_cpu_vendor = '''', hw_host_max_memory_mb = 0, hw_host_max_cpu_cores = 0\<rparr>"

definition demo_call :: call_env where
  "demo_call = \<lparr>ce_key = Some ''k'',
     ce_identity = (\<lambda>v. IdentityFound \<lparr>id_key = ''k'', id_hardware = demo_hardware, id_runtimes = [], id_subject = ''''\<rparr>),
     ce_host_owner = (\<lambda>_. HostUnknown), ce_host_runtimes = (\<lambda>_. None), ce_slot = True, ce_saturated = False,
     ce_live = (\<lambda>_. True), ce_ok = (\<lambda>_. True), ce_ids = (\<lambda>_ _. ''i''), ce_fuel = 3\<rparr>"

definition demo_hold :: held_copy where
  "demo_hold = \<lparr>hc_unit = ''u'', hc_account = ''a'', hc_until = 21700, hc_host = ''a'', hc_subject = ''''\<rparr>"

text \<open>The pool with one staged unit, held by \<open>a\<close>; its copy has landed or has not.\<close>

definition demo_held :: dcache where
  "demo_held = (fresh_cache 100)\<lparr>dc_ready := [(demo_candidate ''u'')\<lparr>cd_unit := queued_unit ''u'' ''l''\<rparr>], dc_holds := [demo_hold]\<rparr>"

definition demo_landed :: db where
  "demo_landed = sample_db [queued_unit ''u'' ''l''] [reserved_copy ''c1'' ''u'' ''a''] []"

lemma demo_authed: "resolve_authed_volunteer demo_call v =
    Inr \<lparr>id_key = ''k'', id_hardware = demo_hardware, id_runtimes = [], id_subject = ''''\<rparr>" "ce_slot demo_call"
  by (simp_all add: resolve_authed_volunteer_def demo_call_def)

lemma demo_flush:
  "dc_pending c = [] \<Longrightarrow> dc_spot c = [] \<Longrightarrow> flush_own_hold demo_service demo_call u v (c, d) = Some (True, c, d)"
  by (simp add: flush_own_hold_def demo_call_def numeral_3_eq_3)

lemmas demo_call_defs = demo_held_def demo_hold_def demo_landed_def fresh_cache_def sample_db_def queued_unit_def reserved_copy_def
  demo_candidate_def


lemma demo_started:
  "start_work demo_service demo_call ''u'' ''a'' (demo_held, demo_landed) =
     Some (Inr Started, (on_run_start ''u'' ''a'' demo_held, run_start_db ''u'' ''a'' demo_landed))"
proof -
  have f: "flush_own_hold demo_service demo_call ''u'' ''a'' (demo_held, demo_landed) = Some (True, demo_held, demo_landed)"
    by (rule demo_flush) (simp_all add: demo_call_defs)
  have u: "unit_states demo_landed ''u'' = Some Queued" "live_copy_of ''u'' ''a'' demo_landed"
    by (simp_all add: unit_states_def find_unit_def live_copy_of_def demo_call_defs)
  then obtain w where w: "find_unit ''u'' demo_landed = Some w" "wu_state w = Queued" by (auto simp: unit_states_def)
  obtain x where "assign ''u'' ''a'' demo_landed = (Inr x, run_start_db ''u'' ''a'' demo_landed)"
    using assign_found [OF u(1), of "''a''"] u(2) by auto
  then show ?thesis by (simp add: start_work_def demo_authed w f)
qed

theorem run_start_is_idempotent_witness:
  "\<exists>c' d'. start_work demo_service demo_call ''u'' ''a'' (demo_held, demo_landed) = Some (Inr Started, (c', d')) \<and>
     unit_states d' ''u'' = Some Queued \<and> live_copy_of ''u'' ''a'' d' \<and>
     (\<exists>c2 d2. start_work demo_service demo_call ''u'' ''a'' (c', d'\<lparr>db_now := 200\<rparr>) = Some (Inr Started, (c2, d2)) \<and>
        db_copies d2 = db_copies d')"
  using run_start_is_idempotent [OF demo_started] demo_started demo_authed by blast

text \<open>
  The retry is not idempotent in the cache: every call counts the copy once more, so the retried start of one
  copy of a unit that wants two takes the unit out of the pool.
\<close>

theorem retried_run_start_unstages_the_unit:
  "let c1 = on_run_start ''u'' ''a'' demo_held; d1 = run_start_db ''u'' ''a'' demo_landed in
   start_work demo_service demo_call ''u'' ''a'' (demo_held, demo_landed) = Some (Inr Started, (c1, d1)) \<and>
   start_work demo_service demo_call ''u'' ''a'' (c1, d1) =
     Some (Inr Started, (on_run_start ''u'' ''a'' c1, run_start_db ''u'' ''a'' d1)) \<and>
   count_live_copies ''u'' (run_start_db ''u'' ''a'' d1) = 1 \<and>
   map cd_redundancy (dc_ready c1) = [2] \<and> dc_ready (on_run_start ''u'' ''a'' c1) = []"
proof -
  let ?c1 = "on_run_start ''u'' ''a'' demo_held" and ?d1 = "run_start_db ''u'' ''a'' demo_landed"
  have "unit_states ?d1 ''u'' = Some Queued" "live_copy_of ''u'' ''a'' ?d1"
    by (simp_all add: run_start_states run_start_live) (simp_all add: unit_states_def find_unit_def live_copy_of_def demo_call_defs)
  then have "start_work demo_service demo_call ''u'' ''a'' (?c1, ?d1) =
      Some (Inr Started, (on_run_start ''u'' ''a'' ?c1, run_start_db ''u'' ''a'' ?d1))"
    by (intro start_workI [OF demo_authed]) (simp_all add: on_run_start_held)
  moreover have "count_live_copies ''u'' (run_start_db ''u'' ''a'' ?d1) = 1"
    by (simp add: count_live_copies_def cp_live_def run_start_copies demo_call_defs)
  moreover have "map cd_redundancy (dc_ready ?c1) = [2]" "dc_ready (on_run_start ''u'' ''a'' ?c1) = []"
    by (simp_all add: on_run_start_def Let_def run_started_candidate_def holders_of_def demo_call_defs)
  ultimately show ?thesis using demo_started by (simp add: Let_def)
qed


theorem request_is_bounded_witness:
  "\<exists>reply c' d'. request_work_unit demo_service demo_call (\<lambda>_. None) (\<lambda>_. None) (\<lambda>_. None) True True
       \<lparr>rq_volunteer = ''a'', rq_key_length = 32, rq_host = [], rq_available = None, rq_leafs = [], rq_blocked = [], rq_max = 9,
        rq_held = []\<rparr> (demo_pool, demo_landed) = (Inr reply, (c', d')) \<and> int (length (pr_units reply)) \<le> 4"
proof -
  let ?rq = "\<lparr>rq_volunteer = ''a'', rq_key_length = 32, rq_host = [], rq_available = None, rq_leafs = [], rq_blocked = [],
    rq_max = 9, rq_held = []\<rparr>"
  have "\<exists>reply c' d'. request_work_unit demo_service demo_call (\<lambda>_. None) (\<lambda>_. None) (\<lambda>_. None) True True ?rq
      (demo_pool, demo_landed) = (Inr reply, (c', d'))"
    by (simp add: request_work_unit_def demo_authed resolve_host_def Let_def case_prod_beta) (simp add: demo_call_def)
  then obtain reply c' d' where R: "request_work_unit demo_service demo_call (\<lambda>_. None) (\<lambda>_. None) (\<lambda>_. None) True True ?rq
      (demo_pool, demo_landed) = (Inr reply, (c', d'))" by blast
  have u: "units_distinct demo_landed" "1 \<le> sv_max_batch demo_service" "sv_max_batch demo_service = 4"
    by (simp_all add: units_distinct_def demo_landed_def sample_db_def demo_service_def)
  then show ?thesis using request_is_bounded [OF R u(1,2)] R by auto
qed

end
