(* ===== verification/Checkpoints.thy ===== *)
theory Checkpoints
  imports Service
begin

text \<open>
  The checkpoints of running copies (\<open>internal/checkpoint/pgx-repo.go\<close> and the calls \<open>SaveCheckpoint\<close> and
  \<open>GetCheckpoint\<close> of \<open>server/volunteer-service.go\<close>): records in the database, data in files. A save writes the file, then
  commits the record, then removes the files of the records it replaced. The parts of a storage key stand for the path they
  are rendered to. Whether the disk and the database work is an argument, and so is what other calls do between
  the sequence check of a save and the save itself.
\<close>

section \<open>The store\<close>

type_synonym storage_key = "uid \<times> uid \<times> uid \<times> int"

record checkpoint_row =
  ck_leaf :: uid
  ck_unit :: uid
  ck_volunteer :: uid
  ck_sequence :: int
  ck_key :: storage_key
  ck_size :: int
  ck_checksum :: string
  ck_created_at :: time

record checkpoint_store =
  cs_rows :: "checkpoint_row list"
  cs_files :: "storage_key \<rightharpoonup> string"
  cs_tracking :: "uid \<rightharpoonup> time \<times> int"

record disk =
  dk_sha :: "string \<Rightarrow> string"
  dk_write_ok :: bool
  dk_db_ok :: bool
  dk_now :: time

definition remove_files :: "storage_key list \<Rightarrow> checkpoint_store \<Rightarrow> checkpoint_store" where
  "remove_files ks s = s\<lparr>cs_files := (\<lambda>k. if k \<in> set ks then None else cs_files s k)\<rparr>"

definition of_volunteer :: "uid \<Rightarrow> uid \<Rightarrow> checkpoint_row \<Rightarrow> bool" where
  "of_volunteer u v r \<longleftrightarrow> ck_unit r = u \<and> ck_volunteer r = v"

definition storage_key_of :: "checkpoint_row \<Rightarrow> storage_key" where
  "storage_key_of r = (ck_leaf r, ck_unit r, ck_volunteer r, ck_sequence r)"

definition track_checkpoint :: "checkpoint_row \<Rightarrow> time \<Rightarrow> (uid \<rightharpoonup> time \<times> int) \<Rightarrow> (uid \<rightharpoonup> time \<times> int)" where
  "track_checkpoint r now tr =
     tr(ck_unit r \<mapsto> (now, case tr (ck_unit r) of None \<Rightarrow> ck_sequence r | Some (_, n) \<Rightarrow> max n (ck_sequence r)))"

text \<open>The transaction of a save; a failure leaves the records alone. It answers the keys it replaced.\<close>

definition save_record :: "disk \<Rightarrow> checkpoint_row \<Rightarrow> checkpoint_store \<Rightarrow> storage_key list res \<times> checkpoint_store" where
  "save_record dk r s =
     (let old = map ck_key (filter (of_volunteer (ck_unit r) (ck_volunteer r)) (cs_rows s));
          kept = filter (\<lambda>x. \<not> of_volunteer (ck_unit r) (ck_volunteer r) x) (cs_rows s)
      in if \<not> dk_db_ok dk \<or> ck_size r \<le> 0 \<or> ck_key r \<in> ck_key ` set kept then (Inl (Internal ''checkpoint record''), s)
         else (Inr old, s\<lparr>cs_rows := kept @ [r\<lparr>ck_created_at := dk_now dk\<rparr>],
                           cs_tracking := track_checkpoint r (dk_now dk) (cs_tracking s)\<rparr>))"

definition save_checkpoint :: "disk \<Rightarrow> checkpoint_row \<Rightarrow> string \<Rightarrow> checkpoint_store \<Rightarrow> unit res \<times> checkpoint_store" where
  "save_checkpoint dk r0 data s =
     (if dk_sha dk data \<noteq> ck_checksum r0 then (Inl (ValidationError ''checkpoint checksum mismatch''), s)
      else if \<not> dk_write_ok dk then (Inl (Internal ''checkpoint file''), s)
      else let r = r0\<lparr>ck_key := storage_key_of r0\<rparr>;
               s1 = s\<lparr>cs_files := (cs_files s)(ck_key r \<mapsto> data)\<rparr>
           in (case save_record dk r s1 of
                 (Inl e, s2) \<Rightarrow> (Inl e, remove_files [ck_key r] s2)
               | (Inr old, s2) \<Rightarrow> (Inr (), remove_files old s2)))"

definition latest_sequence :: "uid \<Rightarrow> uid \<Rightarrow> checkpoint_store \<Rightarrow> int" where
  "latest_sequence u v s = (case map ck_sequence (filter (of_volunteer u v) (cs_rows s)) of [] \<Rightarrow> 0 | x # xs \<Rightarrow> fold max xs x)"

text \<open>The first record of the highest sequence, with its file.\<close>

definition highest :: "checkpoint_row list \<Rightarrow> checkpoint_row option" where
  "highest rs = (case sort_key (\<lambda>r. - ck_sequence r) rs of [] \<Rightarrow> None | r # _ \<Rightarrow> Some r)"

definition read_checkpoint :: "checkpoint_row option \<Rightarrow> checkpoint_store \<Rightarrow> (checkpoint_row \<times> string) option res" where
  "read_checkpoint found s =
     (case found of None \<Rightarrow> Inr None
      | Some r \<Rightarrow> (case cs_files s (ck_key r) of None \<Rightarrow> Inl (Internal ''checkpoint file'') | Some data \<Rightarrow> Inr (Some (r, data))))"

definition get_latest :: "uid \<Rightarrow> checkpoint_store \<Rightarrow> (checkpoint_row \<times> string) option res" where
  "get_latest u s = read_checkpoint (highest (filter (\<lambda>r. ck_unit r = u) (cs_rows s))) s"

definition get_latest_for_volunteer :: "uid \<Rightarrow> uid \<Rightarrow> checkpoint_store \<Rightarrow> (checkpoint_row \<times> string) option res" where
  "get_latest_for_volunteer u v s = read_checkpoint (highest (filter (of_volunteer u v) (cs_rows s))) s"

definition delete_checkpoints :: "uid \<Rightarrow> checkpoint_store \<Rightarrow> checkpoint_store" where
  "delete_checkpoints u s =
     (let keys = map ck_key (filter (\<lambda>r. ck_unit r = u) (cs_rows s)) in
      if keys = [] then s
      else remove_files keys (s\<lparr>cs_rows := filter (\<lambda>r. ck_unit r \<noteq> u) (cs_rows s)\<rparr>))"

section \<open>The calls\<close>

definition default_max_checkpoint_bytes :: int where "default_max_checkpoint_bytes = 104857600"

record save_request =
  sq_unit :: uid
  sq_volunteer :: uid
  sq_sequence :: int
  sq_data :: string

definition new_checkpoint :: "disk \<Rightarrow> work_unit \<Rightarrow> save_request \<Rightarrow> checkpoint_row" where
  "new_checkpoint dk w rq =
     \<lparr>ck_leaf = wu_leaf w, ck_unit = sq_unit rq, ck_volunteer = sq_volunteer rq, ck_sequence = sq_sequence rq,
      ck_key = ([], [], [], 0), ck_size = int (length (sq_data rq)), ck_checksum = dk_sha dk (sq_data rq), ck_created_at = 0\<rparr>"

text \<open>What is checked before a checkpoint is saved; the unit comes from here.\<close>

definition check_save :: "call_env \<Rightarrow> db \<Rightarrow> save_request \<Rightarrow> checkpoint_store \<Rightarrow> rpc_code + work_unit" where
  "check_save ce d rq s =
     (let u = sq_unit rq; v = sq_volunteer rq in
      case resolve_authed_volunteer ce v of Inl e \<Rightarrow> Inl e
      | Inr _ \<Rightarrow> (case find_unit u d of None \<Rightarrow> Inl RpcNotFound
      | Some w \<Rightarrow>
        if find_active u v d = None then Inl PermissionDenied
        else (case db_leafs d (wu_leaf w) of None \<Rightarrow> Inl RpcInternal
        | Some lf \<Rightarrow>
          let ft = leaf_fault_tolerance_config lf;
              limit = (if ft_max_checkpoint_size_bytes ft = 0 then default_max_checkpoint_bytes else ft_max_checkpoint_size_bytes ft)
          in if \<not> ft_checkpointing_enabled ft then Inl FailedPrecondition
             else if sq_sequence rq \<le> latest_sequence u v s then Inl AlreadyExists
             else if int (length (sq_data rq)) > limit then Inl ResourceExhausted
             else Inr w)))"

definition handle_save :: "call_env \<Rightarrow> disk \<Rightarrow> db \<Rightarrow> (checkpoint_store \<Rightarrow> checkpoint_store) \<Rightarrow> save_request
    \<Rightarrow> checkpoint_store \<Rightarrow> (rpc_code + unit) \<times> checkpoint_store" where
  "handle_save ce dk d meanwhile rq s =
     (case check_save ce d rq s of Inl e \<Rightarrow> (Inl e, s)
      | Inr w \<Rightarrow> (case save_checkpoint dk (new_checkpoint dk w rq) (sq_data rq) (meanwhile s) of
            (Inl _, s') \<Rightarrow> (Inl RpcInternal, s')
          | (Inr _, s') \<Rightarrow> (Inr (), s')))"

record checkpoint_reply =
  cy_data :: string
  cy_sequence :: int
  cy_creator :: uid

definition unit_is_corroborated :: "db \<Rightarrow> uid \<Rightarrow> bool" where
  "unit_is_corroborated d u =
     (case find_unit u d of None \<Rightarrow> True
      | Some w \<Rightarrow> (case db_leafs d (wu_leaf w) of None \<Rightarrow> True
          | Some lf \<Rightarrow> rp_target_copies (resolve_policy lf w) > 1))"

definition checkpoint_reply_of :: "(checkpoint_row \<times> string) option res \<Rightarrow> rpc_code + checkpoint_reply option" where
  "checkpoint_reply_of r =
     (case r of Inl _ \<Rightarrow> Inl RpcInternal
      | Inr None \<Rightarrow> Inr None
      | Inr (Some (r, data)) \<Rightarrow> Inr (Some \<lparr>cy_data = data, cy_sequence = ck_sequence r, cy_creator = ck_volunteer r\<rparr>))"

text \<open>The caller is the account of the key its signature proves, which \<open>account_of\<close> looks up.\<close>

definition handle_get :: "(string \<Rightarrow> uid option) \<Rightarrow> string option \<Rightarrow> db \<Rightarrow> uid \<Rightarrow> checkpoint_store
    \<Rightarrow> rpc_code + checkpoint_reply option" where
  "handle_get account_of key d u s =
     (case key of None \<Rightarrow> Inl Unauthenticated
      | Some k \<Rightarrow> (case account_of k of None \<Rightarrow> Inl PermissionDenied
      | Some v \<Rightarrow>
        if \<not> (\<exists>c\<in>set (db_copies d). cp_unit c = u \<and> cp_volunteer c = v) then Inl PermissionDenied
        else (case get_latest_for_volunteer u v s of
            Inr None \<Rightarrow> if unit_is_corroborated d u then Inr None else checkpoint_reply_of (get_latest u s)
          | r \<Rightarrow> checkpoint_reply_of r)))"

section \<open>Records and their files\<close>

definition store_sound :: "(string \<Rightarrow> string) \<Rightarrow> checkpoint_store \<Rightarrow> bool" where
  "store_sound sha s \<longleftrightarrow>
     (\<forall>r\<in>set (cs_rows s). ck_key r = storage_key_of r \<and> (\<exists>data. cs_files s (ck_key r) = Some data \<and> sha data = ck_checksum r))
     \<and> distinct (map (\<lambda>r. (ck_unit r, ck_volunteer r)) (cs_rows s))"

lemma sound_row:
  "store_sound sha s \<Longrightarrow> r \<in> set (cs_rows s) \<Longrightarrow> ck_key r = storage_key_of r"
  "store_sound sha s \<Longrightarrow> r \<in> set (cs_rows s) \<Longrightarrow> \<exists>data. cs_files s (ck_key r) = Some data \<and> sha data = ck_checksum r"
  unfolding store_sound_def by blast+

lemma fold_max_upper: "x \<le> fold max xs (x :: int) \<and> (\<forall>y\<in>set xs. y \<le> fold max xs x)"
proof (induction xs arbitrary: x)
  case (Cons a xs)
  show ?case using Cons [of "max a x"] by auto
qed simp

lemma latest_sequence_upper:
  assumes "r \<in> set (cs_rows s)" "of_volunteer u v r"
  shows "ck_sequence r \<le> latest_sequence u v s"
proof -
  have "r \<in> set (filter (of_volunteer u v) (cs_rows s))" using assms by simp
  then obtain x xs where f: "filter (of_volunteer u v) (cs_rows s) = x # xs" by (cases "filter (of_volunteer u v) (cs_rows s)") auto
  have "r \<in> set (x # xs)" using assms unfolding f [symmetric] by simp
  then show ?thesis using fold_max_upper [of "ck_sequence x" "map ck_sequence xs"] by (auto simp: latest_sequence_def f)
qed

lemma filter_unit_volunteer:
  assumes "distinct (map (\<lambda>r. (ck_unit r, ck_volunteer r)) rs)" "r \<in> set rs" "of_volunteer u v r"
  shows "filter (of_volunteer u v) rs = [r]"
  using assms
proof (induction rs)
  case (Cons a rs)
  have none: "filter (of_volunteer u v) rs = []" if "of_volunteer u v a"
    using Cons.prems(1) that by (force simp: filter_empty_conv of_volunteer_def image_iff)
  show ?case
  proof (cases "a = r")
    case True
    then show ?thesis using none Cons.prems(3) by simp
  next
    case False
    then have r: "r \<in> set rs" using Cons.prems(2) by simp
    then have "\<not> of_volunteer u v a" using none Cons.prems(3) by (auto simp: filter_empty_conv)
    then show ?thesis using Cons.IH Cons.prems r by simp
  qed
qed simp

lemma highest_single [simp]: "highest [r] = Some r" "highest [] = None"
  by (simp_all add: highest_def)

lemma highest_some: "highest rs = Some r \<Longrightarrow> r \<in> set rs"
proof -
  assume a: "highest rs = Some r"
  then obtain t where t: "sort_key (\<lambda>r. - ck_sequence r) rs = r # t" by (auto simp: highest_def split: list.splits)
  have "set (r # t) = set rs" by (simp only: t [symmetric] set_sort)
  then show ?thesis by auto
qed

lemma own_checkpoint:
  assumes "store_sound sha s" "r \<in> set (cs_rows s)" "cs_files s (ck_key r) = Some data"
  shows "get_latest_for_volunteer (ck_unit r) (ck_volunteer r) s = Inr (Some (r, data))"
proof -
  have "filter (of_volunteer (ck_unit r) (ck_volunteer r)) (cs_rows s) = [r]"
    by (rule filter_unit_volunteer) (use assms in \<open>simp_all add: store_sound_def of_volunteer_def\<close>)
  then show ?thesis using assms(3) by (simp add: get_latest_for_volunteer_def read_checkpoint_def)
qed

text \<open>A save that commits: its record replaces the volunteer's, and no other record's file is touched.\<close>

lemma save_effect:
  assumes "save_checkpoint dk r0 data s = (Inr (), s')"
  shows "cs_rows s' = filter (\<lambda>x. \<not> of_volunteer (ck_unit r0) (ck_volunteer r0) x) (cs_rows s)
           @ [r0\<lparr>ck_key := storage_key_of r0, ck_created_at := dk_now dk\<rparr>]"
    and "cs_files s' = (\<lambda>k. if k \<in> ck_key ` {x \<in> set (cs_rows s). of_volunteer (ck_unit r0) (ck_volunteer r0) x} then None
           else ((cs_files s)(storage_key_of r0 \<mapsto> data)) k)"
    and "dk_sha dk data = ck_checksum r0"
    and "storage_key_of r0 \<notin> ck_key ` {x \<in> set (cs_rows s). \<not> of_volunteer (ck_unit r0) (ck_volunteer r0) x}"
  using assms
  by (auto simp: save_checkpoint_def save_record_def remove_files_def Let_def image_iff split: if_splits intro!: ext)

lemma save_fails:
  assumes "save_checkpoint dk r0 data s = (Inl e, s')"
  shows "cs_rows s' = cs_rows s" "cs_files s' k = cs_files s k \<or> k = storage_key_of r0 \<and> cs_files s' k = None"
  using assms by (auto simp: save_checkpoint_def save_record_def remove_files_def Let_def split: if_splits)

definition fresh_sequence :: "checkpoint_row \<Rightarrow> checkpoint_store \<Rightarrow> bool" where
  "fresh_sequence r s \<longleftrightarrow> latest_sequence (ck_unit r) (ck_volunteer r) s < ck_sequence r"

lemma not_in_keys: "(\<And>y. y \<in> set rs \<Longrightarrow> P y \<Longrightarrow> ck_key y \<noteq> k) \<Longrightarrow> k \<notin> ck_key ` {y \<in> set rs. P y}"
  by blast

lemma fresh_key:
  assumes "fresh_sequence r0 s" "store_sound sha s" "x \<in> set (cs_rows s)"
  shows "ck_key x \<noteq> storage_key_of r0"
proof
  assume "ck_key x = storage_key_of r0"
  then have "of_volunteer (ck_unit r0) (ck_volunteer r0) x" "ck_sequence x = ck_sequence r0"
    using assms(2,3) by (auto simp: store_sound_def storage_key_of_def of_volunteer_def)
  then show False using latest_sequence_upper [OF assms(3)] assms(1) by (fastforce simp: fresh_sequence_def)
qed

lemma keys_apart:
  assumes "store_sound sha s" "x \<in> set (cs_rows s)" "y \<in> set (cs_rows s)" "ck_key x = ck_key y" "of_volunteer u v x"
  shows "of_volunteer u v y"
  using assms by (auto simp: store_sound_def storage_key_of_def of_volunteer_def)

lemma save_keeps_sound:
  assumes "save_checkpoint dk r0 data s = (x, s')" "store_sound (dk_sha dk) s" "fresh_sequence r0 s"
  shows "store_sound (dk_sha dk) s'"
proof (cases x)
  case (Inl e)
  have "cs_files s' (ck_key r) = cs_files s (ck_key r)" if "r \<in> set (cs_rows s)" for r
    using save_fails(2) assms(1) fresh_key [OF assms(3,2) that] unfolding Inl by blast
  then show ?thesis using assms(2) save_fails(1) assms(1) unfolding Inl by (fastforce simp: store_sound_def)
next
  case (Inr u)
  let ?own = "of_volunteer (ck_unit r0) (ck_volunteer r0)"
  let ?new = "r0\<lparr>ck_key := storage_key_of r0, ck_created_at := dk_now dk\<rparr>"
  have "save_checkpoint dk r0 data s = (Inr (), s')" using assms(1) Inr by simp
  note E = save_effect [OF this]
  have fresh: "ck_key y \<noteq> storage_key_of r0" if "y \<in> set (cs_rows s)" for y by (rule fresh_key [OF assms(3,2) that])
  have other: "cs_files s' (ck_key y) = cs_files s (ck_key y)" if "y \<in> set (cs_rows s)" "\<not> ?own y" for y
  proof -
    have "ck_key y \<notin> ck_key ` {x \<in> set (cs_rows s). ?own x}"
      by (rule not_in_keys) (use keys_apart [OF assms(2) _ that(1)] that(2) in blast)
    then show ?thesis using fresh [OF that(1)] by (simp add: E(2))
  qed
  have "storage_key_of r0 \<notin> ck_key ` {x \<in> set (cs_rows s). ?own x}" by (rule not_in_keys) (rule fresh)
  then have new: "cs_files s' (ck_key ?new) = Some data" by (simp add: E(2))
  have "distinct (map (\<lambda>r. (ck_unit r, ck_volunteer r)) (cs_rows s'))"
    using assms(2) by (auto simp: E(1) store_sound_def distinct_map_filter of_volunteer_def)
  moreover have "ck_key r = storage_key_of r \<and> (\<exists>data. cs_files s' (ck_key r) = Some data \<and> dk_sha dk data = ck_checksum r)"
    if "r \<in> set (cs_rows s')" for r
  proof (cases "r = ?new")
    case True
    then show ?thesis using new E(3) by (simp add: storage_key_of_def)
  next
    case False
    then have r: "r \<in> set (cs_rows s)" "\<not> ?own r" using that by (auto simp: E(1))
    show ?thesis unfolding other [OF r] using sound_row [OF assms(2) r(1)] by blast
  qed
  ultimately show ?thesis unfolding store_sound_def by blast
qed

section \<open>What a volunteer reads back\<close>

lemma delete_keeps_sound:
  assumes "store_sound sha s"
  shows "store_sound sha (delete_checkpoints u s)"
proof -
  let ?gone = "ck_key ` {x \<in> set (cs_rows s). ck_unit x = u}"
  have "ck_key y \<notin> ?gone" if y: "y \<in> set (cs_rows s)" "ck_unit y \<noteq> u" for y
  proof
    assume "ck_key y \<in> ?gone"
    then obtain x where "x \<in> set (cs_rows s)" "ck_unit x = u" "ck_key y = ck_key x" by auto
    then show False using assms y by (auto simp: store_sound_def storage_key_of_def)
  qed
  moreover have "distinct (map (\<lambda>r. (ck_unit r, ck_volunteer r)) (filter (\<lambda>r. ck_unit r \<noteq> u) (cs_rows s)))"
    using assms by (simp add: store_sound_def distinct_map_filter)
  ultimately have "store_sound sha (remove_files (map ck_key (filter (\<lambda>r. ck_unit r = u) (cs_rows s)))
      (s\<lparr>cs_rows := filter (\<lambda>r. ck_unit r \<noteq> u) (cs_rows s)\<rparr>))"
    unfolding store_sound_def using sound_row [OF assms] by (simp add: remove_files_def)
  then show ?thesis using assms by (simp add: delete_checkpoints_def Let_def)
qed

lemma check_save_ok:
  assumes "check_save ce d rq s = Inr w"
  shows "find_active (sq_unit rq) (sq_volunteer rq) d \<noteq> None" "latest_sequence (sq_unit rq) (sq_volunteer rq) s < sq_sequence rq"
  using assms by (auto simp: check_save_def Let_def split: sum.splits option.splits if_splits)

lemma new_checkpoint_fresh:
  "check_save ce d rq s = Inr w \<Longrightarrow> fresh_sequence (new_checkpoint dk w rq) s"
  using check_save_ok(2) by (simp add: fresh_sequence_def new_checkpoint_def)

lemma handle_save_cases:
  assumes "handle_save ce dk d meanwhile rq s = (x, s')"
  obtains (refused) e where "check_save ce d rq s = Inl e" "x = Inl e" "s' = s"
    | (failed) w e where "check_save ce d rq s = Inr w" "x = Inl RpcInternal"
        "save_checkpoint dk (new_checkpoint dk w rq) (sq_data rq) (meanwhile s) = (Inl e, s')"
    | (saved) w where "check_save ce d rq s = Inr w" "x = Inr ()"
        "save_checkpoint dk (new_checkpoint dk w rq) (sq_data rq) (meanwhile s) = (Inr (), s')"
  using assms by (auto simp: handle_save_def split: sum.splits prod.splits)

lemma handle_save_keeps_sound:
  assumes "handle_save ce dk d id rq s = (x, s')" "store_sound (dk_sha dk) s"
  shows "store_sound (dk_sha dk) s'"
  using assms(1)
proof (cases rule: handle_save_cases)
  case (failed w e)
  then show ?thesis using save_keeps_sound assms(2) new_checkpoint_fresh by (metis id_apply)
next
  case (saved w)
  then show ?thesis using save_keeps_sound assms(2) new_checkpoint_fresh by (metis id_apply)
qed (use assms in simp)

lemma handle_get_own:
  assumes "account_of k = Some v" "find_active u v d \<noteq> None \<or> (\<exists>c\<in>set (db_copies d). cp_unit c = u \<and> cp_volunteer c = v)"
    "get_latest_for_volunteer u v s = r" "r \<noteq> Inr None"
  shows "handle_get account_of (Some k) d u s = checkpoint_reply_of r"
proof -
  have "\<exists>c\<in>set (db_copies d). cp_unit c = u \<and> cp_volunteer c = v"
    using assms(2) by (auto simp: find_active_def find_Some_iff)
  then show ?thesis using assms(1,3,4) by (auto simp: handle_get_def split: sum.splits option.splits)
qed

lemma saved_checkpoint_core:
  assumes "handle_save ce dk d id rq s = (Inr (), s')" "store_sound (dk_sha dk) s" "account_of k = Some (sq_volunteer rq)"
  shows "handle_get account_of (Some k) d (sq_unit rq) s' =
      Inr (Some \<lparr>cy_data = sq_data rq, cy_sequence = sq_sequence rq, cy_creator = sq_volunteer rq\<rparr>)
    \<and> (\<forall>u v. (u, v) \<noteq> (sq_unit rq, sq_volunteer rq) \<longrightarrow> get_latest_for_volunteer u v s' = get_latest_for_volunteer u v s)"
proof -
  obtain w where c: "check_save ce d rq s = Inr w" and
    sv: "save_checkpoint dk (new_checkpoint dk w rq) (sq_data rq) s = (Inr (), s')"
    using assms(1) by (cases rule: handle_save_cases) (simp_all only: id_apply sum.distinct)
  define r0 where "r0 = new_checkpoint dk w rq"
  have sv0: "save_checkpoint dk r0 (sq_data rq) s = (Inr (), s')" using sv by (simp add: r0_def)
  note E = save_effect [OF sv0]
  have r0: "ck_unit r0 = sq_unit rq" "ck_volunteer r0 = sq_volunteer rq" "ck_sequence r0 = sq_sequence rq" by (simp_all add: r0_def new_checkpoint_def)
  have fr: "fresh_sequence r0 s" unfolding r0_def by (rule new_checkpoint_fresh [OF c])
  have sound: "store_sound (dk_sha dk) s'" by (rule save_keeps_sound [OF sv0 assms(2) fr])
  let ?new = "r0\<lparr>ck_key := storage_key_of r0, ck_created_at := dk_now dk\<rparr>"
  have fresh: "ck_key y \<noteq> storage_key_of r0" if "y \<in> set (cs_rows s)" for y by (rule fresh_key [OF fr assms(2) that])
  have "storage_key_of r0 \<notin> ck_key ` {x \<in> set (cs_rows s). of_volunteer (ck_unit r0) (ck_volunteer r0) x}" by (rule not_in_keys) (rule fresh)
  then have "cs_files s' (ck_key ?new) = Some (sq_data rq)" by (simp add: E(2))
  from own_checkpoint [OF sound _ this] have own: "get_latest_for_volunteer (sq_unit rq) (sq_volunteer rq) s' = Inr (Some (?new, sq_data rq))"
    by (simp add: E(1) r0)
  have "handle_get account_of (Some k) d (sq_unit rq) s' = checkpoint_reply_of (Inr (Some (?new, sq_data rq)))"
    by (rule handle_get_own [where account_of = account_of and k = k, OF assms(3)]) (use check_save_ok(1) [OF c] own in simp_all)
  moreover have "get_latest_for_volunteer u v s' = get_latest_for_volunteer u v s" if uv: "(u, v) \<noteq> (sq_unit rq, sq_volunteer rq)" for u v
  proof -
    have f: "filter (of_volunteer u v) (cs_rows s') = filter (of_volunteer u v) (cs_rows s)"
      using uv by (auto simp: E(1) r0 of_volunteer_def intro!: filter_cong)
    have "cs_files s' (ck_key x) = cs_files s (ck_key x)" if x: "x \<in> set (cs_rows s)" "of_volunteer u v x" for x
    proof -
      have "\<not> of_volunteer u v z" if "of_volunteer (ck_unit r0) (ck_volunteer r0) z" for z
        using uv that r0 by (auto simp: of_volunteer_def)
      then have "ck_key x \<notin> ck_key ` {z \<in> set (cs_rows s). of_volunteer (ck_unit r0) (ck_volunteer r0) z}"
        by (intro not_in_keys) (use keys_apart [OF assms(2) x(1) _ _ x(2)] in force)
      then show ?thesis using fresh [OF x(1)] by (simp add: E(2))
    qed
    note same = this
    show ?thesis
    proof (cases "highest (filter (of_volunteer u v) (cs_rows s))")
      case None
      then show ?thesis by (simp add: get_latest_for_volunteer_def f read_checkpoint_def)
    next
      case (Some r)
      have "r \<in> set (cs_rows s)" "of_volunteer u v r" using highest_some [OF Some] by simp_all
      then show ?thesis by (simp add: get_latest_for_volunteer_def f read_checkpoint_def Some same)
    qed
  qed
  ultimately show ?thesis by (simp add: checkpoint_reply_of_def r0)
qed


inductive checkpoint_reach :: "(string \<Rightarrow> string) \<Rightarrow> checkpoint_store \<Rightarrow> bool" for sha where
  none_yet: "checkpoint_reach sha \<lparr>cs_rows = [], cs_files = (\<lambda>_. None), cs_tracking = (\<lambda>_. None)\<rparr>"
| one_save: "checkpoint_reach sha s \<Longrightarrow> dk_sha dk = sha \<Longrightarrow> handle_save ce dk d id rq s = (x, s') \<Longrightarrow> checkpoint_reach sha s'"
| one_delete: "checkpoint_reach sha s \<Longrightarrow> checkpoint_reach sha (delete_checkpoints u s)"

lemma reached_store_sound: "checkpoint_reach sha s \<Longrightarrow> store_sound sha s"
proof (induction rule: checkpoint_reach.induct)
  case (one_save s dk ce d rq x s')
  then show ?case using handle_save_keeps_sound by blast
qed (simp_all add: delete_keeps_sound, simp add: store_sound_def)

text \<open>C11. While no two calls overlap, whatever fails on the disk or in the database on the way, every record keeps its file
  with the bytes its checksum names: the head answers a request for a checkpoint with one or with none, never with an
  error.\<close>

theorem every_record_has_its_file:
  assumes "checkpoint_reach sha s" "account_of k = Some v" "\<exists>c\<in>set (db_copies d). cp_unit c = u \<and> cp_volunteer c = v"
  shows "\<exists>y. handle_get account_of (Some k) d u s = Inr y
    \<and> (\<forall>z. y = Some z \<longrightarrow> (\<exists>r\<in>set (cs_rows s). ck_unit r = u \<and> ck_volunteer r = cy_creator z \<and> ck_sequence r = cy_sequence z
         \<and> sha (cy_data z) = ck_checksum r \<and> (cy_creator z = v \<or> \<not> unit_is_corroborated d u)))"
proof -
  note S = reached_store_sound [OF assms(1)]
  have read: "\<exists>p. read_checkpoint (highest rs) s = Inr p \<and>
      (case p of None \<Rightarrow> True | Some (r, data) \<Rightarrow> r \<in> set rs \<and> sha data = ck_checksum r)"
    if "set rs \<subseteq> set (cs_rows s)" for rs
  proof (cases "highest rs")
    case (Some r)
    have r: "r \<in> set rs" "r \<in> set (cs_rows s)" using highest_some [OF Some] that by auto
    obtain data where "cs_files s (ck_key r) = Some data" "sha data = ck_checksum r" using sound_row(2) [OF S r(2)] by blast
    then show ?thesis using r Some by (simp add: read_checkpoint_def)
  qed (simp add: read_checkpoint_def)
  obtain p where p: "get_latest_for_volunteer u v s = Inr p"
    "case p of None \<Rightarrow> True | Some (r, data) \<Rightarrow> r \<in> set (filter (of_volunteer u v) (cs_rows s)) \<and> sha data = ck_checksum r"
    using read [of "filter (of_volunteer u v) (cs_rows s)"] unfolding get_latest_for_volunteer_def by auto
  obtain q where q: "get_latest u s = Inr q"
    "case q of None \<Rightarrow> True | Some (r, data) \<Rightarrow> r \<in> set (filter (\<lambda>r. ck_unit r = u) (cs_rows s)) \<and> sha data = ck_checksum r"
    using read [of "filter (\<lambda>r. ck_unit r = u) (cs_rows s)"] unfolding get_latest_def by auto
  show ?thesis
  proof (cases p)
    case (Some x)
    obtain r data where "x = (r, data)" by (cases x)
    then show ?thesis using assms(2,3) p Some by (auto simp: handle_get_def checkpoint_reply_of_def of_volunteer_def)
  next
    case None
    note n = None
    show ?thesis
    proof (cases "unit_is_corroborated d u")
      case True
      then show ?thesis using assms(2,3) p n by (simp add: handle_get_def)
    next
      case False
      then have h: "handle_get account_of (Some k) d u s = checkpoint_reply_of (Inr q)" using assms(2,3) p q n by (simp add: handle_get_def)
      show ?thesis
      proof (cases q)
        case (Some x)
        obtain r data where "x = (r, data)" by (cases x)
        then show ?thesis using h q(2) Some False by (auto simp: checkpoint_reply_of_def)
      qed (simp add: h checkpoint_reply_of_def)
    qed
  qed
qed

lemma save_ok_iff:
  "save_checkpoint dk r0 data s = (Inr (), s') \<longleftrightarrow>
     dk_sha dk data = ck_checksum r0 \<and> dk_write_ok dk \<and> dk_db_ok dk \<and> 0 < ck_size r0 \<and>
     storage_key_of r0 \<notin> ck_key ` set (filter (\<lambda>x. \<not> of_volunteer (ck_unit r0) (ck_volunteer r0) x) (cs_rows s)) \<and>
     s' = remove_files (map ck_key (filter (of_volunteer (ck_unit r0) (ck_volunteer r0)) (cs_rows s)))
       (s\<lparr>cs_files := (cs_files s)(storage_key_of r0 \<mapsto> data),
         cs_rows := filter (\<lambda>x. \<not> of_volunteer (ck_unit r0) (ck_volunteer r0) x) (cs_rows s)
           @ [r0\<lparr>ck_key := storage_key_of r0, ck_created_at := dk_now dk\<rparr>],
         cs_tracking := track_checkpoint (r0\<lparr>ck_key := storage_key_of r0\<rparr>) (dk_now dk) (cs_tracking s)\<rparr>)"
  by (auto simp: save_checkpoint_def save_record_def Let_def)

text \<open>C12. Two calls with the same checkpoint that overlap, a client's retry of a save the head is still working on, are both
  accepted and destroy it: the later one commits the record again under the same key and then removes the file of the record it
  replaced, which is the file it has just written. The record stays, and asking for it is an internal error.\<close>

theorem overlapping_retry_destroys_the_checkpoint:
  assumes "handle_save ce dk d id rq s = (Inr (), s1)" "store_sound (dk_sha dk) s" "account_of k = Some (sq_volunteer rq)"
  shows "\<exists>s2. handle_save ce dk d (\<lambda>s. snd (handle_save ce dk d id rq s)) rq s = (Inr (), s2)
    \<and> handle_get account_of (Some k) d (sq_unit rq) s1 \<noteq> Inl RpcInternal
    \<and> handle_get account_of (Some k) d (sq_unit rq) s2 = Inl RpcInternal"
proof -
  obtain w where c: "check_save ce d rq s = Inr w" and
    sv: "save_checkpoint dk (new_checkpoint dk w rq) (sq_data rq) s = (Inr (), s1)"
    using assms(1) by (cases rule: handle_save_cases) (simp_all only: id_apply sum.distinct)
  define r0 where "r0 = new_checkpoint dk w rq"
  define own where "own = of_volunteer (ck_unit r0) (ck_volunteer r0)"
  let ?new = "r0\<lparr>ck_key := storage_key_of r0, ck_created_at := dk_now dk\<rparr>"
  have r0: "ck_unit r0 = sq_unit rq" "ck_volunteer r0 = sq_volunteer rq" by (simp_all add: r0_def new_checkpoint_def)
  have own_new: "own ?new" by (simp add: own_def of_volunteer_def)
  note E = save_effect [OF sv, folded r0_def own_def]
  note I = sv [folded r0_def, unfolded save_ok_iff, folded own_def]
  have f1: "filter (\<lambda>x. \<not> own x) (cs_rows s1) = filter (\<lambda>x. \<not> own x) (cs_rows s)" "filter own (cs_rows s1) = [?new]"
    using own_new by (auto simp: E(1))
  define s2 where "s2 = snd (save_checkpoint dk r0 (sq_data rq) s1)"
  have sv2: "save_checkpoint dk r0 (sq_data rq) s1 = (Inr (), s2)"
  proof -
    have "\<exists>t. save_checkpoint dk r0 (sq_data rq) s1 = (Inr (), t)"
      unfolding save_ok_iff own_def [symmetric] f1 using I by blast
    then show ?thesis by (auto simp: s2_def)
  qed
  note E2 = save_effect [OF sv2, folded own_def]
  have rows2: "filter own (cs_rows s2) = [?new]" using own_new by (auto simp: E2(1))
  have "?new \<in> {x \<in> set (cs_rows s1). own x}" using own_new by (simp add: E(1))
  then have "storage_key_of r0 \<in> ck_key ` {x \<in> set (cs_rows s1). own x}" by (rule rev_image_eqI) simp
  then have "cs_files s2 (ck_key ?new) = None" by (simp add: E2(2))
  then have "get_latest_for_volunteer (sq_unit rq) (sq_volunteer rq) s2 = Inl (Internal ''checkpoint file'')"
    using rows2 by (simp add: get_latest_for_volunteer_def own_def r0 read_checkpoint_def)
  then have "handle_get account_of (Some k) d (sq_unit rq) s2 = checkpoint_reply_of (Inl (Internal ''checkpoint file''))"
    by (intro handle_get_own [where account_of = account_of and k = k, OF assms(3)]) (use check_save_ok(1) [OF c] in simp_all)
  then have "handle_get account_of (Some k) d (sq_unit rq) s2 = Inl RpcInternal" by (simp add: checkpoint_reply_of_def)
  moreover have "handle_save ce dk d (\<lambda>s. snd (handle_save ce dk d id rq s)) rq s = (Inr (), s2)"
    using sv2 by (simp add: handle_save_def c assms(1) r0_def sv)
  moreover have "handle_get account_of (Some k) d (sq_unit rq) s1 \<noteq> Inl RpcInternal"
    using saved_checkpoint_core [where account_of = account_of and k = k, OF assms] by simp
  ultimately show ?thesis by blast
qed

section \<open>Instances\<close>

definition checkpointing_leaf :: leaf where
  "checkpointing_leaf = (active_leaf ''l'' default_validation_config)\<lparr>leaf_fault_tolerance_config :=
     \<lparr>ft_deadline_seconds = None, ft_max_reassignments = 0, ft_checkpointing_enabled = True, ft_checkpoint_interval_seconds = None,
      ft_max_checkpoint_size_bytes = 0\<rparr>\<rparr>"

definition checkpoint_db :: db where
  "checkpoint_db = (sample_db [queued_unit ''u'' ''l''] [reserved_copy ''c1'' ''u'' ''a''] [])\<lparr>db_leafs := [''l'' \<mapsto> checkpointing_leaf]\<rparr>"

definition demo_disk :: disk where
  "demo_disk = \<lparr>dk_sha = (\<lambda>x. x), dk_write_ok = True, dk_db_ok = True, dk_now = 100\<rparr>"

definition demo_save :: save_request where
  "demo_save = \<lparr>sq_unit = ''u'', sq_volunteer = ''a'', sq_sequence = 1, sq_data = ''data''\<rparr>"

definition no_checkpoints :: checkpoint_store where
  "no_checkpoints = \<lparr>cs_rows = [], cs_files = (\<lambda>_. None), cs_tracking = (\<lambda>_. None)\<rparr>"

definition demo_account_of :: "string \<Rightarrow> uid option" where
  "demo_account_of k = (if k = ''k'' then Some ''a'' else None)"

lemma demo_save_accepted: "\<exists>s. handle_save demo_call demo_disk checkpoint_db id demo_save no_checkpoints = (Inr (), s)"
proof -
  have u: "find_unit ''u'' checkpoint_db = Some (queued_unit ''u'' ''l'')" by (simp add: find_unit_def checkpoint_db_def sample_db_def queued_unit_def)
  have a: "find_active ''u'' ''a'' checkpoint_db \<noteq> None" by (simp add: find_active_def checkpoint_db_def sample_db_def reserved_copy_def)
  have l: "db_leafs checkpoint_db (wu_leaf (queued_unit ''u'' ''l'')) = Some checkpointing_leaf" by (simp add: checkpoint_db_def queued_unit_def)
  have "check_save demo_call checkpoint_db demo_save no_checkpoints = Inr (queued_unit ''u'' ''l'')"
    using a by (auto simp: check_save_def demo_save_def demo_authed(1) u l Let_def checkpointing_leaf_def default_max_checkpoint_bytes_def
      latest_sequence_def no_checkpoints_def)
  moreover have "\<exists>s. save_checkpoint demo_disk (new_checkpoint demo_disk (queued_unit ''u'' ''l'') demo_save) (sq_data demo_save) no_checkpoints = (Inr (), s)"
    unfolding save_ok_iff by (simp add: demo_disk_def new_checkpoint_def demo_save_def no_checkpoints_def)
  ultimately show ?thesis by (auto simp: handle_save_def)
qed

lemma no_checkpoints_sound: "store_sound sha no_checkpoints"
  by (simp add: store_sound_def no_checkpoints_def)


theorem every_record_has_its_file_witness:
  "\<exists>s y. checkpoint_reach (\<lambda>x. x) s \<and> cs_rows s \<noteq> [] \<and> handle_get demo_account_of (Some ''k'') checkpoint_db ''u'' s = Inr y"
proof -
  obtain s where s: "handle_save demo_call demo_disk checkpoint_db id demo_save no_checkpoints = (Inr (), s)" using demo_save_accepted by blast
  have r: "checkpoint_reach (\<lambda>x. x) s"
    by (rule one_save [OF none_yet, folded no_checkpoints_def, OF _ s]) (simp add: demo_disk_def)
  have c: "\<exists>c\<in>set (db_copies checkpoint_db). cp_unit c = ''u'' \<and> cp_volunteer c = ''a''"
    by (simp add: checkpoint_db_def sample_db_def reserved_copy_def)
  have "cs_rows s \<noteq> []" using s by (cases rule: handle_save_cases) (simp_all add: save_effect(1))
  moreover have "\<exists>y. handle_get demo_account_of (Some ''k'') checkpoint_db ''u'' s = Inr y"
    using every_record_has_its_file [OF r _ c, where account_of = demo_account_of and k = "''k''"] by (auto simp: demo_account_of_def)
  ultimately show ?thesis using r by blast
qed

theorem overlapping_retry_destroys_the_checkpoint_witness:
  "\<exists>s2. handle_save demo_call demo_disk checkpoint_db (\<lambda>s. snd (handle_save demo_call demo_disk checkpoint_db id demo_save s)) demo_save
       no_checkpoints = (Inr (), s2) \<and> handle_get demo_account_of (Some ''k'') checkpoint_db ''u'' s2 = Inl RpcInternal"
proof -
  obtain s where s: "handle_save demo_call demo_disk checkpoint_db id demo_save no_checkpoints = (Inr (), s)" using demo_save_accepted by blast
  have k: "demo_account_of ''k'' = Some (sq_volunteer demo_save)" by (simp add: demo_account_of_def demo_save_def)
  show ?thesis using overlapping_retry_destroys_the_checkpoint [OF s no_checkpoints_sound, where account_of = demo_account_of and k = "''k''", OF k]
    by (auto simp: demo_save_def)
qed

end
