(* ===== verification/FaultMonitor.thy ===== *)
theory FaultMonitor
  imports Checkpoints
begin

text \<open>
  The leader's periodic scan (\<open>internal/server/fault-monitor.go\<close>): it reads the copies whose time is up, closes them one by
  one, tells the dispatch cache and the machine's reliability, and has the transitioner decide what becomes of each unit; then it
  releases the spot checks that found no partner and the dispatch claims that lapsed. What the rest of the head does
  between two of its steps, and whether a close reaches the database, are arguments. The warnings for the
  operator are left out.
\<close>

section \<open>The scan\<close>

type_synonym head_state = "dcache \<times> db \<times> checkpoint_store"

record scan_env =
  sn_service :: service
  sn_batch :: nat
  sn_close_ok :: "nat \<Rightarrow> bool"
  sn_meanwhile :: "nat \<Rightarrow> head_state \<Rightarrow> head_state"

definition timed_out_outcome :: "unit_copy \<Rightarrow> outcome" where
  "timed_out_outcome cp = (if cp_started_at cp = None then OutAbandoned else OutExpired)"

definition find_stuck_spot_check_units :: "nat \<Rightarrow> db \<Rightarrow> work_unit list" where
  "find_stuck_spot_check_units limit d =
     take limit (sort_key wu_created_at
       (filter (\<lambda>w. wu_state w = Queued \<and> wu_spot_check w \<and> wu_created_at w < db_now d - 3600) (db_units d)))"

text \<open>The close of one copy read before, with what the cache and the machine's record are told of it.\<close>

definition close_timed_out :: "service \<Rightarrow> unit_copy \<Rightarrow> replica \<Rightarrow> replica" where
  "close_timed_out sv cp s =
     (case s of (c, d) \<Rightarrow>
        (on_copy_closed (cp_unit cp) (cp_volunteer cp) False c,
         charge_machine sv (meter_id (cp_volunteer cp) (cp_host cp)) (snd (close_copy (cp_id cp) (timed_out_outcome cp) d))))"

text \<open>The transitioner's decision, which evicts a unit from the cache when it changes its state.\<close>

definition reevaluate :: "service \<Rightarrow> uid \<Rightarrow> replica \<Rightarrow> tr_outcome res \<times> replica" where
  "reevaluate sv u s =
     (case s of (c, d) \<Rightarrow>
       (case evaluate (db_ops (sv_engine sv) (sv_sha_hex sv)) (en_trust_policy (sv_engine sv)) u d of
          (r, ev, d') \<Rightarrow> (r, (if ev then invalidate_work_unit u c else c), d')))"

definition scan_copy :: "service \<Rightarrow> unit_copy \<Rightarrow> head_state \<Rightarrow> head_state" where
  "scan_copy sv cp x =
     (case x of (c, d, s) \<Rightarrow>
       (case reevaluate sv (cp_unit cp) (close_timed_out sv cp (c, d)) of
          (r, c', d') \<Rightarrow> (c', d', if r = Inr ToDeadLettered then delete_checkpoints (cp_unit cp) s else s)))"

fun scan_copies :: "scan_env \<Rightarrow> nat \<Rightarrow> unit_copy list \<Rightarrow> head_state \<Rightarrow> head_state" where
  "scan_copies se n [] x = x"
| "scan_copies se n (cp # cps) x =
     (let x1 = sn_meanwhile se n x
      in scan_copies se (Suc n) cps (if sn_close_ok se n then scan_copy (sn_service se) cp x1 else x1))"

definition scan_spot_check :: "service \<Rightarrow> work_unit \<Rightarrow> head_state \<Rightarrow> head_state" where
  "scan_spot_check sv w x =
     (case x of (c, d, s) \<Rightarrow>
       (case clear_spot_check (wu_id w) d of
          (Inl _, _) \<Rightarrow> x
        | (Inr _, d1) \<Rightarrow> (case reevaluate sv (wu_id w) (c, d1) of (r, c', d') \<Rightarrow> (c', d', s))))"

fun scan_spot_checks :: "scan_env \<Rightarrow> nat \<Rightarrow> work_unit list \<Rightarrow> head_state \<Rightarrow> head_state" where
  "scan_spot_checks se n [] x = x"
| "scan_spot_checks se n (w # ws) x = scan_spot_checks se (Suc n) ws (scan_spot_check (sn_service se) w (sn_meanwhile se n x))"

definition scan_once :: "scan_env \<Rightarrow> head_state \<Rightarrow> head_state" where
  "scan_once se x =
     (let cps = find_expired_copies (sn_batch se) (fst (snd x));
          x1 = scan_copies se 0 cps x;
          ws = find_stuck_spot_check_units (sn_batch se) (fst (snd x1))
      in case scan_spot_checks se (length cps) ws x1 of
           (c, d, s) \<Rightarrow> (c, snd (clear_expired_dispatch_claims d), s))"

section \<open>What a scan closes\<close>

definition closed_with :: "outcome set \<Rightarrow> uid \<Rightarrow> head_state \<Rightarrow> bool" where
  "closed_with outs i x \<longleftrightarrow> copies_closed (\<lambda>j _ _. j = i) outs (fst (snd x))"

lemma reevaluate_closed:
  assumes "reevaluate sv u (c, d) = (r, c', d')" "copies_closed P outs d"
  shows "copies_closed P outs d'"
proof -
  obtain r0 ev d0 where "evaluate (db_ops (sv_engine sv) (sv_sha_hex sv)) (en_trust_policy (sv_engine sv)) u d = (r0, ev, d0)"
    using prod_cases3 by blast
  then show ?thesis using assms evaluation_keeps_closed by (auto simp: reevaluate_def)
qed

lemma charge_machine_closed: "copies_closed P outs (charge_machine sv m d) = copies_closed P outs d"
  by (simp add: charge_machine_def copies_closed_def)

lemma ball_update_where:
  "(\<And>c. c \<in> set cs \<Longrightarrow> P c \<Longrightarrow> R (f c)) \<Longrightarrow> (\<And>c. c \<in> set cs \<Longrightarrow> \<not> P c \<Longrightarrow> R c) \<Longrightarrow> \<forall>c\<in>set (update_where P f cs). R c"
  unfolding set_update_where ball_simps by simp

lemma close_copy_rows:
  "db_copies (snd (close_copy i out d)) = update_where (\<lambda>c. cp_id c = i \<and> cp_outcome c = None)
     (\<lambda>c. c\<lparr>cp_outcome := Some out, cp_outcome_at := Some (db_now d)\<rparr>) (db_copies d)"
  by (simp add: close_copy_def update_copies_def)

lemma close_copy_keeps_closed:
  assumes "copies_closed P outs d"
  shows "copies_closed P outs (snd (close_copy i out d))"
  unfolding copies_closed_def close_copy_rows
  by (rule ball_update_where) (use assms in \<open>auto simp: copies_closed_def\<close>)

lemma close_copy_closes: "copies_closed (\<lambda>j _ _. j = i) UNIV (snd (close_copy i out d))"
  unfolding copies_closed_def close_copy_rows by (rule ball_update_where) auto

lemma close_timed_out_db:
  "close_timed_out sv cp (c, d) = (c1, d1) \<Longrightarrow>
     d1 = charge_machine sv (meter_id (cp_volunteer cp) (cp_host cp)) (snd (close_copy (cp_id cp) (timed_out_outcome cp) d))"
  "close_timed_out sv cp (c, d) = (c1, d1) \<Longrightarrow> c1 = on_copy_closed (cp_unit cp) (cp_volunteer cp) False c"
  by (simp_all add: close_timed_out_def)

lemma scan_copy_closes: "closed_with UNIV (cp_id cp) (scan_copy sv cp x)"
proof -
  obtain c d s where x: "x = (c, d, s)" by (cases x)
  obtain c1 d1 where cl: "close_timed_out sv cp (c, d) = (c1, d1)" by fastforce
  obtain r c2 d2 where ev: "reevaluate sv (cp_unit cp) (c1, d1) = (r, c2, d2)" using prod_cases3 by blast
  have "copies_closed (\<lambda>j _ _. j = cp_id cp) UNIV d1"
    unfolding close_timed_out_db(1) [OF cl] charge_machine_closed by (rule close_copy_closes)
  then have "copies_closed (\<lambda>j _ _. j = cp_id cp) UNIV d2" by (rule reevaluate_closed [OF ev])
  then show ?thesis by (simp add: closed_with_def scan_copy_def x cl ev)
qed

lemma scan_copy_keeps_closed: "closed_with outs i x \<Longrightarrow> closed_with outs i (scan_copy sv cp x)"
proof -
  assume a: "closed_with outs i x"
  obtain c d s where x: "x = (c, d, s)" by (cases x)
  obtain c1 d1 where cl: "close_timed_out sv cp (c, d) = (c1, d1)" by fastforce
  obtain r c2 d2 where ev: "reevaluate sv (cp_unit cp) (c1, d1) = (r, c2, d2)" using prod_cases3 by blast
  have "copies_closed (\<lambda>j _ _. j = i) outs d1"
    unfolding close_timed_out_db(1) [OF cl] charge_machine_closed
    by (rule close_copy_keeps_closed) (use a in \<open>simp add: closed_with_def x\<close>)
  then have "copies_closed (\<lambda>j _ _. j = i) outs d2" by (rule reevaluate_closed [OF ev])
  then show ?thesis by (simp add: closed_with_def scan_copy_def x cl ev)
qed

lemma scan_spot_check_keeps_closed: "closed_with outs i x \<Longrightarrow> closed_with outs i (scan_spot_check sv w x)"
proof -
  assume a: "closed_with outs i x"
  obtain c d s where x: "x = (c, d, s)" by (cases x)
  obtain y d1 where cl: "clear_spot_check (wu_id w) d = (y, d1)" by fastforce
  obtain r c2 d2 where ev: "reevaluate sv (wu_id w) (c, d1) = (r, c2, d2)" using prod_cases3 by blast
  have "db_copies d1 = db_copies d" using cl by (auto simp: clear_spot_check_def Let_def split: if_splits)
  then have "copies_closed (\<lambda>j _ _. j = i) outs d1" using a by (simp add: closed_with_def x copies_closed_def)
  then have "copies_closed (\<lambda>j _ _. j = i) outs d2" by (rule reevaluate_closed [OF ev])
  then show ?thesis using a by (cases y) (simp_all add: closed_with_def scan_spot_check_def x cl ev)
qed

text \<open>The rest of the head never reopens a copy it has closed.\<close>

definition never_reopens :: "scan_env \<Rightarrow> bool" where
  "never_reopens se \<longleftrightarrow> (\<forall>n i x. closed_with UNIV i x \<longrightarrow> closed_with UNIV i (sn_meanwhile se n x))"

lemma never_reopensD: "never_reopens se \<Longrightarrow> closed_with UNIV i x \<Longrightarrow> closed_with UNIV i (sn_meanwhile se n x)"
  by (simp only: never_reopens_def)

lemma scan_copies_keep_closed:
  "never_reopens se \<Longrightarrow> closed_with UNIV i x \<Longrightarrow> closed_with UNIV i (scan_copies se n cps x)"
proof (induction cps arbitrary: n x)
  case (Cons cp cps)
  note m = never_reopensD [OF Cons.prems, of n]
  show ?case unfolding scan_copies.simps Let_def
    by (rule Cons.IH [OF Cons.prems(1)]) (use m scan_copy_keeps_closed [OF m] in \<open>simp only: split: if_split\<close>, blast)
qed (simp only: scan_copies.simps)

lemma scan_spot_checks_keep_closed:
  "never_reopens se \<Longrightarrow> closed_with UNIV i x \<Longrightarrow> closed_with UNIV i (scan_spot_checks se n ws x)"
proof (induction ws arbitrary: n x)
  case (Cons w ws)
  show ?case unfolding scan_spot_checks.simps
    by (rule Cons.IH [OF Cons.prems(1)], rule scan_spot_check_keeps_closed, rule never_reopensD [OF Cons.prems])
qed (simp only: scan_spot_checks.simps)

lemma scan_copies_close:
  assumes "never_reopens se" "\<And>n. sn_close_ok se n" "cp \<in> set cps"
  shows "closed_with UNIV (cp_id cp) (scan_copies se n cps x)"
  using assms(3)
proof (induction cps arbitrary: n x)
  case (Cons a cps)
  show ?case
  proof (cases "cp = a")
    case True
    then show ?thesis using scan_copies_keep_closed [OF assms(1) scan_copy_closes] assms(2) by (simp add: Let_def)
  next
    case False
    then show ?thesis using Cons assms(2) by (simp add: Let_def)
  qed
qed simp


section \<open>What a scan preserves\<close>

definition head_ok :: "cache_config \<Rightarrow> (string \<Rightarrow> string) \<Rightarrow> head_state \<Rightarrow> bool" where
  "head_ok cf sha x \<longleftrightarrow> cache_reachable cf (fst x) \<and> life_ok (fst (snd x)) \<and> store_sound sha (snd (snd x))"

definition keeps_head_ok :: "cache_config \<Rightarrow> (string \<Rightarrow> string) \<Rightarrow> scan_env \<Rightarrow> bool" where
  "keeps_head_ok cf sha se \<longleftrightarrow> (\<forall>n x. head_ok cf sha x \<longrightarrow> head_ok cf sha (sn_meanwhile se n x))"

lemma keeps_head_okD: "keeps_head_ok cf sha se \<Longrightarrow> head_ok cf sha x \<Longrightarrow> head_ok cf sha (sn_meanwhile se n x)"
  by (simp only: keeps_head_ok_def)

lemma life_ok_charge: "life_ok d \<Longrightarrow> life_ok (charge_machine sv m d)"
  by (rule calm_life_ok [where d = d]) (simp_all add: charge_machine_def calm_def unit_states_def find_unit_def)

lemma close_timed_out_ok:
  assumes "close_timed_out sv cp (c, d) = (c1, d1)" "cache_reachable cf c" "life_ok d"
  shows "cache_reachable cf c1" "life_ok d1"
proof -
  show "cache_reachable cf c1" unfolding close_timed_out_db(2) [OF assms(1)] on_copy_closed_def
    by (rule cache_reachable.step [OF assms(2) cache_step.close])
  have "life_ok (snd (close_copy (cp_id cp) (timed_out_outcome cp) d))"
    by (rule calm_life_ok [OF _ assms(3)]) (simp add: close_copy_def calm_copies)
  then show "life_ok d1" unfolding close_timed_out_db(1) [OF assms(1)] by (rule life_ok_charge)
qed

lemma reevaluate_ok:
  assumes "reevaluate sv u (c, d) = (r, c', d')" "cache_reachable cf c" "life_ok d"
  shows "cache_reachable cf c'" "life_ok d'"
proof -
  obtain r0 ev d0 where e: "evaluate (db_ops (sv_engine sv) (sv_sha_hex sv)) (en_trust_policy (sv_engine sv)) u d = (r0, ev, d0)"
    using prod_cases3 by blast
  then have "c' = (if ev then invalidate_work_unit u c else c)" "d' = d0" using assms(1) by (simp_all add: reevaluate_def)
  then show "cache_reachable cf c'" "life_ok d'"
    using assms(2,3) life_ok_evaluate [OF assms(3) e] cache_reachable.step [OF assms(2) cache_step.invalidate] by simp_all
qed

lemma scan_copy_ok:
  assumes "head_ok cf sha x"
  shows "head_ok cf sha (scan_copy sv cp x)"
proof -
  obtain c d s where x: "x = (c, d, s)" by (cases x)
  obtain c1 d1 where cl: "close_timed_out sv cp (c, d) = (c1, d1)" by fastforce
  obtain r c2 d2 where ev: "reevaluate sv (cp_unit cp) (c1, d1) = (r, c2, d2)" using prod_cases3 by blast
  have a: "cache_reachable cf c" "life_ok d" "store_sound sha s" using assms by (simp_all add: head_ok_def x)
  note b = close_timed_out_ok [OF cl a(1,2)]
  show ?thesis using reevaluate_ok [OF ev b] a(3) delete_keeps_sound by (simp add: head_ok_def scan_copy_def x cl ev)
qed

lemma scan_spot_check_ok:
  assumes "head_ok cf sha x"
  shows "head_ok cf sha (scan_spot_check sv w x)"
proof -
  obtain c d s where x: "x = (c, d, s)" by (cases x)
  obtain y d1 where cl: "clear_spot_check (wu_id w) d = (y, d1)" by fastforce
  obtain r c2 d2 where ev: "reevaluate sv (wu_id w) (c, d1) = (r, c2, d2)" using prod_cases3 by blast
  have a: "cache_reachable cf c" "life_ok d" "store_sound sha s" using assms by (simp_all add: head_ok_def x)
  have "life_ok d1" by (rule life_step_ok [OF life_step.clear_spot [OF cl] a(2)])
  then show ?thesis using reevaluate_ok [OF ev a(1)] a by (cases y) (simp_all add: head_ok_def scan_spot_check_def x cl ev)
qed

lemma scan_copies_ok: "keeps_head_ok cf sha se \<Longrightarrow> head_ok cf sha x \<Longrightarrow> head_ok cf sha (scan_copies se n cps x)"
proof (induction cps arbitrary: n x)
  case (Cons cp cps)
  note m = keeps_head_okD [OF Cons.prems, of n]
  show ?case unfolding scan_copies.simps Let_def
    by (rule Cons.IH [OF Cons.prems(1)]) (use m scan_copy_ok [OF m] in \<open>simp only: split: if_split\<close>, blast)
qed (simp only: scan_copies.simps)

lemma scan_spot_checks_ok: "keeps_head_ok cf sha se \<Longrightarrow> head_ok cf sha x \<Longrightarrow> head_ok cf sha (scan_spot_checks se n ws x)"
proof (induction ws arbitrary: n x)
  case (Cons w ws)
  show ?case unfolding scan_spot_checks.simps
    by (rule Cons.IH [OF Cons.prems(1)], rule scan_spot_check_ok, rule keeps_head_okD [OF Cons.prems])
qed (simp only: scan_spot_checks.simps)

lemma clear_claims_ok: "life_ok d \<Longrightarrow> life_ok (snd (clear_expired_dispatch_claims d))"
  by (rule calm_life_ok [where d = d]) (auto simp: clear_expired_dispatch_claims_def Let_def intro!: calm_units)

text \<open>A scan keeps what every history of the head keeps, wherever the rest of the head steps in between: the cache's invariant,
  one row per id and one ledger entry per result, no pending result under a finalized unit, and a file for every checkpoint.\<close>

theorem scan_keeps_the_invariants:
  assumes "keeps_head_ok cf sha se" "head_ok cf sha x"
  shows "head_ok cf sha (scan_once se x) \<and> cache_ok (fst (scan_once se x))"
proof -
  define cps where "cps = find_expired_copies (sn_batch se) (fst (snd x))"
  define x1 where "x1 = scan_copies se 0 cps x"
  define ws where "ws = find_stuck_spot_check_units (sn_batch se) (fst (snd x1))"
  obtain c d s where e: "scan_spot_checks se (length cps) ws x1 = (c, d, s)" by (cases "scan_spot_checks se (length cps) ws x1")
  have "head_ok cf sha x1" unfolding x1_def by (rule scan_copies_ok [OF assms])
  then have "head_ok cf sha (c, d, s)" unfolding e [symmetric] by (rule scan_spot_checks_ok [OF assms(1)])
  moreover have "scan_once se x = (c, snd (clear_expired_dispatch_claims d), s)"
    using e by (simp add: scan_once_def Let_def cps_def x1_def ws_def)
  ultimately show ?thesis using clear_claims_ok cache_ok_reachable by (auto simp: head_ok_def)
qed

section \<open>What the scan does not look at again\<close>

text \<open>A close names the copy and the outcome of the row as read; it does not ask again whether the time is up.\<close>

lemma run_start_rows:
  "db_copies (run_start_db u v d) = update_where (\<lambda>c. cp_unit c = u \<and> cp_volunteer c = v \<and> cp_outcome c = None)
     (started_copy (db_now d)) (db_copies d)"
  by (simp add: run_start_db_def update_copies_def update_units_def)

text \<open>A copy that was closed since, say by its result, stays as it is, but its machine is charged for a timeout all the
  same and its holder benched.\<close>

lemma finished_copy_is_charged:
  assumes "copies_closed (\<lambda>j _ _. j = cp_id cp) UNIV d"
  shows "close_timed_out sv cp (c, d) =
    (on_copy_closed (cp_unit cp) (cp_volunteer cp) False c, charge_machine sv (meter_id (cp_volunteer cp) (cp_host cp)) d)"
proof -
  have "\<not> (\<exists>x\<in>set (db_copies d). cp_id x = cp_id cp \<and> cp_outcome x = None)" using assms by (auto simp: copies_closed_def)
  then have "snd (close_copy (cp_id cp) (timed_out_outcome cp) d) = d" by (simp add: close_copy_def update_copies_none)
  then show ?thesis by (simp add: close_timed_out_def)
qed

text \<open>C14. A copy whose holder starts it between the scan's reading and its close is abandoned under the holder: the head has
  just answered that the work may run, and the close still writes the outcome of a copy nobody started.\<close>

theorem scan_abandons_a_copy_just_started:
  assumes "cp \<in> set (find_expired_copies n d)" "cp_started_at cp = None" "distinct (map cp_id (db_copies d))"
    "\<not> has_in_mem_reservation (cp_unit cp) (cp_volunteer cp) c"
    "start_work sv ce (cp_unit cp) (cp_volunteer cp) (c, d) = Some (Inr Started, (c1, d1))"
    "scan_copy sv cp (c1, d1, s) = (c2, d2, s2)"
  shows "(\<exists>z\<in>set (db_copies d1). cp_id z = cp_id cp \<and> cp_outcome z = None \<and> cp_started_at z = Some (db_now d)) \<and>
    (\<forall>z\<in>set (db_copies d2). cp_id z = cp_id cp \<longrightarrow> cp_outcome z = Some OutAbandoned)"
proof -
  let ?u = "cp_unit cp" and ?v = "cp_volunteer cp"
  have cp: "cp \<in> set (db_copies d)" "cp_outcome cp = None"
    using find_expired_copies_sound [OF assms(1)] by (auto simp: copy_expired_def)
  obtain c0 d0 where fl: "flush_own_hold sv ce ?u ?v (c, d) = Some (True, c0, d0)" and d1: "d1 = run_start_db ?u ?v d0"
    using start_workE [OF assms(5)] by blast
  have "d0 = d" using fl assms(4) by (simp add: flush_own_hold_def)
  then have rows: "db_copies d1 = update_where (\<lambda>c. cp_unit c = ?u \<and> cp_volunteer c = ?v \<and> cp_outcome c = None)
      (started_copy (db_now d)) (db_copies d)" by (simp add: d1 run_start_rows)
  have live: "started_copy (db_now d) cp \<in> set (db_copies d1)"
    unfolding rows set_update_where using cp by (intro image_eqI [where x = cp]) simp_all
  have only: "cp_outcome z = None" if z: "z \<in> set (db_copies d1)" "cp_id z = cp_id cp" for z
  proof -
    obtain y where y: "y \<in> set (db_copies d)" "z = (if cp_unit y = ?u \<and> cp_volunteer y = ?v \<and> cp_outcome y = None then started_copy (db_now d) y else y)"
      using z(1) unfolding rows set_update_where by blast
    then have "cp_id y = cp_id cp" using z(2) by (simp add: started_copy_def split: if_splits)
    then have "y = cp" using assms(3) y(1) cp(1) by (simp add: distinct_map inj_on_def)
    then show ?thesis using y(2) cp(2) by (simp add: started_copy_def)
  qed
  obtain c3 d3 where cl: "close_timed_out sv cp (c1, d1) = (c3, d3)" by fastforce
  obtain r c4 d4 where ev: "reevaluate sv ?u (c3, d3) = (r, c4, d4)" using prod_cases3 by blast
  have "copies_closed (\<lambda>j _ _. j = cp_id cp) {OutAbandoned} (snd (close_copy (cp_id cp) (timed_out_outcome cp) d1))"
    unfolding copies_closed_def close_copy_rows
    by (rule ball_update_where) (use only assms(2) in \<open>auto simp: timed_out_outcome_def\<close>)
  then have "copies_closed (\<lambda>j _ _. j = cp_id cp) {OutAbandoned} d3"
    unfolding close_timed_out_db(1) [OF cl] charge_machine_closed .
  then have "copies_closed (\<lambda>j _ _. j = cp_id cp) {OutAbandoned} d4" by (rule reevaluate_closed [OF ev])
  moreover have "d2 = d4" using assms(6) by (simp add: scan_copy_def cl ev)
  moreover have "cp_id (started_copy (db_now d) cp) = cp_id cp \<and> cp_outcome (started_copy (db_now d) cp) = None
      \<and> cp_started_at (started_copy (db_now d) cp) = Some (db_now d)" using cp(2) assms(2) by (simp add: started_copy_def)
  ultimately show ?thesis using live by (auto simp: copies_closed_def)
qed

section \<open>Instances\<close>

definition lapsed_copy :: unit_copy where
  "lapsed_copy = (reserved_copy ''c1'' ''u'' ''a'')\<lparr>cp_reserved_until := Some 50\<rparr>"

definition lapsed_db :: db where
  "lapsed_db = sample_db [queued_unit ''u'' ''l''] [lapsed_copy] []"

definition quiet_scan :: scan_env where
  "quiet_scan = \<lparr>sn_service = demo_service, sn_batch = 100, sn_close_ok = (\<lambda>_. True), sn_meanwhile = (\<lambda>_ x. x)\<rparr>"

lemma lapsed_found: "find_expired_copies (Suc n) lapsed_db = [lapsed_copy]"
  by (simp add: find_expired_copies_def lapsed_db_def lapsed_copy_def sample_db_def reserved_copy_def copy_expired_def)


theorem scan_keeps_the_invariants_witness:
  "head_ok demo_config (\<lambda>x. x) (scan_once quiet_scan (fresh_cache 100, lapsed_db, no_checkpoints))"
proof -
  have "head_ok demo_config (\<lambda>x. x) (fresh_cache 100, lapsed_db, no_checkpoints)"
    by (simp add: head_ok_def cache_reachable.fresh no_checkpoints_sound life_ok_def store_ok_def ledger_ok_def units_distinct_def
      results_distinct_def terminal_clean_def lapsed_db_def sample_db_def queued_unit_def is_terminal_state_def)
  moreover have "keeps_head_ok demo_config (\<lambda>x. x) quiet_scan" by (simp add: keeps_head_ok_def quiet_scan_def)
  ultimately show ?thesis using scan_keeps_the_invariants by blast
qed

theorem scan_abandons_a_copy_just_started_witness:
  "\<exists>c1 d1 c2 d2 s2. start_work demo_service demo_call ''u'' ''a'' (fresh_cache 100, lapsed_db) = Some (Inr Started, (c1, d1)) \<and>
     scan_copy demo_service lapsed_copy (c1, d1, no_checkpoints) = (c2, d2, s2) \<and>
     (\<exists>z\<in>set (db_copies d1). cp_id z = ''c1'' \<and> cp_started_at z = Some 100) \<and>
     \<not> (\<exists>z\<in>set (db_copies d2). cp_id z = ''c1'' \<and> cp_outcome z \<noteq> Some OutAbandoned)"
proof -
  have cp: "cp_unit lapsed_copy = ''u''" "cp_volunteer lapsed_copy = ''a''" "cp_id lapsed_copy = ''c1''" "cp_started_at lapsed_copy = None"
    by (simp_all add: lapsed_copy_def reserved_copy_def)
  have q: "unit_states lapsed_db ''u'' = Some Queued"
    by (simp add: unit_states_def find_unit_def lapsed_db_def sample_db_def queued_unit_def)
  have h: "\<not> has_in_mem_reservation ''u'' ''a'' (fresh_cache 100)"
    by (simp add: has_in_mem_reservation_def holders_of_def fresh_cache_def)
  have l: "live_copy_of ''u'' ''a'' lapsed_db" by (simp add: live_copy_of_def lapsed_db_def sample_db_def lapsed_copy_def reserved_copy_def)
  obtain c1 d1 where st: "start_work demo_service demo_call ''u'' ''a'' (fresh_cache 100, lapsed_db) = Some (Inr Started, (c1, d1))"
    using start_workI [OF demo_authed q h l] by blast
  obtain c2 d2 s2 where sc: "scan_copy demo_service lapsed_copy (c1, d1, no_checkpoints) = (c2, d2, s2)" using prod_cases3 by blast
  have f: "lapsed_copy \<in> set (find_expired_copies 1 lapsed_db)" using lapsed_found [of 0] by simp
  have i: "distinct (map cp_id (db_copies lapsed_db))" by (simp add: lapsed_db_def sample_db_def)
  have n: "db_now lapsed_db = 100" by (simp add: lapsed_db_def sample_db_def)
  from scan_abandons_a_copy_just_started [OF f cp(4) i, unfolded cp n, OF h st sc]
  show ?thesis using st sc by blast
qed

end
