(* ===== verification/Spec2Isabelle.thy ===== *)
theory Spec2Isabelle
  imports Enforcement DispatchPoll ClientPreview Splitting RequestAuth Registration FaultMonitor
begin

text \<open>
  Lettuce-compute: a head hands copies of work units to volunteers, collects their results, decides by
  redundancy which of them to believe, and pays credit for those. This library models the head's core
  (\<open>src/services/infrastructure/internal\<close>) and what the volunteer client decides about its own machine
  (\<open>src/services/volunteer-cli/internal/daemon\<close>): how many cores a task gets, which buffered unit starts next, how
  much work to ask for. Everything is translated from the Go sources.

  \<^bold>\<open>The parts and how they interact.\<close> A leaf is a project with its redundancy configuration; its work
  units live in one database, written there by a generator: a sweep, Monte Carlo trials, the chunks of a map-reduce
  input, all at once or lazily window by window, or an upload. The dispatch cache of a replica stages dispatchable units, hands them to
  polling machines in memory and lands the hand-outs in the database as copies. A result is submitted
  under a copy; the transitioner then loads the unit's snapshot, takes the redundancy decision and
  applies it: the validation engine accepts or rejects the pending results in one transaction, or the
  unit is reopened or dead-lettered. Acceptance pays credit and moves trust, standing and machine
  reliability. Some validated units are audited; a confirmed mismatch starts the enforcement pass, which
  slashes, claws back, repairs and demotes.

  \<^bold>\<open>Conventions.\<close> Every operation is a function of explicit state; a transaction is \<open>in_tx\<close>, which
  restores the state on an error; an error is \<open>Inl\<close> of a value of \<open>error\<close>. SQL statements are functions
  of the tables they read, on the tables of \<open>Database\<close>. Identifiers are the strings the code renders,
  clock readings whole seconds. A Go \<open>int\<close> is an \<open>int\<close>, except where the width matters
  (the clique masks of \<open>Comparator\<close> are 64-bit words, parsed decimals of \<open>Decimals\<close> are bounded);
  a \<open>float64\<close> is a rational rounded by \<open>rnd\<close> of \<open>Float64\<close>. Exponentials, SHA-256 and the JSON decoder are
  arguments of what uses them.

  \<^bold>\<open>Vocabulary.\<close> \<open>Prelude\<close>: results, transactions, list lemmas. \<open>Float64\<close>: binary64 rounding.
  \<open>Decimals\<close>: \<open>strconv\<close> on 64-bit integers.

  \<^bold>\<open>Data and configuration.\<close> \<open>WorkUnits\<close> (\<open>workunit/model.go\<close>, \<open>state.go\<close>, \<open>copy.go\<close>): units, copies and
  the state chart. \<open>LeafConfig\<close> (\<open>leaf/model.go\<close>, \<open>validation.go\<close>, \<open>state.go\<close>): sections, defaults and
  validators. \<open>Accounts\<close> (\<open>trust/\<close>, \<open>standing/\<close>, \<open>volunteer/model.go\<close>), \<open>Results\<close> (\<open>result/model.go\<close>,
  \<open>transition/verdict.go\<close>), \<open>Reliability\<close> (\<open>reliability/\<close>). Their lemmas give bounds (scores in range,
  budgets earned and bounded) and the behaviour of every validator on its error branches.

  \<^bold>\<open>The decision.\<close> \<open>Policy\<close> (\<open>transition/policy.go\<close>, \<open>trust.go\<close>, \<open>workunit/redundancy_sql.go\<close>) resolves a unit's
  contract in Go and in SQL and proves the two equal on validated leafs; \<open>Decide\<close> (\<open>transition/decide.go\<close>)
  is the decision, proved to validate exactly on its four gates.

  \<^bold>\<open>Comparison.\<close> \<open>Output\<close> flattens and keys outputs, \<open>Comparator\<close> groups them
  (\<open>validation/engine.go\<close>, \<open>submitgate.go\<close>, \<open>adjudicate.go\<close>): the EXACT comparator returns the unique largest class, the
  bit-mask clique search equals the specification of a unique maximum clique up to 62 candidates and is
  blind from 63 on, the submit gate admits only what the comparator can read.

  \<^bold>\<open>The database.\<close> \<open>Database\<close> holds the tables and the shared counting SQL; \<open>UnitStore\<close>, \<open>CopyStore\<close>
  (\<open>workunit/pgx-repo.go\<close>, \<open>assignment/pgx-repo.go\<close>) and \<open>ResultStore\<close> (\<open>result/pgx-repo.go\<close>, \<open>credit/pgx-repo.go\<close>,
  \<open>server/volunteer-service.go\<close>) their guarded statements. \<open>Finalize\<close> and \<open>Accrual\<close>
  (\<open>validation/engine.go\<close>) are the acceptance and rejection transactions and what follows their commit;
  \<open>Transitioner\<close> (\<open>transition/transitioner.go\<close>) states the stores it needs as a locale and \<open>Evaluation\<close>
  interprets it on the database. \<open>Agreement\<close> relates the loaded snapshot to the SQL the dead-letter and
  dispatch statements re-compute. \<open>Revive\<close> holds the exits of a finalized unit. \<open>Lifecycle\<close> is the step
  relation over all of these: a terminal unit never keeps a pending result, keys are unique, one ledger
  entry per result, whatever the interleaving of committed operations.

  \<^bold>\<open>Dispatch.\<close> \<open>Capability\<close> and \<open>DispatchQueries\<close> (\<open>workunit/repository.go\<close>, \<open>pgx-repo.go\<close>) are the requester's
  view; \<open>DispatchCache\<close> (\<open>server/dispatch_cache.go\<close>) one definition per critical section; \<open>DispatchInvariant\<close>
  and \<open>DispatchSteps\<close> prove the cache invariant over every interleaving of them; \<open>DispatchAgreement\<close> that the
  pool refuses nobody the query would serve; \<open>DispatchFlow\<close> and \<open>DispatchPoll\<close>
  (\<open>dispatch_requester_fallback.go\<close>, \<open>dispatch_no_work_reason.go\<close>) compose cache and database.

  \<^bold>\<open>The calls of a volunteer.\<close> \<open>Registration\<close> (\<open>admission/\<close>, \<open>pow/pow.go\<close>, \<open>volunteer/host-repo.go\<close>,
  \<open>server/volunteer-service.go\<close>): how an account and its machines get in; the daily cap is exact over every
  interleaving of registrations and sweeps, no challenge pays twice, an account keeps to its machine cap. \<open>RequestAuth\<close>
  (\<open>server/grpc_auth.go\<close>, \<open>grpc_admission.go\<close>, \<open>replay_store.go\<close>): the signature of a call, with the store of seen
  signatures as a locale. \<open>Service\<close> (\<open>server/volunteer-service.go\<close>): asking for work, starting and abandoning a unit
  as compositions of the cache's critical sections and the database's statements; a refused start and an abandonment
  leave no phantom hold. \<open>Checkpoints\<close> (\<open>checkpoint/pgx-repo.go\<close>, \<open>server/volunteer-service.go\<close>): records and their
  files; a saved checkpoint is read back, and two overlapping saves of one destroy it. \<open>FaultMonitor\<close>
  (\<open>server/fault-monitor.go\<close>): the periodic scan over copies past their time, with the rest of the head stepping in between.

  \<^bold>\<open>Money and audits.\<close> \<open>Settlement\<close> (\<open>credit/adjustments-pgx-repo.go\<close>, \<open>rac-repo.go\<close>): compensating entries
  and the recent average. \<open>Audits\<close> (\<open>audit/pgx-repo.go\<close>, \<open>server/audit-service.go\<close>): the audit queue as a step
  relation. \<open>Enforcement\<close> (\<open>audit/enforcement_sweep.go\<close>, \<open>validation/repair.go\<close>): the pass, its evidence rule
  and what an interruption leaves.

  \<^bold>\<open>Generation.\<close> \<open>Generation\<close> (\<open>paramsweep/generator.go\<close>): parameter spaces and their enumeration; an index
  decodes to the element of the Cartesian product, an integer range expands to exactly its values, a step below the
  float's resolution never ends. \<open>LazyGeneration\<close> (\<open>generate/\<close>, \<open>montecarlo/generator.go\<close>, \<open>workunit/handler.go\<close>):
  the sink as a locale interpreted on the transactional sink and on the lazy tick's wrapper of it, the generators, the
  lazy manager, and the step relation of overlapping leaders with its invariant; lazy ticks end with the units of one
  eager call. \<open>Splitting\<close> (\<open>mapreduce/\<close>, \<open>custom/handler.go\<close>): splitters lose nothing and keep their bounds; what the
  JSON column and the page of batches make of chunks and uploads.

  \<^bold>\<open>The volunteer client.\<close> \<open>ClientBudget\<close> (\<open>daemon/cpu_budget.go\<close>, \<open>leaf_override.go\<close>): bookings, core ranges, the
  ledger and grants. \<open>ClientAdmission\<close> (\<open>daemon.go\<close>, \<open>prefetch.go\<close>, \<open>slot.go\<close>): admission, the queue, the picker and
  the slot filler, and the step relation in which grants stay within the budget. \<open>ClientResume\<close> (\<open>daemon.go\<close>): what
  the picker may pass, the tasks resumed at start, and three histories that defeat the documented guarantees.
  \<open>ClientBuffer\<close> (\<open>durations.go\<close>, \<open>daemon.go\<close>, \<open>fetcher.go\<close>): estimates, the buffer's targets and verdicts, the size of
  a request. \<open>ClientPreview\<close> (\<open>run_preview.go\<close>): the simulated starts.

  \<^bold>\<open>Bounds and fuel.\<close> \<open>flush_all_pending_held\<close> counts its passes with fuel and returns None when it runs
  out; the termination lemma gives fuel equal to the number of queued writes. \<open>range_loop\<close> of \<open>Generation\<close> is a partial
  function, None where the code's loop never ends, which it does for some requests. Every other loop is
  structural recursion or has a termination proof (\<open>fill_slots\<close> by the length of the queue). The clique lemmas are bounded by the 62 candidates the
  word holds; the settlement lemmas bound amounts by \<open>2^30\<close>.

  \<^bold>\<open>Not modelled.\<close> Transport (HTTP, gRPC), the shared replay store, connection pools, logging and metrics;
  attestations and revocations; the cryptography; aggregation and statistics; rate limits; the client's
  runtimes, process supervision, command line and management surface; failures of the connection itself, except where an
  argument says that a call failed; cancellation between statements. Per-unit advisory locks are best
  effort in the code and absent here.
\<close>

end
